(* ===== verification/Prelude.thy ===== *)
theory Prelude
  imports Main "HOL-Library.Monad_Syntax" "HOL-Library.Multiset" "HOL-Library.Word"
begin

text \<open>
  Shared vocabulary of the development.

  The modelled code is C. A computation that may run into undefined behaviour (a NULL or
  dangling pointer, an index outside an array, a double \<open>free\<close>, a signed overflow) has an
  \<open>option\<close> type and is written in the option monad: \<open>None\<close> is "the behaviour is undefined, or
  the loop does not return", \<open>Some r\<close> is a normal return. A theorem that an operation is
  correct therefore always states that it returns \<open>Some\<close>.

  The theory holds the C integer arithmetic and array accesses, the type of addresses, and the
  list lemmas that the component theories share.
\<close>

named_theorems fault_simps \<open>when a checked primitive succeeds\<close>

type_synonym byte = "8 word"

text \<open>An address; \<open>0\<close> is \<open>NULL\<close>.\<close>

type_synonym addr = nat

abbreviation (input) NULL :: addr where
  "NULL \<equiv> 0"

text \<open>\<open>p \<noteq> NULL\<close> is kept as it is, not turned into \<open>0 < p\<close>.\<close>

declare neq0_conv [iff del] bot_nat_0.not_eq_extremum [simp del]

section \<open>C integers\<close>

definition INT_MAX :: int where
  "INT_MAX = 2147483647"

definition INT_MIN :: int where
  "INT_MIN = - 2147483648"

text \<open>Signed addition: leaving the range of \<open>int\<close> is undefined behaviour.\<close>

definition c_int_add :: "int \<Rightarrow> int \<Rightarrow> int option" where
  "c_int_add x y = (if INT_MIN \<le> x + y \<and> x + y \<le> INT_MAX then Some (x + y) else None)"

text \<open>The remainder \<open>%\<close> truncates towards zero, and \<open>x % 0\<close> is undefined.\<close>

definition c_int_rem :: "int \<Rightarrow> int \<Rightarrow> int option" where
  "c_int_rem x y = (if y = 0 then None else Some (sgn x * (\<bar>x\<bar> mod \<bar>y\<bar>)))"

lemma c_int_add_ok [fault_simps]:
  "INT_MIN \<le> x + y \<Longrightarrow> x + y \<le> INT_MAX \<Longrightarrow> c_int_add x y = Some (x + y)"
  by (simp add: c_int_add_def)

lemma c_int_rem_nonneg [fault_simps]:
  "0 \<le> x \<Longrightarrow> 0 < y \<Longrightarrow> c_int_rem x y = Some (x mod y)"
  by (cases "x = 0") (auto simp: c_int_rem_def)

section \<open>Checked array access with a C \<open>int\<close> index\<close>

definition arr_get :: "'a list \<Rightarrow> int \<Rightarrow> 'a option" where
  "arr_get a i = (if 0 \<le> i \<and> i < int (length a) then Some (a ! nat i) else None)"

definition arr_set :: "'a list \<Rightarrow> int \<Rightarrow> 'a \<Rightarrow> 'a list option" where
  "arr_set a i v = (if 0 \<le> i \<and> i < int (length a) then Some (a[nat i := v]) else None)"

lemma arr_get_ok [fault_simps]:
  "0 \<le> i \<Longrightarrow> i < int (length a) \<Longrightarrow> arr_get a i = Some (a ! nat i)"
  by (simp add: arr_get_def)

lemma arr_set_ok [fault_simps]:
  "0 \<le> i \<Longrightarrow> i < int (length a) \<Longrightarrow> arr_set a i v = Some (a[nat i := v])"
  by (simp add: arr_set_def)

lemma nth_upd_int:
  assumes "0 \<le> i" "i < int (length a)" "0 \<le> j"
  shows "a[nat i := v] ! nat j = (if i = j then v else a ! nat j)"
  using assms by (auto simp: nth_list_update nat_eq_iff)

section \<open>Lists\<close>

lemma mset_move_hole:
  assumes "i < length a" "j < length a"
  shows "mset (a[i := a ! j, j := v]) = mset (a[i := v])"
proof -
  have "mset ((a[i := v])[j := (a[i := v]) ! i, i := (a[i := v]) ! j]) = mset (a[i := v])"
    using assms by (intro mset_swap) auto
  moreover have "(a[i := v])[j := (a[i := v]) ! i, i := (a[i := v]) ! j] = a[i := a ! j, j := v]"
    using assms by (cases "i = j") (auto simp: list_update_swap [of j i])
  ultimately show ?thesis by simp
qed

section \<open>Objects and byte buffers\<close>

text \<open>
  The content of a C object, \<open>None\<close> while it is indeterminate. A parameter of pointer type is an
  \<open>'a obj option\<close>: \<open>None\<close> is the NULL pointer, \<open>Some v\<close> points to an object with content \<open>v\<close>.
\<close>

type_synonym 'a obj = "'a option"

text \<open>
  A global pointer to a heap structure: NULL, dangling after the structure was freed without the
  pointer being reset, or valid. Following it is a fault unless it is valid.
\<close>

datatype 'a gptr = Null | Freed | Ptr 'a

fun deref :: "'a gptr \<Rightarrow> 'a option" where
  "deref (Ptr x) = Some x"
| "deref _ = None"

text \<open>Result codes of the queues; the libraries' \<open>RET_ERROR\<close> is the error code.\<close>

datatype queue_ret_t = QUEUE_SUCCESS | QUEUE_ERROR | QUEUE_EMPTY | QUEUE_FULL

abbreviation RET_ERROR :: queue_ret_t where
  "RET_ERROR \<equiv> QUEUE_ERROR"

text \<open>\<open>memcpy\<close> of \<open>n\<close> bytes into and out of a buffer at a byte offset.\<close>

definition buf_write :: "'a list \<Rightarrow> nat \<Rightarrow> 'a list \<Rightarrow> nat \<Rightarrow> 'a list option" where
  "buf_write buf off src n =
     (if off + n \<le> length buf \<and> n \<le> length src
      then Some (take off buf @ take n src @ drop (off + n) buf) else None)"

definition buf_read :: "'a list \<Rightarrow> nat \<Rightarrow> nat \<Rightarrow> 'a list option" where
  "buf_read buf off n = (if off + n \<le> length buf then Some (take n (drop off buf)) else None)"

text \<open>The \<open>i\<close>-th slot of a buffer of slots of \<open>n\<close> bytes.\<close>

definition slot :: "nat \<Rightarrow> 'a list \<Rightarrow> nat \<Rightarrow> 'a list" where
  "slot n buf i = take n (drop (i * n) buf)"

lemma slot_bound: "i < k \<Longrightarrow> i * n + n \<le> k * (n :: nat)"
  by (metis Suc_leI add.commute mult_Suc mult_le_mono1)

lemma buf_write_length: "buf_write buf off src n = Some buf' \<Longrightarrow> length buf' = length buf"
  by (auto simp: buf_write_def split: if_splits)

lemma slot_write:
  assumes w: "buf_write buf (i * n) src n = Some buf'" and j: "j * n + n \<le> length buf"
  shows "slot n buf' j = (if j = i then take n src else slot n buf j)"
proof -
  have len: "i * n + n \<le> length buf" "n \<le> length src"
    and buf': "buf' = take (i * n) buf @ take n src @ drop (i * n + n) buf"
    using w by (auto simp: buf_write_def split: if_splits)
  consider "j = i" | "j < i" | "i < j" by linarith
  then show ?thesis
  proof cases
    case 1
    then show ?thesis using len by (simp add: slot_def buf')
  next
    case 2
    then have "j * n + n \<le> i * n" by (rule slot_bound)
    then have "n \<le> i * n - j * n" "n \<le> length buf - j * n"
      using j by arith+
    with 2 len show ?thesis
      by (simp add: slot_def buf' drop_take)
  next
    case 3
    then have "i * n + n \<le> j * n" by (rule slot_bound)
    with 3 len show ?thesis
      by (simp add: slot_def buf')
  qed
qed

end
