(* ===== verification/Byte_Queue.thy ===== *)
theory Byte_Queue
  imports Prelude
begin

text \<open>
  The contract of the two queues of \<open>lib_queue\<close>: a queue of byte blocks of one fixed size, first
  in first out, bounded or not. An abstract specification works on a plain list; a queue
  implementation refines it when every run of operations returns the same results.
\<close>

text \<open>\<open>'e\<close> is what the environment contributes to an enqueue (the addresses \<open>malloc\<close> returns).\<close>

datatype ('e, 'b) qop = Enq 'e "'b" | Deq

datatype 'b qres = Done queue_ret_t | Got "'b"

section \<open>Specification\<close>

definition spec_full :: "nat option \<Rightarrow> 'b list \<Rightarrow> bool" where
  "spec_full cap ds \<longleftrightarrow> (case cap of None \<Rightarrow> False | Some c \<Rightarrow> c \<le> length ds)"

fun spec_step :: "nat option \<Rightarrow> ('e, 'b) qop \<Rightarrow> 'b list \<Rightarrow> 'b qres \<times> 'b list" where
  "spec_step cap (Enq e d) ds =
     (if spec_full cap ds then (Done QUEUE_FULL, ds) else (Done QUEUE_SUCCESS, ds @ [d]))"
| "spec_step cap Deq ds = (case ds of [] \<Rightarrow> (Done QUEUE_EMPTY, []) | d # ds' \<Rightarrow> (Got d, ds'))"

fun spec_run :: "nat option \<Rightarrow> ('e, 'b) qop list \<Rightarrow> 'b list \<Rightarrow> 'b qres list \<times> 'b list" where
  "spec_run cap [] ds = ([], ds)"
| "spec_run cap (x # xs) ds =
     (let (r, ds') = spec_step cap x ds; (rs, ds'') = spec_run cap xs ds' in (r # rs, ds''))"

section \<open>Implementations\<close>

type_synonym ('e, 'b, 'q) q_enq = "'e \<Rightarrow> 'b \<Rightarrow> 'q \<Rightarrow> (queue_ret_t \<times> 'q) option"
type_synonym ('b, 'q) q_deq = "'q \<Rightarrow> (queue_ret_t \<times> 'b \<times> 'q) option"

fun q_step :: "('e, 'b, 'q) q_enq \<Rightarrow> ('b, 'q) q_deq \<Rightarrow> ('e, 'b) qop \<Rightarrow> 'q \<Rightarrow> ('b qres \<times> 'q) option" where
  "q_step enq deq (Enq e d) q = map_option (\<lambda>(r, q'). (Done r, q')) (enq e d q)"
| "q_step enq deq Deq q =
     map_option (\<lambda>(r, d, q'). (if r = QUEUE_SUCCESS then Got d else Done r, q')) (deq q)"

fun q_run :: "('e, 'b, 'q) q_enq \<Rightarrow> ('b, 'q) q_deq \<Rightarrow> ('e, 'b) qop list \<Rightarrow> 'q \<Rightarrow> ('b qres list \<times> 'q) option" where
  "q_run enq deq [] q = Some ([], q)"
| "q_run enq deq (x # xs) q = do {
     (r, q) \<leftarrow> q_step enq deq x q;
     (rs, q) \<leftarrow> q_run enq deq xs q;
     Some (r # rs, q) }"

text \<open>The environment does its part at every step of a run.\<close>

fun env_run :: "('e \<Rightarrow> 'b \<Rightarrow> 'q \<Rightarrow> bool) \<Rightarrow> ('e, 'b, 'q) q_enq \<Rightarrow> ('b, 'q) q_deq \<Rightarrow> ('e, 'b) qop list \<Rightarrow> 'q \<Rightarrow> bool" where
  "env_run ok enq deq [] q = True"
| "env_run ok enq deq (x # xs) q =
     ((case x of Enq e d \<Rightarrow> ok e d q | Deq \<Rightarrow> True) \<and>
      (case q_step enq deq x q of None \<Rightarrow> True | Some (r, q') \<Rightarrow> env_run ok enq deq xs q'))"

locale byte_queue =
  fixes enq :: "('e, 'b, 'q) q_enq" and deq :: "('b, 'q) q_deq"
    and rep :: "'q \<Rightarrow> 'b list \<Rightarrow> bool" and cap :: "'q \<Rightarrow> nat option"
    and ok :: "'e \<Rightarrow> 'b \<Rightarrow> 'q \<Rightarrow> bool"
  assumes enq_full: "rep q ds \<Longrightarrow> ok e d q \<Longrightarrow> spec_full (cap q) ds \<Longrightarrow>
      enq e d q = Some (QUEUE_FULL, q)"
    and enq_ok: "rep q ds \<Longrightarrow> ok e d q \<Longrightarrow> \<not> spec_full (cap q) ds \<Longrightarrow>
      \<exists>q'. enq e d q = Some (QUEUE_SUCCESS, q') \<and> rep q' (ds @ [d]) \<and> cap q' = cap q"
    and deq_empty: "rep q [] \<Longrightarrow> \<exists>d. deq q = Some (QUEUE_EMPTY, d, q)"
    and deq_ok: "rep q (x # xs) \<Longrightarrow>
      \<exists>q'. deq q = Some (QUEUE_SUCCESS, x, q') \<and> rep q' xs \<and> cap q' = cap q"
begin

lemma step_refines:
  assumes "rep q ds" "case x of Enq e d \<Rightarrow> ok e d q | Deq \<Rightarrow> True"
  shows "\<exists>q'. q_step enq deq x q = Some (fst (spec_step (cap q) x ds), q') \<and>
    rep q' (snd (spec_step (cap q) x ds)) \<and> cap q' = cap q"
proof (cases x)
  case (Enq e d)
  with assms show ?thesis
    using enq_full [of q ds e d] enq_ok [of q ds e d] by (cases "spec_full (cap q) ds") auto
next
  case Deq
  with assms show ?thesis
    using deq_empty [of q] deq_ok [of q] by (cases ds) auto
qed

theorem run_refines:
  "rep q ds \<Longrightarrow> env_run ok enq deq xs q \<Longrightarrow>
   \<exists>q'. q_run enq deq xs q = Some (fst (spec_run (cap q) xs ds), q') \<and>
     rep q' (snd (spec_run (cap q) xs ds))"
proof (induction xs arbitrary: q ds)
  case (Cons x xs)
  obtain q' where q': "q_step enq deq x q = Some (fst (spec_step (cap q) x ds), q')"
    "rep q' (snd (spec_step (cap q) x ds))" "cap q' = cap q"
    using step_refines [of q ds x] Cons.prems by auto
  with Cons.IH [of q' "snd (spec_step (cap q) x ds)"] Cons.prems show ?case
    by (auto split: prod.splits)
qed auto

end

end
