(* ===== verification/Seq_Queue.thy ===== *)
theory Seq_Queue
  imports Byte_Queue
begin

text \<open>
  The array queue \<open>lib_queue/seq\<close>: a ring of \<open>nodeCnt = queueLen + 1\<close> slots of \<open>dataSize\<close> bytes
  in one buffer, one slot always free. A \<open>SeqQueue*\<close> is a \<open>SeqQueue option\<close>, NULL being \<open>None\<close>.
  The \<open>int\<close> fields are \<open>int\<close>s with overflow as a fault, \<open>size_t\<close> is \<open>nat\<close>.
\<close>

record SeqQueue =
  sq_front :: int
  sq_rear :: int
  sq_dataSize :: nat
  sq_nodeCnt :: int
  sq_queuePtr :: "byte list"

text \<open>The conversion of an \<open>int\<close> to a 64-bit \<open>size_t\<close>.\<close>

definition size_of_int :: "int \<Rightarrow> nat" where
  "size_of_int n = nat (n mod 2 ^ 64)"

text \<open>
  The two flags say whether \<open>malloc\<close> and \<open>calloc\<close> succeed. The result of \<open>malloc\<close> is not checked:
  writing through NULL is a fault.
\<close>

definition InitSeqQueue :: "bool \<Rightarrow> bool \<Rightarrow> int \<Rightarrow> nat \<Rightarrow> SeqQueue option option" where
  "InitSeqQueue malloc_ok calloc_ok queueLen dataSize =
     (if \<not> malloc_ok then None
      else do {
        nodeCnt \<leftarrow> c_int_add queueLen 1;
        if \<not> calloc_ok then Some None
        else Some (Some
          \<lparr>sq_front = 0, sq_rear = 0, sq_dataSize = dataSize, sq_nodeCnt = nodeCnt,
           sq_queuePtr = replicate (size_of_int nodeCnt * dataSize) 0\<rparr>) })"

text \<open>A wrong \<open>dataSize\<close> argument is only logged; the copy uses the queue's own size.\<close>

definition EnSeqQueue :: "SeqQueue \<Rightarrow> byte list \<Rightarrow> nat \<Rightarrow> (queue_ret_t \<times> SeqQueue) option" where
  "EnSeqQueue q data dataSize = do {
     r1 \<leftarrow> c_int_add (sq_rear q) 1;
     nr \<leftarrow> c_int_rem r1 (sq_nodeCnt q);
     if nr = sq_front q then Some (QUEUE_FULL, q)
     else do {
       buf \<leftarrow> buf_write (sq_queuePtr q) (size_of_int (sq_rear q) * sq_dataSize q) data (sq_dataSize q);
       Some (QUEUE_SUCCESS, q\<lparr>sq_queuePtr := buf, sq_rear := nr\<rparr>) } }"

text \<open>\<open>data\<close> is the caller's buffer; the result holds its new content.\<close>

definition DeSeqQueue :: "SeqQueue \<Rightarrow> byte list \<Rightarrow> nat \<Rightarrow> (queue_ret_t \<times> byte list \<times> SeqQueue) option" where
  "DeSeqQueue q data dataSize =
     (if sq_front q = sq_rear q then Some (QUEUE_EMPTY, data, q)
      else do {
        src \<leftarrow> buf_read (sq_queuePtr q) (size_of_int (sq_front q) * sq_dataSize q) (sq_dataSize q);
        data' \<leftarrow> buf_write data 0 src (sq_dataSize q);
        f1 \<leftarrow> c_int_add (sq_front q) 1;
        nf \<leftarrow> c_int_rem f1 (sq_nodeCnt q);
        Some (QUEUE_SUCCESS, data', q\<lparr>sq_front := nf\<rparr>) })"

text \<open>The destructor dereferences the pointer it is given and leaves NULL in the caller's variable.\<close>

definition DestorySeqQueue :: "SeqQueue option \<Rightarrow> (queue_ret_t \<times> SeqQueue option) option" where
  "DestorySeqQueue sq = (case sq of None \<Rightarrow> None | Some q \<Rightarrow> Some (QUEUE_SUCCESS, None))"

section \<open>Invariant and abstraction\<close>

definition seq_inv :: "SeqQueue \<Rightarrow> bool" where
  "seq_inv q \<longleftrightarrow> 0 < sq_nodeCnt q \<and> sq_nodeCnt q \<le> INT_MAX \<and>
     0 \<le> sq_front q \<and> sq_front q < sq_nodeCnt q \<and> 0 \<le> sq_rear q \<and> sq_rear q < sq_nodeCnt q \<and>
     length (sq_queuePtr q) = nat (sq_nodeCnt q) * sq_dataSize q"

definition seq_count :: "SeqQueue \<Rightarrow> nat" where
  "seq_count q = nat ((sq_rear q - sq_front q) mod sq_nodeCnt q)"

definition seq_slot :: "SeqQueue \<Rightarrow> int \<Rightarrow> byte list" where
  "seq_slot q i = slot (sq_dataSize q) (sq_queuePtr q) (nat i)"

definition seq_items :: "SeqQueue \<Rightarrow> byte list list" where
  "seq_items q = map (\<lambda>k. seq_slot q ((sq_front q + int k) mod sq_nodeCnt q)) [0..<seq_count q]"

definition seq_cap :: "SeqQueue \<Rightarrow> nat option" where
  "seq_cap q = Some (nat (sq_nodeCnt q) - 1)"

lemma mod_window:
  assumes "0 \<le> x" "x < 2 * n"
  shows "(x :: int) mod n = (if x < n then x else x - n)"
proof (cases "x < n")
  case False
  then have "x mod n = (x - n) mod n" by simp
  also have "\<dots> = x - n" using False assms by (intro mod_pos_pos_trivial) auto
  finally show ?thesis using False by simp
qed (use assms in simp)

lemma mod_diff_window:
  assumes "0 \<le> f" "f < n" "0 \<le> r" "r < n"
  shows "(r - f) mod n = (if f \<le> r then r - f else r - f + (n :: int))"
  using mod_window [of "r - f + n" n] assms by auto

lemma size_of_int_small: "0 \<le> n \<Longrightarrow> n \<le> INT_MAX \<Longrightarrow> size_of_int n = nat n"
  by (simp add: size_of_int_def INT_MAX_def)

section \<open>Ring arithmetic\<close>

text \<open>One fact about the ring positions \<open>f\<close> and \<open>r\<close> of a ring of \<open>n\<close> slots per operation.\<close>

lemma ring_full:
  assumes "0 \<le> f" "f < n" "0 \<le> r" "r < (n :: int)"
  shows "(r + 1) mod n = f \<longleftrightarrow> (r - f) mod n = n - 1"
  using assms mod_window [of "r + 1" n] by (auto simp: mod_diff_window split: if_splits)

lemma ring_put:
  assumes "0 \<le> f" "f < n" "0 \<le> r" "r < (n :: int)" "(r + 1) mod n \<noteq> f"
  shows "((r + 1) mod n - f) mod n = (r - f) mod n + 1"
proof -
  have "(r + 1) mod n = (if r + 1 < n then r + 1 else r + 1 - n)"
    using assms(3,4) by (intro mod_window) auto
  with assms show ?thesis
    by (auto simp: mod_diff_window split: if_splits)
qed

lemma ring_get:
  assumes "0 \<le> f" "f < n" "0 \<le> r" "r < (n :: int)" "f \<noteq> r"
  shows "(r - (f + 1) mod n) mod n = (r - f) mod n - 1"
proof -
  have "(f + 1) mod n = (if f + 1 < n then f + 1 else f + 1 - n)"
    using assms(1,2) by (intro mod_window) auto
  with assms show ?thesis
    by (auto simp: mod_diff_window split: if_splits)
qed

lemma ring_end:
  assumes "0 \<le> f" "f < n" "0 \<le> r" "r < (n :: int)"
  shows "(f + (r - f) mod n) mod n = r"
  using assms by (simp add: mod_diff_window)

lemma ring_inj:
  assumes "0 \<le> f" "f < n" "0 \<le> k" "k < l" "l < (n :: int)"
  shows "(f + k) mod n \<noteq> (f + l) mod n"
  using assms mod_window [of "f + k" n] mod_window [of "f + l" n] by auto

section \<open>The queue operations\<close>

lemma int_seq_count: "seq_inv q \<Longrightarrow> int (seq_count q) = (sq_rear q - sq_front q) mod sq_nodeCnt q"
  by (simp add: seq_inv_def seq_count_def)

lemma seq_count_less: "seq_inv q \<Longrightarrow> int (seq_count q) < sq_nodeCnt q"
  by (simp add: int_seq_count) (simp add: seq_inv_def)

lemma length_seq_items [simp]: "length (seq_items q) = seq_count q"
  by (simp add: seq_items_def)

lemma seq_step_ok:
  assumes "0 \<le> i" "i < n" "n \<le> INT_MAX"
  shows "c_int_add i 1 = Some (i + 1)" "c_int_rem (i + 1) n = Some ((i + 1) mod n)"
  using assms by (simp_all add: fault_simps INT_MIN_def)

lemma seq_full_iff:
  assumes "seq_inv q"
  shows "spec_full (seq_cap q) (seq_items q) \<longleftrightarrow> (sq_rear q + 1) mod sq_nodeCnt q = sq_front q"
proof -
  have "(sq_rear q + 1) mod sq_nodeCnt q = sq_front q \<longleftrightarrow> int (seq_count q) = sq_nodeCnt q - 1"
    using assms ring_full [of "sq_front q" "sq_nodeCnt q" "sq_rear q"]
    by (simp add: int_seq_count) (simp add: seq_inv_def)
  then show ?thesis
    using seq_count_less [OF assms] by (auto simp: spec_full_def seq_cap_def)
qed

lemma EnSeqQueue_full:
  assumes "seq_inv q" "spec_full (seq_cap q) (seq_items q)"
  shows "EnSeqQueue q data ds = Some (QUEUE_FULL, q)"
proof -
  have "0 \<le> sq_rear q" "sq_rear q < sq_nodeCnt q" "sq_nodeCnt q \<le> INT_MAX"
    using assms(1) by (auto simp: seq_inv_def)
  with assms seq_full_iff [OF assms(1)] show ?thesis
    by (simp add: EnSeqQueue_def seq_step_ok)
qed

lemma slot_of_items:
  assumes "seq_inv q" "0 \<le> i" "i < sq_nodeCnt q"
  shows "nat i * sq_dataSize q + sq_dataSize q \<le> length (sq_queuePtr q)"
proof -
  have "nat i < nat (sq_nodeCnt q)" using assms by simp
  then show ?thesis
    using slot_bound assms(1) unfolding seq_inv_def by metis
qed

lemma EnSeqQueue_ok:
  assumes inv: "seq_inv q" and nf: "\<not> spec_full (seq_cap q) (seq_items q)"
    and len: "sq_dataSize q \<le> length data"
  shows "\<exists>q'. EnSeqQueue q data ds = Some (QUEUE_SUCCESS, q') \<and> seq_inv q' \<and>
    seq_items q' = seq_items q @ [take (sq_dataSize q) data] \<and> seq_cap q' = seq_cap q \<and>
    sq_dataSize q' = sq_dataSize q"
proof -
  let ?n = "sq_nodeCnt q" and ?f = "sq_front q" and ?r = "sq_rear q" and ?z = "sq_dataSize q"
  have rng: "0 \<le> ?f" "?f < ?n" "0 \<le> ?r" "?r < ?n" "?n \<le> INT_MAX"
    using inv by (auto simp: seq_inv_def)
  have nf': "(?r + 1) mod ?n \<noteq> ?f"
    using seq_full_iff [OF inv] nf by simp
  have sz: "size_of_int ?r = nat ?r"
    using rng by (simp add: size_of_int_small)
  obtain buf where buf: "buf_write (sq_queuePtr q) (nat ?r * ?z) data ?z = Some buf"
    using slot_of_items [OF inv rng(3,4)] len by (simp add: buf_write_def)
  let ?q = "q\<lparr>sq_queuePtr := buf, sq_rear := (?r + 1) mod ?n\<rparr>"
  have ev: "EnSeqQueue q data ds = Some (QUEUE_SUCCESS, ?q)"
    using rng nf' buf by (simp add: EnSeqQueue_def seq_step_ok sz)
  have inv': "seq_inv ?q"
    using inv buf_write_length [OF buf] by (simp add: seq_inv_def)
  have "int (seq_count ?q) = int (seq_count q) + 1"
    using int_seq_count [OF inv'] int_seq_count [OF inv] ring_put [OF rng(1-4) nf'] by simp
  then have cnt: "seq_count ?q = Suc (seq_count q)" by linarith
  have slots: "seq_slot ?q i = (if i = ?r then take ?z data else seq_slot q i)"
    if "0 \<le> i" "i < ?n" for i
    using slot_write [OF buf slot_of_items [OF inv that]] that rng(3)
    by (auto simp: seq_slot_def)
  have old: "(?f + int k) mod ?n \<noteq> ?r" if "k < seq_count q" for k
    using ring_inj [OF rng(1,2), of "int k" "int (seq_count q)"] ring_end [OF rng(1-4)] that
      int_seq_count [OF inv] seq_count_less [OF inv] by auto
  have "seq_items ?q = seq_items q @ [take ?z data]"
    using slots old ring_end [OF rng(1-4)] rng
    by (simp add: seq_items_def cnt int_seq_count [OF inv] cong: map_cong)
  with ev inv' show ?thesis by (simp add: seq_cap_def)
qed

lemma DeSeqQueue_empty: "seq_inv q \<Longrightarrow> seq_items q = [] \<Longrightarrow> DeSeqQueue q data ds = Some (QUEUE_EMPTY, data, q)"
proof -
  assume inv: "seq_inv q" and "seq_items q = []"
  then have "seq_count q = 0" by (metis length_seq_items list.size(3))
  then have "sq_front q = sq_rear q"
    using inv int_seq_count [OF inv] by (auto simp: seq_inv_def mod_diff_window split: if_splits)
  then show ?thesis by (simp add: DeSeqQueue_def)
qed

lemma DeSeqQueue_ok:
  assumes inv: "seq_inv q" and items: "seq_items q = x # xs" and len: "sq_dataSize q \<le> length data"
  shows "\<exists>q'. DeSeqQueue q data ds = Some (QUEUE_SUCCESS, x @ drop (sq_dataSize q) data, q') \<and>
    seq_inv q' \<and> seq_items q' = xs \<and> seq_cap q' = seq_cap q \<and> sq_dataSize q' = sq_dataSize q"
proof -
  let ?n = "sq_nodeCnt q" and ?f = "sq_front q" and ?r = "sq_rear q" and ?z = "sq_dataSize q"
  have rng: "0 \<le> ?f" "?f < ?n" "0 \<le> ?r" "?r < ?n" "?n \<le> INT_MAX"
    using inv by (auto simp: seq_inv_def)
  have cnt: "seq_count q = Suc (length xs)"
    using items by (metis length_Cons length_seq_items)
  then have ne: "?f \<noteq> ?r"
    using int_seq_count [OF inv] by auto
  have x: "x = slot ?z (sq_queuePtr q) (nat ?f)"
  proof -
    have "x = seq_items q ! 0" using items by simp
    also have "\<dots> = seq_slot q ((?f + int 0) mod ?n)"
      unfolding seq_items_def by (subst nth_map) (simp_all add: cnt del: upt_Suc)
    finally show ?thesis using rng(1,2) by (simp add: seq_slot_def)
  qed
  have rd: "buf_read (sq_queuePtr q) (nat ?f * ?z) ?z = Some x" "length x = ?z"
    using slot_of_items [OF inv rng(1,2)] by (simp_all add: buf_read_def x slot_def)
  let ?q = "q\<lparr>sq_front := (?f + 1) mod ?n\<rparr>"
  have ev: "DeSeqQueue q data ds = Some (QUEUE_SUCCESS, x @ drop ?z data, ?q)"
    using rng ne rd len by (simp add: DeSeqQueue_def seq_step_ok size_of_int_small buf_write_def)
  have inv': "seq_inv ?q"
    using inv by (simp add: seq_inv_def)
  have "int (seq_count ?q) = int (seq_count q) - 1"
    using int_seq_count [OF inv'] int_seq_count [OF inv] ring_get [OF rng(1-4) ne] by simp
  then have cnt': "seq_count ?q = length xs" using cnt by linarith
  have "seq_items ?q ! k = seq_items q ! Suc k" if "k < length xs" for k
    using that
    by (simp add: seq_items_def cnt cnt' seq_slot_def mod_add_left_eq add.assoc del: upt_Suc)
  then have "seq_items ?q = tl (seq_items q)"
    by (intro nth_equalityI) (simp_all add: cnt cnt' nth_tl)
  with ev inv' items show ?thesis by (simp add: seq_cap_def)
qed

definition seq_rep :: "SeqQueue \<Rightarrow> byte list list \<Rightarrow> bool" where
  "seq_rep q ds \<longleftrightarrow> seq_inv q \<and> seq_items q = ds"

interpretation seqq: byte_queue "\<lambda>(_ :: unit) d q. EnSeqQueue q d (sq_dataSize q)"
  "\<lambda>q. DeSeqQueue q (replicate (sq_dataSize q) 0) (sq_dataSize q)"
  seq_rep seq_cap "\<lambda>_ d q. length d = sq_dataSize q"
proof
  show "EnSeqQueue q d (sq_dataSize q) = Some (QUEUE_FULL, q)"
    if "seq_rep q ds" "spec_full (seq_cap q) ds" for q d ds
    using EnSeqQueue_full that by (simp add: seq_rep_def)
  show "\<exists>q'. EnSeqQueue q d (sq_dataSize q) = Some (QUEUE_SUCCESS, q') \<and> seq_rep q' (ds @ [d]) \<and>
      seq_cap q' = seq_cap q"
    if "seq_rep q ds" "length d = sq_dataSize q" "\<not> spec_full (seq_cap q) ds" for q d ds
    using EnSeqQueue_ok [of q d "sq_dataSize q"] that by (auto simp: seq_rep_def)
  show "\<exists>d. DeSeqQueue q (replicate (sq_dataSize q) 0) (sq_dataSize q) = Some (QUEUE_EMPTY, d, q)"
    if "seq_rep q []" for q
    using DeSeqQueue_empty that by (auto simp: seq_rep_def)
  show "\<exists>q'. DeSeqQueue q (replicate (sq_dataSize q) 0) (sq_dataSize q) = Some (QUEUE_SUCCESS, x, q') \<and>
      seq_rep q' xs \<and> seq_cap q' = seq_cap q"
    if "seq_rep q (x # xs)" for q x xs
    using DeSeqQueue_ok [of q x xs "replicate (sq_dataSize q) 0" "sq_dataSize q"] that
    by (auto simp: seq_rep_def)
qed

lemma InitSeqQueue_ok:
  assumes "0 \<le> queueLen" "queueLen < INT_MAX"
  shows "\<exists>q. InitSeqQueue True True queueLen dataSize = Some (Some q) \<and> seq_rep q [] \<and> seq_cap q = Some (nat queueLen) \<and> sq_dataSize q = dataSize"
  using assms
  by (auto simp: seq_rep_def InitSeqQueue_def fault_simps INT_MIN_def seq_inv_def seq_items_def seq_count_def
      seq_cap_def size_of_int_small nat_diff_distrib)

section \<open>Properties\<close>

lemma seq_step_size:
  assumes "q_step (\<lambda>(_ :: unit) d q. EnSeqQueue q d (sq_dataSize q))
    (\<lambda>q. DeSeqQueue q (replicate (sq_dataSize q) 0) (sq_dataSize q)) x q = Some (r, q')"
  shows "sq_dataSize q' = sq_dataSize q"
  using assms by (cases x) (auto simp: EnSeqQueue_def DeSeqQueue_def bind_eq_Some_conv split: if_splits)

lemma seq_env:
  "(\<And>d. Enq () d \<in> set xs \<Longrightarrow> length d = sq_dataSize q) \<Longrightarrow>
   env_run (\<lambda>_ d q. length d = sq_dataSize q) (\<lambda>_ d q. EnSeqQueue q d (sq_dataSize q))
     (\<lambda>q. DeSeqQueue q (replicate (sq_dataSize q) 0) (sq_dataSize q)) xs q"
proof (induction xs arbitrary: q)
  case (Cons x xs)
  have "case x of Enq e d \<Rightarrow> length d = sq_dataSize q | Deq \<Rightarrow> True"
    using Cons.prems by (cases x) auto
  moreover have "env_run (\<lambda>_ d q. length d = sq_dataSize q) (\<lambda>_ d q. EnSeqQueue q d (sq_dataSize q))
      (\<lambda>q. DeSeqQueue q (replicate (sq_dataSize q) 0) (sq_dataSize q)) xs q'"
    if "q_step (\<lambda>_ d q. EnSeqQueue q d (sq_dataSize q))
      (\<lambda>q. DeSeqQueue q (replicate (sq_dataSize q) 0) (sq_dataSize q)) x q = Some (r, q')" for r q'
    using Cons.prems seq_step_size [OF that] by (intro Cons.IH) simp
  ultimately show ?case
    by (simp split: option.split del: q_step.simps)
qed simp

text \<open>
  C32. A sequential queue made for \<open>queueLen\<close> elements is a first-in-first-out queue of exactly that
  capacity, over every sequence of operations: an element put into a full queue is refused with
  \<open>QUEUE_FULL\<close>, taking from an empty queue gives \<open>QUEUE_EMPTY\<close>, every element taken is byte for byte
  the oldest one put in, and no operation accesses the ring buffer out of bounds, also when the
  indices wrap around.
\<close>

theorem seq_queue_refines_fifo:
  assumes "0 \<le> queueLen" "queueLen < INT_MAX" "\<And>d. Enq () d \<in> set xs \<Longrightarrow> length d = dataSize"
  shows "\<exists>q q'. InitSeqQueue True True queueLen dataSize = Some (Some q) \<and>
    q_run (\<lambda>_ d q. EnSeqQueue q d (sq_dataSize q))
        (\<lambda>q. DeSeqQueue q (replicate (sq_dataSize q) 0) (sq_dataSize q)) xs q =
      Some (fst (spec_run (Some (nat queueLen)) xs []), q') \<and>
    seq_rep q' (snd (spec_run (Some (nat queueLen)) xs []))"
proof -
  obtain q where q: "InitSeqQueue True True queueLen dataSize = Some (Some q)" "seq_rep q []"
    "seq_cap q = Some (nat queueLen)" "sq_dataSize q = dataSize"
    using InitSeqQueue_ok [OF assms(1,2)] by blast
  then show ?thesis
    using seqq.run_refines [OF q(2) seq_env, of xs] assms(3) by auto
qed

theorem seq_queue_refines_fifo_witness:
  "\<exists>q q'. InitSeqQueue True True 1 2 = Some (Some q) \<and>
    q_run (\<lambda>_ d q. EnSeqQueue q d (sq_dataSize q))
        (\<lambda>q. DeSeqQueue q (replicate (sq_dataSize q) 0) (sq_dataSize q))
        [Enq () [1, 2], Enq () [3, 4], Deq, Enq () [5, 6], Deq, Deq] q =
      Some ([Done QUEUE_SUCCESS, Done QUEUE_FULL, Got [1, 2], Done QUEUE_SUCCESS, Got [5, 6], Done QUEUE_EMPTY], q') \<and>
    seq_rep q' []"
proof -
  let ?xs = "[Enq () [1, 2], Enq () [3, 4], Deq, Enq () [5, 6], Deq, Deq]"
  have spec: "spec_run (Some (nat 1)) ?xs [] =
    ([Done QUEUE_SUCCESS, Done QUEUE_FULL, Got [1, 2], Done QUEUE_SUCCESS, Got [5, 6], Done QUEUE_EMPTY], [])"
    by (simp add: spec_full_def)
  have "length d = 2" if "Enq () d \<in> set ?xs" for d :: "byte list" using that by auto
  then show ?thesis
    using seq_queue_refines_fifo [of 1 ?xs 2] unfolding spec fst_conv snd_conv by (simp add: INT_MAX_def)
qed

end
