(* ===== verification/Link_Queue.thy ===== *)
theory Link_Queue
  imports Byte_Queue
begin

text \<open>
  The linked queue \<open>lib_queue/link\<close>: singly linked nodes, each with a heap block of \<open>dataSize\<close>
  bytes, and an empty node at the rear that the next enqueue fills. The heap has one map per
  type of block; a byte of a block is \<open>None\<close> until it is written. \<open>malloc\<close> is modelled by the
  address it returns, an argument of the operation, \<open>NULL\<close> when it fails.
\<close>

record LinkNode =
  ln_data :: addr
  ln_next :: addr

record LinkQueue =
  lq_front :: addr
  lq_rear :: addr
  lq_dataSize :: nat

record lmem =
  lnodes :: "addr \<rightharpoonup> LinkNode"
  lbufs :: "addr \<rightharpoonup> byte obj list"

text \<open>
  The two results of \<open>malloc\<close> (\<open>queue_ok\<close>: the queue structure's) are reported and then used
  without a check: writing through NULL is a fault.
\<close>

definition InitLinkQueue :: "addr \<Rightarrow> bool \<Rightarrow> nat \<Rightarrow> lmem \<Rightarrow> (LinkQueue option \<times> lmem) option" where
  "InitLinkQueue node queue_ok dataSize m =
     (if dataSize \<le> 0 then Some (None, m)
      else if node = NULL then None
      else let m = m\<lparr>lnodes := (lnodes m)(node \<mapsto> \<lparr>ln_data = NULL, ln_next = NULL\<rparr>)\<rparr> in
        if \<not> queue_ok then None
        else Some (Some \<lparr>lq_front = node, lq_rear = node, lq_dataSize = dataSize\<rparr>, m))"

text \<open>
  \<open>node\<close> and \<open>buf\<close> are the addresses the two calls of \<open>malloc\<close> return. The guard of the \<open>memcpy\<close>
  reads \<open>front->data\<close>, as the code does.
\<close>

definition EnLinkQueue ::
  "addr \<Rightarrow> addr \<Rightarrow> byte obj list option \<Rightarrow> nat \<Rightarrow> LinkQueue \<Rightarrow> lmem \<Rightarrow> (queue_ret_t \<times> LinkQueue \<times> lmem) option" where
  "EnLinkQueue node buf data dataSize q m =
     (if lq_dataSize q \<noteq> dataSize then Some (RET_ERROR, q, m)
      else if node = NULL then Some (RET_ERROR, q, m)
      else do {
        let m = m\<lparr>lnodes := (lnodes m)(node \<mapsto> \<lparr>ln_data = NULL, ln_next = NULL\<rparr>)\<rparr>;
        r \<leftarrow> lnodes m (lq_rear q);
        if ln_data r = NULL \<and> buf = NULL then Some (RET_ERROR, q, m)
        else do {
          let m = (if ln_data r = NULL
                   then m\<lparr>lnodes := (lnodes m)(lq_rear q \<mapsto> r\<lparr>ln_data := buf\<rparr>),
                          lbufs := (lbufs m)(buf \<mapsto> replicate (lq_dataSize q) None)\<rparr>
                   else m);
          r \<leftarrow> lnodes m (lq_rear q);
          f \<leftarrow> lnodes m (lq_front q);
          m \<leftarrow> (case data of
                 Some d \<Rightarrow>
                   if ln_data f \<noteq> NULL then do {
                     b \<leftarrow> lbufs m (ln_data r);
                     b \<leftarrow> buf_write b 0 d (lq_dataSize q);
                     Some (m\<lparr>lbufs := (lbufs m)(ln_data r \<mapsto> b)\<rparr>) }
                   else Some m
               | None \<Rightarrow> Some m);
          Some (QUEUE_SUCCESS, q\<lparr>lq_rear := node\<rparr>,
                m\<lparr>lnodes := (lnodes m)(lq_rear q \<mapsto> r\<lparr>ln_next := node\<rparr>)\<rparr>) } })"

text \<open>\<open>free\<close> of a data block; \<open>free(NULL)\<close> does nothing.\<close>

definition free_buf :: "addr \<Rightarrow> lmem \<Rightarrow> lmem option" where
  "free_buf p m = (if p = NULL then Some m
     else if lbufs m p = None then None else Some (m\<lparr>lbufs := (lbufs m)(p := None)\<rparr>))"

definition DeLinkQueue ::
  "byte obj list option \<Rightarrow> nat \<Rightarrow> LinkQueue \<Rightarrow> lmem \<Rightarrow>
   (queue_ret_t \<times> byte obj list option \<times> LinkQueue \<times> lmem) option" where
  "DeLinkQueue data dataSize q m =
     (if lq_dataSize q \<noteq> dataSize then Some (RET_ERROR, data, q, m)
      else if lq_front q = lq_rear q then Some (QUEUE_EMPTY, data, q, m)
      else do {
        f \<leftarrow> lnodes m (lq_front q);
        data \<leftarrow> (case data of
            Some d \<Rightarrow>
              if ln_data f \<noteq> NULL then do {
                b \<leftarrow> lbufs m (ln_data f);
                src \<leftarrow> buf_read b 0 (lq_dataSize q);
                d \<leftarrow> buf_write d 0 src (lq_dataSize q);
                Some (Some d) }
              else Some (Some d)
          | None \<Rightarrow> Some None);
        m \<leftarrow> free_buf (ln_data f) m;
        Some (QUEUE_SUCCESS, data, q\<lparr>lq_front := ln_next f\<rparr>,
              m\<lparr>lnodes := (lnodes m)(lq_front q := None)\<rparr>) })"

text \<open>The loop of the destructor: dequeue into NULL until \<open>front\<close> meets \<open>rear\<close>.\<close>

partial_function (option) drain_link_queue :: "LinkQueue \<Rightarrow> lmem \<Rightarrow> (LinkQueue \<times> lmem) option" where
  "drain_link_queue q m =
     (if lq_front q \<noteq> lq_rear q
      then do {
        (_, _, q, m) \<leftarrow> DeLinkQueue None (lq_dataSize q) q m;
        drain_link_queue q m }
      else Some (q, m))"

definition DestoryLinkQueue :: "LinkQueue option \<Rightarrow> lmem \<Rightarrow> (queue_ret_t \<times> LinkQueue option \<times> lmem) option" where
  "DestoryLinkQueue lq m =
     (case lq of
        None \<Rightarrow> Some (RET_ERROR, None, m)
      | Some q \<Rightarrow> do {
          (q, m) \<leftarrow> drain_link_queue q m;
          _ \<leftarrow> lnodes m (lq_front q);
          Some (QUEUE_SUCCESS, None, m\<lparr>lnodes := (lnodes m)(lq_front q := None)\<rparr>) })"

section \<open>Representation\<close>

text \<open>The nodes from \<open>p\<close> up to \<open>r\<close>, each with its data block.\<close>

fun lchain :: "(addr \<rightharpoonup> LinkNode) \<Rightarrow> addr \<Rightarrow> (addr \<times> addr) list \<Rightarrow> addr \<Rightarrow> bool" where
  "lchain ns p [] r \<longleftrightarrow> p = r"
| "lchain ns p ((n, b) # xs) r \<longleftrightarrow> n = p \<and> b \<noteq> NULL \<and>
     (\<exists>s. ns n = Some \<lparr>ln_data = b, ln_next = s\<rparr> \<and> lchain ns s xs r)"

definition lrep :: "LinkQueue \<Rightarrow> lmem \<Rightarrow> (addr \<times> addr) list \<Rightarrow> byte obj list list \<Rightarrow> bool" where
  "lrep q m xs ds \<longleftrightarrow> distinct (map fst xs @ [lq_rear q]) \<and> distinct (map snd xs) \<and>
     lchain (lnodes m) (lq_front q) xs (lq_rear q) \<and>
     (\<exists>s. lnodes m (lq_rear q) = Some \<lparr>ln_data = NULL, ln_next = s\<rparr>) \<and>
     map (\<lambda>x. lbufs m (snd x)) xs = map Some ds \<and> (\<forall>d \<in> set ds. length d = lq_dataSize q)"

lemma lchain_cong:
  "(\<And>n. n \<in> fst ` set xs \<Longrightarrow> ns' n = ns n) \<Longrightarrow> lchain ns' p xs r = lchain ns p xs r"
  by (induction ns p xs r rule: lchain.induct) auto

lemma lchain_snoc:
  "lchain ns p (xs @ [(n, b)]) r \<longleftrightarrow> lchain ns p xs n \<and> b \<noteq> NULL \<and> ns n = Some \<lparr>ln_data = b, ln_next = r\<rparr>"
  by (induction ns p xs n rule: lchain.induct) auto

lemma lchain_dom: "lchain ns p xs r \<Longrightarrow> x \<in> set xs \<Longrightarrow> fst x \<in> dom ns \<and> snd x \<noteq> NULL"
  by (induction ns p xs r rule: lchain.induct) auto

lemma map_eq_map_SomeD:
  "map f xs = map Some ds \<Longrightarrow> x \<in> set xs \<Longrightarrow> f x \<noteq> None"
  by (metis (no_types, lifting) imageE image_eqI image_set option.distinct(1))

lemma lrep_bufs: "lrep q m xs ds \<Longrightarrow> b \<in> snd ` set xs \<Longrightarrow> b \<in> dom (lbufs m)"
  using map_eq_map_SomeD [of "\<lambda>x. lbufs m (snd x)" xs ds] by (auto simp: lrep_def)

lemma map_upd_outside: "b \<notin> snd ` set xs \<Longrightarrow> map (\<lambda>x. (f(b := v)) (snd x)) xs = map (\<lambda>x. f (snd x)) xs"
  by (induction xs) auto

lemma lrep_front: "lrep q m xs ds \<Longrightarrow> (lq_front q = lq_rear q) = (xs = [])"
  by (cases xs) (auto simp: lrep_def)

section \<open>The operations\<close>

lemma EnLinkQueue_ok:
  assumes rep: "lrep q m xs ds" and node: "node \<noteq> NULL" "node \<notin> dom (lnodes m)"
    and buf: "buf \<noteq> NULL" "buf \<notin> dom (lbufs m)" and len: "length d = lq_dataSize q"
  shows "\<exists>q' m'. EnLinkQueue node buf (Some d) (lq_dataSize q) q m = Some (QUEUE_SUCCESS, q', m') \<and>
    lrep q' m' (xs @ [(lq_rear q, buf)]) (ds @ [d]) \<and> lq_dataSize q' = lq_dataSize q \<and>
    dom (lnodes m') = insert node (dom (lnodes m)) \<and> dom (lbufs m') = insert buf (dom (lbufs m))"
proof -
  let ?r = "lq_rear q" and ?f = "lq_front q"
  obtain s where r: "lnodes m ?r = Some \<lparr>ln_data = NULL, ln_next = s\<rparr>"
    using rep by (auto simp: lrep_def)
  have nr: "node \<noteq> ?r" using r node by auto
  have old: "node \<notin> fst ` set xs" "buf \<notin> snd ` set xs" "?r \<notin> fst ` set xs"
    using rep node(2) buf(2) lrep_bufs [OF rep] lchain_dom [of "lnodes m" ?f xs ?r]
    by (auto simp: lrep_def)
  define ns where "ns = (lnodes m)(node \<mapsto> \<lparr>ln_data = NULL, ln_next = NULL\<rparr>, ?r \<mapsto> \<lparr>ln_data = buf, ln_next = s\<rparr>)"
  have f: "\<exists>x. ns ?f = Some x \<and> ln_data x \<noteq> NULL"
  proof (cases xs)
    case Nil
    then have "?f = ?r" using rep by (auto simp: lrep_def)
    then show ?thesis using buf(1) by (simp add: ns_def)
  next
    case (Cons x ys)
    obtain b where "x = (?f, b)" using rep Cons by (cases x) (auto simp: lrep_def)
    then show ?thesis using rep Cons old by (auto simp: lrep_def ns_def)
  qed
  let ?q = "q\<lparr>lq_rear := node\<rparr>"
  let ?m = "m\<lparr>lnodes := ns(?r \<mapsto> \<lparr>ln_data = buf, ln_next = node\<rparr>), lbufs := (lbufs m)(buf \<mapsto> d)\<rparr>"
  have ev: "EnLinkQueue node buf (Some d) (lq_dataSize q) q m = Some (QUEUE_SUCCESS, ?q, ?m)"
    using node buf r nr f len
    by (auto simp: EnLinkQueue_def Let_def ns_def buf_write_def fun_upd_twist)
  have "lnodes ?m n = lnodes m n" if "n \<in> fst ` set xs" for n
    using that old(1,3) by (cases "n = node"; cases "n = ?r") (simp_all add: ns_def)
  then have "lchain (lnodes ?m) ?f xs ?r"
    using rep lchain_cong [of xs "lnodes ?m" "lnodes m" ?f ?r] by (simp add: lrep_def)
  then have "lchain (lnodes ?m) ?f (xs @ [(?r, buf)]) node"
    using buf(1) by (simp add: lchain_snoc)
  moreover have "map (\<lambda>x. lbufs ?m (snd x)) xs = map Some ds"
    using rep map_upd_outside [OF old(2), of "lbufs m" "Some d"] by (simp add: lrep_def)
  ultimately have "lrep ?q ?m (xs @ [(?r, buf)]) (ds @ [d])"
    using rep old nr len by (auto simp: lrep_def ns_def)
  moreover have "dom (lnodes ?m) = insert node (dom (lnodes m))" "dom (lbufs ?m) = insert buf (dom (lbufs m))"
    using r by (auto simp: ns_def)
  ultimately show ?thesis using ev by (intro exI conjI) (assumption | simp)+
qed

text \<open>
  When the second \<open>malloc\<close> fails the enqueue is refused and the queue is unchanged, but the node
  of the first one stays allocated: a leak.
\<close>

lemma EnLinkQueue_no_memory:
  assumes rep: "lrep q m xs ds" and node: "node \<noteq> NULL" "node \<notin> dom (lnodes m)"
  shows "\<exists>m'. EnLinkQueue node NULL data (lq_dataSize q) q m = Some (RET_ERROR, q, m') \<and>
    lrep q m' xs ds \<and> dom (lnodes m') = insert node (dom (lnodes m))"
proof -
  obtain s where r: "lnodes m (lq_rear q) = Some \<lparr>ln_data = NULL, ln_next = s\<rparr>"
    using rep by (auto simp: lrep_def)
  have nr: "node \<noteq> lq_rear q" "node \<notin> fst ` set xs"
    using r node rep lchain_dom [of "lnodes m" "lq_front q" xs "lq_rear q"] by (auto simp: lrep_def)
  let ?m = "m\<lparr>lnodes := (lnodes m)(node \<mapsto> \<lparr>ln_data = NULL, ln_next = NULL\<rparr>)\<rparr>"
  have "EnLinkQueue node NULL data (lq_dataSize q) q m = Some (RET_ERROR, q, ?m)"
    using node r nr by (simp add: EnLinkQueue_def)
  moreover have "lrep q ?m xs ds"
    using rep nr lchain_cong [of xs "lnodes ?m" "lnodes m" "lq_front q" "lq_rear q"]
    by (force simp: lrep_def)
  ultimately show ?thesis by auto
qed

lemma DeLinkQueue_ok:
  assumes rep: "lrep q m ((n, b) # xs) (d # ds)"
    and out: "\<And>o'. out = Some o' \<Longrightarrow> lq_dataSize q \<le> length o'"
  shows "\<exists>q' m'. DeLinkQueue out (lq_dataSize q) q m =
      Some (QUEUE_SUCCESS, map_option (\<lambda>o'. d @ drop (lq_dataSize q) o') out, q', m') \<and>
    lrep q' m' xs ds \<and> lq_dataSize q' = lq_dataSize q \<and> lq_rear q' = lq_rear q \<and>
    dom (lnodes m') = dom (lnodes m) - {n} \<and> dom (lbufs m') = dom (lbufs m) - {b}"
proof -
  obtain s where n: "n = lq_front q" "b \<noteq> NULL" "lnodes m n = Some \<lparr>ln_data = b, ln_next = s\<rparr>"
    "lchain (lnodes m) s xs (lq_rear q)" "lbufs m b = Some d" "length d = lq_dataSize q"
    "n \<noteq> lq_rear q" "n \<notin> fst ` set xs" "b \<notin> snd ` set xs"
    using rep by (auto simp: lrep_def)
  let ?q = "q\<lparr>lq_front := s\<rparr>"
  let ?m = "m\<lparr>lbufs := (lbufs m)(b := None), lnodes := (lnodes m)(n := None)\<rparr>"
  have ev: "DeLinkQueue out (lq_dataSize q) q m =
      Some (QUEUE_SUCCESS, map_option (\<lambda>o'. d @ drop (lq_dataSize q) o') out, ?q, ?m)"
    using n out by (cases out) (auto simp: DeLinkQueue_def free_buf_def buf_read_def buf_write_def)
  have "lchain (lnodes ?m) s xs (lq_rear q)"
    using n(4,8) lchain_cong [of xs "lnodes ?m" "lnodes m" s "lq_rear q"] by force
  moreover have "map (\<lambda>x. lbufs ?m (snd x)) xs = map Some ds"
    using rep map_upd_outside [OF n(9), of "lbufs m" None] by (simp add: lrep_def)
  ultimately have "lrep ?q ?m xs ds"
    using rep n by (auto simp: lrep_def)
  then show ?thesis using ev by (intro exI conjI) (assumption | simp)+
qed

lemma DeLinkQueue_empty:
  "lrep q m [] ds \<Longrightarrow> DeLinkQueue out (lq_dataSize q) q m = Some (QUEUE_EMPTY, out, q, m)"
  by (simp add: DeLinkQueue_def lrep_def)

lemma drain_link_queue_ok:
  "lrep q m xs ds \<Longrightarrow> \<exists>q' m'. drain_link_queue q m = Some (q', m') \<and> lrep q' m' [] [] \<and>
     lq_rear q' = lq_rear q \<and>
     dom (lnodes m') = dom (lnodes m) - fst ` set xs \<and> dom (lbufs m') = dom (lbufs m) - snd ` set xs"
proof (induction xs arbitrary: q m ds)
  case Nil
  then have "ds = []" by (simp add: lrep_def)
  with Nil show ?case
    by (subst drain_link_queue.simps) (simp add: lrep_def)
next
  case (Cons x xs)
  obtain n b where x: "x = (n, b)" by (cases x)
  obtain d ds' where ds: "ds = d # ds'"
    using Cons.prems by (cases ds) (auto simp: lrep_def)
  have ne: "lq_front q \<noteq> lq_rear q" using lrep_front [OF Cons.prems] by simp
  obtain q1 m1 where 1: "DeLinkQueue None (lq_dataSize q) q m = Some (QUEUE_SUCCESS, None, q1, m1)"
    "lrep q1 m1 xs ds'" "lq_rear q1 = lq_rear q" "dom (lnodes m1) = dom (lnodes m) - {n}"
    "dom (lbufs m1) = dom (lbufs m) - {b}"
    using DeLinkQueue_ok [of q m n b xs d ds' None] Cons.prems x ds by auto
  obtain q' m' where 2: "drain_link_queue q1 m1 = Some (q', m')" "lrep q' m' [] []" "lq_rear q' = lq_rear q1"
    "dom (lnodes m') = dom (lnodes m1) - fst ` set xs" "dom (lbufs m') = dom (lbufs m1) - snd ` set xs"
    using Cons.IH [OF 1(2)] by metis
  have "drain_link_queue q m = Some (q', m')"
    using ne by (subst drain_link_queue.simps) (simp add: 1(1) 2(1))
  moreover have "dom (lnodes m') = dom (lnodes m) - fst ` set (x # xs)"
    "dom (lbufs m') = dom (lbufs m) - snd ` set (x # xs)"
    by (auto simp: 1(4,5) 2(4,5) x)
  ultimately show ?case
    using 1(3) 2(2,3) by auto
qed

lemma DestoryLinkQueue_ok:
  assumes "lrep q m xs ds"
  shows "\<exists>m'. DestoryLinkQueue (Some q) m = Some (QUEUE_SUCCESS, None, m') \<and>
    dom (lnodes m') = dom (lnodes m) - fst ` set xs - {lq_rear q} \<and>
    dom (lbufs m') = dom (lbufs m) - snd ` set xs"
proof -
  obtain q' m' where 1: "drain_link_queue q m = Some (q', m')" "lrep q' m' [] []" "lq_rear q' = lq_rear q"
    "dom (lnodes m') = dom (lnodes m) - fst ` set xs" "dom (lbufs m') = dom (lbufs m) - snd ` set xs"
    using drain_link_queue_ok [OF assms] by metis
  then have "lq_front q' = lq_rear q" "lq_front q' \<in> dom (lnodes m')"
    by (auto simp: lrep_def)
  then obtain x where "lnodes m' (lq_rear q) = Some x" "lq_front q' = lq_rear q" by (metis domD)
  then have "DestoryLinkQueue (Some q) m =
      Some (QUEUE_SUCCESS, None, m'\<lparr>lnodes := (lnodes m')(lq_rear q := None)\<rparr>)"
    by (simp add: DestoryLinkQueue_def 1(1))
  then show ?thesis using 1(4,5) by (intro exI conjI) (assumption | simp)+
qed

section \<open>The linked queue implements the queue contract\<close>

definition link_rep :: "LinkQueue \<times> lmem \<Rightarrow> byte obj list list \<Rightarrow> bool" where
  "link_rep qm ds \<longleftrightarrow> (\<exists>xs. lrep (fst qm) (snd qm) xs ds)"

text \<open>The caller passes a block of the right size, and the allocator fresh addresses.\<close>

definition link_ok :: "addr \<times> addr \<Rightarrow> byte obj list \<Rightarrow> LinkQueue \<times> lmem \<Rightarrow> bool" where
  "link_ok e d qm \<longleftrightarrow> fst e \<noteq> NULL \<and> fst e \<notin> dom (lnodes (snd qm)) \<and>
     snd e \<noteq> NULL \<and> snd e \<notin> dom (lbufs (snd qm)) \<and> length d = lq_dataSize (fst qm)"

definition link_enq :: "(addr \<times> addr, byte obj list, LinkQueue \<times> lmem) q_enq" where
  "link_enq e d qm = EnLinkQueue (fst e) (snd e) (Some d) (lq_dataSize (fst qm)) (fst qm) (snd qm)"

definition link_deq :: "(byte obj list, LinkQueue \<times> lmem) q_deq" where
  "link_deq qm = map_option (\<lambda>(r, d, q, m). (r, the d, q, m))
     (DeLinkQueue (Some (replicate (lq_dataSize (fst qm)) None)) (lq_dataSize (fst qm)) (fst qm) (snd qm))"

interpretation linkq: byte_queue link_enq link_deq link_rep "\<lambda>_. None" link_ok
proof
  show "\<exists>q'. link_enq e d q = Some (QUEUE_SUCCESS, q') \<and> link_rep q' (ds @ [d]) \<and> None = None"
    if rep: "link_rep q ds" and ok: "link_ok e d q" for q e d ds
  proof -
    obtain xs where "lrep (fst q) (snd q) xs ds" using rep by (auto simp: link_rep_def)
    from EnLinkQueue_ok [OF this] ok obtain q' m' xs' where
      "link_enq e d q = Some (QUEUE_SUCCESS, q', m')" "lrep q' m' xs' (ds @ [d])"
      unfolding link_enq_def link_ok_def by metis
    then show ?thesis
      unfolding link_rep_def by (metis fst_conv snd_conv)
  qed
  show "\<exists>d. link_deq q = Some (QUEUE_EMPTY, d, q)" if "link_rep q []" for q
  proof -
    have "lrep (fst q) (snd q) [] []" using that by (auto simp: link_rep_def lrep_def)
    from DeLinkQueue_empty [OF this] show ?thesis by (simp add: link_deq_def)
  qed
  show "\<exists>q'. link_deq q = Some (QUEUE_SUCCESS, x, q') \<and> link_rep q' ds \<and> None = None"
    if rep: "link_rep q (x # ds)" for q x ds
  proof -
    obtain ys where ys: "lrep (fst q) (snd q) ys (x # ds)"
      using rep unfolding link_rep_def ..
    then obtain n b xs where "ys = (n, b) # xs"
      by (cases ys) (auto simp: lrep_def)
    with ys have "lrep (fst q) (snd q) ((n, b) # xs) (x # ds)" by simp
    from DeLinkQueue_ok [OF this, of "Some (replicate (lq_dataSize (fst q)) None)"] obtain q' m' where
      "link_deq q = Some (QUEUE_SUCCESS, x, q', m')" "lrep q' m' xs ds"
      by (auto simp: link_deq_def simp del: dom_fun_upd)
    then show ?thesis
      unfolding link_rep_def by (metis fst_conv snd_conv)
  qed
qed (simp add: spec_full_def)

lemma InitLinkQueue_ok:
  assumes "0 < dataSize" "node \<noteq> NULL"
  shows "\<exists>q m'. InitLinkQueue node True dataSize m = Some (Some q, m') \<and> link_rep (q, m') [] \<and>
    lq_dataSize q = dataSize"
  using assms by (force simp: InitLinkQueue_def link_rep_def lrep_def)

section \<open>Properties\<close>

text \<open>
  C33. A linked queue is an unbounded first-in-first-out queue over every sequence of operations for
  which \<open>malloc\<close> succeeds: results and contents are those of the list specification.
\<close>

theorem link_queue_refines_fifo:
  assumes "0 < dataSize" "node \<noteq> NULL"
  shows "\<exists>q m'. InitLinkQueue node True dataSize m = Some (Some q, m') \<and>
    (\<forall>xs. env_run link_ok link_enq link_deq xs (q, m') \<longrightarrow>
      (\<exists>q'. q_run link_enq link_deq xs (q, m') = Some (fst (spec_run None xs []), q') \<and>
        link_rep q' (snd (spec_run None xs []))))"
  using InitLinkQueue_ok [OF assms, of m] linkq.run_refines by blast

text \<open>The empty memory, with what the first two enqueues and a dequeue do to it.\<close>

theorem link_queue_refines_fifo_witness:
  "\<exists>q m'. InitLinkQueue 1 True 1 \<lparr>lnodes = Map.empty, lbufs = Map.empty\<rparr> = Some (Some q, m') \<and>
    (\<exists>q'. q_run link_enq link_deq [Enq (2, 10) [Some 7], Enq (3, 11) [Some 8], Deq] (q, m') =
      Some ([Done QUEUE_SUCCESS, Done QUEUE_SUCCESS, Got [Some 7]], q') \<and> link_rep q' [[Some 8]])"
proof -
  let ?m = "\<lparr>lnodes = Map.empty, lbufs = Map.empty\<rparr>" and ?xs = "[Enq (2, 10) [Some 7], Enq (3, 11) [Some 8], Deq]"
  have spec: "spec_run None ?xs [] = ([Done QUEUE_SUCCESS, Done QUEUE_SUCCESS, Got [Some 7]], [[Some 8]])"
    by (simp add: spec_full_def)
  obtain q m' where 1: "InitLinkQueue 1 True 1 ?m = Some (Some q, m')"
    "\<forall>xs. env_run link_ok link_enq link_deq xs (q, m') \<longrightarrow>
      (\<exists>q'. q_run link_enq link_deq xs (q, m') = Some (fst (spec_run None xs []), q') \<and>
        link_rep q' (snd (spec_run None xs [])))"
    using link_queue_refines_fifo [OF zero_less_one one_neq_zero, of ?m] by (elim exE conjE) (rule that)
  have "env_run link_ok link_enq link_deq ?xs (q, m')"
    using 1(1) by (auto simp: InitLinkQueue_def link_ok_def link_enq_def EnLinkQueue_def buf_write_def link_deq_def
      DeLinkQueue_def buf_read_def free_buf_def)
  from 1(2) [rule_format, OF this] have "\<exists>q'. q_run link_enq link_deq ?xs (q, m') =
      Some ([Done QUEUE_SUCCESS, Done QUEUE_SUCCESS, Got [Some 7]], q') \<and> link_rep q' [[Some 8]]"
    unfolding spec fst_conv snd_conv .
  with 1(1) show ?thesis by (intro exI [of _ q] exI [of _ m'] conjI)
qed

text \<open>
  Destroying a linked queue returns, and frees every node and every data buffer of the queue, the
  unused node at its end included, and nothing else.
\<close>

theorem link_queue_destroy_exact:
  assumes "lrep q m xs ds"
  shows "\<exists>m'. DestoryLinkQueue (Some q) m = Some (QUEUE_SUCCESS, None, m') \<and>
    dom (lnodes m') = dom (lnodes m) - fst ` set xs - {lq_rear q} \<and>
    dom (lbufs m') = dom (lbufs m) - snd ` set xs"
  using assms by (rule DestoryLinkQueue_ok)

text \<open>
  When \<open>malloc\<close> fails for the data buffer, \<open>EnLinkQueue\<close> reports an error and the queue is as
  before, but the node it has allocated stays allocated and is not part of the queue: destroying the
  queue does not free it.
\<close>

theorem link_queue_failed_enqueue_leaks:
  assumes "lrep q m xs ds" "node \<noteq> NULL" "node \<notin> dom (lnodes m)"
  shows "\<exists>m' m''. EnLinkQueue node NULL data (lq_dataSize q) q m = Some (RET_ERROR, q, m') \<and> lrep q m' xs ds \<and>
    DestoryLinkQueue (Some q) m' = Some (QUEUE_SUCCESS, None, m'') \<and> node \<in> dom (lnodes m'')"
proof -
  obtain m' where m': "EnLinkQueue node NULL data (lq_dataSize q) q m = Some (RET_ERROR, q, m')" "lrep q m' xs ds"
    "dom (lnodes m') = insert node (dom (lnodes m))"
    using EnLinkQueue_no_memory [OF assms] by blast
  obtain m'' where m'': "DestoryLinkQueue (Some q) m' = Some (QUEUE_SUCCESS, None, m'')"
    "dom (lnodes m'') = dom (lnodes m') - fst ` set xs - {lq_rear q}"
    using DestoryLinkQueue_ok [OF m'(2)] by (elim exE conjE) (rule that)
  have c: "lchain (lnodes m) (lq_front q) xs (lq_rear q)" using assms(1) unfolding lrep_def by blast
  have "fst x \<in> dom (lnodes m)" if "x \<in> set xs" for x
    using lchain_dom [OF c that] by simp
  moreover have "lq_rear q \<in> dom (lnodes m)"
    using assms(1) unfolding lrep_def by blast
  ultimately have "node \<in> dom (lnodes m'')"
    using assms(3) m'(3) m''(2) by auto
  with m' m'' show ?thesis by blast
qed

definition one_element :: "LinkQueue \<times> lmem" where
  "one_element = (\<lparr>lq_front = 1, lq_rear = 2, lq_dataSize = 1\<rparr>,
     \<lparr>lnodes = [1 \<mapsto> \<lparr>ln_data = 10, ln_next = 2\<rparr>, 2 \<mapsto> \<lparr>ln_data = NULL, ln_next = NULL\<rparr>], lbufs = [10 \<mapsto> [Some 7]]\<rparr>)"

lemma one_element_rep: "lrep (fst one_element) (snd one_element) [(1, 10)] [[Some 7]]"
  by (simp add: one_element_def lrep_def)

theorem link_queue_destroy_exact_witness:
  "\<exists>m'. DestoryLinkQueue (Some (fst one_element)) (snd one_element) = Some (QUEUE_SUCCESS, None, m') \<and>
    dom (lnodes m') = {} \<and> dom (lbufs m') = {}"
proof -
  have "dom (lnodes (snd one_element)) - fst ` set [(1, 10)] - {lq_rear (fst one_element)} = {}"
    "dom (lbufs (snd one_element)) - snd ` set [(1, 10)] = {}"
    by (auto simp: one_element_def)
  then show ?thesis using link_queue_destroy_exact [OF one_element_rep] by metis
qed

theorem link_queue_failed_enqueue_leaks_witness:
  "\<exists>m' m''. EnLinkQueue 3 NULL (Some [Some 8]) 1 (fst one_element) (snd one_element) = Some (RET_ERROR, fst one_element, m') \<and>
    DestoryLinkQueue (Some (fst one_element)) m' = Some (QUEUE_SUCCESS, None, m'') \<and> 3 \<in> dom (lnodes m'')"
proof -
  have "(3 :: addr) \<notin> dom (lnodes (snd one_element))" "lq_dataSize (fst one_element) = 1"
    by (auto simp: one_element_def)
  then show ?thesis
    using link_queue_failed_enqueue_leaks [OF one_element_rep, of 3 "Some [Some 8]"] by auto
qed

end
