(* ===== verification/Simple_Sorts.thy ===== *)
theory Simple_Sorts
  imports Prelude
begin

text \<open>
  The quadratic sorts and Shell's sort of \<open>practice_srcs/sort_algo\<close>; all sort in descending
  order and print the result. An array is the list of its elements, accessed with \<open>int\<close> indices
  that are checked; a loop is a recursive function of its index. The functions return the array
  and the numbers they print. No index leaves the range of \<open>int\<close>, being bounded by \<open>cnt\<close>.
\<close>

text \<open>\<open>for (; i < cnt; i++) printf("%d ", a[i]);\<close>\<close>

partial_function (option) print_from :: "int list \<Rightarrow> int \<Rightarrow> int \<Rightarrow> int list option" where
  "print_from a i cnt =
     (if i < cnt then do { x \<leftarrow> arr_get a i; xs \<leftarrow> print_from a (i + 1) cnt; Some (x # xs) }
      else Some [])"

text \<open>The conversion of a \<open>size_t\<close> to \<open>int\<close>, which wraps.\<close>

definition int_of_size :: "nat \<Rightarrow> int" where
  "int_of_size n = (let r = int n mod 2 ^ 32 in if r < 2 ^ 31 then r else r - 2 ^ 32)"

section \<open>Insertion sort\<close>

text \<open>\<open>for (; j > 0 && tmp > a[j - 1]; j--) a[j] = a[j - 1];\<close>\<close>

partial_function (option) insert_shift :: "int list \<Rightarrow> int \<Rightarrow> int \<Rightarrow> (int list \<times> int) option" where
  "insert_shift a j tmp =
     (if 0 < j then do {
        y \<leftarrow> arr_get a (j - 1);
        if tmp > y then do { a \<leftarrow> arr_set a j y; insert_shift a (j - 1) tmp } else Some (a, j) }
      else Some (a, j))"

partial_function (option) insert_loop :: "int list \<Rightarrow> int \<Rightarrow> int \<Rightarrow> int list option" where
  "insert_loop a i cnt =
     (if i < cnt then do {
        tmp \<leftarrow> arr_get a i;
        (a, j) \<leftarrow> insert_shift a i tmp;
        a \<leftarrow> arr_set a j tmp;
        insert_loop a (i + 1) cnt }
      else Some a)"

definition lc_insert_sort :: "int list \<Rightarrow> int \<Rightarrow> (int list \<times> int list) option" where
  "lc_insert_sort a cnt = do {
     a \<leftarrow> insert_loop a 1 cnt;
     out \<leftarrow> print_from a 0 cnt;
     Some (a, out) }"

section \<open>Shell's sort\<close>

text \<open>\<open>for (; j >= gap && tmp > a[j - gap]; j -= gap) a[j] = a[j - gap];\<close>\<close>

partial_function (option) shell_shift :: "int \<Rightarrow> int list \<Rightarrow> int \<Rightarrow> int \<Rightarrow> (int list \<times> int) option" where
  "shell_shift gap a j tmp =
     (if j \<ge> gap then do {
        y \<leftarrow> arr_get a (j - gap);
        if tmp > y then do { a \<leftarrow> arr_set a j y; shell_shift gap a (j - gap) tmp } else Some (a, j) }
      else Some (a, j))"

partial_function (option) shell_loop :: "int \<Rightarrow> int list \<Rightarrow> int \<Rightarrow> int \<Rightarrow> int list option" where
  "shell_loop gap a i cnt =
     (if i < cnt then do {
        tmp \<leftarrow> arr_get a i;
        (a, j) \<leftarrow> shell_shift gap a i tmp;
        a \<leftarrow> arr_set a j tmp;
        shell_loop gap a (i + 1) cnt }
      else Some a)"

text \<open>\<open>gap >>= 1\<close> is the division by two that rounds down.\<close>

partial_function (option) shell_gaps :: "int \<Rightarrow> int list \<Rightarrow> int \<Rightarrow> int list option" where
  "shell_gaps gap a cnt =
     (if gap > 0 then do { a \<leftarrow> shell_loop gap a 0 cnt; shell_gaps (gap div 2) a cnt }
      else Some a)"

definition lc_shell_sort :: "int list \<Rightarrow> int \<Rightarrow> (int list \<times> int list) option" where
  "lc_shell_sort a cnt = do {
     a \<leftarrow> shell_gaps (cnt div 2) a cnt;
     out \<leftarrow> print_from a 0 cnt;
     Some (a, out) }"

section \<open>Selection sort\<close>

text \<open>\<open>for (; i < cnt; i++) if (a[tmp_i] < a[i]) tmp_i = i;\<close>\<close>

partial_function (option) selection_scan :: "int list \<Rightarrow> int \<Rightarrow> int \<Rightarrow> int \<Rightarrow> int option" where
  "selection_scan a tmp_i i cnt =
     (if i < cnt then do {
        x \<leftarrow> arr_get a tmp_i;
        y \<leftarrow> arr_get a i;
        selection_scan a (if x < y then i else tmp_i) (i + 1) cnt }
      else Some tmp_i)"

partial_function (option) selection_loop :: "int list \<Rightarrow> int \<Rightarrow> int \<Rightarrow> int list option" where
  "selection_loop a k cnt =
     (if k < cnt - 1 then do {
        tmp_i \<leftarrow> selection_scan a k k cnt;
        x \<leftarrow> arr_get a k;
        y \<leftarrow> arr_get a tmp_i;
        a \<leftarrow> (if x \<noteq> y then do { a \<leftarrow> arr_set a k y; arr_set a tmp_i x } else Some a);
        selection_loop a (k + 1) cnt }
      else Some a)"

definition lc_selection_sort :: "int list \<Rightarrow> nat \<Rightarrow> (int list \<times> int list) option" where
  "lc_selection_sort a asize = do {
     let cnt = int_of_size (asize div 4);
     a \<leftarrow> selection_loop a 0 cnt;
     out \<leftarrow> print_from a 0 cnt;
     Some (a, out) }"

section \<open>Bubble sort\<close>

text \<open>\<open>for (; i < m; i++)\<close> with a swap of neighbours, \<open>m\<close> being \<open>cnt - k - 1\<close>.\<close>

partial_function (option) bubble_pass :: "int list \<Rightarrow> int \<Rightarrow> int \<Rightarrow> int list option" where
  "bubble_pass a i m =
     (if i < m then do {
        x \<leftarrow> arr_get a i;
        y \<leftarrow> arr_get a (i + 1);
        a \<leftarrow> (if x < y then do { a \<leftarrow> arr_set a i y; arr_set a (i + 1) x } else Some a);
        bubble_pass a (i + 1) m }
      else Some a)"

partial_function (option) bubble_loop :: "int list \<Rightarrow> int \<Rightarrow> int \<Rightarrow> int list option" where
  "bubble_loop a k cnt =
     (if k < cnt - 2 then do { a \<leftarrow> bubble_pass a 0 (cnt - k - 1); bubble_loop a (k + 1) cnt }
      else Some a)"

definition lc_bubble_sort :: "int list \<Rightarrow> nat \<Rightarrow> (int list \<times> int list) option" where
  "lc_bubble_sort a asize = do {
     let cnt = int_of_size (asize div 4);
     a \<leftarrow> bubble_loop a 0 cnt;
     out \<leftarrow> print_from a 0 cnt;
     Some (a, out) }"

section \<open>Printing\<close>

lemma arr_get_nat [simp]: "i < length a \<Longrightarrow> arr_get a (int i) = Some (a ! i)"
  by (simp add: arr_get_def)

lemma arr_set_nat [simp]: "i < length a \<Longrightarrow> arr_set a (int i) v = Some (a[i := v])"
  by (simp add: arr_set_def)

lemma arr_get_nat_diff [simp]: "k \<le> i \<Longrightarrow> i < length a + k \<Longrightarrow> arr_get a (int i - int k) = Some (a ! (i - k))"
  by (simp add: arr_get_def nat_diff_distrib)

lemma int_of_size_ok: "int n \<le> INT_MAX \<Longrightarrow> int_of_size n = int n"
  by (simp add: int_of_size_def INT_MAX_def Let_def)

lemma print_from_ok: "i \<le> length a \<Longrightarrow> print_from a (int i) (int (length a)) = Some (drop i a)"
proof (induction "length a - i" arbitrary: i)
  case 0
  then show ?case by (subst print_from.simps) simp
next
  case (Suc n)
  then have "print_from a (int (Suc i)) (int (length a)) = Some (drop (Suc i) a)"
    using Suc.hyps(1) [of "Suc i"] by (simp del: of_nat_Suc)
  then show ?case
    using Suc.hyps(2) by (subst print_from.simps) (simp add: Cons_nth_drop_Suc add.commute)
qed

lemma print_all: "print_from a 0 (int (length a)) = Some a"
  using print_from_ok [of 0 a] by simp

section \<open>Insertion with a gap\<close>

text \<open>
  Positions that are congruent modulo the gap form a chain. A prefix is sorted along the chains;
  with gap 1 this is sortedness.
\<close>

definition gap_sorted :: "nat \<Rightarrow> int list \<Rightarrow> nat \<Rightarrow> bool" where
  "gap_sorted g a n \<longleftrightarrow> (\<forall>p q. p < q \<and> q < n \<and> p mod g = q mod g \<longrightarrow> a ! q \<le> a ! p)"

text \<open>The same up to a hole at \<open>j\<close>, and everything behind the hole is at most \<open>tmp\<close>.\<close>

definition gap_hole :: "nat \<Rightarrow> int list \<Rightarrow> nat \<Rightarrow> nat \<Rightarrow> int \<Rightarrow> bool" where
  "gap_hole g a n j tmp \<longleftrightarrow>
     (\<forall>p q. p < q \<and> q < n \<and> p mod g = q mod g \<and> p \<noteq> j \<and> q \<noteq> j \<longrightarrow> a ! q \<le> a ! p) \<and>
     (\<forall>q. j < q \<and> q < n \<and> q mod g = j mod g \<longrightarrow> a ! q \<le> tmp)"

lemma mod_eq_gap: "p < q \<Longrightarrow> p mod g = q mod g \<Longrightarrow> p + g \<le> (q :: nat)"
  by (metis add.commute add_le_cancel_left dvd_imp_le le_add_diff_inverse less_imp_le
      mod_eq_dvd_iff_nat zero_less_diff)

lemma gap_hole_start: "gap_sorted g a i \<Longrightarrow> gap_hole g a (Suc i) i tmp"
  by (auto simp: gap_sorted_def gap_hole_def less_Suc_eq)

lemma gap_hole_step:
  assumes h: "gap_hole g a n j tmp" and j: "j < n" "n \<le> length a" "g \<le> j" and g: "0 < g"
    and y: "a ! (j - g) < tmp"
  shows "gap_hole g (a[j := a ! (j - g)]) n (j - g) tmp"
proof -
  have mod: "(j - g) mod g = j mod g"
    using j(3) by (simp add: le_mod_geq)
  have below: "p < j - g" if "p < j" "p mod g = j mod g" "p \<noteq> j - g" for p
    using mod_eq_gap [OF that(1,2)] that(3) j(3) by linarith
  have above: "j \<le> q" if "j - g < q" "q mod g = j mod g" for q
    using mod_eq_gap [of "j - g" q g] that j(3) mod by simp
  show ?thesis
    unfolding gap_hole_def
  proof (intro conjI allI impI)
    fix p q assume pq: "p < q \<and> q < n \<and> p mod g = q mod g \<and> p \<noteq> j - g \<and> q \<noteq> j - g"
    consider "p = j" | "q = j" | "p \<noteq> j" "q \<noteq> j" by blast
    then show "a[j := a ! (j - g)] ! q \<le> a[j := a ! (j - g)] ! p"
    proof cases
      case 1
      then show ?thesis using h pq j g mod by (auto simp: gap_hole_def)
    next
      case 2
      then have "p < j - g" using below pq by auto
      then show ?thesis using h pq j g mod 2 by (auto simp: gap_hole_def)
    next
      case 3
      then show ?thesis using h pq by (auto simp: gap_hole_def)
    qed
  next
    fix q assume q: "j - g < q \<and> q < n \<and> q mod g = (j - g) mod g"
    then have "j \<le> q" using above mod by simp
    then show "a[j := a ! (j - g)] ! q \<le> tmp"
      using h q y j mod by (cases "q = j") (auto simp: gap_hole_def)
  qed
qed

lemma gap_hole_fill:
  assumes h: "gap_hole g a n j tmp" and j: "j < n" "n \<le> length a"
    and stop: "j < g \<or> tmp \<le> a ! (j - g)"
  shows "gap_sorted g (a[j := tmp]) n"
  unfolding gap_sorted_def
proof (intro allI impI)
  fix p q assume pq: "p < q \<and> q < n \<and> p mod g = q mod g"
  consider "p = j" | "q = j" | "p \<noteq> j" "q \<noteq> j" by blast
  then show "a[j := tmp] ! q \<le> a[j := tmp] ! p"
  proof cases
    case 2
    then have p: "p + g \<le> j" using mod_eq_gap [of p q g] pq by auto
    then have "tmp \<le> a ! (j - g)" using stop by auto
    moreover have "a ! (j - g) \<le> a ! p"
    proof (cases "p = j - g")
      case False
      with p have "p < j - g" "g \<le> j" by auto
      moreover have "p mod g = (j - g) mod g" using pq 2 p by (simp add: le_mod_geq)
      moreover have "j - g \<noteq> j" using 2 pq p h by (cases "g = 0") (auto simp: False)
      ultimately show ?thesis using h j unfolding gap_hole_def
        by (metis diff_le_self le_less_trans order_less_imp_not_eq)
    qed simp
    ultimately show ?thesis using 2 pq j by auto
  qed (use h pq j in \<open>auto simp: gap_hole_def\<close>)
qed

lemma shell_shift_ok:
  assumes "0 < g" "j < n" "n \<le> length a" "gap_hole g a n j tmp"
  shows "\<exists>a' j'. shell_shift (int g) a (int j) tmp = Some (a', int j') \<and> j' \<le> j \<and> length a' = length a \<and>
    mset (a'[j' := tmp]) = mset (a[j := tmp]) \<and> gap_sorted g (a'[j' := tmp]) n"
  using assms
proof (induction j arbitrary: a rule: less_induct)
  case (less j)
  show ?case
  proof (cases "g \<le> j \<and> a ! (j - g) < tmp")
    case True
    let ?a = "a[j := a ! (j - g)]"
    have "\<exists>a' j'. shell_shift (int g) ?a (int (j - g)) tmp = Some (a', int j') \<and> j' \<le> j - g \<and>
      length a' = length ?a \<and> mset (a'[j' := tmp]) = mset (?a[j - g := tmp]) \<and> gap_sorted g (a'[j' := tmp]) n"
      using less.prems True gap_hole_step [OF less.prems(4,2,3) _ less.prems(1)]
      by (intro less.IH) auto
    moreover have "mset (?a[j - g := tmp]) = mset (a[j := tmp])"
      using less.prems by (intro mset_move_hole) auto
    moreover have "shell_shift (int g) a (int j) tmp = shell_shift (int g) ?a (int (j - g)) tmp"
      using less.prems True by (subst shell_shift.simps) (simp add: of_nat_diff)
    ultimately show ?thesis by (auto intro: le_trans [OF _ diff_le_self])
  next
    case False
    then have "shell_shift (int g) a (int j) tmp = Some (a, int j)"
      using less.prems by (subst shell_shift.simps) auto
    moreover have "gap_sorted g (a[j := tmp]) n"
      using gap_hole_fill [OF less.prems(4,2,3)] False by linarith
    ultimately show ?thesis by auto
  qed
qed

lemma insert_shift_shell: "insert_shift a (int j) tmp = shell_shift 1 a (int j) tmp"
proof (induction j arbitrary: a)
  case 0
  then show ?case by (subst insert_shift.simps, subst shell_shift.simps) simp
next
  case (Suc j)
  then show ?case
    by (subst insert_shift.simps, subst shell_shift.simps) (simp cong: if_cong)
qed

text \<open>One insertion extends the sorted prefix by one position.\<close>

lemma gap_insert_ok:
  assumes "0 < g" "i < length a" "gap_sorted g a i"
  shows "\<exists>a' j. shell_shift (int g) a (int i) (a ! i) = Some (a', int j) \<and> j < length a' \<and>
    length a' = length a \<and> mset (a'[j := a ! i]) = mset a \<and> gap_sorted g (a'[j := a ! i]) (Suc i)"
  using shell_shift_ok [OF assms(1) _ _ gap_hole_start [OF assms(3)], of "a ! i"] assms(2) by fastforce

lemma shell_loop_ok:
  assumes "0 < g" "i \<le> length a" "gap_sorted g a i"
  shows "\<exists>a'. shell_loop (int g) a (int i) (int (length a)) = Some a' \<and> mset a' = mset a \<and>
    length a' = length a \<and> gap_sorted g a' (length a)"
  using assms
proof (induction "length a - i" arbitrary: a i)
  case 0
  then show ?case by (subst shell_loop.simps) simp
next
  case (Suc k)
  then have i: "i < length a" by simp
  with Suc obtain a1 j where 1: "shell_shift (int g) a (int i) (a ! i) = Some (a1, int j)" "j < length a1"
    "length a1 = length a" "mset (a1[j := a ! i]) = mset a" "gap_sorted g (a1[j := a ! i]) (Suc i)"
    using gap_insert_ok [of g i a] by metis
  have "\<exists>a'. shell_loop (int g) (a1[j := a ! i]) (int (Suc i)) (int (length (a1[j := a ! i]))) = Some a' \<and>
    mset a' = mset (a1[j := a ! i]) \<and> length a' = length (a1[j := a ! i]) \<and>
    gap_sorted g a' (length (a1[j := a ! i]))"
    using 1 Suc by (intro Suc.hyps(1)) auto
  then show ?case
    using 1 i by (subst shell_loop.simps) (simp add: add.commute)
qed

lemma insert_loop_shell: "0 \<le> i \<Longrightarrow> insert_loop a i cnt = shell_loop 1 a i cnt"
proof (induction "nat (cnt - i)" arbitrary: a i)
  case 0
  then show ?case by (subst insert_loop.simps, subst shell_loop.simps) simp
next
  case (Suc n)
  then have IH: "insert_loop a' (i + 1) cnt = shell_loop 1 a' (i + 1) cnt" for a' by simp
  have "insert_shift a i t = shell_shift 1 a i t" for t
    using insert_shift_shell [of a "nat i"] Suc.prems by simp
  then show ?case by (subst insert_loop.simps, subst shell_loop.simps) (simp add: IH)
qed

lemma gap_sorted_1: "gap_sorted 1 a (length a) \<longleftrightarrow> sorted_wrt (\<ge>) a"
  by (auto simp: gap_sorted_def sorted_wrt_iff_nth_less)

lemma lc_insert_sort_ok:
  "\<exists>a'. lc_insert_sort a (int (length a)) = Some (a', a') \<and> mset a' = mset a \<and> sorted_wrt (\<ge>) a'"
proof (cases "a = []")
  case True
  then show ?thesis
    by (simp add: lc_insert_sort_def insert_loop.simps print_from.simps)
next
  case False
  then obtain a' where "insert_loop a 1 (int (length a)) = Some a'" "mset a' = mset a"
    "length a' = length a" "gap_sorted 1 a' (length a)"
    using shell_loop_ok [of 1 1 a] insert_loop_shell [of 1 a]
    by (auto simp: gap_sorted_def Suc_le_eq)
  then show ?thesis
    using gap_sorted_1 [of a'] print_all [of a'] by (simp add: lc_insert_sort_def)
qed

lemma shell_gaps_ok:
  "\<exists>a'. shell_gaps (int g) a (int (length a)) = Some a' \<and> mset a' = mset a \<and>
     (0 < g \<longrightarrow> gap_sorted 1 a' (length a))"
proof (induction g arbitrary: a rule: less_induct)
  case (less g)
  show ?case
  proof (cases "g = 0")
    case True
    then show ?thesis by (subst shell_gaps.simps) simp
  next
    case False
    obtain a1 where 1: "shell_loop (int g) a 0 (int (length a)) = Some a1" "mset a1 = mset a"
      "length a1 = length a" "gap_sorted g a1 (length a)"
      using shell_loop_ok [of g 0 a] False by (auto simp: gap_sorted_def)
    obtain a2 where 2: "shell_gaps (int (g div 2)) a1 (int (length a1)) = Some a2" "mset a2 = mset a1"
      "0 < g div 2 \<longrightarrow> gap_sorted 1 a2 (length a1)"
      using less.IH [of "g div 2" a1] False by auto
    have "gap_sorted 1 a2 (length a1)"
    proof (cases "g = 1")
      case True
      then have "a2 = a1" using 2(1) by (simp add: shell_gaps.simps)
      then show ?thesis using 1 True by simp
    next
      case False
      then show ?thesis using 2(3) \<open>g \<noteq> 0\<close> by auto
    qed
    moreover have "shell_gaps (int g) a (int (length a)) = Some a2"
      using False 1 2 by (subst shell_gaps.simps) (simp add: zdiv_int)
    ultimately show ?thesis using 1 2 by simp
  qed
qed

lemma lc_shell_sort_ok:
  "\<exists>a'. lc_shell_sort a (int (length a)) = Some (a', a') \<and> mset a' = mset a \<and> sorted_wrt (\<ge>) a'"
proof -
  obtain a' where a': "shell_gaps (int (length a div 2)) a (int (length a)) = Some a'" "mset a' = mset a"
    "0 < length a div 2 \<longrightarrow> gap_sorted 1 a' (length a)"
    using shell_gaps_ok [of "length a div 2" a] by auto
  then have len: "length a' = length a" by (metis size_mset)
  have "sorted_wrt (\<ge>) a'"
  proof (cases "length a div 2 = 0")
    case True
    then have "length a' = 0 \<or> length a' = 1" using len by linarith
    then show ?thesis by (auto simp: length_Suc_conv)
  next
    case False
    then show ?thesis using a'(3) len gap_sorted_1 [of a'] by simp
  qed
  then show ?thesis
    using a' len print_all [of a'] by (simp add: lc_shell_sort_def zdiv_int)
qed

section \<open>Selection sort is correct\<close>

lemma selection_scan_ok:
  assumes "k \<le> t" "t < length a" "i \<le> length a" "k \<le> i" "\<forall>p. k \<le> p \<and> p < i \<longrightarrow> a ! p \<le> a ! t"
  shows "\<exists>t'. selection_scan a (int t) (int i) (int (length a)) = Some (int t') \<and> k \<le> t' \<and>
    t' < length a \<and> (\<forall>p. k \<le> p \<and> p < length a \<longrightarrow> a ! p \<le> a ! t')"
  using assms
proof (induction "length a - i" arbitrary: i t)
  case 0
  then show ?case by (subst selection_scan.simps) auto
next
  case (Suc n)
  then have i: "i < length a" by simp
  let ?t = "if a ! t < a ! i then i else t"
  have "\<exists>t'. selection_scan a (int ?t) (int (Suc i)) (int (length a)) = Some (int t') \<and> k \<le> t' \<and>
    t' < length a \<and> (\<forall>p. k \<le> p \<and> p < length a \<longrightarrow> a ! p \<le> a ! t')"
    using Suc.prems Suc.hyps(2) i
    by (intro Suc.hyps(1)) (auto simp: less_Suc_eq split: if_splits intro: order.trans less_imp_le)
  then show ?case
    using Suc.prems i by (subst selection_scan.simps) (simp add: add.commute if_distrib)
qed

text \<open>The first \<open>k\<close> positions hold the largest elements, in order.\<close>

definition selected :: "int list \<Rightarrow> nat \<Rightarrow> bool" where
  "selected a k \<longleftrightarrow> (\<forall>p q. p < q \<and> p < k \<and> q < length a \<longrightarrow> a ! q \<le> a ! p)"

lemma selected_step:
  assumes s: "selected a k" and t: "k \<le> t" "t < length a" and max: "\<forall>p. k \<le> p \<and> p < length a \<longrightarrow> a ! p \<le> a ! t"
  shows "selected (a[k := a ! t, t := a ! k]) (Suc k)"
  unfolding selected_def
proof (intro allI impI)
  fix p q assume pq: "p < q \<and> p < Suc k \<and> q < length (a[k := a ! t, t := a ! k])"
  let ?b = "a[k := a ! t, t := a ! k]"
  have nth: "?b ! r = (if r = t then a ! k else if r = k then a ! t else a ! r)" if "r < length a" for r
    using that t by (auto simp: nth_list_update)
  show "?b ! q \<le> ?b ! p"
  proof (cases "p = k")
    case True
    have "?b ! k = a ! t" using t by (cases "k = t") (auto simp: nth_list_update)
    moreover have "?b ! q \<le> a ! t" using pq t True max nth [of q] by auto
    ultimately show ?thesis using True by simp
  next
    case False
    then have "p < k" using pq by simp
    then have "\<And>r. k \<le> r \<Longrightarrow> r < length a \<Longrightarrow> a ! r \<le> a ! p" "a ! q \<le> a ! p" "?b ! p = a ! p"
      using s pq t nth [of p] by (auto simp: selected_def)
    then show ?thesis using nth [of q] pq t by auto
  qed
qed

lemma selection_loop_ok:
  assumes "selected a k" "k \<le> length a"
  shows "\<exists>a'. selection_loop a (int k) (int (length a)) = Some a' \<and> mset a' = mset a \<and> selected a' (length a)"
  using assms
proof (induction "length a - k" arbitrary: a k)
  case 0
  then show ?case by (subst selection_loop.simps) simp
next
  case (Suc n)
  then have k: "k < length a" by simp
  show ?case
  proof (cases "Suc k < length a")
    case False
    then have "selected a (length a)" using Suc.prems k
      by (auto simp: selected_def)
    then show ?thesis using False by (subst selection_loop.simps) auto
  next
    case True
    obtain t where t: "selection_scan a (int k) (int k) (int (length a)) = Some (int t)" "k \<le> t"
      "t < length a" "\<forall>p. k \<le> p \<and> p < length a \<longrightarrow> a ! p \<le> a ! t"
      using selection_scan_ok [of k k a k] k by auto
    let ?a = "a[k := a ! t, t := a ! k]"
    have len: "length ?a = length a" and ms: "mset ?a = mset a"
      using t k mset_swap [of t a k] by (auto simp: list_update_swap) 
    have "\<exists>a'. selection_loop ?a (int (Suc k)) (int (length ?a)) = Some a' \<and> mset a' = mset ?a \<and>
      selected a' (length ?a)"
      using Suc.hyps(2) t k selected_step [OF Suc.prems(1) t(2-4)] by (intro Suc.hyps(1)) auto
    moreover have "a = ?a" if "a ! k = a ! t" using that by (metis list_update_id)
    ultimately show ?thesis
      using t k True ms by (subst selection_loop.simps) (auto simp: add.commute)
  qed
qed

lemma lc_selection_sort_ok:
  assumes "int (length a) \<le> INT_MAX"
  shows "\<exists>a'. lc_selection_sort a (4 * length a) = Some (a', a') \<and> mset a' = mset a \<and> sorted_wrt (\<ge>) a'"
proof -
  obtain a' where a': "selection_loop a 0 (int (length a)) = Some a'" "mset a' = mset a" "selected a' (length a)"
    using selection_loop_ok [of a 0] by (auto simp: selected_def)
  then have len: "length a' = length a" by (metis size_mset)
  then have "sorted_wrt (\<ge>) a'"
    using a'(3) by (auto simp: selected_def sorted_wrt_iff_nth_less)
  then show ?thesis
    using a' len assms print_all [of a'] by (simp add: lc_selection_sort_def int_of_size_ok)
qed

section \<open>Bubble sort leaves the first two elements in either order\<close>

lemma bubble_pass_step:
  assumes "i < m" "m < length a"
  shows "bubble_pass a (int i) (int m) =
    bubble_pass (if a ! i < a ! Suc i then a[i := a ! Suc i, Suc i := a ! i] else a) (int (Suc i)) (int m)"
  using assms arr_get_nat [of "Suc i" a] arr_set_nat [of "Suc i" "a[i := a ! Suc i]" "a ! i"]
  by (subst bubble_pass.simps) (simp add: add.commute)

text \<open>One pass moves a smallest element of \<open>a[0..m]\<close> to position \<open>m\<close>.\<close>

lemma bubble_pass_ok:
  assumes "i \<le> m" "m < length a" "\<forall>p < i. a ! i \<le> a ! p"
  shows "\<exists>a'. bubble_pass a (int i) (int m) = Some a' \<and> length a' = length a \<and>
    mset (take (Suc m) a') = mset (take (Suc m) a) \<and> drop (Suc m) a' = drop (Suc m) a \<and>
    (\<forall>p < m. a' ! m \<le> a' ! p)"
  using assms
proof (induction "m - i" arbitrary: a i)
  case 0
  then show ?case by (subst bubble_pass.simps) auto
next
  case (Suc n)
  then have i: "i < m" by simp
  let ?a = "if a ! i < a ! Suc i then a[i := a ! Suc i, Suc i := a ! i] else a"
  have "\<exists>a'. bubble_pass ?a (int (Suc i)) (int m) = Some a' \<and> length a' = length ?a \<and>
    mset (take (Suc m) a') = mset (take (Suc m) ?a) \<and> drop (Suc m) a' = drop (Suc m) ?a \<and>
    (\<forall>p < m. a' ! m \<le> a' ! p)"
    using Suc.prems Suc.hyps(2) i
    by (intro Suc.hyps(1)) (auto simp: nth_list_update less_Suc_eq intro: order.trans less_imp_le)
  moreover have "mset (take (Suc m) ?a) = mset (take (Suc m) a)"
    using i Suc.prems mset_swap [of "Suc i" "take (Suc m) a" i]
    by (auto simp: take_update_swap list_update_swap)
  moreover have "drop (Suc m) ?a = drop (Suc m) a" "length ?a = length a"
    using i by auto
  moreover have "bubble_pass a (int i) (int m) = bubble_pass ?a (int (Suc i)) (int m)"
    using i Suc.prems(2) by (rule bubble_pass_step)
  ultimately show ?case by simp
qed

text \<open>The positions from \<open>m\<close> on hold the smallest elements, in order.\<close>

definition settled :: "int list \<Rightarrow> nat \<Rightarrow> bool" where
  "settled a m \<longleftrightarrow> (\<forall>p q. p < q \<and> m \<le> q \<and> q < length a \<longrightarrow> a ! q \<le> a ! p)"

lemma settled_step:
  assumes s: "settled a (Suc m)" and a': "length a' = length a" "mset (take (Suc m) a') = mset (take (Suc m) a)"
    "drop (Suc m) a' = drop (Suc m) a" "\<forall>p < m. a' ! m \<le> a' ! p"
  shows "settled a' m"
  unfolding settled_def
proof (intro allI impI)
  fix p q assume pq: "p < q \<and> m \<le> q \<and> q < length a'"
  have same: "a' ! r = a ! r" if "Suc m \<le> r" "r < length a" for r
    using that a'(1) nth_drop [of "Suc m" a' "r - Suc m"] nth_drop [of "Suc m" a "r - Suc m"] a'(3) by simp
  show "a' ! q \<le> a' ! p"
  proof (cases "Suc m \<le> q")
    case False
    then show ?thesis using pq a'(4) by (metis le_antisym not_less_eq_eq)
  next
    case q: True
    show ?thesis
    proof (cases "Suc m \<le> p")
      case True
      then show ?thesis using same [of p] same [of q] s pq q a'(1) by (auto simp: settled_def)
    next
      case False
      then have "a' ! p \<in> set (take (Suc m) a')" using pq by (auto simp: set_conv_nth intro!: exI [of _ p])
      then have "a' ! p \<in> set (take (Suc m) a)" by (metis a'(2) mset_eq_setD)
      then obtain r where "r < Suc m" "r < length a" "a' ! p = a ! r" by (auto simp: in_set_conv_nth)
      then show ?thesis using same [of q] s pq q a'(1) by (auto simp: settled_def)
    qed
  qed
qed

lemma bubble_loop_ok:
  assumes "k \<le> length a" "settled a (length a - k)"
  shows "\<exists>a'. bubble_loop a (int k) (int (length a)) = Some a' \<and> mset a' = mset a \<and> settled a' 2"
  using assms
proof (induction "length a - k" arbitrary: a k)
  case 0
  then show ?case by (subst bubble_loop.simps) (auto simp: settled_def)
next
  case (Suc n)
  show ?case
  proof (cases "k + 2 < length a")
    case False
    then have "settled a 2" using Suc.prems by (auto simp: settled_def)
    then show ?thesis using False by (subst bubble_loop.simps) auto
  next
    case True
    let ?m = "length a - k - 1"
    have m: "int (length a) - int k - 1 = int ?m" "Suc ?m = length a - k" using True by auto
    have "?m < length a" using True by simp
    then obtain a1 where 1: "bubble_pass a 0 (int ?m) = Some a1" "length a1 = length a"
      "mset (take (Suc ?m) a1) = mset (take (Suc ?m) a)" "drop (Suc ?m) a1 = drop (Suc ?m) a"
      "\<forall>p < ?m. a1 ! ?m \<le> a1 ! p"
      using bubble_pass_ok [of 0 ?m a] by auto
    have ms: "mset a1 = mset a"
      using 1(3,4) by (metis append_take_drop_id mset_append)
    have "settled a1 (length a1 - Suc k)"
      using settled_step [OF _ 1(2-5)] Suc.prems(2) m(2) 1(2) by simp
    then have "\<exists>a'. bubble_loop a1 (int (Suc k)) (int (length a1)) = Some a' \<and> mset a' = mset a1 \<and> settled a' 2"
      using Suc.hyps(2) 1(2) True by (intro Suc.hyps(1)) auto
    then show ?thesis
      using True 1 ms by (subst bubble_loop.simps) (simp add: m(1) add.commute)
  qed
qed

text \<open>The first position of a largest element: a pass moves it one to the left, until it is 0.\<close>

definition first_max :: "int list \<Rightarrow> nat \<Rightarrow> bool" where
  "first_max a p \<longleftrightarrow> p < length a \<and> (\<forall>q < length a. a ! q \<le> a ! p) \<and> (\<forall>q < p. a ! q < a ! p)"

lemma first_max_exists: "a \<noteq> [] \<Longrightarrow> \<exists>p. first_max a p"
proof -
  assume "a \<noteq> []"
  then have "Max (set a) \<in> set a" by simp
  then have ex: "\<exists>p. p < length a \<and> a ! p = Max (set a)" by (auto simp: in_set_conv_nth)
  let ?p = "LEAST p. p < length a \<and> a ! p = Max (set a)"
  have p: "?p < length a" "a ! ?p = Max (set a)" using LeastI_ex [OF ex] by auto
  have le: "a ! q \<le> Max (set a)" if "q < length a" for q using that by simp
  moreover have "a ! q \<noteq> Max (set a)" if "q < ?p" for q using not_less_Least [OF that] that p(1) by auto
  ultimately have "a ! q < Max (set a)" if "q < ?p" for q using that p(1) by (metis le_neq_trans order.strict_trans)
  then show ?thesis using p le by (auto simp: first_max_def)
qed

lemma first_max_swap:
  assumes "first_max a p" "Suc i < length a" "a ! i < a ! Suc i"
  shows "first_max (a[i := a ! Suc i, Suc i := a ! i]) (if Suc i = p then i else p)"
  using assms by (auto simp: first_max_def nth_list_update less_Suc_eq)

lemma bubble_pass_first_max:
  assumes "bubble_pass a (int i) (int m) = Some a'" "first_max a p" "i \<le> m" "m < length a" "p \<le> m"
  shows "first_max a' (if i < p then p - 1 else p)"
  using assms
proof (induction "m - i" arbitrary: a i p)
  case 0
  then show ?case by (subst (asm) bubble_pass.simps) auto
next
  case (Suc n)
  then have i: "i < m" by simp
  let ?a = "if a ! i < a ! Suc i then a[i := a ! Suc i, Suc i := a ! i] else a"
  let ?p = "if Suc i = p then i else p"
  have "a ! i < a ! Suc i" if "Suc i = p" using that Suc.prems(2) by (auto simp: first_max_def)
  then have "first_max ?a ?p" using first_max_swap [OF Suc.prems(2), of i] Suc.prems(2,4) i by auto
  moreover have "bubble_pass ?a (int (Suc i)) (int m) = Some a'" using Suc.prems(1) bubble_pass_step [OF i Suc.prems(4)] by simp
  ultimately have "first_max a' (if Suc i < ?p then ?p - 1 else ?p)"
    using Suc.prems Suc.hyps(2) i by (intro Suc.hyps(1) [of "Suc i" ?a]) auto
  then show ?case by (auto split: if_splits)
qed

lemma bubble_loop_first_max:
  assumes "bubble_loop a (int k) (int (length a)) = Some a'" "first_max a p" "p + k < length a"
  shows "first_max a' (p - (length a - 2 - k))"
  using assms
proof (induction "length a - k" arbitrary: a k p)
  case (Suc n)
  show ?case
  proof (cases "k + 2 < length a")
    case False
    then show ?thesis using Suc.prems by (subst (asm) bubble_loop.simps) auto
  next
    case True
    let ?m = "length a - k - 1"
    have m: "int (length a) - int k - 1 = int ?m" "?m < length a" using True by auto
    obtain a1 where 1: "bubble_pass a 0 (int ?m) = Some a1" "length a1 = length a"
      using bubble_pass_ok [of 0 ?m a] m(2) by auto
    have f: "first_max a1 (p - 1)" using bubble_pass_first_max [of a 0 ?m a1 p] 1(1) Suc.prems(2,3) m(2) by (cases p) auto
    have "bubble_loop a1 (int (Suc k)) (int (length a1)) = Some a'"
      using Suc.prems(1) True 1 by (subst (asm) bubble_loop.simps) (simp add: m(1) add.commute)
    from Suc.hyps(1) [OF _ this f] Suc.hyps(2) Suc.prems(3) 1(2) True
    have "first_max a' (p - 1 - (length a1 - 2 - Suc k))" by auto
    moreover have "p - 1 - (length a1 - 2 - Suc k) = p - (length a - 2 - k)" using 1(2) True by simp
    ultimately show ?thesis by simp
  qed
qed simp

lemma lc_bubble_sort_settled:
  assumes "int (length a) \<le> INT_MAX"
  shows "\<exists>a'. lc_bubble_sort a (4 * length a) = Some (a', a') \<and> mset a' = mset a \<and> settled a' 2 \<and>
    (\<forall>p. first_max a p \<longrightarrow> first_max a' (p - (length a - 2)))"
proof -
  obtain a' where a': "bubble_loop a 0 (int (length a)) = Some a'" "mset a' = mset a" "settled a' 2"
    using bubble_loop_ok [of 0 a] by (auto simp: settled_def)
  then have "length a' = length a" by (metis size_mset)
  moreover have "first_max a' (p - (length a - 2))" if "first_max a p" for p
  proof -
    have "p + 0 < length a" using that by (simp add: first_max_def)
    from bubble_loop_first_max [OF _ that this] a'(1) show ?thesis by simp
  qed
  ultimately show ?thesis
    using a' assms print_all [of a'] by (simp add: lc_bubble_sort_def int_of_size_ok)
qed

lemma descending_unique:
  assumes "mset a' = mset a" "sorted_wrt (\<ge>) a'"
  shows "a' = rev (sort (a :: int list))"
proof -
  have "sorted (rev a')" using assms(2) by (simp add: sorted_wrt_rev)
  then have "sort a = rev a'" using assms(1) by (intro properties_for_sort) simp_all
  then show ?thesis by simp
qed

lemma settled_two:
  assumes "settled (x # y # ys) 2"
  shows "sorted_wrt (\<ge>) ys" "z \<in> set ys \<Longrightarrow> z \<le> x" "z \<in> set ys \<Longrightarrow> z \<le> y"
proof -
  have s: "(x # y # ys) ! q \<le> (x # y # ys) ! p" if "p < q" "2 \<le> q" "q < length ys + 2" for p q
    using assms that by (simp add: settled_def)
  show "sorted_wrt (\<ge>) ys" unfolding sorted_wrt_iff_nth_less
  proof (intro allI impI)
    fix i j assume "i < j" "j < length ys"
    then show "ys ! j \<le> ys ! i" using s [of "i + 2" "j + 2"] by simp
  qed
  show "z \<le> x" "z \<le> y" if "z \<in> set ys"
  proof -
    obtain j where "j < length ys" "z = ys ! j" using \<open>z \<in> set ys\<close> by (auto simp: in_set_conv_nth)
    then show "z \<le> x" "z \<le> y" using s [of 0 "j + 2"] s [of 1 "j + 2"] by simp_all
  qed
qed

section \<open>Properties\<close>

text \<open>
  Insertion sort, called with the length of the array, returns for every array without an access
  out of bounds, leaves a permutation of the array in descending order, and prints it.
\<close>

theorem insert_sort_correct:
  "\<exists>a'. lc_insert_sort a (int (length a)) = Some (a', a') \<and> mset a' = mset a \<and> sorted_wrt (\<ge>) a'"
  by (rule lc_insert_sort_ok)

text \<open>
  Shell sort, with gaps that halve from half the length down to one, does the same; that it sorts
  rests on its last round having gap one, that it returns on the gaps decreasing.
\<close>

theorem shell_sort_correct:
  "\<exists>a'. lc_shell_sort a (int (length a)) = Some (a', a') \<and> mset a' = mset a \<and> sorted_wrt (\<ge>) a'"
  by (rule lc_shell_sort_ok)

text \<open>
  Selection sort, called with the size of the array in bytes, sorts every array with at most
  \<open>INT_MAX\<close> elements in descending order and prints it.
\<close>

theorem selection_sort_correct:
  assumes "int (length a) \<le> INT_MAX"
  shows "\<exists>a'. lc_selection_sort a (4 * length a) = Some (a', a') \<and> mset a' = mset a \<and> sorted_wrt (\<ge>) a'"
  using assms by (rule lc_selection_sort_ok)

theorem selection_sort_correct_witness:
  "\<exists>a'. lc_selection_sort [3, 9, 4] 12 = Some (a', a') \<and> mset a' = {#3, 4, 9#} \<and> sorted_wrt (\<ge>) a'"
  using selection_sort_correct [of "[3, 9, 4]"] by (auto simp: INT_MAX_def add.commute)

text \<open>An array in which all but the first two elements are settled is sorted, or has these two exchanged.\<close>

lemma settled_array:
  assumes "settled a' 2" "mset a' = mset a"
  shows "a' = (let d = rev (sort a) in if 2 \<le> length a' \<and> a' ! 0 < a' ! 1 then d ! 1 # d ! 0 # drop 2 d else d)"
proof (cases "2 \<le> length a'")
  case False
  then have "sorted_wrt (\<ge>) a'" by (cases a'; cases "tl a'"; simp)
  with assms(2) have "a' = rev (sort a)" by (rule descending_unique)
  then show ?thesis using False by simp
next
  case True
  then obtain x y ys where a': "a' = x # y # ys" by (cases a'; cases "tl a'") auto
  show ?thesis
  proof (cases "x < y")
    case True
    have "mset (y # x # ys) = mset a" using assms(2) a' by (simp add: add_mset_commute)
    moreover have "sorted_wrt (\<ge>) (y # x # ys)" using settled_two [of x y ys] assms(1) True by (auto simp: a')
    ultimately have "y # x # ys = rev (sort a)" by (rule descending_unique)
    from this [symmetric] show ?thesis using True a' by simp
  next
    case False
    then have "sorted_wrt (\<ge>) a'" using settled_two [of x y ys] assms(1) by (auto simp: a')
    with assms(2) have "a' = rev (sort a)" by (rule descending_unique)
    moreover have "\<not> a' ! 0 < a' ! 1" using False a' by simp
    ultimately show ?thesis by simp
  qed
qed

text \<open>
  C31. Bubble sort stops one round early (\<open>k < cnt - 2\<close>), and exactly one kind of array shows it: the result is the array
  in descending order, but with the first two elements exchanged when the array's last element is greater than every other. For
  such an array the result is not sorted; a bubble sort with one more round would sort it.
\<close>

theorem bubble_sort_stops_early:
  fixes a :: "int list"
  defines "d \<equiv> rev (sort a)"
  defines "last_is_greatest \<equiv> 2 \<le> length a \<and> (\<forall>x \<in> set (butlast a). x < last a)"
  defines "r \<equiv> if last_is_greatest then d ! 1 # d ! 0 # drop 2 d else d"
  assumes "int (length a) \<le> INT_MAX"
  shows "lc_bubble_sort a (4 * length a) = Some (r, r) \<and> (last_is_greatest \<longrightarrow> \<not> sorted_wrt (\<ge>) r)"
proof -
  obtain a' where a': "lc_bubble_sort a (4 * length a) = Some (a', a')" "mset a' = mset a" "settled a' 2"
    "\<And>p. first_max a p \<Longrightarrow> first_max a' (p - (length a - 2))"
    using lc_bubble_sort_settled [OF assms(4)] by blast
  have len: "length a' = length a" using a'(2) by (metis size_mset)
  have greatest: "last_is_greatest \<longleftrightarrow> 2 \<le> length a \<and> (\<forall>q < length a - 1. a ! q < a ! (length a - 1))"
    unfolding last_is_greatest_def by (cases "a = []") (auto simp: all_set_conv_all_nth nth_butlast last_conv_nth)
  have iff: "last_is_greatest \<longleftrightarrow> 2 \<le> length a' \<and> a' ! 0 < a' ! 1"
  proof (cases "2 \<le> length a")
    case n: True
    then have "a \<noteq> []" by auto
    then obtain p where p: "first_max a p" using first_max_exists by blast
    note p' = p [unfolded first_max_def] and m = a'(4) [OF p, unfolded first_max_def]
    show ?thesis
    proof (cases "p = length a - 1")
      case True
      then have "p - (length a - 2) = 1" using n by simp
      then show ?thesis using True p' m n len unfolding greatest by auto
    next
      case False
      then have "p - (length a - 2) = 0" using p' by auto
      then have "a' ! 1 \<le> a' ! 0" using m n len by auto
      moreover have "p < length a - 1" "a ! (length a - 1) \<le> a ! p" using p' False n by auto
      then have "\<not> last_is_greatest" unfolding greatest by (auto simp: not_less)
      ultimately show ?thesis by auto
    qed
  qed (simp add: greatest len)
  have r: "a' = r" using settled_array [OF a'(3,2)] unfolding iff r_def d_def Let_def .
  have "\<not> sorted_wrt (\<ge>) a'" if "last_is_greatest"
    using that sorted_wrt_nth_less [of "(\<ge>)" a' 0 1] unfolding iff by auto
  then show ?thesis using a'(1) r by simp
qed

theorem bubble_sort_stops_early_witness:
  "lc_bubble_sort [1, 2, 3] 12 = Some ([2, 3, 1], [2, 3, 1]) \<and> lc_bubble_sort [3, 1, 2] 12 = Some ([3, 2, 1], [3, 2, 1])"
  using bubble_sort_stops_early [of "[1, 2, 3]"] bubble_sort_stops_early [of "[3, 1, 2]"] by (simp add: INT_MAX_def)

end
