(* ===== verification/Range_Sort.thy ===== *)
theory Range_Sort
  imports Prelude
begin

text \<open>
  What the two quicksorts of \<open>practice_srcs/sort_algo\<close> share: an array used as a stack of index
  ranges still to be sorted, and the argument that partitioning one range after the other sorts
  the array. The interface between the loop and the partitioning is the locale \<open>range_sort\<close>.
\<close>

section \<open>A stack of ranges in an array\<close>

text \<open>\<open>range[stack_top++] = r\<close> and \<open>range[--stack_top]\<close>; an element is indeterminate until it is written.\<close>

definition push :: "'r \<Rightarrow> 'r obj list \<Rightarrow> int \<Rightarrow> ('r obj list \<times> int) option" where
  "push r rng tp = map_option (\<lambda>rng. (rng, tp + 1)) (arr_set rng tp (Some r))"

definition pop :: "'r obj list \<Rightarrow> int \<Rightarrow> ('r \<times> int) option" where
  "pop rng tp = do { r \<leftarrow> arr_get rng (tp - 1); map_option (\<lambda>r. (r, tp - 1)) r }"

definition holds :: "'r obj list \<Rightarrow> int \<Rightarrow> 'r list \<Rightarrow> bool" where
  "holds rng tp st \<longleftrightarrow> tp = int (length st) \<and> length st \<le> length rng \<and>
     take (length st) rng = map Some (rev st)"

lemma holds_empty: "holds rng 0 []"
  by (simp add: holds_def)

lemma push_ok:
  assumes "holds rng tp st" "length st < length rng"
  shows "\<exists>rng'. push r rng tp = Some (rng', tp + 1) \<and> holds rng' (tp + 1) (r # st) \<and>
    length rng' = length rng"
  using assms by (simp add: push_def holds_def arr_set_def take_Suc_conv_app_nth take_update_cancel)

lemma pop_ok:
  assumes "holds rng tp (r # st)"
  shows "pop rng tp = Some (r, tp - 1) \<and> holds rng (tp - 1) st"
proof -
  have l: "length st < length rng" and t: "take (Suc (length st)) rng = map Some (rev st) @ [Some r]"
    using assms by (auto simp: holds_def)
  have "take (length st) rng @ [rng ! length st] = map Some (rev st) @ [Some r]"
    using t l by (simp add: take_Suc_conv_app_nth)
  then have "take (length st) rng = map Some (rev st)" "rng ! length st = Some r"
    by simp_all
  then show ?thesis
    using assms l by (simp add: pop_def holds_def arr_get_def)
qed

section \<open>Rearranging a segment\<close>

definition seg_perm :: "int \<Rightarrow> int \<Rightarrow> int list \<Rightarrow> int list \<Rightarrow> bool" where
  "seg_perm s e a a' \<longleftrightarrow> length a' = length a \<and> mset a' = mset a \<and>
     (\<forall>i. 0 \<le> i \<and> i < int (length a) \<and> \<not> (s \<le> i \<and> i \<le> e) \<longrightarrow> a' ! nat i = a ! nat i) \<and>
     (\<forall>i. s \<le> i \<and> i \<le> e \<longrightarrow> (\<exists>j. s \<le> j \<and> j \<le> e \<and> a' ! nat i = a ! nat j))"

lemma seg_perm_refl [simp]: "seg_perm s e a a"
  by (auto simp: seg_perm_def)

lemma seg_perm_trans: "seg_perm s e a b \<Longrightarrow> seg_perm s e b c \<Longrightarrow> seg_perm s e a c"
  unfolding seg_perm_def by (auto simp del: split_paired_All)

lemma seg_perm_length: "seg_perm s e a a' \<Longrightarrow> length a' = length a"
  by (simp add: seg_perm_def)

lemma seg_perm_swap:
  assumes "0 \<le> s" "s \<le> i" "i \<le> e" "s \<le> j" "j \<le> e" "e < int (length a)"
  shows "seg_perm s e a (a[nat i := a ! nat j, nat j := a ! nat i])"
proof -
  have "mset (a[nat i := a ! nat j, nat j := a ! nat i]) = mset a"
    using assms by (intro mset_swap) auto
  then show ?thesis
    using assms by (auto simp: seg_perm_def nth_list_update nat_eq_iff)
qed

text \<open>
  A partitioning of \<open>a[s..e]\<close> into \<open>a[s..r]\<close> and \<open>a[l..e]\<close>: two elements that do not end up in the
  same part are in order, and both parts are shorter than the segment.
\<close>

definition split_ok :: "int list \<Rightarrow> int \<Rightarrow> int \<Rightarrow> int list \<Rightarrow> int \<Rightarrow> int \<Rightarrow> bool" where
  "split_ok a s e a' r l \<longleftrightarrow> seg_perm s e a a' \<and> s - 1 \<le> r \<and> r < l \<and> l \<le> e + 1 \<and> r < e \<and> s < l \<and>
     (\<forall>i j. s \<le> i \<and> i < j \<and> j \<le> e \<and> r < j \<and> i < l \<longrightarrow> a' ! nat i \<le> a' ! nat j)"

section \<open>The worklist invariant\<close>

type_synonym span = "int \<times> int"

definition inside :: "int \<Rightarrow> int \<Rightarrow> span \<Rightarrow> bool" where
  "inside i j x \<longleftrightarrow> fst x \<le> i \<and> j \<le> snd x"

definition span_size :: "span \<Rightarrow> nat" where
  "span_size x = nat (snd x - fst x + 1)"

definition apart :: "span \<Rightarrow> span \<Rightarrow> bool" where
  "apart x y \<longleftrightarrow> snd x < fst y \<or> snd y < fst x"

text \<open>
  Every two positions that are not both in one range of the worklist hold elements in order; the
  ranges are non-empty, in bounds and disjoint, and together not longer than the array.
\<close>

definition work_inv :: "int list \<Rightarrow> span list \<Rightarrow> bool" where
  "work_inv a st \<longleftrightarrow>
     (\<forall>x \<in> set st. 0 \<le> fst x \<and> fst x \<le> snd x \<and> snd x < int (length a)) \<and>
     sorted_wrt apart st \<and> sum_list (map span_size st) \<le> length a \<and>
     (\<forall>i j. 0 \<le> i \<and> i < j \<and> j < int (length a) \<and> (\<forall>x \<in> set st. \<not> inside i j x) \<longrightarrow>
        a ! nat i \<le> a ! nat j)"

lemma work_inv_init: "a \<noteq> [] \<Longrightarrow> work_inv a [(0, int (length a) - 1)]"
  by (cases a) (auto simp: work_inv_def inside_def span_size_def)

lemma work_inv_done:
  assumes "work_inv a []"
  shows "sorted a"
  unfolding sorted_iff_nth_mono_less
proof (intro allI impI)
  fix i j assume "i < j" "j < length a"
  then have "a ! nat (int i) \<le> a ! nat (int j)"
    using assms unfolding work_inv_def by (metis empty_iff list.set(1) of_nat_0_le_iff of_nat_less_iff)
  then show "a ! i \<le> a ! j" by simp
qed

lemma work_inv_drop: "work_inv a ((s, e) # st) \<Longrightarrow> e \<le> s \<Longrightarrow> work_inv a st"
  by (fastforce simp: work_inv_def inside_def)

lemma work_inv_length: "work_inv a st \<Longrightarrow> length st \<le> length a"
proof -
  have "length ys \<le> sum_list (map span_size ys)" if "\<forall>x \<in> set ys. fst x \<le> snd x" for ys
    using that by (induction ys) (auto simp: span_size_def)
  from this [of st] show "work_inv a st \<Longrightarrow> length st \<le> length a"
    by (force simp: work_inv_def)
qed

definition weight :: "span list \<Rightarrow> nat" where
  "weight st = sum_list (map (\<lambda>x. 2 * span_size x - 1) st)"

definition parts :: "int \<Rightarrow> int \<Rightarrow> int \<Rightarrow> int \<Rightarrow> span list" where
  "parts s e r l = (if l < e then [(l, e)] else []) @ (if s < r then [(s, r)] else [])"

lemma weight_parts:
  assumes "split_ok a s e a' r l" "s < e"
  shows "weight (parts s e r l @ st) < weight ((s, e) # st)"
  using assms by (auto simp: weight_def parts_def span_size_def split_ok_def)

lemma apart_parts:
  assumes "\<forall>x \<in> set st. apart (s, e) x" "split_ok a s e a' r l" "x \<in> set st" "y \<in> set (parts s e r l)"
  shows "apart y x"
  using assms by (fastforce simp: apart_def parts_def split_ok_def split: if_splits)

lemma apart_not_inside:
  assumes "apart (s, e) x" "s \<le> k" "k \<le> e" "k = i \<or> k = j" "i < j"
  shows "\<not> inside i j x"
  using assms by (auto simp: apart_def inside_def)

text \<open>The order between elements after one partitioning: the four positions of the two indices.\<close>

lemma split_ordered:
  assumes inv: "work_inv a ((s, e) # st)" and split: "split_ok a s e a' r l"
    and ij: "0 \<le> i" "i < j" "j < int (length a)" "\<forall>x \<in> set (parts s e r l @ st). \<not> inside i j x"
  shows "a' ! nat i \<le> a' ! nat j"
proof -
  have old: "a ! nat p \<le> a ! nat q"
    if "0 \<le> p" "p < q" "q < int (length a)" "\<not> inside p q (s, e)" "\<forall>x \<in> set st. \<not> inside p q x" for p q
    using inv that unfolding work_inv_def by (metis set_ConsD)
  have se: "0 \<le> s" "s \<le> e" "e < int (length a)" and ap: "\<forall>x \<in> set st. apart (s, e) x"
    using inv by (auto simp: work_inv_def)
  have moved: "\<exists>k. s \<le> k \<and> k \<le> e \<and> a' ! nat p = a ! nat k" if "s \<le> p" "p \<le> e" for p
    using split that by (auto simp: split_ok_def seg_perm_def)
  have same: "a' ! nat p = a ! nat p" if "0 \<le> p" "p < int (length a)" "\<not> (s \<le> p \<and> p \<le> e)" for p
    using split that by (auto simp: split_ok_def seg_perm_def)
  have st: "\<forall>x \<in> set st. \<not> inside i j x" using ij(4) by auto
  consider (both) "s \<le> i" "j \<le> e" | (left) "s \<le> i" "i \<le> e" "e < j" | (right) "i < s" "s \<le> j" "j \<le> e"
    | (none) "\<not> (s \<le> i \<and> i \<le> e)" "\<not> (s \<le> j \<and> j \<le> e)"
    using ij(2) by linarith
  then show ?thesis
  proof cases
    case both
    have "\<not> j \<le> r" "\<not> l \<le> i"
      using ij(2,4) both by (auto simp: parts_def inside_def split: if_splits)
    then show ?thesis using split both ij(2) by (auto simp: split_ok_def)
  next
    case left
    then obtain k where k: "s \<le> k" "k \<le> e" "a' ! nat i = a ! nat k" using moved by blast
    have "a ! nat k \<le> a ! nat j"
      using k left se ij ap apart_not_inside [of s e _ k k j] by (intro old) (auto simp: inside_def)
    then show ?thesis using k(3) same [of j] left ij by auto
  next
    case right
    then obtain k where k: "s \<le> k" "k \<le> e" "a' ! nat j = a ! nat k" using moved by blast
    have "a ! nat i \<le> a ! nat k"
      using k right se ij ap apart_not_inside [of s e _ k i k] by (intro old) (auto simp: inside_def)
    then show ?thesis using k(3) same [of i] right ij by auto
  next
    case none
    then have "a ! nat i \<le> a ! nat j" using ij st by (intro old) (auto simp: inside_def)
    then show ?thesis using same [of i] same [of j] none ij by auto
  qed
qed

lemma work_inv_split:
  assumes inv: "work_inv a ((s, e) # st)" and split: "split_ok a s e a' r l"
  shows "work_inv a' (parts s e r l @ st)"
proof -
  have len: "length a' = length a" using split by (simp add: split_ok_def seg_perm_def)
  have se: "0 \<le> s" "s \<le> e" "e < int (length a)" and ap: "\<forall>x \<in> set st. apart (s, e) x"
    and st: "sorted_wrt apart st" and bnd: "\<forall>x \<in> set st. 0 \<le> fst x \<and> fst x \<le> snd x \<and> snd x < int (length a)"
    and sz: "span_size (s, e) + sum_list (map span_size st) \<le> length a"
    using inv by (auto simp: work_inv_def)
  have "sorted_wrt apart (parts s e r l)"
    using split by (auto simp: parts_def apart_def split_ok_def)
  then have "sorted_wrt apart (parts s e r l @ st)"
    using st apart_parts [OF ap split] by (simp add: sorted_wrt_append)
  moreover have "\<forall>x \<in> set (parts s e r l). 0 \<le> fst x \<and> fst x \<le> snd x \<and> snd x < int (length a)"
    using split se by (auto simp: parts_def split_ok_def)
  moreover have "sum_list (map span_size (parts s e r l)) \<le> span_size (s, e)"
    using split se by (auto simp: parts_def span_size_def split_ok_def)
  ultimately show ?thesis
    using bnd sz len split_ordered [OF inv split] by (auto simp: work_inv_def)
qed

section \<open>Sorting with a partitioning function\<close>

text \<open>
  \<open>mk\<close>, \<open>fst_of\<close> and \<open>snd_of\<close> are the code's constructor and fields of a range, \<open>part\<close> its
  partitioning of one range, and \<open>loop\<close> its outer loop, which pops a range, drops it when it has
  less than two elements, and otherwise partitions it and pushes the parts.
\<close>

locale range_sort =
  fixes mk :: "int \<Rightarrow> int \<Rightarrow> 'r" and fst_of :: "'r \<Rightarrow> int" and snd_of :: "'r \<Rightarrow> int"
    and part :: "int list \<Rightarrow> int \<Rightarrow> int \<Rightarrow> (int list \<times> int \<times> int) option"
    and loop :: "int list \<Rightarrow> 'r obj list \<Rightarrow> int \<Rightarrow> int list option"
    and bounded :: "int list \<Rightarrow> bool"
  assumes fields: "fst_of (mk s e) = s" "snd_of (mk s e) = e"
    and bounded_length: "bounded a \<Longrightarrow> length b = length a \<Longrightarrow> bounded b"
    and part_ok: "bounded a \<Longrightarrow> 0 \<le> s \<Longrightarrow> s < e \<Longrightarrow> e < int (length a) \<Longrightarrow>
      \<exists>a' r l. part a s e = Some (a', r, l) \<and> split_ok a s e a' r l"
    and loop_empty: "loop a rng 0 = Some a"
    and loop_small: "pop rng tp = Some (x, tp') \<Longrightarrow> tp \<noteq> 0 \<Longrightarrow> snd_of x \<le> fst_of x \<Longrightarrow>
      loop a rng tp = loop a rng tp'"
    and loop_split: "pop rng tp = Some (x, tp') \<Longrightarrow> tp \<noteq> 0 \<Longrightarrow> fst_of x < snd_of x \<Longrightarrow>
      part a (fst_of x) (snd_of x) = Some (a', r, l) \<Longrightarrow>
      loop a rng tp = do {
        (rng, tp) \<leftarrow> (if fst_of x < r then push (mk (fst_of x) r) rng tp' else Some (rng, tp'));
        (rng, tp) \<leftarrow> (if l < snd_of x then push (mk l (snd_of x)) rng tp else Some (rng, tp));
        loop a' rng tp }"
begin

definition span_of :: "'r \<Rightarrow> span" where
  "span_of x = (fst_of x, snd_of x)"

lemma span_of_mk [simp]: "span_of (mk s e) = (s, e)"
  by (simp add: span_of_def fields)

lemma push_if:
  assumes "holds rng tp st" "c \<Longrightarrow> length st < length rng"
  shows "\<exists>rng' tp'. (if c then push x rng tp else Some (rng, tp)) = Some (rng', tp') \<and>
    holds rng' tp' ((if c then [x] else []) @ st) \<and> length rng' = length rng"
  using push_ok [OF assms(1), of x] assms by auto

lemma loop_step:
  assumes h: "holds rng tp (x # st)" and inv: "work_inv a (map span_of (x # st))" and b: "bounded a"
    and len: "length rng = length a" and lt: "fst_of x < snd_of x"
  shows "\<exists>a' rng' tp' st'. loop a rng tp = loop a' rng' tp' \<and> holds rng' tp' st' \<and>
    work_inv a' (map span_of st') \<and> length a' = length a \<and> mset a' = mset a \<and> length rng' = length rng \<and>
    weight (map span_of st') < weight (map span_of (x # st))"
proof -
  let ?s = "fst_of x" and ?e = "snd_of x"
  have pop: "pop rng tp = Some (x, tp - 1)" "holds rng (tp - 1) st" "tp \<noteq> 0"
    using pop_ok [OF h] h by (auto simp: holds_def)
  have inv': "work_inv a ((?s, ?e) # map span_of st)"
    using inv by (simp add: span_of_def)
  then obtain a' r l where p: "part a ?s ?e = Some (a', r, l)" "split_ok a ?s ?e a' r l"
    using part_ok [OF b _ lt] by (auto simp: work_inv_def)
  let ?st = "(if l < ?e then [mk l ?e] else []) @ (if ?s < r then [mk ?s r] else []) @ st"
  have map: "map span_of ?st = parts ?s ?e r l @ map span_of st"
    by (simp add: parts_def)
  have w: "work_inv a' (map span_of ?st)" "weight (map span_of ?st) < weight (map span_of (x # st))"
    using work_inv_split [OF inv' p(2)] weight_parts [OF p(2) lt] by (simp_all only: map) (simp add: span_of_def)
  have la: "length a' = length a" "mset a' = mset a"
    using p(2) by (auto simp: split_ok_def seg_perm_def)
  have cap: "length ?st \<le> length rng"
    using work_inv_length [OF w(1)] la len by simp
  obtain rng1 tp1 where 1: "(if ?s < r then push (mk ?s r) rng (tp - 1) else Some (rng, tp - 1)) = Some (rng1, tp1)"
    "holds rng1 tp1 ((if ?s < r then [mk ?s r] else []) @ st)" "length rng1 = length rng"
    using push_if [OF pop(2), of "?s < r" "mk ?s r"] cap by (auto split: if_splits)
  obtain rng2 tp2 where 2: "(if l < ?e then push (mk l ?e) rng1 tp1 else Some (rng1, tp1)) = Some (rng2, tp2)"
    "holds rng2 tp2 ?st" "length rng2 = length rng"
    using push_if [OF 1(2), of "l < ?e" "mk l ?e"] cap 1(3) by (auto split: if_splits)
  have "loop a rng tp = loop a' rng2 tp2"
    using loop_split [OF pop(1,3) lt p(1)] 1(1) 2(1) by simp
  with w la 2(2,3) show ?thesis by blast
qed

lemma loop_ok:
  assumes "holds rng tp st" "work_inv a (map span_of st)" "bounded a" "length rng = length a"
  shows "\<exists>a'. loop a rng tp = Some a' \<and> mset a' = mset a \<and> sorted a'"
  using assms
proof (induction "weight (map span_of st)" arbitrary: a rng tp st rule: less_induct)
  case less
  show ?case
  proof (cases st)
    case Nil
    then have "tp = 0" "sorted a"
      using less.prems work_inv_done by (auto simp: holds_def)
    then show ?thesis by (simp add: loop_empty)
  next
    case (Cons x xs)
    show ?thesis
    proof (cases "fst_of x < snd_of x")
      case True
      obtain a' rng' tp' st' where 1: "loop a rng tp = loop a' rng' tp'" "holds rng' tp' st'"
        "work_inv a' (map span_of st')" "length a' = length a" "mset a' = mset a" "length rng' = length rng"
        "weight (map span_of st') < weight (map span_of st)"
        using loop_step [of rng tp x xs a] less.prems True unfolding Cons by blast
      then show ?thesis
        using less.hyps [OF 1(7,2,3)] bounded_length [OF less.prems(3)] less.prems(4) by simp
    next
      case False
      have pop: "pop rng tp = Some (x, tp - 1)" "holds rng (tp - 1) xs" "tp \<noteq> 0"
        using pop_ok [of rng tp x xs] less.prems(1) Cons by (auto simp: holds_def)
      have "work_inv a (map span_of xs)"
        using work_inv_drop [of a "fst_of x" "snd_of x"] less.prems(2) False Cons by (simp add: span_of_def)
      moreover have "weight (map span_of xs) < weight (map span_of st)"
        using less.prems(2) Cons by (auto simp: weight_def span_of_def span_size_def work_inv_def)
      ultimately show ?thesis
        using less.hyps [OF _ pop(2)] less.prems(3,4) loop_small [OF pop(1,3)] False by simp
    qed
  qed
qed

lemma sorts:
  assumes "a \<noteq> []" "bounded a"
  shows "\<exists>rng tp. push (mk 0 (int (length a) - 1)) (replicate (length a) None) 0 = Some (rng, tp) \<and>
    (\<exists>a'. loop a rng tp = Some a' \<and> mset a' = mset a \<and> sorted a')"
proof -
  obtain rng where 1: "push (mk 0 (int (length a) - 1)) (replicate (length a) None) 0 = Some (rng, 1)"
    "holds rng 1 [mk 0 (int (length a) - 1)]" "length rng = length a"
    using push_ok [OF holds_empty, of "replicate (length a) None"] assms(1) by force
  then show ?thesis
    using loop_ok [OF 1(2)] work_inv_init [OF assms(1)] assms(2) by auto
qed

end

end
