(* ===== verification/Quick_Sort.thy ===== *)
theory Quick_Sort
  imports Range_Sort Simple_Sorts
begin

text \<open>
  The two iterative quicksorts, \<open>lc_quick_sort\<close> of \<open>quick_sort.c\<close> and \<open>quick_sort\<close> of \<open>test.c\<close>;
  both sort in ascending order. A pointer into the array is its index. The stack of ranges is a
  variable-length array of \<open>cnt\<close> elements: a length of zero or less is undefined, and so is a push
  beyond the end.
\<close>

section \<open>\<open>quick_sort.c\<close>\<close>

record range_t =
  r_start :: int
  r_end :: int

definition new_ranger_t :: "int \<Rightarrow> int \<Rightarrow> range_t" where
  "new_ranger_t s e = \<lparr>r_start = s, r_end = e\<rparr>"

definition swap_int :: "int \<Rightarrow> int \<Rightarrow> int list \<Rightarrow> int list option" where
  "swap_int x y a = do {
     tmp \<leftarrow> arr_get a x;
     v \<leftarrow> arr_get a y;
     a \<leftarrow> arr_set a x v;
     arr_set a y tmp }"

text \<open>\<open>while (a[left] < *key && left < right) left++;\<close>\<close>

partial_function (option) scan_left :: "int list \<Rightarrow> int \<Rightarrow> int \<Rightarrow> int \<Rightarrow> int option" where
  "scan_left a key left right = do {
     x \<leftarrow> arr_get a left;
     k \<leftarrow> arr_get a key;
     if x < k \<and> left < right then scan_left a key (left + 1) right else Some left }"

text \<open>\<open>while (a[right] >= *key && left < right) right--;\<close>\<close>

partial_function (option) scan_right :: "int list \<Rightarrow> int \<Rightarrow> int \<Rightarrow> int \<Rightarrow> int option" where
  "scan_right a key left right = do {
     x \<leftarrow> arr_get a right;
     k \<leftarrow> arr_get a key;
     if x \<ge> k \<and> left < right then scan_right a key left (right - 1) else Some right }"

partial_function (option) partition_loop :: "int list \<Rightarrow> int \<Rightarrow> int \<Rightarrow> int \<Rightarrow> (int list \<times> int) option" where
  "partition_loop a key left right =
     (if left < right then do {
        left \<leftarrow> scan_left a key left right;
        right \<leftarrow> scan_right a key left right;
        a \<leftarrow> (if left < right then swap_int left right a else Some a);
        partition_loop a key left right }
      else Some (a, left))"

text \<open>The body of the outer loop up to the final position of the pivot.\<close>

definition partition_range :: "int list \<Rightarrow> int \<Rightarrow> int \<Rightarrow> (int list \<times> int) option" where
  "partition_range a s e = do {
     let key = s;
     (a, left) \<leftarrow> partition_loop a key (s + 1) e;
     x \<leftarrow> arr_get a left;
     k \<leftarrow> arr_get a key;
     if x < k then do { a \<leftarrow> swap_int left key a; Some (a, left) }
     else do { a \<leftarrow> swap_int (left - 1) key a; Some (a, left - 1) } }"

partial_function (option) quick_loop :: "int list \<Rightarrow> range_t obj list \<Rightarrow> int \<Rightarrow> int list option" where
  "quick_loop a rng stack_top =
     (if stack_top \<noteq> 0 then do {
        (cur_r, stack_top) \<leftarrow> pop rng stack_top;
        if r_start cur_r \<ge> r_end cur_r then quick_loop a rng stack_top
        else do {
          (a, left) \<leftarrow> partition_range a (r_start cur_r) (r_end cur_r);
          (rng, stack_top) \<leftarrow>
            (if r_start cur_r < left - 1 then push (new_ranger_t (r_start cur_r) (left - 1)) rng stack_top
             else Some (rng, stack_top));
          (rng, stack_top) \<leftarrow>
            (if left + 1 < r_end cur_r then push (new_ranger_t (left + 1) (r_end cur_r)) rng stack_top
             else Some (rng, stack_top));
          quick_loop a rng stack_top } }
      else Some a)"

definition lc_quick_sort :: "int list \<Rightarrow> int \<Rightarrow> (int list \<times> int list) option" where
  "lc_quick_sort a cnt =
     (if cnt \<le> 0 then None
      else do {
        (rng, stack_top) \<leftarrow> push (new_ranger_t 0 (cnt - 1)) (replicate (nat cnt) None) 0;
        a \<leftarrow> quick_loop a rng stack_top;
        out \<leftarrow> print_from a 0 cnt;
        Some (a, out) })"

section \<open>\<open>test.c\<close>\<close>

record Range =
  R_start :: int
  R_end :: int

definition new_Range :: "int \<Rightarrow> int \<Rightarrow> Range" where
  "new_Range s e = \<lparr>R_start = s, R_end = e\<rparr>"

definition swap :: "int \<Rightarrow> int \<Rightarrow> int list \<Rightarrow> int list option" where
  "swap x y arr = do {
     t \<leftarrow> arr_get arr x;
     v \<leftarrow> arr_get arr y;
     arr \<leftarrow> arr_set arr x v;
     arr_set arr y t }"

text \<open>What it prints: \<open>save p=\<close>, a separator line, \<open>use p=\<close>.\<close>

datatype qs_out = Save_p int | Line | Use_p int

partial_function (option) up_to_mid :: "int list \<Rightarrow> int \<Rightarrow> int \<Rightarrow> int option" where
  "up_to_mid arr mid left = do {
     x \<leftarrow> arr_get arr left;
     if x < mid then up_to_mid arr mid (left + 1) else Some left }"

partial_function (option) down_to_mid :: "int list \<Rightarrow> int \<Rightarrow> int \<Rightarrow> int option" where
  "down_to_mid arr mid right = do {
     x \<leftarrow> arr_get arr right;
     if x > mid then down_to_mid arr mid (right - 1) else Some right }"

text \<open>The \<open>do ... while (left <= right)\<close> loop.\<close>

partial_function (option) hoare_loop :: "int list \<Rightarrow> int \<Rightarrow> int \<Rightarrow> int \<Rightarrow> (int list \<times> int \<times> int) option" where
  "hoare_loop arr mid left right = do {
     left \<leftarrow> up_to_mid arr mid left;
     right \<leftarrow> down_to_mid arr mid right;
     (arr, left, right) \<leftarrow>
       (if left \<le> right then do { arr \<leftarrow> swap left right arr; Some (arr, left + 1, right - 1) }
        else Some (arr, left, right));
     if left \<le> right then hoare_loop arr mid left right else Some (arr, right, left) }"

definition hoare_range :: "int list \<Rightarrow> int \<Rightarrow> int \<Rightarrow> (int list \<times> int \<times> int) option" where
  "hoare_range arr s e = do {
     sum \<leftarrow> c_int_add s e;
     mid \<leftarrow> arr_get arr (sum div 2);
     hoare_loop arr mid s e }"

partial_function (option) range_loop :: "int list \<Rightarrow> Range obj list \<Rightarrow> int \<Rightarrow> (int list \<times> qs_out list) option" where
  "range_loop arr r p =
     (if p \<noteq> 0 then do {
        (rng, p) \<leftarrow> pop r p;
        if R_start rng \<ge> R_end rng then do {
          (arr, out) \<leftarrow> range_loop arr r p;
          Some (arr, Line # Use_p p # out) }
        else do {
          (arr, right, left) \<leftarrow> hoare_range arr (R_start rng) (R_end rng);
          (r, p1) \<leftarrow> (if R_start rng < right then push (new_Range (R_start rng) right) r p else Some (r, p));
          (r, p2) \<leftarrow> (if R_end rng > left then push (new_Range left (R_end rng)) r p1 else Some (r, p1));
          (arr, out) \<leftarrow> range_loop arr r p2;
          Some (arr, [Line, Use_p p] @ (if R_start rng < right then [Save_p (p1 - 1)] else []) @
                     (if R_end rng > left then [Save_p (p2 - 1)] else []) @ out) } }
      else Some (arr, []))"

definition quick_sort :: "int list \<Rightarrow> int \<Rightarrow> (int list \<times> qs_out list) option" where
  "quick_sort arr len =
     (if len \<le> 0 then Some (arr, [])
      else do {
        (r, p) \<leftarrow> push (new_Range 0 (len - 1)) (replicate (nat len) None) 0;
        (arr, out) \<leftarrow> range_loop arr r p;
        Some (arr, Save_p (p - 1) # out) })"

section \<open>Partitioning around the first element\<close>

lemma swap_int_ok:
  assumes "0 \<le> x" "x < int (length a)" "0 \<le> y" "y < int (length a)"
  shows "swap_int x y a = Some (a[nat x := a ! nat y, nat y := a ! nat x])"
  using assms by (simp add: swap_int_def fault_simps)

lemma swap_eq: "swap = swap_int"
  by (intro ext) (simp add: swap_def swap_int_def)

lemma scan_left_ok:
  assumes "0 \<le> key" "key < left" "left \<le> right" "right < int (length a)"
  shows "\<exists>l. scan_left a key left right = Some l \<and> left \<le> l \<and> l \<le> right \<and>
    (\<forall>p. left \<le> p \<and> p < l \<longrightarrow> a ! nat p < a ! nat key) \<and> (l = right \<or> a ! nat key \<le> a ! nat l)"
  using assms
proof (induction "nat (right - left)" arbitrary: left)
  case 0
  then show ?case by (subst scan_left.simps) (auto simp: fault_simps)
next
  case (Suc n)
  show ?case
  proof (cases "a ! nat left < a ! nat key")
    case False
    then show ?thesis using Suc.prems by (subst scan_left.simps) (auto simp: fault_simps)
  next
    case True
    have n: "n = nat (right - (left + 1))" and lt: "left < right" using Suc.hyps(2) by auto
    obtain l where l: "scan_left a key (left + 1) right = Some l" "left + 1 \<le> l" "l \<le> right"
      "\<forall>p. left + 1 \<le> p \<and> p < l \<longrightarrow> a ! nat p < a ! nat key" "l = right \<or> a ! nat key \<le> a ! nat l"
      using Suc.hyps(1) [OF n] Suc.prems lt by auto
    have "\<forall>p. left \<le> p \<and> p < l \<longrightarrow> a ! nat p < a ! nat key"
      using l(4) True by (metis zless_imp_add1_zle order_le_less)
    then show ?thesis
      using l Suc.prems Suc.hyps(2) True by (subst scan_left.simps) (auto simp: fault_simps)
  qed
qed

lemma scan_right_ok:
  assumes "0 \<le> key" "key < left" "left \<le> right" "right < int (length a)"
  shows "\<exists>r. scan_right a key left right = Some r \<and> left \<le> r \<and> r \<le> right \<and>
    (\<forall>p. r < p \<and> p \<le> right \<longrightarrow> a ! nat key \<le> a ! nat p) \<and> (r = left \<or> a ! nat r < a ! nat key)"
  using assms
proof (induction "nat (right - left)" arbitrary: right)
  case 0
  then show ?case by (subst scan_right.simps) (auto simp: fault_simps)
next
  case (Suc n)
  show ?case
  proof (cases "a ! nat key \<le> a ! nat right")
    case False
    then show ?thesis using Suc.prems by (subst scan_right.simps) (auto simp: fault_simps)
  next
    case True
    have n: "n = nat (right - 1 - left)" and lt: "left < right" using Suc.hyps(2) by auto
    obtain r where r: "scan_right a key left (right - 1) = Some r" "left \<le> r" "r \<le> right - 1"
      "\<forall>p. r < p \<and> p \<le> right - 1 \<longrightarrow> a ! nat key \<le> a ! nat p" "r = left \<or> a ! nat r < a ! nat key"
      using Suc.hyps(1) [OF n] Suc.prems lt by auto
    have "\<forall>p. r < p \<and> p \<le> right \<longrightarrow> a ! nat key \<le> a ! nat p"
      using r(4) True by (metis zle_diff1_eq order_le_less)
    then show ?thesis
      using r Suc.prems Suc.hyps(2) True by (subst scan_right.simps) (auto simp: fault_simps)
  qed
qed

text \<open>Between \<open>key\<close> and \<open>left\<close> everything is smaller than the pivot, behind \<open>right\<close> nothing is.\<close>

definition part_inv :: "int list \<Rightarrow> int \<Rightarrow> int \<Rightarrow> int \<Rightarrow> int \<Rightarrow> bool" where
  "part_inv a s e left right \<longleftrightarrow> 0 \<le> s \<and> s < left \<and> left \<le> right \<and> right \<le> e \<and> e < int (length a) \<and>
     (\<forall>p. s < p \<and> p < left \<longrightarrow> a ! nat p < a ! nat s) \<and>
     (\<forall>p. right < p \<and> p \<le> e \<longrightarrow> a ! nat s \<le> a ! nat p)"

lemma partition_step:
  assumes inv: "part_inv a s e left right" and lt: "left < right"
  obtains a' l r where "partition_loop a s left right = partition_loop a' s l r" "part_inv a' s e l r"
    "seg_perm (s + 1) e a a'" "left \<le> l" "r \<le> right"
    "l = r \<or> (left < l \<or> r < right \<or> a ! nat s \<le> a ! nat left) \<and> a' ! nat l < a' ! nat s"
proof -
  have b: "0 \<le> s" "s < left" "left \<le> right" "right < int (length a)" "right \<le> e" "e < int (length a)"
    using inv by (auto simp: part_inv_def)
  obtain l where l: "scan_left a s left right = Some l" "left \<le> l" "l \<le> right"
    "\<forall>p. left \<le> p \<and> p < l \<longrightarrow> a ! nat p < a ! nat s" "l = right \<or> a ! nat s \<le> a ! nat l"
    using scan_left_ok [OF b(1-4)] by blast
  have "s < l" using b l by simp
  then obtain r where r: "scan_right a s l right = Some r" "l \<le> r" "r \<le> right"
    "\<forall>p. r < p \<and> p \<le> right \<longrightarrow> a ! nat s \<le> a ! nat p" "r = l \<or> a ! nat r < a ! nat s"
    using scan_right_ok [OF b(1) _ l(3) b(4)] by blast
  have low: "\<forall>p. s < p \<and> p < l \<longrightarrow> a ! nat p < a ! nat s"
    using inv l(4) unfolding part_inv_def by (metis linorder_not_less)
  have high: "\<forall>p. r < p \<and> p \<le> e \<longrightarrow> a ! nat s \<le> a ! nat p"
    using inv r(4) unfolding part_inv_def by (metis linorder_not_less)
  show thesis
  proof (cases "l < r")
    case False
    then have "l = r" using r(2) by simp
    moreover have "partition_loop a s left right = partition_loop a s l r"
      using lt l(1) r(1) False by (subst partition_loop.simps) simp
    ultimately show thesis
      using that [of a l r] low high b l(2) r(3) \<open>s < l\<close> by (auto simp: part_inv_def)
  next
    case True
    let ?a = "a[nat l := a ! nat r, nat r := a ! nat l]"
    have nth: "?a ! nat p = (if p = r then a ! nat l else if p = l then a ! nat r else a ! nat p)"
      if "0 \<le> p" "p < int (length a)" for p
      using that True b l r \<open>s < l\<close> by (auto simp: nth_list_update nat_eq_iff)
    have *: "a ! nat s \<le> a ! nat l" "a ! nat r < a ! nat s"
      using l(5) r(3,5) True by auto
    have "partition_loop a s left right = partition_loop ?a s l r"
      using lt l(1) r(1) True b r(3) \<open>s < l\<close> by (subst partition_loop.simps) (simp add: swap_int_ok)
    moreover have "part_inv ?a s e l r"
      unfolding part_inv_def
      using low high b l(2) r(3) \<open>s < l\<close> True * by (auto simp: nth)
    moreover have "seg_perm (s + 1) e a ?a"
      using b l r \<open>s < l\<close> by (intro seg_perm_swap) auto
    moreover have "left < l \<or> r < right \<or> a ! nat s \<le> a ! nat left"
      using * l(2) by (metis order_le_less)
    moreover have "?a ! nat l < ?a ! nat s"
      using * nth [of l] nth [of s] True b l r \<open>s < l\<close> by auto
    ultimately show thesis using that l(2) r(3) by blast
  qed
qed

lemma partition_loop_ok:
  assumes "part_inv a s e left right"
  shows "\<exists>a' l. partition_loop a s left right = Some (a', l) \<and> part_inv a' s e l l \<and> seg_perm (s + 1) e a a'"
  using assms
proof (induction "2 * nat (right - left) + (if a ! nat s \<le> a ! nat left then 1 else 0)"
    arbitrary: a left right rule: less_induct)
  case less
  show ?case
  proof (cases "left < right")
    case False
    moreover have "left \<le> right" using less.prems by (simp add: part_inv_def)
    ultimately show ?thesis using less.prems by (subst partition_loop.simps) auto
  next
    case True
    obtain a1 l r where 1: "partition_loop a s left right = partition_loop a1 s l r" "part_inv a1 s e l r"
      "seg_perm (s + 1) e a a1" "left \<le> l" "r \<le> right"
      "l = r \<or> (left < l \<or> r < right \<or> a ! nat s \<le> a ! nat left) \<and> a1 ! nat l < a1 ! nat s"
      using partition_step [OF less.prems True] by blast
    have "2 * nat (r - l) + (if a1 ! nat s \<le> a1 ! nat l then 1 else 0)
        < 2 * nat (right - left) + (if a ! nat s \<le> a ! nat left then 1 else (0 :: nat))"
      using 1(2,4-6) True by (auto simp: part_inv_def)
    from less.hyps [OF this 1(2)] show ?thesis
      using 1(1,3) seg_perm_trans by metis
  qed
qed

lemma seg_perm_widen: "seg_perm (s + 1) e a a' \<Longrightarrow> 0 \<le> s \<Longrightarrow> s < int (length a) \<Longrightarrow> seg_perm s e a a'"
  unfolding seg_perm_def
  by (metis add1_zle_eq dual_order.trans less_imp_le linorder_not_less order_less_le zle_add1_eq_le)

lemma split_at_pivot:
  assumes "seg_perm s e a b" "s < e" "s \<le> p" "p \<le> e"
    "\<forall>i. s \<le> i \<and> i < p \<longrightarrow> b ! nat i \<le> b ! nat p" "\<forall>j. p < j \<and> j \<le> e \<longrightarrow> b ! nat p \<le> b ! nat j"
  shows "split_ok a s e b (p - 1) (p + 1)"
proof -
  have "b ! nat i \<le> b ! nat j" if "s \<le> i" "i < j" "j \<le> e" "p \<le> j" "i \<le> p" for i j
  proof -
    have "b ! nat i \<le> b ! nat p" "b ! nat p \<le> b ! nat j"
      using assms that by (metis order_le_less order_refl)+
    then show ?thesis by simp
  qed
  then show ?thesis using assms by (auto simp: split_ok_def)
qed

lemma partition_range_ok:
  assumes "0 \<le> s" "s < e" "e < int (length a)"
  shows "\<exists>b p. partition_range a s e = Some (b, p) \<and> split_ok a s e b (p - 1) (p + 1)"
proof -
  have "part_inv a s e (s + 1) e" using assms by (auto simp: part_inv_def)
  then obtain a' l where 1: "partition_loop a s (s + 1) e = Some (a', l)" "part_inv a' s e l l"
    "seg_perm (s + 1) e a a'"
    using partition_loop_ok by blast
  then have len: "length a' = length a" and perm: "seg_perm s e a a'"
    using assms seg_perm_widen by (auto simp: seg_perm_length)
  have l: "s < l" "l \<le> e" "\<forall>p. s < p \<and> p < l \<longrightarrow> a' ! nat p < a' ! nat s"
    "\<forall>p. l < p \<and> p \<le> e \<longrightarrow> a' ! nat s \<le> a' ! nat p"
    using 1(2) by (auto simp: part_inv_def)
  define p where "p = (if a' ! nat l < a' ! nat s then l else l - 1)"
  let ?b = "a'[nat p := a' ! nat s, nat s := a' ! nat p]"
  have p: "s \<le> p" "p \<le> e" using l by (auto simp: p_def)
  have ev: "partition_range a s e = Some (?b, p)"
    using 1(1) assms l len by (simp add: partition_range_def p_def fault_simps swap_int_ok)
  have nth: "?b ! nat i = (if i = s then a' ! nat p else if i = p then a' ! nat s else a' ! nat i)"
    if "0 \<le> i" "i < int (length a)" for i
    using that assms p len by (auto simp: nth_list_update nat_eq_iff)
  have bp: "?b ! nat p = a' ! nat s" using nth [of p] p assms by auto
  have low: "a' ! nat i < a' ! nat s" if "s < i" "i \<le> p" for i
    using l(3) that by (cases "i = l") (auto simp: p_def split: if_splits)
  have high: "a' ! nat s \<le> a' ! nat j" if "p < j" "j \<le> e" for j
    using l(4) that by (auto simp: p_def split: if_splits) (metis order_le_less zle_diff1_eq linorder_not_less)
  have "split_ok a s e ?b (p - 1) (p + 1)"
  proof (rule split_at_pivot [OF seg_perm_trans [OF perm] assms(2) p])
    show "seg_perm s e a' ?b" using assms p len by (intro seg_perm_swap) auto
    show "\<forall>i. s \<le> i \<and> i < p \<longrightarrow> ?b ! nat i \<le> ?b ! nat p"
      using low nth p assms unfolding bp by (auto intro!: less_imp_le)
    show "\<forall>j. p < j \<and> j \<le> e \<longrightarrow> ?b ! nat p \<le> ?b ! nat j"
      using high nth p assms unfolding bp by auto
  qed
  with ev show ?thesis by blast
qed

interpretation lcq: range_sort new_ranger_t r_start r_end
  "\<lambda>a s e. map_option (\<lambda>(a, left). (a, left - 1, left + 1)) (partition_range a s e)"
  quick_loop "\<lambda>_. True"
proof
  show "\<exists>a' r l. map_option (\<lambda>(a, left). (a, left - 1, left + 1)) (partition_range a s e) = Some (a', r, l) \<and>
      split_ok a s e a' r l" if "0 \<le> s" "s < e" "e < int (length a)" for a s e
    using partition_range_ok [OF that] by auto
next
  fix rng tp and x :: range_t and tp' a a' r l
  assume *: "pop rng tp = Some (x, tp')" "tp \<noteq> 0" "r_start x < r_end x"
    "map_option (\<lambda>(a, left). (a, left - 1, left + 1)) (partition_range a (r_start x) (r_end x)) = Some (a', r, l)"
  then obtain p where "partition_range a (r_start x) (r_end x) = Some (a', p)" "r = p - 1" "l = p + 1"
    by auto
  with * show "quick_loop a rng tp = do {
        (rng, tp) \<leftarrow> (if r_start x < r then push (new_ranger_t (r_start x) r) rng tp' else Some (rng, tp'));
        (rng, tp) \<leftarrow> (if l < r_end x then push (new_ranger_t l (r_end x)) rng tp else Some (rng, tp));
        quick_loop a' rng tp }"
    by (subst quick_loop.simps) simp
qed (simp_all add: new_ranger_t_def quick_loop.simps)

lemma lc_quick_sort_ok:
  assumes "a \<noteq> []"
  shows "\<exists>a'. lc_quick_sort a (int (length a)) = Some (a', a') \<and> mset a' = mset a \<and> sorted a'"
proof -
  obtain rng tp a' where "push (new_ranger_t 0 (int (length a) - 1)) (replicate (length a) None) 0 = Some (rng, tp)"
    "quick_loop a rng tp = Some a'" "mset a' = mset a" "sorted a'"
    using lcq.sorts [OF assms] by auto
  moreover from this have "length a' = length a" by (metis size_mset)
  ultimately show ?thesis
    using assms print_all [of a'] by (simp add: lc_quick_sort_def)
qed

section \<open>Partitioning around the middle element\<close>

lemma up_to_mid_ok:
  assumes "0 \<le> left" "left \<le> q" "q < int (length a)" "mid \<le> a ! nat q"
  shows "\<exists>l. up_to_mid a mid left = Some l \<and> left \<le> l \<and> l \<le> q \<and> mid \<le> a ! nat l \<and>
    (\<forall>p. left \<le> p \<and> p < l \<longrightarrow> a ! nat p < mid)"
  using assms
proof (induction "nat (q - left)" arbitrary: left)
  case 0
  then show ?case by (subst up_to_mid.simps) (auto simp: fault_simps)
next
  case (Suc n)
  show ?case
  proof (cases "a ! nat left < mid")
    case False
    then show ?thesis using Suc.prems by (subst up_to_mid.simps) (auto simp: fault_simps)
  next
    case True
    have n: "n = nat (q - (left + 1))" and lt: "left < q" using Suc.hyps(2) by auto
    obtain l where l: "up_to_mid a mid (left + 1) = Some l" "left + 1 \<le> l" "l \<le> q" "mid \<le> a ! nat l"
      "\<forall>p. left + 1 \<le> p \<and> p < l \<longrightarrow> a ! nat p < mid"
      using Suc.hyps(1) [OF n] Suc.prems lt by auto
    have "\<forall>p. left \<le> p \<and> p < l \<longrightarrow> a ! nat p < mid"
      using l(5) True by (metis zless_imp_add1_zle order_le_less)
    then show ?thesis
      using l Suc.prems lt True by (subst up_to_mid.simps) (auto simp: fault_simps)
  qed
qed

lemma down_to_mid_ok:
  assumes "0 \<le> q" "q \<le> right" "right < int (length a)" "a ! nat q \<le> mid"
  shows "\<exists>r. down_to_mid a mid right = Some r \<and> q \<le> r \<and> r \<le> right \<and> a ! nat r \<le> mid \<and>
    (\<forall>p. r < p \<and> p \<le> right \<longrightarrow> mid < a ! nat p)"
  using assms
proof (induction "nat (right - q)" arbitrary: right)
  case 0
  then show ?case by (subst down_to_mid.simps) (auto simp: fault_simps)
next
  case (Suc n)
  show ?case
  proof (cases "mid < a ! nat right")
    case False
    then show ?thesis using Suc.prems by (subst down_to_mid.simps) (auto simp: fault_simps)
  next
    case True
    have n: "n = nat (right - 1 - q)" and lt: "q < right" using Suc.hyps(2) by auto
    obtain r where r: "down_to_mid a mid (right - 1) = Some r" "q \<le> r" "r \<le> right - 1" "a ! nat r \<le> mid"
      "\<forall>p. r < p \<and> p \<le> right - 1 \<longrightarrow> mid < a ! nat p"
      using Suc.hyps(1) [OF n] Suc.prems lt by auto
    have "\<forall>p. r < p \<and> p \<le> right \<longrightarrow> mid < a ! nat p"
      using r(5) True by (metis zle_diff1_eq order_le_less)
    then show ?thesis
      using r Suc.prems lt True by (subst down_to_mid.simps) (auto simp: fault_simps)
  qed
qed

text \<open>
  Both scans stop inside the segment, because each finds an element it stops at (\<open>u\<close> and \<open>v\<close>); these
  are the pivot itself in the first round and the elements swapped last afterwards.
\<close>

definition hoare_inv :: "int list \<Rightarrow> int \<Rightarrow> int \<Rightarrow> int \<Rightarrow> int \<Rightarrow> int \<Rightarrow> bool" where
  "hoare_inv a s e mid left right \<longleftrightarrow> 0 \<le> s \<and> s \<le> left \<and> left \<le> right \<and> right \<le> e \<and> e < int (length a) \<and>
     (\<forall>p. s \<le> p \<and> p < left \<longrightarrow> a ! nat p \<le> mid) \<and> (\<forall>p. right < p \<and> p \<le> e \<longrightarrow> mid \<le> a ! nat p) \<and>
     (\<exists>u. left \<le> u \<and> u \<le> e \<and> mid \<le> a ! nat u) \<and> (\<exists>v. s \<le> v \<and> v \<le> right \<and> a ! nat v \<le> mid) \<and>
     (s < left \<and> right < e \<or> (\<exists>m. left \<le> m \<and> m \<le> right \<and> a ! nat m = mid))"

definition hoare_post :: "int list \<Rightarrow> int \<Rightarrow> int \<Rightarrow> int \<Rightarrow> int \<Rightarrow> int \<Rightarrow> bool" where
  "hoare_post a s e mid left right \<longleftrightarrow> s < left \<and> left \<le> e + 1 \<and> s - 1 \<le> right \<and> right < e \<and> right < left \<and>
     (\<forall>p. s \<le> p \<and> p < left \<longrightarrow> a ! nat p \<le> mid) \<and> (\<forall>p. right < p \<and> p \<le> e \<longrightarrow> mid \<le> a ! nat p)"

lemma hoare_step:
  assumes inv: "hoare_inv a s e mid left right"
  shows "(\<exists>l r. hoare_loop a mid left right = Some (a, r, l) \<and> hoare_post a s e mid l r) \<or>
    (\<exists>a' l r. seg_perm s e a a' \<and> left < l \<and> r < right \<and>
       hoare_loop a mid left right = (if l \<le> r then hoare_loop a' mid l r else Some (a', r, l)) \<and>
       (if l \<le> r then hoare_inv a' s e mid l r else hoare_post a' s e mid l r))"
proof -
  have b: "0 \<le> s" "s \<le> left" "left \<le> right" "right \<le> e" "e < int (length a)"
    and lows: "\<forall>p. s \<le> p \<and> p < left \<longrightarrow> a ! nat p \<le> mid" and highs: "\<forall>p. right < p \<and> p \<le> e \<longrightarrow> mid \<le> a ! nat p"
    using inv by (auto simp: hoare_inv_def)
  obtain u v where u: "left \<le> u" "u \<le> e" "mid \<le> a ! nat u" and v: "s \<le> v" "v \<le> right" "a ! nat v \<le> mid"
    using inv unfolding hoare_inv_def by blast
  obtain l where l: "up_to_mid a mid left = Some l" "left \<le> l" "l \<le> u" "mid \<le> a ! nat l"
    "\<forall>p. left \<le> p \<and> p < l \<longrightarrow> a ! nat p < mid"
    using up_to_mid_ok [of left u a mid] u b by auto
  obtain r where r: "down_to_mid a mid right = Some r" "v \<le> r" "r \<le> right" "a ! nat r \<le> mid"
    "\<forall>p. r < p \<and> p \<le> right \<longrightarrow> mid < a ! nat p"
    using down_to_mid_ok [of v right a mid] v b by auto
  have low: "\<forall>p. s \<le> p \<and> p < l \<longrightarrow> a ! nat p \<le> mid"
    using lows l(5) by (metis less_imp_le linorder_not_less)
  have high: "\<forall>p. r < p \<and> p \<le> e \<longrightarrow> mid \<le> a ! nat p"
    using highs r(5) by (metis less_imp_le linorder_not_less)
  show ?thesis
  proof (cases "l \<le> r")
    case False
    have "l \<le> m \<and> m \<le> r" if "left \<le> m" "m \<le> right" "a ! nat m = mid" for m
      using l(5) r(5) that by (metis linorder_not_less order_less_irrefl)
    then have "\<nexists>m. left \<le> m \<and> m \<le> right \<and> a ! nat m = mid"
      using False order_trans by blast
    then have "s < left \<and> right < e"
      using inv unfolding hoare_inv_def by blast
    then have "hoare_post a s e mid l r"
      using low high l(2,3) r(2,3) u v False by (auto simp: hoare_post_def)
    moreover have "hoare_loop a mid left right = Some (a, r, l)"
      using l(1) r(1) False by (subst hoare_loop.simps) simp
    ultimately show ?thesis by blast
  next
    case True
    let ?a = "a[nat l := a ! nat r, nat r := a ! nat l]"
    have lr: "0 \<le> l" "r < int (length a)" "s \<le> l" "r \<le> e" using b l r u v by auto
    have nth: "?a ! nat p = (if p = r then a ! nat l else if p = l then a ! nat r else a ! nat p)"
      if "0 \<le> p" "p < int (length a)" for p
      using that True lr by (auto simp: nth_list_update nat_eq_iff)
    have low': "\<forall>p. s \<le> p \<and> p < l + 1 \<longrightarrow> ?a ! nat p \<le> mid"
      using low nth b lr True r(4) by auto
    have high': "\<forall>p. r - 1 < p \<and> p \<le> e \<longrightarrow> mid \<le> ?a ! nat p"
      using high nth b lr True l(4) by auto
    have ev: "hoare_loop a mid left right =
        (if l + 1 \<le> r - 1 then hoare_loop ?a mid (l + 1) (r - 1) else Some (?a, r - 1, l + 1))"
      using l(1) r(1) True lr by (subst hoare_loop.simps) (simp add: swap_eq swap_int_ok)
    have "hoare_inv ?a s e mid (l + 1) (r - 1)" if "l + 1 \<le> r - 1"
    proof -
      have "mid \<le> ?a ! nat r" "?a ! nat l \<le> mid" using high' [rule_format, of r] low' [rule_format, of l] lr by simp_all
      then have "\<exists>u. l + 1 \<le> u \<and> u \<le> e \<and> mid \<le> ?a ! nat u" "\<exists>v. s \<le> v \<and> v \<le> r - 1 \<and> ?a ! nat v \<le> mid"
        using lr that by (intro exI [of _ r], simp, intro exI [of _ l], simp)
      then show ?thesis
        unfolding hoare_inv_def using low' high' lr b that by (intro conjI disjI1) (assumption | simp)+
    qed
    moreover have "hoare_post ?a s e mid (l + 1) (r - 1)" if "\<not> l + 1 \<le> r - 1"
      unfolding hoare_post_def using low' high' lr b that True by auto
    moreover have "seg_perm s e a ?a"
      using b lr True by (intro seg_perm_swap) auto
    ultimately show ?thesis
      using ev l(2) r(3) by (intro disjI2 exI [of _ ?a] exI [of _ "l + 1"] exI [of _ "r - 1"]) auto
  qed
qed

lemma hoare_loop_ok:
  assumes "hoare_inv a s e mid left right"
  shows "\<exists>a' l r. hoare_loop a mid left right = Some (a', r, l) \<and> seg_perm s e a a' \<and> hoare_post a' s e mid l r"
  using assms
proof (induction "nat (right - left)" arbitrary: a left right rule: less_induct)
  case less
  consider (stop) l r where "hoare_loop a mid left right = Some (a, r, l)" "hoare_post a s e mid l r"
    | (swap) a' l r where "seg_perm s e a a'" "left < l" "r < right"
      "hoare_loop a mid left right = (if l \<le> r then hoare_loop a' mid l r else Some (a', r, l))"
      "if l \<le> r then hoare_inv a' s e mid l r else hoare_post a' s e mid l r"
    using hoare_step [OF less.prems] by blast
  then show ?case
  proof cases
    case stop
    then show ?thesis by auto
  next
    case swap
    show ?thesis
    proof (cases "l \<le> r")
      case True
      then have "nat (r - l) < nat (right - left)" using swap(2,3) by auto
      from less.hyps [OF this, of a'] True swap show ?thesis
        using seg_perm_trans by (smt (verit, best))
    next
      case False
      with swap show ?thesis by auto
    qed
  qed
qed

lemma hoare_range_ok:
  assumes "2 * int (length a) \<le> INT_MAX" "0 \<le> s" "s < e" "e < int (length a)"
  shows "\<exists>a' r l. hoare_range a s e = Some (a', r, l) \<and> split_ok a s e a' r l"
proof -
  let ?m = "(s + e) div 2"
  have m: "s \<le> ?m" "?m \<le> e" using assms by auto
  have "hoare_inv a s e (a ! nat ?m) s e"
    unfolding hoare_inv_def using assms m by auto
  then obtain a' r l where *: "hoare_loop a (a ! nat ?m) s e = Some (a', r, l)" "seg_perm s e a a'"
    "hoare_post a' s e (a ! nat ?m) l r"
    using hoare_loop_ok by blast
  have "hoare_range a s e = Some (a', r, l)"
    using assms m *(1) by (simp add: hoare_range_def fault_simps INT_MIN_def)
  moreover have "split_ok a s e a' r l"
    using *(2,3) by (auto simp: split_ok_def hoare_post_def intro: order.trans)
  ultimately show ?thesis by blast
qed

definition range_loop_arr :: "int list \<Rightarrow> Range obj list \<Rightarrow> int \<Rightarrow> int list option" where
  "range_loop_arr arr r p = map_option fst (range_loop arr r p)"

lemma map_fst_bind:
  "map_option fst (do { (x, o') \<leftarrow> m; Some (x, f o') }) = map_option fst m"
  by (cases m) auto

lemma bind_Some_map: "m \<bind> (\<lambda>x. Some (f x)) = map_option f m"
  by (cases m) auto

lemma map_option_bind: "map_option f (m \<bind> g) = m \<bind> (\<lambda>x. map_option f (g x))"
  by (cases m) auto

interpretation hoareq: range_sort new_Range R_start R_end hoare_range range_loop_arr
  "\<lambda>a. 2 * int (length a) \<le> INT_MAX"
proof
  show "\<exists>a' r l. hoare_range a s e = Some (a', r, l) \<and> split_ok a s e a' r l"
    if "2 * int (length a) \<le> INT_MAX" "0 \<le> s" "s < e" "e < int (length a)" for a s e
    using hoare_range_ok [OF that] .
next
  fix rng tp and x :: Range and tp' a
  assume "pop rng tp = Some (x, tp')" "tp \<noteq> 0" "R_end x \<le> R_start x"
  then show "range_loop_arr a rng tp = range_loop_arr a rng tp'"
    unfolding range_loop_arr_def by (subst range_loop.simps) (simp add: map_fst_bind)
next
  fix rng tp and x :: Range and tp' a a' r l
  assume "pop rng tp = Some (x, tp')" "tp \<noteq> 0" "R_start x < R_end x"
    "hoare_range a (R_start x) (R_end x) = Some (a', r, l)"
  then show "range_loop_arr a rng tp = do {
        (rng, tp) \<leftarrow> (if R_start x < r then push (new_Range (R_start x) r) rng tp' else Some (rng, tp'));
        (rng, tp) \<leftarrow> (if l < R_end x then push (new_Range l (R_end x)) rng tp else Some (rng, tp));
        range_loop_arr a' rng tp }"
    unfolding range_loop_arr_def
    by (subst range_loop.simps) (simp add: map_option_bind case_prod_unfold bind_Some_map option.map_comp comp_def)
qed (simp_all add: new_Range_def range_loop_arr_def range_loop.simps)

lemma quick_sort_ok:
  assumes "2 * int (length a) \<le> INT_MAX"
  shows "\<exists>a' out. quick_sort a (int (length a)) = Some (a', out) \<and> mset a' = mset a \<and> sorted a'"
proof (cases "a = []")
  case True
  then show ?thesis by (simp add: quick_sort_def)
next
  case False
  then obtain rng tp a' where "push (new_Range 0 (int (length a) - 1)) (replicate (length a) None) 0 = Some (rng, tp)"
    "range_loop_arr a rng tp = Some a'" "mset a' = mset a" "sorted a'"
    using hoareq.sorts [OF False assms] by auto
  with False show ?thesis
    by (auto simp: quick_sort_def range_loop_arr_def)
qed

section \<open>Properties\<close>

text \<open>
  C30. The quick sort with an explicit stack of ranges sorts every non-empty array in ascending order:
  it returns, the stack of as many entries as there are elements never overflows, no access is out of
  bounds, and the result is a sorted permutation, which it prints.
\<close>

theorem lc_quick_sort_correct:
  assumes "a \<noteq> []"
  shows "\<exists>a'. lc_quick_sort a (int (length a)) = Some (a', a') \<and> mset a' = mset a \<and> sorted a'"
  using assms by (rule lc_quick_sort_ok)

theorem lc_quick_sort_correct_witness:
  "\<exists>a'. lc_quick_sort [3, 1, 2, 1] 4 = Some (a', a') \<and> mset a' = {#1, 1, 2, 3#} \<and> sorted a'"
  using lc_quick_sort_correct [of "[3, 1, 2, 1]"] by (auto simp: add.commute add_mset_commute)

text \<open>
  The second quick sort (\<open>test.c\<close>), which partitions around the value in the middle of the range,
  sorts every array, the empty one included, as long as \<open>start + end\<close> cannot overflow.
\<close>

theorem hoare_quick_sort_correct:
  assumes "2 * int (length a) \<le> INT_MAX"
  shows "\<exists>a' out. quick_sort a (int (length a)) = Some (a', out) \<and> mset a' = mset a \<and> sorted a'"
  using assms by (rule quick_sort_ok)

theorem hoare_quick_sort_correct_witness:
  "\<exists>a' out. quick_sort [3, 1, 2, 1] 4 = Some (a', out) \<and> mset a' = {#1, 1, 2, 3#} \<and> sorted a'"
  using hoare_quick_sort_correct [of "[3, 1, 2, 1]"] by (auto simp: INT_MAX_def add.commute add_mset_commute)

end
