(* ===== verification/Sort_Mains.thy ===== *)
theory Sort_Mains
  imports Simple_Sorts Quick_Sort
begin

text \<open>
  The six sorting programs (\<open>main\<close> of each file of \<open>sort_algo\<close>): each sorts a fixed array. Two of them pass the size of
  the array in bytes, the others its number of elements, as the functions they call expect it.
\<close>

definition insert_sort_main :: "(int list \<times> int list) option" where
  "insert_sort_main = (let a = [11, 22, 332, 1, 2, 3, 7, 8, 9, 4, 5, 6, 0] in lc_insert_sort a (int (4 * length a div 4)))"

definition shell_sort_main :: "(int list \<times> int list) option" where
  "shell_sort_main = (let a = [11, 22, 332, 1, 2, 3, 7, 8, 9, 4, 5, 6, 0] in lc_shell_sort a (int (4 * length a div 4)))"

definition selection_sort_main :: "(int list \<times> int list) option" where
  "selection_sort_main = (let a = [11, 22, 332, 1, 2, 3, 4, 5, 6, 7, 8, 9, 0] in lc_selection_sort a (4 * length a))"

definition bubble_sort_main :: "(int list \<times> int list) option" where
  "bubble_sort_main = (let a = [11, 22, 332, 1, 2, 3, 4, 5, 6, 7, 8, 9, 0] in lc_bubble_sort a (4 * length a))"

definition quick_sort_main :: "(int list \<times> int list) option" where
  "quick_sort_main =
     (let a = [11, 22, 332, 1, 7, 3, 2, 8, 9, 4, 5, 6, 0, 55, 66, 999, 343, 546, 222]
      in lc_quick_sort a (int (4 * length a div 4)))"

definition test_main :: "(int list \<times> qs_out list) option" where
  "test_main = (let a = [11, 22, 332, 1, 2, 3, 7, 8, 9, 4, 5, 6, 0] in quick_sort a (int (4 * length a div 4)))"

section \<open>Sorted arrays with the same elements are equal\<close>

lemma ascending_unique: "mset a' = mset a \<Longrightarrow> sorted a' \<Longrightarrow> a' = sort (a :: int list)"
  by (rule properties_for_sort [symmetric])

section \<open>What the programs print\<close>

lemma bind_lazy_cong: "x = y \<Longrightarrow> Option.bind x f = Option.bind y f"
  by simp

text \<open>
  The bubble sort, run step by step: on its own array it leaves the first two elements in order, so the missing
  round does not show.
\<close>

lemma bubble_sort_main_prints:
  "bubble_sort_main = Some ([332, 22, 11, 9, 8, 7, 6, 5, 4, 3, 2, 1, 0], [332, 22, 11, 9, 8, 7, 6, 5, 4, 3, 2, 1, 0])"
  by (simp add: bubble_sort_main_def lc_bubble_sort_def bubble_loop.simps bubble_pass.simps print_from.simps arr_get_def
      arr_set_def int_of_size_def cong: bind_lazy_cong)

lemma descending_mains_print:
  assumes "d = [332, 22, 11, 9, 8, 7, 6, 5, 4, 3, 2, 1, 0]"
  shows "insert_sort_main = Some (d, d)" "shell_sort_main = Some (d, d)" "selection_sort_main = Some (d, d)"
proof -
  let ?a = "[11, 22, 332, 1, 2, 3, 7, 8, 9, 4, 5, 6, 0] :: int list" and ?b = "[11, 22, 332, 1, 2, 3, 4, 5, 6, 7, 8, 9, 0] :: int list"
  have r: "rev (sort ?a) = d" "rev (sort ?b) = d" using assms by simp_all
  have "lc_insert_sort ?a (int (length ?a)) = Some (d, d)" "lc_shell_sort ?a (int (length ?a)) = Some (d, d)"
    using lc_insert_sort_ok [of ?a] lc_shell_sort_ok [of ?a] unfolding r(1) [symmetric] by (blast dest!: descending_unique)+
  moreover have "lc_selection_sort ?b (4 * length ?b) = Some (d, d)"
    using lc_selection_sort_ok [of ?b] unfolding r(2) [symmetric] by (fastforce simp: INT_MAX_def dest!: descending_unique)
  ultimately show "insert_sort_main = Some (d, d)" "shell_sort_main = Some (d, d)" "selection_sort_main = Some (d, d)"
    by (simp_all add: insert_sort_main_def shell_sort_main_def selection_sort_main_def)
qed

lemma ascending_mains_print:
  "quick_sort_main = Some ([0, 1, 2, 3, 4, 5, 6, 7, 8, 9, 11, 22, 55, 66, 222, 332, 343, 546, 999],
     [0, 1, 2, 3, 4, 5, 6, 7, 8, 9, 11, 22, 55, 66, 222, 332, 343, 546, 999])"
  "map_option fst test_main = Some [0, 1, 2, 3, 4, 5, 6, 7, 8, 9, 11, 22, 332]"
proof -
  let ?a = "[11, 22, 332, 1, 7, 3, 2, 8, 9, 4, 5, 6, 0, 55, 66, 999, 343, 546, 222] :: int list"
  let ?b = "[11, 22, 332, 1, 2, 3, 7, 8, 9, 4, 5, 6, 0] :: int list"
  have "lc_quick_sort ?a (int (length ?a)) = Some (sort ?a, sort ?a)"
    using lc_quick_sort_ok [of ?a] by (blast dest!: ascending_unique)
  moreover have "map_option fst (quick_sort ?b (int (length ?b))) = Some (sort ?b)"
    using quick_sort_ok [of ?b] by (fastforce simp: INT_MAX_def dest!: ascending_unique)
  ultimately show "quick_sort_main = Some ([0, 1, 2, 3, 4, 5, 6, 7, 8, 9, 11, 22, 55, 66, 222, 332, 343, 546, 999],
     [0, 1, 2, 3, 4, 5, 6, 7, 8, 9, 11, 22, 55, 66, 222, 332, 343, 546, 999])"
    "map_option fst test_main = Some [0, 1, 2, 3, 4, 5, 6, 7, 8, 9, 11, 22, 332]"
    by (simp_all add: quick_sort_main_def test_main_def)
qed

end
