(* ===== verification/C_Memory.thy ===== *)
theory C_Memory
  imports Prelude
begin

text \<open>
  The memory that the intrusive lists live in: the blocks that \<open>malloc\<close> handed out and that
  have not been freed, and the fields of the objects in them. A block is named by the address
  of the \<open>struct list_head\<close> it holds; \<open>container_of\<close> is then the identity on names, and the
  enclosing structure's own fields are its payload.

  A field of a live block that has never been written is indeterminate (\<open>None\<close>): reading a
  link before it is written is a fault. Payloads are copied as a whole by structure
  assignment, so a copy of an indeterminate payload is indeterminate and no fault.
\<close>

record 'a mem =
  live :: "addr set"
  nextf :: "addr \<rightharpoonup> addr"
  prevf :: "addr \<rightharpoonup> addr"
  dataf :: "addr \<rightharpoonup> 'a"

definition empty_mem :: "'a mem" where
  "empty_mem = \<lparr>live = {}, nextf = Map.empty, prevf = Map.empty, dataf = Map.empty\<rparr>"

definition rd_next :: "'a mem \<Rightarrow> addr \<Rightarrow> addr option" where
  "rd_next m p = (if p \<in> live m then nextf m p else None)"

definition rd_prev :: "'a mem \<Rightarrow> addr \<Rightarrow> addr option" where
  "rd_prev m p = (if p \<in> live m then prevf m p else None)"

definition rd_data :: "'a mem \<Rightarrow> addr \<Rightarrow> 'a option option" where
  "rd_data m p = (if p \<in> live m then Some (dataf m p) else None)"

definition wr_next :: "addr \<Rightarrow> addr \<Rightarrow> 'a mem \<Rightarrow> 'a mem option" where
  "wr_next p v m = (if p \<in> live m then Some (m\<lparr>nextf := (nextf m)(p \<mapsto> v)\<rparr>) else None)"

definition wr_prev :: "addr \<Rightarrow> addr \<Rightarrow> 'a mem \<Rightarrow> 'a mem option" where
  "wr_prev p v m = (if p \<in> live m then Some (m\<lparr>prevf := (prevf m)(p \<mapsto> v)\<rparr>) else None)"

definition wr_data :: "addr \<Rightarrow> 'a option \<Rightarrow> 'a mem \<Rightarrow> 'a mem option" where
  "wr_data p v m = (if p \<in> live m then Some (m\<lparr>dataf := (dataf m)(p := v)\<rparr>) else None)"

text \<open>
  \<open>malloc\<close> is called with the address it returns, \<open>NULL\<close> when it fails: which address it is, is
  the allocator's choice. By its specification the address of a new block is neither \<open>NULL\<close> nor
  that of a live block (\<open>fresh\<close>). \<open>free(NULL)\<close> does nothing; freeing anything but a live block
  is undefined.
\<close>

definition fresh :: "'a mem \<Rightarrow> addr \<Rightarrow> bool" where
  "fresh m p \<longleftrightarrow> p \<noteq> NULL \<and> p \<notin> live m"

definition mem_malloc :: "addr \<Rightarrow> 'a mem \<Rightarrow> 'a mem" where
  "mem_malloc p m =
     (if p = NULL then m
      else m\<lparr>live := insert p (live m), nextf := (nextf m)(p := None),
             prevf := (prevf m)(p := None), dataf := (dataf m)(p := None)\<rparr>)"

definition mem_free :: "addr \<Rightarrow> 'a mem \<Rightarrow> 'a mem option" where
  "mem_free p m =
     (if p = NULL then Some m
      else if p \<in> live m
      then Some (m\<lparr>live := live m - {p}, nextf := (nextf m)(p := None),
                   prevf := (prevf m)(p := None), dataf := (dataf m)(p := None)\<rparr>)
      else None)"

lemma rd_next_live [fault_simps]: "p \<in> live m \<Longrightarrow> rd_next m p = nextf m p"
  by (simp add: rd_next_def)

lemma rd_prev_live [fault_simps]: "p \<in> live m \<Longrightarrow> rd_prev m p = prevf m p"
  by (simp add: rd_prev_def)

lemma rd_data_live [fault_simps]: "p \<in> live m \<Longrightarrow> rd_data m p = Some (dataf m p)"
  by (simp add: rd_data_def)

lemma wr_next_live [fault_simps]:
  "p \<in> live m \<Longrightarrow> wr_next p v m = Some (m\<lparr>nextf := (nextf m)(p \<mapsto> v)\<rparr>)"
  by (simp add: wr_next_def)

lemma wr_prev_live [fault_simps]:
  "p \<in> live m \<Longrightarrow> wr_prev p v m = Some (m\<lparr>prevf := (prevf m)(p \<mapsto> v)\<rparr>)"
  by (simp add: wr_prev_def)

lemma wr_data_live [fault_simps]:
  "p \<in> live m \<Longrightarrow> wr_data p v m = Some (m\<lparr>dataf := (dataf m)(p := v)\<rparr>)"
  by (simp add: wr_data_def)

lemmas access_defs = rd_next_def rd_prev_def rd_data_def wr_next_def wr_prev_def wr_data_def
  mem_malloc_def mem_free_def

text \<open>What an operation that only touches the list links of the blocks in \<open>S\<close> leaves alone.\<close>

definition links_outside :: "addr set \<Rightarrow> 'a mem \<Rightarrow> 'a mem \<Rightarrow> bool" where
  "links_outside S m m' \<longleftrightarrow> live m' = live m \<and> dataf m' = dataf m \<and>
     (\<forall>p. p \<notin> S \<longrightarrow> nextf m' p = nextf m p \<and> prevf m' p = prevf m p)"

lemma links_outside_refl [simp]: "links_outside S m m"
  by (simp add: links_outside_def)

lemma links_outside_trans:
  "links_outside S m m1 \<Longrightarrow> links_outside S m1 m2 \<Longrightarrow> links_outside S m m2"
  by (simp add: links_outside_def)

lemma links_outside_mono:
  "links_outside S m m' \<Longrightarrow> S \<subseteq> T \<Longrightarrow> links_outside T m m'"
  by (auto simp: links_outside_def)

text \<open>The same with allocation and payloads: nothing outside \<open>S\<close> is allocated, freed or written.\<close>

definition same_outside :: "addr set \<Rightarrow> 'a mem \<Rightarrow> 'a mem \<Rightarrow> bool" where
  "same_outside S m m' \<longleftrightarrow> (\<forall>p. p \<notin> S \<longrightarrow> (p \<in> live m' \<longleftrightarrow> p \<in> live m) \<and>
     nextf m' p = nextf m p \<and> prevf m' p = prevf m p \<and> dataf m' p = dataf m p)"

lemma same_outside_refl [simp]: "same_outside S m m"
  by (simp add: same_outside_def)

lemma same_outside_trans:
  "same_outside S m m1 \<Longrightarrow> same_outside T m1 m2 \<Longrightarrow> S \<union> T \<subseteq> R \<Longrightarrow> same_outside R m m2"
  unfolding same_outside_def by (metis UnCI subset_iff)

lemma links_same_outside: "links_outside S m m' \<Longrightarrow> same_outside S m m'"
  by (simp add: links_outside_def same_outside_def)

lemma malloc_simps [simp]:
  assumes "p \<noteq> NULL"
  shows "live (mem_malloc p m) = insert p (live m)"
    "q \<noteq> p \<Longrightarrow> nextf (mem_malloc p m) q = nextf m q"
    "q \<noteq> p \<Longrightarrow> prevf (mem_malloc p m) q = prevf m q"
    "q \<noteq> p \<Longrightarrow> dataf (mem_malloc p m) q = dataf m q"
  using assms by (auto simp: mem_malloc_def)

lemma malloc_same_outside: "same_outside {p} m (mem_malloc p m)"
  by (simp add: same_outside_def mem_malloc_def)

lemma mem_free_ok:
  assumes "p \<in> live m" "p \<noteq> NULL"
  shows "\<exists>m'. mem_free p m = Some m' \<and> live m' = live m - {p} \<and> same_outside {p} m m'"
  using assms by (simp add: mem_free_def same_outside_def)

lemma mem_free_NULL [simp]: "mem_free NULL m = Some m"
  by (simp add: mem_free_def)

end
