(* ===== verification/List_Head.thy ===== *)
theory List_Head
  imports C_Memory
begin

text \<open>
  The intrusive circular doubly linked list of \<open>socket/common/list.h\<close>, at the level of its
  pointer writes, and the sequences it represents.
\<close>

section \<open>Operations\<close>

definition LIST_POISON1 :: addr where
  "LIST_POISON1 = 1048832"   \<comment> \<open>0x00100100\<close>

definition LIST_POISON2 :: addr where
  "LIST_POISON2 = 2097664"   \<comment> \<open>0x00200200\<close>

definition INIT_LIST_HEAD :: "addr \<Rightarrow> 'a mem \<Rightarrow> 'a mem option" where
  "INIT_LIST_HEAD l m = do {
     m \<leftarrow> wr_next l l m;
     wr_prev l l m }"

text \<open>\<open>__list_add\<close>\<close>

definition internal_list_add :: "addr \<Rightarrow> addr \<Rightarrow> addr \<Rightarrow> 'a mem \<Rightarrow> 'a mem option" where
  "internal_list_add new prev next m = do {
     m \<leftarrow> wr_prev next new m;
     m \<leftarrow> wr_next new next m;
     m \<leftarrow> wr_prev new prev m;
     wr_next prev new m }"

definition list_add :: "addr \<Rightarrow> addr \<Rightarrow> 'a mem \<Rightarrow> 'a mem option" where
  "list_add new head m = do {
     hn \<leftarrow> rd_next m head;
     internal_list_add new head hn m }"

definition list_add_tail :: "addr \<Rightarrow> addr \<Rightarrow> 'a mem \<Rightarrow> 'a mem option" where
  "list_add_tail new head m = do {
     hp \<leftarrow> rd_prev m head;
     internal_list_add new hp head m }"

text \<open>\<open>__list_del\<close>\<close>

definition internal_list_del :: "addr \<Rightarrow> addr \<Rightarrow> 'a mem \<Rightarrow> 'a mem option" where
  "internal_list_del prev next m = do {
     m \<leftarrow> wr_prev next prev m;
     wr_next prev next m }"

text \<open>\<open>__list_del_entry\<close>\<close>

definition internal_list_del_entry :: "addr \<Rightarrow> 'a mem \<Rightarrow> 'a mem option" where
  "internal_list_del_entry entry m = do {
     ep \<leftarrow> rd_prev m entry;
     en \<leftarrow> rd_next m entry;
     internal_list_del ep en m }"

definition list_del :: "addr \<Rightarrow> 'a mem \<Rightarrow> 'a mem option" where
  "list_del entry m = do {
     ep \<leftarrow> rd_prev m entry;
     en \<leftarrow> rd_next m entry;
     m \<leftarrow> internal_list_del ep en m;
     m \<leftarrow> wr_next entry LIST_POISON1 m;
     wr_prev entry LIST_POISON2 m }"

definition list_replace :: "addr \<Rightarrow> addr \<Rightarrow> 'a mem \<Rightarrow> 'a mem option" where
  "list_replace old new m = do {
     on \<leftarrow> rd_next m old;
     m \<leftarrow> wr_next new on m;
     nn \<leftarrow> rd_next m new;
     m \<leftarrow> wr_prev nn new m;
     op \<leftarrow> rd_prev m old;
     m \<leftarrow> wr_prev new op m;
     np \<leftarrow> rd_prev m new;
     wr_next np new m }"

definition list_replace_init :: "addr \<Rightarrow> addr \<Rightarrow> 'a mem \<Rightarrow> 'a mem option" where
  "list_replace_init old new m = do {
     m \<leftarrow> list_replace old new m;
     INIT_LIST_HEAD old m }"

definition list_del_init :: "addr \<Rightarrow> 'a mem \<Rightarrow> 'a mem option" where
  "list_del_init entry m = do {
     m \<leftarrow> internal_list_del_entry entry m;
     INIT_LIST_HEAD entry m }"

definition list_move :: "addr \<Rightarrow> addr \<Rightarrow> 'a mem \<Rightarrow> 'a mem option" where
  "list_move l head m = do {
     m \<leftarrow> internal_list_del_entry l m;
     list_add l head m }"

definition list_move_tail :: "addr \<Rightarrow> addr \<Rightarrow> 'a mem \<Rightarrow> 'a mem option" where
  "list_move_tail l head m = do {
     m \<leftarrow> internal_list_del_entry l m;
     list_add_tail l head m }"

definition list_is_last :: "addr \<Rightarrow> addr \<Rightarrow> 'a mem \<Rightarrow> bool option" where
  "list_is_last l head m = do {
     n \<leftarrow> rd_next m l;
     Some (n = head) }"

definition list_empty :: "addr \<Rightarrow> 'a mem \<Rightarrow> bool option" where
  "list_empty head m = do {
     n \<leftarrow> rd_next m head;
     Some (n = head) }"

definition list_empty_careful :: "addr \<Rightarrow> 'a mem \<Rightarrow> bool option" where
  "list_empty_careful head m = do {
     n \<leftarrow> rd_next m head;
     if n = head then do { p \<leftarrow> rd_prev m head; Some (n = p) } else Some False }"

definition list_rotate_left :: "addr \<Rightarrow> 'a mem \<Rightarrow> 'a mem option" where
  "list_rotate_left head m = do {
     e \<leftarrow> list_empty head m;
     if \<not> e then do {
       first \<leftarrow> rd_next m head;
       list_move_tail first head m }
     else Some m }"

definition list_is_singular :: "addr \<Rightarrow> 'a mem \<Rightarrow> bool option" where
  "list_is_singular head m = do {
     e \<leftarrow> list_empty head m;
     if \<not> e then do { n \<leftarrow> rd_next m head; p \<leftarrow> rd_prev m head; Some (n = p) }
     else Some False }"

text \<open>\<open>__list_cut_position\<close>\<close>

definition internal_list_cut_position :: "addr \<Rightarrow> addr \<Rightarrow> addr \<Rightarrow> 'a mem \<Rightarrow> 'a mem option" where
  "internal_list_cut_position l head entry m = do {
     new_first \<leftarrow> rd_next m entry;
     hn \<leftarrow> rd_next m head;
     m \<leftarrow> wr_next l hn m;
     ln \<leftarrow> rd_next m l;
     m \<leftarrow> wr_prev ln l m;
     m \<leftarrow> wr_prev l entry m;
     m \<leftarrow> wr_next entry l m;
     m \<leftarrow> wr_next head new_first m;
     wr_prev new_first head m }"

definition list_cut_position :: "addr \<Rightarrow> addr \<Rightarrow> addr \<Rightarrow> 'a mem \<Rightarrow> 'a mem option" where
  "list_cut_position l head entry m = do {
     e \<leftarrow> list_empty head m;
     if e then Some m
     else do {
       s \<leftarrow> list_is_singular head m;
       hn \<leftarrow> rd_next m head;
       if s \<and> hn \<noteq> entry \<and> head \<noteq> entry then Some m
       else if entry = head then INIT_LIST_HEAD l m
       else internal_list_cut_position l head entry m } }"

text \<open>\<open>__list_splice\<close>\<close>

definition internal_list_splice :: "addr \<Rightarrow> addr \<Rightarrow> addr \<Rightarrow> 'a mem \<Rightarrow> 'a mem option" where
  "internal_list_splice l prev next m = do {
     first \<leftarrow> rd_next m l;
     last \<leftarrow> rd_prev m l;
     m \<leftarrow> wr_prev first prev m;
     m \<leftarrow> wr_next prev first m;
     m \<leftarrow> wr_next last next m;
     wr_prev next last m }"

definition list_splice :: "addr \<Rightarrow> addr \<Rightarrow> 'a mem \<Rightarrow> 'a mem option" where
  "list_splice l head m = do {
     e \<leftarrow> list_empty l m;
     if \<not> e then do { hn \<leftarrow> rd_next m head; internal_list_splice l head hn m }
     else Some m }"

definition list_splice_tail :: "addr \<Rightarrow> addr \<Rightarrow> 'a mem \<Rightarrow> 'a mem option" where
  "list_splice_tail l head m = do {
     e \<leftarrow> list_empty l m;
     if \<not> e then do { hp \<leftarrow> rd_prev m head; internal_list_splice l hp head m }
     else Some m }"

definition list_splice_init :: "addr \<Rightarrow> addr \<Rightarrow> 'a mem \<Rightarrow> 'a mem option" where
  "list_splice_init l head m = do {
     e \<leftarrow> list_empty l m;
     if \<not> e then do {
       hn \<leftarrow> rd_next m head;
       m \<leftarrow> internal_list_splice l head hn m;
       INIT_LIST_HEAD l m }
     else Some m }"

definition list_splice_tail_init :: "addr \<Rightarrow> addr \<Rightarrow> 'a mem \<Rightarrow> 'a mem option" where
  "list_splice_tail_init l head m = do {
     e \<leftarrow> list_empty l m;
     if \<not> e then do {
       hp \<leftarrow> rd_prev m head;
       m \<leftarrow> internal_list_splice l hp head m;
       INIT_LIST_HEAD l m }
     else Some m }"

text \<open>
  \<open>list_for_each (pos, head)\<close>: the loop \<open>for (pos = head->next; pos != head; pos = pos->next)\<close>
  with a body that either goes on with a new state (\<open>Inl\<close>) or leaves the loop by \<open>return\<close> or
  \<open>break\<close> (\<open>Inr\<close>). The body may change the memory, and the link of \<open>pos\<close> is read after it ran.
\<close>

partial_function (option) list_for_each_from ::
  "(addr \<Rightarrow> 'a mem \<times> 's \<Rightarrow> (('a mem \<times> 's) + 'r) option) \<Rightarrow> addr \<Rightarrow> addr \<Rightarrow> 'a mem \<times> 's \<Rightarrow>
   (('a mem \<times> 's) + 'r) option" where
  "list_for_each_from body head pos ms =
     (if pos = head then Some (Inl ms)
      else do {
        r \<leftarrow> body pos ms;
        case r of Inr v \<Rightarrow> Some (Inr v)
        | Inl ms' \<Rightarrow> do {
            n \<leftarrow> rd_next (fst ms') pos;
            list_for_each_from body head n ms' } })"

definition list_for_each ::
  "(addr \<Rightarrow> 'a mem \<times> 's \<Rightarrow> (('a mem \<times> 's) + 'r) option) \<Rightarrow> addr \<Rightarrow> 'a mem \<times> 's \<Rightarrow>
   (('a mem \<times> 's) + 'r) option" where
  "list_for_each body head ms = do {
     n \<leftarrow> rd_next (fst ms) head;
     list_for_each_from body head n ms }"

section \<open>The sequence a list head represents\<close>

definition linked :: "'a mem \<Rightarrow> addr \<Rightarrow> addr \<Rightarrow> bool" where
  "linked m a b \<longleftrightarrow> nextf m a = Some b \<and> prevf m b = Some a"

fun seg :: "'a mem \<Rightarrow> addr list \<Rightarrow> bool" where
  "seg m [] = True"
| "seg m [a] = True"
| "seg m (a # b # ps) = (linked m a b \<and> seg m (b # ps))"

definition dll :: "'a mem \<Rightarrow> addr \<Rightarrow> addr list \<Rightarrow> bool" where
  "dll m h xs \<longleftrightarrow> distinct (h # xs) \<and> set (h # xs) \<subseteq> live m \<and> seg m (h # xs @ [h])"

lemma seg_append: "seg m (us @ a # vs) \<longleftrightarrow> seg m (us @ [a]) \<and> seg m (a # vs)"
  by (induction us rule: induct_list012) auto

lemma seg_cong:
  assumes "\<And>p. p \<in> set (butlast ps) \<Longrightarrow> nextf m' p = nextf m p"
    and "\<And>p. p \<in> set (tl ps) \<Longrightarrow> prevf m' p = prevf m p"
  shows "seg m' ps = seg m ps"
  using assms
proof (induction ps rule: induct_list012)
  case (3 a b ps)
  have "seg m' (b # ps) = seg m (b # ps)"
    using 3 by (intro "3.IH"(2)) auto
  with 3 show ?case by (simp add: linked_def)
qed auto

lemma seg_cong_I:
  assumes "seg m ps"
    and "\<And>p. p \<in> set (butlast ps) \<Longrightarrow> nextf m' p = nextf m p"
    and "\<And>p. p \<in> set (tl ps) \<Longrightarrow> prevf m' p = prevf m p"
  shows "seg m' ps"
  using assms seg_cong by blast

text \<open>
  List surgery: between two neighbours \<open>a\<close> and \<open>b\<close> of a segment, the part \<open>mid\<close> is replaced by
  \<open>mid'\<close>. Only the forward link of \<open>a\<close>, the backward link of \<open>b\<close> and the links inside the
  removed and inserted parts change.
\<close>

lemma seg_surgery:
  assumes "seg m (us @ a # mid @ b # vs)"
    and "seg m' (a # mid' @ [b])"
    and "\<And>p. p \<in> set us \<union> set (butlast (b # vs)) \<Longrightarrow> nextf m' p = nextf m p"
    and "\<And>p. p \<in> set (tl (us @ [a])) \<union> set vs \<Longrightarrow> prevf m' p = prevf m p"
  shows "seg m' (us @ a # mid' @ b # vs)"
proof -
  from assms(1) have "seg m (us @ [a])" "seg m (a # mid @ b # vs)"
    using seg_append by blast+
  from this(2) have "seg m (b # vs)"
    using seg_append [of m "a # mid" b vs] by simp
  have "seg m' (us @ [a])"
    using \<open>seg m (us @ [a])\<close> by (rule seg_cong_I) (use assms(3,4) in auto)
  have "seg m' (b # vs)"
    using \<open>seg m (b # vs)\<close> by (rule seg_cong_I) (use assms(3,4) in auto)
  with assms(2) have "seg m' (a # mid' @ b # vs)"
    using seg_append [of m' "a # mid'" b vs] by simp
  with \<open>seg m' (us @ [a])\<close> show ?thesis
    using seg_append by blast
qed

lemma seg_next: "seg m (a # ps) \<Longrightarrow> ps \<noteq> [] \<Longrightarrow> nextf m a = Some (hd ps)"
  by (cases ps) (auto simp: linked_def)

lemma seg_prev: "seg m (ps @ [b]) \<Longrightarrow> ps \<noteq> [] \<Longrightarrow> prevf m b = Some (last ps)"
  by (induction ps rule: induct_list012) (auto simp: linked_def)

lemma seg_mid_prev:
  assumes "seg m (us @ a # b # vs)"
  shows "prevf m b = Some a" "nextf m a = Some b"
  using assms seg_append [of m us a "b # vs"] by (auto simp: linked_def)

lemma dll_live: "dll m h xs \<Longrightarrow> h \<in> live m" "dll m h xs \<Longrightarrow> x \<in> set xs \<Longrightarrow> x \<in> live m"
  by (auto simp: dll_def)

lemma dll_next_head: "dll m h xs \<Longrightarrow> nextf m h = Some (hd (xs @ [h]))"
  using seg_next [of m h "xs @ [h]"] by (simp add: dll_def)

lemma dll_prev_head: "dll m h xs \<Longrightarrow> prevf m h = Some (last (h # xs))"
  using seg_prev [of m "h # xs" h] by (simp add: dll_def)

lemma dll_entry:
  assumes "dll m h (xs @ e # ys)"
  shows "prevf m e = Some (last (h # xs))" "nextf m e = Some (hd (ys @ [h]))"
proof -
  from assms have "seg m ((h # xs) @ e # (ys @ [h]))"
    by (simp add: dll_def)
  then have "seg m ((h # xs) @ [e])" "seg m (e # (ys @ [h]))"
    using seg_append by blast+
  then show "prevf m e = Some (last (h # xs))" "nextf m e = Some (hd (ys @ [h]))"
    using seg_prev [of m "h # xs" e] seg_next [of m e "ys @ [h]"] by auto
qed

text \<open>The sequence is determined by the memory.\<close>

lemma dll_unique: "dll m h xs \<Longrightarrow> dll m h ys \<Longrightarrow> xs = ys"
proof -
  have "seg m (a # xs @ [h]) \<Longrightarrow> seg m (a # ys @ [h]) \<Longrightarrow> h \<notin> set xs \<Longrightarrow> h \<notin> set ys \<Longrightarrow> xs = ys"
    for a
  proof (induction xs arbitrary: a ys)
    case Nil
    then show ?case by (cases ys) (auto simp: linked_def)
  next
    case (Cons x xs)
    then show ?case by (cases ys) (auto simp: linked_def)
  qed
  then show "dll m h xs \<Longrightarrow> dll m h ys \<Longrightarrow> xs = ys"
    by (auto simp: dll_def)
qed

text \<open>Lists whose nodes an operation does not touch are unchanged.\<close>

lemma dll_frame:
  assumes "dll m g ys" "links_outside S m m'" "set (g # ys) \<inter> S = {}"
  shows "dll m' g ys"
proof -
  have "seg m' (g # ys @ [g]) = seg m (g # ys @ [g])"
    using assms(2,3) by (intro seg_cong) (auto simp: links_outside_def dest: in_set_butlastD)
  with assms(1,2) show ?thesis
    by (auto simp: dll_def links_outside_def)
qed

lemma dll_surgery:
  assumes dll: "dll m h (bs @ mid @ cs)"
    and mid': "seg m' (last (h # bs) # mid' @ [hd (cs @ [h])])"
      "distinct mid'" "set mid' \<subseteq> live m" "set mid' \<inter> set (h # bs @ cs) = {}"
    and live: "live m' = live m"
    and nxt: "\<And>p. p \<in> set (h # bs @ cs) - set mid' \<Longrightarrow> p \<noteq> last (h # bs) \<Longrightarrow>
      nextf m' p = nextf m p"
    and prv: "\<And>p. p \<in> set (h # bs @ cs) - set mid' \<Longrightarrow> p \<noteq> hd (cs @ [h]) \<Longrightarrow>
      prevf m' p = prevf m p"
  shows "dll m' h (bs @ mid' @ cs)"
proof -
  define us a where "us = butlast (h # bs)" and "a = last (h # bs)"
  define b vs where "b = hd (cs @ [h])" and "vs = tl (cs @ [h])"
  have split: "h # bs = us @ [a]" "cs @ [h] = b # vs"
    by (simp_all add: us_def a_def b_def vs_def)
  have all: "h # (bs @ x @ cs) @ [h] = us @ a # x @ b # vs" for x
    using split by simp
  have "distinct ((h # bs) @ mid @ cs)" "distinct (bs @ mid @ cs @ [h])"
    using dll by (auto simp: dll_def)
  then have D: "distinct ((us @ [a]) @ mid @ cs)" "distinct (bs @ mid @ b # vs)"
    by (simp_all only: split)
  have "tl (us @ [a]) = bs" "butlast (b # vs) = cs"
    by (simp_all flip: split)
  moreover have "set us \<subseteq> set (h # bs)" "set vs \<subseteq> set (cs @ [h])"
    by (simp_all only: split set_append) auto
  ultimately have sub: "set us \<subseteq> set (h # bs)" "set vs \<subseteq> set (h # cs)"
    "set (butlast (b # vs)) = set cs" "set (tl (us @ [a])) = set bs"
    by auto
  have "seg m' (us @ a # mid' @ b # vs)"
  proof (rule seg_surgery)
    show "seg m (us @ a # mid @ b # vs)"
      using dll all [of mid] by (simp add: dll_def)
    show "seg m' (a # mid' @ [b])"
      using mid'(1) by (simp add: a_def b_def)
    show "nextf m' p = nextf m p" if "p \<in> set us \<union> set (butlast (b # vs))" for p
      using that sub D(1) mid'(4) by (intro nxt [folded a_def]) auto
    show "prevf m' p = prevf m p" if "p \<in> set (tl (us @ [a])) \<union> set vs" for p
      using that sub D(2) mid'(4) by (intro prv [folded b_def]) auto
  qed
  then show ?thesis
    using dll mid'(2-4) live all [of mid'] by (auto simp: dll_def)
qed

section \<open>Correctness of the operations\<close>

lemma INIT_LIST_HEAD_ok:
  assumes "h \<in> live m"
  shows "\<exists>m'. INIT_LIST_HEAD h m = Some m' \<and> dll m' h [] \<and> links_outside {h} m m'"
  using assms by (simp add: INIT_LIST_HEAD_def fault_simps dll_def linked_def links_outside_def)

lemma internal_list_add_ok:
  assumes "dll m h (bs @ cs)" "new \<in> live m" "new \<notin> set (h # bs @ cs)"
  shows "\<exists>m'. internal_list_add new (last (h # bs)) (hd (cs @ [h])) m = Some m' \<and>
    dll m' h (bs @ new # cs) \<and> links_outside (set (h # new # bs @ cs)) m m'"
proof -
  let ?a = "last (h # bs)" and ?b = "hd (cs @ [h])"
  have mem: "?a \<in> set (h # bs)" "?b \<in> set (h # cs)"
    using last_in_set [of "h # bs"] hd_in_set [of "cs @ [h]"] by auto
  then have neq: "?a \<noteq> new" "?b \<noteq> new"
    using assms(3) by auto
  have lv: "?a \<in> live m" "?b \<in> live m"
    using mem assms(1) by (auto simp: dll_def)
  let ?m = "m\<lparr>prevf := (prevf m)(?b \<mapsto> new, new \<mapsto> ?a), nextf := (nextf m)(new \<mapsto> ?b, ?a \<mapsto> new)\<rparr>"
  have ev: "internal_list_add new ?a ?b m = Some ?m"
    using lv assms(2) by (simp add: internal_list_add_def fault_simps)
  have "dll ?m h (bs @ [new] @ cs)"
    by (rule dll_surgery [where m = m and mid = "[]"])
      (use assms neq in \<open>simp_all add: linked_def\<close>)
  moreover have "links_outside (set (h # new # bs @ cs)) m ?m"
    using mem by (auto simp: links_outside_def)
  ultimately show ?thesis
    using ev by (metis append_Cons append_Nil)
qed

lemma list_add_ok:
  assumes "dll m h xs" "new \<in> live m" "new \<notin> set (h # xs)"
  shows "\<exists>m'. list_add new h m = Some m' \<and> dll m' h (new # xs) \<and>
    links_outside (set (h # new # xs)) m m'"
  using internal_list_add_ok [of m h "[]" xs new] assms
  by (simp add: list_add_def fault_simps dll_live dll_next_head)

lemma list_add_tail_ok:
  assumes "dll m h xs" "new \<in> live m" "new \<notin> set (h # xs)"
  shows "\<exists>m'. list_add_tail new h m = Some m' \<and> dll m' h (xs @ [new]) \<and>
    links_outside (set (h # new # xs)) m m'"
proof -
  have "rd_prev m h = Some (last (h # xs))"
    using assms(1) by (simp only: rd_prev_live dll_live dll_prev_head)
  then show ?thesis
    using internal_list_add_ok [of m h xs "[]" new] assms
    by (simp only: list_add_tail_def append_Nil2 append_Nil list.sel bind.bind_lunit) simp
qed

lemma internal_list_del_ok:
  assumes "dll m h (bs @ mid @ cs)"
  shows "\<exists>m'. internal_list_del (last (h # bs)) (hd (cs @ [h])) m = Some m' \<and> dll m' h (bs @ cs) \<and>
    links_outside (set (h # bs @ cs)) m m'"
proof -
  let ?a = "last (h # bs)" and ?b = "hd (cs @ [h])"
  have mem: "?a \<in> set (h # bs)" "?b \<in> set (h # cs)"
    using last_in_set [of "h # bs"] hd_in_set [of "cs @ [h]"] by auto
  then have lv: "?a \<in> live m" "?b \<in> live m"
    using assms by (auto simp: dll_def)
  let ?m = "m\<lparr>prevf := (prevf m)(?b \<mapsto> ?a), nextf := (nextf m)(?a \<mapsto> ?b)\<rparr>"
  have "internal_list_del ?a ?b m = Some ?m"
    using lv by (simp add: internal_list_del_def fault_simps)
  moreover have "dll ?m h (bs @ [] @ cs)"
    by (rule dll_surgery [OF assms]) (simp_all add: linked_def)
  moreover have "links_outside (set (h # bs @ cs)) m ?m"
    using mem by (auto simp: links_outside_def)
  ultimately show ?thesis by simp
qed

lemma dll_entry_reads:
  assumes "dll m h (bs @ e # cs)"
  shows "rd_prev m e = Some (last (h # bs))" "rd_next m e = Some (hd (cs @ [h]))"
  using dll_entry [OF assms] dll_live(2) [OF assms, of e] by (auto simp: fault_simps)

lemma internal_list_del_entry_ok:
  assumes "dll m h (bs @ e # cs)"
  shows "\<exists>m'. internal_list_del_entry e m = Some m' \<and> dll m' h (bs @ cs) \<and>
    links_outside (set (h # bs @ cs)) m m'"
  using internal_list_del_ok [of m h bs "[e]" cs] assms
  by (simp add: internal_list_del_entry_def dll_entry_reads [OF assms] del: last.simps)

lemma dll_del_notin:
  "dll m h (bs @ e # cs) \<Longrightarrow> e \<notin> set (h # bs @ cs) \<and> e \<in> live m"
  by (auto simp: dll_def)

lemma list_del_ok:
  assumes "dll m h (bs @ e # cs)"
  shows "\<exists>m'. list_del e m = Some m' \<and> dll m' h (bs @ cs) \<and>
    nextf m' e = Some LIST_POISON1 \<and> prevf m' e = Some LIST_POISON2 \<and>
    links_outside (set (h # bs @ e # cs)) m m'"
proof -
  obtain m1 where m1: "internal_list_del (last (h # bs)) (hd (cs @ [h])) m = Some m1"
    "dll m1 h (bs @ cs)" "links_outside (set (h # bs @ cs)) m m1"
    using internal_list_del_ok [of m h bs "[e]" cs] assms by auto
  note e = dll_del_notin [OF assms]
  have lv: "e \<in> live m1"
    using m1(3) e by (simp add: links_outside_def)
  let ?m = "m1\<lparr>nextf := (nextf m1)(e \<mapsto> LIST_POISON1), prevf := (prevf m1)(e \<mapsto> LIST_POISON2)\<rparr>"
  have "list_del e m = Some ?m"
    by (simp add: list_del_def dll_entry_reads [OF assms] m1(1) fault_simps lv del: last.simps)
  moreover have "dll ?m h (bs @ cs)"
    by (rule dll_frame [OF m1(2), of "{e}"]) (use e in \<open>auto simp: links_outside_def\<close>)
  moreover have "links_outside (set (h # bs @ e # cs)) m ?m"
    using m1(3) by (auto simp: links_outside_def)
  ultimately show ?thesis by simp
qed

lemma list_del_init_ok:
  assumes "dll m h (bs @ e # cs)"
  shows "\<exists>m'. list_del_init e m = Some m' \<and> dll m' h (bs @ cs) \<and> dll m' e [] \<and>
    links_outside (set (h # bs @ e # cs)) m m'"
proof -
  obtain m1 where m1: "internal_list_del_entry e m = Some m1"
    "dll m1 h (bs @ cs)" "links_outside (set (h # bs @ cs)) m m1"
    using internal_list_del_entry_ok [OF assms] by auto
  note e = dll_del_notin [OF assms]
  then obtain m2 where m2: "INIT_LIST_HEAD e m1 = Some m2" "dll m2 e []" "links_outside {e} m1 m2"
    using INIT_LIST_HEAD_ok [of e m1] m1(3) by (auto simp: links_outside_def)
  have "dll m2 h (bs @ cs)"
    by (rule dll_frame [OF m1(2) m2(3)]) (use e in auto)
  moreover have "links_outside (set (h # bs @ e # cs)) m m2"
    using m1(3) m2(3) by (auto simp: links_outside_def)
  ultimately show ?thesis
    using m1(1) m2 by (simp add: list_del_init_def)
qed

lemma list_replace_ok:
  assumes dll: "dll m h (bs @ old # cs)" and new: "new \<in> live m" "new \<notin> set (h # bs @ old # cs)"
  shows "\<exists>m'. list_replace old new m = Some m' \<and> dll m' h (bs @ new # cs) \<and>
    links_outside (set (h # new # bs @ cs)) m m'"
proof -
  let ?a = "last (h # bs)" and ?b = "hd (cs @ [h])"
  have mem: "?a \<in> set (h # bs)" "?b \<in> set (h # cs)"
    using last_in_set [of "h # bs"] hd_in_set [of "cs @ [h]"] by auto
  note old = dll_del_notin [OF dll]
  have lv: "?a \<in> live m" "?b \<in> live m"
    using mem dll by (auto simp: dll_def)
  have neq: "?a \<noteq> new" "?b \<noteq> new" "?a \<noteq> old" "?b \<noteq> old" "new \<noteq> old"
    using mem new old by auto
  let ?m = "m\<lparr>nextf := (nextf m)(new \<mapsto> ?b, ?a \<mapsto> new), prevf := (prevf m)(?b \<mapsto> new, new \<mapsto> ?a)\<rparr>"
  have ev: "list_replace old new m = Some ?m"
    using lv old new(1) neq dll_entry [OF dll]
    by (simp add: list_replace_def fault_simps del: last.simps)
  have "dll ?m h (bs @ [new] @ cs)"
    by (rule dll_surgery [where m = m and mid = "[old]"])
      (use dll new neq in \<open>simp_all add: linked_def\<close>)
  moreover have "links_outside (set (h # new # bs @ cs)) m ?m"
    using mem by (auto simp: links_outside_def)
  ultimately show ?thesis
    using ev by (metis append_Cons append_Nil)
qed

lemma list_replace_init_ok:
  assumes dll: "dll m h (bs @ old # cs)" and new: "new \<in> live m" "new \<notin> set (h # bs @ old # cs)"
  shows "\<exists>m'. list_replace_init old new m = Some m' \<and> dll m' h (bs @ new # cs) \<and> dll m' old [] \<and>
    links_outside (set (h # new # bs @ old # cs)) m m'"
proof -
  obtain m1 where m1: "list_replace old new m = Some m1" "dll m1 h (bs @ new # cs)"
    "links_outside (set (h # new # bs @ cs)) m m1"
    using list_replace_ok [OF assms] by auto
  note old = dll_del_notin [OF dll]
  then obtain m2 where m2: "INIT_LIST_HEAD old m1 = Some m2" "dll m2 old []"
    "links_outside {old} m1 m2"
    using INIT_LIST_HEAD_ok [of old m1] m1(3) by (auto simp: links_outside_def)
  have "dll m2 h (bs @ new # cs)"
    by (rule dll_frame [OF m1(2) m2(3)]) (use old new in auto)
  moreover have "links_outside (set (h # new # bs @ old # cs)) m m2"
    using m1(3) m2(3) by (auto simp: links_outside_def)
  ultimately show ?thesis
    using m1(1) m2 by (simp add: list_replace_init_def)
qed

subsection \<open>Queries\<close>

lemma list_empty_ok: "dll m h xs \<Longrightarrow> list_empty h m = Some (xs = [])"
  by (cases xs) (auto simp: list_empty_def fault_simps dll_live dll_next_head, auto simp: dll_def)

lemma list_empty_careful_ok: "dll m h xs \<Longrightarrow> list_empty_careful h m = Some (xs = [])"
  by (cases xs) (auto simp: list_empty_careful_def fault_simps dll_live dll_next_head dll_prev_head,
      auto simp: dll_def)

lemma list_is_singular_ok: "dll m h xs \<Longrightarrow> list_is_singular h m = Some (length xs = 1)"
proof -
  assume dll: "dll m h xs"
  then have "distinct (h # xs)" by (simp add: dll_def)
  then have "xs \<noteq> [] \<longrightarrow> (hd xs = last xs \<longleftrightarrow> length xs = 1)"
    by (cases xs rule: rev_cases) (auto simp: hd_append)
  with dll show ?thesis
    by (auto simp: list_is_singular_def list_empty_ok fault_simps dll_live dll_next_head
        dll_prev_head hd_append)
qed

lemma list_is_last_ok:
  assumes "dll m h (bs @ e # cs)"
  shows "list_is_last e h m = Some (cs = [])"
proof -
  have "h \<notin> set cs" using assms by (simp add: dll_def)
  then show ?thesis
    by (cases cs) (auto simp: list_is_last_def dll_entry_reads [OF assms])
qed

subsection \<open>Moving entries\<close>

lemma list_move_ok:
  assumes "dll m g (bs @ e # cs)" "dll m h xs" "set (g # bs @ e # cs) \<inter> set (h # xs) = {}"
  shows "\<exists>m'. list_move e h m = Some m' \<and> dll m' g (bs @ cs) \<and> dll m' h (e # xs) \<and>
    links_outside (set (g # bs @ e # cs) \<union> set (h # xs)) m m'"
proof -
  obtain m1 where m1: "internal_list_del_entry e m = Some m1"
    "dll m1 g (bs @ cs)" "links_outside (set (g # bs @ cs)) m m1"
    using internal_list_del_entry_ok [OF assms(1)] by auto
  note e = dll_del_notin [OF assms(1)]
  have "dll m1 h xs"
    by (rule dll_frame [OF assms(2) m1(3)]) (use assms(3) in auto)
  then obtain m2 where m2: "list_add e h m1 = Some m2" "dll m2 h (e # xs)"
    "links_outside (set (h # e # xs)) m1 m2"
    using list_add_ok [of m1 h xs e] e m1(3) assms(3) by (auto simp: links_outside_def)
  have "dll m2 g (bs @ cs)"
    by (rule dll_frame [OF m1(2) m2(3)]) (use e assms(3) in auto)
  moreover have "links_outside (set (g # bs @ e # cs) \<union> set (h # xs)) m m2"
    using m1(3) m2(3) by (auto simp: links_outside_def)
  ultimately show ?thesis
    using m1(1) m2 by (simp add: list_move_def)
qed

lemma list_move_tail_ok:
  assumes "dll m g (bs @ e # cs)" "dll m h xs" "set (g # bs @ e # cs) \<inter> set (h # xs) = {}"
  shows "\<exists>m'. list_move_tail e h m = Some m' \<and> dll m' g (bs @ cs) \<and> dll m' h (xs @ [e]) \<and>
    links_outside (set (g # bs @ e # cs) \<union> set (h # xs)) m m'"
proof -
  obtain m1 where m1: "internal_list_del_entry e m = Some m1"
    "dll m1 g (bs @ cs)" "links_outside (set (g # bs @ cs)) m m1"
    using internal_list_del_entry_ok [OF assms(1)] by auto
  note e = dll_del_notin [OF assms(1)]
  have "dll m1 h xs"
    by (rule dll_frame [OF assms(2) m1(3)]) (use assms(3) in auto)
  then obtain m2 where m2: "list_add_tail e h m1 = Some m2" "dll m2 h (xs @ [e])"
    "links_outside (set (h # e # xs)) m1 m2"
    using list_add_tail_ok [of m1 h xs e] e m1(3) assms(3) by (auto simp: links_outside_def)
  have "dll m2 g (bs @ cs)"
    by (rule dll_frame [OF m1(2) m2(3)]) (use e assms(3) in auto)
  moreover have "links_outside (set (g # bs @ e # cs) \<union> set (h # xs)) m m2"
    using m1(3) m2(3) by (auto simp: links_outside_def)
  ultimately show ?thesis
    using m1(1) m2 by (simp add: list_move_tail_def)
qed

lemma list_rotate_left_ok:
  assumes "dll m h xs"
  shows "\<exists>m'. list_rotate_left h m = Some m' \<and> dll m' h (rotate1 xs) \<and>
    links_outside (set (h # xs)) m m'"
proof (cases xs)
  case Nil
  with assms show ?thesis by (simp add: list_rotate_left_def list_empty_ok)
next
  case (Cons e cs)
  with assms have dll: "dll m h ([] @ e # cs)" by simp
  then obtain m1 where m1: "internal_list_del_entry e m = Some m1"
    "dll m1 h cs" "links_outside (set (h # cs)) m m1"
    using internal_list_del_entry_ok by fastforce
  note e = dll_del_notin [OF dll]
  then obtain m2 where m2: "list_add_tail e h m1 = Some m2" "dll m2 h (cs @ [e])"
    "links_outside (set (h # e # cs)) m1 m2"
    using list_add_tail_ok [OF m1(2), of e] m1(3) by (auto simp: links_outside_def)
  have "list_rotate_left h m = Some m2"
    using assms Cons m1(1) m2(1)
    by (simp add: list_rotate_left_def list_empty_ok fault_simps dll_live dll_next_head
        list_move_tail_def)
  moreover have "links_outside (set (h # xs)) m m2"
    using m1(3) m2(3) Cons by (auto simp: links_outside_def)
  ultimately show ?thesis
    using m2(2) Cons by simp
qed

subsection \<open>Cutting and splicing\<close>

lemma seg_ends:
  assumes "ys \<noteq> []"
  shows "seg m (a # ys @ [b]) \<longleftrightarrow> linked m a (hd ys) \<and> seg m ys \<and> linked m (last ys) b"
proof -
  have "seg m (a # ys @ [b]) \<longleftrightarrow> linked m a (hd ys) \<and> seg m (ys @ [b])"
    using assms by (cases ys) auto
  also have "seg m (ys @ [b]) \<longleftrightarrow> seg m ys \<and> linked m (last ys) b"
    using assms seg_append [of m "butlast ys" "last ys" "[b]"]
    by (cases ys rule: rev_cases) auto
  finally show ?thesis .
qed

lemma butlast_notin_last: "distinct ys \<Longrightarrow> p \<in> set (butlast ys) \<Longrightarrow> p \<noteq> last ys"
  by (cases ys rule: rev_cases) auto

lemma tl_notin_hd: "distinct ys \<Longrightarrow> p \<in> set (tl ys) \<Longrightarrow> p \<noteq> hd ys"
  by (cases ys) auto

text \<open>Relinking the two ends of a segment leaves its inside alone.\<close>

lemma seg_reends:
  assumes "seg m ys" "distinct ys"
    and "\<And>p. p \<in> set ys \<Longrightarrow> p \<noteq> last ys \<Longrightarrow> nextf m' p = nextf m p"
    and "\<And>p. p \<in> set ys \<Longrightarrow> p \<noteq> hd ys \<Longrightarrow> prevf m' p = prevf m p"
  shows "seg m' ys"
  using assms(1)
proof (rule seg_cong_I)
  fix p
  show "p \<in> set (butlast ys) \<Longrightarrow> nextf m' p = nextf m p"
    using assms(2,3) butlast_notin_last in_set_butlastD by fastforce
  show "p \<in> set (tl ys) \<Longrightarrow> prevf m' p = prevf m p"
    using assms(2,4) tl_notin_hd list.set_sel(2) by (metis tl_Nil)
qed

lemma dll_inner_seg: "dll m l ys \<Longrightarrow> seg m ys"
  by (cases "ys = []") (simp_all add: dll_def seg_ends)

lemma internal_list_splice_eval:
  assumes "dll m l ys" "ys \<noteq> []" "a \<in> live m" "b \<in> live m"
  shows "internal_list_splice l a b m =
    Some (m\<lparr>prevf := (prevf m)(hd ys \<mapsto> a, b \<mapsto> last ys),
            nextf := (nextf m)(a \<mapsto> hd ys, last ys \<mapsto> b)\<rparr>)"
proof -
  have "rd_next m l = Some (hd ys)" "rd_prev m l = Some (last ys)"
    using assms(1,2) dll_next_head [of m l ys] dll_prev_head [of m l ys]
    by (simp_all add: fault_simps dll_live hd_append)
  moreover have "hd ys \<in> live m" "last ys \<in> live m"
    using assms(1,2) by (auto intro!: dll_live(2))
  ultimately show ?thesis
    using assms(3,4) by (simp add: internal_list_splice_def fault_simps)
qed

lemma internal_list_splice_ok:
  assumes l: "dll m l ys" "ys \<noteq> []" and h: "dll m h (bs @ cs)"
    and disj: "set (l # ys) \<inter> set (h # bs @ cs) = {}"
  shows "\<exists>m'. internal_list_splice l (last (h # bs)) (hd (cs @ [h])) m = Some m' \<and>
    dll m' h (bs @ ys @ cs) \<and> links_outside (set (h # ys @ bs @ cs)) m m'"
proof -
  obtain a b where ab: "a = last (h # bs)" "b = hd (cs @ [h])" by blast
  have mem: "a \<in> set (h # bs)" "b \<in> set (h # cs)" "hd ys \<in> set ys" "last ys \<in> set ys"
    using last_in_set [of "h # bs"] hd_in_set [of "cs @ [h]"] l(2) ab by auto
  have lv: "a \<in> live m" "b \<in> live m"
    using mem(1,2) h by (auto simp: dll_def)
  have neq: "a \<notin> set ys" "b \<notin> set ys"
    using mem(1,2) disj by auto
  let ?m = "m\<lparr>prevf := (prevf m)(hd ys \<mapsto> a, b \<mapsto> last ys),
              nextf := (nextf m)(a \<mapsto> hd ys, last ys \<mapsto> b)\<rparr>"
  have "seg ?m ys"
    by (rule seg_reends [OF dll_inner_seg [OF l(1)]]) (use l(1) neq in \<open>auto simp: dll_def\<close>)
  moreover have "linked ?m a (hd ys)" "linked ?m (last ys) b"
    using neq mem(3,4) by (auto simp: linked_def)
  ultimately have "seg ?m (a # ys @ [b])"
    using l(2) by (simp add: seg_ends)
  then have "dll ?m h (bs @ ys @ cs)"
    unfolding ab using l(1) h disj mem(3,4)
    by - (rule dll_surgery [where m = m and mid = "[]"], simp_all add: dll_def, auto)
  moreover have "links_outside (set (h # ys @ bs @ cs)) m ?m"
    using mem by (auto simp: links_outside_def)
  ultimately show ?thesis
    unfolding ab [symmetric] using internal_list_splice_eval [OF l lv] by blast
qed

lemma list_splice_ok:
  assumes "dll m l ys" "dll m h xs" "set (l # ys) \<inter> set (h # xs) = {}"
  shows "\<exists>m'. list_splice l h m = Some m' \<and> dll m' h (ys @ xs) \<and>
    links_outside (set (h # ys @ xs)) m m'"
  using assms internal_list_splice_ok [of m l ys h "[]" xs]
  by (cases "ys = []") (auto simp: list_splice_def list_empty_ok fault_simps dll_live dll_next_head)

lemma list_splice_tail_ok:
  assumes "dll m l ys" "dll m h xs" "set (l # ys) \<inter> set (h # xs) = {}"
  shows "\<exists>m'. list_splice_tail l h m = Some m' \<and> dll m' h (xs @ ys) \<and>
    links_outside (set (h # ys @ xs)) m m'"
proof -
  have "rd_prev m h = Some (last (h # xs))"
    using assms(2) by (simp only: rd_prev_live dll_live dll_prev_head)
  then show ?thesis
    using assms internal_list_splice_ok [of m l ys h xs "[]"]
    by (cases "ys = []") (auto simp: list_splice_tail_def list_empty_ok simp del: last.simps)
qed

text \<open>The \<open>_init\<close> variants leave an empty list behind.\<close>

lemma reinit_ok:
  assumes "dll m h zs" "links_outside S m0 m" "l \<in> live m0" "l \<notin> set (h # zs)"
  shows "\<exists>m'. INIT_LIST_HEAD l m = Some m' \<and> dll m' h zs \<and> dll m' l [] \<and>
    links_outside (insert l S) m0 m'"
proof -
  obtain m' where m': "INIT_LIST_HEAD l m = Some m'" "dll m' l []" "links_outside {l} m m'"
    using INIT_LIST_HEAD_ok [of l m] assms(2,3) by (auto simp: links_outside_def)
  have "dll m' h zs"
    by (rule dll_frame [OF assms(1) m'(3)]) (use assms(4) in auto)
  moreover have "links_outside (insert l S) m0 m'"
    using assms(2) m'(3) by (auto simp: links_outside_def)
  ultimately show ?thesis using m' by blast
qed

lemma list_splice_init_ok:
  assumes "dll m l ys" "dll m h xs" "set (l # ys) \<inter> set (h # xs) = {}"
  shows "\<exists>m'. list_splice_init l h m = Some m' \<and> dll m' h (ys @ xs) \<and> dll m' l [] \<and>
    links_outside (insert l (set (h # ys @ xs))) m m'"
proof (cases "ys = []")
  case True
  with assms show ?thesis by (simp add: list_splice_init_def list_empty_ok)
next
  case False
  then obtain m1 where m1: "internal_list_splice l h (hd (xs @ [h])) m = Some m1"
    "dll m1 h (ys @ xs)" "links_outside (set (h # ys @ xs)) m m1"
    using assms internal_list_splice_ok [of m l ys h "[]" xs] by auto
  have "l \<in> live m" "l \<notin> set (h # ys @ xs)"
    using assms(1,3) by (auto simp: dll_def)
  then show ?thesis
    using reinit_ok [OF m1(2,3)] m1(1) assms False
    by (auto simp: list_splice_init_def list_empty_ok fault_simps dll_live dll_next_head)
qed

lemma list_splice_tail_init_ok:
  assumes "dll m l ys" "dll m h xs" "set (l # ys) \<inter> set (h # xs) = {}"
  shows "\<exists>m'. list_splice_tail_init l h m = Some m' \<and> dll m' h (xs @ ys) \<and> dll m' l [] \<and>
    links_outside (insert l (set (h # ys @ xs))) m m'"
proof (cases "ys = []")
  case True
  with assms show ?thesis by (simp add: list_splice_tail_init_def list_empty_ok)
next
  case False
  have rd: "rd_prev m h = Some (last (h # xs))"
    using assms(2) by (simp only: rd_prev_live dll_live dll_prev_head)
  obtain m1 where m1: "internal_list_splice l (last (h # xs)) h m = Some m1"
    "dll m1 h (xs @ ys)" "links_outside (set (h # ys @ xs)) m m1"
    using False assms internal_list_splice_ok [of m l ys h xs "[]"] by auto
  have "l \<in> live m" "l \<notin> set (h # xs @ ys)"
    using assms(1,3) by (auto simp: dll_def)
  then show ?thesis
    using reinit_ok [OF m1(2,3)] m1(1) assms False
    by (auto simp: list_splice_tail_init_def list_empty_ok rd simp del: last.simps)
qed

lemma internal_list_cut_position_ok:
  assumes h: "dll m h (bs @ e # cs)" and l: "l \<in> live m" "l \<notin> set (h # bs @ e # cs)"
  shows "\<exists>m'. internal_list_cut_position l h e m = Some m' \<and> dll m' l (bs @ [e]) \<and> dll m' h cs \<and>
    links_outside (set (l # h # bs @ e # cs)) m m'"
proof -
  obtain f n where f: "f = hd (bs @ [e])" and n: "n = hd (cs @ [h])" by blast
  have mem: "f \<in> set (bs @ [e])" "n \<in> set (cs @ [h])"
    using hd_in_set [of "bs @ [e]"] hd_in_set [of "cs @ [h]"] f n by auto
  have dist: "distinct (h # bs @ e # cs)" "set (h # bs @ e # cs) \<subseteq> live m"
    using h by (auto simp: dll_def)
  have reads: "rd_next m e = Some n" "rd_next m h = Some f"
    using dll_entry_reads(2) [OF h] dll_next_head [OF h] dll_live(1) [OF h] f n
    by (auto simp: fault_simps hd_append)
  let ?m = "m\<lparr>nextf := (nextf m)(l \<mapsto> f, e \<mapsto> l, h \<mapsto> n),
              prevf := (prevf m)(f \<mapsto> l, l \<mapsto> e, n \<mapsto> h)\<rparr>"
  have "f \<in> live m" "n \<in> live m" "e \<in> live m" "h \<in> live m"
    using mem dist(2) by auto
  then have ev: "internal_list_cut_position l h e m = Some ?m"
    using reads l(1) by (simp add: internal_list_cut_position_def fault_simps)
  have fn: "f \<noteq> n" "f \<noteq> l" "n \<noteq> l" "n \<noteq> e" "h \<noteq> e" "l \<noteq> h" "l \<noteq> e" "f \<noteq> h"
    using mem dist l(2) by auto
  have seg: "seg m ((h # bs) @ e # (cs @ [h]))"
    using h by (simp add: dll_def)
  then have "seg m ((h # bs) @ [e])"
    using seg_append by blast
  then have "seg m (bs @ [e])"
    by (cases "bs @ [e]") auto
  then have "seg ?m (bs @ [e])"
    by (rule seg_reends) (use dist l(2) mem fn in \<open>auto simp flip: f\<close>)
  moreover have "linked ?m l (hd (bs @ [e]))" "linked ?m (last (bs @ [e])) l"
    using fn by (auto simp: linked_def simp flip: f)
  ultimately have "seg ?m (l # (bs @ [e]) @ [l])"
    by (subst seg_ends) simp_all
  then have "dll ?m l (bs @ [e])"
    using dist l by (auto simp: dll_def)
  moreover have "dll ?m h ([] @ [] @ cs)"
  proof (rule dll_surgery [where m = m and mid = "bs @ [e]"])
    show "dll m h ([] @ (bs @ [e]) @ cs)"
      using h by simp
    show "seg ?m (last [h] # [] @ [hd (cs @ [h])])"
      using fn by (simp add: linked_def flip: n)
  qed (use fn mem(1) dist(1) l(2) in \<open>auto simp flip: n\<close>)
  moreover have "links_outside (set (l # h # bs @ e # cs)) m ?m"
    using mem by (auto simp: links_outside_def)
  ultimately show ?thesis
    using ev by auto
qed

lemma list_cut_position_ok:
  assumes h: "dll m h (bs @ e # cs)" and l: "l \<in> live m" "l \<notin> set (h # bs @ e # cs)"
  shows "\<exists>m'. list_cut_position l h e m = Some m' \<and> dll m' l (bs @ [e]) \<and> dll m' h cs \<and>
    links_outside (set (l # h # bs @ e # cs)) m m'"
proof -
  have "length (bs @ e # cs) = 1 \<Longrightarrow> hd (bs @ e # cs) = e"
    by auto
  moreover have "e \<noteq> h"
    using h by (auto simp: dll_def)
  ultimately have "list_cut_position l h e m = internal_list_cut_position l h e m"
    using h list_empty_ok [OF h] list_is_singular_ok [OF h] dll_next_head [OF h] dll_live(1) [OF h]
    by (auto simp: list_cut_position_def fault_simps)
  then show ?thesis
    using internal_list_cut_position_ok [OF assms] by simp
qed

text \<open>With the head itself as the cut point nothing is cut off a non-empty list.\<close>

lemma list_cut_position_head:
  assumes h: "dll m h xs" and "xs \<noteq> []" and l: "l \<in> live m" "l \<notin> set (h # xs)"
  shows "\<exists>m'. list_cut_position l h h m = Some m' \<and> dll m' l [] \<and> dll m' h xs"
proof -
  have "list_cut_position l h h m = INIT_LIST_HEAD l m"
    using assms(2) list_empty_ok [OF h] list_is_singular_ok [OF h] dll_next_head [OF h]
      dll_live(1) [OF h]
    by (auto simp: list_cut_position_def fault_simps)
  then show ?thesis
    using reinit_ok [OF h links_outside_refl l] by auto
qed

subsection \<open>Iteration\<close>

text \<open>
  What a \<open>list_for_each\<close> loop computes, as a fold over the sequence: the body is run on each
  entry in order until it leaves the loop.
\<close>

fun each :: "(addr \<Rightarrow> 'a mem \<times> 's \<Rightarrow> (('a mem \<times> 's) + 'r) option) \<Rightarrow> addr list \<Rightarrow> 'a mem \<times> 's \<Rightarrow>
   (('a mem \<times> 's) + 'r) option" where
  "each body [] ms = Some (Inl ms)"
| "each body (x # xs) ms = do {
     r \<leftarrow> body x ms;
     case r of Inr v \<Rightarrow> Some (Inr v) | Inl ms' \<Rightarrow> each body xs ms' }"

text \<open>A body that, as long as the loop goes on, keeps the links of the memory.\<close>

definition keeps_links :: "(addr \<Rightarrow> 'a mem \<times> 's \<Rightarrow> (('a mem \<times> 's) + 'r) option) \<Rightarrow> bool" where
  "keeps_links body \<longleftrightarrow> (\<forall>p ms ms'. body p ms = Some (Inl ms') \<longrightarrow>
     live (fst ms') = live (fst ms) \<and> nextf (fst ms') = nextf (fst ms) \<and>
     prevf (fst ms') = prevf (fst ms))"

lemma list_for_each_from_eq:
  assumes "keeps_links body" "h \<notin> set xs" "set xs \<subseteq> live (fst ms)" "xs \<noteq> [] \<longrightarrow> seg (fst ms) (xs @ [h])"
  shows "list_for_each_from body h (hd (xs @ [h])) ms = each body xs ms"
  using assms
proof (induction xs arbitrary: ms)
  case Nil
  then show ?case by (simp add: list_for_each_from.simps)
next
  case (Cons x xs)
  have nx: "nextf (fst ms) x = Some (hd (xs @ [h]))"
    using Cons.prems(4) seg_next [of "fst ms" x "xs @ [h]"] by simp
  have rest: "seg (fst ms) (xs @ [h])"
    using Cons.prems(4) by (cases "xs @ [h]") auto
  have step: "rd_next (fst ms') x = Some (hd (xs @ [h])) \<and>
      list_for_each_from body h (hd (xs @ [h])) ms' = each body xs ms'"
    if "body x ms = Some (Inl ms')" for ms'
  proof -
    have *: "live (fst ms') = live (fst ms)" "nextf (fst ms') = nextf (fst ms)"
      "prevf (fst ms') = prevf (fst ms)"
      using that Cons.prems(1) unfolding keeps_links_def by blast+
    then have "seg (fst ms') (xs @ [h])"
      using rest by (auto intro: seg_cong_I)
    with * Cons.prems nx show ?thesis
      by (auto simp: fault_simps intro!: Cons.IH)
  qed
  show ?case
    using Cons.prems(2) step
    by (subst list_for_each_from.simps)
      (auto simp: Option.bind_eq_Some_conv split: bind_splits sum.splits)
qed

lemma list_for_each_eq:
  assumes "dll (fst ms) h xs" "keeps_links body"
  shows "list_for_each body h ms = each body xs ms"
proof -
  have "xs \<noteq> [] \<longrightarrow> seg (fst ms) (xs @ [h])"
    using assms(1) by (cases xs) (auto simp: dll_def)
  moreover have "h \<notin> set xs" "set xs \<subseteq> live (fst ms)"
    using assms(1) by (auto simp: dll_def)
  ultimately show ?thesis
    using list_for_each_from_eq [of body h xs ms] assms(2) dll_next_head [OF assms(1)]
      dll_live(1) [OF assms(1)]
    by (simp add: list_for_each_def fault_simps)
qed

text \<open>A list none of whose blocks are touched keeps its entries and their payloads.\<close>

lemma dll_same_outside:
  assumes "dll m g ys" "same_outside S m m'" "set (g # ys) \<inter> S = {}"
  shows "dll m' g ys" "map (dataf m') ys = map (dataf m) ys"
proof -
  have "seg m' (g # ys @ [g]) = seg m (g # ys @ [g])"
    using assms(2,3) by (intro seg_cong) (auto simp: same_outside_def dest: in_set_butlastD)
  with assms show "dll m' g ys"
    by (auto simp: dll_def same_outside_def)
  show "map (dataf m') ys = map (dataf m) ys"
    using assms(2,3) by (auto simp: same_outside_def)
qed

text \<open>Which blocks the operations allocate and free, whatever they work on.\<close>

lemma writes_live:
  "wr_next p v m = Some m' \<Longrightarrow> live m' = live m" "wr_prev p v m = Some m' \<Longrightarrow> live m' = live m"
  "wr_data p d m = Some m' \<Longrightarrow> live m' = live m" "live (mem_malloc p m) \<subseteq> insert p (live m)"
  "mem_free p m = Some m' \<Longrightarrow> live m' \<subseteq> live m"
  by (auto simp: access_defs split: if_splits)

lemmas list_op_defs = list_add_tail_def list_add_def internal_list_add_def list_del_def internal_list_del_def INIT_LIST_HEAD_def

lemma list_ops_live:
  "list_add_tail p h m = Some m' \<Longrightarrow> live m' = live m" "list_add p h m = Some m' \<Longrightarrow> live m' = live m"
  "list_del p m = Some m' \<Longrightarrow> live m' = live m" "INIT_LIST_HEAD p m = Some m' \<Longrightarrow> live m' = live m"
  by (auto simp: list_op_defs bind_eq_Some_conv dest!: writes_live(1-3))

text \<open>A condition that every round of a traversal keeps.\<close>

lemma traverse_keeps:
  assumes "list_for_each body h ms = Some r" "I ms"
    and step: "\<And>p ms r. I ms \<Longrightarrow> body p ms = Some r \<Longrightarrow> case r of Inl ms' \<Rightarrow> I ms' | Inr v \<Rightarrow> J v"
  shows "case r of Inl ms' \<Rightarrow> I ms' | Inr v \<Rightarrow> J v"
proof -
  let ?Q = "\<lambda>r. case r of Inl ms' \<Rightarrow> I ms' | Inr v \<Rightarrow> J v"
  have rest: "I ms \<Longrightarrow> ?Q r" if "list_for_each_from body h n ms = Some r" for n ms r
  proof -
    have "body = body \<longrightarrow> I ms \<longrightarrow> ?Q r"
    proof (rule list_for_each_from.raw_induct [where P = "\<lambda>b h n ms r. b = body \<longrightarrow> I ms \<longrightarrow> ?Q r", OF _ that], intro impI, goal_cases)
      case (1 f b h n ms r)
      then show ?case
        using step [of ms n] by (fastforce simp: bind_eq_Some_conv split: if_splits sum.splits)
    qed
    then show "I ms \<Longrightarrow> ?Q r" by simp
  qed
  obtain n where "list_for_each_from body h n ms = Some r" using assms(1) by (auto simp: list_for_each_def bind_eq_Some_conv)
  then show ?thesis using rest assms(2) by blast
qed

section \<open>Properties\<close>

text \<open>A memory with the list \<open>2, 3\<close> at head \<open>1\<close>, the list \<open>11\<close> at head \<open>10\<close>, and a list head \<open>20\<close>.\<close>

definition two_lists :: "nat mem" where
  "two_lists = \<lparr>live = {1, 2, 3, 10, 11, 20},
     nextf = [1 \<mapsto> 2, 2 \<mapsto> 3, 3 \<mapsto> 1, 10 \<mapsto> 11, 11 \<mapsto> 10],
     prevf = [1 \<mapsto> 3, 2 \<mapsto> 1, 3 \<mapsto> 2, 10 \<mapsto> 11, 11 \<mapsto> 10],
     dataf = [2 \<mapsto> 5, 3 \<mapsto> 7]\<rparr>"

lemma two_lists_facts:
  "dll two_lists 1 [2, 3]" "dll two_lists 10 [11]" "20 \<in> live two_lists"
  by (simp_all add: two_lists_def dll_def linked_def)

text \<open>
  Moving an entry with \<open>list_move\<close> or \<open>list_move_tail\<close> takes it out of the list it is in and
  makes it the first or the last entry of another list; both lists stay well linked, keep the
  order of their other entries, and no link outside the two lists changes.
\<close>

theorem list_move_between_lists:
  assumes "dll m g (bs @ e # cs)" "dll m h xs" "set (g # bs @ e # cs) \<inter> set (h # xs) = {}"
  shows "(\<exists>m'. list_move e h m = Some m' \<and> dll m' g (bs @ cs) \<and> dll m' h (e # xs) \<and>
      links_outside (set (g # bs @ e # cs) \<union> set (h # xs)) m m') \<and>
    (\<exists>m'. list_move_tail e h m = Some m' \<and> dll m' g (bs @ cs) \<and> dll m' h (xs @ [e]) \<and>
      links_outside (set (g # bs @ e # cs) \<union> set (h # xs)) m m')"
  using list_move_ok [OF assms] list_move_tail_ok [OF assms] by blast

theorem list_move_between_lists_witness:
  "\<exists>m'. list_move_tail 2 10 two_lists = Some m' \<and> dll m' 1 [3] \<and> dll m' 10 [11, 2]"
  using list_move_between_lists [of two_lists 1 "[]" 2 "[3]" 10 "[11]"] two_lists_facts by auto

text \<open>
  C34. \<open>list_cut_position\<close> moves the entries up to and including \<open>e\<close> to another head, and
  \<open>list_splice_init\<close> undoes it: the original list is back in its order and the other head is an
  empty list again.
\<close>

theorem list_cut_splice_roundtrip:
  assumes h: "dll m h (bs @ e # cs)" and l: "l \<in> live m" "l \<notin> set (h # bs @ e # cs)"
  shows "\<exists>m1 m2. list_cut_position l h e m = Some m1 \<and> dll m1 l (bs @ [e]) \<and> dll m1 h cs \<and>
    list_splice_init l h m1 = Some m2 \<and> dll m2 h (bs @ e # cs) \<and> dll m2 l [] \<and>
    links_outside (set (l # h # bs @ e # cs)) m m2"
proof -
  obtain m1 where m1: "list_cut_position l h e m = Some m1" "dll m1 l (bs @ [e])" "dll m1 h cs"
    "links_outside (set (l # h # bs @ e # cs)) m m1"
    using list_cut_position_ok [OF assms] by blast
  have "set (l # bs @ [e]) \<inter> set (h # cs) = {}"
    using h l(2) by (auto simp: dll_def)
  then obtain m2 where m2: "list_splice_init l h m1 = Some m2" "dll m2 h ((bs @ [e]) @ cs)" "dll m2 l []"
    "links_outside (insert l (set (h # (bs @ [e]) @ cs))) m1 m2"
    using list_splice_init_ok [OF m1(2,3)] by blast
  have "links_outside (set (l # h # bs @ e # cs)) m m2"
    by (rule links_outside_trans [OF m1(4)], rule links_outside_mono [OF m2(4)]) auto
  with m1 m2 show ?thesis by auto
qed

theorem list_cut_splice_roundtrip_witness:
  "\<exists>m1 m2. list_cut_position 20 1 2 two_lists = Some m1 \<and> dll m1 20 [2] \<and> dll m1 1 [3] \<and>
    list_splice_init 20 1 m1 = Some m2 \<and> dll m2 1 [2, 3] \<and> dll m2 20 []"
  using list_cut_splice_roundtrip [of two_lists 1 "[]" 2 "[3]" 20] two_lists_facts by auto

text \<open>
  \<open>list_add_tail\<close> appends a new entry, \<open>list_del\<close> takes any entry out and poisons its links, so
  that a second \<open>list_del\<close> of the same entry is a fault (the poison addresses being unmapped).
\<close>

theorem list_add_tail_del:
  assumes "dll m h xs" "new \<in> live m" "new \<notin> set (h # xs)" "LIST_POISON2 \<notin> live m"
  shows "\<exists>m1. list_add_tail new h m = Some m1 \<and> dll m1 h (xs @ [new]) \<and>
    (\<forall>e ds us. xs @ [new] = us @ e # ds \<longrightarrow>
      (\<exists>m2. list_del e m1 = Some m2 \<and> dll m2 h (us @ ds) \<and> list_del e m2 = None))"
proof -
  obtain m1 where m1: "list_add_tail new h m = Some m1" "dll m1 h (xs @ [new])"
    "links_outside (set (h # new # xs)) m m1"
    using list_add_tail_ok [OF assms(1-3)] by blast
  have "\<exists>m2. list_del e m1 = Some m2 \<and> dll m2 h (us @ ds) \<and> list_del e m2 = None"
    if eq: "xs @ [new] = us @ e # ds" for e us ds
  proof -
    obtain m2 where m2: "list_del e m1 = Some m2" "dll m2 h (us @ ds)" "nextf m2 e = Some LIST_POISON1"
      "prevf m2 e = Some LIST_POISON2" "links_outside (set (h # us @ e # ds)) m1 m2"
      using list_del_ok [of m1 h us e ds] m1(2) eq by auto
    have live: "LIST_POISON2 \<notin> live m2" "LIST_POISON1 \<noteq> LIST_POISON2"
      using assms(4) m1(3) m2(5) by (auto simp: links_outside_def LIST_POISON1_def LIST_POISON2_def)
    have "list_del e m2 = None"
      using m2(3,4) live
      by (auto simp: list_del_def internal_list_del_def access_defs split: if_splits option.splits bind_splits)
    with m2 show ?thesis by blast
  qed
  with m1 show ?thesis by blast
qed

theorem list_add_tail_del_witness:
  "\<exists>m1 m2. list_add_tail 20 1 two_lists = Some m1 \<and> dll m1 1 [2, 3, 20] \<and>
    list_del 3 m1 = Some m2 \<and> dll m2 1 [2, 20] \<and> list_del 3 m2 = None"
proof -
  have "LIST_POISON2 \<notin> live two_lists" by (simp add: LIST_POISON2_def two_lists_def)
  then obtain m1 where m1: "list_add_tail 20 1 two_lists = Some m1" "dll m1 1 [2, 3, 20]"
    "\<forall>e ds us. [2, 3, 20] = us @ e # ds \<longrightarrow>
      (\<exists>m2. list_del e m1 = Some m2 \<and> dll m2 1 (us @ ds) \<and> list_del e m2 = None)"
    using list_add_tail_del [of two_lists 1 "[2, 3]" 20] two_lists_facts by auto
  have "\<exists>m2. list_del 3 m1 = Some m2 \<and> dll m2 1 ([2] @ [20]) \<and> list_del 3 m2 = None"
    using m1(3) [rule_format, of "[2]" 3 "[20]"] by simp
  with m1 show ?thesis by simp
qed

primrec rotate_times :: "nat \<Rightarrow> addr \<Rightarrow> 'a mem \<Rightarrow> 'a mem option" where
  "rotate_times 0 h m = Some m"
| "rotate_times (Suc n) h m = do { m \<leftarrow> list_rotate_left h m; rotate_times n h m }"

text \<open>
  Rotating a list to the left \<open>n\<close> times is \<open>rotate n\<close> on its entries; as many rotations as
  there are entries restore it.
\<close>

theorem list_rotate_left_cycles:
  assumes "dll m h xs"
  shows "\<exists>m'. rotate_times n h m = Some m' \<and> dll m' h (rotate n xs) \<and> (n = length xs \<longrightarrow> dll m' h xs) \<and>
    links_outside (set (h # xs)) m m'"
proof -
  have "\<exists>m'. rotate_times n h m = Some m' \<and> dll m' h (rotate n xs) \<and> links_outside (set (h # xs)) m m'"
    using assms
  proof (induction n arbitrary: m xs)
    case (Suc n)
    obtain m1 where m1: "list_rotate_left h m = Some m1" "dll m1 h (rotate1 xs)" "links_outside (set (h # xs)) m m1"
      using list_rotate_left_ok [OF Suc.prems] by blast
    obtain m' where "rotate_times n h m1 = Some m'" "dll m' h (rotate n (rotate1 xs))"
      "links_outside (set (h # rotate1 xs)) m1 m'"
      using Suc.IH [OF m1(2)] by blast
    with m1 show ?case
      using links_outside_trans [OF m1(3)] by (auto simp: rotate1_rotate_swap)
  qed auto
  then show ?thesis by auto
qed

theorem list_rotate_left_cycles_witness:
  "\<exists>m'. rotate_times 1 1 two_lists = Some m' \<and> dll m' 1 [3, 2]"
  using list_rotate_left_cycles [of two_lists 1 "[2, 3]" 1] two_lists_facts(1) by auto

end
