(* ===== verification/Node_Queue.thy ===== *)
theory Node_Queue
  imports List_Head
begin

text \<open>
  The queues of heap-allocated nodes linked by \<open>list.h\<close>. Four of them occur in the code
  (message and task queues of \<open>socket\<close> and of \<open>socket_udp\<close>); this theory holds what they share:
  the result codes, the drain loops of their destructors, the two memory transactions
  (allocate-fill-link, unlink-free), and the interface that the thread pools and the message
  processing rely on, as a locale.
\<close>

type_synonym 'a enq = "addr \<Rightarrow> 'a obj option \<Rightarrow> addr \<Rightarrow> 'a mem \<Rightarrow> (queue_ret_t \<times> 'a mem) option"
type_synonym 'a deq = "addr \<Rightarrow> 'a obj option \<Rightarrow> 'a mem \<Rightarrow> (queue_ret_t \<times> 'a obj option \<times> 'a mem) option"

text \<open>\<open>if (out) *out = node->payload;\<close>\<close>

definition copy_out :: "'a obj option \<Rightarrow> addr \<Rightarrow> 'a mem \<Rightarrow> 'a obj option option" where
  "copy_out out node m =
     (case out of None \<Rightarrow> Some None | Some _ \<Rightarrow> map_option Some (rd_data m node))"

text \<open>\<open>while (de (queue, NULL) == QUEUE_SUCCESS) { }\<close>\<close>

partial_function (option) drain_while_success :: "'a deq \<Rightarrow> addr \<Rightarrow> 'a mem \<Rightarrow> 'a mem option" where
  "drain_while_success de q m = do {
     (r, _, m) \<leftarrow> de q None m;
     if r = QUEUE_SUCCESS then drain_while_success de q m else Some m }"

text \<open>\<open>while (de (queue, NULL) != QUEUE_EMPTY) { }\<close>\<close>

partial_function (option) drain_until_empty :: "'a deq \<Rightarrow> addr \<Rightarrow> 'a mem \<Rightarrow> 'a mem option" where
  "drain_until_empty de q m = do {
     (r, _, m) \<leftarrow> de q None m;
     if r \<noteq> QUEUE_EMPTY then drain_until_empty de q m else Some m }"

section \<open>What a queue head represents\<close>

text \<open>The nodes of the queue in dequeue order, and their payloads.\<close>

definition qnodes :: "'a mem \<Rightarrow> addr \<Rightarrow> addr list \<Rightarrow> bool" where
  "qnodes m q xs \<longleftrightarrow> dll m q xs \<and> NULL \<notin> live m"

definition qdata :: "'a mem \<Rightarrow> addr list \<Rightarrow> 'a obj list" where
  "qdata m xs = map (dataf m) xs"

lemma qdata_simps [simp]: "qdata m [] = []" "qdata m (x # xs) = dataf m x # qdata m xs"
  "qdata m (xs @ ys) = qdata m xs @ qdata m ys" "length (qdata m xs) = length xs"
  by (simp_all add: qdata_def)

lemma qnodes_nonnull: "qnodes m q xs \<Longrightarrow> q \<noteq> NULL" "qnodes m q xs \<Longrightarrow> x \<in> set xs \<Longrightarrow> x \<noteq> NULL"
  by (auto simp: qnodes_def dll_def)

lemma qnodes_frame:
  assumes "qnodes m q xs" "same_outside S m m'" "set (q # xs) \<inter> S = {}" "NULL \<notin> live m'"
  shows "qnodes m' q xs \<and> qdata m' xs = qdata m xs"
  using dll_same_outside [OF _ assms(2,3)] assms(1,4) by (simp add: qnodes_def qdata_def)

text \<open>Allocate a node, fill it, and link it with \<open>list_add\<close> or \<open>list_add_tail\<close>.\<close>

lemma node_filled:
  assumes "dll m q xs" "NULL \<notin> live m" "fresh m p"
  obtains m1 where "wr_data p d (mem_malloc p m) = Some m1" "dll m1 q xs" "map (dataf m1) xs = map (dataf m) xs"
    "dataf m1 p = d" "p \<in> live m1" "p \<notin> set (q # xs)" "live m1 = insert p (live m)" "same_outside {p} m m1"
proof -
  have p: "p \<noteq> NULL" "p \<notin> live m" "p \<notin> set (q # xs)"
    using assms by (auto simp: fresh_def dll_def)
  let ?m = "(mem_malloc p m)\<lparr>dataf := (dataf (mem_malloc p m))(p := d)\<rparr>"
  have ev: "wr_data p d (mem_malloc p m) = Some ?m"
    using p(1) by (simp add: fault_simps)
  have same: "same_outside {p} m ?m"
    using p(1) by (simp add: same_outside_def)
  show thesis
    using that [OF ev] dll_same_outside [OF assms(1) same] p same by auto
qed

lemma node_insert_tail:
  assumes q: "qnodes m q xs" and "fresh m p"
  shows "\<exists>m1 m'. wr_data p d (mem_malloc p m) = Some m1 \<and> list_add_tail p q m1 = Some m' \<and>
    qnodes m' q (xs @ [p]) \<and> qdata m' (xs @ [p]) = qdata m xs @ [d] \<and>
    live m' = insert p (live m) \<and> same_outside (set (q # p # xs)) m m'"
proof -
  obtain m1 where m1: "wr_data p d (mem_malloc p m) = Some m1" "dll m1 q xs"
    "map (dataf m1) xs = map (dataf m) xs" "dataf m1 p = d" "p \<in> live m1" "p \<notin> set (q # xs)"
    "live m1 = insert p (live m)" "same_outside {p} m m1"
    using node_filled [of m q xs p d] assms unfolding qnodes_def by blast
  obtain m' where m': "list_add_tail p q m1 = Some m'" "dll m' q (xs @ [p])"
    "links_outside (set (q # p # xs)) m1 m'"
    using list_add_tail_ok [OF m1(2,5,6)] by blast
  have "same_outside (set (q # p # xs)) m m'"
    by (rule same_outside_trans [OF m1(8) links_same_outside [OF m'(3)]]) auto
  moreover have "dataf m' = dataf m1" "live m' = live m1"
    using m'(3) by (simp_all add: links_outside_def)
  ultimately show ?thesis
    using m1 m' q assms(2) by (auto simp: qnodes_def qdata_def fresh_def)
qed

lemma node_insert_head:
  assumes q: "qnodes m q xs" and "fresh m p"
  shows "\<exists>m1 m'. wr_data p d (mem_malloc p m) = Some m1 \<and> list_add p q m1 = Some m' \<and>
    qnodes m' q (p # xs) \<and> qdata m' (p # xs) = d # qdata m xs \<and>
    live m' = insert p (live m) \<and> same_outside (set (q # p # xs)) m m'"
proof -
  obtain m1 where m1: "wr_data p d (mem_malloc p m) = Some m1" "dll m1 q xs"
    "map (dataf m1) xs = map (dataf m) xs" "dataf m1 p = d" "p \<in> live m1" "p \<notin> set (q # xs)"
    "live m1 = insert p (live m)" "same_outside {p} m m1"
    using node_filled [of m q xs p d] assms unfolding qnodes_def by blast
  obtain m' where m': "list_add p q m1 = Some m'" "dll m' q (p # xs)"
    "links_outside (set (q # p # xs)) m1 m'"
    using list_add_ok [OF m1(2,5,6)] by blast
  have "same_outside (set (q # p # xs)) m m'"
    by (rule same_outside_trans [OF m1(8) links_same_outside [OF m'(3)]]) auto
  moreover have "dataf m' = dataf m1" "live m' = live m1"
    using m'(3) by (simp_all add: links_outside_def)
  ultimately show ?thesis
    using m1 m' q assms(2) by (auto simp: qnodes_def qdata_def fresh_def)
qed

text \<open>Unlink an entry and free its node.\<close>

lemma node_remove:
  assumes q: "qnodes m q (bs @ x # cs)"
  shows "\<exists>m1 m'. list_del x m = Some m1 \<and> mem_free x m1 = Some m' \<and>
    qnodes m' q (bs @ cs) \<and> qdata m' (bs @ cs) = qdata m (bs @ cs) \<and>
    live m' = live m - {x} \<and> same_outside (set (q # bs @ x # cs)) m m'"
proof -
  obtain m1 where m1: "list_del x m = Some m1" "dll m1 q (bs @ cs)"
    "links_outside (set (q # bs @ x # cs)) m m1"
    using list_del_ok [of m q bs x cs] q by (auto simp: qnodes_def)
  then have 2: "dataf m1 = dataf m" "live m1 = live m"
    by (simp_all add: links_outside_def)
  have x: "x \<noteq> NULL" "x \<in> live m1" "x \<notin> set (q # bs @ cs)"
    using q 2 by (auto simp: qnodes_def dll_def)
  then obtain m' where m': "mem_free x m1 = Some m'" "live m' = live m1 - {x}" "same_outside {x} m1 m'"
    using mem_free_ok by blast
  have "same_outside (set (q # bs @ x # cs)) m m'"
    by (rule same_outside_trans [OF links_same_outside [OF m1(3)] m'(3)]) auto
  moreover have "dll m' q (bs @ cs)" "map (dataf m') (bs @ cs) = map (dataf m1) (bs @ cs)"
    using dll_same_outside [OF m1(2) m'(3)] x(3) by auto
  ultimately show ?thesis
    using m1(1) m' 2 q by (auto simp: qnodes_def qdata_def)
qed

lemma qnodes_first:
  assumes "qnodes m q (x # xs)"
  shows "rd_next m q = Some x" "rd_data m x = Some (dataf m x)"
  using assms dll_next_head [of m q "x # xs"] by (auto simp: qnodes_def fault_simps dll_live)

lemma head_init:
  assumes "fresh m p" "NULL \<notin> live m"
  shows "\<exists>m'. INIT_LIST_HEAD p (mem_malloc p m) = Some m' \<and> qnodes m' p [] \<and>
    live m' = insert p (live m) \<and> same_outside {p} m m'"
proof -
  have p: "p \<noteq> NULL" using assms(1) by (simp add: fresh_def)
  obtain m' where m': "INIT_LIST_HEAD p (mem_malloc p m) = Some m'" "dll m' p []"
    "links_outside {p} (mem_malloc p m) m'"
    using INIT_LIST_HEAD_ok [of p "mem_malloc p m"] p by auto
  have "same_outside {p} m m'"
    by (rule same_outside_trans [OF malloc_same_outside links_same_outside [OF m'(3)]]) simp
  moreover have "live m' = insert p (live m)"
    using m'(3) p by (simp add: links_outside_def)
  ultimately show ?thesis
    using m' assms p by (auto simp: qnodes_def)
qed

lemma first_removed:
  assumes "qnodes m q (x # xs)"
  shows "list_empty q m = Some False" "rd_next m q = Some x"
    "copy_out out x m = Some (map_option (\<lambda>_. dataf m x) out)"
  using assms qnodes_first [OF assms]
  by (auto simp: list_empty_ok qnodes_def copy_out_def split: option.split)

section \<open>Searching a list\<close>

text \<open>A search loop passes the entries it is not looking for and leaves at the first hit.\<close>

lemma each_pass:
  "(\<And>b. b \<in> set bs \<Longrightarrow> body b ms = Some (Inl ms)) \<Longrightarrow> each body (bs @ ys) ms = each body ys ms"
  by (induction bs) auto

lemma scan_hit:
  assumes "qnodes (fst ms) h (bs @ x # ys)" "keeps_links body"
    "\<And>b. b \<in> set bs \<Longrightarrow> body b ms = Some (Inl ms)" "body x ms = Some (Inr v)"
  shows "list_for_each body h ms = Some (Inr v)"
  using list_for_each_eq [of ms h "bs @ x # ys" body] each_pass [of bs body ms "x # ys"] assms
  by (simp add: qnodes_def)

lemma scan_miss:
  assumes "qnodes (fst ms) h xs" "keeps_links body" "\<And>b. b \<in> set xs \<Longrightarrow> body b ms = Some (Inl ms)"
  shows "list_for_each body h ms = Some (Inl ms)"
  using list_for_each_eq [of ms h xs body] each_pass [of xs body ms "[]"] assms
  by (simp add: qnodes_def)

text \<open>The nodes around the first payload with a property.\<close>

lemma split_nodes:
  assumes "qdata m xs = map Some (as @ c # cs)"
  shows "\<exists>bs x ys. xs = bs @ x # ys \<and> qdata m bs = map Some as \<and> dataf m x = Some c \<and> qdata m ys = map Some cs"
proof -
  have "map (dataf m) xs = map Some as @ Some c # map Some cs"
    using assms by (simp add: qdata_def)
  then obtain bs zs where "xs = bs @ zs" "map (dataf m) bs = map Some as" "map (dataf m) zs = Some c # map Some cs"
    unfolding map_eq_append_conv by metis
  moreover from this obtain x ys where "zs = x # ys" "dataf m x = Some c" "map (dataf m) ys = map Some cs"
    by (auto simp: map_eq_Cons_conv)
  ultimately show ?thesis
    unfolding qdata_def by metis
qed

lemma payload_of_node:
  assumes "qdata m xs = map Some cs" "x \<in> set xs"
  shows "\<exists>c \<in> set cs. dataf m x = Some c"
proof -
  have "dataf m x \<in> set (map Some cs)" using assms by (metis image_eqI qdata_def set_map)
  then show ?thesis by auto
qed

section \<open>Clients of a queue: filling and emptying it\<close>

fun enq_all :: "'a enq \<Rightarrow> addr \<Rightarrow> ('a obj \<times> addr) list \<Rightarrow> 'a mem \<Rightarrow> 'a mem option" where
  "enq_all en q [] m = Some m"
| "enq_all en q ((d, p) # dps) m = do {
     (r, m) \<leftarrow> en q (Some d) p m;
     if r = QUEUE_SUCCESS then enq_all en q dps m else None }"

fun deq_all :: "'a deq \<Rightarrow> addr \<Rightarrow> nat \<Rightarrow> 'a mem \<Rightarrow> ('a obj list \<times> 'a mem) option" where
  "deq_all de q 0 m = Some ([], m)"
| "deq_all de q (Suc n) m = do {
     (r, out, m) \<leftarrow> de q (Some None) m;
     if r = QUEUE_SUCCESS
     then do { (ds, m) \<leftarrow> deq_all de q n m; Some (the out # ds, m) }
     else None }"

section \<open>The queue interface\<close>

text \<open>
  The contract of a node queue. \<open>put\<close> says where in dequeue order a new node goes. No operation
  touches a block outside the queue's own nodes, its head and the block being allocated.
\<close>

locale node_queue =
  fixes enq :: "'a enq" and deq :: "'a deq" and put :: "addr \<Rightarrow> addr list \<Rightarrow> addr list"
  assumes enq_ok: "qnodes m q xs \<Longrightarrow> fresh m p \<Longrightarrow>
      \<exists>m'. enq q (Some d) p m = Some (QUEUE_SUCCESS, m') \<and> qnodes m' q (put p xs) \<and>
        dataf m' p = d \<and> qdata m' xs = qdata m xs \<and> live m' = insert p (live m) \<and>
        same_outside (set (q # p # xs)) m m'"
    and enq_null: "enq NULL dp p m = Some (QUEUE_ERROR, m)"
    and deq_ok: "qnodes m q (x # xs) \<Longrightarrow>
      \<exists>m'. deq q out m = Some (QUEUE_SUCCESS, map_option (\<lambda>_. dataf m x) out, m') \<and>
        qnodes m' q xs \<and> qdata m' xs = qdata m xs \<and> live m' = live m - {x} \<and>
        same_outside (set (q # x # xs)) m m'"
    and deq_empty: "qnodes m q [] \<Longrightarrow> deq q out m = Some (QUEUE_EMPTY, out, m)"
    and deq_null: "deq NULL out m = Some (QUEUE_ERROR, out, m)"
    and set_put: "set (put p xs) = insert p (set xs)"
begin

lemma drain_while_success_ok:
  "qnodes m q xs \<Longrightarrow> \<exists>m'. drain_while_success deq q m = Some m' \<and> qnodes m' q [] \<and>
     live m' = live m - set xs \<and> same_outside (set (q # xs)) m m'"
proof (induction xs arbitrary: m)
  case Nil
  then show ?case by (subst drain_while_success.simps) (simp add: deq_empty)
next
  case (Cons x xs)
  obtain m1 where m1: "deq q None m = Some (QUEUE_SUCCESS, None, m1)" "qnodes m1 q xs"
    "live m1 = live m - {x}" "same_outside (set (q # x # xs)) m m1"
    using deq_ok [OF Cons.prems, of None] by auto
  obtain m' where m': "drain_while_success deq q m1 = Some m'" "qnodes m' q []"
    "live m' = live m1 - set xs" "same_outside (set (q # xs)) m1 m'"
    using Cons.IH [OF m1(2)] by blast
  have "same_outside (set (q # x # xs)) m m'"
    by (rule same_outside_trans [OF m1(4) m'(4)]) auto
  with m1 m' show ?case
    by (subst drain_while_success.simps) auto
qed

lemma drain_until_empty_ok:
  "qnodes m q xs \<Longrightarrow> \<exists>m'. drain_until_empty deq q m = Some m' \<and> qnodes m' q [] \<and>
     live m' = live m - set xs \<and> same_outside (set (q # xs)) m m'"
proof (induction xs arbitrary: m)
  case Nil
  then show ?case by (subst drain_until_empty.simps) (simp add: deq_empty)
next
  case (Cons x xs)
  obtain m1 where m1: "deq q None m = Some (QUEUE_SUCCESS, None, m1)" "qnodes m1 q xs"
    "live m1 = live m - {x}" "same_outside (set (q # x # xs)) m m1"
    using deq_ok [OF Cons.prems, of None] by auto
  obtain m' where m': "drain_until_empty deq q m1 = Some m'" "qnodes m' q []"
    "live m' = live m1 - set xs" "same_outside (set (q # xs)) m1 m'"
    using Cons.IH [OF m1(2)] by blast
  have "same_outside (set (q # x # xs)) m m'"
    by (rule same_outside_trans [OF m1(4) m'(4)]) auto
  with m1 m' show ?case
    by (subst drain_until_empty.simps) auto
qed

text \<open>Draining and freeing the head releases exactly the queue's blocks.\<close>

lemma drained_free:
  assumes "qnodes m q xs" "qnodes m1 q []" "live m1 = live m - set xs" "same_outside (set (q # xs)) m m1"
  shows "\<exists>m'. mem_free q m1 = Some m' \<and> live m' = live m - set (q # xs) \<and>
    same_outside (set (q # xs)) m m'"
proof -
  have "q \<in> live m1" "q \<noteq> NULL"
    using assms(2) qnodes_nonnull by (auto simp: qnodes_def dll_def)
  then obtain m' where m': "mem_free q m1 = Some m'" "live m' = live m1 - {q}" "same_outside {q} m1 m'"
    using mem_free_ok by blast
  have "same_outside (set (q # xs)) m m'"
    by (rule same_outside_trans [OF assms(4) m'(3)]) auto
  with m' assms(3) show ?thesis by auto
qed

lemma deq_all_ok:
  "qnodes m q (xs @ ys) \<Longrightarrow> \<exists>m'. deq_all deq q (length xs) m = Some (qdata m xs, m') \<and>
     qnodes m' q ys \<and> qdata m' ys = qdata m ys"
proof (induction xs arbitrary: m)
  case (Cons x xs)
  obtain m1 where m1: "deq q (Some None) m = Some (QUEUE_SUCCESS, Some (dataf m x), m1)"
    "qnodes m1 q (xs @ ys)" "qdata m1 (xs @ ys) = qdata m (xs @ ys)"
    using deq_ok [of m q x "xs @ ys" "Some None"] Cons.prems by auto
  then have "qdata m1 xs = qdata m xs" "qdata m1 ys = qdata m ys"
    by (simp_all add: qdata_def)
  with Cons.IH [OF m1(2)] m1(1) show ?case by auto
qed auto

end

text \<open>Queues whose new nodes go to the end, and queues whose new nodes go to the front.\<close>

locale fifo_queue = node_queue enq deq "\<lambda>p xs. xs @ [p]"
  for enq :: "'a enq" and deq :: "'a deq"
begin

lemma enq_all_ok:
  "qnodes m q xs \<Longrightarrow> distinct ps \<Longrightarrow> (\<And>p. p \<in> set ps \<Longrightarrow> fresh m p) \<Longrightarrow> length ds = length ps \<Longrightarrow>
   \<exists>m'. enq_all enq q (zip ds ps) m = Some m' \<and> qnodes m' q (xs @ ps) \<and>
     qdata m' (xs @ ps) = qdata m xs @ ds"
proof (induction ps arbitrary: m xs ds)
  case (Cons p ps)
  then obtain d ds' where ds: "ds = d # ds'" "length ds' = length ps"
    by (cases ds) auto
  obtain m1 where m1: "enq q (Some d) p m = Some (QUEUE_SUCCESS, m1)" "qnodes m1 q (xs @ [p])"
    "dataf m1 p = d" "qdata m1 xs = qdata m xs" "live m1 = insert p (live m)"
    using enq_ok [of m q xs p d] Cons.prems by auto
  have "fresh m1 p'" if "p' \<in> set ps" for p'
    using Cons.prems(2,3) that m1(5) by (auto simp: fresh_def)
  then obtain m' where "enq_all enq q (zip ds' ps) m1 = Some m'" "qnodes m' q ((xs @ [p]) @ ps)"
    "qdata m' ((xs @ [p]) @ ps) = qdata m1 (xs @ [p]) @ ds'"
    using Cons.IH [OF m1(2), of ds'] Cons.prems(2) ds by auto
  then show ?case
    using m1 ds(1) by auto
qed auto

text \<open>First in, first out: what was queued comes out in the order it was put in.\<close>

lemma fifo_order:
  assumes "qnodes m q xs" "distinct ps" "\<And>p. p \<in> set ps \<Longrightarrow> fresh m p" "length ds = length ps"
  shows "\<exists>m1 m2. enq_all enq q (zip ds ps) m = Some m1 \<and>
    deq_all deq q (length xs + length ps) m1 = Some (qdata m xs @ ds, m2) \<and> qnodes m2 q []"
proof -
  obtain m1 where m1: "enq_all enq q (zip ds ps) m = Some m1" "qnodes m1 q ((xs @ ps) @ [])"
    "qdata m1 (xs @ ps) = qdata m xs @ ds"
    using enq_all_ok [OF assms] by auto
  then show ?thesis
    using deq_all_ok [OF m1(2)] by auto
qed

end

locale lifo_queue = node_queue enq deq "\<lambda>p xs. p # xs"
  for enq :: "'a enq" and deq :: "'a deq"
begin

lemma enq_all_ok:
  "qnodes m q xs \<Longrightarrow> distinct ps \<Longrightarrow> (\<And>p. p \<in> set ps \<Longrightarrow> fresh m p) \<Longrightarrow> length ds = length ps \<Longrightarrow>
   \<exists>m'. enq_all enq q (zip ds ps) m = Some m' \<and> qnodes m' q (rev ps @ xs) \<and>
     qdata m' (rev ps @ xs) = rev ds @ qdata m xs"
proof (induction ps arbitrary: m xs ds)
  case (Cons p ps)
  then obtain d ds' where ds: "ds = d # ds'" "length ds' = length ps"
    by (cases ds) auto
  obtain m1 where m1: "enq q (Some d) p m = Some (QUEUE_SUCCESS, m1)" "qnodes m1 q (p # xs)"
    "dataf m1 p = d" "qdata m1 xs = qdata m xs" "live m1 = insert p (live m)"
    using enq_ok [of m q xs p d] Cons.prems by auto
  have "fresh m1 p'" if "p' \<in> set ps" for p'
    using Cons.prems(2,3) that m1(5) by (auto simp: fresh_def)
  then obtain m' where "enq_all enq q (zip ds' ps) m1 = Some m'" "qnodes m' q (rev ps @ p # xs)"
    "qdata m' (rev ps @ p # xs) = rev ds' @ qdata m1 (p # xs)"
    using Cons.IH [OF m1(2), of ds'] Cons.prems(2) ds by auto
  then show ?case
    using m1 ds(1) by auto
qed auto

lemma lifo_order:
  assumes "qnodes m q xs" "distinct ps" "\<And>p. p \<in> set ps \<Longrightarrow> fresh m p" "length ds = length ps"
  shows "\<exists>m1 m2. enq_all enq q (zip ds ps) m = Some m1 \<and>
    deq_all deq q (length ps + length xs) m1 = Some (rev ds @ qdata m xs, m2) \<and> qnodes m2 q []"
proof -
  obtain m1 where m1: "enq_all enq q (zip ds ps) m = Some m1" "qnodes m1 q ((rev ps @ xs) @ [])"
    "qdata m1 (rev ps @ xs) = rev ds @ qdata m xs"
    using enq_all_ok [OF assms] by auto
  then show ?thesis
    using deq_all_ok [OF m1(2)] by auto
qed

end

end
