(* ===== verification/Socket_Queues.thy ===== *)
theory Socket_Queues
  imports Node_Queue
begin

text \<open>
  The message queue (\<open>socket/common/sock_msg/msg_queue\<close>) and the task queue
  (\<open>socket/common/thread_pool/task_queue\<close>) of the \<open>socket\<close> program. Neither looks into the
  payload it stores, so the payload is a type variable. The address that the \<open>malloc\<close> of a call
  returns is a parameter of the operation.

  The task queue appends with \<open>list_add_tail\<close> and takes from the front: it is first in, first
  out. The message queue inserts with \<open>list_add\<close>, at the front it also takes from.
\<close>

section \<open>Message queue\<close>

definition init_msg_queue :: "addr \<Rightarrow> 'a mem \<Rightarrow> (addr \<times> 'a mem) option" where
  "init_msg_queue p m = do {
     let m = mem_malloc p m;
     m \<leftarrow> INIT_LIST_HEAD p m;
     Some (p, m) }"

definition en_msg_to_queue :: "'a enq" where
  "en_msg_to_queue msg_queue msg_package p m =
     (case msg_package of None \<Rightarrow> Some (QUEUE_ERROR, m)
      | Some msg \<Rightarrow>
         if msg_queue = NULL then Some (QUEUE_ERROR, m)
         else do {
           let m = mem_malloc p m;
           m \<leftarrow> wr_data p msg m;
           m \<leftarrow> list_add p msg_queue m;
           Some (QUEUE_SUCCESS, m) })"

definition de_msg_from_queue :: "'a deq" where
  "de_msg_from_queue msg_queue msg_package m =
     (if msg_queue = NULL then Some (QUEUE_ERROR, msg_package, m)
      else do {
        e \<leftarrow> list_empty msg_queue m;
        if e then Some (QUEUE_EMPTY, msg_package, m)
        else do {
          node \<leftarrow> rd_next m msg_queue;
          out \<leftarrow> copy_out msg_package node m;
          m \<leftarrow> list_del node m;
          m \<leftarrow> mem_free node m;
          Some (QUEUE_SUCCESS, out, m) } })"

text \<open>The destructor gets the address of the queue pointer; the second result is its new value.\<close>

definition destroy_msg_queue :: "addr \<Rightarrow> 'a mem \<Rightarrow> (queue_ret_t \<times> addr \<times> 'a mem) option" where
  "destroy_msg_queue msg_queue m =
     (if msg_queue = NULL then Some (QUEUE_SUCCESS, msg_queue, m)
      else do {
        m \<leftarrow> drain_while_success de_msg_from_queue msg_queue m;
        m \<leftarrow> mem_free msg_queue m;
        Some (QUEUE_SUCCESS, NULL, m) })"

section \<open>Task queue\<close>

definition init_task_queue :: "addr \<Rightarrow> 'a mem \<Rightarrow> (addr \<times> 'a mem) option" where
  "init_task_queue p m = do {
     let m = mem_malloc p m;
     m \<leftarrow> INIT_LIST_HEAD p m;
     Some (p, m) }"

definition en_task_to_queue :: "'a enq" where
  "en_task_to_queue task_queue task p m =
     (case task of None \<Rightarrow> Some (QUEUE_ERROR, m)
      | Some t \<Rightarrow>
         if task_queue = NULL then Some (QUEUE_ERROR, m)
         else do {
           let m = mem_malloc p m;
           m \<leftarrow> wr_data p t m;
           m \<leftarrow> list_add_tail p task_queue m;
           Some (QUEUE_SUCCESS, m) })"

definition de_task_from_queue :: "'a deq" where
  "de_task_from_queue task_queue task m =
     (if task_queue = NULL then Some (QUEUE_ERROR, task, m)
      else do {
        e \<leftarrow> list_empty task_queue m;
        if e then Some (QUEUE_EMPTY, task, m)
        else do {
          node \<leftarrow> rd_next m task_queue;
          out \<leftarrow> copy_out task node m;
          m \<leftarrow> list_del node m;
          m \<leftarrow> mem_free node m;
          Some (QUEUE_SUCCESS, out, m) } })"

definition destroy_task_queue :: "addr \<Rightarrow> 'a mem \<Rightarrow> (queue_ret_t \<times> addr \<times> 'a mem) option" where
  "destroy_task_queue task_queue m =
     (if task_queue = NULL then Some (QUEUE_SUCCESS, task_queue, m)
      else do {
        m \<leftarrow> drain_while_success de_task_from_queue task_queue m;
        m \<leftarrow> mem_free task_queue m;
        Some (QUEUE_SUCCESS, NULL, m) })"

section \<open>Both satisfy the queue contract\<close>

interpretation msgq: lifo_queue en_msg_to_queue de_msg_from_queue
proof
  show "\<exists>m'. en_msg_to_queue q (Some d) p m = Some (QUEUE_SUCCESS, m') \<and> qnodes m' q (p # xs) \<and>
      dataf m' p = d \<and> qdata m' xs = qdata m xs \<and> live m' = insert p (live m) \<and>
      same_outside (set (q # p # xs)) m m'"
    if "qnodes m q xs" "fresh m p" for m :: "'a mem" and q xs p d
    using node_insert_head [OF that, of d] qnodes_nonnull(1) [OF that(1)]
    by (auto simp: en_msg_to_queue_def qdata_def)
  show "\<exists>m'. de_msg_from_queue q out m = Some (QUEUE_SUCCESS, map_option (\<lambda>_. dataf m x) out, m') \<and>
      qnodes m' q xs \<and> qdata m' xs = qdata m xs \<and> live m' = live m - {x} \<and>
      same_outside (set (q # x # xs)) m m'"
    if "qnodes m q (x # xs)" for m :: "'a mem" and q x xs out
    using node_remove [of m q "[]" x xs] that qnodes_nonnull(1) [OF that] first_removed [OF that]
    by (auto simp: de_msg_from_queue_def)
qed (auto simp: en_msg_to_queue_def de_msg_from_queue_def list_empty_ok qnodes_def
    dest: dll_live(1) split: option.split)

interpretation taskq: fifo_queue en_task_to_queue de_task_from_queue
proof
  show "\<exists>m'. en_task_to_queue q (Some d) p m = Some (QUEUE_SUCCESS, m') \<and> qnodes m' q (xs @ [p]) \<and>
      dataf m' p = d \<and> qdata m' xs = qdata m xs \<and> live m' = insert p (live m) \<and>
      same_outside (set (q # p # xs)) m m'"
    if "qnodes m q xs" "fresh m p" for m :: "'a mem" and q xs p d
    using node_insert_tail [OF that, of d] qnodes_nonnull(1) [OF that(1)]
    by (auto simp: en_task_to_queue_def qdata_def)
  show "\<exists>m'. de_task_from_queue q out m = Some (QUEUE_SUCCESS, map_option (\<lambda>_. dataf m x) out, m') \<and>
      qnodes m' q xs \<and> qdata m' xs = qdata m xs \<and> live m' = live m - {x} \<and>
      same_outside (set (q # x # xs)) m m'"
    if "qnodes m q (x # xs)" for m :: "'a mem" and q x xs out
    using node_remove [of m q "[]" x xs] that qnodes_nonnull(1) [OF that] first_removed [OF that]
    by (auto simp: de_task_from_queue_def)
qed (auto simp: en_task_to_queue_def de_task_from_queue_def list_empty_ok qnodes_def
    dest: dll_live(1) split: option.split)

section \<open>Properties\<close>

lemma two_lists_queue: "qnodes two_lists 1 [2, 3]" "qdata two_lists [2, 3] = [Some 5, Some 7]"
  "fresh two_lists 30" "fresh two_lists 31"
  using two_lists_facts(1) by (simp_all add: qnodes_def qdata_def fresh_def two_lists_def)

text \<open>
  The task queue is first in, first out: whatever is in it, tasks that are put in come out
  behind it in the order they were put in, every call succeeds, and the queue is empty afterwards.
\<close>

theorem task_queue_fifo:
  assumes "qnodes m q xs" "distinct ps" "\<And>p. p \<in> set ps \<Longrightarrow> fresh m p" "length ds = length ps"
  shows "\<exists>m1 m2. enq_all en_task_to_queue q (zip ds ps) m = Some m1 \<and>
    deq_all de_task_from_queue q (length xs + length ps) m1 = Some (qdata m xs @ ds, m2) \<and> qnodes m2 q []"
  using assms by (rule taskq.fifo_order)

theorem task_queue_fifo_witness:
  "\<exists>m1 m2. enq_all en_task_to_queue 1 [(Some 8, 30), (Some 9, 31)] two_lists = Some m1 \<and>
    deq_all de_task_from_queue 1 4 m1 = Some ([Some 5, Some 7, Some 8, Some 9], m2) \<and> qnodes m2 1 []"
  using task_queue_fifo [of two_lists 1 "[2, 3]" "[30, 31]" "[Some 8, Some 9]"] two_lists_queue
  by (auto simp: numeral_eq_Suc)

text \<open>
  The message queue is not: it inserts at the end it takes from, so messages put in come out in
  reverse order, and before the messages that were already waiting.
\<close>

theorem msg_queue_lifo:
  assumes "qnodes m q xs" "distinct ps" "\<And>p. p \<in> set ps \<Longrightarrow> fresh m p" "length ds = length ps"
  shows "\<exists>m1 m2. enq_all en_msg_to_queue q (zip ds ps) m = Some m1 \<and>
    deq_all de_msg_from_queue q (length ps + length xs) m1 = Some (rev ds @ qdata m xs, m2) \<and> qnodes m2 q []"
  using assms by (rule msgq.lifo_order)

theorem msg_queue_lifo_witness:
  "\<exists>m1 m2. enq_all en_msg_to_queue 1 [(Some 8, 30), (Some 9, 31)] two_lists = Some m1 \<and>
    deq_all de_msg_from_queue 1 4 m1 = Some ([Some 9, Some 8, Some 5, Some 7], m2) \<and> qnodes m2 1 []"
  using msg_queue_lifo [of two_lists 1 "[2, 3]" "[30, 31]" "[Some 8, Some 9]"] two_lists_queue
  by (auto simp: numeral_eq_Suc)

text \<open>
  Destroying a message or task queue returns, frees exactly the blocks of its nodes and its
  head, leaves every other block as it was, and resets the caller's pointer.
\<close>

theorem destroy_queue_exact:
  assumes "qnodes m q xs"
  shows "(\<exists>m'. destroy_msg_queue q m = Some (QUEUE_SUCCESS, NULL, m') \<and> live m' = live m - set (q # xs) \<and>
      same_outside (set (q # xs)) m m') \<and>
    (\<exists>m'. destroy_task_queue q m = Some (QUEUE_SUCCESS, NULL, m') \<and> live m' = live m - set (q # xs) \<and>
      same_outside (set (q # xs)) m m')"
proof -
  obtain m1 m2 where "drain_while_success de_msg_from_queue q m = Some m1" "mem_free q m1 = Some m2"
    "live m2 = live m - set (q # xs)" "same_outside (set (q # xs)) m m2"
    using msgq.drain_while_success_ok [OF assms] msgq.drained_free [OF assms] by metis
  moreover obtain m3 m4 where "drain_while_success de_task_from_queue q m = Some m3" "mem_free q m3 = Some m4"
    "live m4 = live m - set (q # xs)" "same_outside (set (q # xs)) m m4"
    using taskq.drain_while_success_ok [OF assms] taskq.drained_free [OF assms] by metis
  ultimately show ?thesis
    using qnodes_nonnull(1) [OF assms] by (simp add: destroy_msg_queue_def destroy_task_queue_def)
qed

theorem destroy_queue_exact_witness:
  "\<exists>m'. destroy_task_queue 1 two_lists = Some (QUEUE_SUCCESS, NULL, m') \<and> live m' = {10, 11, 20}"
proof -
  obtain m' where "destroy_task_queue 1 two_lists = Some (QUEUE_SUCCESS, NULL, m')"
    "live m' = live two_lists - set [1, 2, 3]"
    using destroy_queue_exact [OF two_lists_queue(1)] by blast
  then show ?thesis by (auto simp: two_lists_def)
qed

end
