(* ===== verification/Mutex.thy ===== *)
theory Mutex
  imports Prelude
begin

text \<open>
  The locking discipline shared by the two thread pools: workers and callers, each at a program
  counter of its own, of which the owner of one mutex is inside the critical section.
\<close>

datatype tid = Worker nat | Adder nat

text \<open>\<open>w_crit\<close> and \<open>a_crit\<close> say which program counters lie between lock and unlock.\<close>

definition lock_ok :: "('w \<Rightarrow> bool) \<Rightarrow> 'w list \<Rightarrow> ('a \<Rightarrow> bool) \<Rightarrow> 'a list \<Rightarrow> tid option \<Rightarrow> bool" where
  "lock_ok w_crit ws a_crit as mu \<longleftrightarrow>
     (\<forall>i < length ws. w_crit (ws ! i) \<longleftrightarrow> mu = Some (Worker i)) \<and>
     (\<forall>i < length as. a_crit (as ! i) \<longleftrightarrow> mu = Some (Adder i))"

text \<open>The three ways a step can touch the lock: leave it, take it, release it.\<close>

definition lock_change :: "tid \<Rightarrow> bool \<Rightarrow> bool \<Rightarrow> tid option \<Rightarrow> tid option \<Rightarrow> bool" where
  "lock_change t before after mu mu' \<longleftrightarrow>
     after = before \<and> mu' = mu \<or> \<not> before \<and> after \<and> mu = None \<and> mu' = Some t \<or>
     before \<and> \<not> after \<and> mu' = None"

lemma lock_ok_worker:
  assumes inv: "lock_ok wc ws ac as mu" and i: "i < length ws"
    and ch: "lock_change (Worker i) (wc (ws ! i)) (wc pc) mu mu'"
  shows "lock_ok wc (ws[i := pc]) ac as mu'"
proof -
  have w: "wc (ws ! j) \<longleftrightarrow> mu = Some (Worker j)" if "j < length ws" for j
    using inv that by (simp add: lock_ok_def)
  have a: "ac (as ! j) \<longleftrightarrow> mu = Some (Adder j)" if "j < length as" for j
    using inv that by (simp add: lock_ok_def)
  show ?thesis
    using ch i w [OF i] unfolding lock_ok_def lock_change_def
    by (auto simp: nth_list_update w a)
qed

lemma lock_ok_adder:
  assumes inv: "lock_ok wc ws ac as mu" and i: "i < length as"
    and ch: "lock_change (Adder i) (ac (as ! i)) (ac pc) mu mu'"
  shows "lock_ok wc ws ac (as[i := pc]) mu'"
proof -
  have w: "wc (ws ! j) \<longleftrightarrow> mu = Some (Worker j)" if "j < length ws" for j
    using inv that by (simp add: lock_ok_def)
  have a: "ac (as ! j) \<longleftrightarrow> mu = Some (Adder j)" if "j < length as" for j
    using inv that by (simp add: lock_ok_def)
  show ?thesis
    using ch i a [OF i] unfolding lock_ok_def lock_change_def
    by (auto simp: nth_list_update w a)
qed

text \<open>At most one thread is inside.\<close>

lemma lock_exclusive:
  assumes "lock_ok wc ws ac as mu"
  shows "i < length ws \<Longrightarrow> j < length ws \<Longrightarrow> wc (ws ! i) \<Longrightarrow> wc (ws ! j) \<Longrightarrow> i = j"
    and "i < length as \<Longrightarrow> j < length as \<Longrightarrow> ac (as ! i) \<Longrightarrow> ac (as ! j) \<Longrightarrow> i = j"
    and "i < length ws \<Longrightarrow> j < length as \<Longrightarrow> wc (ws ! i) \<Longrightarrow> \<not> ac (as ! j)"
  using assms by (auto simp: lock_ok_def)

text \<open>What all threads hold together, when one of them changes what it holds.\<close>

lemma mset_concat_update:
  "i < length xs \<Longrightarrow> mset (concat (map f (xs[i := y]))) + mset (f (xs ! i)) = mset (concat (map f xs)) + mset (f y)"
  by (induction xs arbitrary: i) (auto split: nat.split)

definition sum_of :: "('w \<Rightarrow> 'b list) \<Rightarrow> 'w list \<Rightarrow> 'b multiset" where
  "sum_of f ws = mset (concat (map f ws))"

lemma sum_of_simps [simp]: "sum_of f [] = {#}" "sum_of f (w # ws) = mset (f w) + sum_of f ws"
  by (simp_all add: sum_of_def)

lemma sum_of_update: "i < length ws \<Longrightarrow> sum_of f (ws[i := w]) + mset (f (ws ! i)) = sum_of f ws + mset (f w)"
  unfolding sum_of_def by (rule mset_concat_update)

lemma sum_of_same: "i < length ws \<Longrightarrow> f (ws ! i) = f w \<Longrightarrow> sum_of f (ws[i := w]) = sum_of f ws"
  using sum_of_update [of i ws f w] by simp

lemma sum_of_gain: "i < length ws \<Longrightarrow> f (ws ! i) = [] \<Longrightarrow> sum_of f (ws[i := w]) = sum_of f ws + mset (f w)"
  using sum_of_update [of i ws f w] by simp

lemma sum_of_lose: "i < length ws \<Longrightarrow> f w = [] \<Longrightarrow> sum_of f ws = sum_of f (ws[i := w]) + mset (f (ws ! i))"
  using sum_of_update [of i ws f w] by simp

lemma sum_of_empty: "(\<And>w. w \<in> set ws \<Longrightarrow> f w = []) \<Longrightarrow> sum_of f ws = {#}"
  by (induction ws) auto

lemma sum_of_replicate [simp]: "f w = [] \<Longrightarrow> sum_of f (replicate n w) = {#}"
  by (intro sum_of_empty) auto

end
