(* ===== verification/Socket_Pool.thy ===== *)
theory Socket_Pool
  imports Socket_Queues Mutex
begin

text \<open>
  The thread pool of the \<open>socket\<close> program (\<open>common/thread_pool\<close>) and the server's pool
  (\<open>server_pool\<close>). As in the UDP program, the callers and the workers are state machines with one
  step per access to shared state; here the counter of tasks is changed under the mutex, and the
  pool can own a copy of a task's argument, which the worker frees after the handler returned.
  A worker in \<open>pthread_cond_wait\<close> goes on only when a broadcast, or a spurious wake-up, has woken it.
\<close>

record 'h task_t =
  handler :: 'h
  arg :: addr
  arg_size :: nat

datatype 'h kpc = K_Lock | K_Test | K_Wait | K_Woken | K_DecRead "'h task_t" | K_DecWrite "'h task_t" "32 word"
  | K_Unlock "'h task_t" | K_Run "'h task_t" | K_Free "'h task_t"

datatype 'h cpc = C_Idle | C_Lock "'h task_t" | C_Enq "'h task_t" | C_IncRead | C_IncWrite "32 word"
  | C_Broadcast | C_Unlock

text \<open>
  \<open>args\<close> are the argument copies allocated by the pool. The last four fields record the tasks
  enqueued, the tasks dequeued, the calls of handlers with the argument block they saw, and the blocks of size 0
  that were allocated for an argument.
\<close>

record 'h spool =
  s_mutex :: "tid option"
  s_queue :: addr
  s_mem :: "'h task_t mem"
  cur_tasks_cnt :: "32 word"
  s_workers :: "'h kpc list"
  s_adders :: "'h cpc list"
  args :: "addr \<rightharpoonup> byte list"
  k_put :: "'h task_t list"
  k_got :: "'h task_t list"
  k_ran :: "('h task_t \<times> byte list option) list"
  k_empty :: "addr list"

abbreviation put_worker :: "nat \<Rightarrow> 'h kpc \<Rightarrow> 'h spool \<Rightarrow> 'h spool" where
  "put_worker i pc s \<equiv> s\<lparr>s_workers := (s_workers s)[i := pc]\<rparr>"

abbreviation put_adder :: "nat \<Rightarrow> 'h cpc \<Rightarrow> 'h spool \<Rightarrow> 'h spool" where
  "put_adder i pc s \<equiv> s\<lparr>s_adders := (s_adders s)[i := pc]\<rparr>"

text \<open>Whether the pool owns the argument of a task: \<open>task.arg_size > 0 && task.arg\<close>.\<close>

definition owned :: "'h task_t \<Rightarrow> bool" where
  "owned t \<longleftrightarrow> arg_size t > 0 \<and> arg t \<noteq> NULL"

section \<open>Steps\<close>

text \<open>A broadcast wakes every worker that waits; a woken worker still has to take the mutex.\<close>

fun wake :: "'h kpc \<Rightarrow> 'h kpc" where
  "wake K_Wait = K_Woken"
| "wake pc = pc"

definition wake_all :: "'h spool \<Rightarrow> 'h spool" where
  "wake_all s = s\<lparr>s_workers := map wake (s_workers s)\<rparr>"

text \<open>The worker; \<open>None\<close> when it is blocked or has run into undefined behaviour.\<close>

fun pool_task_process_thread_step :: "nat \<Rightarrow> 'h kpc \<Rightarrow> 'h spool \<Rightarrow> 'h spool option" where
  "pool_task_process_thread_step i K_Lock s =
     (if s_mutex s = None then Some (put_worker i K_Test (s\<lparr>s_mutex := Some (Worker i)\<rparr>)) else None)"
| "pool_task_process_thread_step i K_Test s = do {
     (r, task, m) \<leftarrow> de_task_from_queue (s_queue s) (Some None) (s_mem s);
     if r \<noteq> QUEUE_SUCCESS then Some (put_worker i K_Wait (s\<lparr>s_mem := m, s_mutex := None\<rparr>))
     else do {
       task \<leftarrow> task;
       task \<leftarrow> task;
       Some (put_worker i (K_DecRead task) (s\<lparr>s_mem := m, k_got := k_got s @ [task]\<rparr>)) } }"
| "pool_task_process_thread_step i K_Wait s = None"
| "pool_task_process_thread_step i K_Woken s =
     (if s_mutex s = None then Some (put_worker i K_Test (s\<lparr>s_mutex := Some (Worker i)\<rparr>)) else None)"
| "pool_task_process_thread_step i (K_DecRead task) s = Some (put_worker i (K_DecWrite task (cur_tasks_cnt s)) s)"
| "pool_task_process_thread_step i (K_DecWrite task c) s =
     Some (put_worker i (K_Unlock task) (s\<lparr>cur_tasks_cnt := c - 1\<rparr>))"
| "pool_task_process_thread_step i (K_Unlock task) s = Some (put_worker i (K_Run task) (s\<lparr>s_mutex := None\<rparr>))"
| "pool_task_process_thread_step i (K_Run task) s =
     Some (put_worker i (K_Free task) (s\<lparr>k_ran := k_ran s @ [(task, args s (arg task))]\<rparr>))"
| "pool_task_process_thread_step i (K_Free task) s =
     (if owned task then
        if args s (arg task) = None then None
        else Some (put_worker i K_Lock (s\<lparr>args := (args s)(arg task := None)\<rparr>))
      else Some (put_worker i K_Lock s))"

text \<open>The locked part of the two functions that add a task; \<open>p\<close> is the address of the new queue node.\<close>

fun add_task_to_pool_step :: "nat \<Rightarrow> addr \<Rightarrow> 'h cpc \<Rightarrow> 'h spool \<Rightarrow> 'h spool option" where
  "add_task_to_pool_step i p C_Idle s = None"
| "add_task_to_pool_step i p (C_Lock t) s =
     (if s_mutex s = None then Some (put_adder i (C_Enq t) (s\<lparr>s_mutex := Some (Adder i)\<rparr>)) else None)"
| "add_task_to_pool_step i p (C_Enq t) s = do {
     (r, m) \<leftarrow> en_task_to_queue (s_queue s) (Some (Some t)) p (s_mem s);
     if r = QUEUE_SUCCESS then Some (put_adder i C_IncRead (s\<lparr>s_mem := m, k_put := k_put s @ [t]\<rparr>))
     else Some (put_adder i C_Broadcast (s\<lparr>s_mem := m\<rparr>)) }"
| "add_task_to_pool_step i p C_IncRead s = Some (put_adder i (C_IncWrite (cur_tasks_cnt s)) s)"
| "add_task_to_pool_step i p (C_IncWrite c) s = Some (put_adder i C_Broadcast (s\<lparr>cur_tasks_cnt := c + 1\<rparr>))"
| "add_task_to_pool_step i p C_Broadcast s = Some (put_adder i C_Unlock (wake_all s))"
| "add_task_to_pool_step i p C_Unlock s = Some (put_adder i C_Idle (s\<lparr>s_mutex := None\<rparr>))"

text \<open>The start of \<open>add_task_to_pool_use_arg_mem\<close>: the argument stays the caller's.\<close>

definition add_task_to_pool_use_arg_mem :: "'h \<Rightarrow> addr \<Rightarrow> nat \<Rightarrow> 'h spool \<Rightarrow> 'h spool option" where
  "add_task_to_pool_use_arg_mem h a i s =
     Some (put_adder i (C_Lock \<lparr>handler = h, arg = a, arg_size = 0\<rparr>) s)"

text \<open>
  The start of \<open>add_task_to_pool_release_arg_mem\<close>: \<open>arg'\<close> is what the caller's pointer points to
  (\<open>None\<close> for NULL), \<open>a\<close> the address \<open>malloc(arg_size)\<close> returns for the copy, \<open>NULL\<close> if it fails. The block is
  allocated for every size, also 0, and filled when the size is positive.
\<close>

definition add_task_to_pool_release_arg_mem ::
  "'h \<Rightarrow> byte list option \<Rightarrow> nat \<Rightarrow> addr \<Rightarrow> nat \<Rightarrow> 'h spool \<Rightarrow> 'h spool option" where
  "add_task_to_pool_release_arg_mem h arg' n a i s =
     (let task = \<lparr>handler = h, arg = (case arg' of None \<Rightarrow> NULL | Some _ \<Rightarrow> a), arg_size = n\<rparr> in
      if arg task = NULL then Some (put_adder i (C_Lock task) s)
      else if owned task then do {
        bytes \<leftarrow> arg';
        copy \<leftarrow> buf_read bytes 0 n;
        Some (put_adder i (C_Lock task) (s\<lparr>args := (args s)(a \<mapsto> copy)\<rparr>)) }
      else Some (put_adder i (C_Lock task) (s\<lparr>args := (args s)(a \<mapsto> []), k_empty := k_empty s @ [a]\<rparr>)))"

text \<open>\<open>Spurious i\<close> is a wake-up of worker \<open>i\<close> without a broadcast, which POSIX allows.\<close>

datatype 'h spool_ev = Call_use nat 'h addr | Call_release nat 'h "byte list option" nat addr
  | Step_caller nat addr | Step_thread nat | Spurious nat

text \<open>One step of the pool. The addresses \<open>malloc\<close> chooses are fresh.\<close>

fun spool_step :: "'h spool_ev \<Rightarrow> 'h spool \<Rightarrow> 'h spool option" where
  "spool_step (Call_use i h a) s =
     (if i < length (s_adders s) \<and> s_adders s ! i = C_Idle then add_task_to_pool_use_arg_mem h a i s else None)"
| "spool_step (Call_release i h arg' n a) s =
     (if i < length (s_adders s) \<and> s_adders s ! i = C_Idle \<and> a \<notin> dom (args s)
      then add_task_to_pool_release_arg_mem h arg' n a i s else None)"
| "spool_step (Step_caller i p) s =
     (if i < length (s_adders s) \<and> fresh (s_mem s) p then add_task_to_pool_step i p (s_adders s ! i) s else None)"
| "spool_step (Step_thread i) s =
     (if i < length (s_workers s) then pool_task_process_thread_step i (s_workers s ! i) s else None)"
| "spool_step (Spurious i) s =
     (if i < length (s_workers s) \<and> s_workers s ! i = K_Wait then Some (put_worker i K_Woken s) else None)"

fun spool_run :: "'h spool_ev list \<Rightarrow> 'h spool \<Rightarrow> 'h spool option" where
  "spool_run [] s = Some s"
| "spool_run (e # es) s = do { s \<leftarrow> spool_step e s; spool_run es s }"

definition spool_init :: "nat \<Rightarrow> nat \<Rightarrow> addr \<Rightarrow> 'h spool" where
  "spool_init n k q = \<lparr>s_mutex = None, s_queue = q,
     s_mem = (case init_task_queue q empty_mem of Some (_, m) \<Rightarrow> m | None \<Rightarrow> empty_mem),
     cur_tasks_cnt = 0, s_workers = replicate n K_Lock, s_adders = replicate k C_Idle,
     args = Map.empty, k_put = [], k_got = [], k_ran = [], k_empty = []\<rparr>"

inductive spool_reachable :: "'h spool \<Rightarrow> 'h spool \<Rightarrow> bool" for s0 where
  start: "spool_reachable s0 s0"
| step: "spool_reachable s0 s \<Longrightarrow> spool_step e s = Some s' \<Longrightarrow> spool_reachable s0 s'"

section \<open>Creation and destruction\<close>

text \<open>
  The loop of \<open>create_thread_pool\<close>: a thread id is written for every attempt that succeeds; ids of
  failed attempts stay indeterminate (\<open>None\<close>), as \<open>tids\<close> comes from \<open>malloc\<close>.
\<close>

record 'h thread_pool_t =
  init_threads_cnt :: nat
  max_threads_cnt :: nat
  cur_threads_cnt :: nat
  tids :: "nat obj list"
  queue :: addr
  sp_mem :: "'h task_t mem"

fun create_threads :: "(nat \<Rightarrow> bool) \<Rightarrow> nat \<Rightarrow> nat \<Rightarrow> nat obj list \<times> nat \<Rightarrow> nat obj list \<times> nat" where
  "create_threads created i 0 tc = tc"
| "create_threads created i (Suc n) (ts, c) =
     create_threads created (i + 1) n (if created i then (ts[i := Some (i + 1)], c + 1) else (ts, c))"

definition create_thread_pool :: "bool \<Rightarrow> addr \<Rightarrow> (nat \<Rightarrow> bool) \<Rightarrow> nat \<Rightarrow> nat \<Rightarrow> 'h task_t mem \<Rightarrow> 'h thread_pool_t option" where
  "create_thread_pool ok q created initCnt maxCnt m =
     (if \<not> ok then None
      else do {
        (tq, m) \<leftarrow> init_task_queue q m;
        let (ts, c) = create_threads created 0 initCnt (replicate initCnt None, 0);
        Some \<lparr>init_threads_cnt = initCnt, max_threads_cnt = maxCnt, cur_threads_cnt = c, tids = ts,
              queue = tq, sp_mem = m\<rparr> })"

text \<open>The ids of the first \<open>n\<close> threads; cancelling an indeterminate id is undefined.\<close>

fun read_thread_ids :: "nat obj list \<Rightarrow> nat \<Rightarrow> nat list option" where
  "read_thread_ids ts 0 = Some []"
| "read_thread_ids ts (Suc n) = do { xs \<leftarrow> read_thread_ids ts n; t \<leftarrow> arr_get ts (int n); t \<leftarrow> t; Some (xs @ [t]) }"

definition destroy_thread_pool :: "'h thread_pool_t option \<Rightarrow> (nat list \<times> 'h task_t mem option \<times> 'h thread_pool_t option) option" where
  "destroy_thread_pool tp =
     (case tp of
        None \<Rightarrow> Some ([], None, None)
      | Some pool \<Rightarrow> do {
          ts \<leftarrow> read_thread_ids (tids pool) (cur_threads_cnt pool);
          (_, _, m) \<leftarrow> destroy_task_queue (queue pool) (sp_mem pool);
          Some (ts, Some m, None) })"

text \<open>\<open>server_pool.c\<close>: the server's pool is created on first use, and its destructor does nothing.\<close>

definition create_server_thread_pool ::
  "bool \<Rightarrow> addr \<Rightarrow> (nat \<Rightarrow> bool) \<Rightarrow> 'h task_t mem \<Rightarrow> 'h thread_pool_t option \<Rightarrow> 'h thread_pool_t option option" where
  "create_server_thread_pool ok q created m g_srv_thread_pool =
     (if g_srv_thread_pool \<noteq> None then Some g_srv_thread_pool
      else map_option Some (create_thread_pool ok q created 6 10 m))"

definition destroy_server_thread_pool :: "'h thread_pool_t option \<Rightarrow> 'h thread_pool_t option" where
  "destroy_server_thread_pool g_srv_thread_pool = g_srv_thread_pool"

section \<open>Invariants of every interleaving\<close>

fun k_critical :: "'h kpc \<Rightarrow> bool" where
  "k_critical K_Test = True"
| "k_critical (K_DecRead t) = True"
| "k_critical (K_DecWrite t c) = True"
| "k_critical (K_Unlock t) = True"
| "k_critical _ = False"

fun c_critical :: "'h cpc \<Rightarrow> bool" where
  "c_critical (C_Enq t) = True"
| "c_critical C_IncRead = True"
| "c_critical (C_IncWrite c) = True"
| "c_critical C_Broadcast = True"
| "c_critical C_Unlock = True"
| "c_critical _ = False"

definition slock_inv :: "'h spool \<Rightarrow> bool" where
  "slock_inv s \<longleftrightarrow> lock_ok k_critical (s_workers s) c_critical (s_adders s) (s_mutex s)"

text \<open>The queue holds the tasks put in and not yet taken out, \<open>ds\<close>.\<close>

definition squeue_inv :: "'h spool \<Rightarrow> 'h task_t list \<Rightarrow> bool" where
  "squeue_inv s ds \<longleftrightarrow> (\<exists>xs. qnodes (s_mem s) (s_queue s) xs \<and> qdata (s_mem s) xs = map Some ds \<and>
     k_put s = k_got s @ ds)"

text \<open>The tasks a worker has taken and not run; the argument copies a thread is responsible for.\<close>

fun k_held :: "'h kpc \<Rightarrow> 'h task_t list" where
  "k_held (K_DecRead t) = [t]"
| "k_held (K_DecWrite t c) = [t]"
| "k_held (K_Unlock t) = [t]"
| "k_held (K_Run t) = [t]"
| "k_held _ = []"

definition own :: "'h task_t \<Rightarrow> addr list" where
  "own t = (if owned t then [arg t] else [])"

fun k_own :: "'h kpc \<Rightarrow> addr list" where
  "k_own (K_Free t) = own t"
| "k_own pc = concat (map own (k_held pc))"

fun c_own :: "'h cpc \<Rightarrow> addr list" where
  "c_own (C_Lock t) = own t"
| "c_own (C_Enq t) = own t"
| "c_own _ = []"

text \<open>A task taken out but not yet subtracted, put in but not yet added.\<close>

fun k_dec :: "'h kpc \<Rightarrow> unit list" where
  "k_dec (K_DecRead t) = [()]"
| "k_dec (K_DecWrite t c) = [()]"
| "k_dec _ = []"

fun c_inc :: "'h cpc \<Rightarrow> unit list" where
  "c_inc C_IncRead = [()]"
| "c_inc (C_IncWrite c) = [()]"
| "c_inc _ = []"

definition sflight_inv :: "'h spool \<Rightarrow> bool" where
  "sflight_inv s \<longleftrightarrow> mset (k_got s) = mset (map fst (k_ran s)) + sum_of k_held (s_workers s)"

definition sargs_inv :: "'h spool \<Rightarrow> 'h task_t list \<Rightarrow> bool" where
  "sargs_inv s ds \<longleftrightarrow> finite (dom (args s)) \<and>
     mset_set (dom (args s)) = sum_of c_own (s_adders s) + mset (concat (map own ds)) + sum_of k_own (s_workers s) +
       mset (k_empty s)"

definition scount_inv :: "'h spool \<Rightarrow> 'h task_t list \<Rightarrow> bool" where
  "scount_inv s ds \<longleftrightarrow>
     cur_tasks_cnt s + of_nat (size (sum_of c_inc (s_adders s))) =
       of_nat (length ds) + of_nat (size (sum_of k_dec (s_workers s))) \<and>
     (\<forall>i t c. i < length (s_workers s) \<and> s_workers s ! i = K_DecWrite t c \<longrightarrow> c = cur_tasks_cnt s) \<and>
     (\<forall>i c. i < length (s_adders s) \<and> s_adders s ! i = C_IncWrite c \<longrightarrow> c = cur_tasks_cnt s)"

text \<open>Between putting a task in and the broadcast.\<close>

fun c_waking :: "'h cpc \<Rightarrow> bool" where
  "c_waking C_IncRead = True"
| "c_waking (C_IncWrite c) = True"
| "c_waking C_Broadcast = True"
| "c_waking _ = False"

text \<open>While tasks wait, no worker does, unless a broadcast is about to come.\<close>

definition swake_inv :: "'h spool \<Rightarrow> bool" where
  "swake_inv s \<longleftrightarrow> k_put s = k_got s \<or> (\<exists>c \<in> set (s_adders s). c_waking c) \<or> K_Wait \<notin> set (s_workers s)"

definition spool_inv :: "'h spool \<Rightarrow> bool" where
  "spool_inv s \<longleftrightarrow> slock_inv s \<and> sflight_inv s \<and> (\<exists>ds. squeue_inv s ds \<and> sargs_inv s ds \<and> scount_inv s ds)"

lemma de_task_cases:
  assumes "squeue_inv s ds"
  obtains (empty) "de_task_from_queue (s_queue s) (Some None) (s_mem s) = Some (QUEUE_EMPTY, Some None, s_mem s)" "ds = []"
    | (task) t ts m where "de_task_from_queue (s_queue s) (Some None) (s_mem s) = Some (QUEUE_SUCCESS, Some (Some t), m)"
      "ds = t # ts" "squeue_inv (s\<lparr>s_mem := m, k_got := k_got s @ [t]\<rparr>) ts"
proof -
  obtain xs where q: "qnodes (s_mem s) (s_queue s) xs" "qdata (s_mem s) xs = map Some ds" "k_put s = k_got s @ ds"
    using assms by (auto simp: squeue_inv_def)
  show thesis
  proof (cases xs)
    case Nil
    then show thesis using q empty taskq.deq_empty [of "s_mem s" "s_queue s"] by auto
  next
    case (Cons x ys)
    then obtain t ts where ds: "ds = t # ts" "dataf (s_mem s) x = Some t" "qdata (s_mem s) ys = map Some ts"
      using q(2) by (cases ds) auto
    obtain m where "de_task_from_queue (s_queue s) (Some None) (s_mem s) = Some (QUEUE_SUCCESS, Some (Some t), m)"
      "qnodes m (s_queue s) ys" "qdata m ys = map Some ts"
      using taskq.deq_ok [of "s_mem s" "s_queue s" x ys "Some None"] q(1) Cons ds by auto
    then show thesis using task q(3) ds(1) by (force simp: squeue_inv_def)
  qed
qed

lemma en_task_queue:
  assumes "squeue_inv s ds" "fresh (s_mem s) p"
  obtains m where "en_task_to_queue (s_queue s) (Some (Some t)) p (s_mem s) = Some (QUEUE_SUCCESS, m)"
    "squeue_inv (s\<lparr>s_mem := m, k_put := k_put s @ [t]\<rparr>) (ds @ [t])"
proof -
  obtain xs where q: "qnodes (s_mem s) (s_queue s) xs" "qdata (s_mem s) xs = map Some ds" "k_put s = k_got s @ ds"
    using assms(1) by (auto simp: squeue_inv_def)
  obtain m where m: "en_task_to_queue (s_queue s) (Some (Some t)) p (s_mem s) = Some (QUEUE_SUCCESS, m)"
    "qnodes m (s_queue s) (xs @ [p])" "dataf m p = Some t" "qdata m xs = qdata (s_mem s) xs"
    using taskq.enq_ok [OF q(1) assms(2)] by blast
  have "qdata m (xs @ [p]) = map Some (ds @ [t])"
    using m(3,4) q(2) by simp
  with m(1,2) q(3) show thesis
    by (intro that [of m]) (auto simp: squeue_inv_def)
qed

text \<open>The argument a worker is about to free is allocated.\<close>

lemma free_ok:
  assumes "sargs_inv s ds" "i < length (s_workers s)" "s_workers s ! i = K_Free t" "owned t"
  shows "arg t \<in> dom (args s)"
proof -
  have "arg t \<in># sum_of k_own (s_workers s)"
    using assms(2-4) by (force simp: sum_of_def own_def in_set_conv_nth)
  then have "arg t \<in># mset_set (dom (args s))"
    using assms(1) unfolding sargs_inv_def by (metis union_iff)
  moreover have "finite (dom (args s))" using assms(1) by (simp add: sargs_inv_def)
  ultimately show ?thesis by (simp only: finite_set_mset_mset_set)
qed

lemma size_sum_of_update:
  "i < length ws \<Longrightarrow> size (sum_of f (ws[i := w])) + length (f (ws ! i)) = size (sum_of f ws) + length (f w)"
  using arg_cong [OF sum_of_update [of i ws f w], of size] by simp

lemma balance:
  fixes c :: "'a :: ab_group_add"
  assumes "c + a = l + d" "d' + x = d + y" "c' + x + l = c + y + l'"
  shows "c' + a = l' + d'"
proof -
  have "(c' + a) + (x + l) = (c + a) + y + l'"
    using assms(3) by (simp add: ac_simps)
  also have "\<dots> = (d + y) + l + l'"
    using assms(1) by (simp add: ac_simps)
  also have "\<dots> = (l' + d') + (x + l)"
    unfolding assms(2) [symmetric] by (simp add: ac_simps)
  finally show ?thesis by simp
qed

lemma count_balance:
  assumes "(c :: 32 word) + of_nat a = of_nat l + of_nat d" "d' + x = d + y" "c' + of_nat x + of_nat l = c + of_nat y + of_nat l'"
  shows "c' + of_nat a = of_nat l' + of_nat d'"
  using balance [OF assms(1) _ assms(3), of "of_nat d'"] assms(2) by (metis of_nat_add)

lemma count_balance_inc:
  assumes "(c :: 32 word) + of_nat a = of_nat l + of_nat d" "a' + x = a + y" "c' + of_nat y + of_nat l = c + of_nat x + of_nat l'"
  shows "c' + of_nat a' = of_nat l' + of_nat d"
proof -
  have "of_nat l' + (of_nat d :: 32 word) = c' + of_nat a'"
  proof (rule balance)
    show "of_nat l + (of_nat d :: 32 word) = c + of_nat a" using assms(1) by simp
    show "of_nat a' + of_nat x = of_nat a + (of_nat y :: 32 word)" using assms(2) by (metis of_nat_add)
    show "of_nat l' + of_nat x + c = of_nat l + of_nat y + c'" using assms(3) by (simp add: ac_simps)
  qed
  then show ?thesis by simp
qed

lemma wake_same [simp]:
  "k_critical (wake w) = k_critical w" "k_held (wake w) = k_held w" "k_own (wake w) = k_own w" "k_dec (wake w) = k_dec w"
  "wake w = K_DecWrite t c \<longleftrightarrow> w = K_DecWrite t c" "wake w \<noteq> K_Wait"
  by (cases w; simp)+

lemma wake_all_inv: "spool_inv s \<Longrightarrow> spool_inv (wake_all s)"
proof -
  assume inv: "spool_inv s"
  have sum: "sum_of f (map wake ws) = sum_of f ws" if "\<And>w. f (wake w) = f w" for f :: "'a kpc \<Rightarrow> 'b list" and ws
    using that by (simp add: sum_of_def comp_def)
  have "squeue_inv (wake_all s) ds = squeue_inv s ds" "sargs_inv (wake_all s) ds = sargs_inv s ds"
    "scount_inv (wake_all s) ds = scount_inv s ds" for ds
    by (simp_all add: squeue_inv_def sargs_inv_def scount_inv_def wake_all_def sum cong: conj_cong)
  moreover have "slock_inv (wake_all s) = slock_inv s" "sflight_inv (wake_all s) = sflight_inv s"
    by (simp_all add: slock_inv_def lock_ok_def sflight_inv_def wake_all_def sum)
  ultimately show ?thesis using inv by (simp add: spool_inv_def)
qed

text \<open>A step of a worker keeps the invariant when its books balance.\<close>

lemma spool_inv_worker:
  assumes lock: "slock_inv s" and flight: "sflight_inv s" and args: "sargs_inv s ds" and count: "scount_inv s ds"
    and i: "i < length (s_workers s)" and pc0: "s_workers s ! i = pc0"
    and s': "s_workers s' = (s_workers s)[i := pc]" "s_adders s' = s_adders s"
      "k_got s' = k_got s @ got" "map fst (k_ran s') = map fst (k_ran s) @ fin" "squeue_inv s' ds'" "k_empty s' = k_empty s"
    and ch: "lock_change (Worker i) (k_critical pc0) (k_critical pc) (s_mutex s) (s_mutex s')"
    and bal1: "mset (k_held pc) + mset fin = mset (k_held pc0) + mset got"
    and bal2: "finite (dom (args s'))" "mset_set (dom (args s')) + mset (k_own pc0) + mset (concat (map own ds)) =
      mset_set (dom (args s)) + mset (k_own pc) + mset (concat (map own ds'))"
    and bal3: "cur_tasks_cnt s' + of_nat (length (k_dec pc0)) + of_nat (length ds) =
      cur_tasks_cnt s + of_nat (length (k_dec pc)) + of_nat (length ds')"
    and copy: "\<And>t c. pc = K_DecWrite t c \<Longrightarrow> c = cur_tasks_cnt s'" "cur_tasks_cnt s' = cur_tasks_cnt s \<or> k_critical pc0"
  shows "spool_inv s'"
proof -
  have lk: "lock_ok k_critical (s_workers s) c_critical (s_adders s) (s_mutex s)"
    using lock by (simp add: slock_inv_def)
  have 1: "slock_inv s'"
    using lock_ok_worker [OF lk i] ch pc0 s'(1,2) by (simp add: slock_inv_def)
  have "mset (k_got s @ got) + mset (k_held pc0) = mset (map fst (k_ran s)) + sum_of k_held (s_workers s) + mset (k_held pc) + mset fin"
    using flight bal1 by (simp add: sflight_inv_def ac_simps)
  also have "\<dots> = mset (map fst (k_ran s) @ fin) + sum_of k_held ((s_workers s)[i := pc]) + mset (k_held pc0)"
    using sum_of_update [OF i, of k_held pc] pc0 by (simp add: ac_simps)
  finally have 2: "sflight_inv s'"
    by (simp only: sflight_inv_def s' add_right_cancel)
  have "mset_set (dom (args s')) + mset (k_own pc0) + mset (concat (map own ds)) =
      sum_of c_own (s_adders s) + mset (concat (map own ds)) + (sum_of k_own (s_workers s) + mset (k_own pc)) + mset (concat (map own ds')) +
      mset (k_empty s)"
    using args bal2(2) by (simp add: sargs_inv_def ac_simps)
  also have "\<dots> = (sum_of c_own (s_adders s) + mset (concat (map own ds')) + sum_of k_own ((s_workers s)[i := pc]) + mset (k_empty s)) +
      mset (k_own pc0) + mset (concat (map own ds))"
    using sum_of_update [OF i, of k_own pc] pc0 by (simp add: ac_simps)
  finally have 3: "sargs_inv s' ds'"
    using bal2(1) by (simp only: sargs_inv_def s' add_right_cancel)
  have other: "\<not> k_critical (s_workers s ! j)" if "k_critical pc0" "j < length (s_workers s)" "j \<noteq> i" for j
    using lock_exclusive(1) [OF lk, of i j] i pc0 that by auto
  have nocall: "\<not> c_critical (s_adders s ! j)" if "k_critical pc0" "j < length (s_adders s)" for j
    using lock_exclusive(3) [OF lk, of i j] i pc0 that by auto
  have cnt: "cur_tasks_cnt s + of_nat (size (sum_of c_inc (s_adders s))) = of_nat (length ds) + of_nat (size (sum_of k_dec (s_workers s)))"
    and cw: "\<And>j t c. j < length (s_workers s) \<Longrightarrow> s_workers s ! j = K_DecWrite t c \<Longrightarrow> c = cur_tasks_cnt s"
    and cc: "\<And>j c. j < length (s_adders s) \<Longrightarrow> s_adders s ! j = C_IncWrite c \<Longrightarrow> c = cur_tasks_cnt s"
    using count by (auto simp: scount_inv_def)
  have "cur_tasks_cnt s' + of_nat (size (sum_of c_inc (s_adders s))) =
      of_nat (length ds') + of_nat (size (sum_of k_dec ((s_workers s)[i := pc])))"
    using count_balance [OF cnt size_sum_of_update [OF i, of k_dec pc]] bal3 pc0 by simp
  moreover have "c = cur_tasks_cnt s'" if "j < length (s_workers s)" "(s_workers s)[i := pc] ! j = K_DecWrite t c" for j t c
    using that copy cw [of j t c] other [of j] i by (cases "j = i") auto
  moreover have "c = cur_tasks_cnt s'" if "j < length (s_adders s)" "s_adders s ! j = C_IncWrite c" for j c
    using that copy(2) cc [of j c] nocall [of j] by auto
  ultimately have 4: "scount_inv s' ds'"
    by (auto simp: scount_inv_def s')
  show ?thesis using 1 2 3 4 s'(5) by (auto simp: spool_inv_def)
qed

lemma spool_inv_caller:
  assumes lock: "slock_inv s" and flight: "sflight_inv s" and args: "sargs_inv s ds" and count: "scount_inv s ds"
    and i: "i < length (s_adders s)" and pc0: "s_adders s ! i = pc0"
    and s': "s_adders s' = (s_adders s)[i := pc]" "s_workers s' = s_workers s"
      "k_got s' = k_got s" "k_ran s' = k_ran s" "squeue_inv s' ds'"
    and ch: "lock_change (Adder i) (c_critical pc0) (c_critical pc) (s_mutex s) (s_mutex s')"
    and bal2: "finite (dom (args s'))" "mset_set (dom (args s')) + mset (c_own pc0) + mset (concat (map own ds)) + mset (k_empty s) =
      mset_set (dom (args s)) + mset (c_own pc) + mset (concat (map own ds')) + mset (k_empty s')"
    and bal3: "cur_tasks_cnt s' + of_nat (length (c_inc pc)) + of_nat (length ds) =
      cur_tasks_cnt s + of_nat (length (c_inc pc0)) + of_nat (length ds')"
    and copy: "\<And>c. pc = C_IncWrite c \<Longrightarrow> c = cur_tasks_cnt s'" "cur_tasks_cnt s' = cur_tasks_cnt s \<or> c_critical pc0"
  shows "spool_inv s'"
proof -
  have lk: "lock_ok k_critical (s_workers s) c_critical (s_adders s) (s_mutex s)"
    using lock by (simp add: slock_inv_def)
  have 1: "slock_inv s'"
    using lock_ok_adder [OF lk i] ch pc0 s'(1,2) by (simp add: slock_inv_def)
  have 2: "sflight_inv s'"
    using flight by (simp add: sflight_inv_def s')
  have "mset_set (dom (args s')) + mset (c_own pc0) + mset (concat (map own ds)) + mset (k_empty s) =
      (sum_of c_own (s_adders s) + mset (c_own pc)) + mset (concat (map own ds)) + sum_of k_own (s_workers s) + mset (concat (map own ds')) +
      mset (k_empty s) + mset (k_empty s')"
    using args bal2(2) by (simp add: sargs_inv_def ac_simps)
  also have "\<dots> = (sum_of c_own ((s_adders s)[i := pc]) + mset (concat (map own ds')) + sum_of k_own (s_workers s) + mset (k_empty s')) +
      mset (c_own pc0) + mset (concat (map own ds)) + mset (k_empty s)"
    using sum_of_update [OF i, of c_own pc] pc0 by (simp add: ac_simps)
  finally have 3: "sargs_inv s' ds'"
    using bal2(1) by (simp only: sargs_inv_def s' add_right_cancel)
  have other: "\<not> c_critical (s_adders s ! j)" if "c_critical pc0" "j < length (s_adders s)" "j \<noteq> i" for j
    using lock_exclusive(2) [OF lk, of i j] i pc0 that by auto
  have nowork: "\<not> k_critical (s_workers s ! j)" if "c_critical pc0" "j < length (s_workers s)" for j
    using lock_exclusive(3) [OF lk, of j i] i pc0 that by auto
  have cnt: "cur_tasks_cnt s + of_nat (size (sum_of c_inc (s_adders s))) = of_nat (length ds) + of_nat (size (sum_of k_dec (s_workers s)))"
    and cw: "\<And>j t c. j < length (s_workers s) \<Longrightarrow> s_workers s ! j = K_DecWrite t c \<Longrightarrow> c = cur_tasks_cnt s"
    and cc: "\<And>j c. j < length (s_adders s) \<Longrightarrow> s_adders s ! j = C_IncWrite c \<Longrightarrow> c = cur_tasks_cnt s"
    using count by (auto simp: scount_inv_def)
  have "cur_tasks_cnt s' + of_nat (size (sum_of c_inc ((s_adders s)[i := pc]))) =
      of_nat (length ds') + of_nat (size (sum_of k_dec (s_workers s)))"
    using count_balance_inc [OF cnt size_sum_of_update [OF i, of c_inc pc]] bal3 pc0 by simp
  moreover have "c = cur_tasks_cnt s'" if "j < length (s_adders s)" "(s_adders s)[i := pc] ! j = C_IncWrite c" for j c
    using that copy cc [of j c] other [of j] i by (cases "j = i") auto
  moreover have "c = cur_tasks_cnt s'" if "j < length (s_workers s)" "s_workers s ! j = K_DecWrite t c" for j t c
    using that copy(2) cw [of j t c] nowork [of j] by auto
  ultimately have 4: "scount_inv s' ds'"
    by (auto simp: scount_inv_def s')
  show ?thesis using 1 2 3 4 s'(5) by (auto simp: spool_inv_def)
qed

lemma spool_worker_inv:
  assumes inv: "spool_inv s" and i: "i < length (s_workers s)"
    and st: "pool_task_process_thread_step i (s_workers s ! i) s = Some s'"
  shows "spool_inv s'"
proof -
  obtain ds where lock: "slock_inv s" and flight: "sflight_inv s" and q: "squeue_inv s ds"
    and args: "sargs_inv s ds" and count: "scount_inv s ds"
    using inv by (auto simp: spool_inv_def)
  note upd = spool_inv_worker [OF lock flight args count i]
  have fin: "finite (dom (args s))" using args by (simp add: sargs_inv_def)
  show ?thesis
  proof (cases "s_workers s ! i")
    case K_Lock
    then show ?thesis
      using st q fin by (intro upd [OF K_Lock, where pc = K_Test and got = "[]" and fin = "[]" and ds' = ds])
        (auto simp: lock_change_def squeue_inv_def split: if_splits)
  next
    case K_Wait
    then show ?thesis using st by simp
  next
    case K_Woken
    then show ?thesis
      using st q fin by (intro upd [OF K_Woken, where pc = K_Test and got = "[]" and fin = "[]" and ds' = ds])
        (auto simp: lock_change_def squeue_inv_def split: if_splits)
  next
    case K_Test
    from q show ?thesis
    proof (cases rule: de_task_cases)
      case empty
      then show ?thesis
        using st q fin K_Test by (intro upd [OF K_Test, where pc = K_Wait and got = "[]" and fin = "[]" and ds' = ds])
          (auto simp: lock_change_def squeue_inv_def)
    next
      case (task t ts m)
      then show ?thesis
        using st fin K_Test
        by (intro upd [OF K_Test, where pc = "K_DecRead t" and got = "[t]" and fin = "[]" and ds' = ts])
          (auto simp: lock_change_def squeue_inv_def)
    qed
  next
    case (K_DecRead t)
    then show ?thesis
      using st q fin
      by (intro upd [OF K_DecRead, where pc = "K_DecWrite t (cur_tasks_cnt s)" and got = "[]" and fin = "[]" and ds' = ds])
        (auto simp: lock_change_def squeue_inv_def)
  next
    case (K_DecWrite t c)
    then have "c = cur_tasks_cnt s" using count i unfolding scount_inv_def by blast
    then show ?thesis
      using st q fin K_DecWrite
      by (intro upd [OF K_DecWrite, where pc = "K_Unlock t" and got = "[]" and fin = "[]" and ds' = ds])
        (auto simp: lock_change_def squeue_inv_def)
  next
    case (K_Unlock t)
    then show ?thesis
      using st q fin by (intro upd [OF K_Unlock, where pc = "K_Run t" and got = "[]" and fin = "[]" and ds' = ds])
        (auto simp: lock_change_def squeue_inv_def)
  next
    case (K_Run t)
    then show ?thesis
      using st q fin by (intro upd [OF K_Run, where pc = "K_Free t" and got = "[]" and fin = "[t]" and ds' = ds])
        (auto simp: lock_change_def squeue_inv_def)
  next
    case (K_Free t)
    show ?thesis
    proof (cases "owned t")
      case True
      have dom: "arg t \<in> dom (args s)" using free_ok [OF args i K_Free True] .
      have "mset_set (dom (args s)) = add_mset (arg t) (mset_set (dom (args s) - {arg t}))"
        using dom fin by (metis mset_set.remove)
      moreover have s': "s' = put_worker i K_Lock (s\<lparr>args := (args s)(arg t := None)\<rparr>)"
        using st K_Free True dom by auto
      moreover have "squeue_inv s' ds"
        using q by (simp add: squeue_inv_def s')
      ultimately show ?thesis
        using True dom fin
        by (intro upd [OF K_Free, where pc = K_Lock and got = "[]" and fin = "[]" and ds' = ds])
          (auto simp: lock_change_def own_def)
    next
      case False
      with K_Free st q fin show ?thesis
        by (intro upd [OF K_Free, where pc = K_Lock and got = "[]" and fin = "[]" and ds' = ds])
          (auto simp: lock_change_def squeue_inv_def own_def)
    qed
  qed
qed

lemma spool_caller_inv:
  assumes inv: "spool_inv s" and i: "i < length (s_adders s)" and p: "fresh (s_mem s) p"
    and st: "add_task_to_pool_step i p (s_adders s ! i) s = Some s'"
  shows "spool_inv s'"
proof -
  obtain ds where lock: "slock_inv s" and flight: "sflight_inv s" and q: "squeue_inv s ds"
    and args: "sargs_inv s ds" and count: "scount_inv s ds"
    using inv by (auto simp: spool_inv_def)
  note upd = spool_inv_caller [OF lock flight args count i]
  have fin: "finite (dom (args s))" using args by (simp add: sargs_inv_def)
  show ?thesis
  proof (cases "s_adders s ! i")
    case C_Idle
    then show ?thesis using st by simp
  next
    case (C_Lock t)
    then show ?thesis
      using st q fin by (intro upd [OF C_Lock, where pc = "C_Enq t" and ds' = ds])
        (auto simp: lock_change_def squeue_inv_def split: if_splits)
  next
    case (C_Enq t)
    obtain m where "en_task_to_queue (s_queue s) (Some (Some t)) p (s_mem s) = Some (QUEUE_SUCCESS, m)"
      "squeue_inv (s\<lparr>s_mem := m, k_put := k_put s @ [t]\<rparr>) (ds @ [t])"
      using en_task_queue [OF q p] by blast
    with C_Enq show ?thesis
      using st fin by (intro upd [OF C_Enq, where pc = C_IncRead and ds' = "ds @ [t]"])
        (auto simp: lock_change_def squeue_inv_def)
  next
    case C_IncRead
    then show ?thesis
      using st q fin by (intro upd [OF C_IncRead, where pc = "C_IncWrite (cur_tasks_cnt s)" and ds' = ds])
        (auto simp: lock_change_def squeue_inv_def)
  next
    case (C_IncWrite c)
    then have "c = cur_tasks_cnt s" using count i unfolding scount_inv_def by blast
    then show ?thesis
      using st q fin C_IncWrite by (intro upd [OF C_IncWrite, where pc = C_Broadcast and ds' = ds])
        (auto simp: lock_change_def squeue_inv_def)
  next
    case C_Broadcast
    have "spool_inv (wake_all s)" using wake_all_inv [OF inv] .
    then obtain ds where w: "slock_inv (wake_all s)" "sflight_inv (wake_all s)" "squeue_inv (wake_all s) ds"
      "sargs_inv (wake_all s) ds" "scount_inv (wake_all s) ds" by (auto simp: spool_inv_def)
    have same: "s_adders (wake_all s) = s_adders s" "args (wake_all s) = args s" by (simp_all add: wake_all_def)
    have at: "i < length (s_adders (wake_all s))" "s_adders (wake_all s) ! i = C_Broadcast" using i C_Broadcast same by simp_all
    have "s' = put_adder i C_Unlock (wake_all s)" using st C_Broadcast same by simp
    then show ?thesis
      using fin w(3)
      by (intro spool_inv_caller [OF w(1,2,4,5) at, where pc = C_Unlock and ds' = ds])
        (auto simp: lock_change_def squeue_inv_def same)
  next
    case C_Unlock
    then show ?thesis
      using st q fin by (intro upd [OF C_Unlock, where pc = C_Idle and ds' = ds])
        (auto simp: lock_change_def squeue_inv_def)
  qed
qed

lemma spool_step_inv:
  assumes inv: "spool_inv s" and st: "spool_step e s = Some s'"
  shows "spool_inv s'"
proof -
  obtain ds where lock: "slock_inv s" and flight: "sflight_inv s" and q: "squeue_inv s ds"
    and args: "sargs_inv s ds" and count: "scount_inv s ds"
    using inv by (auto simp: spool_inv_def)
  note upd = spool_inv_caller [OF lock flight args count]
  have fin: "finite (dom (args s))" using args by (simp add: sargs_inv_def)
  show ?thesis
  proof (cases e)
    case (Call_use i h a)
    let ?t = "\<lparr>handler = h, arg = a, arg_size = 0\<rparr>"
    have i: "i < length (s_adders s)" "s_adders s ! i = C_Idle" "s' = put_adder i (C_Lock ?t) s"
      using st Call_use by (auto simp: add_task_to_pool_use_arg_mem_def split: if_splits)
    then show ?thesis
      using q fin by (intro upd [OF i(1,2), where pc = "C_Lock ?t" and ds' = ds])
        (auto simp: lock_change_def squeue_inv_def own_def owned_def)
  next
    case (Call_release i h arg' n a)
    let ?t = "\<lparr>handler = h, arg = (case arg' of None \<Rightarrow> NULL | Some _ \<Rightarrow> a), arg_size = n\<rparr>"
    have i: "i < length (s_adders s)" "s_adders s ! i = C_Idle" "a \<notin> dom (args s)"
      and st': "add_task_to_pool_release_arg_mem h arg' n a i s = Some s'"
      using st Call_release by (auto split: if_splits)
    consider (none) "arg ?t = NULL" | (copy) "owned ?t" "arg ?t = a" | (zero) "arg ?t = a" "a \<noteq> NULL" "\<not> owned ?t"
      by (cases arg'; cases "a = NULL"; cases "owned ?t"; simp)
    then show ?thesis
    proof cases
      case none
      then have "s' = put_adder i (C_Lock ?t) s"
        using st' by (simp add: add_task_to_pool_release_arg_mem_def)
      with none i q fin show ?thesis
        by (intro upd [OF i(1,2), where pc = "C_Lock ?t" and ds' = ds])
          (auto simp: lock_change_def squeue_inv_def own_def owned_def)
    next
      case copy
      then obtain copy where "s' = put_adder i (C_Lock ?t) (s\<lparr>args := (args s)(a \<mapsto> copy)\<rparr>)"
        using st' by (auto simp: add_task_to_pool_release_arg_mem_def owned_def bind_eq_Some_conv split: option.splits)
      with copy i q fin show ?thesis
        by (intro upd [OF i(1,2), where pc = "C_Lock ?t" and ds' = ds])
          (auto simp: lock_change_def squeue_inv_def own_def)
    next
      case zero
      then have "s' = put_adder i (C_Lock ?t) (s\<lparr>args := (args s)(a \<mapsto> []), k_empty := k_empty s @ [a]\<rparr>)"
        using st' by (simp add: add_task_to_pool_release_arg_mem_def)
      with zero i q fin show ?thesis
        by (intro upd [OF i(1,2), where pc = "C_Lock ?t" and ds' = ds])
          (auto simp: lock_change_def squeue_inv_def own_def)
    qed
  next
    case (Spurious i)
    then have i: "i < length (s_workers s)" "s_workers s ! i = K_Wait" "s' = put_worker i K_Woken s" using st by (auto split: if_splits)
    then show ?thesis
      using q fin by (intro spool_inv_worker [OF lock flight args count i(1,2), where pc = K_Woken and got = "[]" and fin = "[]" and ds' = ds])
        (auto simp: lock_change_def squeue_inv_def)
  qed (use st inv in \<open>auto intro: spool_worker_inv spool_caller_inv split: if_splits\<close>)
qed

lemma spool_init_inv: "q \<noteq> NULL \<Longrightarrow> spool_inv (spool_init n k q :: 'h spool)"
proof -
  assume "q \<noteq> NULL"
  then obtain m :: "'h task_t mem" where "INIT_LIST_HEAD q (mem_malloc q empty_mem) = Some m" "qnodes m q []"
    using head_init [of "empty_mem :: 'h task_t mem" q] by (auto simp: empty_mem_def fresh_def)
  then have "squeue_inv (spool_init n k q :: 'h spool) []"
    by (auto simp: spool_init_def squeue_inv_def init_task_queue_def)
  moreover have "sflight_inv (spool_init n k q :: 'h spool)" "sargs_inv (spool_init n k q :: 'h spool) []"
    "scount_inv (spool_init n k q :: 'h spool) []"
    by (auto simp: spool_init_def sflight_inv_def sargs_inv_def scount_inv_def)
  moreover have "slock_inv (spool_init n k q :: 'h spool)"
    by (simp add: spool_init_def slock_inv_def lock_ok_def)
  ultimately show ?thesis by (auto simp: spool_inv_def)
qed

lemma spool_reachable_inv: "spool_reachable s0 s \<Longrightarrow> spool_inv s0 \<Longrightarrow> spool_inv s"
  by (induction rule: spool_reachable.induct) (auto intro: spool_step_inv)

section \<open>Properties\<close>

lemma spool_run_reachable: "spool_run es s = Some s' \<Longrightarrow> spool_reachable s0 s \<Longrightarrow> spool_reachable s0 s'"
  by (induction es arbitrary: s) (auto simp: bind_eq_Some_conv intro: spool_reachable.step)

lemma spool_reachable_start: "spool_run es (spool_init n k q) = Some s \<Longrightarrow> spool_reachable (spool_init n k q) s"
  using spool_run_reachable spool_reachable.start by blast

lemmas spool_eval = spool_init_def init_task_queue_def INIT_LIST_HEAD_def en_task_to_queue_def de_task_from_queue_def
  list_add_tail_def internal_list_add_def list_empty_def list_del_def internal_list_del_def copy_out_def access_defs
  empty_mem_def fresh_def add_task_to_pool_use_arg_mem_def add_task_to_pool_release_arg_mem_def owned_def buf_read_def wake_all_def

lemma not_critical: "\<not> c_critical c \<Longrightarrow> c_inc c = []" "\<not> k_critical w \<Longrightarrow> k_dec w = []"
  by (cases c; simp) (cases w; simp)

text \<open>
  C20. The pool's counter of waiting tasks is exact: whenever no thread holds the mutex, under any
  interleaving, \<open>cur_tasks_cnt\<close> is the number of tasks in the queue, which are the tasks added and
  not yet taken, in the order they were added.
\<close>

theorem socket_pool_count_exact:
  assumes "q \<noteq> NULL" "spool_reachable (spool_init n k q) s" "s_mutex s = None"
  shows "\<exists>xs waiting. qnodes (s_mem s) (s_queue s) xs \<and> qdata (s_mem s) xs = map Some waiting \<and>
    k_put s = k_got s @ waiting \<and> cur_tasks_cnt s = of_nat (length waiting)"
proof -
  obtain ds where inv: "slock_inv s" "squeue_inv s ds" "scount_inv s ds"
    using spool_reachable_inv [OF assms(2) spool_init_inv [OF assms(1)]] by (auto simp: spool_inv_def)
  have "\<not> c_critical pc" if "pc \<in> set (s_adders s)" for pc
    using that inv(1) assms(3) by (auto simp: slock_inv_def lock_ok_def in_set_conv_nth)
  then have "c_inc pc = []" if "pc \<in> set (s_adders s)" for pc
    using that by (simp add: not_critical)
  moreover have "\<not> k_critical pc" if "pc \<in> set (s_workers s)" for pc
    using that inv(1) assms(3) by (auto simp: slock_inv_def lock_ok_def in_set_conv_nth)
  then have "k_dec pc = []" if "pc \<in> set (s_workers s)" for pc
    using that by (simp add: not_critical)
  ultimately have "cur_tasks_cnt s = of_nat (length ds)"
    using inv(3) by (simp add: scount_inv_def sum_of_empty)
  with inv(2) show ?thesis by (auto simp: squeue_inv_def)
qed

theorem socket_pool_count_exact_witness:
  "\<exists>s waiting. spool_run [Call_use 0 3 0, Step_caller 0 5, Step_caller 0 5, Step_caller 0 6, Step_caller 0 6,
      Step_caller 0 6, Step_caller 0 6] (spool_init 1 1 1 :: nat spool) = Some s \<and>
    k_put s = k_got s @ waiting \<and> cur_tasks_cnt s = of_nat (length waiting) \<and> length (k_put s) = 1"
proof -
  obtain s where s: "spool_run [Call_use 0 3 0, Step_caller 0 5, Step_caller 0 5, Step_caller 0 6, Step_caller 0 6,
      Step_caller 0 6, Step_caller 0 6] (spool_init 1 1 1 :: nat spool) = Some s" "s_mutex s = None" "length (k_put s) = 1"
    by (simp add: spool_eval)
  then show ?thesis using socket_pool_count_exact [OF one_neq_zero spool_reachable_start [OF s(1)] s(2)] by auto
qed

text \<open>The blocks that the calls with a pointer and size 0 have allocated.\<close>

fun empty_copies :: "'h spool_ev list \<Rightarrow> addr list" where
  "empty_copies [] = []"
| "empty_copies (Call_release i h (Some b) n a # es) = (if n = 0 \<and> a \<noteq> NULL then [a] else []) @ empty_copies es"
| "empty_copies (e # es) = empty_copies es"

lemma step_empty: "spool_step e s = Some s' \<Longrightarrow> k_empty s' = k_empty s @ empty_copies [e]"
proof (cases e)
  case (Step_thread i)
  then show "spool_step e s = Some s' \<Longrightarrow> ?thesis" by (cases "s_workers s ! i") (auto simp: bind_eq_Some_conv split: if_splits)
next
  case (Step_caller i p)
  then show "spool_step e s = Some s' \<Longrightarrow> ?thesis"
    by (cases "s_adders s ! i") (auto simp: bind_eq_Some_conv wake_all_def split: if_splits)
next
  case (Call_release i h b n a)
  then show "spool_step e s = Some s' \<Longrightarrow> ?thesis"
    by (cases b; cases n) (auto simp: add_task_to_pool_release_arg_mem_def owned_def Let_def bind_eq_Some_conv split: if_splits)
qed (auto simp: add_task_to_pool_use_arg_mem_def split: if_splits)

lemma empty_copies_Cons: "empty_copies (e # es) = empty_copies [e] @ empty_copies es"
  by (cases "e # es" rule: empty_copies.cases) simp_all

lemma run_empty: "spool_run es s = Some s' \<Longrightarrow> k_empty s' = k_empty s @ empty_copies es"
proof (induction es arbitrary: s)
  case (Cons e es)
  then show ?case using step_empty [of e s] empty_copies_Cons [of e es] by (auto simp: bind_eq_Some_conv)
qed simp

lemma distinct_of_subset: "mset xs \<subseteq># mset_set A \<Longrightarrow> distinct xs"
proof -
  assume "mset xs \<subseteq># mset_set A"
  then have "count (mset xs) x \<le> count (mset_set A) x" for x by (rule mset_subset_eq_count)
  moreover have "count (mset_set A) x \<le> 1" for x by (simp add: count_mset_set')
  ultimately have "count (mset xs) x \<le> 1" for x by (rule order.trans)
  moreover have "1 \<le> count (mset xs) x" if "x \<in> set xs" for x
    using that count_greater_zero_iff [of "mset xs" x] by (metis One_nat_def Suc_leI set_mset_mset)
  ultimately have "count (mset xs) x = (if x \<in> set xs then 1 else 0)" for x by (simp add: le_antisym)
  then show ?thesis unfolding distinct_count_atmost_1 by blast
qed

text \<open>
  C21. Ownership of argument copies: in every run a handler about to run has its argument
  copy allocated, and the \<open>free\<close> after the handler returned is of an allocated block (no use after free,
  no double free). A copy of positive size is always given back: when no task is queued or in hand and no call is under way, what
  is left are exactly the blocks of size 0 that calls with a pointer and size 0 have allocated. Those are never
  freed, as the worker frees only when \<open>arg_size > 0\<close>.
\<close>

theorem socket_pool_args_owned:
  assumes "q \<noteq> NULL" "spool_run es (spool_init n k q) = Some s"
  shows "(\<forall>i t. i < length (s_workers s) \<and> s_workers s ! i \<in> {K_Run t, K_Free t} \<and> owned t \<longrightarrow> arg t \<in> dom (args s)) \<and>
    set (empty_copies es) \<subseteq> dom (args s) \<and> distinct (empty_copies es) \<and>
    ((\<forall>w \<in> set (s_workers s). w \<in> {K_Lock, K_Wait, K_Woken}) \<and> (\<forall>c \<in> set (s_adders s). c = C_Idle) \<and> k_put s = k_got s \<longrightarrow>
      dom (args s) = set (empty_copies es))"
proof -
  obtain ds where inv: "squeue_inv s ds" "sargs_inv s ds"
    using spool_reachable_inv [OF spool_reachable_start [OF assms(2)] spool_init_inv [OF assms(1)]] by (auto simp: spool_inv_def)
  have e: "k_empty s = empty_copies es" using run_empty [OF assms(2)] by (simp add: spool_init_def)
  have fin: "finite (dom (args s))" and bal: "mset_set (dom (args s)) =
      sum_of c_own (s_adders s) + mset (concat (map own ds)) + sum_of k_own (s_workers s) + mset (empty_copies es)"
    using inv(2) e by (auto simp: sargs_inv_def)
  have run: "arg t \<in> dom (args s)" if "i < length (s_workers s) \<and> s_workers s ! i \<in> {K_Run t, K_Free t} \<and> owned t" for i t
  proof -
    have "k_own (s_workers s ! i) = [arg t]" using that by (auto simp: own_def)
    then have "arg t \<in># sum_of k_own (s_workers s)"
      using that by (auto simp: sum_of_def in_set_conv_nth intro!: bexI [of _ "s_workers s ! i"])
    then have "arg t \<in># mset_set (dom (args s))" by (simp add: bal)
    then show ?thesis using fin by simp
  qed
  have sub: "mset (empty_copies es) \<subseteq># mset_set (dom (args s))" by (simp add: bal)
  then have "set (empty_copies es) \<subseteq> dom (args s)" using fin by (metis finite_set_mset_mset_set set_mset_mono set_mset_mset)
  moreover have "distinct (empty_copies es)" using sub by (rule distinct_of_subset)
  moreover have "dom (args s) = set (empty_copies es)"
    if quiet: "(\<forall>w \<in> set (s_workers s). w \<in> {K_Lock, K_Wait, K_Woken}) \<and> (\<forall>c \<in> set (s_adders s). c = C_Idle) \<and> k_put s = k_got s"
  proof -
    have "sum_of c_own (s_adders s) = {#}" "sum_of k_own (s_workers s) = {#}" using quiet by (auto intro!: sum_of_empty)
    moreover have "ds = []" using inv(1) quiet by (auto simp: squeue_inv_def)
    ultimately have "mset_set (dom (args s)) = mset (empty_copies es)" using bal by simp
    then show ?thesis using fin by (metis finite_set_mset_mset_set set_mset_mset)
  qed
  ultimately show ?thesis using run by blast
qed

text \<open>One copy of two bytes and one of none: the second is left.\<close>

definition worker_round :: "nat spool_ev list" where
  "worker_round = [Step_thread 0, Step_thread 0, Step_thread 0, Step_thread 0, Step_thread 0, Step_thread 0, Step_thread 0]"

theorem socket_pool_args_owned_witness:
  "\<exists>s. spool_run ([Call_release 0 3 (Some [1, 2]) 2 50, Step_caller 0 5, Step_caller 0 5, Step_caller 0 6, Step_caller 0 6,
      Step_caller 0 6, Step_caller 0 6] @ worker_round @
      [Call_release 0 4 (Some [1, 2]) 0 51, Step_caller 0 5, Step_caller 0 5, Step_caller 0 6, Step_caller 0 6,
      Step_caller 0 6, Step_caller 0 6] @ worker_round) (spool_init 1 1 1 :: nat spool) = Some s \<and>
    map snd (k_ran s) = [Some [1, 2], Some []] \<and> dom (args s) = {51}"
proof -
  let ?es = "[Call_release 0 3 (Some [1, 2]) 2 50, Step_caller 0 5, Step_caller 0 5, Step_caller 0 6, Step_caller 0 6,
      Step_caller 0 6, Step_caller 0 6] @ worker_round @
      [Call_release 0 4 (Some [1, 2]) 0 51, Step_caller 0 5, Step_caller 0 5, Step_caller 0 6, Step_caller 0 6,
      Step_caller 0 6, Step_caller 0 6] @ worker_round"
  obtain s where s: "spool_run ?es (spool_init 1 1 1 :: nat spool) = Some s"
    "map snd (k_ran s) = [Some [1, 2], Some []]" "s_workers s = [K_Lock]" "s_adders s = [C_Idle]" "k_put s = k_got s"
    by (simp add: spool_eval worker_round_def)
  moreover have "empty_copies ?es = [51]" by (simp add: worker_round_def)
  ultimately show ?thesis using socket_pool_args_owned [OF one_neq_zero s(1)] by auto
qed

section \<open>No wake-up is lost\<close>

lemma wake_set: "K_Wait \<notin> set (s_workers (wake_all s))"
  by (auto simp: wake_all_def dest: sym [of K_Wait])

lemma waking_update:
  assumes "i < length cs" "c_waking (cs ! i) \<longrightarrow> c_waking c"
  shows "\<exists>c \<in> set cs. c_waking c \<Longrightarrow> \<exists>c \<in> set (cs[i := c]). c_waking c"
proof -
  assume "\<exists>c \<in> set cs. c_waking c"
  then obtain j where j: "j < length cs" "c_waking (cs ! j)" by (auto simp: in_set_conv_nth)
  then have "c_waking (cs[i := c] ! j)" using assms by (cases "j = i") auto
  then show ?thesis using j(1) by (metis length_list_update nth_mem)
qed

lemma no_wait_update: "K_Wait \<notin> set ws \<Longrightarrow> w \<noteq> K_Wait \<Longrightarrow> K_Wait \<notin> set (ws[i := w])"
  using set_update_subset_insert [of ws i w] by auto

lemma worker_wake:
  assumes inv: "spool_inv s" and w: "swake_inv s" and i: "i < length (s_workers s)"
    and st: "pool_task_process_thread_step i (s_workers s ! i) s = Some s'"
  shows "swake_inv s'"
proof (cases "s_workers s ! i = K_Test")
  case True
  obtain ds where q: "squeue_inv s ds" using inv by (auto simp: spool_inv_def)
  then show ?thesis
  proof (cases rule: de_task_cases)
    case empty
    then have "k_put s = k_got s" using q by (auto simp: squeue_inv_def)
    then show ?thesis using st True empty by (auto simp: swake_inv_def)
  next
    case (task t ts m)
    then have "k_put s \<noteq> k_got s" using q by (auto simp: squeue_inv_def)
    then show ?thesis using st True task w no_wait_update [of "s_workers s" "K_DecRead t" i] by (auto simp: swake_inv_def)
  qed
next
  case False
  then obtain pc where "s_workers s' = (s_workers s)[i := pc]" "pc \<noteq> K_Wait" "s_adders s' = s_adders s" "k_put s' = k_put s" "k_got s' = k_got s"
    using st by (cases "s_workers s ! i") (auto split: if_splits)
  then show ?thesis using w no_wait_update [of "s_workers s" pc i] by (auto simp: swake_inv_def)
qed

lemma caller_wake:
  assumes inv: "spool_inv s" and w: "swake_inv s" and i: "i < length (s_adders s)" and p: "fresh (s_mem s) p"
    and st: "add_task_to_pool_step i p (s_adders s ! i) s = Some s'"
  shows "swake_inv s'"
proof (cases "s_adders s ! i = C_Broadcast")
  case True
  then show ?thesis using st wake_set [of s] by (auto simp: swake_inv_def)
next
  case False
  obtain ds where q: "squeue_inv s ds" using inv by (auto simp: spool_inv_def)
  obtain pc where s': "s_adders s' = (s_adders s)[i := pc]" "s_workers s' = s_workers s" "k_got s' = k_got s"
    "k_put s' = k_put s \<or> c_waking pc" "c_waking (s_adders s ! i) \<longrightarrow> c_waking pc"
  proof (cases "s_adders s ! i")
    case (C_Enq t)
    obtain m where "en_task_to_queue (s_queue s) (Some (Some t)) p (s_mem s) = Some (QUEUE_SUCCESS, m)" using en_task_queue [OF q p] by blast
    then show thesis using that [of C_IncRead] st C_Enq by auto
  qed (use that st False in \<open>auto split: if_splits\<close>)
  have "c_waking pc \<Longrightarrow> \<exists>c \<in> set (s_adders s'). c_waking c" using s'(1) i by (metis set_update_memI)
  then show ?thesis using w s' waking_update [OF i s'(5)] by (auto simp: swake_inv_def)
qed

lemma spool_step_wake:
  assumes "spool_inv s" "swake_inv s" "spool_step e s = Some s'"
  shows "swake_inv s'"
proof -
  have lock: "swake_inv s'" if "s_adders s' = (s_adders s)[i := C_Lock t]" "s_workers s' = s_workers s" "k_got s' = k_got s" "k_put s' = k_put s"
      "i < length (s_adders s)" "s_adders s ! i = C_Idle" for i t
    using assms(2) that waking_update [of i "s_adders s" "C_Lock t"] by (auto simp: swake_inv_def)
  show ?thesis
  proof (cases e)
    case (Call_use i h a)
    then show ?thesis using assms(3) by (intro lock) (auto simp: add_task_to_pool_use_arg_mem_def split: if_splits)
  next
    case (Call_release i h b n a)
    then have i: "i < length (s_adders s)" "s_adders s ! i = C_Idle" "add_task_to_pool_release_arg_mem h b n a i s = Some s'"
      using assms(3) by (auto split: if_splits)
    show ?thesis
      by (rule lock [OF _ _ _ _ i(1,2), where t = "\<lparr>handler = h, arg = (case b of None \<Rightarrow> NULL | Some _ \<Rightarrow> a), arg_size = n\<rparr>"])
        (use i(3) in \<open>auto simp: add_task_to_pool_release_arg_mem_def Let_def bind_eq_Some_conv split: if_splits\<close>)
  next
    case (Spurious i)
    then show ?thesis using assms(2,3) no_wait_update [of "s_workers s" K_Woken i] by (auto simp: swake_inv_def split: if_splits)
  qed (use assms worker_wake caller_wake in \<open>auto split: if_splits\<close>)
qed

lemma spool_reachable_wake: "spool_reachable (spool_init n k q) s \<Longrightarrow> q \<noteq> NULL \<Longrightarrow> swake_inv s"
proof (induction rule: spool_reachable.induct)
  case start
  then show ?case by (simp add: swake_inv_def spool_init_def)
next
  case (step s e s')
  then show ?case using spool_step_wake spool_reachable_inv [OF step(1) spool_init_inv] by blast
qed

text \<open>
  No wake-up is lost: whenever no thread holds the mutex while a task is in the queue, no worker waits for a
  broadcast; every worker that is not in a handler is on its way to the queue.
\<close>

lemma socket_pool_no_lost_wakeup:
  assumes "q \<noteq> NULL" "spool_reachable (spool_init n k q) s" "s_mutex s = None" "k_put s \<noteq> k_got s"
  shows "K_Wait \<notin> set (s_workers s)"
proof -
  have "slock_inv s" using spool_reachable_inv [OF assms(2) spool_init_inv [OF assms(1)]] by (simp add: spool_inv_def)
  then have "\<not> c_critical c" if "c \<in> set (s_adders s)" for c
    using that assms(3) by (auto simp: slock_inv_def lock_ok_def in_set_conv_nth)
  then have "\<not> (\<exists>c \<in> set (s_adders s). c_waking c)" by (metis c_critical.simps(2-4) c_waking.elims(2))
  then show ?thesis using spool_reachable_wake [OF assms(2,1)] assms(4) by (auto simp: swake_inv_def)
qed

lemma create_threads_ok:
  "i + n \<le> length ts \<Longrightarrow> create_threads created i n (ts, c) =
     (map (\<lambda>j. if i \<le> j \<and> j < i + n \<and> created j then Some (j + 1) else ts ! j) [0..<length ts],
      c + length (filter created [i..<i + n]))"
proof (induction n arbitrary: i ts c)
  case 0
  then show ?case by (auto intro!: nth_equalityI)
next
  case (Suc n)
  have "[i..<i + Suc n] = i # [Suc i..<Suc i + n]" by (simp add: upt_conv_Cons)
  then show ?case
    using Suc.IH [of "Suc i"] Suc.prems by (auto simp: nth_list_update le_eq_less_or_eq)
qed

lemma read_created_ids:
  "n \<le> k \<Longrightarrow> read_thread_ids (map (\<lambda>j. if created j then Some (j + 1) else None) [0..<k]) n =
     (if \<exists>j < n. \<not> created j then None else Some (map Suc [0..<n]))"
proof (induction n)
  case (Suc n)
  then show ?case
    by (cases "created n") (auto simp: arr_get_def less_Suc_eq split: if_splits)
qed simp

text \<open>
  \<open>destroy_thread_pool\<close> undoes \<open>create_thread_pool\<close> exactly when no thread failed to start before
  the number of running threads: then every thread recorded is cancelled and the queue's memory is
  given back; otherwise an id that was never written is passed to \<open>pthread_cancel\<close>.
\<close>

theorem socket_pool_create_destroy:
  assumes "fresh m q" "NULL \<notin> live m"
  shows "\<exists>pool. create_thread_pool True q created initCnt maxCnt m = Some pool \<and>
    cur_threads_cnt pool = length (filter created [0..<initCnt]) \<and>
    (if \<exists>j < cur_threads_cnt pool. \<not> created j then destroy_thread_pool (Some pool) = None
     else \<exists>m'. destroy_thread_pool (Some pool) = Some (map Suc [0..<cur_threads_cnt pool], Some m', None) \<and> live m' = live m)"
proof -
  define c where "c = length (filter created [0..<initCnt])"
  define ts where "ts = map (\<lambda>j. if created j then Some (j + 1) else None) [0..<initCnt]"
  let ?pool = "\<lambda>m1. \<lparr>init_threads_cnt = initCnt, max_threads_cnt = maxCnt, cur_threads_cnt = c, tids = ts, queue = q, sp_mem = m1\<rparr>"
  obtain m1 where m1: "init_task_queue q m = Some (q, m1)" "qnodes m1 q []" "live m1 = insert q (live m)"
    using head_init [OF assms] by (auto simp: init_task_queue_def)
  have "create_threads created 0 initCnt (replicate initCnt None, 0) = (ts, c)"
    using create_threads_ok [of 0 initCnt "replicate initCnt None" created 0] by (auto simp: c_def ts_def intro!: map_cong)
  then have pool: "create_thread_pool True q created initCnt maxCnt m = Some (?pool m1)"
    using m1(1) by (simp add: create_thread_pool_def)
  have "c \<le> initCnt" using length_filter_le [of created "[0..<initCnt]"] by (simp add: c_def)
  then have ids: "read_thread_ids ts c = (if \<exists>j < c. \<not> created j then None else Some (map Suc [0..<c]))"
    unfolding ts_def by (rule read_created_ids)
  obtain m3 where m3: "drain_while_success de_task_from_queue q m1 = Some m3" "qnodes m3 q []"
    "live m3 = live m1 - set []" "same_outside (set [q]) m1 m3"
    using taskq.drain_while_success_ok [OF m1(2)] by blast
  obtain m4 where m4: "mem_free q m3 = Some m4" "live m4 = live m1 - set [q]"
    using taskq.drained_free [OF m1(2) m3(2-4)] by blast
  have "destroy_task_queue q m1 = Some (QUEUE_SUCCESS, NULL, m4)"
    using m3(1) m4(1) assms(1) by (simp add: destroy_task_queue_def fresh_def)
  then have "destroy_thread_pool (Some (?pool m1)) = (if \<exists>j < c. \<not> created j then None else Some (map Suc [0..<c], Some m4, None))"
    using ids by (simp add: destroy_thread_pool_def)
  moreover have "live m4 = live m"
    using m4(2) m1(3) assms(1) by (auto simp: fresh_def)
  ultimately show ?thesis
    using pool unfolding c_def [symmetric] by (intro exI [of _ "?pool m1"]) simp
qed

theorem socket_pool_create_destroy_witness:
  "\<exists>pool. create_thread_pool True 1 (\<lambda>i. i \<noteq> 0) 6 10 (empty_mem :: nat task_t mem) = Some pool \<and>
    cur_threads_cnt pool = 5 \<and> destroy_thread_pool (Some pool) = None"
proof -
  have "\<exists>j < 5. \<not> (j \<noteq> (0 :: nat))" "length (filter (\<lambda>i. i \<noteq> 0) [0..<6]) = 5"
    by (auto simp: numeral_eq_Suc)
  then show ?thesis
    using socket_pool_create_destroy [of "empty_mem :: nat task_t mem" 1 "\<lambda>i. i \<noteq> 0" 6 10]
    by (auto simp: fresh_def empty_mem_def)
qed

end
