(* ===== verification/Registry.thy ===== *)
theory Registry
  imports Prelude
begin

text \<open>
  The contract of a registry of clients, as the servers use it: entries are added under a key,
  looked up by key and removed. The newest entry of a key hides the older ones. What the servers
  rely on is proved from the contract alone: a run of registrations, lookups and removals answers
  like the list of entries does.
\<close>

text \<open>Removal of the newest entry of a key.\<close>

fun del_first :: "'k \<Rightarrow> ('k \<times> 'v) list \<Rightarrow> ('k \<times> 'v) list" where
  "del_first k [] = []"
| "del_first k (x # xs) = (if fst x = k then xs else x # del_first k xs)"

lemma del_first_notin: "map_of ds k = None \<Longrightarrow> del_first k ds = ds"
  by (induction ds) (auto split: if_splits)

lemma del_first_other: "k' \<noteq> k \<Longrightarrow> map_of (del_first k ds) k' = map_of ds k'"
  by (induction ds) auto

lemma del_first_split:
  "map_of ds k = Some v \<Longrightarrow> \<exists>bs cs. ds = bs @ (k, v) # cs \<and> k \<notin> fst ` set bs \<and> del_first k ds = bs @ cs"
proof (induction ds)
  case (Cons x ds)
  show ?case
  proof (cases "fst x = k")
    case True
    then have "x # ds = [] @ (k, v) # ds" "del_first k (x # ds) = [] @ ds"
      using Cons.prems by (cases x; simp)+
    then show ?thesis by force
  next
    case False
    then obtain bs cs where *: "ds = bs @ (k, v) # cs" "k \<notin> fst ` set bs" "del_first k ds = bs @ cs"
      using Cons by (auto split: if_splits)
    then have "x # ds = (x # bs) @ (k, v) # cs" "k \<notin> fst ` set (x # bs)" "del_first k (x # ds) = (x # bs) @ cs"
      using False by auto
    then show ?thesis by blast
  qed
qed simp

datatype ('e, 'k, 'v) reg_op = Register 'e 'k 'v | Lookup 'e 'k | Remove 'e 'k

fun reg_spec :: "('e, 'k, 'v) reg_op list \<Rightarrow> ('k \<times> 'v) list \<Rightarrow> 'v option list \<times> ('k \<times> 'v) list" where
  "reg_spec [] ds = ([], ds)"
| "reg_spec (Register e k v # xs) ds = reg_spec xs ((k, v) # ds)"
| "reg_spec (Lookup e k # xs) ds = (let (rs, ds') = reg_spec xs ds in (map_of ds k # rs, ds'))"
| "reg_spec (Remove e k # xs) ds = reg_spec xs (del_first k ds)"

fun reg_run :: "('e \<Rightarrow> 'k \<Rightarrow> 'v \<Rightarrow> 's \<Rightarrow> 's option) \<Rightarrow> ('e \<Rightarrow> 'k \<Rightarrow> 's \<Rightarrow> ('v option \<times> 's) option) \<Rightarrow>
    ('e \<Rightarrow> 'k \<Rightarrow> 's \<Rightarrow> 's option) \<Rightarrow> ('e, 'k, 'v) reg_op list \<Rightarrow> 's \<Rightarrow> ('v option list \<times> 's) option" where
  "reg_run add get del [] s = Some ([], s)"
| "reg_run add get del (Register e k v # xs) s = do { s \<leftarrow> add e k v s; reg_run add get del xs s }"
| "reg_run add get del (Lookup e k # xs) s = do {
     (r, s) \<leftarrow> get e k s;
     (rs, s) \<leftarrow> reg_run add get del xs s;
     Some (r # rs, s) }"
| "reg_run add get del (Remove e k # xs) s = do { s \<leftarrow> del e k s; reg_run add get del xs s }"

text \<open>
  A run in which the allocator does its part (\<open>ok\<close>) and only known keys are removed; the second
  argument list is what the registry holds at that point.
\<close>

fun reg_env :: "('e \<Rightarrow> 's \<Rightarrow> bool) \<Rightarrow> ('e \<Rightarrow> 'k \<Rightarrow> 'v \<Rightarrow> 's \<Rightarrow> 's option) \<Rightarrow>
    ('e \<Rightarrow> 'k \<Rightarrow> 's \<Rightarrow> ('v option \<times> 's) option) \<Rightarrow> ('e \<Rightarrow> 'k \<Rightarrow> 's \<Rightarrow> 's option) \<Rightarrow>
    ('e, 'k, 'v) reg_op list \<Rightarrow> ('k \<times> 'v) list \<Rightarrow> 's \<Rightarrow> bool" where
  "reg_env ok add get del [] ds s = True"
| "reg_env ok add get del (Register e k v # xs) ds s =
     (ok e s \<and> (case add e k v s of None \<Rightarrow> True | Some s' \<Rightarrow> reg_env ok add get del xs ((k, v) # ds) s'))"
| "reg_env ok add get del (Lookup e k # xs) ds s =
     (ok e s \<and> (case get e k s of None \<Rightarrow> True | Some (_, s') \<Rightarrow> reg_env ok add get del xs ds s'))"
| "reg_env ok add get del (Remove e k # xs) ds s =
     (ok e s \<and> map_of ds k \<noteq> None \<and>
      (case del e k s of None \<Rightarrow> True | Some s' \<Rightarrow> reg_env ok add get del xs (del_first k ds) s'))"

locale registry =
  fixes rep :: "'s \<Rightarrow> ('k \<times> 'v) list \<Rightarrow> bool" and ok :: "'e \<Rightarrow> 's \<Rightarrow> bool"
    and add :: "'e \<Rightarrow> 'k \<Rightarrow> 'v \<Rightarrow> 's \<Rightarrow> 's option"
    and get :: "'e \<Rightarrow> 'k \<Rightarrow> 's \<Rightarrow> ('v option \<times> 's) option"
    and del :: "'e \<Rightarrow> 'k \<Rightarrow> 's \<Rightarrow> 's option"
  assumes add_ok: "rep s ds \<Longrightarrow> ok e s \<Longrightarrow> \<exists>s'. add e k v s = Some s' \<and> rep s' ((k, v) # ds)"
    and get_ok: "rep s ds \<Longrightarrow> ok e s \<Longrightarrow> \<exists>s'. get e k s = Some (map_of ds k, s') \<and> rep s' ds"
    and del_ok: "rep s ds \<Longrightarrow> ok e s \<Longrightarrow> map_of ds k \<noteq> None \<Longrightarrow>
      \<exists>s'. del e k s = Some s' \<and> rep s' (del_first k ds)"
begin

lemma run_refines:
  "rep s ds \<Longrightarrow> reg_env ok add get del xs ds s \<Longrightarrow>
   \<exists>s'. reg_run add get del xs s = Some (fst (reg_spec xs ds), s') \<and> rep s' (snd (reg_spec xs ds))"
proof (induction xs arbitrary: s ds)
  case (Cons x xs)
  show ?case
  proof (cases x)
    case (Register e k v)
    then obtain s1 where "add e k v s = Some s1" "rep s1 ((k, v) # ds)"
      using add_ok [OF Cons.prems(1), of e k v] Cons.prems(2) by auto
    with Cons.IH [of s1 "(k, v) # ds"] Cons.prems(2) Register show ?thesis by auto
  next
    case (Lookup e k)
    then obtain s1 where "get e k s = Some (map_of ds k, s1)" "rep s1 ds"
      using get_ok [OF Cons.prems(1), of e k] Cons.prems(2) by auto
    with Cons.IH [of s1 ds] Cons.prems(2) Lookup show ?thesis by (auto split: prod.splits)
  next
    case (Remove e k)
    then obtain s1 where "del e k s = Some s1" "rep s1 (del_first k ds)"
      using del_ok [OF Cons.prems(1), of e k] Cons.prems(2) by auto
    with Cons.IH [of s1 "del_first k ds"] Cons.prems(2) Remove show ?thesis by auto
  qed
qed auto

lemma get_after_add:
  assumes "rep s ds" "ok e s" "add e k v s = Some s'" "ok e' s'"
  shows "\<exists>s''. get e' k' s' = Some (if k' = k then Some v else map_of ds k', s'')"
  using add_ok [OF assms(1,2), of k v] get_ok [of s' "(k, v) # ds" e' k'] assms(3,4) by auto

end

end
