(* ===== verification/Lc_Msg.thy ===== *)
theory Lc_Msg
  imports Prelude
begin

text \<open>
  The messages of \<open>socket_udp\<close> (\<open>common/lcmsg\<close>). An \<open>LcMsg\<close> is a union of a 268-byte structure and
  of the byte array \<open>tmp\<close> of 269 bytes, padded to 272 bytes; its last byte that counts holds a
  checksum. The union is modelled by its bytes: the fields of the structure are read from and
  written to them as little-endian 32-bit words.
\<close>

unbundle bit_operations_syntax

definition LCMSG_DATA_MAXLEN :: nat where
  "LCMSG_DATA_MAXLEN = 256"

definition sizeof_msg :: nat where
  "sizeof_msg = 268"

definition sizeof_LcMsg :: nat where
  "sizeof_LcMsg = 272"

type_synonym LcMsg = "byte list"
type_synonym EndID = "32 word"

definition wf_msg :: "LcMsg \<Rightarrow> bool" where
  "wf_msg b \<longleftrightarrow> length b = sizeof_LcMsg"

text \<open>The values of \<open>enum MsgType\<close>.\<close>

definition UnknowMsgType :: "32 word" where
  "UnknowMsgType = 0"

definition SaveCliInfo :: "32 word" where
  "SaveCliInfo = 1"

definition DataMsg :: "32 word" where
  "DataMsg = 2"

definition SETVER_ENDID :: EndID where
  "SETVER_ENDID = 0"

section \<open>Fields\<close>

definition bytes_of_word :: "32 word \<Rightarrow> byte list" where
  "bytes_of_word w = [ucast w, ucast (drop_bit 8 w), ucast (drop_bit 16 w), ucast (drop_bit 24 w)]"

definition word_at :: "byte list \<Rightarrow> nat \<Rightarrow> 32 word" where
  "word_at b off = ucast (b ! off) OR push_bit 8 (ucast (b ! (off + 1))) OR
     push_bit 16 (ucast (b ! (off + 2))) OR push_bit 24 (ucast (b ! (off + 3)))"

definition put_at :: "nat \<Rightarrow> byte list \<Rightarrow> byte list \<Rightarrow> byte list" where
  "put_at off xs b = take off b @ xs @ drop (off + length xs) b"

definition msgType :: "LcMsg \<Rightarrow> 32 word" where
  "msgType b = word_at b 0"

definition srcEndID :: "LcMsg \<Rightarrow> EndID" where
  "srcEndID b = word_at b 4"

definition destEndID :: "LcMsg \<Rightarrow> EndID" where
  "destEndID b = word_at b 8"

definition msg_data :: "LcMsg \<Rightarrow> byte list" where
  "msg_data b = take LCMSG_DATA_MAXLEN (drop 12 b)"

definition set_msgType :: "32 word \<Rightarrow> LcMsg \<Rightarrow> LcMsg" where
  "set_msgType w = put_at 0 (bytes_of_word w)"

definition set_srcEndID :: "EndID \<Rightarrow> LcMsg \<Rightarrow> LcMsg" where
  "set_srcEndID w = put_at 4 (bytes_of_word w)"

definition set_destEndID :: "EndID \<Rightarrow> LcMsg \<Rightarrow> LcMsg" where
  "set_destEndID w = put_at 8 (bytes_of_word w)"

definition set_data :: "byte list \<Rightarrow> LcMsg \<Rightarrow> LcMsg" where
  "set_data d = put_at 12 d"

section \<open>Operations\<close>

definition ClearMsgBuf :: "32 word \<Rightarrow> LcMsg \<Rightarrow> LcMsg" where
  "ClearMsgBuf t b = set_data (replicate LCMSG_DATA_MAXLEN 0) (set_msgType t b)"

text \<open>\<open>self\<close> is \<open>GetModulesManager()->LcEndID\<close>.\<close>

definition InitTxBuf :: "EndID \<Rightarrow> EndID \<Rightarrow> LcMsg \<Rightarrow> LcMsg" where
  "InitTxBuf self dest b =
     set_data (replicate LCMSG_DATA_MAXLEN 0) (set_destEndID dest (set_srcEndID self (set_msgType DataMsg b)))"

definition InitRxBuf :: "LcMsg \<Rightarrow> LcMsg" where
  "InitRxBuf b = replicate sizeof_LcMsg 0"

text \<open>
  \<open>calloc\<close> of \<open>bufCnt\<close> messages; the \<open>int\<close> becomes a \<open>size_t\<close>, so a negative count is a request
  that cannot be met. \<open>ok\<close> says whether memory is available.
\<close>

definition InitLcMsgBuf :: "bool \<Rightarrow> int \<Rightarrow> LcMsg list option" where
  "InitLcMsgBuf ok bufCnt =
     (if ok \<and> 0 \<le> bufCnt then Some (replicate (nat bufCnt) (replicate sizeof_LcMsg 0)) else None)"

definition DestoryLcMsgBuf :: "LcMsg list option \<Rightarrow> int \<times> LcMsg list option" where
  "DestoryLcMsgBuf buf = (0, None)"

text \<open>What \<open>DisplayMsgBuf\<close> prints: the two ends and the first fifty bytes of the data.\<close>

record msg_out =
  out_src :: EndID
  out_dest :: EndID
  out_data :: "byte list"

definition DisplayMsgBuf :: "LcMsg \<Rightarrow> msg_out" where
  "DisplayMsgBuf b = \<lparr>out_src = srcEndID b, out_dest = destEndID b,
     out_data = map (\<lambda>i. b ! (12 + i)) [0..<50]\<rparr>"

text \<open>\<open>for (; i < sizeof(msgBuf->msg); i++) sum = (sum + msgBuf->tmp[i]) & 0xff;\<close>\<close>

function sum_loop :: "LcMsg \<Rightarrow> nat \<Rightarrow> byte \<Rightarrow> byte option" where
  "sum_loop b i s =
     (if i < sizeof_msg then do {
        x \<leftarrow> arr_get b (int i);
        sum_loop b (i + 1) ((s + x) AND 0xff) }
      else Some s)"
  by auto
termination
  by (relation "measure (\<lambda>(b, i, s). sizeof_msg - i)") auto

declare sum_loop.simps [simp del]

definition SetCheckSum :: "LcMsg \<Rightarrow> LcMsg option" where
  "SetCheckSum b = do { s \<leftarrow> sum_loop b 0 0; arr_set b (int sizeof_msg) s }"

definition CheckCheckSum :: "LcMsg \<Rightarrow> int option" where
  "CheckCheckSum b = do {
     s \<leftarrow> sum_loop b 0 0;
     c \<leftarrow> arr_get b (int sizeof_msg);
     Some (if s = c then 1 else 0) }"

section \<open>Fields: round trips\<close>

lemma length_bytes_of_word [simp]: "length (bytes_of_word w) = 4"
  by (simp add: bytes_of_word_def)

lemma word_of_bytes:
  "ucast (ucast (w :: 32 word) :: byte) OR push_bit 8 (ucast (ucast (drop_bit 8 w) :: byte)) OR
   push_bit 16 (ucast (ucast (drop_bit 16 w) :: byte)) OR push_bit 24 (ucast (ucast (drop_bit 24 w) :: byte)) = w"
proof (rule bit_word_eqI)
  fix n assume "n < LENGTH(32)"
  then consider "n < 8" | "8 \<le> n" "n < 16" | "16 \<le> n" "n < 24" | "24 \<le> n" "n < 32"
    by fastforce
  then show "bit ((ucast (ucast w :: byte) :: 32 word) OR push_bit 8 (ucast (ucast (drop_bit 8 w) :: byte)) OR
      push_bit 16 (ucast (ucast (drop_bit 16 w) :: byte)) OR
      push_bit 24 (ucast (ucast (drop_bit 24 w) :: byte))) n = bit w n"
    by cases (auto simp: bit_simps)
qed

lemma length_put_at: "off + length xs \<le> length b \<Longrightarrow> length (put_at off xs b) = length b"
  by (simp add: put_at_def)

lemma nth_put_at:
  assumes "off + length xs \<le> length b" "i < length b"
  shows "put_at off xs b ! i = (if off \<le> i \<and> i < off + length xs then xs ! (i - off) else b ! i)"
  using assms by (auto simp: put_at_def nth_append)

lemma word_at_put_same:
  assumes "off + 4 \<le> length b"
  shows "word_at (put_at off (bytes_of_word w) b) off = w"
  using assms word_of_bytes [of w]
  by (simp add: word_at_def nth_put_at) (simp add: bytes_of_word_def numeral_2_eq_2 numeral_3_eq_3)

lemma word_at_put_other:
  assumes "off + length xs \<le> length b" "k + 4 \<le> length b" "k + 4 \<le> off \<or> off + length xs \<le> k"
  shows "word_at (put_at off xs b) k = word_at b k"
  using assms by (auto simp: word_at_def nth_put_at)

lemma slice_put_at:
  assumes "off + length xs \<le> length b" "k + n \<le> length b" "k + n \<le> off \<or> off + length xs \<le> k"
  shows "take n (drop k (put_at off xs b)) = take n (drop k b)"
  using assms by (intro nth_equalityI) (auto simp: nth_put_at length_put_at)

lemmas msg_sizes = wf_msg_def sizeof_LcMsg_def sizeof_msg_def LCMSG_DATA_MAXLEN_def

lemmas msg_fields = msgType_def srcEndID_def destEndID_def msg_data_def
  set_msgType_def set_srcEndID_def set_destEndID_def set_data_def

lemma put_data_same: "off + length d \<le> length b \<Longrightarrow> take (length d) (drop off (put_at off d b)) = d"
  by (simp add: put_at_def)

lemma set_wf [simp]:
  "wf_msg b \<Longrightarrow> wf_msg (set_msgType w b)" "wf_msg b \<Longrightarrow> wf_msg (set_srcEndID w b)"
  "wf_msg b \<Longrightarrow> wf_msg (set_destEndID w b)" "wf_msg b \<Longrightarrow> length d = 256 \<Longrightarrow> wf_msg (set_data d b)"
  by (simp_all add: msg_sizes msg_fields length_put_at)

lemma get_set [simp]:
  assumes "wf_msg b"
  shows "msgType (set_msgType w b) = w" "msgType (set_srcEndID w b) = msgType b"
    "msgType (set_destEndID w b) = msgType b"
    "srcEndID (set_srcEndID w b) = w" "srcEndID (set_msgType w b) = srcEndID b"
    "srcEndID (set_destEndID w b) = srcEndID b"
    "destEndID (set_destEndID w b) = w" "destEndID (set_msgType w b) = destEndID b"
    "destEndID (set_srcEndID w b) = destEndID b"
  using assms by (simp_all add: msg_sizes msg_fields word_at_put_same word_at_put_other)

lemma get_set_data [simp]:
  assumes "wf_msg b" "length d = 256"
  shows "msgType (set_data d b) = msgType b" "srcEndID (set_data d b) = srcEndID b"
    "destEndID (set_data d b) = destEndID b" "msg_data (set_data d b) = d"
  using assms put_data_same [of 12 d b]
  by (simp_all add: msg_sizes msg_fields word_at_put_other)

section \<open>The checksum\<close>

lemma mask_byte [simp]: "(x :: byte) AND 0xff = x"
proof -
  have "(0xff :: byte) = - 1" by simp
  then show ?thesis by (simp only: and.right_neutral)
qed

lemma sum_loop_ok:
  assumes "sizeof_msg \<le> length b" "i \<le> sizeof_msg"
  shows "sum_loop b i s = Some (s + sum_list (drop i (take sizeof_msg b)))"
  using assms
proof (induction "sizeof_msg - i" arbitrary: i s)
  case 0
  then show ?case by (subst sum_loop.simps) simp
next
  case (Suc n)
  then have i: "i < sizeof_msg" by simp
  then have "drop i (take sizeof_msg b) = b ! i # drop (Suc i) (take sizeof_msg b)"
    using Suc.prems(1) by (subst Cons_nth_drop_Suc [symmetric]) auto
  moreover have "sum_loop b (i + 1) (s + b ! i) = Some (s + b ! i + sum_list (drop (Suc i) (take sizeof_msg b)))"
    using Suc.hyps(1) [of "i + 1"] Suc.hyps(2) Suc.prems(1) i by simp
  ultimately show ?case
    using i Suc.prems(1) by (subst sum_loop.simps) (simp add: arr_get_def add.assoc)
qed

definition msg_sum :: "LcMsg \<Rightarrow> byte" where
  "msg_sum b = sum_list (take sizeof_msg b)"

lemma SetCheckSum_ok: "wf_msg b \<Longrightarrow> SetCheckSum b = Some (b[sizeof_msg := msg_sum b])"
  by (simp add: SetCheckSum_def sum_loop_ok msg_sum_def arr_set_def msg_sizes)

lemma CheckCheckSum_ok:
  "wf_msg b \<Longrightarrow> CheckCheckSum b = Some (if msg_sum b = b ! sizeof_msg then 1 else 0)"
  by (simp add: CheckCheckSum_def sum_loop_ok msg_sum_def arr_get_def msg_sizes)

lemma sum_list_upd: "i < length xs \<Longrightarrow> sum_list (xs[i := v]) = sum_list xs - xs ! i + (v :: 'a :: ab_group_add)"
  by (induction xs arbitrary: i) (auto simp: algebra_simps split: nat.split)

lemma msg_sum_update:
  assumes "i < sizeof_msg" "sizeof_msg \<le> length b"
  shows "msg_sum (b[i := v]) = msg_sum b - b ! i + v"
  using assms by (simp add: msg_sum_def take_update_swap sum_list_upd)

lemma msg_sum_above: "sizeof_msg \<le> i \<Longrightarrow> msg_sum (b[i := v]) = msg_sum b"
  by (simp add: msg_sum_def)

section \<open>Properties\<close>

lemma checksum_byte:
  assumes "wf_msg b" "SetCheckSum b = Some b'"
  shows "wf_msg b'" "b' ! sizeof_msg = msg_sum b'" "b' = b[sizeof_msg := msg_sum b]"
proof -
  show b': "b' = b[sizeof_msg := msg_sum b]" using assms SetCheckSum_ok by simp
  show "wf_msg b'" using assms(1) by (simp add: b' wf_msg_def)
  show "b' ! sizeof_msg = msg_sum b'"
    using assms(1) msg_sum_above [of sizeof_msg b "msg_sum b"] by (simp add: b' wf_msg_def sizeof_msg_def sizeof_LcMsg_def)
qed

text \<open>
  C38. A message sealed with \<open>SetCheckSum\<close> passes \<open>CheckCheckSum\<close>, and if any single byte of it, one
  of the 268 bytes of the message or the checksum itself, is changed, it does not. The three padding
  bytes behind the checksum are not protected.
\<close>

theorem checksum_detects_one_byte:
  assumes "wf_msg b"
  shows "\<exists>b'. SetCheckSum b = Some b' \<and> CheckCheckSum b' = Some 1 \<and> take sizeof_msg b' = take sizeof_msg b \<and>
    (\<forall>i v. i < sizeof_LcMsg \<and> v \<noteq> b' ! i \<longrightarrow>
      CheckCheckSum (b'[i := v]) = Some (if i \<le> sizeof_msg then 0 else 1))"
proof -
  obtain b' where b': "SetCheckSum b = Some b'" using SetCheckSum_ok [OF assms] by blast
  note 1 = checksum_byte [OF assms b']
  have "CheckCheckSum (b'[i := v]) = Some (if i \<le> sizeof_msg then 0 else 1)"
    if i: "i < sizeof_LcMsg" "v \<noteq> b' ! i" for i v
  proof -
    have wf: "wf_msg (b'[i := v])" using 1(1) by (simp add: wf_msg_def)
    consider "i < sizeof_msg" | "i = sizeof_msg" | "sizeof_msg < i" by linarith
    then show ?thesis
    proof cases
      case 1: 1
      then have "msg_sum (b'[i := v]) = msg_sum b' - b' ! i + v"
        using checksum_byte(1) [OF assms b'] by (intro msg_sum_update) (auto simp: wf_msg_def sizeof_msg_def sizeof_LcMsg_def)
      then show ?thesis
        using CheckCheckSum_ok [OF wf] 1 i(2) checksum_byte(2) [OF assms b'] by (auto simp: nth_list_update)
    next
      case 2
      then show ?thesis
        using CheckCheckSum_ok [OF wf] msg_sum_above [of sizeof_msg b' v] i 1(1,2) by (simp add: wf_msg_def)
    next
      case 3
      then show ?thesis
        using CheckCheckSum_ok [OF wf] msg_sum_above [of i b' v] 1(2) by simp
    qed
  qed
  moreover have "CheckCheckSum b' = Some 1" using CheckCheckSum_ok [OF 1(1)] 1(2) by simp
  moreover have "take sizeof_msg b' = take sizeof_msg b" by (simp add: 1(3))
  ultimately show ?thesis using b' by blast
qed

theorem checksum_detects_one_byte_witness:
  "\<exists>b'. SetCheckSum (replicate 272 5) = Some b' \<and> CheckCheckSum b' = Some 1 \<and>
    CheckCheckSum (b'[0 := 7]) = Some 0 \<and> CheckCheckSum (b'[268 := b' ! 268 + 1]) = Some 0"
proof -
  let ?b = "replicate 272 5"
  have wf: "wf_msg ?b" by (simp add: wf_msg_def sizeof_LcMsg_def)
  obtain b' where b': "SetCheckSum ?b = Some b'" "CheckCheckSum b' = Some 1" "take sizeof_msg b' = take sizeof_msg ?b"
    "\<forall>i v. i < sizeof_LcMsg \<and> v \<noteq> b' ! i \<longrightarrow> CheckCheckSum (b'[i := v]) = Some (if i \<le> sizeof_msg then 0 else 1)"
    using checksum_detects_one_byte [OF wf] by blast
  have "b' ! 0 = take sizeof_msg b' ! 0" by (simp add: sizeof_msg_def)
  also note b'(3)
  finally have "b' ! 0 \<noteq> 7" by (simp add: sizeof_msg_def)
  then show ?thesis
    using b'(1,2) b'(4) [rule_format, of 0 7] b'(4) [rule_format, of 268 "b' ! 268 + 1"]
    by (auto simp: sizeof_LcMsg_def sizeof_msg_def)
qed

text \<open>
  What the checksum cannot see: a change of two different bytes of the message that adds to one
  what it takes from the other, such as exchanging them, still passes.
\<close>

theorem checksum_misses_compensated:
  assumes "wf_msg b" "SetCheckSum b = Some b'" "i < sizeof_msg" "j < sizeof_msg" "i \<noteq> j"
  shows "CheckCheckSum (b'[i := b' ! i + d, j := b' ! j - d]) = Some 1"
proof -
  note 1 = checksum_byte [OF assms(1,2)]
  let ?c = "b'[i := b' ! i + d, j := b' ! j - d]"
  have len: "sizeof_msg \<le> length b'" using 1(1) by (simp add: wf_msg_def sizeof_msg_def sizeof_LcMsg_def)
  have "msg_sum ?c = msg_sum b'"
    using msg_sum_update [OF assms(4), of "b'[i := b' ! i + d]"] msg_sum_update [OF assms(3) len] assms(5) len by simp
  moreover have "?c ! sizeof_msg = b' ! sizeof_msg" using assms(3,4) by simp
  moreover have "wf_msg ?c" using 1(1) by (simp add: wf_msg_def)
  ultimately show ?thesis using CheckCheckSum_ok 1(2) by simp
qed

theorem checksum_misses_compensated_witness:
  "\<exists>b'. SetCheckSum (replicate 272 5) = Some b' \<and> CheckCheckSum (b'[0 := b' ! 0 + 3, 1 := b' ! 1 - 3]) = Some 1"
proof -
  have wf: "wf_msg (replicate 272 5)" by (simp add: wf_msg_def sizeof_LcMsg_def)
  then obtain b' where "SetCheckSum (replicate 272 5) = Some b'" using SetCheckSum_ok by blast
  with checksum_misses_compensated [OF wf this, of 0 1 3] show ?thesis by (auto simp: sizeof_msg_def)
qed

end
