(* ===== verification/Udp_Clients.thy ===== *)
theory Udp_Clients
  imports Node_Queue Registry Lc_Msg
begin

text \<open>
  The server's list of known clients (\<open>socket_udp/server/clientinfo_list\<close>): an intrusive list of
  \<open>ClisInfoListNode\<close>s behind a global pointer that is set up on first use. Every function takes
  the list's mutex around its accesses, so each is modelled as one step. An operation gets the
  addresses \<open>malloc\<close> returns: \<open>ok\<close> whether the global structure can be allocated, then the
  list head's and the node's address.
\<close>

record sockaddr_in =
  sin_port :: "16 word"
  s_addr :: "32 word"

record ClisInfo =
  cliID :: EndID
  cliAddr :: sockaddr_in

record cli_list =
  g_clisInfoList :: "addr gptr"
  cl_mem :: "ClisInfo mem"

definition InitCliInfoList :: "bool \<Rightarrow> addr \<Rightarrow> cli_list \<Rightarrow> cli_list option" where
  "InitCliInfoList ok hp s =
     (if g_clisInfoList s \<noteq> Null then Some s
      else if \<not> ok then None
      else do {
        m \<leftarrow> INIT_LIST_HEAD hp (mem_malloc hp (cl_mem s));
        Some \<lparr>g_clisInfoList = Ptr hp, cl_mem = m\<rparr> })"

text \<open>\<open>while (!list_empty(infoList))\<close> of the destructor.\<close>

partial_function (option) free_entries :: "addr \<Rightarrow> 'a mem \<Rightarrow> 'a mem option" where
  "free_entries h m = do {
     e \<leftarrow> list_empty h m;
     if \<not> e then do {
       n \<leftarrow> rd_next m h;
       m \<leftarrow> list_del n m;
       m \<leftarrow> mem_free n m;
       free_entries h m }
     else Some m }"

text \<open>The global pointer keeps its value: it dangles afterwards.\<close>

definition DestoryCliInfoList :: "cli_list \<Rightarrow> cli_list option" where
  "DestoryCliInfoList s =
     (if g_clisInfoList s = Null then Some s
      else do {
        h \<leftarrow> deref (g_clisInfoList s);
        m \<leftarrow> free_entries h (cl_mem s);
        m \<leftarrow> mem_free h m;
        Some \<lparr>g_clisInfoList = Freed, cl_mem = m\<rparr> })"

definition AddNodeToCliInfoList ::
  "bool \<Rightarrow> addr \<Rightarrow> addr \<Rightarrow> EndID \<Rightarrow> sockaddr_in \<Rightarrow> cli_list \<Rightarrow> cli_list option" where
  "AddNodeToCliInfoList ok hp np cid addr s = do {
     s \<leftarrow> (if g_clisInfoList s = Null then InitCliInfoList ok hp s else Some s);
     m \<leftarrow> wr_data np (Some \<lparr>cliID = cid, cliAddr = addr\<rparr>) (mem_malloc np (cl_mem s));
     h \<leftarrow> deref (g_clisInfoList s);
     m \<leftarrow> list_add np h m;
     Some (s\<lparr>cl_mem := m\<rparr>) }"

text \<open>The body of the search loop; \<open>break\<close> leaves it with the node.\<close>

definition search_body :: "EndID \<Rightarrow> addr \<Rightarrow> ClisInfo mem \<times> unit \<Rightarrow> ((ClisInfo mem \<times> unit) + addr) option" where
  "search_body cid pos ms = do {
     d \<leftarrow> rd_data (fst ms) pos;
     d \<leftarrow> d;
     Some (if cliID d = cid then Inr pos else Inl ms) }"

definition internal_GetCliInfoNodeByCliID :: "bool \<Rightarrow> addr \<Rightarrow> EndID \<Rightarrow> cli_list \<Rightarrow> (addr \<times> cli_list) option" where
  "internal_GetCliInfoNodeByCliID ok hp cid s = do {
     s \<leftarrow> (if g_clisInfoList s = Null then InitCliInfoList ok hp s else Some s);
     h \<leftarrow> deref (g_clisInfoList s);
     r \<leftarrow> list_for_each (search_body cid) h (cl_mem s, ());
     Some (case r of Inr node \<Rightarrow> node | Inl _ \<Rightarrow> NULL, s) }"

text \<open>A key that is not found gives a NULL node, which \<open>list_del\<close> follows.\<close>

definition DelCliInfoNodeFormListByCliID :: "bool \<Rightarrow> addr \<Rightarrow> EndID \<Rightarrow> cli_list \<Rightarrow> cli_list option" where
  "DelCliInfoNodeFormListByCliID ok hp cid s = do {
     s \<leftarrow> (if g_clisInfoList s = Null then InitCliInfoList ok hp s else Some s);
     (node, s) \<leftarrow> internal_GetCliInfoNodeByCliID ok hp cid s;
     m \<leftarrow> list_del node (cl_mem s);
     m \<leftarrow> mem_free node m;
     Some (s\<lparr>cl_mem := m\<rparr>) }"

definition GetCliInfoNodeByCliID :: "bool \<Rightarrow> addr \<Rightarrow> EndID \<Rightarrow> cli_list \<Rightarrow> (addr \<times> cli_list) option" where
  "GetCliInfoNodeByCliID ok hp cid s = internal_GetCliInfoNodeByCliID ok hp cid s"

section \<open>Representation\<close>

definition entry :: "ClisInfo \<Rightarrow> EndID \<times> sockaddr_in" where
  "entry c = (cliID c, cliAddr c)"

lemma entry_fields [simp]: "fst (entry c) = cliID c" "snd (entry c) = cliAddr c"
  by (simp_all add: entry_def)

text \<open>The entries, newest first; before the first use there is no list.\<close>

definition cl_rep :: "cli_list \<Rightarrow> (EndID \<times> sockaddr_in) list \<Rightarrow> bool" where
  "cl_rep s ds \<longleftrightarrow> NULL \<notin> live (cl_mem s) \<and>
     (case g_clisInfoList s of
        Null \<Rightarrow> ds = []
      | Freed \<Rightarrow> False
      | Ptr h \<Rightarrow> \<exists>xs cs. qnodes (cl_mem s) h xs \<and> qdata (cl_mem s) xs = map Some cs \<and> ds = map entry cs)"

definition cl_ok :: "addr \<times> addr \<Rightarrow> cli_list \<Rightarrow> bool" where
  "cl_ok e s \<longleftrightarrow> fresh (cl_mem s) (fst e) \<and> fresh (cl_mem s) (snd e) \<and> fst e \<noteq> snd e"

lemma InitCliInfoList_ok:
  assumes "cl_rep s ds" "fresh (cl_mem s) hp"
  shows "\<exists>s' h xs cs. (if g_clisInfoList s = Null then InitCliInfoList True hp s else Some s) = Some s' \<and>
    g_clisInfoList s' = Ptr h \<and> qnodes (cl_mem s') h xs \<and> qdata (cl_mem s') xs = map Some cs \<and>
    ds = map entry cs \<and> live (cl_mem s') \<subseteq> insert hp (live (cl_mem s))"
proof (cases "g_clisInfoList s")
  case Null
  then obtain m' where "INIT_LIST_HEAD hp (mem_malloc hp (cl_mem s)) = Some m'" "qnodes m' hp []"
    "live m' = insert hp (live (cl_mem s))"
    using head_init [OF assms(2)] assms(1) by (auto simp: cl_rep_def)
  with Null assms(1) show ?thesis
    by (force simp: InitCliInfoList_def cl_rep_def)
qed (use assms in \<open>auto simp: cl_rep_def\<close>)

lemma AddNodeToCliInfoList_ok:
  assumes "cl_rep s ds" "cl_ok e s"
  shows "\<exists>s'. AddNodeToCliInfoList True (fst e) (snd e) k v s = Some s' \<and> cl_rep s' ((k, v) # ds)"
proof -
  obtain s1 h xs cs where 1: "(if g_clisInfoList s = Null then InitCliInfoList True (fst e) s else Some s) = Some s1"
    "g_clisInfoList s1 = Ptr h" "qnodes (cl_mem s1) h xs" "qdata (cl_mem s1) xs = map Some cs"
    "ds = map entry cs" "live (cl_mem s1) \<subseteq> insert (fst e) (live (cl_mem s))"
    using InitCliInfoList_ok [OF assms(1), of "fst e"] assms(2) unfolding cl_ok_def by blast
  have "fresh (cl_mem s1) (snd e)"
    using assms(2) 1(6) by (auto simp: cl_ok_def fresh_def)
  then obtain m1 m2 where 2: "wr_data (snd e) (Some \<lparr>cliID = k, cliAddr = v\<rparr>) (mem_malloc (snd e) (cl_mem s1)) = Some m1"
    "list_add (snd e) h m1 = Some m2" "qnodes m2 h (snd e # xs)"
    "qdata m2 (snd e # xs) = Some \<lparr>cliID = k, cliAddr = v\<rparr> # qdata (cl_mem s1) xs"
    using node_insert_head [OF 1(3), of "snd e" "Some \<lparr>cliID = k, cliAddr = v\<rparr>"] by blast
  have "AddNodeToCliInfoList True (fst e) (snd e) k v s = Some (s1\<lparr>cl_mem := m2\<rparr>)"
    using 1(1,2) 2(1,2) by (simp add: AddNodeToCliInfoList_def)
  moreover have "cl_rep (s1\<lparr>cl_mem := m2\<rparr>) ((k, v) # ds)"
    using 1(2,4,5) 2(3,4)
    by (auto simp: cl_rep_def entry_def qnodes_def intro!: exI [of _ "snd e # xs"] exI [of _ "\<lparr>cliID = k, cliAddr = v\<rparr> # cs"])
  ultimately show ?thesis by blast
qed

lemma search_keeps: "keeps_links (search_body cid)"
  by (auto simp: keeps_links_def search_body_def bind_eq_Some_conv split: if_splits)

lemma search_each:
  assumes "set xs \<subseteq> live m" "map (dataf m) xs = map Some cs"
  shows "each (search_body cid) xs (m, ()) =
    Some (case find (\<lambda>x. \<exists>c. dataf m x = Some c \<and> cliID c = cid) xs of Some x \<Rightarrow> Inr x | None \<Rightarrow> Inl (m, ()))"
  using assms
proof (induction xs arbitrary: cs)
  case (Cons x xs)
  then obtain c cs' where "cs = c # cs'" by (cases cs) auto
  with Cons show ?case by (auto simp: search_body_def fault_simps)
qed simp

lemma search_none:
  assumes "map (dataf m) xs = map Some cs" "map_of (map entry cs) k = None"
  shows "find (\<lambda>x. \<exists>c. dataf m x = Some c \<and> cliID c = k) xs = None"
  using assms
proof (induction xs arbitrary: cs)
  case (Cons x xs)
  then obtain c cs' where "cs = c # cs'" by (cases cs) auto
  with Cons show ?case by (auto simp: entry_def split: if_splits)
qed simp

lemma search_some:
  assumes "map (dataf m) xs = map Some cs" "map_of (map entry cs) k = Some v"
  shows "\<exists>bs x ys as c ds. xs = bs @ x # ys \<and> cs = as @ c # ds \<and> map (dataf m) (bs @ ys) = map Some (as @ ds) \<and>
    dataf m x = Some c \<and> entry c = (k, v) \<and> del_first k (map entry cs) = map entry (as @ ds) \<and>
    find (\<lambda>x. \<exists>c. dataf m x = Some c \<and> cliID c = k) xs = Some x"
  using assms
proof (induction xs arbitrary: cs)
  case (Cons x xs)
  then obtain c cs' where cs: "cs = c # cs'" by (cases cs) auto
  show ?case
  proof (cases "cliID c = k")
    case True
    have "x # xs = [] @ x # xs" "cs = [] @ c # cs'" "map (dataf m) ([] @ xs) = map Some ([] @ cs')"
      "dataf m x = Some c" "entry c = (k, v)" "del_first k (map entry cs) = map entry ([] @ cs')"
      "find (\<lambda>x. \<exists>c. dataf m x = Some c \<and> cliID c = k) (x # xs) = Some x"
      using Cons.prems cs True by (auto simp: entry_def)
    then show ?thesis by blast
  next
    case False
    have "map (dataf m) xs = map Some cs'" "map_of (map entry cs') k = Some v"
      using Cons.prems cs False by auto
    from Cons.IH [OF this] obtain bs y ys as c' ds where "xs = bs @ y # ys" "cs' = as @ c' # ds"
      "map (dataf m) (bs @ ys) = map Some (as @ ds)" "dataf m y = Some c'" "entry c' = (k, v)"
      "del_first k (map entry cs') = map entry (as @ ds)"
      "find (\<lambda>x. \<exists>c. dataf m x = Some c \<and> cliID c = k) xs = Some y"
      by metis
    then have "x # xs = (x # bs) @ y # ys" "cs = (c # as) @ c' # ds"
      "map (dataf m) ((x # bs) @ ys) = map Some ((c # as) @ ds)" "dataf m y = Some c'" "entry c' = (k, v)"
      "del_first k (map entry cs) = map entry ((c # as) @ ds)"
      "find (\<lambda>x. \<exists>c. dataf m x = Some c \<and> cliID c = k) (x # xs) = Some y"
      using Cons.prems(1) cs False by auto
    then show ?thesis by blast
  qed
qed simp

lemma search_list:
  assumes "qnodes m h xs" "qdata m xs = map Some cs"
  shows "list_for_each (search_body cid) h (m, ()) =
    Some (case find (\<lambda>x. \<exists>c. dataf m x = Some c \<and> cliID c = cid) xs of Some x \<Rightarrow> Inr x | None \<Rightarrow> Inl (m, ()))"
proof -
  have "dll m h xs" "set xs \<subseteq> live m"
    using assms(1) by (auto simp: qnodes_def dll_def)
  then show ?thesis
    using list_for_each_eq [of "(m, ())" h xs "search_body cid"] search_keeps search_each assms(2)
    by (simp add: qdata_def)
qed

section \<open>Lookup, removal, destruction\<close>

text \<open>A lookup as the message processing uses it: the address stored in the node found.\<close>

definition lookup_addr :: "bool \<Rightarrow> addr \<Rightarrow> EndID \<Rightarrow> cli_list \<Rightarrow> (sockaddr_in option \<times> cli_list) option" where
  "lookup_addr ok hp cid s = do {
     (node, s) \<leftarrow> GetCliInfoNodeByCliID ok hp cid s;
     if node = NULL then Some (None, s)
     else do { d \<leftarrow> rd_data (cl_mem s) node; d \<leftarrow> d; Some (Some (cliAddr d), s) } }"

lemma lookup_addr_ok:
  assumes "cl_rep s ds" "fresh (cl_mem s) hp"
  shows "\<exists>s'. lookup_addr True hp k s = Some (map_of ds k, s') \<and> cl_rep s' ds"
proof -
  obtain s1 h xs cs where 1: "(if g_clisInfoList s = Null then InitCliInfoList True hp s else Some s) = Some s1"
    "g_clisInfoList s1 = Ptr h" "qnodes (cl_mem s1) h xs" "qdata (cl_mem s1) xs = map Some cs" "ds = map entry cs"
    using InitCliInfoList_ok [OF assms] by blast
  have rep: "cl_rep s1 ds"
    using 1 by (auto simp: cl_rep_def qnodes_def)
  show ?thesis
  proof (cases "map_of ds k")
    case None
    then show ?thesis
      using 1 rep search_none [of "cl_mem s1" xs cs k] search_list [OF 1(3,4), of k]
      by (simp add: lookup_addr_def GetCliInfoNodeByCliID_def internal_GetCliInfoNodeByCliID_def qdata_def)
  next
    case (Some v)
    then obtain bs x ys c where "xs = bs @ x # ys" "dataf (cl_mem s1) x = Some c" "entry c = (k, v)"
      "find (\<lambda>x. \<exists>c. dataf (cl_mem s1) x = Some c \<and> cliID c = k) xs = Some x"
      using search_some [of "cl_mem s1" xs cs k v] 1(4,5) unfolding qdata_def by blast
    moreover from this have "x \<in> live (cl_mem s1)" "x \<noteq> NULL"
      using 1(3) by (auto simp: qnodes_def dll_def)
    ultimately show ?thesis
      using 1 rep Some search_list [OF 1(3,4), of k]
      by (simp add: lookup_addr_def GetCliInfoNodeByCliID_def internal_GetCliInfoNodeByCliID_def
          fault_simps entry_def)
  qed
qed

lemma del_ok:
  assumes "cl_rep s ds" "fresh (cl_mem s) hp" "map_of ds k = Some v"
  shows "\<exists>s'. DelCliInfoNodeFormListByCliID True hp k s = Some s' \<and> cl_rep s' (del_first k ds)"
proof -
  obtain s1 h xs cs where 1: "(if g_clisInfoList s = Null then InitCliInfoList True hp s else Some s) = Some s1"
    "g_clisInfoList s1 = Ptr h" "qnodes (cl_mem s1) h xs" "qdata (cl_mem s1) xs = map Some cs" "ds = map entry cs"
    using InitCliInfoList_ok [OF assms(1,2)] by blast
  obtain bs x ys as c cs' where 2: "xs = bs @ x # ys" "map (dataf (cl_mem s1)) (bs @ ys) = map Some (as @ cs')"
    "del_first k (map entry cs) = map entry (as @ cs')"
    "find (\<lambda>x. \<exists>c. dataf (cl_mem s1) x = Some c \<and> cliID c = k) xs = Some x"
    using search_some [of "cl_mem s1" xs cs k v] 1(4,5) assms(3) unfolding qdata_def by blast
  obtain m1 m2 where 3: "list_del x (cl_mem s1) = Some m1" "mem_free x m1 = Some m2" "qnodes m2 h (bs @ ys)"
    "qdata m2 (bs @ ys) = qdata (cl_mem s1) (bs @ ys)"
    using node_remove 1(3) 2(1) by blast
  have "DelCliInfoNodeFormListByCliID True hp k s = Some (s1\<lparr>cl_mem := m2\<rparr>)"
    using 1(1,2) 2(4) 3(1,2) search_list [OF 1(3,4), of k]
    by (simp add: DelCliInfoNodeFormListByCliID_def internal_GetCliInfoNodeByCliID_def)
  moreover have "cl_rep (s1\<lparr>cl_mem := m2\<rparr>) (del_first k ds)"
    using 1(2,5) 2(2,3) 3(3,4)
    by (auto simp: cl_rep_def qnodes_def qdata_def intro!: exI [of _ "bs @ ys"] exI [of _ "as @ cs'"])
  ultimately show ?thesis by blast
qed

text \<open>Removing a client that is not registered follows a NULL pointer.\<close>

lemma del_unknown:
  assumes "cl_rep s ds" "fresh (cl_mem s) hp" "map_of ds k = None"
  shows "DelCliInfoNodeFormListByCliID True hp k s = None"
proof -
  obtain s1 h xs cs where 1: "(if g_clisInfoList s = Null then InitCliInfoList True hp s else Some s) = Some s1"
    "g_clisInfoList s1 = Ptr h" "qnodes (cl_mem s1) h xs" "qdata (cl_mem s1) xs = map Some cs" "ds = map entry cs"
    using InitCliInfoList_ok [OF assms(1,2)] by blast
  have "list_del NULL (cl_mem s1) = None"
    using 1(3) by (simp add: list_del_def internal_list_del_entry_def rd_prev_def rd_next_def qnodes_def)
  then show ?thesis
    using 1 assms(3) search_none [of "cl_mem s1" xs cs k] search_list [OF 1(3,4), of k]
    by (simp add: DelCliInfoNodeFormListByCliID_def internal_GetCliInfoNodeByCliID_def qdata_def)
qed

lemma free_entries_ok:
  "qnodes m h xs \<Longrightarrow> \<exists>m'. free_entries h m = Some m' \<and> qnodes m' h [] \<and> live m' = live m - set xs"
proof (induction xs arbitrary: m)
  case Nil
  then show ?case by (subst free_entries.simps) (auto simp: list_empty_ok qnodes_def)
next
  case (Cons x xs)
  obtain m1 m2 where 1: "list_del x m = Some m1" "mem_free x m1 = Some m2" "qnodes m2 h xs" "live m2 = live m - {x}"
    using node_remove [of m h "[]" x xs] Cons.prems by auto
  then obtain m' where "free_entries h m2 = Some m'" "qnodes m' h []" "live m' = live m2 - set xs"
    using Cons.IH by blast
  with 1 first_removed [OF Cons.prems] show ?case
    by (subst free_entries.simps) auto
qed

lemma destroy_ok:
  assumes "qnodes (cl_mem s) h xs" "g_clisInfoList s = Ptr h"
  shows "\<exists>s'. DestoryCliInfoList s = Some s' \<and> g_clisInfoList s' = Freed \<and>
    live (cl_mem s') = live (cl_mem s) - set (h # xs)"
proof -
  obtain m1 where 1: "free_entries h (cl_mem s) = Some m1" "qnodes m1 h []" "live m1 = live (cl_mem s) - set xs"
    using free_entries_ok [OF assms(1)] by blast
  then have "h \<in> live m1" "h \<noteq> NULL"
    using qnodes_nonnull(1) by (auto simp: qnodes_def dll_def)
  then obtain m2 where "mem_free h m1 = Some m2" "live m2 = live m1 - {h}"
    using mem_free_ok by blast
  with 1 assms(2) show ?thesis by (auto simp: DestoryCliInfoList_def)
qed

interpretation clireg: registry cl_rep cl_ok
  "\<lambda>e. AddNodeToCliInfoList True (fst e) (snd e)" "\<lambda>e. lookup_addr True (fst e)"
  "\<lambda>e. DelCliInfoNodeFormListByCliID True (fst e)"
  by unfold_locales (use AddNodeToCliInfoList_ok lookup_addr_ok del_ok in \<open>auto simp: cl_ok_def\<close>)

section \<open>Properties\<close>

text \<open>
  C39. The server's client list is a registry in which the newest registration counts: over every
  sequence of registrations, look-ups and removals of registered ids, a look-up returns the address
  last registered and not removed for the id, or NULL when there is none.
\<close>

theorem client_list_refines_registry:
  assumes "cl_rep s ds"
    "reg_env cl_ok (\<lambda>e. AddNodeToCliInfoList True (fst e) (snd e)) (\<lambda>e. lookup_addr True (fst e))
       (\<lambda>e. DelCliInfoNodeFormListByCliID True (fst e)) xs ds s"
  shows "\<exists>s'. reg_run (\<lambda>e. AddNodeToCliInfoList True (fst e) (snd e)) (\<lambda>e. lookup_addr True (fst e))
       (\<lambda>e. DelCliInfoNodeFormListByCliID True (fst e)) xs s = Some (fst (reg_spec xs ds), s') \<and>
    cl_rep s' (snd (reg_spec xs ds))"
  using assms by (rule clireg.run_refines)

text \<open>
  Removing an id that is not registered follows the NULL pointer that the search returns.
\<close>

theorem delete_unknown_client_faults:
  assumes "cl_rep s ds" "fresh (cl_mem s) hp" "map_of ds k = None"
  shows "DelCliInfoNodeFormListByCliID True hp k s = None"
  using assms by (rule del_unknown)

text \<open>
  Destroying the client list frees its head and every entry and nothing else, but leaves the
  global pointer dangling: registering, looking up or destroying afterwards is a fault.
\<close>

theorem client_list_after_destroy:
  assumes "qnodes (cl_mem s) h xs" "g_clisInfoList s = Ptr h"
  shows "\<exists>s'. DestoryCliInfoList s = Some s' \<and> live (cl_mem s') = live (cl_mem s) - set (h # xs) \<and>
    DestoryCliInfoList s' = None \<and>
    (\<forall>ok hp np k v. AddNodeToCliInfoList ok hp np k v s' = None \<and> GetCliInfoNodeByCliID ok hp k s' = None)"
proof -
  obtain s' where s': "DestoryCliInfoList s = Some s'" "g_clisInfoList s' = Freed"
    "live (cl_mem s') = live (cl_mem s) - set (h # xs)"
    using destroy_ok [OF assms] by blast
  have "DestoryCliInfoList s' = None" using s'(2) by (simp add: DestoryCliInfoList_def)
  moreover have "AddNodeToCliInfoList ok hp np k v s' = None" for ok hp np k v
    using s'(2) by (cases "wr_data np (Some \<lparr>cliID = k, cliAddr = v\<rparr>) (mem_malloc np (cl_mem s'))")
      (simp_all add: AddNodeToCliInfoList_def)
  moreover have "GetCliInfoNodeByCliID ok hp k s' = None" for ok hp k
    using s'(2) by (simp add: GetCliInfoNodeByCliID_def internal_GetCliInfoNodeByCliID_def)
  ultimately show ?thesis using s'(1,3) by blast
qed

text \<open>A list with one registered client, id 7.\<close>

definition one_client :: cli_list where
  "one_client = \<lparr>g_clisInfoList = Ptr 1, cl_mem = \<lparr>live = {1, 2}, nextf = [1 \<mapsto> 2, 2 \<mapsto> 1], prevf = [1 \<mapsto> 2, 2 \<mapsto> 1],
     dataf = [2 \<mapsto> \<lparr>cliID = 7, cliAddr = \<lparr>sin_port = 99, s_addr = 1\<rparr>\<rparr>]\<rparr>\<rparr>"

lemma one_client_nodes: "qnodes (cl_mem one_client) 1 [2]" "g_clisInfoList one_client = Ptr 1"
  by (simp_all add: one_client_def qnodes_def dll_def linked_def)

lemma one_client_rep: "cl_rep one_client [(7, \<lparr>sin_port = 99, s_addr = 1\<rparr>)]"
  using one_client_nodes
  by (auto simp: cl_rep_def qnodes_def entry_def one_client_def intro!: exI [of _ "[2]"]
      exI [of _ "[\<lparr>cliID = 7, cliAddr = \<lparr>sin_port = 99, s_addr = 1\<rparr>\<rparr>]"])

lemma no_client_rep: "cl_rep \<lparr>g_clisInfoList = Null, cl_mem = empty_mem\<rparr> []"
  by (simp add: cl_rep_def empty_mem_def)

theorem client_list_refines_registry_witness:
  "\<exists>s'. reg_run (\<lambda>e. AddNodeToCliInfoList True (fst e) (snd e)) (\<lambda>e. lookup_addr True (fst e))
       (\<lambda>e. DelCliInfoNodeFormListByCliID True (fst e))
       [Register (8, 9) 7 \<lparr>sin_port = 5, s_addr = 6\<rparr>, Lookup (10, 11) 7] one_client =
      Some ([Some \<lparr>sin_port = 5, s_addr = 6\<rparr>], s') \<and>
    cl_rep s' [(7, \<lparr>sin_port = 5, s_addr = 6\<rparr>), (7, \<lparr>sin_port = 99, s_addr = 1\<rparr>)]"
proof -
  let ?xs = "[Register (8, 9) 7 \<lparr>sin_port = 5, s_addr = 6\<rparr>, Lookup (10, 11) 7]"
  have "reg_env cl_ok (\<lambda>e. AddNodeToCliInfoList True (fst e) (snd e)) (\<lambda>e. lookup_addr True (fst e))
       (\<lambda>e. DelCliInfoNodeFormListByCliID True (fst e)) ?xs [(7, \<lparr>sin_port = 99, s_addr = 1\<rparr>)] one_client"
    by (simp add: cl_ok_def fresh_def one_client_def AddNodeToCliInfoList_def access_defs list_add_def internal_list_add_def
        split: option.split)
  from client_list_refines_registry [OF one_client_rep this] show ?thesis by auto
qed

theorem delete_unknown_client_faults_witness: "DelCliInfoNodeFormListByCliID True 8 5 one_client = None"
  using delete_unknown_client_faults [OF one_client_rep, of 8 5] by (simp add: fresh_def one_client_def)

theorem client_list_after_destroy_witness:
  "\<exists>s'. DestoryCliInfoList one_client = Some s' \<and> live (cl_mem s') = {} \<and> DestoryCliInfoList s' = None"
proof -
  have "live (cl_mem one_client) - set [1, 2] = {}" by (simp add: one_client_def)
  then show ?thesis using client_list_after_destroy [OF one_client_nodes] by metis
qed

end
