(* ===== verification/Udp_Queues.thy ===== *)
theory Udp_Queues
  imports Node_Queue
begin

text \<open>
  The message queue (\<open>socket_udp/common/lcmsg/lcmsg_queue\<close>) and the task queue
  (\<open>socket_udp/common/thread_pool/task_queue\<close>) of the \<open>socket_udp\<close> program. Both append at the
  tail and take from the front. Unlike their \<open>socket\<close> namesakes they accept a NULL element,
  which links a node with an indeterminate payload, and their constructors check \<open>malloc\<close>.
\<close>

section \<open>Message queue\<close>

definition InitMsgQueue :: "addr \<Rightarrow> 'a mem \<Rightarrow> (addr \<times> 'a mem) option" where
  "InitMsgQueue p m = do {
     let m = mem_malloc p m;
     if p = NULL then Some (NULL, m)
     else do {
       m \<leftarrow> INIT_LIST_HEAD p m;
       Some (p, m) } }"

definition EnMsgQueue :: "'a enq" where
  "EnMsgQueue msgQueue lcMsg p m =
     (if msgQueue = NULL then Some (QUEUE_ERROR, m)
      else do {
        let m = mem_malloc p m;
        m \<leftarrow> (case lcMsg of None \<Rightarrow> Some m | Some msg \<Rightarrow> wr_data p msg m);
        m \<leftarrow> list_add_tail p msgQueue m;
        Some (QUEUE_SUCCESS, m) })"

definition DeMsgQueue :: "'a deq" where
  "DeMsgQueue msgQueue lcMsg m =
     (if msgQueue = NULL then Some (QUEUE_ERROR, lcMsg, m)
      else do {
        e \<leftarrow> list_empty msgQueue m;
        if e then Some (QUEUE_EMPTY, lcMsg, m)
        else do {
          node \<leftarrow> rd_next m msgQueue;
          out \<leftarrow> copy_out lcMsg node m;
          m \<leftarrow> list_del node m;
          m \<leftarrow> mem_free node m;
          Some (QUEUE_SUCCESS, out, m) } })"

definition DestoryMsgQueue :: "addr \<Rightarrow> 'a mem \<Rightarrow> (queue_ret_t \<times> addr \<times> 'a mem) option" where
  "DestoryMsgQueue msgQueue m =
     (if msgQueue = NULL then Some (QUEUE_SUCCESS, msgQueue, m)
      else do {
        m \<leftarrow> drain_until_empty DeMsgQueue msgQueue m;
        m \<leftarrow> mem_free msgQueue m;
        Some (QUEUE_SUCCESS, NULL, m) })"

section \<open>Task queue\<close>

definition InitTaskQueue :: "addr \<Rightarrow> 'a mem \<Rightarrow> (addr \<times> 'a mem) option" where
  "InitTaskQueue p m = do {
     let m = mem_malloc p m;
     if p = NULL then Some (NULL, m)
     else do {
       m \<leftarrow> INIT_LIST_HEAD p m;
       Some (p, m) } }"

definition EnTaskQueue :: "'a enq" where
  "EnTaskQueue taskQueue task p m =
     (if taskQueue = NULL then Some (QUEUE_ERROR, m)
      else do {
        let m = mem_malloc p m;
        m \<leftarrow> (case task of None \<Rightarrow> Some m | Some t \<Rightarrow> wr_data p t m);
        m \<leftarrow> list_add_tail p taskQueue m;
        Some (QUEUE_SUCCESS, m) })"

definition DeTaskQueue :: "'a deq" where
  "DeTaskQueue taskQueue task m =
     (if taskQueue = NULL then Some (QUEUE_ERROR, task, m)
      else do {
        e \<leftarrow> list_empty taskQueue m;
        if e then Some (QUEUE_EMPTY, task, m)
        else do {
          node \<leftarrow> rd_next m taskQueue;
          out \<leftarrow> copy_out task node m;
          m \<leftarrow> list_del node m;
          m \<leftarrow> mem_free node m;
          Some (QUEUE_SUCCESS, out, m) } })"

definition DestoryTaskQueue :: "addr \<Rightarrow> 'a mem \<Rightarrow> (queue_ret_t \<times> addr \<times> 'a mem) option" where
  "DestoryTaskQueue taskQueue m =
     (if taskQueue = NULL then Some (QUEUE_SUCCESS, taskQueue, m)
      else do {
        m \<leftarrow> drain_until_empty DeTaskQueue taskQueue m;
        m \<leftarrow> mem_free taskQueue m;
        Some (QUEUE_SUCCESS, NULL, m) })"

section \<open>Both satisfy the queue contract\<close>

interpretation lcmsgq: fifo_queue EnMsgQueue DeMsgQueue
proof
  show "\<exists>m'. EnMsgQueue q (Some d) p m = Some (QUEUE_SUCCESS, m') \<and> qnodes m' q (xs @ [p]) \<and>
      dataf m' p = d \<and> qdata m' xs = qdata m xs \<and> live m' = insert p (live m) \<and>
      same_outside (set (q # p # xs)) m m'"
    if "qnodes m q xs" "fresh m p" for m :: "'a mem" and q xs p d
    using node_insert_tail [OF that, of d] qnodes_nonnull(1) [OF that(1)]
    by (auto simp: EnMsgQueue_def qdata_def)
  show "\<exists>m'. DeMsgQueue q out m = Some (QUEUE_SUCCESS, map_option (\<lambda>_. dataf m x) out, m') \<and>
      qnodes m' q xs \<and> qdata m' xs = qdata m xs \<and> live m' = live m - {x} \<and>
      same_outside (set (q # x # xs)) m m'"
    if "qnodes m q (x # xs)" for m :: "'a mem" and q x xs out
    using node_remove [of m q "[]" x xs] that qnodes_nonnull(1) [OF that] first_removed [OF that]
    by (auto simp: DeMsgQueue_def)
qed (auto simp: EnMsgQueue_def DeMsgQueue_def list_empty_ok qnodes_def dest: dll_live(1))

text \<open>The two queues are the same code up to names.\<close>

lemma task_msg_same: "EnTaskQueue = EnMsgQueue" "DeTaskQueue = DeMsgQueue"
  by (auto simp: fun_eq_iff EnTaskQueue_def EnMsgQueue_def DeTaskQueue_def DeMsgQueue_def)

interpretation udptaskq: fifo_queue EnTaskQueue DeTaskQueue
  unfolding task_msg_same by (rule lcmsgq.fifo_queue_axioms)

end
