(* ===== verification/Udp_Channels.thy ===== *)
theory Udp_Channels
  imports Udp_Queues Byte_Queue Lc_Msg
begin

text \<open>
  The process-wide message queues of the UDP server (\<open>server_lcmsgqueue\<close>) and client
  (\<open>client_lcmsgqueue\<close>): a message queue behind a global pointer that is set up on first use. Each
  function holds the mutex of the queue while it works and is modelled as one step. \<open>ok\<close> is the
  allocation of the global structure, \<open>hp\<close> that of the list head, \<open>p\<close> that of a node.
\<close>

record msg_channel =
  g_queue :: "addr gptr"
  ch_mem :: "LcMsg mem"

section \<open>Server\<close>

definition InitSrvMsgQueue :: "bool \<Rightarrow> addr \<Rightarrow> msg_channel \<Rightarrow> msg_channel option" where
  "InitSrvMsgQueue ok hp s =
     (if g_queue s \<noteq> Null then Some s
      else if \<not> ok then None
      else do {
        m \<leftarrow> INIT_LIST_HEAD hp (mem_malloc hp (ch_mem s));
        Some \<lparr>g_queue = Ptr hp, ch_mem = m\<rparr> })"

text \<open>\<open>DestoryMsgQueue\<close> leaves NULL in \<open>queue\<close>, which is then freed again; the global pointer dangles.\<close>

definition DestorySrvMsgQueue :: "msg_channel \<Rightarrow> msg_channel option" where
  "DestorySrvMsgQueue s =
     (if g_queue s = Null then Some s
      else do {
        h \<leftarrow> deref (g_queue s);
        (_, h, m) \<leftarrow> DestoryMsgQueue h (ch_mem s);
        m \<leftarrow> mem_free h m;
        Some \<lparr>g_queue = Freed, ch_mem = m\<rparr> })"

definition EnSrvMsgQueue :: "bool \<Rightarrow> addr \<Rightarrow> addr \<Rightarrow> LcMsg obj option \<Rightarrow> msg_channel \<Rightarrow> (queue_ret_t \<times> msg_channel) option" where
  "EnSrvMsgQueue ok hp p msg s = do {
     s \<leftarrow> (if g_queue s = Null then InitSrvMsgQueue ok hp s else Some s);
     h \<leftarrow> deref (g_queue s);
     (ret, m) \<leftarrow> EnMsgQueue h msg p (ch_mem s);
     Some (ret, s\<lparr>ch_mem := m\<rparr>) }"

definition DeSrvMsgQueue :: "bool \<Rightarrow> addr \<Rightarrow> LcMsg obj option \<Rightarrow> msg_channel \<Rightarrow>
    (queue_ret_t \<times> LcMsg obj option \<times> msg_channel) option" where
  "DeSrvMsgQueue ok hp out s = do {
     s \<leftarrow> (if g_queue s = Null then InitSrvMsgQueue ok hp s else Some s);
     h \<leftarrow> deref (g_queue s);
     (ret, out, m) \<leftarrow> DeMsgQueue h out (ch_mem s);
     Some (ret, out, s\<lparr>ch_mem := m\<rparr>) }"

section \<open>Client\<close>

definition InitCliMsgQueue :: "bool \<Rightarrow> addr \<Rightarrow> msg_channel \<Rightarrow> msg_channel option" where
  "InitCliMsgQueue ok hp s =
     (if g_queue s \<noteq> Null then Some s
      else if \<not> ok then None
      else do {
        (h, m) \<leftarrow> InitMsgQueue hp (ch_mem s);
        Some \<lparr>g_queue = Ptr h, ch_mem = m\<rparr> })"

definition DestoryCliMsgQueue :: "msg_channel \<Rightarrow> msg_channel option" where
  "DestoryCliMsgQueue s =
     (if g_queue s = Null then Some s
      else do {
        h \<leftarrow> deref (g_queue s);
        (_, h, m) \<leftarrow> DestoryMsgQueue h (ch_mem s);
        m \<leftarrow> mem_free h m;
        Some \<lparr>g_queue = Null, ch_mem = m\<rparr> })"

definition EnCliMsgQueue :: "bool \<Rightarrow> addr \<Rightarrow> addr \<Rightarrow> LcMsg obj option \<Rightarrow> msg_channel \<Rightarrow> (queue_ret_t \<times> msg_channel) option" where
  "EnCliMsgQueue ok hp p msg s = do {
     s \<leftarrow> (if g_queue s = Null then InitCliMsgQueue ok hp s else Some s);
     h \<leftarrow> deref (g_queue s);
     (ret, m) \<leftarrow> EnMsgQueue h msg p (ch_mem s);
     Some (ret, s\<lparr>ch_mem := m\<rparr>) }"

definition DeCliMsgQueue :: "bool \<Rightarrow> addr \<Rightarrow> LcMsg obj option \<Rightarrow> msg_channel \<Rightarrow>
    (queue_ret_t \<times> LcMsg obj option \<times> msg_channel) option" where
  "DeCliMsgQueue ok hp out s = do {
     s \<leftarrow> (if g_queue s = Null then InitCliMsgQueue ok hp s else Some s);
     h \<leftarrow> deref (g_queue s);
     (ret, out, m) \<leftarrow> DeMsgQueue h out (ch_mem s);
     Some (ret, out, s\<lparr>ch_mem := m\<rparr>) }"

section \<open>Representation\<close>

definition ch_rep :: "msg_channel \<Rightarrow> LcMsg list \<Rightarrow> bool" where
  "ch_rep s ms \<longleftrightarrow> (\<exists>h xs. g_queue s = Ptr h \<and> qnodes (ch_mem s) h xs \<and> qdata (ch_mem s) xs = map Some ms)"

text \<open>Before the first use there is no queue, and it holds nothing.\<close>

definition ch_rep0 :: "msg_channel \<Rightarrow> LcMsg list \<Rightarrow> bool" where
  "ch_rep0 s ms \<longleftrightarrow> ch_rep s ms \<or> g_queue s = Null \<and> ms = [] \<and> NULL \<notin> live (ch_mem s)"

lemma ch_rep_null: "ch_rep s ms \<Longrightarrow> NULL \<notin> live (ch_mem s) \<and> g_queue s \<noteq> Null"
  by (auto simp: ch_rep_def qnodes_def)

lemma srv_init_ok:
  assumes "ch_rep0 s ms" "fresh (ch_mem s) hp"
  shows "\<exists>s'. (if g_queue s = Null then InitSrvMsgQueue True hp s else Some s) = Some s' \<and> ch_rep s' ms \<and>
    live (ch_mem s') \<subseteq> insert hp (live (ch_mem s))"
proof (cases "g_queue s = Null")
  case True
  then obtain m' where "INIT_LIST_HEAD hp (mem_malloc hp (ch_mem s)) = Some m'" "qnodes m' hp []"
    "live m' = insert hp (live (ch_mem s))" "ms = []"
    using head_init [OF assms(2)] assms(1) ch_rep_null by (auto simp: ch_rep0_def)
  with True show ?thesis by (auto simp: InitSrvMsgQueue_def ch_rep_def)
qed (use assms in \<open>auto simp: ch_rep0_def\<close>)

lemma cli_init_same: "hp \<noteq> NULL \<Longrightarrow> InitCliMsgQueue ok hp s = InitSrvMsgQueue ok hp s"
  by (simp add: InitCliMsgQueue_def InitSrvMsgQueue_def InitMsgQueue_def)

lemma ch_enq:
  assumes "ch_rep s ms" "fresh (ch_mem s) p"
  shows "\<exists>h m'. g_queue s = Ptr h \<and> EnMsgQueue h (Some (Some d)) p (ch_mem s) = Some (QUEUE_SUCCESS, m') \<and>
    ch_rep (s\<lparr>ch_mem := m'\<rparr>) (ms @ [d]) \<and> live m' = insert p (live (ch_mem s))"
proof -
  obtain h xs where q: "g_queue s = Ptr h" "qnodes (ch_mem s) h xs" "qdata (ch_mem s) xs = map Some ms"
    using assms(1) by (auto simp: ch_rep_def)
  obtain m' where m': "EnMsgQueue h (Some (Some d)) p (ch_mem s) = Some (QUEUE_SUCCESS, m')"
    "qnodes m' h (xs @ [p])" "dataf m' p = Some d" "qdata m' xs = qdata (ch_mem s) xs"
    "live m' = insert p (live (ch_mem s))"
    using lcmsgq.enq_ok [OF q(2) assms(2)] by blast
  then have "qdata m' (xs @ [p]) = map Some (ms @ [d])" using q(3) by simp
  with m' q(1) have "ch_rep (s\<lparr>ch_mem := m'\<rparr>) (ms @ [d])"
    unfolding ch_rep_def by (intro exI [of _ h] exI [of _ "xs @ [p]"]) simp
  with m' q(1) show ?thesis by blast
qed

lemma ch_deq:
  assumes "ch_rep s (d # ms)"
  shows "\<exists>h m'. g_queue s = Ptr h \<and> DeMsgQueue h out (ch_mem s) = Some (QUEUE_SUCCESS, map_option (\<lambda>_. Some d) out, m') \<and>
    ch_rep (s\<lparr>ch_mem := m'\<rparr>) ms"
proof -
  obtain h xs where q: "g_queue s = Ptr h" "qnodes (ch_mem s) h xs" "qdata (ch_mem s) xs = map Some (d # ms)"
    using assms(1) by (auto simp: ch_rep_def)
  then obtain x ys where xs: "xs = x # ys" by (cases xs) auto
  with q lcmsgq.deq_ok [of "ch_mem s" h x ys out] show ?thesis
    by (auto simp: ch_rep_def)
qed

lemma ch_deq_empty:
  "ch_rep s [] \<Longrightarrow> \<exists>h. g_queue s = Ptr h \<and> DeMsgQueue h out (ch_mem s) = Some (QUEUE_EMPTY, out, ch_mem s)"
  using lcmsgq.deq_empty by (auto simp: ch_rep_def qdata_def)

lemma EnSrvMsgQueue_ok:
  assumes "ch_rep0 s ms" "fresh (ch_mem s) hp" "fresh (ch_mem s) p" "hp \<noteq> p"
  shows "\<exists>s'. EnSrvMsgQueue True hp p (Some (Some d)) s = Some (QUEUE_SUCCESS, s') \<and> ch_rep s' (ms @ [d])"
proof -
  obtain s1 where 1: "(if g_queue s = Null then InitSrvMsgQueue True hp s else Some s) = Some s1" "ch_rep s1 ms"
    "live (ch_mem s1) \<subseteq> insert hp (live (ch_mem s))"
    using srv_init_ok [OF assms(1,2)] by blast
  have "fresh (ch_mem s1) p" using 1(3) assms(3,4) by (auto simp: fresh_def)
  from ch_enq [OF 1(2) this, of d] 1(1) show ?thesis
    by (auto simp: EnSrvMsgQueue_def)
qed

lemma DeSrvMsgQueue_ok:
  "ch_rep s (d # ms) \<Longrightarrow>
   \<exists>s'. DeSrvMsgQueue ok hp (Some buf) s = Some (QUEUE_SUCCESS, Some (Some d), s') \<and> ch_rep s' ms"
  using ch_deq [of s d ms "Some buf"] ch_rep_null [of s "d # ms"] by (auto simp: DeSrvMsgQueue_def)

lemma DeSrvMsgQueue_empty:
  "ch_rep s [] \<Longrightarrow> DeSrvMsgQueue ok hp out s = Some (QUEUE_EMPTY, out, s)"
  using ch_deq_empty [of s out] ch_rep_null [of s "[]"] by (auto simp: DeSrvMsgQueue_def)

text \<open>Once set up, both channels are unbounded first-in first-out queues of messages.\<close>

interpretation srvch: byte_queue "\<lambda>p d s. EnSrvMsgQueue True NULL p (Some (Some d)) s"
  "\<lambda>s. map_option (\<lambda>(r, out, s). (r, the (the out), s)) (DeSrvMsgQueue True NULL (Some None) s)"
  ch_rep "\<lambda>_. None" "\<lambda>p d s. fresh (ch_mem s) p"
proof
  show "\<exists>s'. EnSrvMsgQueue True NULL p (Some (Some d)) s = Some (QUEUE_SUCCESS, s') \<and> ch_rep s' (ms @ [d]) \<and> None = None"
    if "ch_rep s ms" "fresh (ch_mem s) p" for s ms p d
    using ch_enq [OF that, of d] ch_rep_null [OF that(1)] by (auto simp: EnSrvMsgQueue_def)
qed (use DeSrvMsgQueue_ok DeSrvMsgQueue_empty in \<open>fastforce simp: spec_full_def\<close>)+

interpretation clich: byte_queue "\<lambda>p d s. EnCliMsgQueue True NULL p (Some (Some d)) s"
  "\<lambda>s. map_option (\<lambda>(r, out, s). (r, the (the out), s)) (DeCliMsgQueue True NULL (Some None) s)"
  ch_rep "\<lambda>_. None" "\<lambda>p d s. fresh (ch_mem s) p"
proof
  show "\<exists>s'. EnCliMsgQueue True NULL p (Some (Some d)) s = Some (QUEUE_SUCCESS, s') \<and> ch_rep s' (ms @ [d]) \<and> None = None"
    if "ch_rep s ms" "fresh (ch_mem s) p" for s ms p d
    using ch_enq [OF that, of d] ch_rep_null [OF that(1)] by (auto simp: EnCliMsgQueue_def)
  show "\<exists>d. map_option (\<lambda>(r, out, s). (r, the (the out), s)) (DeCliMsgQueue True NULL (Some None) s) =
      Some (QUEUE_EMPTY, d, s)" if "ch_rep s []" for s
    using ch_deq_empty [OF that, of "Some None"] ch_rep_null [OF that] by (auto simp: DeCliMsgQueue_def)
  show "\<exists>s'. map_option (\<lambda>(r, out, s). (r, the (the out), s)) (DeCliMsgQueue True NULL (Some None) s) =
      Some (QUEUE_SUCCESS, x, s') \<and> ch_rep s' ms \<and> None = None" if "ch_rep s (x # ms)" for s x ms
    using ch_deq [OF that, of "Some None"] ch_rep_null [OF that] by (auto simp: DeCliMsgQueue_def)
qed (simp add: spec_full_def)

lemma DestoryMsgQueue_ok:
  assumes "qnodes m q xs"
  shows "\<exists>m'. DestoryMsgQueue q m = Some (QUEUE_SUCCESS, NULL, m') \<and> live m' = live m - set (q # xs)"
proof -
  obtain m1 where 1: "drain_until_empty DeMsgQueue q m = Some m1" "qnodes m1 q []" "live m1 = live m - set xs"
    "same_outside (set (q # xs)) m m1"
    using lcmsgq.drain_until_empty_ok [OF assms] by blast
  then show ?thesis
    using lcmsgq.drained_free [OF assms 1(2-4)] qnodes_nonnull(1) [OF assms] by (auto simp: DestoryMsgQueue_def)
qed

lemma destroy_channels:
  assumes "ch_rep s ms"
  shows "\<exists>s'. DestorySrvMsgQueue s = Some s' \<and> g_queue s' = Freed"
    "\<exists>s'. DestoryCliMsgQueue s = Some s' \<and> g_queue s' = Null \<and> NULL \<notin> live (ch_mem s')"
proof -
  obtain h xs where q: "g_queue s = Ptr h" "qnodes (ch_mem s) h xs"
    using assms by (auto simp: ch_rep_def)
  then obtain m' where "DestoryMsgQueue h (ch_mem s) = Some (QUEUE_SUCCESS, NULL, m')"
    "live m' = live (ch_mem s) - set (h # xs)"
    using DestoryMsgQueue_ok by blast
  with q show "\<exists>s'. DestorySrvMsgQueue s = Some s' \<and> g_queue s' = Freed"
    "\<exists>s'. DestoryCliMsgQueue s = Some s' \<and> g_queue s' = Null \<and> NULL \<notin> live (ch_mem s')"
    by (auto simp: DestorySrvMsgQueue_def DestoryCliMsgQueue_def qnodes_def)
qed

section \<open>Properties\<close>

text \<open>A channel that holds one message.\<close>

definition one_message :: msg_channel where
  "one_message = \<lparr>g_queue = Ptr 1, ch_mem = \<lparr>live = {1, 2}, nextf = [1 \<mapsto> 2, 2 \<mapsto> 1], prevf = [1 \<mapsto> 2, 2 \<mapsto> 1],
     dataf = [2 \<mapsto> [42]]\<rparr>\<rparr>"

lemma one_message_rep: "ch_rep one_message [[42]]"
  by (auto simp: ch_rep_def one_message_def qnodes_def dll_def linked_def intro!: exI [of _ "[2]"])

text \<open>
  The server's message channel behaves as an unbounded first-in-first-out queue over every
  sequence of \<open>EnSrvMsgQueue\<close> and \<open>DeSrvMsgQueue\<close> calls: the results are those of the list
  specification and so are the messages left.
\<close>

theorem server_channel_refines_fifo:
  assumes "ch_rep s ms"
    "env_run (\<lambda>p d s. fresh (ch_mem s) p) (\<lambda>p d s. EnSrvMsgQueue True NULL p (Some (Some d)) s)
       (\<lambda>s. map_option (\<lambda>(r, out, s). (r, the (the out), s)) (DeSrvMsgQueue True NULL (Some None) s)) xs s"
  shows "\<exists>s'. q_run (\<lambda>p d s. EnSrvMsgQueue True NULL p (Some (Some d)) s)
       (\<lambda>s. map_option (\<lambda>(r, out, s). (r, the (the out), s)) (DeSrvMsgQueue True NULL (Some None) s)) xs s =
      Some (fst (spec_run None xs ms), s') \<and> ch_rep s' (snd (spec_run None xs ms))"
  using assms by (rule srvch.run_refines)

theorem server_channel_refines_fifo_witness:
  "\<exists>s'. q_run (\<lambda>p d s. EnSrvMsgQueue True NULL p (Some (Some d)) s)
       (\<lambda>s. map_option (\<lambda>(r, out, s). (r, the (the out), s)) (DeSrvMsgQueue True NULL (Some None) s))
       [Enq 5 [7], Deq, Deq, Deq] one_message =
      Some ([Done QUEUE_SUCCESS, Got [42], Got [7], Done QUEUE_EMPTY], s') \<and> ch_rep s' []"
  using server_channel_refines_fifo [OF one_message_rep, of "[Enq 5 [7], Deq, Deq, Deq]"]
  by (simp add: one_message_def EnSrvMsgQueue_def DeSrvMsgQueue_def EnMsgQueue_def DeMsgQueue_def fresh_def copy_out_def
      access_defs list_add_tail_def internal_list_add_def list_empty_def list_del_def internal_list_del_def
      spec_full_def)

text \<open>
  After the client destroyed its message channel the next use sets up a new one. After the
  server destroyed its channel the global pointer is left dangling: every later operation on it,
  a second destruction included, is a fault.
\<close>

theorem channel_after_destroy:
  assumes "ch_rep s ms"
  shows "(\<exists>s'. DestoryCliMsgQueue s = Some s' \<and>
      (\<forall>hp p d. fresh (ch_mem s') hp \<longrightarrow> fresh (ch_mem s') p \<longrightarrow> hp \<noteq> p \<longrightarrow>
        (\<exists>s''. EnCliMsgQueue True hp p (Some (Some d)) s' = Some (QUEUE_SUCCESS, s'') \<and> ch_rep s'' [d]))) \<and>
    (\<exists>s'. DestorySrvMsgQueue s = Some s' \<and> DestorySrvMsgQueue s' = None \<and>
      (\<forall>ok hp p msg. EnSrvMsgQueue ok hp p msg s' = None \<and> DeSrvMsgQueue ok hp msg s' = None))"
proof
  obtain s1 where s1: "DestoryCliMsgQueue s = Some s1" "g_queue s1 = Null" "NULL \<notin> live (ch_mem s1)"
    using destroy_channels(2) [OF assms] by blast
  have "\<exists>s''. EnCliMsgQueue True hp p (Some (Some d)) s1 = Some (QUEUE_SUCCESS, s'') \<and> ch_rep s'' [d]"
    if "fresh (ch_mem s1) hp" "fresh (ch_mem s1) p" "hp \<noteq> p" for hp p d
  proof -
    have "ch_rep0 s1 []" "hp \<noteq> NULL" using s1(2,3) that by (auto simp: ch_rep0_def fresh_def)
    then show ?thesis
      using EnSrvMsgQueue_ok [of s1 "[]" hp p d] that s1(2)
      by (simp add: EnCliMsgQueue_def EnSrvMsgQueue_def cli_init_same)
  qed
  with s1(1) show "\<exists>s'. DestoryCliMsgQueue s = Some s' \<and>
      (\<forall>hp p d. fresh (ch_mem s') hp \<longrightarrow> fresh (ch_mem s') p \<longrightarrow> hp \<noteq> p \<longrightarrow>
        (\<exists>s''. EnCliMsgQueue True hp p (Some (Some d)) s' = Some (QUEUE_SUCCESS, s'') \<and> ch_rep s'' [d]))"
    by blast
  show "\<exists>s'. DestorySrvMsgQueue s = Some s' \<and> DestorySrvMsgQueue s' = None \<and>
      (\<forall>ok hp p msg. EnSrvMsgQueue ok hp p msg s' = None \<and> DeSrvMsgQueue ok hp msg s' = None)"
  proof -
    obtain s2 where s2: "DestorySrvMsgQueue s = Some s2" "g_queue s2 = Freed"
      using destroy_channels(1) [OF assms] by blast
    have "DestorySrvMsgQueue s2 = None" "EnSrvMsgQueue ok hp p msg s2 = None" "DeSrvMsgQueue ok hp msg s2 = None"
      for ok hp p msg
      using s2(2) by (simp_all add: DestorySrvMsgQueue_def EnSrvMsgQueue_def DeSrvMsgQueue_def)
    with s2(1) show ?thesis by blast
  qed
qed

theorem channel_after_destroy_witness:
  "\<exists>s'. DestorySrvMsgQueue one_message = Some s' \<and> EnSrvMsgQueue True 5 6 (Some (Some [1])) s' = None"
  using channel_after_destroy [OF one_message_rep] by blast

end
