(* ===== verification/Udp_Pool.thy ===== *)
theory Udp_Pool
  imports Udp_Queues Mutex
begin

text \<open>
  The thread pool of \<open>socket_udp\<close> (\<open>common/thread_pool\<close>) and its two users, the server's and the
  client's pool. \<open>AddTaskToPool\<close> and the worker \<open>ProcessTask\<close> run concurrently: they are
  modelled as state machines that take one step per access to shared state, so that every
  interleaving of any number of threads is a sequence of steps. A task is a value of type \<open>'t\<close>
  (the handler with its argument). A worker in \<open>pthread_cond_wait\<close> goes on only when a signal, or a
  spurious wake-up, has woken it. \<open>curTaskCnt--\<close> is done outside the mutex: that is a data race with
  the increment, undefined in C (\<open>counter_race\<close> shows it reachable, \<open>only_counter_races\<close> that there is
  no other); its read and its write are modelled as two ordinary accesses, as on the machines the
  program is written for.
\<close>

section \<open>State\<close>

text \<open>
  The program counter of a worker with its locals \<open>sRet\<close> and \<open>task_\<close>: about to lock, testing the
  queue, waiting on the condition, woken and about to take the mutex again, about to unlock, the
  two halves of \<open>curTaskCnt--\<close>, about to call the handler.
\<close>

datatype 't wpc = W_Lock | W_Test | W_Wait | W_Woken | W_Unlock queue_ret_t "'t obj" | W_DecRead "'t obj"
  | W_DecWrite "'t obj" "32 word" | W_Run "'t obj"

text \<open>The same of a caller of \<open>AddTaskToPool\<close>.\<close>

datatype 't apc = A_Idle | A_Lock 't | A_Enq 't | A_IncRead | A_IncWrite "32 word" | A_Unlock | A_Signal

text \<open>
  The last three fields record the history: the tasks enqueued, dequeued and run, in order. The
  other fields of \<open>ThreadPool\<close> are constant while the pool runs.
\<close>

record 't pool =
  p_mutex :: "tid option"
  p_queue :: addr
  p_mem :: "'t mem"
  p_curTaskCnt :: "32 word"
  p_workers :: "'t wpc list"
  p_adders :: "'t apc list"
  h_put :: "'t list"
  h_got :: "'t list"
  h_ran :: "'t list"

section \<open>Steps\<close>

abbreviation set_worker :: "nat \<Rightarrow> 't wpc \<Rightarrow> 't pool \<Rightarrow> 't pool" where
  "set_worker i pc s \<equiv> s\<lparr>p_workers := (p_workers s)[i := pc]\<rparr>"

abbreviation set_adder :: "nat \<Rightarrow> 't apc \<Rightarrow> 't pool \<Rightarrow> 't pool" where
  "set_adder i pc s \<equiv> s\<lparr>p_adders := (p_adders s)[i := pc]\<rparr>"

text \<open>
  The next step of worker \<open>i\<close> at \<open>pc\<close> in \<open>ProcessTask\<close>; \<open>None\<close> when it is blocked (or would access
  memory that is not its own). \<open>pthread_cond_wait\<close> releases the mutex, blocks until the worker is
  woken, and takes the mutex again before it returns.
\<close>

fun ProcessTask_step :: "nat \<Rightarrow> 't wpc \<Rightarrow> 't pool \<Rightarrow> 't pool option" where
  "ProcessTask_step i W_Lock s =
     (if p_mutex s = None then Some (set_worker i W_Test (s\<lparr>p_mutex := Some (Worker i)\<rparr>)) else None)"
| "ProcessTask_step i W_Test s = do {
     (sRet, task, m) \<leftarrow> DeTaskQueue (p_queue s) (Some None) (p_mem s);
     task \<leftarrow> task;
     if sRet = QUEUE_EMPTY
     then Some (set_worker i W_Wait (s\<lparr>p_mem := m, p_mutex := None\<rparr>))
     else Some (set_worker i (W_Unlock sRet task)
                 (s\<lparr>p_mem := m, h_got := h_got s @ (case task of None \<Rightarrow> [] | Some t \<Rightarrow> [t])\<rparr>)) }"
| "ProcessTask_step i W_Wait s = None"
| "ProcessTask_step i W_Woken s =
     (if p_mutex s = None then Some (set_worker i W_Test (s\<lparr>p_mutex := Some (Worker i)\<rparr>)) else None)"
| "ProcessTask_step i (W_Unlock sRet task) s =
     Some (set_worker i (if sRet = QUEUE_SUCCESS then W_DecRead task else W_Lock) (s\<lparr>p_mutex := None\<rparr>))"
| "ProcessTask_step i (W_DecRead task) s = Some (set_worker i (W_DecWrite task (p_curTaskCnt s)) s)"
| "ProcessTask_step i (W_DecWrite task c) s = Some (set_worker i (W_Run task) (s\<lparr>p_curTaskCnt := c - 1\<rparr>))"
| "ProcessTask_step i (W_Run task) s = do {
     t \<leftarrow> task;
     Some (set_worker i W_Lock (s\<lparr>h_ran := h_ran s @ [t]\<rparr>)) }"

text \<open>
  The next step of caller \<open>i\<close> in \<open>AddTaskToPool\<close>; \<open>p\<close> is the address that \<open>malloc\<close> returns in
  \<open>EnTaskQueue\<close>. The signal after the unlock has no effect when no worker waits; with a waiting
  worker, \<open>signal_step\<close> is the step: it wakes one of them, \<open>j\<close>, which the system chooses.
\<close>

fun AddTaskToPool_step :: "nat \<Rightarrow> addr \<Rightarrow> 't apc \<Rightarrow> 't pool \<Rightarrow> 't pool option" where
  "AddTaskToPool_step i p A_Idle s = None"
| "AddTaskToPool_step i p (A_Lock t) s =
     (if p_mutex s = None then Some (set_adder i (A_Enq t) (s\<lparr>p_mutex := Some (Adder i)\<rparr>)) else None)"
| "AddTaskToPool_step i p (A_Enq t) s = do {
     (r, m) \<leftarrow> EnTaskQueue (p_queue s) (Some (Some t)) p (p_mem s);
     if r = QUEUE_SUCCESS
     then Some (set_adder i A_IncRead (s\<lparr>p_mem := m, h_put := h_put s @ [t]\<rparr>))
     else Some (set_adder i A_Unlock (s\<lparr>p_mem := m\<rparr>)) }"
| "AddTaskToPool_step i p A_IncRead s = Some (set_adder i (A_IncWrite (p_curTaskCnt s)) s)"
| "AddTaskToPool_step i p (A_IncWrite c) s = Some (set_adder i A_Unlock (s\<lparr>p_curTaskCnt := c + 1\<rparr>))"
| "AddTaskToPool_step i p A_Unlock s = Some (set_adder i A_Signal (s\<lparr>p_mutex := None\<rparr>))"
| "AddTaskToPool_step i p A_Signal s = (if W_Wait \<in> set (p_workers s) then None else Some (set_adder i A_Idle s))"

definition signal_step :: "nat \<Rightarrow> nat \<Rightarrow> 't pool \<Rightarrow> 't pool option" where
  "signal_step i j s =
     (if i < length (p_adders s) \<and> p_adders s ! i = A_Signal \<and> j < length (p_workers s) \<and> p_workers s ! j = W_Wait
      then Some (set_adder i A_Idle (set_worker j W_Woken s)) else None)"

text \<open>
  One step of the pool: a thread calls \<open>AddTaskToPool\<close>, or takes its next step; caller \<open>i\<close> wakes the
  waiting worker \<open>j\<close>; or worker \<open>i\<close> wakes up without a signal, which POSIX allows.
\<close>

datatype 't pool_ev = Call nat 't | Step_adder nat addr | Step_worker nat | Signal nat nat | Spurious nat

fun pool_step :: "'t pool_ev \<Rightarrow> 't pool \<Rightarrow> 't pool option" where
  "pool_step (Call i t) s =
     (if i < length (p_adders s) \<and> p_adders s ! i = A_Idle then Some (set_adder i (A_Lock t) s) else None)"
| "pool_step (Step_adder i p) s =
     (if i < length (p_adders s) \<and> fresh (p_mem s) p then AddTaskToPool_step i p (p_adders s ! i) s else None)"
| "pool_step (Step_worker i) s =
     (if i < length (p_workers s) then ProcessTask_step i (p_workers s ! i) s else None)"
| "pool_step (Signal i j) s = signal_step i j s"
| "pool_step (Spurious i) s =
     (if i < length (p_workers s) \<and> p_workers s ! i = W_Wait then Some (set_worker i W_Woken s) else None)"

fun pool_run :: "'t pool_ev list \<Rightarrow> 't pool \<Rightarrow> 't pool option" where
  "pool_run [] s = Some s"
| "pool_run (e # es) s = do { s \<leftarrow> pool_step e s; pool_run es s }"

text \<open>A new pool with \<open>n\<close> workers and \<open>k\<close> threads that call it; \<open>q\<close> is the head of its empty queue.\<close>

definition pool_init :: "nat \<Rightarrow> nat \<Rightarrow> addr \<Rightarrow> 't pool" where
  "pool_init n k q = \<lparr>p_mutex = None, p_queue = q,
     p_mem = (case InitTaskQueue q empty_mem of Some (_, m) \<Rightarrow> m | None \<Rightarrow> empty_mem),
     p_curTaskCnt = 0, p_workers = replicate n W_Lock, p_adders = replicate k A_Idle,
     h_put = [], h_got = [], h_ran = []\<rparr>"

inductive reachable :: "'t pool \<Rightarrow> 't pool \<Rightarrow> bool" for s0 where
  start: "reachable s0 s0"
| step: "reachable s0 s \<Longrightarrow> pool_step e s = Some s' \<Longrightarrow> reachable s0 s'"

section \<open>Creation and destruction\<close>

text \<open>
  The pool as \<open>CreateThreadPool\<close> leaves it. \<open>poolTids\<close> has \<open>initThreadsCnt\<close> elements; a
  successful \<open>pthread_create\<close> writes the new thread's id, here its number plus one, to
  \<open>poolTids[i]\<close>. \<open>created i\<close> says whether the \<open>i\<close>-th call succeeds.
\<close>

record 't ThreadPool =
  curThreadsCnt :: nat
  maxThreadsCnt :: nat
  initThreadsCnt :: nat
  curTaskCnt :: "32 word"
  poolTids :: "nat list"
  taskQueue :: addr
  tp_mem :: "'t mem"

function create_loop :: "(nat \<Rightarrow> bool) \<Rightarrow> nat \<Rightarrow> 't ThreadPool \<Rightarrow> 't ThreadPool option" where
  "create_loop created i pool =
     (if i < maxThreadsCnt pool then
        if curThreadsCnt pool \<ge> maxThreadsCnt pool then Some pool
        else if curThreadsCnt pool \<ge> initThreadsCnt pool then Some pool
        else if \<not> created i then create_loop created (i + 1) pool
        else do {
          tids \<leftarrow> arr_set (poolTids pool) (int i) (i + 1);
          create_loop created (i + 1) (pool\<lparr>poolTids := tids, curThreadsCnt := curThreadsCnt pool + 1\<rparr>) }
      else Some pool)"
  by auto
termination
  by (relation "measure (\<lambda>(created, i, pool). maxThreadsCnt pool - i)") auto

declare create_loop.simps [simp del]

text \<open>\<open>malloc_ok\<close> and \<open>calloc_ok\<close> are the two allocations, \<open>q\<close> that of the queue's head.\<close>

definition CreateThreadPool ::
  "bool \<Rightarrow> bool \<Rightarrow> addr \<Rightarrow> (nat \<Rightarrow> bool) \<Rightarrow> nat \<Rightarrow> nat \<Rightarrow> 't mem \<Rightarrow> 't ThreadPool option" where
  "CreateThreadPool malloc_ok calloc_ok q created initCnt maxCnt m =
     (if \<not> malloc_ok then None
      else do {
        (tq, m) \<leftarrow> InitTaskQueue q m;
        create_loop created 0
          \<lparr>curThreadsCnt = 0, maxThreadsCnt = maxCnt, initThreadsCnt = initCnt, curTaskCnt = 0,
           poolTids = (if calloc_ok then replicate initCnt 0 else []), taskQueue = tq, tp_mem = m\<rparr> })"

text \<open>The first \<open>n\<close> thread ids, each read from the array.\<close>

fun read_tids :: "nat list \<Rightarrow> nat \<Rightarrow> nat list option" where
  "read_tids tids 0 = Some []"
| "read_tids tids (Suc n) = do { ts \<leftarrow> read_tids tids n; t \<leftarrow> arr_get tids (int n); Some (ts @ [t]) }"

text \<open>The result holds the threads cancelled and the memory after the queue is gone.\<close>

definition DestoryThreadPool :: "'t ThreadPool option \<Rightarrow> (nat list \<times> 't mem option \<times> 't ThreadPool option) option" where
  "DestoryThreadPool tp =
     (case tp of
        None \<Rightarrow> Some ([], None, None)
      | Some pool \<Rightarrow> do {
          tids \<leftarrow> read_tids (poolTids pool) (curThreadsCnt pool);
          (_, _, m) \<leftarrow> DestoryTaskQueue (taskQueue pool) (tp_mem pool);
          Some (tids, Some m, None) })"

text \<open>\<open>AddTaskToPool\<close> as one call that no other thread interrupts.\<close>

definition AddTaskToPool :: "'t ThreadPool option \<Rightarrow> 't \<Rightarrow> addr \<Rightarrow> (int \<times> 't ThreadPool option) option" where
  "AddTaskToPool tp task p =
     (case tp of
        None \<Rightarrow> Some (- 1, None)
      | Some pool \<Rightarrow> do {
          (r, m) \<leftarrow> EnTaskQueue (taskQueue pool) (Some (Some task)) p (tp_mem pool);
          Some (0, Some (if r = QUEUE_SUCCESS
                         then pool\<lparr>tp_mem := m, curTaskCnt := curTaskCnt pool + 1\<rparr>
                         else pool\<lparr>tp_mem := m\<rparr>)) })"

section \<open>The server's and the client's pool\<close>

definition CreateServerThreadPool ::
  "bool \<Rightarrow> bool \<Rightarrow> addr \<Rightarrow> (nat \<Rightarrow> bool) \<Rightarrow> 't mem \<Rightarrow> 't ThreadPool option \<Rightarrow> 't ThreadPool option option" where
  "CreateServerThreadPool malloc_ok calloc_ok q created m g_srvThreadPool =
     (if g_srvThreadPool \<noteq> None then Some g_srvThreadPool
      else map_option Some (CreateThreadPool malloc_ok calloc_ok q created 5 10 m))"

definition DestoryServerThreadPool ::
  "'t ThreadPool option \<Rightarrow> (nat list \<times> 't mem option \<times> 't ThreadPool option) option" where
  "DestoryServerThreadPool g_srvThreadPool = DestoryThreadPool g_srvThreadPool"

definition AddTaskToServerPool :: "'t ThreadPool option \<Rightarrow> 't \<Rightarrow> addr \<Rightarrow> (int \<times> 't ThreadPool option) option" where
  "AddTaskToServerPool g_srvThreadPool task p = AddTaskToPool g_srvThreadPool task p"

text \<open>
  The variants that copy the argument: the handler gets a new block with the first \<open>argSize\<close>
  bytes of \<open>arg\<close>. \<open>mk\<close> makes the task from the copy; \<open>ok\<close> is the result of \<open>malloc\<close>.
\<close>

definition AddTaskToServerPoolReleaseArgMem ::
  "bool \<Rightarrow> (byte list \<Rightarrow> 't) \<Rightarrow> byte list \<Rightarrow> nat \<Rightarrow> 't ThreadPool option \<Rightarrow> addr \<Rightarrow> (int \<times> 't ThreadPool option) option" where
  "AddTaskToServerPoolReleaseArgMem ok mk arg argSize g_srvThreadPool p =
     (if \<not> ok then None
      else do { tmp \<leftarrow> buf_read arg 0 argSize; AddTaskToPool g_srvThreadPool (mk tmp) p })"

definition CreateClientThreadPool ::
  "bool \<Rightarrow> bool \<Rightarrow> addr \<Rightarrow> (nat \<Rightarrow> bool) \<Rightarrow> 't mem \<Rightarrow> 't ThreadPool option \<Rightarrow> 't ThreadPool option option" where
  "CreateClientThreadPool malloc_ok calloc_ok q created m g_cliThreadPool =
     (if g_cliThreadPool \<noteq> None then Some g_cliThreadPool
      else map_option Some (CreateThreadPool malloc_ok calloc_ok q created 2 5 m))"

definition DestoryClientThreadPool ::
  "'t ThreadPool option \<Rightarrow> (nat list \<times> 't mem option \<times> 't ThreadPool option) option" where
  "DestoryClientThreadPool g_cliThreadPool = DestoryThreadPool g_cliThreadPool"

definition AddTaskToClientPool :: "'t ThreadPool option \<Rightarrow> 't \<Rightarrow> addr \<Rightarrow> (int \<times> 't ThreadPool option) option" where
  "AddTaskToClientPool g_cliThreadPool task p = AddTaskToPool g_cliThreadPool task p"

definition AddTaskToClientPoolReleaseArgMem ::
  "bool \<Rightarrow> (byte list \<Rightarrow> 't) \<Rightarrow> byte list \<Rightarrow> nat \<Rightarrow> 't ThreadPool option \<Rightarrow> addr \<Rightarrow> (int \<times> 't ThreadPool option) option" where
  "AddTaskToClientPoolReleaseArgMem ok mk arg argSize g_cliThreadPool p =
     (if \<not> ok then None
      else do { tmp \<leftarrow> buf_read arg 0 argSize; AddTaskToPool g_cliThreadPool (mk tmp) p })"

section \<open>Invariants of every interleaving\<close>

text \<open>The threads inside the critical section are exactly the owner of the mutex.\<close>

fun w_critical :: "'t wpc \<Rightarrow> bool" where
  "w_critical W_Test = True"
| "w_critical (W_Unlock r t) = True"
| "w_critical _ = False"

fun a_critical :: "'t apc \<Rightarrow> bool" where
  "a_critical (A_Enq t) = True"
| "a_critical A_IncRead = True"
| "a_critical (A_IncWrite c) = True"
| "a_critical A_Unlock = True"
| "a_critical _ = False"

definition lock_inv :: "'t pool \<Rightarrow> bool" where
  "lock_inv s \<longleftrightarrow> lock_ok w_critical (p_workers s) a_critical (p_adders s) (p_mutex s)"

text \<open>The queue is intact and holds the tasks that were put in and not yet taken out, in order.\<close>

definition queue_inv :: "'t pool \<Rightarrow> bool" where
  "queue_inv s \<longleftrightarrow> (\<exists>xs ds. qnodes (p_mem s) (p_queue s) xs \<and> qdata (p_mem s) xs = map Some ds \<and>
     h_put s = h_got s @ ds)"

text \<open>The tasks a worker has taken and not yet run.\<close>

fun held :: "'t wpc \<Rightarrow> 't list" where
  "held (W_Unlock r (Some t)) = [t]"
| "held (W_DecRead (Some t)) = [t]"
| "held (W_DecWrite (Some t) c) = [t]"
| "held (W_Run (Some t)) = [t]"
| "held _ = []"

fun w_wf :: "'t wpc \<Rightarrow> bool" where
  "w_wf (W_Unlock r t) = (r = QUEUE_SUCCESS \<and> t \<noteq> None)"
| "w_wf (W_DecRead t) = (t \<noteq> None)"
| "w_wf (W_DecWrite t c) = (t \<noteq> None)"
| "w_wf (W_Run t) = (t \<noteq> None)"
| "w_wf _ = True"

definition flight_inv :: "'t pool \<Rightarrow> bool" where
  "flight_inv s \<longleftrightarrow> (\<forall>w \<in> set (p_workers s). w_wf w) \<and>
     mset (h_got s) = mset (h_ran s) + mset (concat (map held (p_workers s)))"

text \<open>What a worker finds in the queue.\<close>

lemma DeTaskQueue_cases:
  assumes "queue_inv s"
  obtains (empty) "DeTaskQueue (p_queue s) (Some None) (p_mem s) = Some (QUEUE_EMPTY, Some None, p_mem s)"
      "h_put s = h_got s"
    | (task) t m where "DeTaskQueue (p_queue s) (Some None) (p_mem s) = Some (QUEUE_SUCCESS, Some (Some t), m)"
      "queue_inv (s\<lparr>p_mem := m, h_got := h_got s @ [t]\<rparr>)"
proof -
  obtain xs ds where q: "qnodes (p_mem s) (p_queue s) xs" "qdata (p_mem s) xs = map Some ds" "h_put s = h_got s @ ds"
    using assms by (auto simp: queue_inv_def)
  show thesis
  proof (cases xs)
    case Nil
    then show thesis using q empty udptaskq.deq_empty [of "p_mem s" "p_queue s"] by auto
  next
    case (Cons x ys)
    then obtain t ts where ds: "ds = t # ts" "dataf (p_mem s) x = Some t" "qdata (p_mem s) ys = map Some ts"
      using q(2) by (cases ds) auto
    obtain m where "DeTaskQueue (p_queue s) (Some None) (p_mem s) = Some (QUEUE_SUCCESS, Some (Some t), m)"
      "qnodes m (p_queue s) ys" "qdata m ys = map Some ts"
      using udptaskq.deq_ok [of "p_mem s" "p_queue s" x ys "Some None"] q(1) Cons ds by auto
    then show thesis using task q(3) ds(1) by (force simp: queue_inv_def)
  qed
qed

lemma EnTaskQueue_queue:
  assumes "queue_inv s" "fresh (p_mem s) p"
  obtains m where "EnTaskQueue (p_queue s) (Some (Some t)) p (p_mem s) = Some (QUEUE_SUCCESS, m)"
    "queue_inv (s\<lparr>p_mem := m, h_put := h_put s @ [t]\<rparr>)"
proof -
  obtain xs ds where q: "qnodes (p_mem s) (p_queue s) xs" "qdata (p_mem s) xs = map Some ds" "h_put s = h_got s @ ds"
    using assms(1) by (auto simp: queue_inv_def)
  obtain m where m: "EnTaskQueue (p_queue s) (Some (Some t)) p (p_mem s) = Some (QUEUE_SUCCESS, m)"
    "qnodes m (p_queue s) (xs @ [p])" "dataf m p = Some t" "qdata m xs = qdata (p_mem s) xs"
    using udptaskq.enq_ok [OF q(1) assms(2)] by blast
  have "qdata m (xs @ [p]) = map Some (ds @ [t])"
    using m(3,4) q(2) by simp
  with m(1,2) q(3) show thesis
    by (intro that [of m]) (auto simp: queue_inv_def)
qed

lemma queue_inv_cong:
  "p_mem s' = p_mem s \<Longrightarrow> p_queue s' = p_queue s \<Longrightarrow> h_put s' = h_put s \<Longrightarrow> h_got s' = h_got s \<Longrightarrow>
   queue_inv s' = queue_inv s"
  by (simp add: queue_inv_def)

lemma flight_inv_worker:
  assumes inv: "flight_inv s" and i: "i < length (p_workers s)"
    and s': "p_workers s' = (p_workers s)[i := pc]" "w_wf pc" "h_got s' = h_got s @ got" "h_ran s' = h_ran s @ fin"
    and bal: "mset (held pc) + mset fin = mset (held (p_workers s ! i)) + mset got"
  shows "flight_inv s'"
proof -
  have "\<forall>w \<in> set ((p_workers s)[i := pc]). w_wf w"
    using inv s'(2) by (auto simp: flight_inv_def dest!: set_update_subset_insert [THEN subsetD])
  moreover have "mset (h_got s @ got) = mset (h_ran s @ fin) + mset (concat (map held ((p_workers s)[i := pc])))"
  proof -
    have "mset (h_got s @ got) + mset (held (p_workers s ! i)) =
        mset (h_ran s) + (mset (concat (map held (p_workers s))) + mset (held pc)) + mset fin"
      using inv bal by (simp add: flight_inv_def ac_simps)
    also have "\<dots> = mset (h_ran s @ fin) + mset (concat (map held ((p_workers s)[i := pc]))) + mset (held (p_workers s ! i))"
      using mset_concat_update [OF i, of held pc] by (simp add: ac_simps)
    finally show ?thesis by simp
  qed
  ultimately show ?thesis
    unfolding flight_inv_def s' by blast
qed

definition pool_inv :: "'t pool \<Rightarrow> bool" where
  "pool_inv s \<longleftrightarrow> lock_inv s \<and> queue_inv s \<and> flight_inv s"

lemma worker_at:
  assumes "pool_inv s" "i < length (p_workers s)"
  shows "w_wf (p_workers s ! i)"
  using assms by (auto simp: pool_inv_def flight_inv_def)

lemma pool_inv_worker:
  assumes inv: "pool_inv s" and i: "i < length (p_workers s)"
    and s': "p_workers s' = (p_workers s)[i := pc]" "p_adders s' = p_adders s" "w_wf pc"
      "h_got s' = h_got s @ got" "h_ran s' = h_ran s @ fin" "queue_inv s'"
    and ch: "lock_change (Worker i) (w_critical (p_workers s ! i)) (w_critical pc) (p_mutex s) (p_mutex s')"
    and bal: "mset (held pc) + mset fin = mset (held (p_workers s ! i)) + mset got"
  shows "pool_inv s'"
  using assms lock_ok_worker [OF _ i ch] flight_inv_worker [OF _ i s'(1,3,4,5) bal]
  by (auto simp: pool_inv_def lock_inv_def)

lemma ProcessTask_step_inv:
  assumes inv: "pool_inv s" and i: "i < length (p_workers s)"
    and st: "ProcessTask_step i (p_workers s ! i) s = Some s'"
  shows "pool_inv s'"
proof -
  have q: "queue_inv s" using inv by (simp add: pool_inv_def)
  note wf = worker_at [OF inv i]
  show ?thesis
  proof (cases "p_workers s ! i")
    case W_Lock
    then show ?thesis
      using st q by (intro pool_inv_worker [OF inv i, where pc = W_Test and got = "[]" and fin = "[]"])
        (auto simp: lock_change_def queue_inv_def split: if_splits)
  next
    case W_Wait
    then show ?thesis using st by simp
  next
    case W_Woken
    then show ?thesis
      using st q by (intro pool_inv_worker [OF inv i, where pc = W_Test and got = "[]" and fin = "[]"])
        (auto simp: lock_change_def queue_inv_def split: if_splits)
  next
    case W_Test
    from q show ?thesis
    proof (cases rule: DeTaskQueue_cases)
      case empty
      then show ?thesis
        using st q W_Test by (intro pool_inv_worker [OF inv i, where pc = W_Wait and got = "[]" and fin = "[]"])
          (auto simp: lock_change_def queue_inv_def)
    next
      case (task t m)
      then show ?thesis
        using st W_Test
        by (intro pool_inv_worker [OF inv i, where pc = "W_Unlock QUEUE_SUCCESS (Some t)" and got = "[t]" and fin = "[]"])
          (auto simp: lock_change_def queue_inv_def)
    qed
  next
    case (W_Unlock r t)
    then show ?thesis
      using st q wf by (intro pool_inv_worker [OF inv i, where pc = "W_DecRead t" and got = "[]" and fin = "[]"])
        (auto simp: lock_change_def queue_inv_def)
  next
    case (W_DecRead t)
    then show ?thesis
      using st q wf
      by (intro pool_inv_worker [OF inv i, where pc = "W_DecWrite t (p_curTaskCnt s)" and got = "[]" and fin = "[]"])
        (auto simp: lock_change_def queue_inv_def)
  next
    case (W_DecWrite t c)
    then show ?thesis
      using st q wf by (intro pool_inv_worker [OF inv i, where pc = "W_Run t" and got = "[]" and fin = "[]"])
        (auto simp: lock_change_def queue_inv_def)
  next
    case (W_Run t)
    then obtain u where "t = Some u" using wf by auto
    with W_Run show ?thesis
      using st q by (intro pool_inv_worker [OF inv i, where pc = W_Lock and got = "[]" and fin = "[u]"])
        (auto simp: lock_change_def queue_inv_def)
  qed
qed

lemma pool_inv_adder:
  assumes inv: "pool_inv s" and i: "i < length (p_adders s)"
    and s': "p_adders s' = (p_adders s)[i := pc]" "p_workers s' = p_workers s"
      "h_got s' = h_got s" "h_ran s' = h_ran s" "queue_inv s'"
    and ch: "lock_change (Adder i) (a_critical (p_adders s ! i)) (a_critical pc) (p_mutex s) (p_mutex s')"
  shows "pool_inv s'"
  using assms lock_ok_adder [OF _ i ch] by (auto simp: pool_inv_def flight_inv_def lock_inv_def)

lemma AddTaskToPool_step_inv:
  assumes inv: "pool_inv s" and i: "i < length (p_adders s)" and p: "fresh (p_mem s) p"
    and st: "AddTaskToPool_step i p (p_adders s ! i) s = Some s'"
  shows "pool_inv s'"
proof -
  have q: "queue_inv s" using inv by (simp add: pool_inv_def)
  show ?thesis
  proof (cases "p_adders s ! i")
    case (A_Enq t)
    obtain m where "EnTaskQueue (p_queue s) (Some (Some t)) p (p_mem s) = Some (QUEUE_SUCCESS, m)"
      "queue_inv (s\<lparr>p_mem := m, h_put := h_put s @ [t]\<rparr>)"
      using EnTaskQueue_queue [OF q p] by blast
    then show ?thesis
      using st A_Enq by (intro pool_inv_adder [OF inv i, where pc = A_IncRead])
        (auto simp: lock_change_def queue_inv_def)
  qed (use st q in \<open>force intro!: pool_inv_adder [OF inv i] simp: lock_change_def queue_inv_def split: if_splits\<close>)+
qed

lemma woken_inv:
  assumes "pool_inv s" "i < length (p_workers s)" "p_workers s ! i = W_Wait"
  shows "pool_inv (set_worker i W_Woken s)"
  using assms by (intro pool_inv_worker [OF assms(1,2), where pc = W_Woken and got = "[]" and fin = "[]"])
    (auto simp: lock_change_def pool_inv_def queue_inv_def)

lemma signal_inv: "pool_inv s \<Longrightarrow> signal_step i j s = Some s' \<Longrightarrow> pool_inv s'"
proof -
  assume inv: "pool_inv s" and st: "signal_step i j s = Some s'"
  let ?s = "set_worker j W_Woken s"
  have i: "i < length (p_adders ?s)" "p_adders ?s ! i = A_Signal" "s' = set_adder i A_Idle ?s"
    "j < length (p_workers s)" "p_workers s ! j = W_Wait"
    using st by (auto simp: signal_step_def split: if_splits)
  have w: "pool_inv ?s" using woken_inv [OF inv i(4,5)] .
  show "pool_inv s'"
    using i w by (intro pool_inv_adder [OF w i(1), where pc = A_Idle]) (auto simp: lock_change_def pool_inv_def queue_inv_def)
qed

lemma pool_step_inv: "pool_inv s \<Longrightarrow> pool_step e s = Some s' \<Longrightarrow> pool_inv s'"
proof (cases e)
  case (Call i t)
  moreover assume "pool_inv s" "pool_step e s = Some s'"
  ultimately show ?thesis
    by (intro pool_inv_adder [of s i s' "A_Lock t"])
      (auto simp: lock_change_def pool_inv_def queue_inv_def split: if_splits)
qed (auto intro: signal_inv woken_inv AddTaskToPool_step_inv ProcessTask_step_inv split: if_splits)

lemma pool_init_inv: "q \<noteq> NULL \<Longrightarrow> pool_inv (pool_init n k q :: 't pool)"
proof -
  assume "q \<noteq> NULL"
  then obtain m :: "'t mem" where "INIT_LIST_HEAD q (mem_malloc q empty_mem) = Some m" "qnodes m q []"
    using head_init [of "empty_mem :: 't mem" q] by (auto simp: empty_mem_def fresh_def)
  with \<open>q \<noteq> NULL\<close> have "queue_inv (pool_init n k q :: 't pool)"
    by (auto simp: pool_init_def queue_inv_def InitTaskQueue_def)
  moreover have "concat (map held (replicate n W_Lock)) = ([] :: 't list)"
    by (induction n) auto
  then have "flight_inv (pool_init n k q :: 't pool)"
    by (simp add: pool_init_def flight_inv_def)
  moreover have "lock_inv (pool_init n k q :: 't pool)"
    by (simp add: pool_init_def lock_inv_def lock_ok_def)
  ultimately show ?thesis by (simp add: pool_inv_def)
qed

lemma reachable_inv: "reachable s0 s \<Longrightarrow> pool_inv s0 \<Longrightarrow> pool_inv s"
  by (induction rule: reachable.induct) (auto intro: pool_step_inv)

lemma pool_run_reachable: "pool_run es s = Some s' \<Longrightarrow> reachable s0 s \<Longrightarrow> reachable s0 s'"
  by (induction es arbitrary: s) (auto simp: bind_eq_Some_conv intro: reachable.step)

section \<open>Creation\<close>

definition tids_ok :: "nat \<Rightarrow> 't ThreadPool \<Rightarrow> bool" where
  "tids_ok i pool \<longleftrightarrow> curThreadsCnt pool = i \<and> length (poolTids pool) = initThreadsCnt pool \<and>
     i \<le> initThreadsCnt pool \<and> (\<forall>j < i. poolTids pool ! j = j + 1)"

lemma create_loop_all:
  assumes "tids_ok i pool" "i \<le> maxThreadsCnt pool"
    "\<And>j. i \<le> j \<Longrightarrow> j < min (initThreadsCnt pool) (maxThreadsCnt pool) \<Longrightarrow> created j"
  shows "\<exists>pool'. create_loop created i pool = Some pool' \<and>
    tids_ok (min (initThreadsCnt pool) (maxThreadsCnt pool)) pool' \<and>
    initThreadsCnt pool' = initThreadsCnt pool \<and> taskQueue pool' = taskQueue pool \<and> tp_mem pool' = tp_mem pool"
  using assms
proof (induction "maxThreadsCnt pool - i" arbitrary: i pool)
  case 0
  then show ?case by (subst create_loop.simps) (auto simp: tids_ok_def min_def)
next
  case (Suc n)
  show ?case
  proof (cases "i < initThreadsCnt pool")
    case False
    then show ?thesis
      using Suc by (subst create_loop.simps) (auto simp: tids_ok_def min_def)
  next
    case True
    let ?pool = "pool\<lparr>poolTids := (poolTids pool)[i := i + 1], curThreadsCnt := i + 1\<rparr>"
    have lt: "i < maxThreadsCnt pool" using Suc.hyps(2) by simp
    have ok: "tids_ok (i + 1) ?pool"
      using Suc.prems(1) True by (auto simp: tids_ok_def nth_list_update less_Suc_eq)
    have "create_loop created i pool = create_loop created (i + 1) ?pool"
      using Suc.prems True lt by (subst create_loop.simps) (auto simp: tids_ok_def arr_set_def)
    moreover have "\<exists>pool'. create_loop created (i + 1) ?pool = Some pool' \<and>
        tids_ok (min (initThreadsCnt ?pool) (maxThreadsCnt ?pool)) pool' \<and>
        initThreadsCnt pool' = initThreadsCnt ?pool \<and> taskQueue pool' = taskQueue ?pool \<and> tp_mem pool' = tp_mem ?pool"
      using Suc.hyps(2) Suc.prems lt ok by (intro Suc.hyps(1)) auto
    ultimately show ?thesis by simp
  qed
qed

text \<open>
  When some \<open>pthread_create\<close> fails, the loop goes on beyond the end of \<open>poolTids\<close>, which has room for
  \<open>initThreadsCnt\<close> ids only: the next thread's id is written outside the array.
\<close>

lemma create_loop_overrun:
  assumes "i \<le> initThreadsCnt pool" "initThreadsCnt pool < maxThreadsCnt pool"
    "length (poolTids pool) = initThreadsCnt pool" "curThreadsCnt pool < i \<or> (\<exists>j. i \<le> j \<and> j < initThreadsCnt pool \<and> \<not> created j)"
    "curThreadsCnt pool \<le> i" "created (initThreadsCnt pool)"
  shows "create_loop created i pool = None"
  using assms
proof (induction "initThreadsCnt pool - i" arbitrary: i pool)
  case 0
  then show ?case by (subst create_loop.simps) (auto simp: arr_set_def)
next
  case (Suc n)
  have lt: "i < initThreadsCnt pool" "i < maxThreadsCnt pool" "curThreadsCnt pool < initThreadsCnt pool"
    "curThreadsCnt pool < maxThreadsCnt pool"
    using Suc by auto
  let ?pool = "pool\<lparr>poolTids := (poolTids pool)[i := i + 1], curThreadsCnt := curThreadsCnt pool + 1\<rparr>"
  show ?case
  proof (cases "created i")
    case False
    have "create_loop created (i + 1) pool = None"
      using Suc lt by (intro Suc.hyps(1)) auto
    then show ?thesis using False lt by (subst create_loop.simps) simp
  next
    case True
    have "Suc (curThreadsCnt pool) < Suc i \<or> (\<exists>j. Suc i \<le> j \<and> j < initThreadsCnt pool \<and> \<not> created j)"
      using Suc.prems(4) True by (metis Suc_leI Suc_mono order_le_less)
    then have "create_loop created (i + 1) ?pool = None"
      using Suc lt by (intro Suc.hyps(1)) auto
    then show ?thesis using True lt Suc.prems(3) by (subst create_loop.simps) (simp add: arr_set_def)
  qed
qed

lemma read_tids_ok: "n \<le> length tids \<Longrightarrow> read_tids tids n = Some (take n tids)"
  by (induction n) (auto simp: arr_get_def take_Suc_conv_app_nth)

lemma DestoryTaskQueue_ok:
  assumes "qnodes m q xs"
  shows "\<exists>m'. DestoryTaskQueue q m = Some (QUEUE_SUCCESS, NULL, m') \<and> live m' = live m - set (q # xs) \<and>
    same_outside (set (q # xs)) m m'"
proof -
  obtain m1 where 1: "drain_until_empty DeTaskQueue q m = Some m1" "qnodes m1 q []" "live m1 = live m - set xs"
    "same_outside (set (q # xs)) m m1"
    using udptaskq.drain_until_empty_ok [OF assms] by blast
  then show ?thesis
    using udptaskq.drained_free [OF assms 1(2-4)] qnodes_nonnull(1) [OF assms] by (auto simp: DestoryTaskQueue_def)
qed

text \<open>
  An uninterrupted run of the steps of a caller is the sequential \<open>AddTaskToPool\<close>, here while no worker
  waits on the condition.
\<close>

lemma adder_run_sequential:
  assumes "queue_inv s" "i < length (p_adders s)" "p_adders s ! i = A_Idle" "p_mutex s = None" "fresh (p_mem s) p"
    and idle: "W_Wait \<notin> set (p_workers s)"
    and p2: "fresh (p_mem s) p2" "p2 \<noteq> p"
  shows "\<exists>m. EnTaskQueue (p_queue s) (Some (Some t)) p (p_mem s) = Some (QUEUE_SUCCESS, m) \<and>
    pool_run [Call i t, Step_adder i p, Step_adder i p, Step_adder i p2, Step_adder i p2, Step_adder i p2, Step_adder i p2] s =
      Some (s\<lparr>p_mem := m, p_curTaskCnt := p_curTaskCnt s + 1, h_put := h_put s @ [t]\<rparr>)"
proof -
  obtain xs ds where q: "qnodes (p_mem s) (p_queue s) xs"
    using assms(1) by (auto simp: queue_inv_def)
  obtain m where m: "EnTaskQueue (p_queue s) (Some (Some t)) p (p_mem s) = Some (QUEUE_SUCCESS, m)"
    "live m = insert p (live (p_mem s))"
    using udptaskq.enq_ok [OF q assms(5)] by blast
  have "fresh m p2" using m(2) p2 by (simp add: fresh_def)
  moreover have "(p_adders s)[i := A_Idle] = p_adders s"
    using assms(2,3) by (metis list_update_id)
  ultimately show ?thesis
    using m assms(2-5) p2 idle by simp
qed

text \<open>An uninterrupted run of the six steps of a worker takes the oldest task, counts it and runs it.\<close>

lemma worker_run_sequential:
  assumes "qnodes (p_mem s) (p_queue s) (x # xs)" "dataf (p_mem s) x = Some t"
    "i < length (p_workers s)" "p_workers s ! i = W_Lock" "p_mutex s = None"
  shows "\<exists>m. DeTaskQueue (p_queue s) (Some None) (p_mem s) = Some (QUEUE_SUCCESS, Some (Some t), m) \<and>
    pool_run (replicate 6 (Step_worker i)) s =
      Some (s\<lparr>p_mem := m, p_curTaskCnt := p_curTaskCnt s - 1, h_got := h_got s @ [t], h_ran := h_ran s @ [t]\<rparr>)"
proof -
  obtain m where m: "DeTaskQueue (p_queue s) (Some None) (p_mem s) = Some (QUEUE_SUCCESS, Some (Some t), m)"
    using udptaskq.deq_ok [OF assms(1), of "Some None"] assms(2) by auto
  moreover have "(p_workers s)[i := W_Lock] = p_workers s" using assms(3,4) by (metis list_update_id)
  ultimately show ?thesis using assms(3-5) by (simp add: numeral_eq_Suc)
qed

section \<open>The tasks a pool holds\<close>

definition pool_holds :: "'t ThreadPool option \<Rightarrow> 't list \<Rightarrow> bool" where
  "pool_holds tp ts \<longleftrightarrow> (\<exists>pool xs. tp = Some pool \<and> qnodes (tp_mem pool) (taskQueue pool) xs \<and>
     qdata (tp_mem pool) xs = map Some ts)"

lemma AddTaskToPool_ok:
  assumes "pool_holds tp ts" "\<And>pool. tp = Some pool \<Longrightarrow> fresh (tp_mem pool) p"
  shows "\<exists>tp'. AddTaskToPool tp t p = Some (0, tp') \<and> pool_holds tp' (ts @ [t])"
proof -
  obtain pool xs where q: "tp = Some pool" "qnodes (tp_mem pool) (taskQueue pool) xs" "qdata (tp_mem pool) xs = map Some ts"
    using assms(1) by (auto simp: pool_holds_def)
  obtain m where m: "EnTaskQueue (taskQueue pool) (Some (Some t)) p (tp_mem pool) = Some (QUEUE_SUCCESS, m)"
    "qnodes m (taskQueue pool) (xs @ [p])" "dataf m p = Some t" "qdata m xs = qdata (tp_mem pool) xs"
    using udptaskq.enq_ok [OF q(2) assms(2) [OF q(1)]] by blast
  have "pool_holds (Some (pool\<lparr>tp_mem := m, curTaskCnt := curTaskCnt pool + 1\<rparr>)) (ts @ [t])"
    using m(2-4) q(3) by (auto simp: pool_holds_def intro!: exI [of _ "xs @ [p]"])
  then show ?thesis
    using m(1) q(1) by (simp add: AddTaskToPool_def)
qed

section \<open>Properties\<close>

lemma reachable_start: "pool_run es (pool_init n k q) = Some s \<Longrightarrow> reachable (pool_init n k q) s"
  using pool_run_reachable reachable.start by blast

lemma pool_init_one: "pool_run [] (pool_init 2 1 1) = Some (pool_init 2 1 1)"
  by simp

text \<open>
  C16. Mutual exclusion: in every state the pool can reach, under any interleaving of any number of
  workers and callers, at most one thread is between lock and unlock, and it owns the mutex.
\<close>

theorem pool_mutual_exclusion:
  assumes "q \<noteq> NULL" "reachable (pool_init n k q) s"
  shows "(\<forall>i < length (p_workers s). w_critical (p_workers s ! i) \<longleftrightarrow> p_mutex s = Some (Worker i)) \<and>
    (\<forall>i < length (p_adders s). a_critical (p_adders s ! i) \<longleftrightarrow> p_mutex s = Some (Adder i))"
  using reachable_inv [OF assms(2) pool_init_inv [OF assms(1)]] by (simp add: pool_inv_def lock_inv_def lock_ok_def)

theorem pool_mutual_exclusion_witness:
  "\<exists>s. pool_run [Step_worker 0] (pool_init 2 1 1 :: nat pool) = Some s \<and> w_critical (p_workers s ! 0) \<and>
    \<not> w_critical (p_workers s ! 1)"
proof -
  obtain s where s: "pool_run [Step_worker 0] (pool_init 2 1 1 :: nat pool) = Some s" "length (p_workers s) = 2"
    "p_mutex s = Some (Worker 0)"
    by (simp add: pool_init_def)
  then show ?thesis using pool_mutual_exclusion [OF one_neq_zero reachable_start [OF s(1)]] by auto
qed

text \<open>
  C15. Tasks are taken in the order they were added and each is run exactly once: in every reachable
  state the tasks added so far are those taken so far followed by those in the queue, and the tasks
  taken are, as a multiset, the tasks run and the tasks a worker has in hand.
\<close>

theorem pool_runs_each_task_once:
  assumes "q \<noteq> NULL" "reachable (pool_init n k q) s"
  shows "\<exists>xs waiting. qnodes (p_mem s) (p_queue s) xs \<and> qdata (p_mem s) xs = map Some waiting \<and>
    h_put s = h_got s @ waiting \<and>
    mset (h_got s) = mset (h_ran s) + mset (concat (map held (p_workers s)))"
  using reachable_inv [OF assms(2) pool_init_inv [OF assms(1)]]
  by (auto simp: pool_inv_def queue_inv_def flight_inv_def)

theorem pool_runs_each_task_once_witness:
  "\<exists>s waiting. pool_run [Call 0 7, Step_adder 0 5, Step_adder 0 5] (pool_init 2 1 1 :: nat pool) = Some s \<and>
    h_put s = [7] \<and> h_put s = h_got s @ waiting \<and> waiting = [7]"
proof -
  obtain s where s: "pool_run [Call 0 7, Step_adder 0 5, Step_adder 0 5] (pool_init 2 1 1 :: nat pool) = Some s"
    "h_put s = [7]" "h_got s = []"
    by (simp add: pool_init_def InitTaskQueue_def INIT_LIST_HEAD_def EnTaskQueue_def list_add_tail_def internal_list_add_def
        access_defs empty_mem_def fresh_def)
  then show ?thesis using pool_runs_each_task_once [OF one_neq_zero reachable_start [OF s(1)]] by auto
qed

lemma worker_step_defined:
  assumes "queue_inv s" "w_wf pc" "ProcessTask_step i pc s = None"
  shows "pc = W_Wait \<or> pc \<in> {W_Lock, W_Woken} \<and> p_mutex s \<noteq> None"
proof (cases pc)
  case W_Test
  show ?thesis using assms(3) unfolding W_Test by (cases rule: DeTaskQueue_cases [OF assms(1)]) simp_all
qed (use assms(2,3) in \<open>auto split: if_splits\<close>)

lemma caller_step_defined:
  assumes "queue_inv s" "fresh (p_mem s) p" "AddTaskToPool_step i p pc s = None"
  shows "pc = A_Idle \<or> (\<exists>t. pc = A_Lock t) \<and> p_mutex s \<noteq> None \<or> pc = A_Signal \<and> W_Wait \<in> set (p_workers s)"
proof (cases pc)
  case (A_Enq t)
  obtain m where "EnTaskQueue (p_queue s) (Some (Some t)) p (p_mem s) = Some (QUEUE_SUCCESS, m)"
    using EnTaskQueue_queue [OF assms(1,2)] by blast
  then show ?thesis using assms(3) unfolding A_Enq by simp
qed (use assms(3) in \<open>simp_all split: if_splits\<close>)

subsection \<open>No signal is lost\<close>

text \<open>
  Each task in the queue has somebody who comes for it: a caller that has yet to signal, or a worker
  that does not wait on the condition and will test the queue before it does.
\<close>

fun a_signals :: "'t apc \<Rightarrow> bool" where
  "a_signals A_IncRead = True"
| "a_signals (A_IncWrite c) = True"
| "a_signals A_Unlock = True"
| "a_signals A_Signal = True"
| "a_signals _ = False"

definition coming :: "'t pool \<Rightarrow> nat" where
  "coming s = length (filter a_signals (p_adders s)) + length (filter (\<lambda>w. w \<noteq> W_Wait) (p_workers s))"

definition wake_inv :: "'t pool \<Rightarrow> bool" where
  "wake_inv s \<longleftrightarrow> (W_Wait \<in> set (p_workers s) \<longrightarrow> length (h_put s) \<le> length (h_got s) + coming s)"

lemma filter_update:
  "i < length xs \<Longrightarrow>
   length (filter P (xs[i := y])) + (if P (xs ! i) then 1 else 0) = length (filter P xs) + (if P y then 1 else 0)"
proof (induction xs arbitrary: i)
  case (Cons x xs)
  show ?case using Cons.IH [of "i - 1"] Cons.prems by (cases i) auto
qed simp

lemma still_waiting: "x \<noteq> W_Wait \<Longrightarrow> W_Wait \<in> set (ws[i := x]) \<Longrightarrow> W_Wait \<in> set ws"
  using set_update_subset_insert [of ws i x] by auto

text \<open>A worker that goes on keeps coming, and a task taken is one fewer to come for.\<close>

lemma wake_inv_worker:
  assumes "wake_inv s" "i < length (p_workers s)" "p_workers s' = (p_workers s)[i := pc]" "pc \<noteq> W_Wait"
    "p_adders s' = p_adders s" "h_put s' = h_put s" "length (h_got s) \<le> length (h_got s')"
  shows "wake_inv s'"
  using assms still_waiting [OF assms(4), of "p_workers s" i] filter_update [OF assms(2), of "\<lambda>w. w \<noteq> W_Wait" pc]
  by (auto simp: wake_inv_def coming_def split: if_splits)

lemma wake_inv_adder:
  assumes "wake_inv s" "i < length (p_adders s)" "p_adders s' = (p_adders s)[i := pc]" "p_workers s' = p_workers s"
    "h_got s' = h_got s" "length (h_put s') + (if a_signals (p_adders s ! i) then 1 else 0) \<le> length (h_put s) + (if a_signals pc then 1 else 0)"
  shows "wake_inv s'"
  using assms filter_update [OF assms(2), of a_signals pc] by (auto simp: wake_inv_def coming_def split: if_splits)

lemma ProcessTask_step_wake:
  assumes inv: "pool_inv s" "wake_inv s" and i: "i < length (p_workers s)"
    and st: "ProcessTask_step i (p_workers s ! i) s = Some s'"
  shows "wake_inv s'"
proof (cases "p_workers s ! i = W_Test")
  case True
  have "queue_inv s" using inv(1) by (simp add: pool_inv_def)
  then show ?thesis
  proof (cases rule: DeTaskQueue_cases)
    case empty
    then show ?thesis using st True by (auto simp: wake_inv_def)
  next
    case (task t m)
    then show ?thesis using st True by (intro wake_inv_worker [OF inv(2) i, where pc = "W_Unlock QUEUE_SUCCESS (Some t)"]) auto
  qed
next
  case False
  then show ?thesis using st
    by (cases "p_workers s ! i")
      (auto simp: bind_eq_Some_conv intro!: wake_inv_worker [OF inv(2) i] split: if_splits)
qed

lemma AddTaskToPool_step_wake:
  assumes inv: "pool_inv s" "wake_inv s" and i: "i < length (p_adders s)" and p: "fresh (p_mem s) p"
    and st: "AddTaskToPool_step i p (p_adders s ! i) s = Some s'"
  shows "wake_inv s'"
proof (cases "p_adders s ! i")
  case (A_Enq t)
  have q: "queue_inv s" using inv(1) by (simp add: pool_inv_def)
  obtain m where "EnTaskQueue (p_queue s) (Some (Some t)) p (p_mem s) = Some (QUEUE_SUCCESS, m)"
    using EnTaskQueue_queue [OF q p] by blast
  then show ?thesis using st A_Enq by (intro wake_inv_adder [OF inv(2) i, where pc = A_IncRead]) auto
next
  case A_Signal
  then show ?thesis using st by (auto simp: wake_inv_def split: if_splits)
qed (use st in \<open>force intro!: wake_inv_adder [OF inv(2) i] split: if_splits\<close>)+

lemma woken_wake:
  assumes "i < length (p_workers s)" "p_workers s ! i = W_Wait"
  shows "coming (set_worker i W_Woken s) = Suc (coming s)"
  using filter_update [OF assms(1), of "\<lambda>w. w \<noteq> W_Wait" W_Woken] assms(2) by (simp add: coming_def)

lemma signal_wake: "wake_inv s \<Longrightarrow> signal_step i j s = Some s' \<Longrightarrow> wake_inv s'"
  using woken_wake [of j s] filter_update [of i "p_adders s" a_signals A_Idle] still_waiting [of W_Woken "p_workers s" j]
  by (auto simp: signal_step_def wake_inv_def coming_def split: if_splits)

lemma pool_step_wake:
  assumes inv: "pool_inv s" "wake_inv s" and st: "pool_step e s = Some s'"
  shows "wake_inv s'"
proof (cases e)
  case (Call i t)
  then show ?thesis using st by (intro wake_inv_adder [OF inv(2), of i _ "A_Lock t"]) (auto split: if_splits)
next
  case (Spurious i)
  then show ?thesis using st by (intro wake_inv_worker [OF inv(2), of i _ W_Woken]) (auto split: if_splits)
qed (use st inv ProcessTask_step_wake AddTaskToPool_step_wake signal_wake in \<open>auto split: if_splits\<close>)

lemma reachable_wake:
  assumes "reachable (pool_init n k q) s" "q \<noteq> NULL"
  shows "wake_inv s"
  using assms
proof (induction rule: reachable.induct)
  case start
  then show ?case by (simp add: wake_inv_def pool_init_def)
next
  case (step s e s')
  then show ?case using pool_step_wake reachable_inv [OF step(1) pool_init_inv] by blast
qed

lemma reachable_workers: "reachable s0 s \<Longrightarrow> length (p_workers s) = length (p_workers s0)"
proof (induction rule: reachable.induct)
  case (step s e s')
  then show ?case
  proof (cases e)
    case (Step_worker i)
    then show ?thesis using step by (cases "p_workers s ! i") (auto simp: bind_eq_Some_conv split: if_splits)
  next
    case (Step_adder i p)
    then show ?thesis using step by (cases "p_adders s ! i") (auto simp: bind_eq_Some_conv split: if_splits)
  qed (auto simp: signal_step_def split: if_splits)
qed simp

text \<open>Whoever owns the mutex is one of the pool's threads.\<close>

definition lock_owner :: "'t pool \<Rightarrow> bool" where
  "lock_owner s \<longleftrightarrow> (p_mutex s \<noteq> None \<longrightarrow>
     (\<exists>w \<in> set (p_workers s). w_critical w) \<or> (\<exists>c \<in> set (p_adders s). a_critical c))"

definition owner_exists :: "'t pool \<Rightarrow> bool" where
  "owner_exists s \<longleftrightarrow> (\<forall>i. p_mutex s = Some (Worker i) \<longrightarrow> i < length (p_workers s)) \<and>
     (\<forall>i. p_mutex s = Some (Adder i) \<longrightarrow> i < length (p_adders s))"

lemma pool_step_owner: "owner_exists s \<Longrightarrow> pool_step e s = Some s' \<Longrightarrow> owner_exists s'"
proof (cases e)
  case (Step_worker i)
  moreover assume "owner_exists s" "pool_step e s = Some s'"
  ultimately show ?thesis
    by (cases "p_workers s ! i") (auto simp: owner_exists_def bind_eq_Some_conv split: if_splits)
next
  case (Step_adder i p)
  moreover assume "owner_exists s" "pool_step e s = Some s'"
  ultimately show ?thesis
    by (cases "p_adders s ! i") (auto simp: owner_exists_def bind_eq_Some_conv split: if_splits)
qed (auto simp: owner_exists_def signal_step_def split: if_splits)

lemma reachable_owner:
  assumes "reachable (pool_init n k q) s" "q \<noteq> NULL"
  shows "lock_owner s"
proof -
  have ow: "owner_exists s"
    using assms(1)
  proof (induction rule: reachable.induct)
    case start
    then show ?case by (simp add: pool_init_def owner_exists_def)
  qed (rule pool_step_owner)
  have "lock_inv s" using reachable_inv [OF assms(1) pool_init_inv [OF assms(2)]] by (simp add: pool_inv_def)
  then show ?thesis
    using ow unfolding lock_owner_def lock_inv_def lock_ok_def owner_exists_def
    by (metis nth_mem not_None_eq tid.exhaust)
qed

text \<open>No thread of the pool can take a step, unless a new call comes or a worker wakes up without a signal.\<close>

definition at_rest :: "'t pool \<Rightarrow> bool" where
  "at_rest s \<longleftrightarrow> (\<forall>i. pool_step (Step_worker i) s = None) \<and> (\<forall>i j. pool_step (Signal i j) s = None) \<and>
     (\<forall>i p. fresh (p_mem s) p \<longrightarrow> pool_step (Step_adder i p) s = None)"

text \<open>When the pool is at rest, nobody owns the mutex: its owner could go on.\<close>

lemma at_rest_pcs:
  assumes inv: "pool_inv s" and p: "fresh (p_mem s) p" and rest: "at_rest s"
  shows "(\<forall>w \<in> set (p_workers s). w = W_Wait \<or> w \<in> {W_Lock, W_Woken} \<and> p_mutex s \<noteq> None) \<and>
    (\<forall>c \<in> set (p_adders s). c = A_Idle \<or> (\<exists>t. c = A_Lock t) \<and> p_mutex s \<noteq> None)"
proof (intro conjI ballI)
  have q: "queue_inv s" using inv by (simp add: pool_inv_def)
  fix w assume "w \<in> set (p_workers s)"
  then obtain i where i: "i < length (p_workers s)" "w = p_workers s ! i" by (auto simp: in_set_conv_nth)
  have "pool_step (Step_worker i) s = None" using rest by (simp only: at_rest_def)
  then show "w = W_Wait \<or> w \<in> {W_Lock, W_Woken} \<and> p_mutex s \<noteq> None"
    using worker_step_defined [OF q worker_at [OF inv i(1)]] i by (simp only: pool_step.simps if_True)
next
  have q: "queue_inv s" using inv by (simp add: pool_inv_def)
  fix c assume "c \<in> set (p_adders s)"
  then obtain i where i: "i < length (p_adders s)" "c = p_adders s ! i" by (auto simp: in_set_conv_nth)
  have "pool_step (Step_adder i p) s = None" using rest p by (simp only: at_rest_def)
  then have c: "c = A_Idle \<or> (\<exists>t. c = A_Lock t) \<and> p_mutex s \<noteq> None \<or> c = A_Signal \<and> W_Wait \<in> set (p_workers s)"
    using caller_step_defined [OF q p, of i c] i p by simp
  have "\<not> (c = A_Signal \<and> W_Wait \<in> set (p_workers s))"
  proof
    assume s: "c = A_Signal \<and> W_Wait \<in> set (p_workers s)"
    then obtain j where "j < length (p_workers s)" "p_workers s ! j = W_Wait" by (auto simp: in_set_conv_nth)
    moreover have "signal_step i j s = None" using rest by (auto simp: at_rest_def)
    ultimately show False using i s by (simp add: signal_step_def)
  qed
  with c show "c = A_Idle \<or> (\<exists>t. c = A_Lock t) \<and> p_mutex s \<noteq> None" by blast
qed

lemma at_rest_mutex:
  assumes inv: "pool_inv s" and p: "fresh (p_mem s) p" and rest: "at_rest s" and own: "lock_owner s"
  shows "p_mutex s = None"
proof (rule ccontr)
  note pcs = at_rest_pcs [OF inv p rest]
  assume "p_mutex s \<noteq> None"
  then have "(\<exists>w \<in> set (p_workers s). w_critical w) \<or> (\<exists>c \<in> set (p_adders s). a_critical c)"
    using own by (simp add: lock_owner_def)
  then show False using pcs by fastforce
qed

text \<open>
  C17. No wake-up is lost and no thread is stuck: when a pool with at least one worker has come to rest
  (no worker and no caller can take a step, and none can be signalled; a fresh block shows that
  \<open>malloc\<close> is not what stops it), then all work is done. The mutex is free, every worker waits on the
  condition, every caller has returned, and every task that was added has been taken, and run exactly
  once. Only a new call, or a wake-up without a signal, can move it again. (The data race on
  \<open>curTaskCnt\<close>, \<open>counter_race\<close>, is not excluded by this; what happens to the tasks does not depend
  on that counter.)
\<close>

theorem pool_rests_only_when_done:
  assumes "q \<noteq> NULL" "0 < n" "reachable (pool_init n k q) s" "fresh (p_mem s) p" "at_rest s"
  shows "p_mutex s = None \<and> (\<forall>w \<in> set (p_workers s). w = W_Wait) \<and> (\<forall>c \<in> set (p_adders s). c = A_Idle) \<and>
    h_got s = h_put s \<and> mset (h_ran s) = mset (h_put s)"
proof -
  have inv: "pool_inv s" by (rule reachable_inv [OF assms(3) pool_init_inv [OF assms(1)]])
  have free: "p_mutex s = None"
    using at_rest_mutex [OF inv assms(4,5)] reachable_owner [OF assms(3,1)] by blast
  have w: "\<forall>w \<in> set (p_workers s). w = W_Wait" and c: "\<forall>c \<in> set (p_adders s). c = A_Idle"
    using at_rest_pcs [OF inv assms(4,5)] free by auto
  have "W_Wait \<in> set (p_workers s)"
    using w reachable_workers [OF assms(3)] assms(2) by (cases "p_workers s") (auto simp: pool_init_def)
  moreover have "coming s = 0" using w c by (auto simp: coming_def filter_empty_conv)
  ultimately have "length (h_put s) \<le> length (h_got s)"
    using reachable_wake [OF assms(3,1)] by (simp add: wake_inv_def)
  moreover have "\<exists>ds. h_put s = h_got s @ ds" using inv by (auto simp: pool_inv_def queue_inv_def)
  ultimately have got: "h_got s = h_put s" by auto
  moreover have "concat (map held (p_workers s)) = []" using w by auto
  then have "mset (h_ran s) = mset (h_put s)"
    using inv got by (simp add: pool_inv_def flight_inv_def)
  ultimately show ?thesis using free w c by blast
qed

theorem pool_rests_only_when_done_witness:
  "\<exists>s. pool_run ([Step_worker 0, Step_worker 0, Call 0 7, Step_adder 0 5, Step_adder 0 5, Step_adder 0 6, Step_adder 0 6,
      Step_adder 0 6, Signal 0 0] @ replicate 8 (Step_worker 0)) (pool_init 1 1 1 :: nat pool) = Some s \<and>
    at_rest s \<and> mset (h_ran s) = {#7#}"
proof -
  obtain s where s: "pool_run ([Step_worker 0, Step_worker 0, Call 0 7, Step_adder 0 5, Step_adder 0 5, Step_adder 0 6,
      Step_adder 0 6, Step_adder 0 6, Signal 0 0] @ replicate 8 (Step_worker 0)) (pool_init 1 1 1 :: nat pool) = Some s"
    "p_workers s = [W_Wait]" "p_adders s = [A_Idle]" "fresh (p_mem s) 9" "h_put s = [7]"
    by (simp add: numeral_eq_Suc pool_init_def InitTaskQueue_def INIT_LIST_HEAD_def EnTaskQueue_def DeTaskQueue_def
        list_add_tail_def internal_list_add_def list_empty_def list_del_def internal_list_del_def copy_out_def signal_step_def
        access_defs empty_mem_def fresh_def)
  have "at_rest s" using s(2,3) by (auto simp: at_rest_def signal_step_def)
  then show ?thesis
    using pool_rests_only_when_done [OF one_neq_zero zero_less_one reachable_start [OF s(1)] s(4)] s(1,5) by auto
qed

text \<open>
  C18. Progress: whenever a task is waiting and the mutex is free, a worker that is about to lock, or
  has been woken, runs the oldest waiting task within its next six steps, and a worker that waits on
  the condition does so within six steps of its wake-up.
\<close>

theorem pool_worker_progress:
  assumes "q \<noteq> NULL" "reachable (pool_init n k q) s" "i < length (p_workers s)"
    "p_workers s ! i \<in> {W_Lock, W_Wait, W_Woken}" "p_mutex s = None" "h_put s = h_got s @ t # ts"
  shows "\<exists>s'. pool_run ((if p_workers s ! i = W_Wait then [Spurious i] else []) @ replicate 6 (Step_worker i)) s = Some s' \<and>
    h_ran s' = h_ran s @ [t] \<and> h_got s' = h_got s @ [t] \<and> h_put s' = h_put s \<and> p_mutex s' = None \<and>
    p_workers s' ! i = W_Lock"
proof -
  let ?s = "set_worker i W_Test (s\<lparr>p_mutex := Some (Worker i)\<rparr>)"
  have "queue_inv s"
    using reachable_inv [OF assms(2) pool_init_inv [OF assms(1)]] by (simp add: pool_inv_def)
  then have q: "queue_inv ?s" by (simp add: queue_inv_def)
  obtain m where m: "DeTaskQueue (p_queue s) (Some None) (p_mem s) = Some (QUEUE_SUCCESS, Some (Some t), m)"
    using q
  proof (cases rule: DeTaskQueue_cases)
    case empty
    then show ?thesis using assms(6) by simp
  next
    case (task t' m)
    from task(2) assms(6) have "t' = t" by (auto simp: queue_inv_def)
    with task(1) that show ?thesis by simp
  qed
  show ?thesis
  proof (cases "p_workers s ! i = W_Wait")
    case True
    then show ?thesis using assms(3,5) m by (simp add: numeral_eq_Suc)
  next
    case False
    have "ProcessTask_step i (p_workers s ! i) s = Some ?s" using assms(4,5) False by auto
    then show ?thesis using assms(3) m False by (simp add: numeral_eq_Suc)
  qed
qed

theorem pool_worker_progress_witness:
  "\<exists>s s'. pool_run [Call 0 7, Step_adder 0 5, Step_adder 0 5, Step_adder 0 6, Step_adder 0 6, Step_adder 0 6]
      (pool_init 2 1 1 :: nat pool) = Some s \<and>
    pool_run (replicate 6 (Step_worker 1)) s = Some s' \<and> h_ran s' = [7]"
proof -
  obtain s where s: "pool_run [Call 0 7, Step_adder 0 5, Step_adder 0 5, Step_adder 0 6, Step_adder 0 6, Step_adder 0 6]
      (pool_init 2 1 1 :: nat pool) = Some s"
    "1 < length (p_workers s)" "p_workers s ! 1 = W_Lock" "p_mutex s = None" "h_put s = h_got s @ 7 # []" "h_ran s = []"
    by (simp add: pool_init_def InitTaskQueue_def INIT_LIST_HEAD_def EnTaskQueue_def list_add_tail_def internal_list_add_def
        access_defs empty_mem_def fresh_def)
  have "p_workers s ! 1 \<in> {W_Lock, W_Wait, W_Woken}" using s(3) by simp
  then show ?thesis
    using pool_worker_progress [OF one_neq_zero reachable_start [OF s(1)] s(2) _ s(4,5)] s(1,3,6) by auto
qed

text \<open>
  C19. The counter of waiting tasks is decremented outside the mutex and can lose an update: there is
  an interleaving of one worker and one caller after which both tasks have been run, nothing is
  waiting and no thread is active, and the unsigned counter stands at its largest value.
\<close>

theorem pool_counter_lost_update:
  "\<exists>s. reachable (pool_init 1 1 1 :: nat pool) s \<and> h_put s = [7, 8] \<and> h_ran s = [7, 8] \<and>
    p_workers s = [W_Lock] \<and> p_adders s = [A_Idle] \<and> p_mutex s = None \<and> p_curTaskCnt s = - 1"
proof -
  let ?add1 = "[Call 0 7, Step_adder 0 5, Step_adder 0 5, Step_adder 0 6, Step_adder 0 6, Step_adder 0 6, Step_adder 0 6]"
  let ?add2 = "[Call 0 8, Step_adder 0 6, Step_adder 0 6, Step_adder 0 9, Step_adder 0 9, Step_adder 0 9, Step_adder 0 9]"
  let ?es = "?add1 @ replicate 4 (Step_worker 0) @ ?add2 @ replicate 8 (Step_worker 0)"
  have "\<exists>s. pool_run ?es (pool_init 1 1 1 :: nat pool) = Some s \<and> h_put s = [7, 8] \<and> h_ran s = [7, 8] \<and>
    p_workers s = [W_Lock] \<and> p_adders s = [A_Idle] \<and> p_mutex s = None \<and> p_curTaskCnt s = - 1"
    by (simp add: numeral_eq_Suc pool_init_def InitTaskQueue_def INIT_LIST_HEAD_def EnTaskQueue_def DeTaskQueue_def
        list_add_tail_def internal_list_add_def list_empty_def list_del_def internal_list_del_def copy_out_def
        access_defs empty_mem_def fresh_def)
  then show ?thesis using reachable_start by blast
qed

subsection \<open>Data races\<close>

text \<open>What a thread's next step accesses of the pool's memory, and whether it writes it.\<close>

datatype pool_loc = L_taskQueue | L_curTaskCnt

fun w_access :: "'t wpc \<Rightarrow> (pool_loc \<times> bool) option" where
  "w_access W_Test = Some (L_taskQueue, True)"
| "w_access (W_DecRead t) = Some (L_curTaskCnt, False)"
| "w_access (W_DecWrite t c) = Some (L_curTaskCnt, True)"
| "w_access _ = None"

fun a_access :: "'t apc \<Rightarrow> (pool_loc \<times> bool) option" where
  "a_access (A_Enq t) = Some (L_taskQueue, True)"
| "a_access A_IncRead = Some (L_curTaskCnt, False)"
| "a_access (A_IncWrite c) = Some (L_curTaskCnt, True)"
| "a_access _ = None"

definition access :: "'t pool \<Rightarrow> tid \<Rightarrow> (pool_loc \<times> bool) option" where
  "access s t = (case t of
       Worker i \<Rightarrow> if i < length (p_workers s) then w_access (p_workers s ! i) else None
     | Adder i \<Rightarrow> if i < length (p_adders s) then a_access (p_adders s ! i) else None)"

text \<open>Two threads are about to access the same location, one of them to write it.\<close>

definition races_on :: "'t pool \<Rightarrow> pool_loc \<Rightarrow> bool" where
  "races_on s l \<longleftrightarrow> (\<exists>t u a b. t \<noteq> u \<and> access s t = Some (l, a) \<and> access s u = Some (l, b) \<and> (a \<or> b))"

lemma queue_access_owner:
  assumes "lock_inv s" "access s t = Some (L_taskQueue, a)"
  shows "p_mutex s = Some t"
proof (cases t)
  case (Worker i)
  then have "i < length (p_workers s)" "p_workers s ! i = W_Test"
    using assms(2) by (auto simp: access_def split: if_splits elim: w_access.elims)
  then show ?thesis using assms(1) Worker by (auto simp: lock_inv_def lock_ok_def)
next
  case (Adder i)
  then obtain x where "i < length (p_adders s)" "p_adders s ! i = A_Enq x"
    using assms(2) by (auto simp: access_def split: if_splits elim: a_access.elims)
  then show ?thesis using assms(1) Adder by (auto simp: lock_inv_def lock_ok_def)
qed

text \<open>The mutex protects the queue in every reachable state, so the counter is all that threads can race on.\<close>

lemma only_counter_races:
  assumes "q \<noteq> NULL" "reachable (pool_init n k q) s" "races_on s l"
  shows "l = L_curTaskCnt"
proof (rule ccontr)
  assume "l \<noteq> L_curTaskCnt"
  then have l: "l = L_taskQueue" by (cases l) auto
  have "lock_inv s" using reachable_inv [OF assms(2) pool_init_inv [OF assms(1)]] by (simp add: pool_inv_def)
  then show False using assms(3) unfolding races_on_def l by (metis queue_access_owner option.inject)
qed

text \<open>And they do: a worker decrements it while a caller, inside the mutex, increments it.\<close>

lemma counter_race: "\<exists>s. reachable (pool_init 1 1 1 :: nat pool) s \<and> races_on s L_curTaskCnt"
proof -
  let ?add = "[Call 0 7, Step_adder 0 5, Step_adder 0 5, Step_adder 0 6, Step_adder 0 6, Step_adder 0 6, Step_adder 0 6]"
  obtain s where s: "pool_run (?add @ replicate 3 (Step_worker 0) @ [Call 0 8, Step_adder 0 6, Step_adder 0 6, Step_adder 0 9])
      (pool_init 1 1 1 :: nat pool) = Some s"
    "access s (Worker 0) = Some (L_curTaskCnt, False)" "access s (Adder 0) = Some (L_curTaskCnt, True)"
    by (simp add: numeral_eq_Suc pool_init_def InitTaskQueue_def INIT_LIST_HEAD_def EnTaskQueue_def DeTaskQueue_def
        list_add_tail_def internal_list_add_def list_empty_def list_del_def internal_list_del_def copy_out_def
        access_defs empty_mem_def fresh_def access_def)
  then show ?thesis using reachable_start [OF s(1)] unfolding races_on_def by blast
qed

lemma InitTaskQueue_ok:
  assumes "fresh m q" "NULL \<notin> live m"
  shows "\<exists>m'. InitTaskQueue q m = Some (q, m') \<and> qnodes m' q [] \<and> live m' = insert q (live m)"
  using head_init [OF assms] assms(1) by (auto simp: InitTaskQueue_def fresh_def)

text \<open>
  When every \<open>pthread_create\<close> succeeds, \<open>CreateThreadPool\<close> starts as many threads as asked for
  (at most the maximum) and records each id; \<open>DestoryThreadPool\<close> cancels exactly these threads and
  frees the queue, so that nothing the pool's queue allocated stays allocated.
\<close>

theorem create_destroy_pool:
  assumes "fresh m q" "NULL \<notin> live m" "\<And>j. j < min initCnt maxCnt \<Longrightarrow> created j"
  shows "\<exists>pool m'. CreateThreadPool True True q created initCnt maxCnt m = Some pool \<and>
    curThreadsCnt pool = min initCnt maxCnt \<and>
    DestoryThreadPool (Some pool) = Some (map Suc [0..<min initCnt maxCnt], Some m', None) \<and> live m' = live m"
proof -
  let ?n = "min initCnt maxCnt"
  obtain m1 where m1: "InitTaskQueue q m = Some (q, m1)" "qnodes m1 q []" "live m1 = insert q (live m)"
    using InitTaskQueue_ok [OF assms(1,2)] by blast
  let ?p = "\<lparr>curThreadsCnt = 0, maxThreadsCnt = maxCnt, initThreadsCnt = initCnt, curTaskCnt = 0,
     poolTids = replicate initCnt 0, taskQueue = q, tp_mem = m1\<rparr>"
  obtain pool where pool: "create_loop created 0 ?p = Some pool" "tids_ok ?n pool" "initThreadsCnt pool = initCnt"
    "taskQueue pool = q" "tp_mem pool = m1"
    using create_loop_all [of 0 ?p created] assms(3) by (auto simp: tids_ok_def)
  obtain m' where m': "DestoryTaskQueue q m1 = Some (QUEUE_SUCCESS, NULL, m')" "live m' = live m1 - {q}"
    using DestoryTaskQueue_ok [OF m1(2)] by auto
  have "read_tids (poolTids pool) ?n = Some (take ?n (poolTids pool))"
    using pool(2,3) by (intro read_tids_ok) (simp add: tids_ok_def)
  moreover have "take ?n (poolTids pool) = map Suc [0..<?n]"
    using pool(2,3) by (intro nth_equalityI) (auto simp: tids_ok_def)
  moreover have "live m' = live m" using m'(2) m1(3) assms(1) by (auto simp: fresh_def)
  ultimately show ?thesis
    using m1(1) pool m'(1) by (simp add: CreateThreadPool_def DestoryThreadPool_def tids_ok_def)
qed

theorem create_destroy_pool_witness:
  "\<exists>pool m'. CreateThreadPool True True 1 (\<lambda>_. True) 2 5 (empty_mem :: nat mem) = Some pool \<and> curThreadsCnt pool = 2 \<and>
    DestoryThreadPool (Some pool) = Some ([1, 2], Some m', None) \<and> live m' = {}"
  using create_destroy_pool [of "empty_mem :: nat mem" 1 2 5 "\<lambda>_. True"]
  by (simp add: fresh_def empty_mem_def numeral_eq_Suc)

text \<open>
  The array of thread ids has room for the initial threads only, but the loop runs to the maximum
  and uses its own counter as the index: when one of the first attempts fails, and the attempt with
  the number of the array's length succeeds, its id is written behind the end of the array.
\<close>

theorem create_pool_overrun:
  assumes "fresh m q" "NULL \<notin> live m" "initCnt < maxCnt" "j < initCnt" "\<not> created j" "created initCnt"
  shows "CreateThreadPool True True q created initCnt maxCnt m = None"
proof -
  obtain m1 where "InitTaskQueue q m = Some (q, m1)"
    using InitTaskQueue_ok [OF assms(1,2)] by blast
  moreover have "create_loop created 0 \<lparr>curThreadsCnt = 0, maxThreadsCnt = maxCnt, initThreadsCnt = initCnt, curTaskCnt = 0,
     poolTids = replicate initCnt 0, taskQueue = q, tp_mem = m1\<rparr> = None"
    using assms(3-6) by (intro create_loop_overrun) auto
  ultimately show ?thesis by (simp add: CreateThreadPool_def)
qed

theorem create_pool_overrun_witness:
  "CreateThreadPool True True 1 (\<lambda>i. i \<noteq> 0) 5 10 (empty_mem :: nat mem) = None"
  by (rule create_pool_overrun [of _ _ _ _ 0]) (simp_all add: fresh_def empty_mem_def)

end
