(* ===== verification/Udp_Server.thy ===== *)
theory Udp_Server
  imports Udp_Clients Udp_Channels Udp_Pool
begin

text \<open>
  The UDP server (\<open>socket_udp/server\<close>): the UDP socket, the epoll loop that turns events into pool
  tasks, the handlers of datagrams, and the thread that moves queued messages to the pool. The
  kernel is modelled by its results, which are arguments: what \<open>socket\<close>, \<open>epoll_create1\<close>,
  \<open>recvfrom\<close> and \<open>pthread_create\<close> return, and the addresses of \<open>malloc\<close>. What the server sends
  and prints is recorded in its state. \<open>CHECK_FUNCRET_ERR\<close> and \<open>CHECK_FUNCRET_SUC\<close> only write a log
  line; where their value is not used, the code goes on after an error.
\<close>

text \<open>A task of the pool: the handler with the block its argument points to.\<close>

datatype srv_task = Task_ProcessStdin "byte list" | Task_PorcessUdpMsg "byte list" | Task_SrvMsgProcessTask LcMsg

record datagram =
  dg_fd :: int
  dg_bytes :: "byte list"
  dg_to :: sockaddr_in

record server =
  LcEndID :: EndID
  udpFd :: int
  LcAddr :: sockaddr_in
  g_epFd :: int
  ep_fds :: "int list"
  clients :: cli_list
  channel :: msg_channel
  g_srvThreadPool :: "srv_task ThreadPool option"
  sent :: "datagram list"
  shown :: "msg_out list"
  closed :: "int list"
  threads :: "string list"

definition FD_CHECK :: "int \<Rightarrow> bool" where
  "FD_CHECK fd \<longleftrightarrow> fd > 2"

definition SERVER_PORT :: "16 word" where
  "SERVER_PORT = 36666"

definition htons :: "16 word \<Rightarrow> 16 word" where
  "htons w = push_bit 8 w OR drop_bit 8 w"

section \<open>\<open>server_udp.c\<close>: the socket\<close>

text \<open>\<open>fd\<close> is what \<open>socket\<close> returns; no result of the set-up calls is acted upon.\<close>

definition InitSrvUdp :: "int \<Rightarrow> server \<Rightarrow> int \<times> server" where
  "InitSrvUdp fd s =
     (if FD_CHECK (udpFd s) then (- 1, s)
      else (0, s\<lparr>udpFd := fd, LcAddr := \<lparr>sin_port = htons SERVER_PORT, s_addr = 0\<rparr>\<rparr>))"

definition DestorySrvUdp :: "int \<Rightarrow> server \<Rightarrow> int \<times> server" where
  "DestorySrvUdp ret s =
     (if \<not> FD_CHECK (udpFd s) then (- 1, s) else (ret, s\<lparr>closed := closed s @ [udpFd s]\<rparr>))"

section \<open>\<open>server_udp.c\<close>: the handlers\<close>

text \<open>
  \<open>size\<close> is the result of \<open>read\<close>, \<open>None\<close> for \<open>-1\<close>. The handler's value is whether it returns
  \<open>NULL + 1\<close>; the line read is dropped.
\<close>

definition ProcessStdin :: "nat option \<Rightarrow> server \<Rightarrow> bool \<times> server" where
  "ProcessStdin rx s = (case rx of None \<Rightarrow> (False, s) | Some n \<Rightarrow> (True, s))"

text \<open>
  The allocations a handler may need: the client list's structure, its head and a node, the
  message queue's structure, its head and a node.
\<close>

record allocs =
  al_clok :: bool
  al_clhead :: addr
  al_clnode :: addr
  al_mqok :: bool
  al_mqhead :: addr
  al_mqnode :: addr

text \<open>The receive buffer, zeroed, after \<open>recvfrom\<close> wrote the bytes of a datagram to its start.\<close>

definition rx_buffer :: "byte list \<Rightarrow> LcMsg" where
  "rx_buffer bytes = take sizeof_LcMsg bytes @ drop (length bytes) (replicate sizeof_LcMsg 0)"

definition PorcessUdpMsg :: "allocs \<Rightarrow> (byte list \<times> sockaddr_in) option \<Rightarrow> server \<Rightarrow> (bool \<times> server) option" where
  "PorcessUdpMsg al rx s =
     (case rx of
        None \<Rightarrow> Some (False, s)
      | Some (bytes, addr) \<Rightarrow>
          if bytes = [] then Some (True, s)
          else let RxBuf = rx_buffer bytes in
            if msgType RxBuf = SaveCliInfo \<and> destEndID RxBuf = LcEndID s then do {
              cl \<leftarrow> AddNodeToCliInfoList (al_clok al) (al_clhead al) (al_clnode al) (srcEndID RxBuf) addr (clients s);
              let TxBuf = set_destEndID (srcEndID RxBuf)
                (set_srcEndID (LcEndID s) (set_msgType SaveCliInfo (replicate sizeof_LcMsg 0)));
              Some (True, s\<lparr>clients := cl, sent := sent s @ [\<lparr>dg_fd = udpFd s, dg_bytes = TxBuf, dg_to = addr\<rparr>]\<rparr>) }
            else if msgType RxBuf = DataMsg then do {
              (_, ch) \<leftarrow> EnSrvMsgQueue (al_mqok al) (al_mqhead al) (al_mqnode al) (Some (Some RxBuf)) (channel s);
              Some (True, s\<lparr>channel := ch\<rparr>) }
            else Some (True, s))"

text \<open>
  The task that delivers one message. Its result says whether it returns \<open>NULL + 1\<close> and whether it
  has freed its argument. The client found is copied without a check for NULL.
\<close>

definition SrvMsgProcessTask :: "allocs \<Rightarrow> LcMsg option \<Rightarrow> server \<Rightarrow> (bool \<times> bool \<times> server) option" where
  "SrvMsgProcessTask al arg s =
     (case arg of
        None \<Rightarrow> Some (False, False, s)
      | Some msgBuf \<Rightarrow>
          if msgType msgBuf = DataMsg then
            if destEndID msgBuf = SETVER_ENDID then
              Some (True, False, s\<lparr>shown := shown s @ [DisplayMsgBuf msgBuf]\<rparr>)
            else do {
              (node, cl) \<leftarrow> GetCliInfoNodeByCliID (al_clok al) (al_clhead al) (destEndID msgBuf) (clients s);
              destCliInfo \<leftarrow> rd_data (cl_mem cl) node;
              destCliInfo \<leftarrow> destCliInfo;
              Some (True, True, s\<lparr>clients := cl,
                sent := sent s @ [\<lparr>dg_fd = udpFd s, dg_bytes = msgBuf, dg_to = cliAddr destCliInfo\<rparr>]\<rparr>) }
          else Some (True, True, s))"

text \<open>
  One round of the message thread: a message taken from the queue becomes a task; the thread's
  buffer \<open>msgBuf\<close> keeps its content between rounds. \<open>tok\<close> and \<open>tp\<close> are the allocations of the
  argument's copy and of the task node.
\<close>

definition SrvMsgProcessThread_round ::
  "allocs \<Rightarrow> bool \<Rightarrow> addr \<Rightarrow> LcMsg obj \<Rightarrow> server \<Rightarrow> (LcMsg obj \<times> server) option" where
  "SrvMsgProcessThread_round al tok tp msgBuf s = do {
     (ret, out, ch) \<leftarrow> DeSrvMsgQueue (al_mqok al) (al_mqhead al) (Some msgBuf) (channel s);
     let s = s\<lparr>channel := ch\<rparr>;
     buf \<leftarrow> out;
     if ret = QUEUE_EMPTY then Some (buf, s)
     else do {
       bytes \<leftarrow> buf;
       (_, pool) \<leftarrow> AddTaskToServerPoolReleaseArgMem tok Task_SrvMsgProcessTask bytes sizeof_LcMsg (g_srvThreadPool s) tp;
       Some (buf, s\<lparr>g_srvThreadPool := pool\<rparr>) } }"

definition CreateSrvMsgProcessThread :: "bool \<Rightarrow> server \<Rightarrow> int \<times> server" where
  "CreateSrvMsgProcessThread ok s = (0, if ok then s\<lparr>threads := threads s @ [''SrvMsgProcess'']\<rparr> else s)"

section \<open>\<open>server_epoll.c\<close>\<close>

definition AddFdToSrvEpollWithFd :: "bool \<Rightarrow> int \<Rightarrow> server \<Rightarrow> server" where
  "AddFdToSrvEpollWithFd ok fd s =
     (if \<not> FD_CHECK (g_epFd s) then s else if ok then s\<lparr>ep_fds := ep_fds s @ [fd]\<rparr> else s)"

definition InitServerEpoll :: "int \<Rightarrow> server \<Rightarrow> int \<times> server" where
  "InitServerEpoll fd s = (if FD_CHECK (g_epFd s) then (0, s) else (0, s\<lparr>g_epFd := fd\<rparr>))"

definition DestoryServerEpoll :: "int \<Rightarrow> server \<Rightarrow> int \<times> server" where
  "DestoryServerEpoll ret s =
     (if \<not> FD_CHECK (g_epFd s) then (0, s) else (ret, s\<lparr>closed := closed s @ [g_epFd s]\<rparr>))"

text \<open>The little-endian bytes of the descriptor that a task gets a copy of.\<close>

definition fd_bytes :: "int \<Rightarrow> byte list" where
  "fd_bytes fd = bytes_of_word (word_of_int fd)"

text \<open>The loop over the events of one \<open>epoll_wait\<close>, with the allocations of each task.\<close>

fun dispatch_events :: "(int \<times> bool \<times> addr) list \<Rightarrow> server \<Rightarrow> server option" where
  "dispatch_events [] s = Some s"
| "dispatch_events ((fd, ok, p) # evs) s =
     (if fd = 0 then do {
        (_, pool) \<leftarrow> AddTaskToServerPoolReleaseArgMem ok Task_ProcessStdin (fd_bytes fd) 4 (g_srvThreadPool s) p;
        dispatch_events evs (s\<lparr>g_srvThreadPool := pool\<rparr>) }
      else if fd = udpFd s then do {
        (_, pool) \<leftarrow> AddTaskToServerPoolReleaseArgMem ok Task_PorcessUdpMsg (fd_bytes fd) 4 (g_srvThreadPool s) p;
        dispatch_events evs (s\<lparr>g_srvThreadPool := pool\<rparr>) }
      else dispatch_events evs s)"

text \<open>The start of the epoll thread and one round of its loop; \<open>None\<close> is an error of \<open>epoll_wait\<close>.\<close>

definition ServerEpollThread_start :: "bool \<Rightarrow> bool \<Rightarrow> server \<Rightarrow> server" where
  "ServerEpollThread_start ok1 ok2 s = AddFdToSrvEpollWithFd ok2 (udpFd s) (AddFdToSrvEpollWithFd ok1 0 s)"

definition ServerEpollThread_round :: "(int \<times> bool \<times> addr) list option \<Rightarrow> server \<Rightarrow> server option" where
  "ServerEpollThread_round evs s = (case evs of None \<Rightarrow> Some s | Some evs \<Rightarrow> dispatch_events evs s)"

definition CreateServerEpollThread :: "int \<Rightarrow> bool \<Rightarrow> server \<Rightarrow> int \<times> server" where
  "CreateServerEpollThread fd ok s =
     (let s = (if \<not> FD_CHECK (g_epFd s) then snd (InitServerEpoll fd s) else s)
      in (0, if ok then s\<lparr>threads := threads s @ [''SrvEpoll'']\<rparr> else s))"

section \<open>\<open>server.c\<close>\<close>

definition InitModulesManager :: "server \<Rightarrow> server" where
  "InitModulesManager s = s\<lparr>LcEndID := SETVER_ENDID\<rparr>"

text \<open>
  The results of the calls of the set-up, in order: socket, epoll descriptor, the pool's
  allocations and threads, a second epoll descriptor, the two threads.
\<close>

definition InitModules ::
  "int \<Rightarrow> int \<Rightarrow> (bool \<times> bool \<times> addr \<times> (nat \<Rightarrow> bool) \<times> srv_task mem) \<Rightarrow> int \<Rightarrow> bool \<Rightarrow> bool \<Rightarrow> server \<Rightarrow> server option" where
  "InitModules fd ep pl ep2 ok1 ok2 s = do {
     let s = snd (InitSrvUdp fd s);
     let s = snd (InitServerEpoll ep s);
     let (mok, cok, q, created, m) = pl;
     pool \<leftarrow> CreateServerThreadPool mok cok q created m (g_srvThreadPool s);
     let s = s\<lparr>g_srvThreadPool := pool\<rparr>;
     let s = snd (CreateServerEpollThread ep2 ok1 s);
     Some (snd (CreateSrvMsgProcessThread ok2 s)) }"

definition RecycleResource :: "int \<Rightarrow> int \<Rightarrow> server \<Rightarrow> server option" where
  "RecycleResource r1 r2 s = do {
     let s = snd (DestoryServerEpoll r1 s);
     let s = snd (DestorySrvUdp r2 s);
     (_, _, pool) \<leftarrow> DestoryServerThreadPool (g_srvThreadPool s);
     Some (s\<lparr>g_srvThreadPool := pool\<rparr>) }"

section \<open>What the state stands for\<close>

text \<open>The registered clients, the queued messages and the tasks of the pool, all in order.\<close>

definition srv_rep :: "server \<Rightarrow> (EndID \<times> sockaddr_in) list \<Rightarrow> LcMsg list \<Rightarrow> srv_task list \<Rightarrow> bool" where
  "srv_rep s cl ms ts \<longleftrightarrow> cl_rep (clients s) cl \<and> ch_rep0 (channel s) ms \<and> pool_holds (g_srvThreadPool s) ts"

text \<open>The allocator's part: fresh and distinct addresses.\<close>

definition allocs_ok :: "allocs \<Rightarrow> server \<Rightarrow> bool" where
  "allocs_ok al s \<longleftrightarrow> al_clok al \<and> cl_ok (al_clhead al, al_clnode al) (clients s) \<and> al_mqok al \<and>
     fresh (ch_mem (channel s)) (al_mqhead al) \<and> fresh (ch_mem (channel s)) (al_mqnode al) \<and>
     al_mqhead al \<noteq> al_mqnode al"

text \<open>The part of it that a look-up needs.\<close>

definition cl_alloc_ok :: "allocs \<Rightarrow> cli_list \<Rightarrow> bool" where
  "cl_alloc_ok al cl \<longleftrightarrow> al_clok al \<and> fresh (cl_mem cl) (al_clhead al)"

lemma allocs_ok_cl: "allocs_ok al s \<Longrightarrow> cl_alloc_ok al (clients s)"
  by (simp add: allocs_ok_def cl_alloc_ok_def cl_ok_def)

definition task_alloc_ok :: "addr \<Rightarrow> server \<Rightarrow> bool" where
  "task_alloc_ok p s \<longleftrightarrow> (\<forall>pool. g_srvThreadPool s = Some pool \<longrightarrow> fresh (tp_mem pool) p)"

lemma rx_buffer_wf [simp]: "wf_msg b \<Longrightarrow> rx_buffer b = b"
  by (simp add: rx_buffer_def msg_sizes)

lemma wf_zero [simp]: "wf_msg (replicate sizeof_LcMsg 0)"
  by (simp add: wf_msg_def)

lemma wf_nonempty: "wf_msg b \<Longrightarrow> b \<noteq> []"
  by (auto simp: msg_sizes)

text \<open>The server's answer to a registration.\<close>

definition reg_reply :: "EndID \<Rightarrow> EndID \<Rightarrow> LcMsg" where
  "reg_reply self cli = set_destEndID cli (set_srcEndID self (set_msgType SaveCliInfo (replicate sizeof_LcMsg 0)))"

lemma reg_reply_fields [simp]:
  "wf_msg (reg_reply self cli)" "msgType (reg_reply self cli) = SaveCliInfo"
  "srcEndID (reg_reply self cli) = self" "destEndID (reg_reply self cli) = cli"
  by (simp_all add: reg_reply_def)

lemma PorcessUdpMsg_register:
  assumes "srv_rep s cl ms ts" "allocs_ok al s" "wf_msg b" "msgType b = SaveCliInfo" "destEndID b = LcEndID s"
  shows "\<exists>s'. PorcessUdpMsg al (Some (b, A)) s = Some (True, s') \<and> srv_rep s' ((srcEndID b, A) # cl) ms ts \<and>
    sent s' = sent s @ [\<lparr>dg_fd = udpFd s, dg_bytes = reg_reply (LcEndID s) (srcEndID b), dg_to = A\<rparr>] \<and>
    udpFd s' = udpFd s \<and> LcEndID s' = LcEndID s \<and> shown s' = shown s"
proof -
  obtain c where "AddNodeToCliInfoList (al_clok al) (al_clhead al) (al_clnode al) (srcEndID b) A (clients s) = Some c"
    "cl_rep c ((srcEndID b, A) # cl)"
    using AddNodeToCliInfoList_ok [of "clients s" cl "(al_clhead al, al_clnode al)"] assms(1,2)
    by (auto simp: srv_rep_def allocs_ok_def)
  then show ?thesis
    using assms by (simp add: PorcessUdpMsg_def wf_nonempty srv_rep_def reg_reply_def)
qed

lemma DataMsg_SaveCliInfo [simp]: "DataMsg \<noteq> SaveCliInfo" "SaveCliInfo \<noteq> DataMsg"
  by (simp_all add: DataMsg_def SaveCliInfo_def)

lemma PorcessUdpMsg_data:
  assumes "srv_rep s cl ms ts" "allocs_ok al s" "wf_msg b" "msgType b = DataMsg"
  shows "\<exists>s'. PorcessUdpMsg al (Some (b, A)) s = Some (True, s') \<and> srv_rep s' cl (ms @ [b]) ts \<and>
    sent s' = sent s \<and> udpFd s' = udpFd s \<and> clients s' = clients s \<and> g_srvThreadPool s' = g_srvThreadPool s \<and>
    LcEndID s' = LcEndID s \<and> shown s' = shown s"
proof -
  obtain c where "EnSrvMsgQueue (al_mqok al) (al_mqhead al) (al_mqnode al) (Some (Some b)) (channel s) = Some (QUEUE_SUCCESS, c)"
    "ch_rep c (ms @ [b])"
    using EnSrvMsgQueue_ok [of "channel s" ms "al_mqhead al" "al_mqnode al" b] assms(1,2)
    by (auto simp: srv_rep_def allocs_ok_def)
  then show ?thesis
    using assms by (simp add: PorcessUdpMsg_def wf_nonempty srv_rep_def ch_rep0_def)
qed

lemma SrvMsgProcessThread_round_ok:
  assumes "srv_rep s cl (b # ms) ts" "wf_msg b" "task_alloc_ok p s"
  shows "\<exists>s'. SrvMsgProcessThread_round al True p buf s = Some (Some b, s') \<and>
    srv_rep s' cl ms (ts @ [Task_SrvMsgProcessTask b]) \<and> sent s' = sent s \<and> udpFd s' = udpFd s \<and> clients s' = clients s \<and>
    LcEndID s' = LcEndID s \<and> shown s' = shown s"
proof -
  have "ch_rep (channel s) (b # ms)" using assms(1) by (auto simp: srv_rep_def ch_rep0_def)
  then obtain c where c: "DeSrvMsgQueue (al_mqok al) (al_mqhead al) (Some buf) (channel s) =
      Some (QUEUE_SUCCESS, Some (Some b), c)" "ch_rep c ms"
    using DeSrvMsgQueue_ok by blast
  obtain tp where "AddTaskToPool (g_srvThreadPool s) (Task_SrvMsgProcessTask b) p = Some (0, tp)"
    "pool_holds tp (ts @ [Task_SrvMsgProcessTask b])"
    using AddTaskToPool_ok [of "g_srvThreadPool s" ts p] assms(1,3) by (auto simp: srv_rep_def task_alloc_ok_def)
  moreover have "buf_read b 0 sizeof_LcMsg = Some b"
    using assms(2) by (simp add: buf_read_def wf_msg_def)
  ultimately show ?thesis
    using c assms(1)
    by (simp add: SrvMsgProcessThread_round_def AddTaskToServerPoolReleaseArgMem_def srv_rep_def ch_rep0_def)
qed

lemma lookup_node:
  assumes "lookup_addr ok hp k cl0 = Some (Some A, cl')"
  shows "\<exists>node d. GetCliInfoNodeByCliID ok hp k cl0 = Some (node, cl') \<and> rd_data (cl_mem cl') node = Some (Some d) \<and>
    cliAddr d = A"
  using assms by (auto simp: lookup_addr_def bind_eq_Some_conv split: if_splits)

lemma SrvMsgProcessTask_forward:
  assumes "srv_rep s cl ms ts" "cl_alloc_ok al (clients s)" "msgType b = DataMsg" "destEndID b \<noteq> SETVER_ENDID"
    "map_of cl (destEndID b) = Some A"
  shows "\<exists>s'. SrvMsgProcessTask al (Some b) s = Some (True, True, s') \<and> srv_rep s' cl ms ts \<and>
    sent s' = sent s @ [\<lparr>dg_fd = udpFd s, dg_bytes = b, dg_to = A\<rparr>] \<and> udpFd s' = udpFd s \<and> LcEndID s' = LcEndID s \<and> shown s' = shown s"
proof -
  obtain c where c: "lookup_addr (al_clok al) (al_clhead al) (destEndID b) (clients s) = Some (Some A, c)" "cl_rep c cl"
    using lookup_addr_ok [of "clients s" cl "al_clhead al" "destEndID b"] assms
    by (auto simp: srv_rep_def cl_alloc_ok_def)
  from lookup_node [OF c(1)] show ?thesis
    using assms(1,3,4) c(2) by (auto simp: SrvMsgProcessTask_def srv_rep_def)
qed

lemma lookup_none_node:
  assumes "lookup_addr ok hp k cl0 = Some (None, cl')"
  shows "GetCliInfoNodeByCliID ok hp k cl0 = Some (NULL, cl')"
  using assms by (auto simp: lookup_addr_def bind_eq_Some_conv split: if_splits)

text \<open>A message for a client that is not registered makes the task follow a NULL pointer.\<close>

lemma SrvMsgProcessTask_fault:
  assumes "srv_rep s cl ms ts" "cl_alloc_ok al (clients s)" "msgType b = DataMsg" "destEndID b \<noteq> SETVER_ENDID"
    "map_of cl (destEndID b) = None"
  shows "SrvMsgProcessTask al (Some b) s = None"
proof -
  obtain c where c: "lookup_addr (al_clok al) (al_clhead al) (destEndID b) (clients s) = Some (None, c)" "cl_rep c cl"
    using lookup_addr_ok [of "clients s" cl "al_clhead al" "destEndID b"] assms
    by (auto simp: srv_rep_def cl_alloc_ok_def)
  have "rd_data (cl_mem c) NULL = None"
    using c(2) by (simp add: cl_rep_def rd_data_def)
  with lookup_none_node [OF c(1)] show ?thesis
    using assms(3,4) by (simp add: SrvMsgProcessTask_def)
qed

section \<open>Properties\<close>

text \<open>A server with one client (id 7), an idle pool and no message.\<close>

definition demo_server :: server where
  "demo_server = \<lparr>LcEndID = SETVER_ENDID, udpFd = 5, LcAddr = \<lparr>sin_port = 0, s_addr = 0\<rparr>, g_epFd = 4, ep_fds = [0, 5],
     clients = one_client, channel = \<lparr>g_queue = Null, ch_mem = empty_mem\<rparr>,
     g_srvThreadPool = Some \<lparr>curThreadsCnt = 5, maxThreadsCnt = 10, initThreadsCnt = 5, curTaskCnt = 0,
       poolTids = [1, 2, 3, 4, 5], taskQueue = 1,
       tp_mem = \<lparr>live = {1}, nextf = [1 \<mapsto> 1], prevf = [1 \<mapsto> 1], dataf = Map.empty\<rparr>\<rparr>,
     sent = [], shown = [], closed = [], threads = []\<rparr>"

definition demo_allocs :: allocs where
  "demo_allocs = \<lparr>al_clok = True, al_clhead = 10, al_clnode = 11, al_mqok = True, al_mqhead = 12, al_mqnode = 13\<rparr>"

lemma demo_server_rep: "srv_rep demo_server [(7, \<lparr>sin_port = 99, s_addr = 1\<rparr>)] [] []"
  using one_client_rep
  by (auto simp: srv_rep_def demo_server_def ch_rep0_def empty_mem_def pool_holds_def qnodes_def dll_def linked_def
      intro!: exI [of _ "[]"])

lemma demo_allocs_ok: "allocs_ok demo_allocs demo_server" "task_alloc_ok 20 demo_server"
  by (simp_all add: allocs_ok_def task_alloc_ok_def demo_allocs_def demo_server_def cl_ok_def fresh_def one_client_def empty_mem_def)

definition demo_msg :: "EndID \<Rightarrow> LcMsg" where
  "demo_msg dest = set_destEndID dest (set_srcEndID 3 (set_msgType DataMsg (replicate sizeof_LcMsg 0)))"

lemma demo_msg_fields [simp]: "wf_msg (demo_msg d)" "msgType (demo_msg d) = DataMsg" "destEndID (demo_msg d) = d"
  by (simp_all add: demo_msg_def)

text \<open>
  The server's processing of a data message, once taken from the pool: a message for a registered
  client is sent on unchanged to that client's address and to no one else; a message for a client
  that is not registered makes the task follow the NULL pointer that the search returned.
\<close>

theorem server_forwards_or_faults:
  assumes "srv_rep s cl ms ts" "cl_alloc_ok al (clients s)" "msgType b = DataMsg" "destEndID b \<noteq> SETVER_ENDID"
  shows "case map_of cl (destEndID b) of
      Some A \<Rightarrow> \<exists>s'. SrvMsgProcessTask al (Some b) s = Some (True, True, s') \<and> srv_rep s' cl ms ts \<and>
        sent s' = sent s @ [\<lparr>dg_fd = udpFd s, dg_bytes = b, dg_to = A\<rparr>]
    | None \<Rightarrow> SrvMsgProcessTask al (Some b) s = None"
  using SrvMsgProcessTask_forward [OF assms] SrvMsgProcessTask_fault [OF assms]
  by (cases "map_of cl (destEndID b)") auto

theorem server_forwards_or_faults_witness:
  "(\<exists>s'. SrvMsgProcessTask demo_allocs (Some (demo_msg 7)) demo_server = Some (True, True, s') \<and>
      sent s' = [\<lparr>dg_fd = 5, dg_bytes = demo_msg 7, dg_to = \<lparr>sin_port = 99, s_addr = 1\<rparr>\<rparr>]) \<and>
    SrvMsgProcessTask demo_allocs (Some (demo_msg 8)) demo_server = None"
proof
  have f: "sent demo_server = []" "udpFd demo_server = 5" by (simp_all add: demo_server_def)
  note ok = allocs_ok_cl [OF demo_allocs_ok(1)]
  show "\<exists>s'. SrvMsgProcessTask demo_allocs (Some (demo_msg 7)) demo_server = Some (True, True, s') \<and>
      sent s' = [\<lparr>dg_fd = 5, dg_bytes = demo_msg 7, dg_to = \<lparr>sin_port = 99, s_addr = 1\<rparr>\<rparr>]"
    using server_forwards_or_faults [OF demo_server_rep ok, of "demo_msg 7"] f by (auto simp: SETVER_ENDID_def)
  show "SrvMsgProcessTask demo_allocs (Some (demo_msg 8)) demo_server = None"
    using server_forwards_or_faults [OF demo_server_rep ok, of "demo_msg 8"] by (simp add: SETVER_ENDID_def)
qed

text \<open>
  Receiving and handing on keep the order of arrival: a data message is put behind the waiting
  ones, and one round of the processing thread hands the oldest waiting message to the pool, behind
  the tasks posted before; the client registry is not touched and nothing is sent.
\<close>

theorem server_queues_and_posts_in_order:
  assumes "srv_rep s cl ms ts" "allocs_ok al s" "wf_msg b" "msgType b = DataMsg" "\<forall>m \<in> set ms. wf_msg m" "task_alloc_ok p s"
  shows "\<exists>s1 s2. PorcessUdpMsg al (Some (b, A)) s = Some (True, s1) \<and> srv_rep s1 cl (ms @ [b]) ts \<and>
    SrvMsgProcessThread_round al True p buf s1 = Some (Some (hd (ms @ [b])), s2) \<and>
    srv_rep s2 cl (tl (ms @ [b])) (ts @ [Task_SrvMsgProcessTask (hd (ms @ [b]))]) \<and>
    sent s2 = sent s \<and> clients s2 = clients s"
proof -
  obtain s1 where s1: "PorcessUdpMsg al (Some (b, A)) s = Some (True, s1)" "srv_rep s1 cl (ms @ [b]) ts" "sent s1 = sent s"
    "clients s1 = clients s" "g_srvThreadPool s1 = g_srvThreadPool s"
    using PorcessUdpMsg_data [OF assms(1-4)] by blast
  have 2: "ms @ [b] = hd (ms @ [b]) # tl (ms @ [b])" by simp
  have "wf_msg (hd (ms @ [b]))" using assms(3,5) by (cases ms) auto
  moreover have "task_alloc_ok p s1" using assms(6) s1(5) by (simp add: task_alloc_ok_def)
  ultimately obtain s2 where "SrvMsgProcessThread_round al True p buf s1 = Some (Some (hd (ms @ [b])), s2)"
    "srv_rep s2 cl (tl (ms @ [b])) (ts @ [Task_SrvMsgProcessTask (hd (ms @ [b]))])" "sent s2 = sent s1" "clients s2 = clients s1"
    using SrvMsgProcessThread_round_ok [of s1 cl "hd (ms @ [b])" "tl (ms @ [b])" ts p al buf] s1(2) 2 by auto
  with s1 show ?thesis by auto
qed

theorem server_queues_and_posts_in_order_witness:
  "\<exists>s1 s2. PorcessUdpMsg demo_allocs (Some (demo_msg 7, \<lparr>sin_port = 1, s_addr = 2\<rparr>)) demo_server = Some (True, s1) \<and>
    SrvMsgProcessThread_round demo_allocs True 20 None s1 = Some (Some (demo_msg 7), s2) \<and>
    srv_rep s2 [(7, \<lparr>sin_port = 99, s_addr = 1\<rparr>)] [] [Task_SrvMsgProcessTask (demo_msg 7)]"
  using server_queues_and_posts_in_order [OF demo_server_rep demo_allocs_ok(1), of "demo_msg 7" 20
      "\<lparr>sin_port = 1, s_addr = 2\<rparr>" None] demo_allocs_ok(2) by auto

end
