(* ===== verification/C_Strings.thy ===== *)
theory C_Strings
  imports Prelude
begin

text \<open>
  The C string functions the clients use on what the user typed.
\<close>

text \<open>A C string in a buffer: the bytes before the first zero; without a zero, reading runs over the end.\<close>

definition c_string :: "byte list \<Rightarrow> byte list option" where
  "c_string buf = (if 0 \<in> set buf then Some (takeWhile (\<lambda>c. c \<noteq> 0) buf) else None)"

definition to_lower :: "byte \<Rightarrow> byte" where
  "to_lower c = (if 65 \<le> c \<and> c \<le> 90 then c + 32 else c)"

text \<open>\<open>strcasestr\<close>: whether the second string occurs in the first, in either case.\<close>

fun casestr :: "byte list \<Rightarrow> byte list \<Rightarrow> bool" where
  "casestr [] needle = (needle = [])"
| "casestr (c # cs) needle =
     (map to_lower (take (length needle) (c # cs)) = map to_lower needle \<or> casestr cs needle)"

end
