(* ===== verification/Udp_Client.thy ===== *)
theory Udp_Client
  imports Udp_Clients Udp_Pool C_Strings
begin

text \<open>
  The UDP client (\<open>socket_udp/client\<close>): registration flag, UDP socket, receive thread, the two
  send dialogues and the menu. The results of system calls, the lines read from the terminal and
  the contents of fresh blocks are arguments; what is sent and printed is recorded in the state.
\<close>

datatype cli_task = Task_ProcessServerMsg LcMsg | Task_SendMsgBufToServer LcMsg

record client =
  cliEndID :: EndID
  g_cliFlag :: "bool gptr"
  cli_udpFd :: int
  srvAddr :: sockaddr_in
  g_cliThreadPool :: "cli_task ThreadPool option"
  cli_sent :: "(int \<times> LcMsg \<times> sockaddr_in) list"
  cli_shown :: "msg_out list"
  cli_closed :: "int list"

section \<open>\<open>client.c\<close>\<close>

definition InitCliFlag :: "bool \<Rightarrow> client \<Rightarrow> client option" where
  "InitCliFlag ok s =
     (if g_cliFlag s \<noteq> Null then Some s
      else if \<not> ok then None
      else Some (s\<lparr>g_cliFlag := Ptr False\<rparr>))"

text \<open>The test is the wrong way round: an existing flag is kept, a missing one is followed.\<close>

definition DestoryCliFlag :: "client \<Rightarrow> client option" where
  "DestoryCliFlag s =
     (if g_cliFlag s \<noteq> Null then Some s
      else do { _ \<leftarrow> deref (g_cliFlag s); Some (s\<lparr>g_cliFlag := Null\<rparr>) })"

definition GetCliFlag :: "bool \<Rightarrow> client \<Rightarrow> client option" where
  "GetCliFlag ok s = (if g_cliFlag s = Null then InitCliFlag ok s else Some s)"

section \<open>\<open>client_udp.c\<close>\<close>

definition SERVER_IP :: "32 word" where
  "SERVER_IP = 0x0100007f"

text \<open>\<open>fd\<close> is the result of \<open>socket\<close>, \<open>ret\<close> that of \<open>setsockopt\<close>.\<close>

definition InitClientUdp :: "int \<Rightarrow> int \<Rightarrow> client \<Rightarrow> int \<times> client" where
  "InitClientUdp fd ret s =
     (if fd = - 1 then (- 1, s)
      else if ret = - 1 then (- 1, s)
      else (0, s\<lparr>cli_udpFd := fd, srvAddr := \<lparr>sin_port = push_bit 8 36666 OR drop_bit 8 36666, s_addr = SERVER_IP\<rparr>\<rparr>))"

definition DestoryCliUdp :: "client \<Rightarrow> int \<times> client" where
  "DestoryCliUdp s =
     (if \<not> cli_udpFd s > 2 then (- 1, s) else (0, s\<lparr>cli_closed := cli_closed s @ [cli_udpFd s]\<rparr>))"

definition ProcessServerMsg :: "bool \<Rightarrow> LcMsg \<Rightarrow> client \<Rightarrow> client option" where
  "ProcessServerMsg ok msgBuf s =
     (if msgType msgBuf = SaveCliInfo then do {
        s \<leftarrow> GetCliFlag ok s;
        _ \<leftarrow> deref (g_cliFlag s);
        Some (s\<lparr>g_cliFlag := Ptr True\<rparr>) }
      else if msgType msgBuf = DataMsg then Some (s\<lparr>cli_shown := cli_shown s @ [DisplayMsgBuf msgBuf]\<rparr>)
      else Some s)"

text \<open>
  One round of the receive thread: \<open>recvfrom\<close> overwrites the start of the buffer, which keeps the
  rest of its old content.
\<close>

definition RecvServerMsgThread_round ::
  "bool \<Rightarrow> addr \<Rightarrow> byte list option \<Rightarrow> LcMsg \<Rightarrow> client \<Rightarrow> (LcMsg \<times> client) option" where
  "RecvServerMsgThread_round tok p rx RxBuf s =
     (case rx of
        None \<Rightarrow> Some (RxBuf, s)
      | Some bytes \<Rightarrow>
          if bytes = [] then Some (RxBuf, s)
          else do {
            let RxBuf = take sizeof_LcMsg bytes @ drop (length bytes) RxBuf;
            (_, pool) \<leftarrow> AddTaskToClientPoolReleaseArgMem tok Task_ProcessServerMsg RxBuf sizeof_LcMsg
              (g_cliThreadPool s) p;
            Some (RxBuf, s\<lparr>g_cliThreadPool := pool\<rparr>) })"

definition SendMsgBufToServer :: "LcMsg \<Rightarrow> client \<Rightarrow> client option" where
  "SendMsgBufToServer TxBuf s = do {
     TxBuf \<leftarrow> SetCheckSum TxBuf;
     Some (s\<lparr>cli_sent := cli_sent s @ [(cli_udpFd s, TxBuf, srvAddr s)]\<rparr>) }"

definition zkquit :: "byte list" where
  "zkquit = [122, 107, 113, 117, 105, 116]"

text \<open>
  The loop of the two send dialogues. A line is what one \<open>read\<close> returns (\<open>None\<close> for an error), with
  the allocations of the task it leads to; when the lines are used up the loop waits in \<open>read\<close>.
  \<open>TxBuf\<close> is the content of its block, \<open>None\<close> when \<open>malloc\<close> returned NULL, which faults when it is written.
  The result says whether the loop was left with \<open>zkquit\<close>.
\<close>

fun send_loop :: "EndID \<Rightarrow> (byte list option \<times> bool \<times> addr) list \<Rightarrow> LcMsg option \<Rightarrow> client \<Rightarrow> (bool \<times> client) option" where
  "send_loop dest [] TxBuf s = Some (False, s)"
| "send_loop dest ((rx, ok, p) # rest) TxBuf s =
     (case rx of
        None \<Rightarrow> send_loop dest rest TxBuf s
      | Some line \<Rightarrow>
          if line = [] then send_loop dest rest TxBuf s
          else do {
            let RxData = take LCMSG_DATA_MAXLEN line @ drop (length line) (replicate LCMSG_DATA_MAXLEN 0);
            str \<leftarrow> c_string RxData;
            if casestr str zkquit then Some (True, s)
            else do {
              TxBuf \<leftarrow> TxBuf;
              let TxBuf = set_data RxData (InitTxBuf (cliEndID s) dest TxBuf);
              (_, pool) \<leftarrow> AddTaskToClientPoolReleaseArgMem ok Task_SendMsgBufToServer TxBuf sizeof_LcMsg
                (g_cliThreadPool s) p;
              send_loop dest rest (Some TxBuf) (s\<lparr>g_cliThreadPool := pool\<rparr>) } })"

text \<open>
  \<open>rx\<close> tells whether \<open>malloc\<close> returns a block for \<open>RxData\<close>, which the first round of the loop writes before it reads a
  line; \<open>junk\<close> is the content of the block for \<open>TxBuf\<close>, if there is one. Neither is checked by the code.
\<close>

definition SendMsgToServer :: "bool \<Rightarrow> (byte list option \<times> bool \<times> addr) list \<Rightarrow> LcMsg option \<Rightarrow> client \<Rightarrow> (bool \<times> client) option" where
  "SendMsgToServer rx reads junk s = (if \<not> rx then None else send_loop SETVER_ENDID reads junk s)"

definition SendMsgToOtherClient ::
  "EndID \<Rightarrow> bool \<Rightarrow> (byte list option \<times> bool \<times> addr) list \<Rightarrow> LcMsg option \<Rightarrow> client \<Rightarrow> (bool \<times> client) option" where
  "SendMsgToOtherClient remoteEndID rx reads junk s = (if \<not> rx then None else send_loop remoteEndID reads junk s)"

definition InitClientInfoToServer :: "LcMsg option \<Rightarrow> addr \<Rightarrow> client \<Rightarrow> client option" where
  "InitClientInfoToServer junk p s = do {
     junk \<leftarrow> junk;
     let TxBuf = set_destEndID SETVER_ENDID (set_srcEndID (cliEndID s) (set_msgType SaveCliInfo junk));
     (_, pool) \<leftarrow> AddTaskToClientPool (g_cliThreadPool s) (Task_SendMsgBufToServer TxBuf) p;
     Some (s\<lparr>g_cliThreadPool := pool\<rparr>) }"

section \<open>\<open>client_interface.c\<close>\<close>

text \<open>
  The five attempts to register; the flag is read before each, and another thread may have
  changed it (the first component of an attempt is the value read).
\<close>

fun register_attempts :: "(bool \<times> LcMsg option \<times> addr) list \<Rightarrow> client \<Rightarrow> client option" where
  "register_attempts [] s = Some s"
| "register_attempts ((flag, junk, p) # rest) s = do {
     s \<leftarrow> (if \<not> flag then InitClientInfoToServer junk p s else Some s);
     register_attempts rest s }"

text \<open>The wait for the flag: \<open>boolTmp\<close> is read once, before the loop.\<close>

partial_function (option) wait_registered :: "bool \<Rightarrow> unit option" where
  "wait_registered boolTmp = (if \<not> boolTmp then wait_registered boolTmp else Some ())"

datatype menu_entry = Entry_SendMsgToServer | Entry_SendMsgToOtherClient

definition InterfaceLevel1 :: "menu_entry list" where
  "InterfaceLevel1 = [Entry_SendMsgToServer, Entry_SendMsgToOtherClient]"

text \<open>One choice from the menu: \<open>Inl ()\<close> is the usage message, \<open>Inr\<close> the function called.\<close>

definition menu_choice :: "int \<Rightarrow> (unit + menu_entry) option" where
  "menu_choice sw = (if sw \<ge> 2 then Some (Inl ()) else map_option Inr (arr_get InterfaceLevel1 sw))"

section \<open>Sending\<close>

lemma DataMsg_not_Save [simp]: "DataMsg \<noteq> SaveCliInfo" "SaveCliInfo \<noteq> DataMsg"
  by (simp_all add: DataMsg_def SaveCliInfo_def)

text \<open>The message made from a line: the line padded with zeros, addressed and numbered.\<close>

definition padded :: "byte list \<Rightarrow> byte list" where
  "padded line = take LCMSG_DATA_MAXLEN line @ drop (length line) (replicate LCMSG_DATA_MAXLEN 0)"

lemma length_padded [simp]: "length (padded line) = 256"
  by (simp add: padded_def LCMSG_DATA_MAXLEN_def)

lemma tx_fields:
  assumes "wf_msg buf" "length d = 256"
  shows "wf_msg (set_data d (InitTxBuf self dest buf))" "msgType (set_data d (InitTxBuf self dest buf)) = DataMsg"
    "srcEndID (set_data d (InitTxBuf self dest buf)) = self" "destEndID (set_data d (InitTxBuf self dest buf)) = dest"
    "msg_data (set_data d (InitTxBuf self dest buf)) = d"
  using assms by (simp_all add: InitTxBuf_def LCMSG_DATA_MAXLEN_def)

lemma word_at_update: "k + 4 \<le> i \<Longrightarrow> word_at (b[i := v]) k = word_at b k"
  by (simp add: word_at_def)

lemma checksum_fields:
  assumes "wf_msg b"
  shows "\<exists>b'. SetCheckSum b = Some b' \<and> wf_msg b' \<and> msgType b' = msgType b \<and> srcEndID b' = srcEndID b \<and>
    destEndID b' = destEndID b \<and> msg_data b' = msg_data b \<and> CheckCheckSum b' = Some 1"
proof -
  let ?b = "b[sizeof_msg := msg_sum b]"
  have wf: "wf_msg ?b" using assms by (simp add: wf_msg_def)
  moreover have "CheckCheckSum ?b = Some 1"
    using CheckCheckSum_ok [OF wf] assms msg_sum_above [of sizeof_msg b "msg_sum b"]
    by (simp add: msg_sizes)
  moreover have "msg_data ?b = msg_data b"
    by (simp add: msg_data_def drop_update_swap msg_sizes)
  ultimately show ?thesis
    using assms by (simp add: SetCheckSum_ok msgType_def srcEndID_def destEndID_def word_at_update sizeof_msg_def)
qed

definition tx_msg :: "EndID \<Rightarrow> EndID \<Rightarrow> byte list \<Rightarrow> LcMsg \<Rightarrow> LcMsg" where
  "tx_msg self dest line buf = set_data (padded line) (InitTxBuf self dest buf)"

lemma tx_msg_bytes:
  assumes "wf_msg buf"
  shows "tx_msg self dest line buf =
    bytes_of_word DataMsg @ bytes_of_word self @ bytes_of_word dest @ padded line @ drop 268 buf"
  using assms by (simp add: tx_msg_def InitTxBuf_def msg_fields put_at_def msg_sizes bytes_of_word_def)

lemma tx_msg_wf [simp]: "wf_msg buf \<Longrightarrow> wf_msg (tx_msg self dest line buf)"
  by (simp add: tx_msg_def tx_fields)

lemma tx_msg_again: "wf_msg buf \<Longrightarrow> tx_msg self dest l2 (tx_msg self dest l1 buf) = tx_msg self dest l2 buf"
  using tx_msg_bytes [OF tx_msg_wf, of buf self dest l2 self dest l1] tx_msg_bytes [of buf self dest]
  by simp

text \<open>A line that the dialogue sends: not empty, terminated within the buffer, and without \<open>zkquit\<close>.\<close>

definition sendable :: "byte list \<Rightarrow> bool" where
  "sendable line \<longleftrightarrow> line \<noteq> [] \<and>
     (case c_string (padded line) of None \<Rightarrow> False | Some str \<Rightarrow> \<not> casestr str zkquit)"



lemma AddTask_live:
  assumes "AddTaskToPool (Some pool) t p = Some (r, Some pool')" "qnodes (tp_mem pool) (taskQueue pool) xs"
    "fresh (tp_mem pool) p" "fresh (tp_mem pool) p'" "p' \<noteq> p"
  shows "fresh (tp_mem pool') p'"
proof -
  obtain m where m: "EnTaskQueue (taskQueue pool) (Some (Some t)) p (tp_mem pool) = Some (QUEUE_SUCCESS, m)"
    "live m = insert p (live (tp_mem pool))"
    using udptaskq.enq_ok [OF assms(2,3)] by blast
  have "tp_mem pool' = m"
    using assms(1) m(1) unfolding AddTaskToPool_def by (simp, metis ThreadPool.select_convs(7) ThreadPool.update_convs(4,7) ThreadPool.surjective)
  then show ?thesis
    using m(2) assms(4,5) by (simp add: fresh_def)
qed

lemma AddTask_fresh:
  assumes "pool_holds tp ts" "\<And>pool. tp = Some pool \<Longrightarrow> fresh (tp_mem pool) p \<and> fresh (tp_mem pool) p'" "p' \<noteq> p"
    "AddTaskToPool tp t p = Some (r, tp')" "tp' = Some pool'"
  shows "fresh (tp_mem pool') p'"
proof -
  obtain pool xs where "tp = Some pool" "qnodes (tp_mem pool) (taskQueue pool) xs"
    using assms(1) by (auto simp: pool_holds_def)
  then show ?thesis
    using AddTask_live [of pool t p r pool' xs p'] assms(2-5) by simp
qed

lemma send_loop_posts:
  assumes "pool_holds (g_cliThreadPool s) ts" "wf_msg buf" "\<forall>l \<in> set lines. sendable l" "length ps = length lines"
    "distinct ps" "\<And>pool p. g_cliThreadPool s = Some pool \<Longrightarrow> p \<in> set ps \<Longrightarrow> fresh (tp_mem pool) p"
  shows "\<exists>s'. send_loop dest (map (\<lambda>(l, p). (Some l, True, p)) (zip lines ps) @ rest) (Some buf) s =
      send_loop dest rest (Some (if lines = [] then buf else tx_msg (cliEndID s) dest (last lines) buf)) s' \<and>
    pool_holds (g_cliThreadPool s') (ts @ map (\<lambda>l. Task_SendMsgBufToServer (tx_msg (cliEndID s) dest l buf)) lines) \<and>
    cliEndID s' = cliEndID s \<and> cli_sent s' = cli_sent s \<and> cli_shown s' = cli_shown s"
  using assms
proof (induction lines arbitrary: ps s ts buf)
  case (Cons l lines)
  obtain p ps' where ps: "ps = p # ps'" "length ps' = length lines" using Cons.prems(4) by (cases ps) auto
  let ?b = "tx_msg (cliEndID s) dest l buf" and ?tp = "g_cliThreadPool s"
  obtain tp' where tp': "AddTaskToPool ?tp (Task_SendMsgBufToServer ?b) p = Some (0, tp')"
    "pool_holds tp' (ts @ [Task_SendMsgBufToServer ?b])"
    using AddTaskToPool_ok [OF Cons.prems(1), of p "Task_SendMsgBufToServer ?b"] Cons.prems(6) ps(1) by auto
  let ?s = "s\<lparr>g_cliThreadPool := tp'\<rparr>"
  have wf: "wf_msg ?b" using Cons.prems(2) by simp
  then have rd: "buf_read ?b 0 sizeof_LcMsg = Some ?b" by (simp add: buf_read_def wf_msg_def)
  obtain str where str: "l \<noteq> []" "c_string (padded l) = Some str" "\<not> casestr str zkquit"
    using Cons.prems(3) by (auto simp: sendable_def split: option.splits)
  have fr: "fresh (tp_mem pool) p'" if "g_cliThreadPool ?s = Some pool" "p' \<in> set ps'" for pool p'
  proof (rule AddTask_fresh [OF Cons.prems(1) _ _ tp'(1)])
    show "p' \<noteq> p" "tp' = Some pool" using that Cons.prems(5) ps(1) by auto
    show "fresh (tp_mem pool0) p \<and> fresh (tp_mem pool0) p'" if "?tp = Some pool0" for pool0
      using Cons.prems(6) [OF that] ps(1) \<open>p' \<in> set ps'\<close> by auto
  qed
  have step: "send_loop dest (map (\<lambda>(l, p). (Some l, True, p)) (zip (l # lines) ps) @ rest) (Some buf) s =
      send_loop dest (map (\<lambda>(l, p). (Some l, True, p)) (zip lines ps') @ rest) (Some ?b) ?s"
    using str tp'(1) rd
    by (simp add: ps(1) AddTaskToClientPoolReleaseArgMem_def tx_msg_def padded_def)
  have "\<exists>s'. send_loop dest (map (\<lambda>(l, p). (Some l, True, p)) (zip lines ps') @ rest) (Some ?b) ?s =
      send_loop dest rest (Some (if lines = [] then ?b else tx_msg (cliEndID ?s) dest (last lines) ?b)) s' \<and>
    pool_holds (g_cliThreadPool s') ((ts @ [Task_SendMsgBufToServer ?b]) @
      map (\<lambda>l. Task_SendMsgBufToServer (tx_msg (cliEndID ?s) dest l ?b)) lines) \<and>
    cliEndID s' = cliEndID ?s \<and> cli_sent s' = cli_sent ?s \<and> cli_shown s' = cli_shown ?s"
    using Cons.prems(3,5) ps tp'(2) wf fr by (intro Cons.IH) auto
  then show ?case
    unfolding step using tx_msg_again [OF Cons.prems(2)] by (cases "lines = []") auto
qed auto

section \<open>Properties\<close>

text \<open>A client with an idle pool of its own.\<close>

definition demo_client :: "EndID \<Rightarrow> client" where
  "demo_client n = \<lparr>cliEndID = n, g_cliFlag = Null, cli_udpFd = 5, srvAddr = \<lparr>sin_port = 1, s_addr = 2\<rparr>,
     g_cliThreadPool = Some \<lparr>curThreadsCnt = 2, maxThreadsCnt = 5, initThreadsCnt = 2, curTaskCnt = 0, poolTids = [1, 2],
       taskQueue = 1, tp_mem = \<lparr>live = {1}, nextf = [1 \<mapsto> 1], prevf = [1 \<mapsto> 1], dataf = Map.empty\<rparr>\<rparr>,
     cli_sent = [], cli_shown = [], cli_closed = []\<rparr>"

lemma demo_client_pool: "pool_holds (g_cliThreadPool (demo_client n)) []"
  by (auto simp: demo_client_def pool_holds_def qnodes_def dll_def linked_def intro!: exI [of _ "[]"])

lemma demo_client_fresh: "g_cliThreadPool (demo_client n) = Some pool \<Longrightarrow> 1 < p \<Longrightarrow> fresh (tp_mem pool) p"
  by (auto simp: demo_client_def fresh_def)

lemma hi_sendable: "sendable [104, 105]"
  by (simp add: sendable_def c_string_def padded_def LCMSG_DATA_MAXLEN_def zkquit_def to_lower_def numeral_eq_Suc)

text \<open>
  The send dialogue posts, for the lines typed before one that contains \<open>zkquit\<close> (in any case),
  one task each and in the order typed: a data message from this client to the chosen destination
  with the line as its text, padded with zeros. The line with \<open>zkquit\<close> ends the dialogue and is not
  sent.
\<close>

theorem send_dialogue_posts_lines:
  assumes "pool_holds (g_cliThreadPool s) ts" "wf_msg junk" "\<forall>l \<in> set lines. sendable l" "length ps = length lines"
    "distinct ps" "\<And>pool p. g_cliThreadPool s = Some pool \<Longrightarrow> p \<in> set ps \<Longrightarrow> fresh (tp_mem pool) p"
    "quit \<noteq> []" "c_string (padded quit) = Some str" "casestr str zkquit"
  shows "\<exists>s'. SendMsgToOtherClient dest True (map (\<lambda>(l, p). (Some l, True, p)) (zip lines ps) @ (Some quit, ok, p) # rest) (Some junk) s =
      Some (True, s') \<and>
    pool_holds (g_cliThreadPool s') (ts @ map (\<lambda>l. Task_SendMsgBufToServer (tx_msg (cliEndID s) dest l junk)) lines)"
proof -
  obtain s' where s': "send_loop dest (map (\<lambda>(l, p). (Some l, True, p)) (zip lines ps) @ (Some quit, ok, p) # rest) (Some junk) s =
      send_loop dest ((Some quit, ok, p) # rest) (Some (if lines = [] then junk else tx_msg (cliEndID s) dest (last lines) junk)) s'"
    "pool_holds (g_cliThreadPool s') (ts @ map (\<lambda>l. Task_SendMsgBufToServer (tx_msg (cliEndID s) dest l junk)) lines)"
    using send_loop_posts [OF assms(1-6), of dest "(Some quit, ok, p) # rest"] by blast
  have "send_loop dest ((Some quit, ok, p) # rest) buf s' = Some (True, s')" for buf
    using assms(7-9) by (simp add: padded_def)
  with s' show ?thesis by (auto simp: SendMsgToOtherClient_def)
qed

theorem send_dialogue_posts_lines_witness:
  "\<exists>s'. SendMsgToOtherClient 7 True [(Some [104, 105], True, 5), (Some [90, 107, 113, 117, 105, 116], True, 6)]
      (Some (replicate 272 0)) (demo_client 3) = Some (True, s') \<and>
    pool_holds (g_cliThreadPool s') [Task_SendMsgBufToServer (tx_msg 3 7 [104, 105] (replicate 272 0))]"
proof -
  have "wf_msg (replicate 272 0)" "cliEndID (demo_client 3) = 3" "\<forall>l \<in> set [[104, 105]]. sendable l"
    using hi_sendable by (simp_all add: wf_msg_def sizeof_LcMsg_def demo_client_def)
  moreover have "c_string (padded [90, 107, 113, 117, 105, 116]) = Some [90, 107, 113, 117, 105, 116]"
    "casestr [90, 107, 113, 117, 105, 116] zkquit"
    by (simp_all add: c_string_def padded_def LCMSG_DATA_MAXLEN_def zkquit_def to_lower_def)
  ultimately show ?thesis
    using send_dialogue_posts_lines [OF demo_client_pool, of "replicate 272 0" "[[104, 105]]" "[5]" 3
        "[90, 107, 113, 117, 105, 116]" "[90, 107, 113, 117, 105, 116]" 7 True 6 "[]"] demo_client_fresh [of 3] by simp
qed



text \<open>A failing \<open>malloc\<close> is not noticed: the dialogues and the registration write to a NULL pointer.\<close>

lemma dialogue_without_memory:
  "SendMsgToServer False reads junk s = None" "SendMsgToOtherClient dest False reads junk s = None"
  "sendable line \<Longrightarrow> SendMsgToOtherClient dest True ((Some line, ok, p) # reads) None s = None"
  "InitClientInfoToServer None p s = None"
  by (auto simp: SendMsgToServer_def SendMsgToOtherClient_def InitClientInfoToServer_def sendable_def padded_def split: option.splits)

lemma wait_registered_returns:
  assumes "wait_registered flag = Some u"
  shows flag
proof (rule wait_registered.raw_induct [of "\<lambda>b r. b", OF _ assms])
  show b if "\<And>b r. f b = Some r \<Longrightarrow> b" "(if \<not> b then f b else Some ()) = Some r" for f b and r :: unit
    using that by metis
qed

text \<open>
  The wait for the registration to be confirmed reads the flag once, before the loop: it returns
  exactly when the flag was already set then. If the confirmation arrives later the client never
  leaves the loop.
\<close>

theorem wait_registered_reads_flag_once: "(\<exists>u. wait_registered flag = Some u) \<longleftrightarrow> flag"
proof
  assume flag
  then show "\<exists>u. wait_registered flag = Some u" by (subst wait_registered.simps) simp
qed (auto dest: wait_registered_returns)

end
