(* ===== verification/Tcp_Clients.thy ===== *)
theory Tcp_Clients
  imports Node_Queue Registry
begin

text \<open>
  The TCP server's list of connected clients (\<open>socket_tcp/server/client_info\<close>): an intrusive list
  of \<open>CliInfoNode\<close>s, set up on first use, searched by descriptor or by client id. What is sent to
  clients and which descriptors are closed is recorded in the state. The allocator's answers are
  arguments: \<open>hp\<close> for the list head, \<open>np\<close> for a node, \<open>bok\<close> for the two message buffers.
\<close>

record tcp_addr =
  ta_port :: "16 word"
  ta_addr :: "32 word"

record CliInfoNode =
  fd :: int
  cliEndid :: "32 word"
  addr_in :: tcp_addr

text \<open>\<open>enum MsgType\<close> of the TCP program.\<close>

definition PROCESS_MSG :: "32 word" where
  "PROCESS_MSG = 0"

definition SAVE_CLI_INFO :: "32 word" where
  "SAVE_CLI_INFO = 1"

definition SERVER_ENDID :: "32 word" where
  "SERVER_ENDID = 0"

definition MAX_MSG_LEN :: nat where
  "MAX_MSG_LEN = 1024"

record MsgBuf =
  mb_type :: "32 word"
  mb_src :: "32 word"
  mb_dest :: "32 word"
  mb_msg :: "byte list"

definition zero_MsgBuf :: MsgBuf where
  "zero_MsgBuf = \<lparr>mb_type = 0, mb_src = 0, mb_dest = 0, mb_msg = replicate MAX_MSG_LEN 0\<rparr>"

record tcp_state =
  cliInfoManager :: addr
  t_mem :: "CliInfoNode mem"
  msgBufs :: "(MsgBuf \<times> MsgBuf) option"
  t_sent :: "(int \<times> MsgBuf) list"
  t_closed :: "int list"

section \<open>Operations\<close>

definition InitCliInfoManager :: "addr \<Rightarrow> tcp_state \<Rightarrow> (int \<times> tcp_state) option" where
  "InitCliInfoManager hp s =
     (if cliInfoManager s \<noteq> NULL then Some (- 1, s)
      else do {
        m \<leftarrow> INIT_LIST_HEAD hp (mem_malloc hp (t_mem s));
        Some (0, s\<lparr>cliInfoManager := hp, t_mem := m\<rparr>) })"

definition GetCliInfoManager :: "addr \<Rightarrow> tcp_state \<Rightarrow> (addr \<times> tcp_state) option" where
  "GetCliInfoManager hp s = do {
     s \<leftarrow> (if cliInfoManager s = NULL then map_option snd (InitCliInfoManager hp s) else Some s);
     Some (cliInfoManager s, s) }"

text \<open>The transmit buffer, allocated on first use; the callers follow the pointer unchecked.\<close>

definition GetMsgBuf_tx :: "bool \<Rightarrow> tcp_state \<Rightarrow> MsgBuf option" where
  "GetMsgBuf_tx bok s =
     (case msgBufs s of Some (rx, tx) \<Rightarrow> Some tx | None \<Rightarrow> if bok then Some zero_MsgBuf else None)"

definition put_tx :: "MsgBuf \<Rightarrow> tcp_state \<Rightarrow> tcp_state" where
  "put_tx tx s = s\<lparr>msgBufs := Some (case msgBufs s of Some (rx, _) \<Rightarrow> rx | None \<Rightarrow> zero_MsgBuf, tx)\<rparr>"

definition AddToCliInfo :: "addr \<Rightarrow> addr \<Rightarrow> CliInfoNode option \<Rightarrow> tcp_state \<Rightarrow> (int \<times> tcp_state) option" where
  "AddToCliInfo hp np cliInfo s =
     (case cliInfo of
        None \<Rightarrow> Some (- 1, s)
      | Some c \<Rightarrow> do {
          m \<leftarrow> wr_data np (Some (c\<lparr>cliEndid := 0\<rparr>)) (mem_malloc np (t_mem s));
          (h, s) \<leftarrow> GetCliInfoManager hp (s\<lparr>t_mem := m\<rparr>);
          m \<leftarrow> list_add np h (t_mem s);
          Some (0, s\<lparr>t_mem := m\<rparr>) })"

text \<open>
  The loops over the list: an entry that is not the one looked for is passed by \<open>continue\<close>; the
  function returns from within the loop at the first match.
\<close>

definition del_body :: "int \<Rightarrow> addr \<Rightarrow> CliInfoNode mem \<times> unit \<Rightarrow> ((CliInfoNode mem \<times> unit) + CliInfoNode mem) option" where
  "del_body k pos ms = do {
     d \<leftarrow> rd_data (fst ms) pos;
     d \<leftarrow> d;
     if fd d \<noteq> k then Some (Inl ms)
     else do {
       m \<leftarrow> list_del pos (fst ms);
       m \<leftarrow> mem_free pos m;
       Some (Inr m) } }"

definition DelFromCliInfoByFd :: "addr \<Rightarrow> int \<Rightarrow> tcp_state \<Rightarrow> (int \<times> tcp_state) option" where
  "DelFromCliInfoByFd hp k s = do {
     (h, s) \<leftarrow> GetCliInfoManager hp s;
     r \<leftarrow> list_for_each (del_body k) h (t_mem s, ());
     case r of
       Inr m \<Rightarrow> Some (0, s\<lparr>t_mem := m, t_closed := t_closed s @ [k]\<rparr>)
     | Inl _ \<Rightarrow> Some (- 1, s) }"

definition find_body :: "(CliInfoNode \<Rightarrow> bool) \<Rightarrow> addr \<Rightarrow> CliInfoNode mem \<times> unit \<Rightarrow> ((CliInfoNode mem \<times> unit) + addr) option" where
  "find_body P pos ms = do {
     d \<leftarrow> rd_data (fst ms) pos;
     d \<leftarrow> d;
     if P d then Some (Inr pos) else Some (Inl ms) }"

definition GetOneCliInfoByFd :: "addr \<Rightarrow> int \<Rightarrow> tcp_state \<Rightarrow> (addr \<times> tcp_state) option" where
  "GetOneCliInfoByFd hp k s = do {
     (h, s) \<leftarrow> GetCliInfoManager hp s;
     r \<leftarrow> list_for_each (find_body (\<lambda>d. fd d = k)) h (t_mem s, ());
     Some (case r of Inr pos \<Rightarrow> pos | Inl _ \<Rightarrow> NULL, s) }"

definition GetOneCliInfoByEndID :: "addr \<Rightarrow> 32 word \<Rightarrow> tcp_state \<Rightarrow> (addr \<times> tcp_state) option" where
  "GetOneCliInfoByEndID hp k s = do {
     (h, s) \<leftarrow> GetCliInfoManager hp s;
     r \<leftarrow> list_for_each (find_body (\<lambda>d. cliEndid d = k)) h (t_mem s, ());
     Some (case r of Inr pos \<Rightarrow> pos | Inl _ \<Rightarrow> NULL, s) }"

definition save_body :: "int \<Rightarrow> MsgBuf \<Rightarrow> addr \<Rightarrow> CliInfoNode mem \<times> unit \<Rightarrow>
    ((CliInfoNode mem \<times> unit) + CliInfoNode mem) option" where
  "save_body k msgBuf pos ms = do {
     d \<leftarrow> rd_data (fst ms) pos;
     d \<leftarrow> d;
     if fd d \<noteq> k then Some (Inl ms)
     else do {
       m \<leftarrow> wr_data pos (Some (d\<lparr>cliEndid := mb_src msgBuf\<rparr>)) (fst ms);
       Some (Inr m) } }"

definition SaveOneCliInfoByFd :: "addr \<Rightarrow> int \<Rightarrow> MsgBuf \<Rightarrow> tcp_state \<Rightarrow> (int \<times> tcp_state) option" where
  "SaveOneCliInfoByFd hp k msgBuf s = do {
     (h, s) \<leftarrow> GetCliInfoManager hp s;
     r \<leftarrow> list_for_each (save_body k msgBuf) h (t_mem s, ());
     case r of
       Inr m \<Rightarrow> Some (0, s\<lparr>t_mem := m\<rparr>)
     | Inl _ \<Rightarrow> Some (- 1, s) }"

text \<open>\<open>ok k\<close>: whether a \<open>send\<close> on descriptor \<open>k\<close> transfers the whole message.\<close>

definition broadcast_body :: "(int \<Rightarrow> bool) \<Rightarrow> bool \<Rightarrow> MsgBuf \<Rightarrow> addr \<Rightarrow> CliInfoNode mem \<times> tcp_state \<times> int \<Rightarrow>
    ((CliInfoNode mem \<times> tcp_state \<times> int) + unit) option" where
  "broadcast_body ok bok msgBuf pos ms = do {
     let (m, s, ret) = ms;
     d \<leftarrow> rd_data m pos;
     d \<leftarrow> d;
     tx \<leftarrow> GetMsgBuf_tx bok s;
     let tx = tx\<lparr>mb_type := PROCESS_MSG, mb_src := SERVER_ENDID, mb_dest := cliEndid d, mb_msg := mb_msg msgBuf\<rparr>;
     let s = (put_tx tx s)\<lparr>t_sent := t_sent s @ [(fd d, tx)]\<rparr>;
     Some (Inl (m, s, if ok (fd d) then ret else - 1)) }"

definition SendMsgAllClient :: "addr \<Rightarrow> (int \<Rightarrow> bool) \<Rightarrow> bool \<Rightarrow> MsgBuf \<Rightarrow> tcp_state \<Rightarrow> (int \<times> tcp_state) option" where
  "SendMsgAllClient hp ok bok msgBuf s = do {
     (h, s) \<leftarrow> GetCliInfoManager hp s;
     r \<leftarrow> list_for_each (broadcast_body ok bok msgBuf) h (t_mem s, s, 0);
     case r of Inl (m, s, ret) \<Rightarrow> Some (ret, s) | Inr _ \<Rightarrow> None }"

definition init_info_body :: "int \<Rightarrow> (int \<Rightarrow> bool) \<Rightarrow> bool \<Rightarrow> tcp_state \<Rightarrow> addr \<Rightarrow> CliInfoNode mem \<times> unit \<Rightarrow>
    ((CliInfoNode mem \<times> unit) + int \<times> tcp_state) option" where
  "init_info_body k ok bok s pos ms = do {
     d \<leftarrow> rd_data (fst ms) pos;
     d \<leftarrow> d;
     if fd d \<noteq> k then Some (Inl ms)
     else do {
       tx \<leftarrow> GetMsgBuf_tx bok s;
       let tx = tx\<lparr>mb_type := SAVE_CLI_INFO, mb_src := SERVER_ENDID, mb_dest := cliEndid d\<rparr>;
       let s = (put_tx tx s)\<lparr>t_sent := t_sent s @ [(k, tx)]\<rparr>;
       Some (Inr (if ok k then 0 else - 1, s)) } }"

definition SendInitInfoToCliByFd :: "addr \<Rightarrow> (int \<Rightarrow> bool) \<Rightarrow> bool \<Rightarrow> int \<Rightarrow> tcp_state \<Rightarrow> (int \<times> tcp_state) option" where
  "SendInitInfoToCliByFd hp ok bok k s = do {
     (h, s) \<leftarrow> GetCliInfoManager hp s;
     r \<leftarrow> list_for_each (init_info_body k ok bok s) h (t_mem s, ());
     case r of Inr rs \<Rightarrow> Some rs | Inl _ \<Rightarrow> Some (- 1, s) }"

section \<open>Representation\<close>

text \<open>The connected clients, newest first.\<close>

definition t_rep :: "tcp_state \<Rightarrow> CliInfoNode list \<Rightarrow> bool" where
  "t_rep s cs \<longleftrightarrow> NULL \<notin> live (t_mem s) \<and>
     (if cliInfoManager s = NULL then cs = []
      else \<exists>xs. qnodes (t_mem s) (cliInfoManager s) xs \<and> qdata (t_mem s) xs = map Some cs)"

lemma manager_ok:
  assumes "t_rep s cs" "fresh (t_mem s) hp"
  shows "\<exists>h s' xs. GetCliInfoManager hp s = Some (h, s') \<and> cliInfoManager s' = h \<and> h \<noteq> NULL \<and> qnodes (t_mem s') h xs \<and>
    qdata (t_mem s') xs = map Some cs \<and> msgBufs s' = msgBufs s \<and> t_sent s' = t_sent s \<and> t_closed s' = t_closed s"
proof (cases "cliInfoManager s = NULL")
  case True
  then obtain m' where "INIT_LIST_HEAD hp (mem_malloc hp (t_mem s)) = Some m'" "qnodes m' hp []" "cs = []"
    using head_init [OF assms(2)] assms(1) by (auto simp: t_rep_def)
  with True assms(2) show ?thesis
    by (auto simp: GetCliInfoManager_def InitCliInfoManager_def fresh_def intro!: exI [of _ "[]"])
next
  case False
  with assms(1) show ?thesis by (auto simp: GetCliInfoManager_def t_rep_def)
qed

lemma t_repI: "qnodes (t_mem s) h xs \<Longrightarrow> cliInfoManager s = h \<Longrightarrow> qdata (t_mem s) xs = map Some cs \<Longrightarrow> t_rep s cs"
  using qnodes_nonnull(1) by (fastforce simp: t_rep_def qnodes_def)

lemma AddToCliInfo_ok:
  assumes rep: "t_rep s cs" and hp: "fresh (t_mem s) hp" and np: "fresh (t_mem s) np" and ne: "hp \<noteq> np"
  shows "\<exists>s'. AddToCliInfo hp np (Some c) s = Some (0, s') \<and> t_rep s' (c\<lparr>cliEndid := 0\<rparr> # cs) \<and>
    t_sent s' = t_sent s \<and> t_closed s' = t_closed s"
proof (cases "cliInfoManager s = NULL")
  case False
  let ?c = "c\<lparr>cliEndid := 0\<rparr>" and ?h = "cliInfoManager s"
  obtain xs where q: "qnodes (t_mem s) ?h xs" "qdata (t_mem s) xs = map Some cs"
    using rep False by (auto simp: t_rep_def)
  obtain m1 m2 where "wr_data np (Some ?c) (mem_malloc np (t_mem s)) = Some m1" "list_add np ?h m1 = Some m2"
    "qnodes m2 ?h (np # xs)" "qdata m2 (np # xs) = Some ?c # qdata (t_mem s) xs"
    using node_insert_head [OF q(1) np, of "Some ?c"] by blast
  with False q(2) show ?thesis
    by (auto simp: AddToCliInfo_def GetCliInfoManager_def intro!: t_repI)
next
  case True
  let ?c = "c\<lparr>cliEndid := 0\<rparr>"
  let ?m = "(mem_malloc np (t_mem s))\<lparr>dataf := (dataf (mem_malloc np (t_mem s)))(np := Some ?c)\<rparr>"
  have np0: "np \<noteq> NULL" using np by (simp add: fresh_def)
  have ev: "wr_data np (Some ?c) (mem_malloc np (t_mem s)) = Some ?m"
    using np0 by (simp add: fault_simps)
  have "fresh ?m hp" "NULL \<notin> live ?m"
    using hp np0 ne rep by (auto simp: fresh_def t_rep_def)
  then obtain m1 where m1: "INIT_LIST_HEAD hp (mem_malloc hp ?m) = Some m1" "qnodes m1 hp []"
    "live m1 = insert hp (live ?m)" "same_outside {hp} ?m m1"
    using head_init by blast
  have d: "dataf m1 np = Some ?c" "np \<in> live m1"
    using m1(3,4) ne np0 by (auto simp: same_outside_def)
  obtain m2 where m2: "list_add np hp m1 = Some m2" "dll m2 hp [np]" "links_outside (set (hp # np # [])) m1 m2"
    using list_add_ok [of m1 hp "[]" np] m1(2) d(2) ne by (auto simp: qnodes_def)
  have "qnodes m2 hp [np]" "qdata m2 [np] = [Some ?c]"
    using m2(2,3) d(1) m1(2) by (auto simp: qnodes_def links_outside_def)
  moreover have "cs = []" using rep True by (simp add: t_rep_def)
  moreover have "hp \<noteq> NULL" using hp by (simp add: fresh_def)
  ultimately show ?thesis
    using ev m1(1) m2(1) True
    by (auto simp: AddToCliInfo_def GetCliInfoManager_def InitCliInfoManager_def intro!: t_repI)
qed

section \<open>Search by descriptor\<close>

lemma bodies_keep:
  "keeps_links (del_body k)" "keeps_links (find_body P)" "keeps_links (save_body k mb)" "keeps_links (init_info_body k ok bok s)"
  "keeps_links (broadcast_body ok bok mb)"
  by (auto simp: keeps_links_def del_body_def find_body_def save_body_def init_info_body_def broadcast_body_def
      bind_eq_Some_conv Let_def split: if_splits)

lemma node_data:
  assumes "qnodes m h xs" "x \<in> set xs" "dataf m x = Some c"
  shows "rd_data m x = Some (Some c)"
  using assms by (auto simp: fault_simps qnodes_def dll_def)

lemma extract_None: "List.extract P cs = None \<longleftrightarrow> (\<forall>c \<in> set cs. \<not> P c)"
  by (auto simp: extract_None_iff)

lemma find_hit:
  assumes q: "qnodes m h xs" "qdata m xs = map Some cs" and ex: "List.extract P cs = Some (as, c, bs)"
  shows "\<exists>ys x zs. xs = ys @ x # zs \<and> qdata m ys = map Some as \<and> dataf m x = Some c \<and> qdata m zs = map Some bs \<and>
    P c \<and> (\<forall>y \<in> set ys. \<exists>d. rd_data m y = Some (Some d) \<and> \<not> P d)"
proof -
  have cs: "cs = as @ c # bs" "P c" "\<forall>a \<in> set as. \<not> P a"
    using ex by (auto simp: extract_Some_iff)
  obtain ys x zs where 1: "xs = ys @ x # zs" "qdata m ys = map Some as" "dataf m x = Some c" "qdata m zs = map Some bs"
    using split_nodes q(2) cs(1) by metis
  have "\<exists>d. rd_data m y = Some (Some d) \<and> \<not> P d" if y: "y \<in> set ys" for y
  proof -
    obtain d where "d \<in> set as" "dataf m y = Some d" using payload_of_node [OF 1(2) y] by blast
    then show ?thesis using node_data [OF q(1), of y d] cs(3) y 1(1) by auto
  qed
  with 1 cs(2) show ?thesis by blast
qed

lemma scan_none:
  assumes "qnodes m h xs" "qdata m xs = map Some cs" "List.extract P cs = None" "keeps_links body"
    "\<forall>b d. rd_data m b = Some (Some d) \<longrightarrow> \<not> P d \<longrightarrow> body b (m, u) = Some (Inl (m, u))"
  shows "list_for_each body h (m, u) = Some (Inl (m, u))"
proof (rule scan_miss)
  show "body b (m, u) = Some (Inl (m, u))" if "b \<in> set xs" for b
    using payload_of_node [OF assms(2) that] node_data [OF assms(1) that] assms(3,5) by (auto simp: extract_None)
qed (use assms in auto)

lemma scan_some:
  assumes "qnodes m h xs" "qdata m xs = map Some cs" "List.extract P cs = Some (as, c, bs)" "keeps_links body"
    "\<forall>b d. rd_data m b = Some (Some d) \<longrightarrow> \<not> P d \<longrightarrow> body b (m, u) = Some (Inl (m, u))"
  obtains ys x zs where "xs = ys @ x # zs" "qdata m ys = map Some as" "dataf m x = Some c" "qdata m zs = map Some bs"
    "P c" "rd_data m x = Some (Some c)" "\<And>v. body x (m, u) = Some (Inr v) \<Longrightarrow> list_for_each body h (m, u) = Some (Inr v)"
proof -
  obtain ys x zs where 1: "xs = ys @ x # zs" "qdata m ys = map Some as" "dataf m x = Some c" "qdata m zs = map Some bs"
    "P c" "\<forall>y \<in> set ys. \<exists>d. rd_data m y = Some (Some d) \<and> \<not> P d"
    using find_hit [OF assms(1-3)] by blast
  have "\<And>b. b \<in> set ys \<Longrightarrow> body b (m, u) = Some (Inl (m, u))"
    using 1(6) assms(5) by blast
  then have "list_for_each body h (m, u) = Some (Inr v)" if "body x (m, u) = Some (Inr v)" for v
    using scan_hit [of "(m, u)" h ys x zs body v] assms(1,4) 1(1) that by simp
  moreover have "rd_data m x = Some (Some c)"
    using node_data [OF assms(1), of x c] 1(1,3) by simp
  ultimately show thesis using that 1 by blast
qed

lemma DelFromCliInfoByFd_ok:
  assumes "t_rep s cs" "fresh (t_mem s) hp"
  shows "\<exists>s'. DelFromCliInfoByFd hp k s =
      Some (case List.extract (\<lambda>c. fd c = k) cs of None \<Rightarrow> - 1 | Some _ \<Rightarrow> 0, s') \<and>
    (case List.extract (\<lambda>c. fd c = k) cs of
       None \<Rightarrow> t_rep s' cs \<and> t_closed s' = t_closed s
     | Some (as, c, bs) \<Rightarrow> t_rep s' (as @ bs) \<and> t_closed s' = t_closed s @ [k])"
proof -
  obtain h s1 xs where 1: "GetCliInfoManager hp s = Some (h, s1)" "cliInfoManager s1 = h" "qnodes (t_mem s1) h xs"
    "qdata (t_mem s1) xs = map Some cs" "t_closed s1 = t_closed s"
    using manager_ok [OF assms] by blast
  have pass: "\<forall>b d. rd_data (t_mem s1) b = Some (Some d) \<longrightarrow> fd d \<noteq> k \<longrightarrow>
      del_body k b (t_mem s1, ()) = Some (Inl (t_mem s1, ()))"
    by (simp add: del_body_def)
  show ?thesis
  proof (cases "List.extract (\<lambda>c. fd c = k) cs")
    case None
    then show ?thesis
      using 1 scan_none [OF 1(3,4) None bodies_keep(1) pass] by (auto simp: DelFromCliInfoByFd_def intro: t_repI)
  next
    case (Some r)
    obtain as c bs where r: "r = (as, c, bs)" by (cases r)
    obtain ys x zs where 2: "xs = ys @ x # zs" "qdata (t_mem s1) ys = map Some as" "qdata (t_mem s1) zs = map Some bs"
      "fd c = k" "rd_data (t_mem s1) x = Some (Some c)"
      "\<And>v. del_body k x (t_mem s1, ()) = Some (Inr v) \<Longrightarrow> list_for_each (del_body k) h (t_mem s1, ()) = Some (Inr v)"
      using scan_some [OF 1(3,4) Some [unfolded r] bodies_keep(1) pass] by metis
    obtain m1 m2 where 3: "list_del x (t_mem s1) = Some m1" "mem_free x m1 = Some m2" "qnodes m2 h (ys @ zs)"
      "qdata m2 (ys @ zs) = qdata (t_mem s1) (ys @ zs)"
      using node_remove 1(3) 2(1) by blast
    have "list_for_each (del_body k) h (t_mem s1, ()) = Some (Inr m2)"
      using 2(4,5) 3(1,2) by (intro 2(6)) (simp add: del_body_def)
    moreover have "t_rep (s1\<lparr>t_mem := m2, t_closed := t_closed s1 @ [k]\<rparr>) (as @ bs)"
      using 3(3,4) 1(2) 2(2,3) by (intro t_repI [where xs = "ys @ zs"]) auto
    ultimately show ?thesis
      using 1 Some r by (simp add: DelFromCliInfoByFd_def)
  qed
qed

text \<open>A pointer to the first entry with a property, NULL when there is none.\<close>

definition found :: "tcp_state \<Rightarrow> (CliInfoNode \<Rightarrow> bool) \<Rightarrow> CliInfoNode list \<Rightarrow> addr \<Rightarrow> bool" where
  "found s P cs p \<longleftrightarrow> (case List.extract P cs of None \<Rightarrow> p = NULL
     | Some (as, c, bs) \<Rightarrow> p \<noteq> NULL \<and> rd_data (t_mem s) p = Some (Some c))"

lemma find_ok:
  assumes "t_rep s cs" "fresh (t_mem s) hp"
  shows "\<exists>p s'. do { (h, s) \<leftarrow> GetCliInfoManager hp s;
      r \<leftarrow> list_for_each (find_body P) h (t_mem s, ());
      Some (case r of Inr pos \<Rightarrow> pos | Inl _ \<Rightarrow> NULL, s) } = Some (p, s') \<and> t_rep s' cs \<and> found s' P cs p \<and>
      t_sent s' = t_sent s \<and> t_closed s' = t_closed s \<and> msgBufs s' = msgBufs s"
proof -
  obtain h s1 xs where 1: "GetCliInfoManager hp s = Some (h, s1)" "cliInfoManager s1 = h" "qnodes (t_mem s1) h xs"
    "qdata (t_mem s1) xs = map Some cs" "t_closed s1 = t_closed s" "t_sent s1 = t_sent s" "msgBufs s1 = msgBufs s"
    using manager_ok [OF assms] by blast
  have rep: "t_rep s1 cs" using 1(2-4) by (auto intro: t_repI)
  have pass: "\<forall>b d. rd_data (t_mem s1) b = Some (Some d) \<longrightarrow> \<not> P d \<longrightarrow>
      find_body P b (t_mem s1, ()) = Some (Inl (t_mem s1, ()))"
    by (simp add: find_body_def)
  show ?thesis
  proof (cases "List.extract P cs")
    case None
    then show ?thesis
      using 1 rep scan_none [OF 1(3,4) None bodies_keep(2) pass] by (auto simp: found_def)
  next
    case (Some r)
    obtain as c bs where r: "r = (as, c, bs)" by (cases r)
    obtain ys x zs where 2: "xs = ys @ x # zs" "P c" "rd_data (t_mem s1) x = Some (Some c)"
      "\<And>v. find_body P x (t_mem s1, ()) = Some (Inr v) \<Longrightarrow> list_for_each (find_body P) h (t_mem s1, ()) = Some (Inr v)"
      using scan_some [OF 1(3,4) Some [unfolded r] bodies_keep(2) pass] by metis
    have "list_for_each (find_body P) h (t_mem s1, ()) = Some (Inr x)"
      using 2(2,3) by (intro 2(4)) (simp add: find_body_def)
    moreover have "x \<noteq> NULL" using 2(1) qnodes_nonnull(2) [OF 1(3), of x] by simp
    ultimately show ?thesis
      using 1 rep Some r 2(3) by (auto simp: found_def)
  qed
qed

lemma GetOneCliInfoByFd_ok:
  assumes "t_rep s cs" "fresh (t_mem s) hp"
  shows "\<exists>p s'. GetOneCliInfoByFd hp k s = Some (p, s') \<and> t_rep s' cs \<and> found s' (\<lambda>c. fd c = k) cs p"
  using find_ok [OF assms, of "\<lambda>c. fd c = k"] unfolding GetOneCliInfoByFd_def by blast

lemma GetOneCliInfoByEndID_ok:
  assumes "t_rep s cs" "fresh (t_mem s) hp"
  shows "\<exists>p s'. GetOneCliInfoByEndID hp k s = Some (p, s') \<and> t_rep s' cs \<and> found s' (\<lambda>c. cliEndid c = k) cs p"
  using find_ok [OF assms, of "\<lambda>c. cliEndid c = k"] unfolding GetOneCliInfoByEndID_def by blast

text \<open>Writing the payload of one node.\<close>

lemma rep_nonempty: "t_rep s cs \<Longrightarrow> cs \<noteq> [] \<Longrightarrow> cliInfoManager s \<noteq> NULL"
  by (auto simp: t_rep_def)

lemma payload_write:
  assumes q: "qnodes m h (ys @ x # zs)"
  shows "\<exists>m'. wr_data x (Some c) m = Some m' \<and> qnodes m' h (ys @ x # zs) \<and>
    qdata m' (ys @ x # zs) = qdata m ys @ Some c # qdata m zs \<and> live m' = live m"
proof -
  let ?m = "m\<lparr>dataf := (dataf m)(x := Some c)\<rparr>"
  have "x \<in> live m" "x \<notin> set ys" "x \<notin> set zs" using q by (auto simp: qnodes_def dll_def)
  moreover have "seg ?m (h # (ys @ x # zs) @ [h]) = seg m (h # (ys @ x # zs) @ [h])"
    by (rule seg_cong) auto
  ultimately show ?thesis
    using q by (auto simp: fault_simps qnodes_def dll_def qdata_def)
qed

lemma SaveOneCliInfoByFd_ok:
  assumes "t_rep s cs" "fresh (t_mem s) hp"
  shows "\<exists>s'. SaveOneCliInfoByFd hp k mb s =
      Some (case List.extract (\<lambda>c. fd c = k) cs of None \<Rightarrow> - 1 | Some _ \<Rightarrow> 0, s') \<and>
    (case List.extract (\<lambda>c. fd c = k) cs of
       None \<Rightarrow> t_rep s' cs
     | Some (as, c, bs) \<Rightarrow> t_rep s' (as @ c\<lparr>cliEndid := mb_src mb\<rparr> # bs)) \<and>
    t_sent s' = t_sent s \<and> msgBufs s' = msgBufs s \<and> (cs \<noteq> [] \<longrightarrow> live (t_mem s') = live (t_mem s))"
proof -
  obtain h s1 xs where 1: "GetCliInfoManager hp s = Some (h, s1)" "cliInfoManager s1 = h" "qnodes (t_mem s1) h xs"
    "qdata (t_mem s1) xs = map Some cs" "t_sent s1 = t_sent s" "msgBufs s1 = msgBufs s"
    using manager_ok [OF assms] by blast
  have same: "s1 = s" if "cs \<noteq> []"
    using that rep_nonempty [OF assms(1)] 1(1) by (simp add: GetCliInfoManager_def)
  have pass: "\<forall>b d. rd_data (t_mem s1) b = Some (Some d) \<longrightarrow> fd d \<noteq> k \<longrightarrow>
      save_body k mb b (t_mem s1, ()) = Some (Inl (t_mem s1, ()))"
    by (simp add: save_body_def)
  show ?thesis
  proof (cases "List.extract (\<lambda>c. fd c = k) cs")
    case None
    then show ?thesis
      using 1 same scan_none [OF 1(3,4) None bodies_keep(3) pass] by (auto simp: SaveOneCliInfoByFd_def intro: t_repI)
  next
    case (Some r)
    obtain as c bs where r: "r = (as, c, bs)" by (cases r)
    let ?c = "c\<lparr>cliEndid := mb_src mb\<rparr>"
    obtain ys x zs where 2: "xs = ys @ x # zs" "qdata (t_mem s1) ys = map Some as" "qdata (t_mem s1) zs = map Some bs"
      "fd c = k" "rd_data (t_mem s1) x = Some (Some c)"
      "\<And>v. save_body k mb x (t_mem s1, ()) = Some (Inr v) \<Longrightarrow> list_for_each (save_body k mb) h (t_mem s1, ()) = Some (Inr v)"
      using scan_some [OF 1(3,4) Some [unfolded r] bodies_keep(3) pass] by metis
    obtain m2 where 3: "wr_data x (Some ?c) (t_mem s1) = Some m2" "qnodes m2 h (ys @ x # zs)"
      "qdata m2 (ys @ x # zs) = qdata (t_mem s1) ys @ Some ?c # qdata (t_mem s1) zs" "live m2 = live (t_mem s1)"
      using payload_write [OF 1(3) [unfolded 2(1)], of ?c] by blast
    have "list_for_each (save_body k mb) h (t_mem s1, ()) = Some (Inr m2)"
      using 2(4,5) 3(1) by (intro 2(6)) (simp add: save_body_def)
    moreover have "t_rep (s1\<lparr>t_mem := m2\<rparr>) (as @ ?c # bs)"
      using 3(2,3) 1(2) 2(2,3) by (intro t_repI [where xs = "ys @ x # zs"]) auto
    ultimately show ?thesis
      using 1 Some r same 3(4) by (auto simp: SaveOneCliInfoByFd_def)
  qed
qed

section \<open>Broadcast\<close>

definition server_msg :: "32 word \<Rightarrow> byte list \<Rightarrow> MsgBuf" where
  "server_msg dest d = \<lparr>mb_type = PROCESS_MSG, mb_src = SERVER_ENDID, mb_dest = dest, mb_msg = d\<rparr>"

text \<open>The buffers after a broadcast: the transmit buffer holds the last message sent.\<close>

definition after_sends :: "CliInfoNode list \<Rightarrow> byte list \<Rightarrow> (MsgBuf \<times> MsgBuf) option \<Rightarrow> (MsgBuf \<times> MsgBuf) option" where
  "after_sends cs d bufs = (if cs = [] then bufs
     else Some (case bufs of Some (rx, _) \<Rightarrow> rx | None \<Rightarrow> zero_MsgBuf, server_msg (cliEndid (last cs)) d))"

lemma after_sends_Cons:
  "after_sends (c # cs) d bufs = after_sends cs d (after_sends [c] d bufs)"
  by (simp add: after_sends_def)

lemma broadcast_each:
  assumes "set xs \<subseteq> live m" "qdata m xs = map Some cs"
  shows "\<exists>s'. each (broadcast_body ok True mb) xs (m, s, ret) =
      Some (Inl (m, s', if \<forall>c \<in> set cs. ok (fd c) then ret else - 1)) \<and>
    t_sent s' = t_sent s @ map (\<lambda>c. (fd c, server_msg (cliEndid c) (mb_msg mb))) cs \<and>
    t_closed s' = t_closed s \<and> cliInfoManager s' = cliInfoManager s \<and> t_mem s' = t_mem s \<and>
    msgBufs s' = after_sends cs (mb_msg mb) (msgBufs s)"
  using assms
proof (induction xs arbitrary: cs s ret)
  case Nil
  then show ?case by (simp add: after_sends_def)
next
  case (Cons x xs)
  then obtain c cs' where cs: "cs = c # cs'" "dataf m x = Some c" "qdata m xs = map Some cs'"
    by (cases cs) auto
  obtain tx where tx: "GetMsgBuf_tx True s = Some tx"
    by (cases "msgBufs s") (auto simp: GetMsgBuf_tx_def)
  let ?s = "(put_tx (server_msg (cliEndid c) (mb_msg mb)) s)\<lparr>t_sent := t_sent s @ [(fd c, server_msg (cliEndid c) (mb_msg mb))]\<rparr>"
  have "broadcast_body ok True mb x (m, s, ret) = Some (Inl (m, ?s, if ok (fd c) then ret else - 1))"
    using Cons.prems(1) cs(2) tx by (cases tx) (simp add: broadcast_body_def fault_simps server_msg_def Let_def)
  then show ?case
    using Cons.IH [OF _ cs(3), of ?s "if ok (fd c) then ret else - 1"] Cons.prems(1) cs(1)
    by (auto simp: put_tx_def after_sends_Cons [of c cs'] after_sends_def [of "[c]"])
qed

lemma SendMsgAllClient_ok:
  assumes "t_rep s cs" "fresh (t_mem s) hp"
  shows "\<exists>s'. SendMsgAllClient hp ok True mb s = Some (if \<forall>c \<in> set cs. ok (fd c) then 0 else - 1, s') \<and> t_rep s' cs \<and>
    t_sent s' = t_sent s @ map (\<lambda>c. (fd c, server_msg (cliEndid c) (mb_msg mb))) cs \<and>
    msgBufs s' = after_sends cs (mb_msg mb) (msgBufs s)"
proof -
  obtain h s1 xs where 1: "GetCliInfoManager hp s = Some (h, s1)" "cliInfoManager s1 = h" "qnodes (t_mem s1) h xs"
    "qdata (t_mem s1) xs = map Some cs" "t_sent s1 = t_sent s" "msgBufs s1 = msgBufs s"
    using manager_ok [OF assms] by blast
  have "dll (t_mem s1) h xs" "set xs \<subseteq> live (t_mem s1)"
    using 1(3) by (auto simp: qnodes_def dll_def)
  then obtain s' where "list_for_each (broadcast_body ok True mb) h (t_mem s1, s1, 0) =
      Some (Inl (t_mem s1, s', if \<forall>c \<in> set cs. ok (fd c) then 0 else - 1))"
    "t_sent s' = t_sent s1 @ map (\<lambda>c. (fd c, server_msg (cliEndid c) (mb_msg mb))) cs"
    "cliInfoManager s' = cliInfoManager s1" "t_mem s' = t_mem s1" "msgBufs s' = after_sends cs (mb_msg mb) (msgBufs s1)"
    using broadcast_each [OF _ 1(4), of ok mb s1 0] list_for_each_eq [of "(t_mem s1, s1, 0)" h xs, OF _ bodies_keep(5)]
    by auto
  moreover from this have "t_rep s' cs" using 1(2-4) by (auto intro: t_repI)
  ultimately show ?thesis
    using 1(1,5,6) by (simp add: SendMsgAllClient_def)
qed

section \<open>The answer to a report\<close>

lemma SendInitInfoToCliByFd_ok:
  assumes "t_rep s cs" "fresh (t_mem s) hp" "List.extract (\<lambda>c. fd c = k) cs = Some (as, c, bs)"
  shows "\<exists>s' b. SendInitInfoToCliByFd hp ok True k s = Some (if ok k then 0 else - 1, s') \<and> t_rep s' cs \<and>
    t_sent s' = t_sent s @ [(k, b)] \<and> mb_type b = SAVE_CLI_INFO \<and> mb_src b = SERVER_ENDID \<and> mb_dest b = cliEndid c \<and>
    mb_msg b = (case msgBufs s of Some (_, tx) \<Rightarrow> mb_msg tx | None \<Rightarrow> mb_msg zero_MsgBuf) \<and>
    t_closed s' = t_closed s \<and> msgBufs s' = Some (case msgBufs s of Some (rx, _) \<Rightarrow> rx | None \<Rightarrow> zero_MsgBuf, b)"
proof -
  obtain h s1 xs where 1: "GetCliInfoManager hp s = Some (h, s1)" "cliInfoManager s1 = h" "qnodes (t_mem s1) h xs"
    "qdata (t_mem s1) xs = map Some cs" "t_closed s1 = t_closed s" "t_sent s1 = t_sent s" "msgBufs s1 = msgBufs s"
    using manager_ok [OF assms(1,2)] by blast
  have pass: "\<forall>b d. rd_data (t_mem s1) b = Some (Some d) \<longrightarrow> fd d \<noteq> k \<longrightarrow>
      init_info_body k ok True s1 b (t_mem s1, ()) = Some (Inl (t_mem s1, ()))"
    by (simp add: init_info_body_def)
  obtain ys x zs where 2: "fd c = k" "rd_data (t_mem s1) x = Some (Some c)"
    "\<And>v. init_info_body k ok True s1 x (t_mem s1, ()) = Some (Inr v) \<Longrightarrow>
      list_for_each (init_info_body k ok True s1) h (t_mem s1, ()) = Some (Inr v)"
    using scan_some [OF 1(3,4) assms(3) bodies_keep(4) pass] by metis
  obtain tx where tx: "GetMsgBuf_tx True s1 = Some tx" "mb_msg tx = (case msgBufs s of Some (_, tx) \<Rightarrow> mb_msg tx | None \<Rightarrow> mb_msg zero_MsgBuf)"
    using 1(7) by (cases "msgBufs s") (auto simp: GetMsgBuf_tx_def)
  let ?b = "tx\<lparr>mb_type := SAVE_CLI_INFO, mb_src := SERVER_ENDID, mb_dest := cliEndid c\<rparr>"
  let ?s = "(put_tx ?b s1)\<lparr>t_sent := t_sent s1 @ [(k, ?b)]\<rparr>"
  have "list_for_each (init_info_body k ok True s1) h (t_mem s1, ()) = Some (Inr (if ok k then 0 else - 1, ?s))"
    using 2(1,2) tx(1) by (intro 2(3)) (simp add: init_info_body_def Let_def)
  moreover have "t_rep ?s cs" using 1(2-4) by (auto simp: put_tx_def intro: t_repI)
  ultimately show ?thesis
    using 1 tx(2) by (intro exI [of _ ?s] exI [of _ ?b]) (auto simp: SendInitInfoToCliByFd_def put_tx_def)
qed

section \<open>What a search leaves alone\<close>

lemma t_rep_cong: "t_mem s' = t_mem s \<Longrightarrow> cliInfoManager s' = cliInfoManager s \<Longrightarrow> t_rep s' cs = t_rep s cs"
  by (simp add: t_rep_def)

lemma search_same:
  assumes "cliInfoManager s \<noteq> NULL" "GetOneCliInfoByEndID hp k s = Some (p, s')"
  shows "s' = s"
  using assms by (auto simp: GetOneCliInfoByEndID_def GetCliInfoManager_def bind_eq_Some_conv)

lemma search_fd_same:
  assumes "cliInfoManager s \<noteq> NULL" "GetOneCliInfoByFd hp k s = Some (p, s')"
  shows "s' = s"
  using assms by (auto simp: GetOneCliInfoByFd_def GetCliInfoManager_def bind_eq_Some_conv)

lemma manager_bufs: "GetCliInfoManager hp s = Some (h, s') \<Longrightarrow> msgBufs s' = msgBufs s"
  by (auto simp: GetCliInfoManager_def InitCliInfoManager_def bind_eq_Some_conv split: if_splits)

lemma bufs_same:
  "GetOneCliInfoByFd hp k s = Some (p, s') \<Longrightarrow> msgBufs s' = msgBufs s"
  "DelFromCliInfoByFd hp k s = Some (r, s') \<Longrightarrow> msgBufs s' = msgBufs s"
  "AddToCliInfo hp np c s = Some (r, s') \<Longrightarrow> msgBufs s' = msgBufs s"
proof -
  have r: "y = Inr v" if "\<forall>m. y \<noteq> Inl (m, ())" "v = projr y" for y :: "'m \<times> unit + 'n" and v
    using that by (cases y) auto
  show "GetOneCliInfoByFd hp k s = Some (p, s') \<Longrightarrow> msgBufs s' = msgBufs s"
    by (auto simp: GetOneCliInfoByFd_def bind_eq_Some_conv dest!: manager_bufs)
  show "DelFromCliInfoByFd hp k s = Some (r, s') \<Longrightarrow> msgBufs s' = msgBufs s"
    by (auto simp: DelFromCliInfoByFd_def bind_eq_Some_conv dest!: manager_bufs split: sum.splits) (use r in force)
  show "AddToCliInfo hp np c s = Some (r, s') \<Longrightarrow> msgBufs s' = msgBufs s"
    by (auto simp: AddToCliInfo_def bind_eq_Some_conv dest!: manager_bufs split: option.splits)
qed

section \<open>The list as a registry of descriptors\<close>

definition conn :: "CliInfoNode \<Rightarrow> int \<times> tcp_addr" where
  "conn c = (fd c, addr_in c)"

definition tcp_rep :: "tcp_state \<Rightarrow> (int \<times> tcp_addr) list \<Rightarrow> bool" where
  "tcp_rep s ds \<longleftrightarrow> (\<exists>cs. t_rep s cs \<and> ds = map conn cs)"

definition tcp_ok :: "addr \<times> addr \<Rightarrow> tcp_state \<Rightarrow> bool" where
  "tcp_ok e s \<longleftrightarrow> fresh (t_mem s) (fst e) \<and> fresh (t_mem s) (snd e) \<and> fst e \<noteq> snd e"

text \<open>The three operations as a client of the list uses them: a new connection, a look-up, a close.\<close>

definition tcp_add :: "addr \<times> addr \<Rightarrow> int \<Rightarrow> tcp_addr \<Rightarrow> tcp_state \<Rightarrow> tcp_state option" where
  "tcp_add e k v s = map_option snd (AddToCliInfo (fst e) (snd e) (Some \<lparr>fd = k, cliEndid = 0, addr_in = v\<rparr>) s)"

definition tcp_get :: "addr \<times> addr \<Rightarrow> int \<Rightarrow> tcp_state \<Rightarrow> (tcp_addr option \<times> tcp_state) option" where
  "tcp_get e k s = do {
     (p, s) \<leftarrow> GetOneCliInfoByFd (fst e) k s;
     if p = NULL then Some (None, s)
     else do { d \<leftarrow> rd_data (t_mem s) p; d \<leftarrow> d; Some (Some (addr_in d), s) } }"

definition tcp_del :: "addr \<times> addr \<Rightarrow> int \<Rightarrow> tcp_state \<Rightarrow> tcp_state option" where
  "tcp_del e k s = map_option snd (DelFromCliInfoByFd (fst e) k s)"

lemma map_of_conn_None: "List.extract (\<lambda>c. fd c = k) cs = None \<Longrightarrow> map_of (map conn cs) k = None"
  by (auto simp: extract_None map_of_eq_None_iff conn_def)

lemma extract_conn:
  assumes "List.extract (\<lambda>c. fd c = k) cs = Some (as, c, bs)"
  shows "map_of (map conn cs) k = Some (addr_in c)" "del_first k (map conn cs) = map conn (as @ bs)"
proof -
  have cs: "cs = as @ c # bs" "fd c = k" "\<forall>a \<in> set as. fd a \<noteq> k"
    using assms by (auto simp: extract_Some_iff)
  have "map_of (map conn (as @ c # bs)) k = Some (addr_in c) \<and> del_first k (map conn (as @ c # bs)) = map conn (as @ bs)"
    using cs(2,3) by (induction as) (auto simp: conn_def)
  then show "map_of (map conn cs) k = Some (addr_in c)" "del_first k (map conn cs) = map conn (as @ bs)"
    by (simp_all add: cs(1))
qed

lemma tcp_add_ok: "tcp_rep s ds \<Longrightarrow> tcp_ok e s \<Longrightarrow> \<exists>s'. tcp_add e k v s = Some s' \<and> tcp_rep s' ((k, v) # ds)"
  using AddToCliInfo_ok [of s _ "fst e" "snd e" "\<lparr>fd = k, cliEndid = 0, addr_in = v\<rparr>"]
  by (fastforce simp: tcp_rep_def tcp_ok_def tcp_add_def conn_def)

lemma tcp_get_ok:
  assumes "tcp_rep s ds" "tcp_ok e s"
  shows "\<exists>s'. tcp_get e k s = Some (map_of ds k, s') \<and> tcp_rep s' ds"
proof -
  obtain cs where cs: "t_rep s cs" "ds = map conn cs" using assms(1) by (auto simp: tcp_rep_def)
  obtain p s' where p: "GetOneCliInfoByFd (fst e) k s = Some (p, s')" "t_rep s' cs" "found s' (\<lambda>c. fd c = k) cs p"
    using GetOneCliInfoByFd_ok [OF cs(1), of "fst e" k] assms(2) by (auto simp: tcp_ok_def)
  show ?thesis
  proof (cases "List.extract (\<lambda>c. fd c = k) cs")
    case None
    then show ?thesis
      using p cs(2) map_of_conn_None [OF None] by (auto simp: tcp_get_def found_def tcp_rep_def)
  next
    case (Some r)
    obtain as c bs where r: "r = (as, c, bs)" by (cases r)
    show ?thesis
      using p cs(2) Some extract_conn(1) [OF Some [unfolded r]] r by (auto simp: tcp_get_def found_def tcp_rep_def)
  qed
qed

lemma tcp_del_ok:
  assumes "tcp_rep s ds" "tcp_ok e s" "map_of ds k \<noteq> None"
  shows "\<exists>s'. tcp_del e k s = Some s' \<and> tcp_rep s' (del_first k ds)"
proof -
  obtain cs where cs: "t_rep s cs" "ds = map conn cs" using assms(1) by (auto simp: tcp_rep_def)
  obtain as c bs where ex: "List.extract (\<lambda>c. fd c = k) cs = Some (as, c, bs)"
    using map_of_conn_None [of k cs] assms(3) cs(2) by (cases "List.extract (\<lambda>c. fd c = k) cs") auto
  then show ?thesis
    using DelFromCliInfoByFd_ok [OF cs(1), of "fst e" k] assms(2) cs(2) extract_conn(2) [OF ex]
    by (auto simp: tcp_del_def tcp_ok_def tcp_rep_def intro!: exI [of _ "as @ bs"])
qed

interpretation tcpreg: registry tcp_rep tcp_ok tcp_add tcp_get tcp_del
  by unfold_locales (use tcp_add_ok tcp_get_ok tcp_del_ok in auto)

section \<open>Properties\<close>

text \<open>A server with two connections, descriptors 8 and 9.\<close>

definition two_conns :: tcp_state where
  "two_conns = \<lparr>cliInfoManager = 1, t_mem = \<lparr>live = {1, 2, 3}, nextf = [1 \<mapsto> 2, 2 \<mapsto> 3, 3 \<mapsto> 1],
     prevf = [1 \<mapsto> 3, 2 \<mapsto> 1, 3 \<mapsto> 2],
     dataf = [2 \<mapsto> \<lparr>fd = 9, cliEndid = 66, addr_in = \<lparr>ta_port = 1, ta_addr = 2\<rparr>\<rparr>,
              3 \<mapsto> \<lparr>fd = 8, cliEndid = 77, addr_in = \<lparr>ta_port = 3, ta_addr = 4\<rparr>\<rparr>]\<rparr>,
     msgBufs = None, t_sent = [], t_closed = []\<rparr>"

lemma two_conns_rep: "t_rep two_conns [\<lparr>fd = 9, cliEndid = 66, addr_in = \<lparr>ta_port = 1, ta_addr = 2\<rparr>\<rparr>,
    \<lparr>fd = 8, cliEndid = 77, addr_in = \<lparr>ta_port = 3, ta_addr = 4\<rparr>\<rparr>]"
  by (rule t_repI [of _ 1 "[2, 3]"]) (simp_all add: two_conns_def qnodes_def dll_def linked_def)

lemma two_conns_fresh: "fresh (t_mem two_conns) 10" "fresh (t_mem two_conns) 11"
  by (simp_all add: two_conns_def fresh_def)

text \<open>
  The TCP server's connection list is a registry keyed by descriptor, set up on first use: over
  every sequence of accepted connections, look-ups and closes of known descriptors, a look-up returns
  the newest connection on the descriptor that was not closed, or NULL.
\<close>

theorem tcp_list_refines_registry:
  assumes "tcp_rep s ds" "reg_env tcp_ok tcp_add tcp_get tcp_del xs ds s"
  shows "\<exists>s'. reg_run tcp_add tcp_get tcp_del xs s = Some (fst (reg_spec xs ds), s') \<and> tcp_rep s' (snd (reg_spec xs ds))"
  using assms by (rule tcpreg.run_refines)

theorem tcp_list_refines_registry_witness:
  "\<exists>s'. reg_run tcp_add tcp_get tcp_del [Register (10, 11) 8 \<lparr>ta_port = 5, ta_addr = 6\<rparr>, Lookup (12, 13) 8] two_conns =
      Some ([Some \<lparr>ta_port = 5, ta_addr = 6\<rparr>], s')"
proof -
  let ?xs = "[Register (10, 11) 8 \<lparr>ta_port = 5, ta_addr = 6\<rparr>, Lookup (12, 13) 8]"
  let ?ds = "[(9, \<lparr>ta_port = 1, ta_addr = 2\<rparr>), (8, \<lparr>ta_port = 3, ta_addr = 4\<rparr>)]"
  have rep: "tcp_rep two_conns ?ds"
    unfolding tcp_rep_def by (rule exI, rule conjI, rule two_conns_rep) (simp add: conn_def)
  have "reg_env tcp_ok tcp_add tcp_get tcp_del ?xs ?ds two_conns"
    by (simp add: tcp_ok_def two_conns_def fresh_def tcp_add_def AddToCliInfo_def GetCliInfoManager_def access_defs
        list_add_def internal_list_add_def split: option.split)
  from tcp_list_refines_registry [OF rep this] show ?thesis by auto
qed

text \<open>
  Recording the id a client reports: \<open>SaveOneCliInfoByFd\<close> changes the id of the newest connection
  on the descriptor to the sender of the message and nothing else in the list, after which a search
  by that id finds a connection; on an unknown descriptor it reports an error and changes nothing.
\<close>

theorem tcp_save_then_find:
  assumes "t_rep s cs" "fresh (t_mem s) hp"
  shows "case List.extract (\<lambda>c. fd c = k) cs of
      None \<Rightarrow> \<exists>s'. SaveOneCliInfoByFd hp k mb s = Some (- 1, s') \<and> t_rep s' cs
    | Some (as, c, bs) \<Rightarrow> \<exists>s'. SaveOneCliInfoByFd hp k mb s = Some (0, s') \<and>
        t_rep s' (as @ c\<lparr>cliEndid := mb_src mb\<rparr> # bs) \<and>
        (\<forall>hp'. fresh (t_mem s') hp' \<longrightarrow> (\<exists>p s'' d. GetOneCliInfoByEndID hp' (mb_src mb) s' = Some (p, s'') \<and> p \<noteq> NULL \<and>
          rd_data (t_mem s'') p = Some (Some d) \<and> cliEndid d = mb_src mb))"
proof (cases "List.extract (\<lambda>c. fd c = k) cs")
  case None
  then show ?thesis using SaveOneCliInfoByFd_ok [OF assms, of k mb] by auto
next
  case (Some r)
  obtain as c bs where r: "r = (as, c, bs)" by (cases r)
  let ?cs = "as @ c\<lparr>cliEndid := mb_src mb\<rparr> # bs"
  obtain s' where s': "SaveOneCliInfoByFd hp k mb s = Some (0, s')" "t_rep s' ?cs"
    using SaveOneCliInfoByFd_ok [OF assms, of k mb] Some r by auto
  have "\<exists>p s'' d. GetOneCliInfoByEndID hp' (mb_src mb) s' = Some (p, s'') \<and> p \<noteq> NULL \<and>
      rd_data (t_mem s'') p = Some (Some d) \<and> cliEndid d = mb_src mb" if hp': "fresh (t_mem s') hp'" for hp'
  proof -
    obtain p s'' where p: "GetOneCliInfoByEndID hp' (mb_src mb) s' = Some (p, s'')" "found s'' (\<lambda>c. cliEndid c = mb_src mb) ?cs p"
      using GetOneCliInfoByEndID_ok [OF s'(2) hp'] by blast
    obtain as' d bs' where ex: "List.extract (\<lambda>c. cliEndid c = mb_src mb) ?cs = Some (as', d, bs')"
      using extract_None [of "\<lambda>c. cliEndid c = mb_src mb" ?cs]
      by (cases "List.extract (\<lambda>c. cliEndid c = mb_src mb) ?cs") auto
    then have "cliEndid d = mb_src mb" by (auto simp: extract_Some_iff)
    with p ex show ?thesis by (auto simp: found_def)
  qed
  with s' Some r show ?thesis by auto
qed

theorem tcp_save_then_find_witness:
  "\<exists>s'. SaveOneCliInfoByFd 10 9 (zero_MsgBuf\<lparr>mb_src := 42\<rparr>) two_conns = Some (0, s') \<and>
    t_rep s' [\<lparr>fd = 9, cliEndid = 42, addr_in = \<lparr>ta_port = 1, ta_addr = 2\<rparr>\<rparr>,
      \<lparr>fd = 8, cliEndid = 77, addr_in = \<lparr>ta_port = 3, ta_addr = 4\<rparr>\<rparr>]"
  using tcp_save_then_find [OF two_conns_rep two_conns_fresh(1), of 9 "zero_MsgBuf\<lparr>mb_src := 42\<rparr>"]
  by (auto simp: extract_def)

text \<open>
  A broadcast sends every connected client, newest first, exactly one message from the server with
  the given text and the client's own id as destination; it goes on after a failed \<open>send\<close> and reports
  an error exactly when some \<open>send\<close> failed. The list is unchanged.
\<close>

theorem tcp_broadcast_reaches_all:
  assumes "t_rep s cs" "fresh (t_mem s) hp"
  shows "\<exists>s'. SendMsgAllClient hp ok True mb s = Some (if \<forall>c \<in> set cs. ok (fd c) then 0 else - 1, s') \<and> t_rep s' cs \<and>
    t_sent s' = t_sent s @ map (\<lambda>c. (fd c, server_msg (cliEndid c) (mb_msg mb))) cs"
  using SendMsgAllClient_ok [OF assms, of ok mb] by blast

theorem tcp_broadcast_reaches_all_witness:
  "\<exists>s'. SendMsgAllClient 10 (\<lambda>k. k \<noteq> 9) True zero_MsgBuf two_conns = Some (- 1, s') \<and>
    map fst (t_sent s') = [9, 8] \<and> map (mb_dest \<circ> snd) (t_sent s') = [66, 77]"
proof -
  have "t_sent two_conns = []" by (simp add: two_conns_def)
  then show ?thesis
    using tcp_broadcast_reaches_all [OF two_conns_rep two_conns_fresh(1), of "\<lambda>k. k \<noteq> 9" zero_MsgBuf]
    by (auto simp: server_msg_def)
qed

end
