(* ===== verification/Tcp_Queue.thy ===== *)
theory Tcp_Queue
  imports Tcp_Clients Link_Queue Lc_Msg
begin

text \<open>
  The message queue of the TCP programs (\<open>socket_tcp/common/local_queue\<close>): one global linked queue
  of \<open>MsgBuf\<close> structures, set up on first use. The queue library copies bytes, so a message goes in
  as the 1036 bytes of the structure and comes out as what these bytes mean.
\<close>

section \<open>A message as bytes\<close>

definition sizeof_MsgBuf :: nat where
  "sizeof_MsgBuf = 1036"

definition bytes_of_MsgBuf :: "MsgBuf \<Rightarrow> byte list" where
  "bytes_of_MsgBuf b = bytes_of_word (mb_type b) @ bytes_of_word (mb_src b) @ bytes_of_word (mb_dest b) @ mb_msg b"

definition MsgBuf_of_bytes :: "byte list \<Rightarrow> MsgBuf" where
  "MsgBuf_of_bytes b = \<lparr>mb_type = word_at b 0, mb_src = word_at b 4, mb_dest = word_at b 8, mb_msg = drop 12 b\<rparr>"

definition wf_MsgBuf :: "MsgBuf \<Rightarrow> bool" where
  "wf_MsgBuf b \<longleftrightarrow> length (mb_msg b) = MAX_MSG_LEN"

lemma length_bytes_of_MsgBuf: "wf_MsgBuf b \<Longrightarrow> length (bytes_of_MsgBuf b) = sizeof_MsgBuf"
  by (simp add: bytes_of_MsgBuf_def wf_MsgBuf_def sizeof_MsgBuf_def MAX_MSG_LEN_def)

lemma word_at_bytes: "word_at (bytes_of_word w @ rest) 0 = w"
  using word_of_bytes [of w] by (simp add: word_at_def bytes_of_word_def)

lemma word_at_skip: "length xs = n \<Longrightarrow> word_at (xs @ ys) (n + k) = word_at ys k"
  by (auto simp: word_at_def nth_append add.assoc)

lemma MsgBuf_bytes [simp]: "MsgBuf_of_bytes (bytes_of_MsgBuf b) = b"
proof -
  have "word_at (bytes_of_MsgBuf b) 4 = mb_src b"
    using word_at_skip [of "bytes_of_word (mb_type b)" 4 _ 0] by (simp add: bytes_of_MsgBuf_def word_at_bytes)
  moreover have "word_at (bytes_of_MsgBuf b) 8 = mb_dest b"
    using word_at_skip [of "bytes_of_word (mb_type b) @ bytes_of_word (mb_src b)" 8 _ 0]
    by (simp add: bytes_of_MsgBuf_def word_at_bytes)
  ultimately show ?thesis
    by (simp add: MsgBuf_of_bytes_def bytes_of_MsgBuf_def word_at_bytes)
qed

lemma wf_MsgBuf_of_bytes: "length b = sizeof_MsgBuf \<Longrightarrow> wf_MsgBuf (MsgBuf_of_bytes b)"
  by (simp add: wf_MsgBuf_def MsgBuf_of_bytes_def sizeof_MsgBuf_def MAX_MSG_LEN_def)

lemma bytes_of_MsgBuf_inj: "bytes_of_MsgBuf a = bytes_of_MsgBuf b \<Longrightarrow> a = b"
  by (metis MsgBuf_bytes)

section \<open>Operations\<close>

record msg_queue =
  linkQueue :: "LinkQueue option"
  lq_mem :: lmem

text \<open>What the allocator answers: for the queue's first node and its structure, and for a new node and its data.\<close>

record lq_alloc =
  lqa_first :: addr
  lqa_ok :: bool
  lqa_node :: addr
  lqa_data :: addr

definition GetMsgLinkQueue :: "lq_alloc \<Rightarrow> msg_queue \<Rightarrow> (LinkQueue option \<times> msg_queue) option" where
  "GetMsgLinkQueue al s =
     (if linkQueue s = None then do {
        (q, m) \<leftarrow> InitLinkQueue (lqa_first al) (lqa_ok al) sizeof_MsgBuf (lq_mem s);
        Some (q, \<lparr>linkQueue = q, lq_mem = m\<rparr>) }
      else Some (linkQueue s, s))"

definition DestoryMsgLinkQueue :: "msg_queue \<Rightarrow> (int \<times> msg_queue) option" where
  "DestoryMsgLinkQueue s =
     (if linkQueue s = None then Some (- 1, s)
      else do {
        (r, q, m) \<leftarrow> DestoryLinkQueue (linkQueue s) (lq_mem s);
        Some (if r = QUEUE_SUCCESS then 0 else - 1, \<lparr>linkQueue = q, lq_mem = m\<rparr>) })"

definition EnMsgLinkQueue :: "lq_alloc \<Rightarrow> MsgBuf \<Rightarrow> msg_queue \<Rightarrow> (queue_ret_t \<times> msg_queue) option" where
  "EnMsgLinkQueue al msgBuf s = do {
     (q, s) \<leftarrow> GetMsgLinkQueue al s;
     q \<leftarrow> q;
     (r, q, m) \<leftarrow> EnLinkQueue (lqa_node al) (lqa_data al) (Some (map Some (bytes_of_MsgBuf msgBuf))) sizeof_MsgBuf q (lq_mem s);
     Some (r, \<lparr>linkQueue = Some q, lq_mem = m\<rparr>) }"

text \<open>The caller's structure before the call is \<open>msgBuf\<close>; reading it afterwards needs every byte determinate.\<close>

definition DeMsgLinkQueue :: "lq_alloc \<Rightarrow> MsgBuf \<Rightarrow> msg_queue \<Rightarrow> (queue_ret_t \<times> MsgBuf \<times> msg_queue) option" where
  "DeMsgLinkQueue al msgBuf s = do {
     (q, s) \<leftarrow> GetMsgLinkQueue al s;
     q \<leftarrow> q;
     (r, out, q, m) \<leftarrow> DeLinkQueue (Some (map Some (bytes_of_MsgBuf msgBuf))) sizeof_MsgBuf q (lq_mem s);
     out \<leftarrow> out;
     if None \<in> set out then None
     else Some (r, MsgBuf_of_bytes (map the out), \<lparr>linkQueue = Some q, lq_mem = m\<rparr>) }"

section \<open>The queue implements the contract\<close>

definition stored :: "MsgBuf \<Rightarrow> byte obj list" where
  "stored b = map Some (bytes_of_MsgBuf b)"

definition mq_rep :: "msg_queue \<Rightarrow> MsgBuf list \<Rightarrow> bool" where
  "mq_rep s ms \<longleftrightarrow> (\<exists>q xs. linkQueue s = Some q \<and> lq_dataSize q = sizeof_MsgBuf \<and> lrep q (lq_mem s) xs (map stored ms))"

text \<open>The same before the first use.\<close>

definition mq_rep0 :: "msg_queue \<Rightarrow> MsgBuf list \<Rightarrow> bool" where
  "mq_rep0 s ms \<longleftrightarrow> mq_rep s ms \<or> linkQueue s = None \<and> ms = []"

definition mq_ok :: "lq_alloc \<Rightarrow> MsgBuf \<Rightarrow> msg_queue \<Rightarrow> bool" where
  "mq_ok al b s \<longleftrightarrow> wf_MsgBuf b \<and> lqa_node al \<noteq> NULL \<and> lqa_node al \<notin> dom (lnodes (lq_mem s)) \<and>
     lqa_data al \<noteq> NULL \<and> lqa_data al \<notin> dom (lbufs (lq_mem s))"

definition mq_ok0 :: "lq_alloc \<Rightarrow> MsgBuf \<Rightarrow> msg_queue \<Rightarrow> bool" where
  "mq_ok0 al b s \<longleftrightarrow> mq_ok al b s \<and> lqa_first al \<noteq> NULL \<and> lqa_ok al \<and> lqa_node al \<noteq> lqa_first al"

lemma GetMsgLinkQueue_ok:
  assumes "mq_rep0 s ms" "lqa_first al \<noteq> NULL" "lqa_ok al"
  shows "\<exists>q s'. GetMsgLinkQueue al s = Some (Some q, s') \<and> linkQueue s' = Some q \<and> mq_rep s' ms \<and>
    dom (lnodes (lq_mem s')) \<subseteq> insert (lqa_first al) (dom (lnodes (lq_mem s))) \<and> lbufs (lq_mem s') = lbufs (lq_mem s)"
proof (cases "linkQueue s = None")
  case True
  then have "ms = []" using assms(1) by (auto simp: mq_rep0_def mq_rep_def)
  with True assms(2,3) show ?thesis
    by (auto simp: GetMsgLinkQueue_def InitLinkQueue_def sizeof_MsgBuf_def mq_rep_def lrep_def intro!: exI [of _ "[]"])
next
  case False
  with assms(1) show ?thesis by (auto simp: GetMsgLinkQueue_def mq_rep0_def mq_rep_def)
qed

lemma EnMsgLinkQueue_ok:
  assumes "mq_rep0 s ms" "mq_ok0 al b s"
  shows "\<exists>s'. EnMsgLinkQueue al b s = Some (QUEUE_SUCCESS, s') \<and> mq_rep s' (ms @ [b])"
proof -
  obtain q s1 where 1: "GetMsgLinkQueue al s = Some (Some q, s1)" "linkQueue s1 = Some q" "mq_rep s1 ms"
    "dom (lnodes (lq_mem s1)) \<subseteq> insert (lqa_first al) (dom (lnodes (lq_mem s)))" "lbufs (lq_mem s1) = lbufs (lq_mem s)"
    using GetMsgLinkQueue_ok [OF assms(1), of al] assms(2) by (auto simp: mq_ok0_def)
  obtain xs where xs: "lrep q (lq_mem s1) xs (map stored ms)" "lq_dataSize q = sizeof_MsgBuf"
    using 1(2,3) by (auto simp: mq_rep_def)
  have "lqa_node al \<noteq> NULL" "lqa_node al \<notin> dom (lnodes (lq_mem s1))" "lqa_data al \<noteq> NULL"
    "lqa_data al \<notin> dom (lbufs (lq_mem s1))" "length (stored b) = lq_dataSize q"
    using assms(2) 1(4,5) xs(2) length_bytes_of_MsgBuf [of b] by (auto simp: mq_ok0_def mq_ok_def stored_def)
  then obtain q' m' where "EnLinkQueue (lqa_node al) (lqa_data al) (Some (stored b)) (lq_dataSize q) q (lq_mem s1) =
      Some (QUEUE_SUCCESS, q', m')" "lrep q' m' (xs @ [(lq_rear q, lqa_data al)]) (map stored ms @ [stored b])"
    "lq_dataSize q' = lq_dataSize q"
    using EnLinkQueue_ok [OF xs(1)] by blast
  then show ?thesis
    using 1(1) xs(2) by (auto simp: EnMsgLinkQueue_def mq_rep_def stored_def [symmetric])
qed

lemma DeMsgLinkQueue_ok:
  assumes "mq_rep s (b # ms)" "wf_MsgBuf buf"
  shows "\<exists>s'. DeMsgLinkQueue al buf s = Some (QUEUE_SUCCESS, b, s') \<and> mq_rep s' ms"
proof -
  obtain q xs where q: "linkQueue s = Some q" "lq_dataSize q = sizeof_MsgBuf" "lrep q (lq_mem s) xs (stored b # map stored ms)"
    using assms(1) by (auto simp: mq_rep_def)
  then obtain n a ys where xs: "xs = (n, a) # ys" by (cases xs) (auto simp: lrep_def)
  obtain q' m' where "DeLinkQueue (Some (stored buf)) (lq_dataSize q) q (lq_mem s) =
      Some (QUEUE_SUCCESS, Some (stored b @ drop (lq_dataSize q) (stored buf)), q', m')"
    "lrep q' m' ys (map stored ms)" "lq_dataSize q' = lq_dataSize q"
    using DeLinkQueue_ok [of q "lq_mem s" n a ys "stored b" "map stored ms" "Some (stored buf)"] q(2,3) xs
      length_bytes_of_MsgBuf [OF assms(2)] by (auto simp: stored_def)
  then show ?thesis
    using q(1,2) length_bytes_of_MsgBuf [OF assms(2)]
    by (auto simp: DeMsgLinkQueue_def GetMsgLinkQueue_def mq_rep_def stored_def o_def)
qed

lemma DeMsgLinkQueue_empty:
  assumes "mq_rep0 s []" "lqa_first al \<noteq> NULL" "lqa_ok al"
  shows "\<exists>s'. DeMsgLinkQueue al buf s = Some (QUEUE_EMPTY, buf, s') \<and> mq_rep s' []"
proof -
  obtain q s1 where 1: "GetMsgLinkQueue al s = Some (Some q, s1)" "linkQueue s1 = Some q" "mq_rep s1 []"
    using GetMsgLinkQueue_ok [OF assms] by blast
  then have "lrep q (lq_mem s1) [] []" "lq_dataSize q = sizeof_MsgBuf"
    by (auto simp: mq_rep_def lrep_def)
  then have "DeLinkQueue (Some (stored buf)) sizeof_MsgBuf q (lq_mem s1) = Some (QUEUE_EMPTY, Some (stored buf), q, lq_mem s1)"
    using DeLinkQueue_empty by metis
  then show ?thesis
    using 1 by (cases s1) (auto simp: DeMsgLinkQueue_def stored_def o_def)
qed

text \<open>A use of a queue that is already set up needs nothing from the allocator but the new node.\<close>

definition no_alloc :: lq_alloc where
  "no_alloc = \<lparr>lqa_first = NULL, lqa_ok = False, lqa_node = NULL, lqa_data = NULL\<rparr>"

lemma zero_MsgBuf_wf [simp]: "wf_MsgBuf zero_MsgBuf"
  by (simp add: wf_MsgBuf_def zero_MsgBuf_def)

interpretation tcpmq: byte_queue EnMsgLinkQueue "DeMsgLinkQueue no_alloc zero_MsgBuf" mq_rep "\<lambda>_. None" mq_ok0
proof
  show "\<exists>s'. EnMsgLinkQueue al b s = Some (QUEUE_SUCCESS, s') \<and> mq_rep s' (ms @ [b]) \<and> None = None"
    if "mq_rep s ms" "mq_ok0 al b s" for s ms al b
    using EnMsgLinkQueue_ok [of s ms al b] that by (simp add: mq_rep0_def)
  show "\<exists>d. DeMsgLinkQueue no_alloc zero_MsgBuf s = Some (QUEUE_EMPTY, d, s)" if rep: "mq_rep s []" for s
  proof -
    obtain q where q: "linkQueue s = Some q" "lq_dataSize q = sizeof_MsgBuf" "lrep q (lq_mem s) [] []"
      using rep by (auto simp: mq_rep_def lrep_def)
    then have "DeLinkQueue (Some (stored zero_MsgBuf)) sizeof_MsgBuf q (lq_mem s) =
        Some (QUEUE_EMPTY, Some (stored zero_MsgBuf), q, lq_mem s)"
      using DeLinkQueue_empty by metis
    with q(1) show ?thesis
      by (cases s) (auto simp: DeMsgLinkQueue_def GetMsgLinkQueue_def stored_def)
  qed
  show "\<exists>s'. DeMsgLinkQueue no_alloc zero_MsgBuf s = Some (QUEUE_SUCCESS, b, s') \<and> mq_rep s' ms \<and> None = None"
    if "mq_rep s (b # ms)" for s b ms
    using DeMsgLinkQueue_ok [OF that] by auto
qed (simp_all add: spec_full_def)

end
