(* ===== verification/Tcp_Server.thy ===== *)
theory Tcp_Server
  imports Tcp_Queue
begin

text \<open>
  The TCP server (\<open>socket_tcp/server\<close>): accepting connections, the dispatch of \<open>epoll\<close> events,
  receiving, broadcasting and forwarding messages. It is built with \<open>LOCAL_DEBUG\<close>, so \<open>ProcessMsg\<close>
  calls \<open>DisplayMsgBuf\<close>. The results of system calls are arguments; what is sent on a connection is
  in \<open>t_sent\<close>, what is written to a descriptor in \<open>written\<close>.
\<close>

record tcp_server =
  serverFd :: int
  epFd :: int
  watched :: "int list"
  conns :: tcp_state
  msgq :: msg_queue
  written :: "(int \<times> byte list) list"
  tcp_threads :: "string list"

text \<open>What the allocator answers in a step: list head, list node, message buffers, message queue.\<close>

record tcp_alloc =
  ta_head :: addr
  ta_node :: addr
  ta_bufs :: bool
  ta_lq :: lq_alloc

section \<open>The receive buffer\<close>

definition GetMsgBuf :: "bool \<Rightarrow> tcp_state \<Rightarrow> tcp_state" where
  "GetMsgBuf bok t =
     (if msgBufs t = None \<and> bok then t\<lparr>msgBufs := Some (zero_MsgBuf, zero_MsgBuf)\<rparr> else t)"

definition rx_of :: "tcp_state \<Rightarrow> MsgBuf option" where
  "rx_of t = map_option fst (msgBufs t)"

definition put_rx :: "MsgBuf \<Rightarrow> tcp_state \<Rightarrow> tcp_state" where
  "put_rx rx t = t\<lparr>msgBufs := map_option (\<lambda>(_, tx). (rx, tx)) (msgBufs t)\<rparr>"

text \<open>\<open>recv\<close> of some bytes into a message: the bytes behind them keep what was there before.\<close>

definition recv_into :: "byte list \<Rightarrow> MsgBuf \<Rightarrow> MsgBuf" where
  "recv_into bytes b = MsgBuf_of_bytes (take sizeof_MsgBuf bytes @ drop (length bytes) (bytes_of_MsgBuf b))"

section \<open>\<open>server_socket.c\<close>\<close>

text \<open>The results of \<open>socket\<close>, \<open>setsockopt\<close>, \<open>bind\<close> and \<open>listen\<close>; \<open>-1\<close> is an error.\<close>

definition InitServerSock :: "int \<Rightarrow> int \<Rightarrow> int \<Rightarrow> int \<Rightarrow> tcp_server \<Rightarrow> int \<times> tcp_server" where
  "InitServerSock sock opt bnd lst s =
     (if serverFd s \<noteq> - 1 then (- 1, s)
      else let s = s\<lparr>serverFd := sock\<rparr> in
        if sock = - 1 then (- 1, s)
        else if opt = - 1 then (- 1, s)
        else if bnd = - 1 then (- 1, s)
        else if lst = - 1 then (- 1, s)
        else (0, s))"

text \<open>\<open>ok\<close>: whether \<open>epoll_ctl\<close> succeeds.\<close>

definition AddEpollByFd :: "bool \<Rightarrow> int \<Rightarrow> tcp_server \<Rightarrow> int \<times> tcp_server" where
  "AddEpollByFd ok k s = (if ok then (0, s\<lparr>watched := watched s @ [k]\<rparr>) else (- 1, s))"

definition AcceptNewClient :: "tcp_alloc \<Rightarrow> (int \<times> tcp_addr) option \<Rightarrow> bool \<Rightarrow> tcp_server \<Rightarrow> (int \<times> tcp_server) option" where
  "AcceptNewClient al acc ok s =
     (case acc of
        None \<Rightarrow> Some (- 1, s)
      | Some (k, a) \<Rightarrow> do {
          (_, t) \<leftarrow> AddToCliInfo (ta_head al) (ta_node al) (Some \<lparr>fd = k, cliEndid = 0, addr_in = a\<rparr>) (conns s);
          Some (0, snd (AddEpollByFd ok k (s\<lparr>conns := t\<rparr>))) })"

text \<open>\<open>rx\<close> is what \<open>read\<close> returns, at most \<open>MAX_MSG_LEN\<close> bytes, \<open>None\<close> for an error.\<close>

definition BroadcastAllClient :: "tcp_alloc \<Rightarrow> (int \<Rightarrow> bool) \<Rightarrow> byte list option \<Rightarrow> tcp_server \<Rightarrow> (int \<times> tcp_server) option" where
  "BroadcastAllClient al ok rx s = do {
     let t = GetMsgBuf (ta_bufs al) (conns s);
     buf \<leftarrow> rx_of t;
     let buf = buf\<lparr>mb_msg := replicate MAX_MSG_LEN 0\<rparr>;
     case rx of
       None \<Rightarrow> Some (- 1, s\<lparr>conns := put_rx buf t\<rparr>)
     | Some bytes \<Rightarrow> do {
         let buf = buf\<lparr>mb_msg := take MAX_MSG_LEN bytes @ drop (length bytes) (mb_msg buf)\<rparr>;
         (r, t) \<leftarrow> SendMsgAllClient (ta_head al) ok (ta_bufs al) buf (put_rx buf t);
         Some (r, s\<lparr>conns := t\<rparr>) } }"

definition ClientMsgEnQueue ::
  "tcp_alloc \<Rightarrow> (int \<Rightarrow> bool) \<Rightarrow> byte list option \<Rightarrow> int \<Rightarrow> tcp_server \<Rightarrow> (int \<times> tcp_server) option" where
  "ClientMsgEnQueue al ok rx k s = do {
     let t = GetMsgBuf (ta_bufs al) (conns s);
     case rx of
       None \<Rightarrow> Some (- 1, s\<lparr>conns := t\<rparr>)
     | Some bytes \<Rightarrow>
         if bytes = [] then do {
           (_, t) \<leftarrow> DelFromCliInfoByFd (ta_head al) k t;
           Some (- 1, s\<lparr>conns := t\<rparr>) }
         else do {
           buf \<leftarrow> rx_of t;
           let buf = recv_into bytes buf;
           let t = put_rx buf t;
           if mb_type buf = SAVE_CLI_INFO then do {
             (_, t) \<leftarrow> SaveOneCliInfoByFd (ta_head al) k buf t;
             (_, t) \<leftarrow> SendInitInfoToCliByFd (ta_head al) ok (ta_bufs al) k t;
             Some (0, s\<lparr>conns := t\<rparr>) }
           else do {
             (_, q) \<leftarrow> EnMsgLinkQueue (ta_lq al) buf (msgq s);
             Some (0, s\<lparr>conns := t, msgq := q\<rparr>) } } }"

text \<open>The end id of the server process, \<open>GetServerEndId\<close>.\<close>

definition GetServerEndId :: "32 word" where
  "GetServerEndId = 0"

text \<open>The line it logs: both ids are read through the pointers that the searches return.\<close>

definition tcp_DisplayMsgBuf :: "addr \<Rightarrow> MsgBuf \<Rightarrow> tcp_state \<Rightarrow> ((32 word \<times> 32 word \<times> byte list) \<times> tcp_state) option" where
  "tcp_DisplayMsgBuf hp msgBuf t = do {
     (src, t) \<leftarrow> GetOneCliInfoByEndID hp (mb_src msgBuf) t;
     (tmpid, t) \<leftarrow> (if mb_dest msgBuf = GetServerEndId then Some (mb_dest msgBuf, t)
       else do {
         (dest, t) \<leftarrow> GetOneCliInfoByEndID hp (mb_dest msgBuf) t;
         d \<leftarrow> rd_data (t_mem t) dest;
         d \<leftarrow> d;
         Some (cliEndid d, t) });
     c \<leftarrow> rd_data (t_mem t) src;
     c \<leftarrow> c;
     line \<leftarrow> buf_read (mb_msg msgBuf) 0 30;
     Some ((cliEndid c, tmpid, line), t) }"

text \<open>\<open>GetCliInfoErrStr\<close> formats the id of an entry for a log line.\<close>

definition GetCliInfoErrStr :: "addr \<Rightarrow> tcp_state \<Rightarrow> (32 word) option" where
  "GetCliInfoErrStr p t = do { d \<leftarrow> rd_data (t_mem t) p; d \<leftarrow> d; Some (cliEndid d) }"

text \<open>\<open>wok\<close>: whether the \<open>write\<close> transfers the whole text; \<open>ok k\<close>: the same of a \<open>send\<close> on \<open>k\<close>.\<close>

definition ProcessMsg :: "addr \<Rightarrow> (int \<Rightarrow> bool) \<Rightarrow> bool \<Rightarrow> MsgBuf \<Rightarrow> tcp_server \<Rightarrow> (int \<times> tcp_server) option" where
  "ProcessMsg hp ok wok msgBuf s =
     (if mb_type msgBuf \<noteq> PROCESS_MSG then Some (- 1, s)
      else do {
        (_, t) \<leftarrow> tcp_DisplayMsgBuf hp msgBuf (conns s);
        (srcEndInfo, t) \<leftarrow> GetOneCliInfoByEndID hp (mb_src msgBuf) t;
        if mb_dest msgBuf = GetServerEndId then do {
          let s = s\<lparr>conns := t, written := written s @ [(sint (mb_dest msgBuf), mb_msg msgBuf)]\<rparr>;
          if \<not> wok then do { _ \<leftarrow> GetCliInfoErrStr srcEndInfo t; Some (- 1, s) } else Some (0, s) }
        else do {
          (destEndInfo, t) \<leftarrow> GetOneCliInfoByEndID hp (mb_dest msgBuf) t;
          d \<leftarrow> rd_data (t_mem t) destEndInfo;
          d \<leftarrow> d;
          let t = t\<lparr>t_sent := t_sent t @ [(fd d, msgBuf)]\<rparr>;
          let s = s\<lparr>conns := t\<rparr>;
          if \<not> ok (fd d) then do {
            _ \<leftarrow> GetCliInfoErrStr srcEndInfo t;
            _ \<leftarrow> GetCliInfoErrStr destEndInfo t;
            Some (- 1, s) }
          else Some (0, s) } })"

text \<open>One round of the processing thread; \<open>msgBufTmp\<close> is its local, kept between rounds.\<close>

definition ProcessCliMsg_round ::
  "tcp_alloc \<Rightarrow> (int \<Rightarrow> bool) \<Rightarrow> bool \<Rightarrow> MsgBuf \<Rightarrow> tcp_server \<Rightarrow> (MsgBuf \<times> tcp_server) option" where
  "ProcessCliMsg_round al ok wok msgBufTmp s = do {
     (r, msgBufTmp, q) \<leftarrow> DeMsgLinkQueue (ta_lq al) msgBufTmp (msgq s);
     let s = s\<lparr>msgq := q\<rparr>;
     if r = QUEUE_EMPTY then Some (msgBufTmp, s)
     else do {
       (_, s) \<leftarrow> ProcessMsg (ta_head al) ok wok msgBufTmp s;
       Some (msgBufTmp, s) } }"

text \<open>The results of \<open>pthread_attr_setdetachstate\<close> and \<open>pthread_create\<close>; \<open>0\<close> is success.\<close>

definition CreateProcessCliMsgThread :: "int \<Rightarrow> int \<Rightarrow> tcp_server \<Rightarrow> int \<times> tcp_server" where
  "CreateProcessCliMsgThread attr create s =
     (if attr \<noteq> 0 then (- 1, s)
      else if create \<noteq> 0 then (- 1, s)
      else (0, s\<lparr>tcp_threads := tcp_threads s @ [''SrvProMsg'']\<rparr>))"

section \<open>\<open>server_epoll.c\<close>\<close>

definition InitEpoll :: "int \<Rightarrow> bool \<Rightarrow> bool \<Rightarrow> tcp_server \<Rightarrow> int \<times> tcp_server" where
  "InitEpoll ep ok1 ok2 s =
     (let s = s\<lparr>epFd := ep\<rparr> in
      if ep = - 1 then (- 1, s)
      else let s = snd (AddEpollByFd ok1 (serverFd s) s); s = snd (AddEpollByFd ok2 0 s) in (0, s))"

text \<open>What the system calls behind one event return.\<close>

record tcp_event =
  ev_fd :: int
  ev_alloc :: tcp_alloc
  ev_accept :: "(int \<times> tcp_addr) option"
  ev_ctl :: bool
  ev_rx :: "byte list option"
  ev_send :: "int \<Rightarrow> bool"

definition ProcessEventsByFd :: "tcp_event \<Rightarrow> tcp_server \<Rightarrow> (int \<times> tcp_server) option" where
  "ProcessEventsByFd e s =
     (if ev_fd e = serverFd s then do {
        (_, s) \<leftarrow> AcceptNewClient (ev_alloc e) (ev_accept e) (ev_ctl e) s;
        Some (0, s) }
      else if ev_fd e = 0 then do {
        (_, s) \<leftarrow> BroadcastAllClient (ev_alloc e) (ev_send e) (ev_rx e) s;
        Some (0, s) }
      else do {
        (p, t) \<leftarrow> GetOneCliInfoByFd (ta_head (ev_alloc e)) (ev_fd e) (conns s);
        let s = s\<lparr>conns := t\<rparr>;
        if p \<noteq> NULL then do {
          (_, s) \<leftarrow> ClientMsgEnQueue (ev_alloc e) (ev_send e) (ev_rx e) (ev_fd e) s;
          Some (0, s) }
        else Some (- 1, s) })"

fun process_events :: "tcp_event list \<Rightarrow> tcp_server \<Rightarrow> tcp_server option" where
  "process_events [] s = Some s"
| "process_events (e # es) s = do { (_, s) \<leftarrow> ProcessEventsByFd e s; process_events es s }"

text \<open>One round of \<open>ProcessEpoll\<close>: \<open>epoll_wait\<close> returns an error, or some events.\<close>

definition ProcessEpoll_round :: "tcp_event list option \<Rightarrow> tcp_server \<Rightarrow> tcp_server option" where
  "ProcessEpoll_round evs s = (case evs of None \<Rightarrow> Some s | Some es \<Rightarrow> process_events es s)"

definition CreateEpollProcessThread :: "int \<Rightarrow> int \<Rightarrow> tcp_server \<Rightarrow> int \<times> tcp_server" where
  "CreateEpollProcessThread attr create s =
     (if attr \<noteq> 0 then (- 1, s)
      else if create \<noteq> 0 then (- 1, s)
      else (0, s\<lparr>tcp_threads := tcp_threads s @ [''SrvEp'']\<rparr>))"

text \<open>The start of \<open>main\<close>: every result is ignored.\<close>

definition tcp_server_main ::
  "int \<times> int \<times> int \<times> int \<Rightarrow> int \<times> bool \<times> bool \<Rightarrow> int \<times> int \<Rightarrow> int \<times> int \<Rightarrow> tcp_server \<Rightarrow> tcp_server" where
  "tcp_server_main sk ep th1 th2 s =
     (case sk of (sock, opt, bnd, lst) \<Rightarrow>
      case ep of (e, ok1, ok2) \<Rightarrow>
      let s = snd (InitServerSock sock opt bnd lst s);
          s = snd (InitEpoll e ok1 ok2 s);
          s = snd (CreateEpollProcessThread (fst th1) (snd th1) s)
      in snd (CreateProcessCliMsgThread (fst th2) (snd th2) s))"

section \<open>Looking up the ends of a message\<close>

text \<open>The newest connection that reported an id.\<close>

definition by_id :: "32 word \<Rightarrow> CliInfoNode list \<Rightarrow> CliInfoNode option" where
  "by_id k cs = List.find (\<lambda>c. cliEndid c = k) cs"

lemma by_id_extract:
  "by_id k cs = map_option (\<lambda>(as, c, bs). c) (List.extract (\<lambda>c. cliEndid c = k) cs)"
  by (induction cs) (auto simp: by_id_def extract_Cons_code extract_Nil_code split: option.split)

lemma search_id:
  assumes "t_rep t cs" "cs \<noteq> []" "fresh (t_mem t) hp"
  obtains p where "GetOneCliInfoByEndID hp k t = Some (p, t)"
    "case by_id k cs of None \<Rightarrow> p = NULL | Some c \<Rightarrow> p \<noteq> NULL \<and> rd_data (t_mem t) p = Some (Some c)"
proof -
  obtain p t' where p: "GetOneCliInfoByEndID hp k t = Some (p, t')" "found t' (\<lambda>c. cliEndid c = k) cs p"
    using GetOneCliInfoByEndID_ok [OF assms(1,3)] by blast
  moreover have "t' = t" using search_same [OF rep_nonempty [OF assms(1,2)] p(1)] .
  ultimately show thesis
    using that [of p] by (cases "List.extract (\<lambda>c. cliEndid c = k) cs") (auto simp: found_def by_id_extract)
qed

lemma search_id_none:
  assumes "t_rep t []" "fresh (t_mem t) hp"
  shows "\<exists>t'. GetOneCliInfoByEndID hp k t = Some (NULL, t') \<and> t_rep t' [] \<and> live (t_mem t') \<subseteq> insert hp (live (t_mem t)) \<and>
    cliInfoManager t' \<noteq> NULL"
proof -
  obtain p t' where p: "GetOneCliInfoByEndID hp k t = Some (p, t')" "t_rep t' []" "found t' (\<lambda>c. cliEndid c = k) [] p"
    using GetOneCliInfoByEndID_ok [OF assms] by blast
  have "cliInfoManager t' \<noteq> NULL" "live (t_mem t') \<subseteq> insert hp (live (t_mem t))"
    using p(1) assms(2)
    by (auto simp: GetOneCliInfoByEndID_def GetCliInfoManager_def InitCliInfoManager_def INIT_LIST_HEAD_def bind_eq_Some_conv
        access_defs fresh_def split: if_splits)
  with p show ?thesis by (simp add: found_def extract_Nil_code)
qed

lemma rd_NULL: "t_rep t cs \<Longrightarrow> rd_data (t_mem t) NULL = None"
  by (simp add: t_rep_def rd_data_def)

text \<open>Whether both ends of a message are known.\<close>

definition ends_known :: "MsgBuf \<Rightarrow> CliInfoNode list \<Rightarrow> bool" where
  "ends_known b cs \<longleftrightarrow> by_id (mb_src b) cs \<noteq> None \<and> (mb_dest b = GetServerEndId \<or> by_id (mb_dest b) cs \<noteq> None)"

lemma display_ok:
  assumes "t_rep t cs" "fresh (t_mem t) hp" "wf_MsgBuf b"
  shows "if ends_known b cs
    then tcp_DisplayMsgBuf hp b t = Some ((mb_src b, mb_dest b, take 30 (mb_msg b)), t)
    else tcp_DisplayMsgBuf hp b t = None"
proof (cases "cs = []")
  case True
  obtain t1 where t1: "GetOneCliInfoByEndID hp (mb_src b) t = Some (NULL, t1)" "t_rep t1 []" "cliInfoManager t1 \<noteq> NULL"
    using search_id_none assms(1,2) True by blast
  have "tcp_DisplayMsgBuf hp b t = None"
  proof (cases "mb_dest b = GetServerEndId")
    case True
    then show ?thesis using t1 rd_NULL by (simp add: tcp_DisplayMsgBuf_def)
  next
    case False
    have "\<exists>h. GetCliInfoManager hp t1 = Some (h, t1)" using t1(3) by (simp add: GetCliInfoManager_def)
    moreover obtain xs where "qnodes (t_mem t1) (cliInfoManager t1) xs" "xs = []"
      using t1(2,3) by (auto simp: t_rep_def qdata_def)
    ultimately have "GetOneCliInfoByEndID hp (mb_dest b) t1 = Some (NULL, t1)"
      using scan_miss [of "(t_mem t1, ())" "cliInfoManager t1" "[]" "find_body (\<lambda>d. cliEndid d = mb_dest b)"] bodies_keep(2) t1(3)
      by (auto simp: GetOneCliInfoByEndID_def GetCliInfoManager_def)
    then show ?thesis using t1 rd_NULL False by (simp add: tcp_DisplayMsgBuf_def)
  qed
  then show ?thesis using True by (simp add: ends_known_def by_id_def)
next
  case False
  obtain p where p: "GetOneCliInfoByEndID hp (mb_src b) t = Some (p, t)"
    "case by_id (mb_src b) cs of None \<Rightarrow> p = NULL | Some c \<Rightarrow> p \<noteq> NULL \<and> rd_data (t_mem t) p = Some (Some c)"
    using search_id [OF assms(1) False assms(2)] by blast
  obtain q where q: "GetOneCliInfoByEndID hp (mb_dest b) t = Some (q, t)"
    "case by_id (mb_dest b) cs of None \<Rightarrow> q = NULL | Some c \<Rightarrow> q \<noteq> NULL \<and> rd_data (t_mem t) q = Some (Some c)"
    using search_id [OF assms(1) False assms(2)] by blast
  have id: "by_id k cs = Some c \<Longrightarrow> cliEndid c = k" for k c
    by (auto simp: by_id_def find_Some_iff)
  have "buf_read (mb_msg b) 0 30 = Some (take 30 (mb_msg b))"
    using assms(3) by (simp add: buf_read_def wf_MsgBuf_def MAX_MSG_LEN_def)
  then show ?thesis
    using p q rd_NULL [OF assms(1)] id
    by (cases "by_id (mb_src b) cs"; cases "by_id (mb_dest b) cs") (auto simp: tcp_DisplayMsgBuf_def ends_known_def)
qed

section \<open>Representation\<close>

text \<open>The connections, newest first, and the messages waiting to be processed.\<close>

definition tsrv_rep :: "tcp_server \<Rightarrow> CliInfoNode list \<Rightarrow> MsgBuf list \<Rightarrow> bool" where
  "tsrv_rep s cs ms \<longleftrightarrow> t_rep (conns s) cs \<and> mq_rep0 (msgq s) ms \<and>
     (case msgBufs (conns s) of None \<Rightarrow> True | Some (rx, tx) \<Rightarrow> wf_MsgBuf rx \<and> wf_MsgBuf tx)"

definition tcp_alloc_ok :: "tcp_alloc \<Rightarrow> tcp_server \<Rightarrow> bool" where
  "tcp_alloc_ok al s \<longleftrightarrow> fresh (t_mem (conns s)) (ta_head al) \<and> fresh (t_mem (conns s)) (ta_node al) \<and>
     ta_head al \<noteq> ta_node al \<and> ta_bufs al \<and> mq_ok0 (ta_lq al) zero_MsgBuf (msgq s)"

lemma mq_ok0_wf: "mq_ok0 al zero_MsgBuf s \<Longrightarrow> wf_MsgBuf b \<Longrightarrow> mq_ok0 al b s"
  by (simp add: mq_ok0_def mq_ok_def)

text \<open>What the receive buffer holds before a \<open>recv\<close>.\<close>

definition cur_rx :: "tcp_server \<Rightarrow> MsgBuf" where
  "cur_rx s = (case msgBufs (conns s) of None \<Rightarrow> zero_MsgBuf | Some (rx, tx) \<Rightarrow> rx)"

lemma GetMsgBuf_ok:
  assumes "tsrv_rep s cs ms"
  shows "\<exists>tx. msgBufs (GetMsgBuf True (conns s)) = Some (cur_rx s, tx) \<and> wf_MsgBuf tx"
    and "wf_MsgBuf (cur_rx s)"
    and "t_rep (GetMsgBuf True (conns s)) cs" "t_mem (GetMsgBuf True (conns s)) = t_mem (conns s)"
    "t_sent (GetMsgBuf True (conns s)) = t_sent (conns s)" "t_closed (GetMsgBuf True (conns s)) = t_closed (conns s)"
  using assms
  by (auto simp: tsrv_rep_def GetMsgBuf_def cur_rx_def t_rep_cong [of "conns s\<lparr>msgBufs := _\<rparr>" "conns s"] split: option.splits)

lemma length_recv: "wf_MsgBuf rx \<Longrightarrow> length (take sizeof_MsgBuf bytes @ drop (length bytes) (bytes_of_MsgBuf rx)) = sizeof_MsgBuf"
  by (simp add: length_bytes_of_MsgBuf)

lemma recv_wf: "wf_MsgBuf rx \<Longrightarrow> wf_MsgBuf (recv_into bytes rx)"
  unfolding recv_into_def by (intro wf_MsgBuf_of_bytes length_recv)

lemma recv_whole: "length bytes = sizeof_MsgBuf \<Longrightarrow> wf_MsgBuf rx \<Longrightarrow> recv_into bytes rx = MsgBuf_of_bytes bytes"
  by (simp add: recv_into_def length_bytes_of_MsgBuf)

lemma recv_message:
  assumes "wf_MsgBuf m" "wf_MsgBuf rx"
  shows "recv_into (bytes_of_MsgBuf m) rx = m" "bytes_of_MsgBuf m \<noteq> []"
  using recv_whole [OF length_bytes_of_MsgBuf [OF assms(1)] assms(2)] length_bytes_of_MsgBuf [OF assms(1)]
  by (auto simp: sizeof_MsgBuf_def)

lemma recv_type:
  assumes "length bytes \<ge> 4"
  shows "mb_type (recv_into bytes b) = word_at bytes 0"
proof -
  have "(take sizeof_MsgBuf bytes @ ys) ! i = bytes ! i" if "i < 4" for i ys
    using that assms by (simp add: nth_append sizeof_MsgBuf_def)
  then show ?thesis by (simp add: recv_into_def MsgBuf_of_bytes_def word_at_def)
qed

lemma put_rx_rep: "t_rep (put_rx b t) cs = t_rep t cs"
  by (rule t_rep_cong) (simp_all add: put_rx_def)

section \<open>Receiving\<close>

lemma ClientMsgEnQueue_data:
  assumes "tsrv_rep s cs ms" "tcp_alloc_ok al s" "bytes \<noteq> []" "b = recv_into bytes (cur_rx s)" "mb_type b \<noteq> SAVE_CLI_INFO"
  shows "\<exists>s'. ClientMsgEnQueue al ok (Some bytes) k s = Some (0, s') \<and>
    tsrv_rep s' cs (ms @ [b]) \<and> cur_rx s' = b \<and> t_sent (conns s') = t_sent (conns s) \<and> written s' = written s \<and>
    t_mem (conns s') = t_mem (conns s)"
proof -
  let ?t = "GetMsgBuf True (conns s)"
  obtain tx where bufs: "msgBufs ?t = Some (cur_rx s, tx)" "wf_MsgBuf (cur_rx s)" "wf_MsgBuf tx"
    using GetMsgBuf_ok(1,2) [OF assms(1)] by blast
  note t = GetMsgBuf_ok(3-5) [OF assms(1)]
  have b: "recv_into bytes (cur_rx s) = b" "wf_MsgBuf b" "bytes \<noteq> []"
    using recv_wf [OF bufs(2)] assms(3,4) by auto
  obtain q where q: "EnMsgLinkQueue (ta_lq al) b (msgq s) = Some (QUEUE_SUCCESS, q)" "mq_rep q (ms @ [b])"
    using EnMsgLinkQueue_ok [of "msgq s" ms "ta_lq al" b] assms(1,2) b(2) mq_ok0_wf
    by (auto simp: tsrv_rep_def tcp_alloc_ok_def)
  let ?s = "s\<lparr>conns := put_rx b ?t, msgq := q\<rparr>"
  have "ClientMsgEnQueue al ok (Some bytes) k s = Some (0, ?s)"
    using bufs(1) b q(1) assms(2,5) by (simp add: ClientMsgEnQueue_def tcp_alloc_ok_def rx_of_def)
  moreover have "tsrv_rep ?s cs (ms @ [b])"
    using bufs b(2) t(1) q(2) by (simp add: tsrv_rep_def put_rx_rep mq_rep0_def) (simp add: put_rx_def)
  moreover have "cur_rx ?s = b" using bufs(1) by (simp add: cur_rx_def put_rx_def)
  ultimately show ?thesis using t(2,3) by (auto simp: put_rx_def)
qed

lemma ClientMsgEnQueue_report:
  assumes "tsrv_rep s cs ms" "tcp_alloc_ok al s" "bytes \<noteq> []" "b = recv_into bytes (cur_rx s)"
    "mb_type b = SAVE_CLI_INFO" "List.extract (\<lambda>c. fd c = k) cs = Some (as, c, bs)"
  shows "\<exists>s' a. ClientMsgEnQueue al ok (Some bytes) k s = Some (0, s') \<and>
    tsrv_rep s' (as @ c\<lparr>cliEndid := mb_src b\<rparr> # bs) ms \<and>
    t_sent (conns s') = t_sent (conns s) @ [(k, a)] \<and> mb_type a = SAVE_CLI_INFO \<and> mb_src a = SERVER_ENDID \<and>
    mb_dest a = mb_src b \<and> wf_MsgBuf a"
proof -
  let ?t = "GetMsgBuf True (conns s)"
  let ?c = "c\<lparr>cliEndid := mb_src b\<rparr>"
  obtain tx where bufs: "msgBufs ?t = Some (cur_rx s, tx)" "wf_MsgBuf (cur_rx s)" "wf_MsgBuf tx"
    using GetMsgBuf_ok(1,2) [OF assms(1)] by blast
  note t = GetMsgBuf_ok(3-5) [OF assms(1)]
  have b: "recv_into bytes (cur_rx s) = b" "wf_MsgBuf b" "bytes \<noteq> []"
    using recv_wf [OF bufs(2)] assms(3,4) by auto
  let ?t0 = "put_rx b ?t"
  have bk: "t_mem ?t0 = t_mem (conns s)" "t_sent ?t0 = t_sent (conns s)" "msgBufs ?t0 = Some (b, tx)"
    using t(2,3) bufs(1) by (simp_all add: put_rx_def)
  have fr: "fresh (t_mem ?t0) (ta_head al)" "t_rep ?t0 cs"
    using assms(2) t(1) bk(1) by (simp_all add: put_rx_rep tcp_alloc_ok_def)
  obtain t1 where t1: "SaveOneCliInfoByFd (ta_head al) k b ?t0 = Some (0, t1)" "t_rep t1 (as @ ?c # bs)"
    "t_sent t1 = t_sent (conns s)" "msgBufs t1 = Some (b, tx)" "live (t_mem t1) = live (t_mem ?t0)"
    using SaveOneCliInfoByFd_ok [OF fr(2,1), of k b] assms(6) bk(2,3) by (auto simp: extract_Nil_code)
  have ex: "List.extract (\<lambda>c. fd c = k) (as @ ?c # bs) = Some (as, ?c, bs)"
    using assms(6) by (auto simp: extract_Some_iff)
  have "fresh (t_mem t1) (ta_head al)" using fr(1) t1(5) by (simp add: fresh_def)
  then obtain t2 b2 where t2: "SendInitInfoToCliByFd (ta_head al) ok True k t1 = Some (if ok k then 0 else - 1, t2)"
    "t_rep t2 (as @ ?c # bs)" "t_sent t2 = t_sent t1 @ [(k, b2)]" "mb_type b2 = SAVE_CLI_INFO" "mb_src b2 = SERVER_ENDID"
    "mb_dest b2 = mb_src b" "mb_msg b2 = mb_msg tx" "msgBufs t2 = Some (b, b2)"
    using SendInitInfoToCliByFd_ok [OF t1(2) _ ex, of "ta_head al" ok] t1(4) by auto
  have wf2: "wf_MsgBuf b2" using bufs(3) t2(7) by (simp add: wf_MsgBuf_def)
  have "ClientMsgEnQueue al ok (Some bytes) k s = Some (0, s\<lparr>conns := t2\<rparr>)"
    using bufs(1) b assms(2,5) t1(1) t2(1) by (simp add: ClientMsgEnQueue_def tcp_alloc_ok_def rx_of_def)
  moreover have "tsrv_rep (s\<lparr>conns := t2\<rparr>) (as @ ?c # bs) ms"
    using assms(1) t2(2,8) b(2) wf2 by (simp add: tsrv_rep_def)
  ultimately show ?thesis using t1(3) t2(3-6) wf2 by (intro exI [of _ "s\<lparr>conns := t2\<rparr>"] exI [of _ b2]) simp
qed

section \<open>Processing one message\<close>

lemma ProcessMsg_ok:
  assumes "t_rep (conns s) cs" "fresh (t_mem (conns s)) hp" "wf_MsgBuf b" "mb_type b = PROCESS_MSG"
  shows "if \<not> ends_known b cs then ProcessMsg hp ok wok b s = None
    else if mb_dest b = GetServerEndId
    then ProcessMsg hp ok wok b s = Some (if wok then 0 else - 1, s\<lparr>written := written s @ [(0, mb_msg b)]\<rparr>)
    else ProcessMsg hp ok wok b s =
      Some (if ok (fd (the (by_id (mb_dest b) cs))) then 0 else - 1,
        s\<lparr>conns := conns s\<lparr>t_sent := t_sent (conns s) @ [(fd (the (by_id (mb_dest b) cs)), b)]\<rparr>\<rparr>)"
proof (cases "ends_known b cs")
  case False
  then show ?thesis using display_ok [OF assms(1-3)] assms(4) by (simp add: ProcessMsg_def)
next
  case True
  then have ne: "cs \<noteq> []" by (auto simp: ends_known_def by_id_def)
  obtain c where c: "by_id (mb_src b) cs = Some c" using True by (auto simp: ends_known_def)
  obtain p where p: "GetOneCliInfoByEndID hp (mb_src b) (conns s) = Some (p, conns s)" "rd_data (t_mem (conns s)) p = Some (Some c)"
    using search_id [OF assms(1) ne assms(2), of "mb_src b"] c by auto
  obtain q where q: "GetOneCliInfoByEndID hp (mb_dest b) (conns s) = Some (q, conns s)"
    "case by_id (mb_dest b) cs of None \<Rightarrow> q = NULL | Some d \<Rightarrow> q \<noteq> NULL \<and> rd_data (t_mem (conns s)) q = Some (Some d)"
    using search_id [OF assms(1) ne assms(2), of "mb_dest b"] by blast
  show ?thesis
    using display_ok [OF assms(1-3)] True p q assms(4)
    by (cases "mb_dest b = GetServerEndId"; cases "by_id (mb_dest b) cs")
      (auto simp: ProcessMsg_def ends_known_def GetCliInfoErrStr_def GetServerEndId_def)
qed

section \<open>The event loop\<close>

lemma after_sends_wf:
  assumes "wf_MsgBuf rx" "wf_MsgBuf tx" "length d = MAX_MSG_LEN" "after_sends cs d (Some (rx, tx)) = Some (rx', tx')"
  shows "wf_MsgBuf rx' \<and> wf_MsgBuf tx'"
  using assms by (auto simp: after_sends_def wf_MsgBuf_def server_msg_def split: if_splits)

lemma BroadcastAllClient_ok:
  assumes "tsrv_rep s cs ms" "tcp_alloc_ok al s"
  shows "\<exists>r s'. BroadcastAllClient al ok rx s = Some (r, s') \<and> tsrv_rep s' cs ms \<and>
    t_sent (conns s') = t_sent (conns s) @ (case rx of None \<Rightarrow> [] | Some bytes \<Rightarrow> map (\<lambda>c. (fd c, server_msg (cliEndid c)
      (take MAX_MSG_LEN bytes @ drop (length bytes) (replicate MAX_MSG_LEN 0)))) cs)"
proof -
  let ?t = "GetMsgBuf True (conns s)" and ?b0 = "(cur_rx s)\<lparr>mb_msg := replicate MAX_MSG_LEN 0\<rparr>"
  obtain tx where bufs: "msgBufs ?t = Some (cur_rx s, tx)" "wf_MsgBuf (cur_rx s)" "wf_MsgBuf tx"
    using GetMsgBuf_ok(1,2) [OF assms(1)] by blast
  note t = GetMsgBuf_ok(3-5) [OF assms(1)]
  have rx: "rx_of ?t = Some (cur_rx s)" "ta_bufs al" "fresh (t_mem (conns s)) (ta_head al)" "mq_rep0 (msgq s) ms"
    using bufs(1) assms by (auto simp: rx_of_def tcp_alloc_ok_def tsrv_rep_def)
  show ?thesis
  proof (cases rx)
    case None
    moreover have "tsrv_rep (s\<lparr>conns := put_rx ?b0 ?t\<rparr>) cs ms"
      using bufs t(1) rx(4) by (simp add: tsrv_rep_def put_rx_rep) (simp add: put_rx_def wf_MsgBuf_def)
    moreover have "t_sent (put_rx ?b0 ?t) = t_sent (conns s)" using t(3) by (simp add: put_rx_def)
    ultimately show ?thesis using rx(1,2) by (simp add: BroadcastAllClient_def Let_def)
  next
    case (Some bytes)
    let ?d = "take MAX_MSG_LEN bytes @ drop (length bytes) (replicate MAX_MSG_LEN 0)"
    let ?b = "?b0\<lparr>mb_msg := ?d\<rparr>"
    have d: "length ?d = MAX_MSG_LEN" "wf_MsgBuf ?b" by (auto simp: wf_MsgBuf_def)
    have put: "msgBufs (put_rx ?b ?t) = Some (?b, tx)" "t_mem (put_rx ?b ?t) = t_mem (conns s)"
      "t_sent (put_rx ?b ?t) = t_sent (conns s)"
      using bufs(1) t(2,3) by (simp_all add: put_rx_def)
    have put': "t_rep (put_rx ?b ?t) cs" using t(1) by (simp only: put_rx_rep)
    obtain t' where t': "SendMsgAllClient (ta_head al) ok True ?b (put_rx ?b ?t) =
        Some (if \<forall>c \<in> set cs. ok (fd c) then 0 else - 1, t')" "t_rep t' cs"
      "t_sent t' = t_sent (conns s) @ map (\<lambda>c. (fd c, server_msg (cliEndid c) ?d)) cs"
      "msgBufs t' = after_sends cs ?d (Some (?b, tx))"
      using SendMsgAllClient_ok [OF put', of "ta_head al" ok ?b] put(1-3) rx(3) by auto
    have "tsrv_rep (s\<lparr>conns := t'\<rparr>) cs ms"
      using t'(2,4) rx(4) after_sends_wf [OF d(2) bufs(3) d(1)] by (auto simp: tsrv_rep_def split: option.splits)
    then show ?thesis using Some rx(1,2) t'(1,3) by (simp add: BroadcastAllClient_def)
  qed
qed

lemma tsrv_rep_bufs:
  "tsrv_rep s cs ms \<Longrightarrow> t_rep t cs' \<Longrightarrow> msgBufs t = msgBufs (conns s) \<Longrightarrow> tsrv_rep (s\<lparr>conns := t\<rparr>) cs' ms"
  by (simp add: tsrv_rep_def)

lemma AcceptNewClient_ok:
  assumes "tsrv_rep s cs ms" "tcp_alloc_ok al s"
  shows "\<exists>r s'. AcceptNewClient al acc ok s = Some (r, s') \<and>
    tsrv_rep s' (case acc of None \<Rightarrow> cs | Some (k, a) \<Rightarrow> \<lparr>fd = k, cliEndid = 0, addr_in = a\<rparr> # cs) ms"
proof (cases acc)
  case None
  then show ?thesis using assms(1) by (simp add: AcceptNewClient_def)
next
  case (Some p)
  obtain k a where p: "p = (k, a)" by (cases p)
  obtain t where t: "AddToCliInfo (ta_head al) (ta_node al) (Some \<lparr>fd = k, cliEndid = 0, addr_in = a\<rparr>) (conns s) = Some (0, t)"
    "t_rep t (\<lparr>fd = k, cliEndid = 0, addr_in = a\<rparr> # cs)"
    using AddToCliInfo_ok [of "conns s" cs "ta_head al" "ta_node al" "\<lparr>fd = k, cliEndid = 0, addr_in = a\<rparr>"] assms
    by (auto simp: tsrv_rep_def tcp_alloc_ok_def)
  have "tsrv_rep (s\<lparr>conns := t\<rparr>) (\<lparr>fd = k, cliEndid = 0, addr_in = a\<rparr> # cs) ms"
    using tsrv_rep_bufs [OF assms(1) t(2) bufs_same(3) [OF t(1)]] .
  then show ?thesis
    using t(1) Some p by (auto simp: AcceptNewClient_def AddEpollByFd_def tsrv_rep_def)
qed

lemma ClientMsgEnQueue_any:
  assumes "tsrv_rep s cs ms" "tcp_alloc_ok al s" "List.extract (\<lambda>c. fd c = k) cs = Some (as, c, bs)"
  shows "\<exists>r s' cs' ms'. ClientMsgEnQueue al ok rx k s = Some (r, s') \<and> tsrv_rep s' cs' ms'"
proof -
  consider "rx = None" | "rx = Some []" | bytes where "rx = Some bytes" "bytes \<noteq> []"
    by (cases rx) auto
  then show ?thesis
  proof cases
    case 1
    obtain tx where "msgBufs (GetMsgBuf True (conns s)) = Some (cur_rx s, tx)" "wf_MsgBuf (cur_rx s)" "wf_MsgBuf tx"
      using GetMsgBuf_ok(1,2) [OF assms(1)] by blast
    then have "tsrv_rep (s\<lparr>conns := GetMsgBuf True (conns s)\<rparr>) cs ms"
      using assms(1) GetMsgBuf_ok(3) [OF assms(1)] by (simp add: tsrv_rep_def)
    then show ?thesis using 1 assms(2) by (auto simp: ClientMsgEnQueue_def tcp_alloc_ok_def)
  next
    case 2
    let ?t = "GetMsgBuf True (conns s)"
    obtain tx where bufs: "msgBufs ?t = Some (cur_rx s, tx)" "wf_MsgBuf (cur_rx s)" "wf_MsgBuf tx"
      using GetMsgBuf_ok(1,2) [OF assms(1)] by blast
    obtain t where t: "DelFromCliInfoByFd (ta_head al) k ?t = Some (0, t)" "t_rep t (as @ bs)"
      using DelFromCliInfoByFd_ok [OF GetMsgBuf_ok(3) [OF assms(1)], of "ta_head al" k] assms(2,3) GetMsgBuf_ok(4) [OF assms(1)]
      by (auto simp: tcp_alloc_ok_def)
    have "tsrv_rep (s\<lparr>conns := t\<rparr>) (as @ bs) ms"
      using assms(1) t(2) bufs_same(2) [OF t(1)] bufs by (simp add: tsrv_rep_def)
    then show ?thesis using 2 t(1) assms(2) by (auto simp: ClientMsgEnQueue_def tcp_alloc_ok_def)
  next
    case (3 bytes)
    let ?b = "recv_into bytes (cur_rx s)"
    show ?thesis
    proof (cases "mb_type ?b = SAVE_CLI_INFO")
      case True
      then show ?thesis using ClientMsgEnQueue_report [OF assms(1,2) 3(2) refl True assms(3), of ok] 3(1) by blast
    next
      case False
      then show ?thesis using ClientMsgEnQueue_data [OF assms(1,2) 3(2) refl False, of ok k] 3(1) by blast
    qed
  qed
qed

lemma ProcessEventsByFd_known:
  assumes "tsrv_rep s cs ms" "fresh (t_mem (conns s)) (ta_head (ev_alloc e))" "ev_fd e \<noteq> serverFd s" "ev_fd e \<noteq> 0"
    "List.extract (\<lambda>c. fd c = ev_fd e) cs = Some (as, c, bs)"
  shows "ProcessEventsByFd e s = map_option (\<lambda>(_, s'). (0, s')) (ClientMsgEnQueue (ev_alloc e) (ev_send e) (ev_rx e) (ev_fd e) s)"
proof -
  have t: "t_rep (conns s) cs" using assms(1) by (simp add: tsrv_rep_def)
  obtain p t' where p: "GetOneCliInfoByFd (ta_head (ev_alloc e)) (ev_fd e) (conns s) = Some (p, t')"
    "found t' (\<lambda>c. fd c = ev_fd e) cs p"
    using GetOneCliInfoByFd_ok [OF t assms(2)] by blast
  have "cs \<noteq> []" using assms(5) by (auto simp: extract_Nil_code)
  then have "t' = conns s" using search_fd_same [OF rep_nonempty [OF t] p(1)] by simp
  moreover have "p \<noteq> NULL" using p(2) assms(5) by (simp add: found_def)
  ultimately show ?thesis
    using p(1) assms(3,4)
    by (auto simp: ProcessEventsByFd_def bind_eq_Some_conv map_option_case split: option.splits)
qed

lemma ProcessEventsByFd_safe:
  assumes "tsrv_rep s cs ms" "tcp_alloc_ok (ev_alloc e) s"
  shows "\<exists>r s' cs' ms'. ProcessEventsByFd e s = Some (r, s') \<and> tsrv_rep s' cs' ms'"
proof -
  consider "ev_fd e = serverFd s" | "ev_fd e \<noteq> serverFd s" "ev_fd e = 0" | "ev_fd e \<noteq> serverFd s" "ev_fd e \<noteq> 0"
    by blast
  then show ?thesis
  proof cases
    case 1
    then show ?thesis using AcceptNewClient_ok [OF assms, of "ev_accept e" "ev_ctl e"] by (fastforce simp: ProcessEventsByFd_def)
  next
    case 2
    obtain r s' where "BroadcastAllClient (ev_alloc e) (ev_send e) (ev_rx e) s = Some (r, s')" "tsrv_rep s' cs ms"
      using BroadcastAllClient_ok [OF assms] by blast
    then show ?thesis using 2 by (auto simp: ProcessEventsByFd_def)
  next
    case 3
    have fr: "fresh (t_mem (conns s)) (ta_head (ev_alloc e))" using assms(2) by (simp add: tcp_alloc_ok_def)
    show ?thesis
    proof (cases "List.extract (\<lambda>c. fd c = ev_fd e) cs")
      case (Some r)
      obtain as c bs where r: "r = (as, c, bs)" by (cases r)
      show ?thesis
        using ProcessEventsByFd_known [OF assms(1) fr 3 Some [unfolded r]] ClientMsgEnQueue_any [OF assms Some [unfolded r]]
        by fastforce
    next
      case None
      obtain p t' where p: "GetOneCliInfoByFd (ta_head (ev_alloc e)) (ev_fd e) (conns s) = Some (p, t')" "t_rep t' cs"
        "found t' (\<lambda>c. fd c = ev_fd e) cs p"
        using GetOneCliInfoByFd_ok [of "conns s" cs "ta_head (ev_alloc e)" "ev_fd e"] assms(1) fr by (auto simp: tsrv_rep_def)
      then show ?thesis
        using None 3 tsrv_rep_bufs [OF assms(1) p(2) bufs_same(1) [OF p(1)]]
        by (auto simp: ProcessEventsByFd_def found_def)
    qed
  qed
qed

section \<open>A round of the processing thread\<close>

lemma mq_rep_wf: "mq_rep q ms \<Longrightarrow> b \<in> set ms \<Longrightarrow> wf_MsgBuf b"
  by (auto simp: mq_rep_def lrep_def stored_def bytes_of_MsgBuf_def wf_MsgBuf_def sizeof_MsgBuf_def MAX_MSG_LEN_def)

lemma mq_rep0_Cons: "mq_rep0 q (b # ms) \<longleftrightarrow> mq_rep q (b # ms)"
  by (auto simp: mq_rep0_def)

lemma ProcessCliMsg_take:
  assumes "tsrv_rep s cs (b # ms)" "wf_MsgBuf buf"
  obtains q where "mq_rep q ms" "tsrv_rep (s\<lparr>msgq := q\<rparr>) cs ms"
    "ProcessCliMsg_round al ok wok buf s = do { (_, s') \<leftarrow> ProcessMsg (ta_head al) ok wok b (s\<lparr>msgq := q\<rparr>); Some (b, s') }"
proof -
  obtain q where q: "DeMsgLinkQueue (ta_lq al) buf (msgq s) = Some (QUEUE_SUCCESS, b, q)" "mq_rep q ms"
    using DeMsgLinkQueue_ok [of "msgq s" b ms buf "ta_lq al"] assms by (auto simp: tsrv_rep_def mq_rep0_Cons)
  then have "tsrv_rep (s\<lparr>msgq := q\<rparr>) cs ms" using assms(1) by (simp add: tsrv_rep_def mq_rep0_def)
  with q that show thesis by (simp add: ProcessCliMsg_round_def)
qed

lemma ProcessCliMsg_forward:
  assumes "tsrv_rep s cs (b # ms)" "fresh (t_mem (conns s)) (ta_head al)" "wf_MsgBuf buf" "mb_type b = PROCESS_MSG"
    "by_id (mb_src b) cs = Some c" "by_id (mb_dest b) cs = Some d" "mb_dest b \<noteq> GetServerEndId"
  shows "\<exists>s'. ProcessCliMsg_round al ok wok buf s = Some (b, s') \<and> tsrv_rep s' cs ms \<and>
    t_sent (conns s') = t_sent (conns s) @ [(fd d, b)] \<and> written s' = written s"
proof -
  obtain q where q: "mq_rep q ms" "tsrv_rep (s\<lparr>msgq := q\<rparr>) cs ms"
    "ProcessCliMsg_round al ok wok buf s = do { (_, s') \<leftarrow> ProcessMsg (ta_head al) ok wok b (s\<lparr>msgq := q\<rparr>); Some (b, s') }"
    using ProcessCliMsg_take [OF assms(1,3)] by blast
  have wf: "wf_MsgBuf b" using assms(1) mq_rep_wf [of "msgq s" "b # ms" b] by (auto simp: tsrv_rep_def mq_rep0_Cons)
  let ?s = "s\<lparr>msgq := q, conns := conns s\<lparr>t_sent := t_sent (conns s) @ [(fd d, b)]\<rparr>\<rparr>"
  have "ProcessMsg (ta_head al) ok wok b (s\<lparr>msgq := q\<rparr>) = Some (if ok (fd d) then 0 else - 1, ?s)"
    using ProcessMsg_ok [of "s\<lparr>msgq := q\<rparr>" cs "ta_head al" b ok wok] q(2) assms(2,4-7) wf
    by (simp add: tsrv_rep_def ends_known_def)
  moreover have "tsrv_rep ?s cs ms"
    using q(2) t_rep_cong [of "conns s\<lparr>t_sent := t_sent (conns s) @ [(fd d, b)]\<rparr>" "conns s"] by (simp add: tsrv_rep_def)
  ultimately show ?thesis using q(3) by simp
qed

section \<open>Properties\<close>

text \<open>The allocator's answers fit the state at every event.\<close>

fun events_env :: "tcp_event list \<Rightarrow> tcp_server \<Rightarrow> bool" where
  "events_env [] s = True"
| "events_env (e # es) s \<longleftrightarrow> tcp_alloc_ok (ev_alloc e) s \<and>
     (case ProcessEventsByFd e s of None \<Rightarrow> True | Some (_, s') \<Rightarrow> events_env es s')"

lemma process_events_safe:
  "tsrv_rep s cs ms \<Longrightarrow> events_env es s \<Longrightarrow> \<exists>s' cs' ms'. process_events es s = Some s' \<and> tsrv_rep s' cs' ms'"
proof (induction es arbitrary: s cs ms)
  case (Cons e es)
  have "tcp_alloc_ok (ev_alloc e) s" using Cons.prems(2) by simp
  then obtain r s1 cs1 ms1 where "ProcessEventsByFd e s = Some (r, s1)" "tsrv_rep s1 cs1 ms1"
    using ProcessEventsByFd_safe [OF Cons.prems(1)] by blast
  then show ?case using Cons.IH Cons.prems(2) by auto
qed auto

text \<open>A server with the two connections of \<open>two_conns\<close>, whose message queue is not set up yet.\<close>

definition demo_tsrv :: tcp_server where
  "demo_tsrv = \<lparr>serverFd = 5, epFd = 6, watched = [5, 0, 8, 9], conns = two_conns,
     msgq = \<lparr>linkQueue = None, lq_mem = \<lparr>lnodes = Map.empty, lbufs = Map.empty\<rparr>\<rparr>, written = [], tcp_threads = []\<rparr>"

definition demo_talloc :: tcp_alloc where
  "demo_talloc = \<lparr>ta_head = 10, ta_node = 11, ta_bufs = True,
     ta_lq = \<lparr>lqa_first = 20, lqa_ok = True, lqa_node = 21, lqa_data = 22\<rparr>\<rparr>"

definition demo_conns :: "CliInfoNode list" where
  "demo_conns = [\<lparr>fd = 9, cliEndid = 66, addr_in = \<lparr>ta_port = 1, ta_addr = 2\<rparr>\<rparr>,
     \<lparr>fd = 8, cliEndid = 77, addr_in = \<lparr>ta_port = 3, ta_addr = 4\<rparr>\<rparr>]"

lemma demo_tsrv_rep: "tsrv_rep demo_tsrv demo_conns []"
  using two_conns_rep by (simp add: tsrv_rep_def demo_tsrv_def demo_conns_def mq_rep0_def two_conns_def)

lemma demo_talloc_ok: "tcp_alloc_ok demo_talloc demo_tsrv"
  using two_conns_fresh
  by (simp add: tcp_alloc_ok_def demo_talloc_def demo_tsrv_def mq_ok0_def mq_ok_def)

text \<open>
  The event thread of the TCP server survives every input: whatever events \<open>epoll_wait\<close> reports, and
  whatever bytes, errors and shutdowns the connections and the terminal deliver, a round of the event loop
  ends without following a dangling or NULL pointer, and leaves a well-formed connection list and message
  queue. (Memory requests succeed.)
\<close>

theorem tcp_event_loop_safe:
  assumes "tsrv_rep s cs ms" "events_env es s"
  shows "\<exists>s' cs' ms'. ProcessEpoll_round (Some es) s = Some s' \<and> tsrv_rep s' cs' ms'"
  using process_events_safe [OF assms] by (simp add: ProcessEpoll_round_def)

theorem tcp_event_loop_safe_witness:
  "\<exists>s' cs' ms'. ProcessEpoll_round (Some [\<lparr>ev_fd = 8, ev_alloc = demo_talloc, ev_accept = None, ev_ctl = True,
      ev_rx = Some [1, 2, 3], ev_send = (\<lambda>_. False)\<rparr>]) demo_tsrv = Some s' \<and> tsrv_rep s' cs' ms'"
  by (rule tcp_event_loop_safe [OF demo_tsrv_rep])
    (simp add: demo_talloc_ok split: option.split)

text \<open>
  What the processing thread of the TCP server does with the oldest waiting message: anything but a
  \<open>PROCESS_MSG\<close> is dropped. A message whose sender never reported its id, or that names an unknown
  destination, makes the thread follow a NULL pointer. Otherwise a message for the server is written out,
  and a message for a client is sent on unchanged, on the newest connection that reported that id and on no
  other; the result tells whether the transfer was complete.
\<close>

theorem tcp_forwards_or_faults:
  assumes "tsrv_rep s cs (b # ms)" "fresh (t_mem (conns s)) (ta_head al)" "wf_MsgBuf buf"
  shows "if mb_type b \<noteq> PROCESS_MSG
    then \<exists>s'. ProcessCliMsg_round al ok wok buf s = Some (b, s') \<and> tsrv_rep s' cs ms \<and> t_sent (conns s') = t_sent (conns s) \<and>
      written s' = written s
    else case (by_id (mb_src b) cs, mb_dest b = GetServerEndId, by_id (mb_dest b) cs) of
      (Some c, True, _) \<Rightarrow> \<exists>s'. ProcessCliMsg_round al ok wok buf s = Some (b, s') \<and> tsrv_rep s' cs ms \<and>
        t_sent (conns s') = t_sent (conns s) \<and> written s' = written s @ [(0, mb_msg b)]
    | (Some c, False, Some d) \<Rightarrow> \<exists>s'. ProcessCliMsg_round al ok wok buf s = Some (b, s') \<and> tsrv_rep s' cs ms \<and>
        t_sent (conns s') = t_sent (conns s) @ [(fd d, b)] \<and> written s' = written s
    | _ \<Rightarrow> ProcessCliMsg_round al ok wok buf s = None"
proof -
  obtain q where q: "mq_rep q ms" "tsrv_rep (s\<lparr>msgq := q\<rparr>) cs ms"
    "ProcessCliMsg_round al ok wok buf s = do { (_, s') \<leftarrow> ProcessMsg (ta_head al) ok wok b (s\<lparr>msgq := q\<rparr>); Some (b, s') }"
    using ProcessCliMsg_take [OF assms(1,3)] by blast
  have wf: "wf_MsgBuf b" using assms(1) mq_rep_wf [of "msgq s" "b # ms" b] by (auto simp: tsrv_rep_def mq_rep0_Cons)
  have tr: "t_rep (conns (s\<lparr>msgq := q\<rparr>)) cs" "fresh (t_mem (conns (s\<lparr>msgq := q\<rparr>))) (ta_head al)"
    using assms(1,2) by (simp_all add: tsrv_rep_def)
  note pm = ProcessMsg_ok [OF tr wf, of ok wok]
  show ?thesis
  proof (cases "mb_type b = PROCESS_MSG")
    case False
    then show ?thesis using q by (simp add: ProcessMsg_def)
  next
    case True
    consider "\<not> ends_known b cs" | c where "by_id (mb_src b) cs = Some c" "mb_dest b = GetServerEndId"
      | c d where "by_id (mb_src b) cs = Some c" "mb_dest b \<noteq> GetServerEndId" "by_id (mb_dest b) cs = Some d"
      by (cases "by_id (mb_src b) cs"; cases "by_id (mb_dest b) cs"; cases "mb_dest b = GetServerEndId") (auto simp: ends_known_def)
    then show ?thesis
    proof cases
      case 1
      then show ?thesis using pm q(3) True by (auto simp: ends_known_def split: option.splits)
    next
      case 2
      have "tsrv_rep (s\<lparr>msgq := q, written := written s @ [(0, mb_msg b)]\<rparr>) cs ms"
        using q(2) by (simp add: tsrv_rep_def)
      then show ?thesis using 2 pm q(3) True by (auto simp: ends_known_def)
    next
      case 3
      then show ?thesis
        using ProcessCliMsg_forward [OF assms(1-3) True 3(1) 3(3) 3(2), of ok wok] True by simp
    qed
  qed
qed

text \<open>The demonstration server with one message waiting.\<close>

definition demo_wait :: "MsgBuf \<Rightarrow> tcp_server" where
  "demo_wait b = demo_tsrv\<lparr>msgq := snd (the (EnMsgLinkQueue (ta_lq demo_talloc) b (msgq demo_tsrv)))\<rparr>"

lemma demo_wait_rep: "wf_MsgBuf b \<Longrightarrow> tsrv_rep (demo_wait b) demo_conns [b]"
  using EnMsgLinkQueue_ok [of "msgq demo_tsrv" "[]" "ta_lq demo_talloc" b] demo_tsrv_rep demo_talloc_ok mq_ok0_wf
  by (auto simp: demo_wait_def tsrv_rep_def tcp_alloc_ok_def mq_rep0_def)

definition demo_buf :: "32 word \<Rightarrow> 32 word \<Rightarrow> MsgBuf" where
  "demo_buf src dest = zero_MsgBuf\<lparr>mb_src := src, mb_dest := dest\<rparr>"

lemma demo_buf_wf [simp]: "wf_MsgBuf (demo_buf a b)"
  by (simp add: demo_buf_def wf_MsgBuf_def zero_MsgBuf_def)

text \<open>A message from a client to itself comes back on its connection; one from an unknown client is fatal.\<close>

theorem tcp_forwards_or_faults_witness:
  "(\<exists>s'. ProcessCliMsg_round demo_talloc (\<lambda>_. True) True zero_MsgBuf (demo_wait (demo_buf 77 77)) = Some (demo_buf 77 77, s') \<and>
      t_sent (conns s') = [(8, demo_buf 77 77)]) \<and>
    ProcessCliMsg_round demo_talloc (\<lambda>_. True) True zero_MsgBuf (demo_wait (demo_buf 3 77)) = None"
proof -
  have fr: "fresh (t_mem (conns (demo_wait b))) (ta_head demo_talloc)" "t_sent (conns (demo_wait b)) = []" for b
    using demo_talloc_ok by (simp_all add: demo_wait_def tcp_alloc_ok_def) (simp add: demo_tsrv_def two_conns_def)
  have f: "mb_type (demo_buf a b) = PROCESS_MSG" "mb_src (demo_buf a b) = a" "mb_dest (demo_buf a b) = b" for a b
    by (simp_all add: demo_buf_def zero_MsgBuf_def PROCESS_MSG_def)
  have ids: "by_id 77 demo_conns \<noteq> None" "fd (the (by_id 77 demo_conns)) = 8" "by_id 3 demo_conns = None" "GetServerEndId \<noteq> 77"
    by (simp_all add: by_id_def demo_conns_def GetServerEndId_def)
  show ?thesis
    using tcp_forwards_or_faults [OF demo_wait_rep fr(1) zero_MsgBuf_wf, of "demo_buf 77 77" "\<lambda>_. True" True]
      tcp_forwards_or_faults [OF demo_wait_rep fr(1) zero_MsgBuf_wf, of "demo_buf 3 77" "\<lambda>_. True" True] ids
    by (auto simp: f fr(2))
qed

text \<open>
  The TCP server does not reassemble its input stream. A \<open>recv\<close> that returns only part of a message is
  treated as a message of its own: its bytes are completed with what the buffer held from the message
  received before, of whichever client, and the mixture is queued for forwarding. The buffer keeps
  the mixture, and the rest of the message, when it arrives, overwrites it from the start: its bytes are
  taken for the header of another message.
\<close>

theorem tcp_partial_receive_mixes:
  assumes "tsrv_rep s cs ms" "tcp_alloc_ok al s" "bytes \<noteq> []" "length bytes < sizeof_MsgBuf"
    "mb_type (recv_into bytes (cur_rx s)) \<noteq> SAVE_CLI_INFO"
  shows "\<exists>s' b. ClientMsgEnQueue al ok (Some bytes) k s = Some (0, s') \<and> tsrv_rep s' cs (ms @ [b]) \<and>
    (length bytes \<ge> 12 \<longrightarrow> mb_msg b = drop 12 bytes @ drop (length bytes - 12) (mb_msg (cur_rx s))) \<and>
    cur_rx s' = b \<and> (\<forall>rest. length rest \<ge> 4 \<longrightarrow> mb_type (recv_into rest b) = word_at rest 0)"
proof -
  let ?b = "recv_into bytes (cur_rx s)"
  obtain s' where "ClientMsgEnQueue al ok (Some bytes) k s = Some (0, s')" "tsrv_rep s' cs (ms @ [?b])" "cur_rx s' = ?b"
    using ClientMsgEnQueue_data [OF assms(1-3) refl assms(5)] by blast
  moreover have "mb_msg ?b = drop 12 bytes @ drop (length bytes - 12) (mb_msg (cur_rx s))" if "length bytes \<ge> 12"
    using that assms(4) by (simp add: recv_into_def MsgBuf_of_bytes_def bytes_of_MsgBuf_def)
  moreover have "mb_type (recv_into rest ?b) = word_at rest 0" if "length rest \<ge> 4" for rest
    using recv_type that .
  ultimately show ?thesis by blast
qed

text \<open>
  Client 8 sends the start of a message, 15 bytes; the text forwarded ends with what was received before.
\<close>

definition demo_tsrv_old :: tcp_server where
  "demo_tsrv_old = demo_tsrv\<lparr>conns := two_conns\<lparr>msgBufs := Some (zero_MsgBuf\<lparr>mb_msg := replicate MAX_MSG_LEN 65\<rparr>, zero_MsgBuf)\<rparr>\<rparr>"

theorem tcp_partial_receive_mixes_witness:
  "\<exists>s' b. ClientMsgEnQueue demo_talloc (\<lambda>_. True) (Some (replicate 12 0 @ [1, 2, 3])) 8 demo_tsrv_old = Some (0, s') \<and>
    tsrv_rep s' demo_conns [b] \<and> mb_msg b = [1, 2, 3] @ replicate 1021 65"
proof -
  have rep: "tsrv_rep demo_tsrv_old demo_conns []"
    using demo_tsrv_rep t_rep_cong [of "two_conns\<lparr>msgBufs := _\<rparr>" two_conns]
    by (simp add: demo_tsrv_old_def tsrv_rep_def demo_tsrv_def wf_MsgBuf_def zero_MsgBuf_def)
  have al: "tcp_alloc_ok demo_talloc demo_tsrv_old"
    using demo_talloc_ok by (simp add: demo_tsrv_old_def tcp_alloc_ok_def demo_tsrv_def)
  have rx: "cur_rx demo_tsrv_old = zero_MsgBuf\<lparr>mb_msg := replicate MAX_MSG_LEN 65\<rparr>"
    by (simp add: cur_rx_def demo_tsrv_old_def)
  have ty: "mb_type (recv_into (replicate 12 0 @ [1, 2, 3]) (cur_rx demo_tsrv_old)) \<noteq> SAVE_CLI_INFO"
    by (simp add: recv_into_def MsgBuf_of_bytes_def word_at_def numeral_eq_Suc sizeof_MsgBuf_def SAVE_CLI_INFO_def)
  have len: "length (replicate 12 0 @ [1, 2, 3 :: byte]) < sizeof_MsgBuf" by (simp add: sizeof_MsgBuf_def)
  show ?thesis
    using tcp_partial_receive_mixes [OF rep al _ len ty, of "\<lambda>_. True" 8] rx by (auto simp: MAX_MSG_LEN_def)
qed

end
