(* ===== verification/Tcp_Client.thy ===== *)
theory Tcp_Client
  imports Tcp_Server C_Strings
begin

text \<open>
  The TCP client (\<open>socket_tcp/client\<close>): its connection, the two send dialogues and the menu, the receive
  thread and the thread that shows messages. Results of system calls and what the user types are
  arguments; what is handed to \<open>send\<close> and what is shown is recorded in the state. The two message
  buffers are one block of two structures; the dialogues and the receive thread share the first.
\<close>

record tcp_client =
  clientFd :: int
  tc_endId :: "32 word"
  tc_bufs :: "(MsgBuf \<times> MsgBuf) option"
  initCliInfo :: bool
  tc_queue :: msg_queue
  tc_sent :: "(int \<times> MsgBuf) list"
  tc_shown :: "(32 word \<times> 32 word \<times> byte list) list"
  tc_threads :: "string list"

section \<open>\<open>client_socket.c\<close>\<close>

text \<open>The results of \<open>socket\<close> and \<open>connect\<close>.\<close>

definition InitClientSock :: "int \<Rightarrow> int \<Rightarrow> tcp_client \<Rightarrow> int \<times> tcp_client" where
  "InitClientSock sock con s =
     (if clientFd s \<noteq> - 1 then (- 1, s)
      else let s = s\<lparr>clientFd := sock\<rparr> in
        if sock < 0 then (- 1, s)
        else if con = - 1 then (con, s)
        else (0, s))"

text \<open>The two buffers, allocated on first use; \<open>bok\<close>: whether \<open>calloc\<close> succeeds. Every caller follows the pointer.\<close>

definition cli_GetMsgBuf :: "bool \<Rightarrow> tcp_client \<Rightarrow> (MsgBuf \<times> MsgBuf) option" where
  "cli_GetMsgBuf bok s =
     (case tc_bufs s of Some b \<Rightarrow> Some b | None \<Rightarrow> if bok then Some (zero_MsgBuf, zero_MsgBuf) else None)"

definition quit_word :: "byte list" where
  "quit_word = [33, 33, 113, 117, 105, 116]"

datatype tx_input = Read_Error | Read_Quit | Read_Line

text \<open>
  The first half of a turn of a send dialogue: clear the text of the receive buffer, read a line into it
  (\<open>None\<close> for an error) and look for the quit word. A line that fills the whole text has no terminator; the
  search goes on in the transmit buffer behind it.
\<close>

definition tx_read :: "bool \<Rightarrow> byte list option \<Rightarrow> tcp_client \<Rightarrow> (tx_input \<times> tcp_client) option" where
  "tx_read bok rx s = do {
     (rxb, txb) \<leftarrow> cli_GetMsgBuf bok s;
     let rxb = rxb\<lparr>mb_msg := replicate MAX_MSG_LEN 0\<rparr>;
     case rx of
       None \<Rightarrow> Some (Read_Error, s\<lparr>tc_bufs := Some (rxb, txb)\<rparr>)
     | Some line \<Rightarrow> do {
         let rxb = rxb\<lparr>mb_msg := take MAX_MSG_LEN line @ drop (length line) (mb_msg rxb)\<rparr>;
         let s = s\<lparr>tc_bufs := Some (rxb, txb)\<rparr>;
         str \<leftarrow> c_string (mb_msg rxb @ bytes_of_MsgBuf txb);
         Some (if casestr str quit_word then Read_Quit else Read_Line, s) } }"

text \<open>The second half: fill in the transmit buffer and send it. A failed \<open>send\<close> is only logged.\<close>

definition tx_send :: "bool \<Rightarrow> 32 word \<Rightarrow> tcp_client \<Rightarrow> tcp_client option" where
  "tx_send bok dest s = do {
     (rxb, txb) \<leftarrow> cli_GetMsgBuf bok s;
     let txb = txb\<lparr>mb_type := PROCESS_MSG, mb_src := tc_endId s, mb_dest := dest, mb_msg := mb_msg rxb\<rparr>;
     Some (s\<lparr>tc_bufs := Some (rxb, txb), tc_sent := tc_sent s @ [(clientFd s, txb)]\<rparr>) }"

text \<open>
  The loop of a dialogue over the lines that \<open>read\<close> returns; when they are used up it waits in \<open>read\<close>.
  The result says whether the loop was left with the quit word.
\<close>

fun tx_loop :: "bool \<Rightarrow> 32 word \<Rightarrow> byte list option list \<Rightarrow> tcp_client \<Rightarrow> (bool \<times> tcp_client) option" where
  "tx_loop bok dest [] s = Some (False, s)"
| "tx_loop bok dest (rx # rest) s = do {
     (r, s) \<leftarrow> tx_read bok rx s;
     case r of
       Read_Error \<Rightarrow> tx_loop bok dest rest s
     | Read_Quit \<Rightarrow> Some (True, s)
     | Read_Line \<Rightarrow> do { s \<leftarrow> tx_send bok dest s; tx_loop bok dest rest s } }"

definition TxToServer :: "bool \<Rightarrow> byte list option list \<Rightarrow> tcp_client \<Rightarrow> (bool \<times> tcp_client) option" where
  "TxToServer bok reads s = tx_loop bok SERVER_ENDID reads s"

text \<open>\<open>num\<close> is what \<open>scanf\<close> stores, if anything.\<close>

definition TxToOtherCli :: "bool \<Rightarrow> int option \<Rightarrow> byte list option list \<Rightarrow> tcp_client \<Rightarrow> (bool \<times> tcp_client) option" where
  "TxToOtherCli bok num reads s =
     (let endIdTmp = (case num of None \<Rightarrow> 0 | Some n \<Rightarrow> word_of_int n) in tx_loop bok endIdTmp reads s)"

definition RxFromServer :: "bool \<Rightarrow> lq_alloc \<Rightarrow> byte list option \<Rightarrow> tcp_client \<Rightarrow> (int \<times> tcp_client) option" where
  "RxFromServer bok al rx s = do {
     (rxb, txb) \<leftarrow> cli_GetMsgBuf bok s;
     let rxb = rxb\<lparr>mb_msg := replicate MAX_MSG_LEN 0\<rparr>;
     case rx of
       None \<Rightarrow> Some (- 1, s\<lparr>tc_bufs := Some (rxb, txb)\<rparr>)
     | Some bytes \<Rightarrow>
         if bytes = [] then Some (- 1, s\<lparr>tc_bufs := Some (rxb, txb)\<rparr>)
         else do {
           let rxb = recv_into bytes rxb;
           let s = s\<lparr>tc_bufs := Some (rxb, txb)\<rparr>;
           if mb_type rxb = SAVE_CLI_INFO then Some (0, s\<lparr>initCliInfo := True\<rparr>)
           else do {
             (r, q) \<leftarrow> EnMsgLinkQueue al rxb (tc_queue s);
             Some (if r = QUEUE_FULL then - 1 else 0, s\<lparr>tc_queue := q\<rparr>) } } }"

text \<open>\<open>ok\<close>: whether \<open>send\<close> transfers the whole structure.\<close>

definition InitCliInfoToServer :: "bool \<Rightarrow> bool \<Rightarrow> tcp_client \<Rightarrow> (int \<times> tcp_client) option" where
  "InitCliInfoToServer bok ok s = do {
     (rxb, txb) \<leftarrow> cli_GetMsgBuf bok s;
     let txb = txb\<lparr>mb_type := SAVE_CLI_INFO, mb_src := tc_endId s, mb_dest := SERVER_ENDID\<rparr>;
     Some (if ok then 0 else - 1, s\<lparr>tc_bufs := Some (rxb, txb), tc_sent := tc_sent s @ [(clientFd s, txb)]\<rparr>) }"

text \<open>The receive thread: report the id once, then receive for ever; the rounds so far are a list.\<close>

fun recv_rounds :: "(bool \<times> lq_alloc \<times> byte list option) list \<Rightarrow> tcp_client \<Rightarrow> tcp_client option" where
  "recv_rounds [] s = Some s"
| "recv_rounds ((bok, al, rx) # rest) s = do { (_, s) \<leftarrow> RxFromServer bok al rx s; recv_rounds rest s }"

definition RecvServerMsg :: "bool \<Rightarrow> bool \<Rightarrow> (bool \<times> lq_alloc \<times> byte list option) list \<Rightarrow> tcp_client \<Rightarrow> tcp_client option" where
  "RecvServerMsg bok ok rounds s = do { (_, s) \<leftarrow> InitCliInfoToServer bok ok s; recv_rounds rounds s }"

definition CreateConnectServerThread :: "int \<Rightarrow> int \<Rightarrow> tcp_client \<Rightarrow> int \<times> tcp_client" where
  "CreateConnectServerThread attr create s =
     (if attr \<noteq> 0 then (- 1, s)
      else if create \<noteq> 0 then (- 1, s)
      else (0, s\<lparr>tc_threads := tc_threads s @ [''CliRecv'']\<rparr>))"

definition DisplayMsgWithPid :: "MsgBuf \<Rightarrow> tcp_client \<Rightarrow> (int \<times> tcp_client) option" where
  "DisplayMsgWithPid msgBuf s = do {
     line \<leftarrow> buf_read (mb_msg msgBuf) 0 30;
     Some (0, s\<lparr>tc_shown := tc_shown s @ [(mb_src msgBuf, mb_dest msgBuf, line)]\<rparr>) }"

definition ProcessFromMsgQueue :: "lq_alloc \<Rightarrow> tcp_client \<Rightarrow> (int \<times> tcp_client) option" where
  "ProcessFromMsgQueue al s = do {
     (r, msgBuf, q) \<leftarrow> DeMsgLinkQueue al zero_MsgBuf (tc_queue s);
     let s = s\<lparr>tc_queue := q\<rparr>;
     if r = QUEUE_EMPTY then Some (- 1, s) else DisplayMsgWithPid msgBuf s }"

fun ProcessQueueMsg :: "lq_alloc list \<Rightarrow> tcp_client \<Rightarrow> tcp_client option" where
  "ProcessQueueMsg [] s = Some s"
| "ProcessQueueMsg (al # rest) s = do { (_, s) \<leftarrow> ProcessFromMsgQueue al s; ProcessQueueMsg rest s }"

definition CreateMsgQueueProcessThread :: "int \<Rightarrow> int \<Rightarrow> tcp_client \<Rightarrow> int \<times> tcp_client" where
  "CreateMsgQueueProcessThread attr create s =
     (if attr \<noteq> 0 then (- 1, s)
      else if create \<noteq> 0 then (- 1, s)
      else (0, s\<lparr>tc_threads := tc_threads s @ [''CliProMsg'']\<rparr>))"

section \<open>\<open>client_interface.c\<close>\<close>

datatype tcp_entry = Entry_TxToServer | Entry_TxToOtherCli

definition Handeler :: "tcp_entry list" where
  "Handeler = [Entry_TxToServer, Entry_TxToOtherCli]"

text \<open>
  The choice: \<open>sw\<close> is compared with a \<open>size_t\<close>, so it is converted to an unsigned 64-bit number first.
  \<open>Inl\<close> is the message about a wrong choice; reading the array outside its bounds is undefined.
\<close>

definition tcp_menu_choice :: "int \<Rightarrow> (unit + tcp_entry) option" where
  "tcp_menu_choice sw =
     (if (word_of_int sw :: 64 word) \<ge> of_nat (length Handeler) then Some (Inl ())
      else if 0 \<le> sw \<and> nat sw < length Handeler then Some (Inr (Handeler ! nat sw))
      else None)"

text \<open>One turn of the menu: \<open>inp\<close> is what \<open>scanf\<close> stores in \<open>sw\<close>, if anything; \<open>num\<close> and \<open>reads\<close> go to the dialogue.\<close>

definition CliInterface_round ::
  "bool \<Rightarrow> int option \<Rightarrow> int option \<Rightarrow> byte list option list \<Rightarrow> int \<Rightarrow> tcp_client \<Rightarrow> (int \<times> tcp_client) option" where
  "CliInterface_round bok inp num reads sw s = do {
     let sw = (case inp of None \<Rightarrow> sw | Some v \<Rightarrow> v);
     c \<leftarrow> tcp_menu_choice sw;
     case c of
       Inl _ \<Rightarrow> Some (sw, s)
     | Inr Entry_TxToServer \<Rightarrow> do { (_, s) \<leftarrow> TxToServer bok reads s; Some (sw, s) }
     | Inr Entry_TxToOtherCli \<Rightarrow> do { (_, s) \<leftarrow> TxToOtherCli bok num reads s; Some (sw, s) } }"

definition CreateCliInterfaceThread :: "int \<Rightarrow> int \<Rightarrow> tcp_client \<Rightarrow> int \<times> tcp_client" where
  "CreateCliInterfaceThread attr create s =
     (if attr \<noteq> 0 then (- 1, s)
      else if create \<noteq> 0 then (- 1, s)
      else (0, s\<lparr>tc_threads := tc_threads s @ [''CliUI'']\<rparr>))"

section \<open>\<open>client.c\<close>\<close>

text \<open>The client's id is its process id, read once.\<close>

definition GetClientEndId :: "32 word \<Rightarrow> 32 word option \<Rightarrow> 32 word \<times> 32 word option" where
  "GetClientEndId pid endId = (case endId of None \<Rightarrow> (pid, Some pid) | Some e \<Rightarrow> (e, Some e))"

text \<open>The start of \<open>main\<close>: every result is ignored.\<close>

definition tcp_client_main :: "int \<times> int \<Rightarrow> int \<times> int \<Rightarrow> int \<times> int \<Rightarrow> int \<times> int \<Rightarrow> tcp_client \<Rightarrow> tcp_client" where
  "tcp_client_main sk th1 th2 th3 s =
     (let s = snd (InitClientSock (fst sk) (snd sk) s);
          s = snd (CreateConnectServerThread (fst th1) (snd th1) s);
          s = snd (CreateMsgQueueProcessThread (fst th2) (snd th2) s)
      in snd (CreateCliInterfaceThread (fst th3) (snd th3) s))"

section \<open>The menu\<close>

text \<open>
  The menu of the TCP client is total: because the choice is compared as an unsigned number, every
  \<open>int\<close> leads either to one of the two dialogues or to the message about a wrong choice, and negative
  numbers are rejected like numbers that are too large.
\<close>

theorem tcp_menu_total:
  assumes "- (2 ^ 31) \<le> sw" "sw < 2 ^ 31"
  shows "tcp_menu_choice sw =
    Some (if sw = 0 then Inr Entry_TxToServer else if sw = 1 then Inr Entry_TxToOtherCli else Inl ())"
proof -
  have neg: "sw mod 2 ^ 64 = sw + 2 ^ 64" if "sw < 0"
  proof -
    have "(sw + 2 ^ 64) mod 2 ^ 64 = sw + 2 ^ 64" using that assms by (intro mod_pos_pos_trivial) simp_all
    then show ?thesis by simp
  qed
  have "sw mod 2 ^ 64 = sw" if "\<not> sw < 0"
    using that assms by (intro mod_pos_pos_trivial) simp_all
  then have u: "uint (word_of_int sw :: 64 word) = (if sw < 0 then sw + 2 ^ 64 else sw)"
    using neg by (simp add: uint_word_of_int)
  have "(word_of_int sw :: 64 word) \<ge> of_nat (length Handeler) \<longleftrightarrow> sw < 0 \<or> sw \<ge> 2"
    using assms by (auto simp: word_le_def u Handeler_def)
  moreover have "sw < 0 \<or> sw \<ge> 2 \<or> sw = 0 \<or> sw = 1" by arith
  ultimately show ?thesis by (auto simp: tcp_menu_choice_def Handeler_def)
qed

theorem tcp_menu_total_witness:
  "tcp_menu_choice (- 1) = Some (Inl ()) \<and> tcp_menu_choice 1 = Some (Inr Entry_TxToOtherCli)"
  using tcp_menu_total [of "- 1"] tcp_menu_total [of 1] by simp

section \<open>The dialogues\<close>

definition bufs_ok :: "tcp_client \<Rightarrow> bool" where
  "bufs_ok s \<longleftrightarrow> (case tc_bufs s of None \<Rightarrow> True | Some (rx, tx) \<Rightarrow> wf_MsgBuf rx \<and> wf_MsgBuf tx)"

lemma cli_bufs:
  assumes "bufs_ok s"
  obtains rx tx where "cli_GetMsgBuf True s = Some (rx, tx)" "wf_MsgBuf rx" "wf_MsgBuf tx"
  using assms by (cases "tc_bufs s") (auto simp: bufs_ok_def cli_GetMsgBuf_def)

definition tcp_text :: "byte list \<Rightarrow> byte list" where
  "tcp_text line = line @ replicate (MAX_MSG_LEN - length line) 0"

text \<open>A line with room for a terminator, and whether it holds the quit word.\<close>

definition short_line :: "byte list \<Rightarrow> bool" where
  "short_line line \<longleftrightarrow> length line < MAX_MSG_LEN"

definition quits :: "byte list \<Rightarrow> bool" where
  "quits line \<longleftrightarrow> casestr (takeWhile (\<lambda>c. c \<noteq> 0) line) quit_word"

definition tcp_msg :: "32 word \<Rightarrow> 32 word \<Rightarrow> byte list \<Rightarrow> MsgBuf" where
  "tcp_msg src dest text = \<lparr>mb_type = PROCESS_MSG, mb_src = src, mb_dest = dest, mb_msg = text\<rparr>"

lemma length_tcp_text [simp]: "short_line line \<Longrightarrow> length (tcp_text line) = MAX_MSG_LEN"
  by (simp add: tcp_text_def short_line_def)

lemma tcp_msg_wf: "short_line line \<Longrightarrow> wf_MsgBuf (tcp_msg a d (tcp_text line))"
  by (simp add: wf_MsgBuf_def tcp_msg_def)

lemma takeWhile_zeros: "n > 0 \<Longrightarrow> takeWhile (\<lambda>c. c \<noteq> 0) (xs @ replicate n (0 :: byte) @ ys) = takeWhile (\<lambda>c. c \<noteq> 0) xs"
  by (induction xs) (cases n; simp)+

lemma c_string_text:
  assumes "short_line line"
  shows "c_string (tcp_text line @ ys) = Some (takeWhile (\<lambda>c. c \<noteq> 0) line)"
  using assms takeWhile_zeros [of "MAX_MSG_LEN - length line" line ys]
  by (simp add: c_string_def tcp_text_def short_line_def)

lemma tx_read_line:
  assumes "bufs_ok s" "short_line line"
  shows "\<exists>s' rx tx. tx_read True (Some line) s = Some (if quits line then Read_Quit else Read_Line, s') \<and>
    s' = s\<lparr>tc_bufs := Some (rx, tx)\<rparr> \<and> wf_MsgBuf rx \<and> wf_MsgBuf tx \<and> mb_msg rx = tcp_text line"
proof -
  obtain rx tx where b: "cli_GetMsgBuf True s = Some (rx, tx)" "wf_MsgBuf rx" "wf_MsgBuf tx"
    using cli_bufs [OF assms(1)] .
  have t: "take MAX_MSG_LEN line @ drop (length line) (replicate MAX_MSG_LEN 0) = tcp_text line"
    using assms(2) by (simp add: tcp_text_def short_line_def)
  have "tx_read True (Some line) s =
      Some (if quits line then Read_Quit else Read_Line, s\<lparr>tc_bufs := Some (rx\<lparr>mb_msg := tcp_text line\<rparr>, tx)\<rparr>)"
    using b(1) by (simp add: tx_read_def t c_string_text [OF assms(2)] quits_def Let_def del: drop_replicate take_append append_assoc)
  then show ?thesis using b(3) assms(2)
    by (intro exI [of _ "s\<lparr>tc_bufs := Some (rx\<lparr>mb_msg := tcp_text line\<rparr>, tx)\<rparr>"] exI [of _ "rx\<lparr>mb_msg := tcp_text line\<rparr>"] exI [of _ tx])
      (simp add: wf_MsgBuf_def)
qed

lemma tx_send_ok:
  assumes "tc_bufs s = Some (rx, tx)"
  shows "tx_send bok dest s = Some (s\<lparr>tc_bufs := Some (rx, tcp_msg (tc_endId s) dest (mb_msg rx)),
    tc_sent := tc_sent s @ [(clientFd s, tcp_msg (tc_endId s) dest (mb_msg rx))]\<rparr>)"
  using assms by (cases tx) (simp add: tx_send_def cli_GetMsgBuf_def tcp_msg_def Let_def)

lemma tx_loop_lines:
  assumes "bufs_ok s" "\<forall>l \<in> set lines. short_line l \<and> \<not> quits l"
  shows "\<exists>s'. tx_loop True dest (map Some lines @ rest) s = tx_loop True dest rest s' \<and> bufs_ok s' \<and>
    tc_sent s' = tc_sent s @ map (\<lambda>l. (clientFd s, tcp_msg (tc_endId s) dest (tcp_text l))) lines \<and>
    clientFd s' = clientFd s \<and> tc_endId s' = tc_endId s \<and> initCliInfo s' = initCliInfo s \<and> tc_queue s' = tc_queue s \<and>
    tc_shown s' = tc_shown s"
  using assms
proof (induction lines arbitrary: s)
  case Nil
  then show ?case by auto
next
  case (Cons l lines)
  have l: "short_line l" "\<not> quits l" using Cons.prems(2) by auto
  obtain rx tx where r: "tx_read True (Some l) s = Some (Read_Line, s\<lparr>tc_bufs := Some (rx, tx)\<rparr>)" "wf_MsgBuf rx"
    "mb_msg rx = tcp_text l"
    using tx_read_line [OF Cons.prems(1) l(1)] l(2) by auto
  let ?b = "tcp_msg (tc_endId s) dest (tcp_text l)"
  let ?s = "s\<lparr>tc_bufs := Some (rx, ?b), tc_sent := tc_sent s @ [(clientFd s, ?b)]\<rparr>"
  have "tx_loop True dest (map Some (l # lines) @ rest) s = tx_loop True dest (map Some lines @ rest) ?s"
    using r(1,3) tx_send_ok [of "s\<lparr>tc_bufs := Some (rx, tx)\<rparr>" rx tx True dest] by simp
  moreover have "bufs_ok ?s" using r(2) l(1) by (simp add: bufs_ok_def tcp_msg_wf)
  ultimately show ?case using Cons.IH [of ?s] Cons.prems(2) by auto
qed

text \<open>
  The send dialogue of the TCP client: each line typed before the quit word goes out as one
  \<open>PROCESS_MSG\<close> from the client to the number entered, padded with zeros and in the order typed; the
  line with the quit word ends the dialogue and is not sent, nor is anything typed after it.
\<close>

theorem tcp_dialogue_sends_lines:
  assumes "bufs_ok s" "\<forall>l \<in> set lines. short_line l \<and> \<not> quits l" "short_line q" "quits q"
  shows "\<exists>s'. TxToOtherCli True (Some n) (map Some lines @ Some q # later) s = Some (True, s') \<and> bufs_ok s' \<and>
    tc_sent s' = tc_sent s @ map (\<lambda>l. (clientFd s, tcp_msg (tc_endId s) (word_of_int n) (tcp_text l))) lines"
proof -
  obtain s1 where s1: "tx_loop True (word_of_int n) (map Some lines @ Some q # later) s = tx_loop True (word_of_int n) (Some q # later) s1"
    "bufs_ok s1" "tc_sent s1 = tc_sent s @ map (\<lambda>l. (clientFd s, tcp_msg (tc_endId s) (word_of_int n) (tcp_text l))) lines"
    using tx_loop_lines [OF assms(1,2), of "word_of_int n" "Some q # later"] by blast
  obtain rx tx where "tx_read True (Some q) s1 = Some (Read_Quit, s1\<lparr>tc_bufs := Some (rx, tx)\<rparr>)" "wf_MsgBuf rx" "wf_MsgBuf tx"
    using tx_read_line [OF s1(2) assms(3)] assms(4) by auto
  with s1 show ?thesis by (simp add: TxToOtherCli_def bufs_ok_def)
qed

definition demo_tcli :: "32 word \<Rightarrow> tcp_client" where
  "demo_tcli e = \<lparr>clientFd = 3, tc_endId = e, tc_bufs = None, initCliInfo = False,
     tc_queue = \<lparr>linkQueue = None, lq_mem = \<lparr>lnodes = Map.empty, lbufs = Map.empty\<rparr>\<rparr>, tc_sent = [], tc_shown = [], tc_threads = []\<rparr>"

lemma demo_tcli_ok [simp]: "bufs_ok (demo_tcli e)"
  by (simp add: bufs_ok_def demo_tcli_def)

lemma demo_lines: "short_line [104, 105]" "\<not> quits [104, 105]" "short_line [33, 33, 81, 117, 105, 116, 10]"
  "quits [33, 33, 81, 117, 105, 116, 10]"
  by (simp_all add: short_line_def MAX_MSG_LEN_def quits_def quit_word_def to_lower_def)

theorem tcp_dialogue_sends_lines_witness:
  "\<exists>s'. TxToOtherCli True (Some 7) [Some [104, 105], Some [33, 33, 81, 117, 105, 116, 10], Some [104]] (demo_tcli 9) = Some (True, s') \<and>
    tc_sent s' = [(3, tcp_msg 9 7 (tcp_text [104, 105]))]"
proof -
  have "clientFd (demo_tcli 9) = 3" "tc_endId (demo_tcli 9) = 9" "tc_sent (demo_tcli 9) = []" by (simp_all add: demo_tcli_def)
  then show ?thesis
    using tcp_dialogue_sends_lines [of "demo_tcli 9" "[[104, 105]]" "[33, 33, 81, 117, 105, 116, 10]" 7 "[Some [104]]"] demo_lines
    by auto
qed

section \<open>Receiving\<close>

lemma RxFromServer_data:
  assumes "bufs_ok s" "mq_rep0 (tc_queue s) ms" "mq_ok0 al zero_MsgBuf (tc_queue s)" "wf_MsgBuf b" "mb_type b \<noteq> SAVE_CLI_INFO"
  shows "\<exists>s'. RxFromServer True al (Some (bytes_of_MsgBuf b)) s = Some (0, s') \<and> bufs_ok s' \<and> mq_rep (tc_queue s') (ms @ [b]) \<and>
    (\<exists>tx. tc_bufs s' = Some (b, tx)) \<and> clientFd s' = clientFd s \<and> tc_endId s' = tc_endId s \<and> tc_sent s' = tc_sent s \<and>
    tc_shown s' = tc_shown s"
proof -
  obtain rx tx where b: "cli_GetMsgBuf True s = Some (rx, tx)" "wf_MsgBuf rx" "wf_MsgBuf tx"
    using cli_bufs [OF assms(1)] .
  have r: "recv_into (bytes_of_MsgBuf b) (rx\<lparr>mb_msg := replicate MAX_MSG_LEN 0\<rparr>) = b" "bytes_of_MsgBuf b \<noteq> []"
    using recv_message [OF assms(4), of "rx\<lparr>mb_msg := replicate MAX_MSG_LEN 0\<rparr>"] by (simp_all add: wf_MsgBuf_def)
  obtain q where q: "EnMsgLinkQueue al b (tc_queue s) = Some (QUEUE_SUCCESS, q)" "mq_rep q (ms @ [b])"
    using EnMsgLinkQueue_ok [OF assms(2) mq_ok0_wf [OF assms(3,4)]] by blast
  have "RxFromServer True al (Some (bytes_of_MsgBuf b)) s = Some (0, s\<lparr>tc_bufs := Some (b, tx), tc_queue := q\<rparr>)"
    using b(1) r assms(5) q(1) by (simp add: RxFromServer_def)
  then show ?thesis using q(2) b(3) assms(4) by (simp add: bufs_ok_def)
qed

lemma ProcessFromMsgQueue_ok:
  assumes "mq_rep (tc_queue s) (b # ms)"
  shows "\<exists>s'. ProcessFromMsgQueue al s = Some (0, s') \<and> mq_rep (tc_queue s') ms \<and> tc_bufs s' = tc_bufs s \<and>
    tc_shown s' = tc_shown s @ [(mb_src b, mb_dest b, take 30 (mb_msg b))]"
proof -
  obtain q where q: "DeMsgLinkQueue al zero_MsgBuf (tc_queue s) = Some (QUEUE_SUCCESS, b, q)" "mq_rep q ms"
    using DeMsgLinkQueue_ok [OF assms zero_MsgBuf_wf] by blast
  have "buf_read (mb_msg b) 0 30 = Some (take 30 (mb_msg b))"
    using mq_rep_wf [OF assms, of b] by (simp add: buf_read_def wf_MsgBuf_def MAX_MSG_LEN_def)
  with q show ?thesis by (simp add: ProcessFromMsgQueue_def DisplayMsgWithPid_def)
qed

text \<open>
  The dialogue and the receive thread of the TCP client share one buffer without a lock. When a
  message from the server arrives after a line was read and before it is copied, the client sends the text
  of that message in place of the line, under its own id and to the destination the user chose.
\<close>

theorem tcp_shared_buffer_race:
  assumes "bufs_ok s" "short_line line" "\<not> quits line" "mq_rep0 (tc_queue s) ms" "mq_ok0 al zero_MsgBuf (tc_queue s)"
    "wf_MsgBuf b" "mb_type b \<noteq> SAVE_CLI_INFO"
  shows "\<exists>s1 s2 s3. tx_read True (Some line) s = Some (Read_Line, s1) \<and>
    RxFromServer True al (Some (bytes_of_MsgBuf b)) s1 = Some (0, s2) \<and> tx_send True dest s2 = Some s3 \<and>
    tc_sent s3 = tc_sent s @ [(clientFd s, tcp_msg (tc_endId s) dest (mb_msg b))]"
proof -
  obtain rx tx where r: "tx_read True (Some line) s = Some (Read_Line, s\<lparr>tc_bufs := Some (rx, tx)\<rparr>)" "wf_MsgBuf rx" "wf_MsgBuf tx"
    using tx_read_line [OF assms(1,2)] assms(3) by auto
  let ?s1 = "s\<lparr>tc_bufs := Some (rx, tx)\<rparr>"
  have "bufs_ok ?s1" "mq_rep0 (tc_queue ?s1) ms" "mq_ok0 al zero_MsgBuf (tc_queue ?s1)"
    using r(2,3) assms(4,5) by (simp_all add: bufs_ok_def)
  then obtain s2 tx2 where s2: "RxFromServer True al (Some (bytes_of_MsgBuf b)) ?s1 = Some (0, s2)" "tc_bufs s2 = Some (b, tx2)"
    "clientFd s2 = clientFd ?s1" "tc_endId s2 = tc_endId ?s1" "tc_sent s2 = tc_sent ?s1"
    using RxFromServer_data [OF _ _ _ assms(6,7)] by blast
  show ?thesis using r(1) s2(1) tx_send_ok [OF s2(2), of True dest] s2(3-5) by auto
qed

lemma demo_tcli_queue: "mq_rep0 (tc_queue (demo_tcli e)) []" "mq_ok0 (ta_lq demo_talloc) zero_MsgBuf (tc_queue (demo_tcli e))"
  by (simp_all add: demo_tcli_def mq_rep0_def mq_ok0_def mq_ok_def demo_talloc_def)

theorem tcp_shared_buffer_race_witness:
  "\<exists>s1 s2 s3. tx_read True (Some [104, 105]) (demo_tcli 9) = Some (Read_Line, s1) \<and>
    RxFromServer True (ta_lq demo_talloc) (Some (bytes_of_MsgBuf (demo_buf 5 9))) s1 = Some (0, s2) \<and>
    tx_send True 7 s2 = Some s3 \<and> tc_sent s3 = [(3, demo_buf 9 7)]"
proof -
  have c: "clientFd (demo_tcli 9) = 3" "tc_endId (demo_tcli 9) = 9" "tc_sent (demo_tcli 9) = []"
    "mb_type (demo_buf 5 9) \<noteq> SAVE_CLI_INFO" "tcp_msg 9 7 (mb_msg (demo_buf 5 9)) = demo_buf 9 7"
    by (simp_all add: demo_tcli_def demo_buf_def zero_MsgBuf_def SAVE_CLI_INFO_def tcp_msg_def PROCESS_MSG_def)
  show ?thesis
    using tcp_shared_buffer_race [OF demo_tcli_ok demo_lines(1,2) demo_tcli_queue demo_buf_wf c(4), of 9 7]
    by (simp add: c)
qed

end
