(* ===== verification/Sock_Msg.thy ===== *)
theory Sock_Msg
  imports Lc_Msg
begin

text \<open>
  The message package of the \<open>socket\<close> program (\<open>common/sock_msg\<close>): a union of a structure of 524 bytes
  with an array of 525, padded to 528 bytes; modelled by its bytes, like the message of \<open>socket_udp\<close>.
  It has no checksum. With it come the socket types and handles of server and client.
\<close>

type_synonym lc_msg_package_t = "byte list"

definition sizeof_package :: nat where
  "sizeof_package = 528"

definition MSG_DATA_LEN :: nat where
  "MSG_DATA_LEN = 512"

definition wf_package :: "lc_msg_package_t \<Rightarrow> bool" where
  "wf_package b \<longleftrightarrow> length b = sizeof_package"

text \<open>\<open>lc_msg_package_t msgbuf = { 0 };\<close>\<close>

definition zero_package :: lc_msg_package_t where
  "zero_package = replicate sizeof_package 0"

text \<open>The values of \<open>enum lc_msg_type_t\<close>.\<close>

definition SAVE_CLI_INFO_lc :: "32 word" where
  "SAVE_CLI_INFO_lc = 0"

definition TCP_DATA :: "32 word" where
  "TCP_DATA = 1"

definition UDP_DATA :: "32 word" where
  "UDP_DATA = 2"

definition SRV_BROADCAST :: "32 word" where
  "SRV_BROADCAST = 3"

definition g_server_endid :: "32 word" where
  "g_server_endid = 0"

definition pk_type :: "lc_msg_package_t \<Rightarrow> 32 word" where
  "pk_type b = word_at b 0"

definition pk_srcid :: "lc_msg_package_t \<Rightarrow> 32 word" where
  "pk_srcid b = word_at b 4"

definition pk_destid :: "lc_msg_package_t \<Rightarrow> 32 word" where
  "pk_destid b = word_at b 8"

definition pk_data :: "lc_msg_package_t \<Rightarrow> byte list" where
  "pk_data b = take MSG_DATA_LEN (drop 12 b)"

definition set_pk_type :: "32 word \<Rightarrow> lc_msg_package_t \<Rightarrow> lc_msg_package_t" where
  "set_pk_type w = put_at 0 (bytes_of_word w)"

definition set_pk_srcid :: "32 word \<Rightarrow> lc_msg_package_t \<Rightarrow> lc_msg_package_t" where
  "set_pk_srcid w = put_at 4 (bytes_of_word w)"

definition set_pk_destid :: "32 word \<Rightarrow> lc_msg_package_t \<Rightarrow> lc_msg_package_t" where
  "set_pk_destid w = put_at 8 (bytes_of_word w)"

text \<open>\<open>read\<close> into \<open>msg.data\<close> of some bytes, at most \<open>MSG_DATA_LEN\<close>; the bytes behind them stay.\<close>

definition read_data :: "byte list \<Rightarrow> lc_msg_package_t \<Rightarrow> lc_msg_package_t" where
  "read_data bytes = put_at 12 (take MSG_DATA_LEN bytes)"

text \<open>\<open>recv\<close> into a package that is all zero.\<close>

definition recv_package :: "byte list \<Rightarrow> lc_msg_package_t" where
  "recv_package bytes = take sizeof_package bytes @ drop (length bytes) zero_package"

text \<open>What \<open>dispaly_msg_package\<close> prints: both ids and the first fifty bytes of the text.\<close>

definition dispaly_msg_package :: "lc_msg_package_t \<Rightarrow> msg_out" where
  "dispaly_msg_package b = \<lparr>out_src = pk_srcid b, out_dest = pk_destid b, out_data = map (\<lambda>i. b ! (12 + i)) [0..<50]\<rparr>"

section \<open>Sockets\<close>

datatype socket_type_t = UNSET | TCP_LINK | UDP_LINK

record sock_addr =
  sk_port :: "16 word"
  sk_ip :: "32 word"

text \<open>The two members of the union are kept apart; the code reads only the one that the type says.\<close>

record socket_handle_t =
  socket_type :: socket_type_t
  sh_fd :: int
  sh_addr :: sock_addr

definition zero_handle :: socket_handle_t where
  "zero_handle = \<lparr>socket_type = UNSET, sh_fd = 0, sh_addr = \<lparr>sk_port = 0, sk_ip = 0\<rparr>\<rparr>"

definition CHECK_FD :: "int \<Rightarrow> bool" where
  "CHECK_FD k \<longleftrightarrow> k > 2"

text \<open>What goes out: on a connection, or from the UDP socket to an address.\<close>

datatype sock_out = Out_tcp int lc_msg_package_t | Out_udp int sock_addr lc_msg_package_t

section \<open>Fields\<close>

lemmas package_defs = pk_type_def pk_srcid_def pk_destid_def pk_data_def set_pk_type_def set_pk_srcid_def set_pk_destid_def
  read_data_def wf_package_def sizeof_package_def MSG_DATA_LEN_def

lemma zero_package_wf [simp]: "wf_package zero_package"
  by (simp add: wf_package_def zero_package_def)

lemma set_pk_wf [simp]:
  "wf_package b \<Longrightarrow> wf_package (set_pk_type w b)" "wf_package b \<Longrightarrow> wf_package (set_pk_srcid w b)"
  "wf_package b \<Longrightarrow> wf_package (set_pk_destid w b)" "wf_package b \<Longrightarrow> wf_package (read_data d b)"
  by (simp_all add: package_defs length_put_at)

lemma recv_package_wf [simp]: "wf_package (recv_package bytes)"
  by (simp add: wf_package_def recv_package_def zero_package_def)

lemma recv_package_whole: "wf_package b \<Longrightarrow> recv_package b = b"
  by (simp add: wf_package_def recv_package_def zero_package_def)

lemma wf_package_nonempty: "wf_package b \<Longrightarrow> b \<noteq> []"
  by (auto simp: package_defs)

lemma get_set_pk [simp]:
  assumes "wf_package b"
  shows "pk_type (set_pk_type w b) = w" "pk_type (set_pk_srcid w b) = pk_type b" "pk_type (set_pk_destid w b) = pk_type b"
    "pk_srcid (set_pk_srcid w b) = w" "pk_srcid (set_pk_type w b) = pk_srcid b" "pk_srcid (set_pk_destid w b) = pk_srcid b"
    "pk_destid (set_pk_destid w b) = w" "pk_destid (set_pk_type w b) = pk_destid b" "pk_destid (set_pk_srcid w b) = pk_destid b"
    "pk_type (read_data d b) = pk_type b" "pk_srcid (read_data d b) = pk_srcid b" "pk_destid (read_data d b) = pk_destid b"
  using assms by (simp_all add: package_defs word_at_put_same word_at_put_other)

lemma pk_data_set [simp]:
  assumes "wf_package b"
  shows "pk_data (set_pk_type w b) = pk_data b" "pk_data (set_pk_srcid w b) = pk_data b" "pk_data (set_pk_destid w b) = pk_data b"
    "pk_data (read_data d b) = take MSG_DATA_LEN d @ drop (length d) (pk_data b)"
proof -
  have l: "length b = 528" using assms by (simp add: package_defs)
  then show "pk_data (set_pk_type w b) = pk_data b" "pk_data (set_pk_srcid w b) = pk_data b" "pk_data (set_pk_destid w b) = pk_data b"
    by (simp_all add: package_defs slice_put_at)
  show "pk_data (read_data d b) = take MSG_DATA_LEN d @ drop (length d) (pk_data b)"
    using l by (cases "length d \<le> 512") (simp_all add: package_defs put_at_def drop_take add.commute min_def)
qed

lemma length_pk_data [simp]: "wf_package b \<Longrightarrow> length (pk_data b) = MSG_DATA_LEN"
  by (simp add: package_defs)

lemma displayed_package:
  "wf_package b \<Longrightarrow> dispaly_msg_package b = \<lparr>out_src = pk_srcid b, out_dest = pk_destid b, out_data = take 50 (pk_data b)\<rparr>"
  by (auto simp: dispaly_msg_package_def package_defs intro!: nth_equalityI)

lemma zero_package_fields: "pk_data zero_package = replicate MSG_DATA_LEN 0"
  by (simp add: package_defs zero_package_def)

end
