(* ===== verification/C_Decimal.thy ===== *)
theory C_Decimal
  imports Prelude "HOL-Library.Char_ord"
begin

text \<open>
  Decimal numbers as C prints and reads them: \<open>%d\<close> and \<open>%u\<close> of \<open>sprintf\<close> and \<open>atoi\<close>, which has no
  defined result for a number that does not fit an \<open>int\<close>; and \<open>sprintf\<close> into a buffer of 256 bytes.
\<close>

definition digit :: "nat \<Rightarrow> char" where
  "digit n = char_of (48 + n)"

definition is_digit :: "char \<Rightarrow> bool" where
  "is_digit c \<longleftrightarrow> 48 \<le> (of_char c :: nat) \<and> (of_char c :: nat) \<le> 57"

definition digit_val :: "char \<Rightarrow> nat" where
  "digit_val c = of_char c - 48"

fun dec_nat :: "nat \<Rightarrow> string" where
  "dec_nat n = (if n < 10 then [digit n] else dec_nat (n div 10) @ [digit (n mod 10)])"

declare dec_nat.simps [simp del]

definition dec_int :: "int \<Rightarrow> string" where
  "dec_int i = (if i < 0 then ''-'' @ dec_nat (nat (- i)) else dec_nat (nat i))"

text \<open>The value of the digits at the front of a text.\<close>

definition digits_val :: "string \<Rightarrow> nat" where
  "digits_val s = foldl (\<lambda>v c. 10 * v + digit_val c) 0 (takeWhile is_digit s)"

definition is_space :: "char \<Rightarrow> bool" where
  "is_space c \<longleftrightarrow> (of_char c :: nat) = 32 \<or> 9 \<le> (of_char c :: nat) \<and> (of_char c :: nat) \<le> 13"

definition signed_val :: "string \<Rightarrow> int" where
  "signed_val s =
     (case dropWhile is_space s of
        [] \<Rightarrow> 0
      | c # cs \<Rightarrow> if c = CHR ''-'' then - int (digits_val cs)
          else if c = CHR ''+'' then int (digits_val cs)
          else int (digits_val (c # cs)))"

definition atoi :: "string \<Rightarrow> int option" where
  "atoi s = (let v = signed_val s in if - (2 ^ 31) \<le> v \<and> v < 2 ^ 31 then Some v else None)"

text \<open>\<open>sprintf(buf, ...)\<close> with \<open>char buf[256]\<close>.\<close>

definition sprintf256 :: "string \<Rightarrow> string option" where
  "sprintf256 txt = (if length txt < 256 then Some txt else None)"

section \<open>Printing and reading\<close>

lemma digit_props:
  assumes "n < 10"
  shows "is_digit (digit n)" "digit_val (digit n) = n" "digit n \<noteq> CHR ''-''" "digit n \<noteq> CHR ''+''" "\<not> is_space (digit n)"
proof -
  have c: "(of_char (digit n) :: nat) = 48 + n" using assms by (simp add: digit_def)
  then show "is_digit (digit n)" "digit_val (digit n) = n" "\<not> is_space (digit n)"
    using assms by (simp_all add: is_digit_def digit_val_def is_space_def)
  show "digit n \<noteq> CHR ''-''" "digit n \<noteq> CHR ''+''" using c by auto
qed

lemma dec_nat_digits: "c \<in> set (dec_nat n) \<Longrightarrow> is_digit c"
proof (induction n rule: dec_nat.induct)
  case (1 n)
  then show ?case by (cases "n < 10") (auto simp: dec_nat.simps [of n] digit_props)
qed

lemma dec_nat_nonempty: "dec_nat n \<noteq> []"
  by (simp add: dec_nat.simps [of n])

lemma digits_val_snoc: "(\<forall>c \<in> set s. is_digit c) \<Longrightarrow> is_digit d \<Longrightarrow> digits_val (s @ [d]) = 10 * digits_val s + digit_val d"
proof -
  assume "\<forall>c \<in> set s. is_digit c" "is_digit d"
  then have "takeWhile is_digit s = s" "takeWhile is_digit (s @ [d]) = s @ [d]"
    by (simp_all add: takeWhile_eq_all_conv)
  then show ?thesis by (simp only: digits_val_def foldl_append foldl.simps)
qed

lemma digits_val_dec_nat [simp]: "digits_val (dec_nat n) = n"
proof (induction n rule: dec_nat.induct)
  case (1 n)
  show ?case
  proof (cases "n < 10")
    case True
    then show ?thesis by (simp add: dec_nat.simps [of n] digits_val_def digit_props)
  next
    case False
    have "digits_val (dec_nat (n div 10) @ [digit (n mod 10)]) = 10 * (n div 10) + n mod 10"
      using 1 [OF False] digits_val_snoc [of "dec_nat (n div 10)" "digit (n mod 10)"] dec_nat_digits digit_props [of "n mod 10"]
      by simp
    then show ?thesis using False by (simp add: dec_nat.simps [of n])
  qed
qed

lemma dec_nat_head: "\<exists>c cs. dec_nat n = c # cs \<and> is_digit c \<and> c \<noteq> CHR ''-'' \<and> c \<noteq> CHR ''+'' \<and> \<not> is_space c"
proof -
  obtain c cs where c: "dec_nat n = c # cs" using dec_nat_nonempty [of n] by (cases "dec_nat n") auto
  then have "is_digit c" using dec_nat_digits [of c n] by simp
  then have "c \<noteq> CHR ''-''" "c \<noteq> CHR ''+''" "\<not> is_space c" by (auto simp: is_digit_def is_space_def)
  with c \<open>is_digit c\<close> show ?thesis by blast
qed

lemma signed_val_dec [simp]: "signed_val (dec_int i) = i"
proof -
  obtain c cs where c: "dec_nat (nat i) = c # cs" "is_digit c" "c \<noteq> CHR ''-''" "c \<noteq> CHR ''+''" "\<not> is_space c"
    using dec_nat_head by blast
  have "digits_val (c # cs) = nat i" using digits_val_dec_nat [of "nat i"] c(1) by simp
  then show ?thesis using c by (auto simp: signed_val_def dec_int_def is_space_def)
qed

lemma dec_nat_int: "dec_nat n = dec_int (int n)"
  by (simp add: dec_int_def)

lemma atoi_dec: "- (2 ^ 31) \<le> i \<Longrightarrow> i < 2 ^ 31 \<Longrightarrow> atoi (dec_int i) = Some i"
  by (simp add: atoi_def)

lemma atoi_dec_nat: "atoi (dec_nat n) = (if n < 2 ^ 31 then Some (int n) else None)"
  by (auto simp: atoi_def dec_nat_int)

text \<open>The number of characters.\<close>

lemma length_dec_nat: "n < 10 ^ k \<Longrightarrow> k > 0 \<Longrightarrow> length (dec_nat n) \<le> k"
proof (induction k arbitrary: n)
  case (Suc k)
  show ?case
  proof (cases "n < 10")
    case True
    then show ?thesis by (simp add: dec_nat.simps [of n])
  next
    case False
    then have "k > 0" using Suc.prems(1) by (cases k) auto
    moreover have "n div 10 < 10 ^ k" using Suc.prems(1) by (simp add: less_mult_imp_div_less)
    ultimately have "length (dec_nat (n div 10)) \<le> k" using Suc.IH by blast
    then show ?thesis using False by (simp add: dec_nat.simps [of n])
  qed
qed auto

lemma length_dec_int:
  assumes "\<bar>i\<bar> < 10 ^ 10"
  shows "length (dec_int i) \<le> 11"
proof -
  have "nat \<bar>i\<bar> < 10 ^ 10" using assms by simp
  then have "length (dec_nat (nat \<bar>i\<bar>)) \<le> 10" using length_dec_nat [of "nat \<bar>i\<bar>" 10] by simp
  then show ?thesis by (cases "i < 0") (simp_all add: dec_int_def)
qed

end
