(* ===== verification/Sock_Db.thy ===== *)
theory Sock_Db
  imports Sock_Msg C_Decimal
begin

text \<open>
  The server's table of clients (\<open>socket/server/cli_sqlite3\<close>). The code builds the text of SQL statements
  and gives it to SQLite, which is not part of the repository: the engine is a parameter \<open>ex\<close> that maps a
  database and a statement to a result code, the rows selected (texts, \<open>None\<close> for NULL) and the database after
  it. What the theorems rely on is SQLite's documented behaviour on the statements the code sends,
  \<open>sqlite_laws\<close>. Each function holds the mutex of the table while it works and is one step.
\<close>

type_synonym sql_row = "string option list"
type_synonym 'db sqlite = "'db \<Rightarrow> string \<Rightarrow> int \<times> sql_row list \<times> 'db"

definition SQLITE_OK :: int where
  "SQLITE_OK = 0"

definition SQLITE_ERROR :: int where
  "SQLITE_ERROR = 1"

definition SQLITE_ABORT :: int where
  "SQLITE_ABORT = 4"

definition SQLITE_CONSTRAINT :: int where
  "SQLITE_CONSTRAINT = 19"

definition SQLITE_MISUSE :: int where
  "SQLITE_MISUSE = 21"

text \<open>
  \<open>sqlite3_exec\<close>: run the statement and call the callback for each row, until it returns something other
  than 0. A NULL handle is refused, a closed one is undefined.
\<close>

fun run_rows :: "('a \<Rightarrow> sql_row \<Rightarrow> (int \<times> 'a) option) \<Rightarrow> sql_row list \<Rightarrow> 'a \<Rightarrow> (int \<times> 'a) option" where
  "run_rows cb [] a = Some (SQLITE_OK, a)"
| "run_rows cb (r # rs) a = do {
     (i, a) \<leftarrow> cb a r;
     if i \<noteq> 0 then Some (SQLITE_ABORT, a) else run_rows cb rs a }"

definition sqlite3_exec ::
  "'db sqlite \<Rightarrow> 'db gptr \<Rightarrow> string \<Rightarrow> ('a \<Rightarrow> sql_row \<Rightarrow> (int \<times> 'a) option) \<Rightarrow> 'a \<Rightarrow> (int \<times> 'a \<times> 'db gptr) option" where
  "sqlite3_exec ex sql cmd cb a =
     (case sql of
        Null \<Rightarrow> Some (SQLITE_MISUSE, a, Null)
      | Freed \<Rightarrow> None
      | Ptr db \<Rightarrow>
          let (ret, rows, db) = ex db cmd in
          if ret \<noteq> SQLITE_OK then Some (ret, a, Ptr db)
          else do { (ret, a) \<leftarrow> run_rows cb rows a; Some (ret, a, Ptr db) })"

definition no_callback :: "unit \<Rightarrow> sql_row \<Rightarrow> (int \<times> unit) option" where
  "no_callback a r = Some (0, ())"

section \<open>Statements\<close>

definition sql_create :: string where
  "sql_create = ''CREATE TABLE IF NOT EXISTS CliInfo'' @ ''(endid int PRIMARY KEY NOT NULL, '' @ ''fd int, ipaddr uint32_t, port uint16_t);''"

definition sql_insert_tcp :: "int \<Rightarrow> int \<Rightarrow> string" where
  "sql_insert_tcp e k = ''INSERT INTO CliInfo VALUES ('' @ dec_int e @ '', '' @ dec_int k @ '', NULL, NULL);''"

definition sql_update_tcp :: "int \<Rightarrow> int \<Rightarrow> string" where
  "sql_update_tcp e k =
     ''UPDATE CliInfo SET fd='' @ dec_int k @ '',ipaddr=null,port=null '' @ ''WHERE endid == '' @ dec_int e @ '';''"

definition sql_delete_fd :: "int \<Rightarrow> string" where
  "sql_delete_fd k = ''DELETE FROM CliInfo WHERE fd == '' @ dec_int k @ '';''"

definition sql_insert_udp :: "int \<Rightarrow> 32 word \<Rightarrow> 16 word \<Rightarrow> string" where
  "sql_insert_udp e ip pt =
     ''INSERT INTO CliInfo VALUES ('' @ dec_int e @ '', NULL, '' @ dec_nat (unat ip) @ '', '' @ dec_nat (unat pt) @ '');''"

definition sql_update_udp :: "int \<Rightarrow> 32 word \<Rightarrow> 16 word \<Rightarrow> string" where
  "sql_update_udp e ip pt =
     ''UPDATE CliInfo SET fd = NULL,addr = '' @ dec_nat (unat ip) @ '',port = '' @ dec_nat (unat pt) @ '' '' @
     ''WHERE endid == '' @ dec_int e @ '';''"

definition sql_delete_addr :: "32 word \<Rightarrow> 16 word \<Rightarrow> string" where
  "sql_delete_addr ip pt =
     ''DELETE FROM CliInfo WHERE ipaddr == '' @ dec_nat (unat ip) @ '' AND port == '' @ dec_nat (unat pt) @ '';''"

definition sql_select :: "int \<Rightarrow> string" where
  "sql_select e = ''SELECT * FROM CliInfo WHERE endid == '' @ dec_int e @ '';''"

definition sql_select_all :: string where
  "sql_select_all = ''SELECT * FROM CliInfo;''"

section \<open>Functions\<close>

text \<open>
  What the opening meets: the working directory, the databases in files, whether \<open>remove\<close> succeeds, and the
  handle that \<open>sqlite3_open\<close> stores for the file's contents, NULL if it cannot allocate one.
\<close>

record 'db db_env =
  o_cwd :: string
  o_file :: "string \<Rightarrow> 'db option"
  o_remove :: bool
  o_open :: "'db option \<Rightarrow> 'db gptr"

definition db_file :: string where
  "db_file = ''/srv_sql.db''"

text \<open>
  \<open>getcwd(sql_fpath, 256)\<close> leaves the array of zeros alone when the name does not fit; the name of the file
  behind it must leave room for the terminating zero.
\<close>

definition sql_fpath :: "string \<Rightarrow> string option" where
  "sql_fpath cwd = (let p = if length cwd < 256 then cwd else [] in if length (p @ db_file) < 256 then Some (p @ db_file) else None)"

definition create_cli_sql_database :: "'db sqlite \<Rightarrow> 'db db_env \<Rightarrow> 'db gptr \<Rightarrow> (int \<times> 'db gptr) option" where
  "create_cli_sql_database ex opn sql =
     (if sql \<noteq> Null then Some (0, sql)
      else do {
        path \<leftarrow> sql_fpath (o_cwd opn);
        let file = (if o_file opn path \<noteq> None \<and> o_remove opn then None else o_file opn path);
        sql_cmd \<leftarrow> sprintf256 sql_create;
        (_, _, sql) \<leftarrow> sqlite3_exec ex (o_open opn file) sql_cmd no_callback ();
        Some (0, sql) })"

text \<open>Closing leaves the handle as it is.\<close>

definition destroy_cli_sql_database :: "'db gptr \<Rightarrow> (int \<times> 'db gptr) option" where
  "destroy_cli_sql_database sql = (if sql = Null then Some (0, Null) else do { _ \<leftarrow> deref sql; Some (0, Freed) })"

definition opened :: "'db sqlite \<Rightarrow> 'db db_env \<Rightarrow> 'db gptr \<Rightarrow> 'db gptr option" where
  "opened ex opn sql = (if sql = Null then map_option snd (create_cli_sql_database ex opn sql) else Some sql)"

definition add_tcp_cli_to_database :: "'db sqlite \<Rightarrow> 'db db_env \<Rightarrow> int \<Rightarrow> int \<Rightarrow> 'db gptr \<Rightarrow> (int \<times> 'db gptr) option" where
  "add_tcp_cli_to_database ex opn endid k sql = do {
     sql \<leftarrow> opened ex opn sql;
     sql_cmd \<leftarrow> sprintf256 (sql_insert_tcp endid k);
     (iret, _, sql) \<leftarrow> sqlite3_exec ex sql sql_cmd no_callback ();
     if iret = SQLITE_CONSTRAINT then do {
       sql_cmd \<leftarrow> sprintf256 (sql_update_tcp endid k);
       (_, _, sql) \<leftarrow> sqlite3_exec ex sql sql_cmd no_callback ();
       Some (0, sql) }
     else Some (0, sql) }"

definition del_tcp_cli_from_database_by_fd :: "'db sqlite \<Rightarrow> 'db db_env \<Rightarrow> int \<Rightarrow> 'db gptr \<Rightarrow> (int \<times> 'db gptr) option" where
  "del_tcp_cli_from_database_by_fd ex opn k sql = do {
     sql \<leftarrow> opened ex opn sql;
     sql_cmd \<leftarrow> sprintf256 (sql_delete_fd k);
     (_, _, sql) \<leftarrow> sqlite3_exec ex sql sql_cmd no_callback ();
     Some (0, sql) }"

definition add_udp_cli_to_database ::
  "'db sqlite \<Rightarrow> 'db db_env \<Rightarrow> int \<Rightarrow> 32 word \<Rightarrow> 16 word \<Rightarrow> 'db gptr \<Rightarrow> (int \<times> 'db gptr) option" where
  "add_udp_cli_to_database ex opn endid ipaddr pt sql = do {
     sql \<leftarrow> opened ex opn sql;
     sql_cmd \<leftarrow> sprintf256 (sql_insert_udp endid ipaddr pt);
     (iret, _, sql) \<leftarrow> sqlite3_exec ex sql sql_cmd no_callback ();
     if iret = SQLITE_CONSTRAINT then do {
       sql_cmd \<leftarrow> sprintf256 (sql_update_udp endid ipaddr pt);
       (_, _, sql) \<leftarrow> sqlite3_exec ex sql sql_cmd no_callback ();
       Some (0, sql) }
     else Some (0, sql) }"

definition del_udp_cli_from_database_by_ipaddr ::
  "'db sqlite \<Rightarrow> 'db db_env \<Rightarrow> 32 word \<Rightarrow> 16 word \<Rightarrow> 'db gptr \<Rightarrow> (int \<times> 'db gptr) option" where
  "del_udp_cli_from_database_by_ipaddr ex opn ipaddr pt sql = do {
     sql \<leftarrow> opened ex opn sql;
     sql_cmd \<leftarrow> sprintf256 (sql_delete_addr ipaddr pt);
     (_, _, sql) \<leftarrow> sqlite3_exec ex sql sql_cmd no_callback ();
     Some (0, sql) }"

text \<open>The callback of a lookup; \<open>None\<close> stands for a NULL argument.\<close>

definition select_result_handler :: "socket_handle_t option \<Rightarrow> sql_row \<Rightarrow> (int \<times> socket_handle_t option) option" where
  "select_result_handler mem retv =
     (case mem of
        None \<Rightarrow> Some (SQLITE_ERROR, None)
      | Some h \<Rightarrow>
          if length retv \<noteq> 4 then Some (SQLITE_ERROR, mem)
          else if socket_type h \<noteq> UNSET then Some (SQLITE_OK, mem)
          else (case (retv ! 1, retv ! 2, retv ! 3) of
              (Some f, None, None) \<Rightarrow> do {
                k \<leftarrow> atoi f;
                Some (SQLITE_OK, Some (h\<lparr>socket_type := TCP_LINK, sh_fd := k\<rparr>)) }
            | (None, Some a, Some p) \<Rightarrow> do {
                ip \<leftarrow> atoi a;
                pt \<leftarrow> atoi p;
                Some (SQLITE_OK, Some (h\<lparr>socket_type := UDP_LINK,
                  sh_addr := \<lparr>sk_port = word_of_int pt, sk_ip = word_of_int ip\<rparr>\<rparr>)) }
            | _ \<Rightarrow> Some (SQLITE_OK, mem)))"

definition get_cli_by_endid ::
  "'db sqlite \<Rightarrow> 'db db_env \<Rightarrow> int \<Rightarrow> socket_handle_t option \<Rightarrow> 'db gptr \<Rightarrow> (int \<times> socket_handle_t option \<times> 'db gptr) option" where
  "get_cli_by_endid ex opn endid mem sql = do {
     sql \<leftarrow> opened ex opn sql;
     sql_cmd \<leftarrow> sprintf256 (sql_select endid);
     (_, mem, sql) \<leftarrow> sqlite3_exec ex sql sql_cmd select_result_handler mem;
     Some (0, mem, sql) }"

text \<open>
  \<open>send_msg_by_tcp\<close> of \<open>server_tcp.c\<close> and \<open>send_msg_by_udp\<close> of \<open>server_udp.c\<close>; \<open>ok\<close> tells whether the whole
  package is transferred. What goes out is put behind \<open>out\<close>.
\<close>

definition send_msg_by_tcp :: "bool \<Rightarrow> lc_msg_package_t \<Rightarrow> int \<Rightarrow> sock_out list \<Rightarrow> int \<times> sock_out list" where
  "send_msg_by_tcp ok msg_pack cli_fd out = (if ok then 0 else - 1, out @ [Out_tcp cli_fd msg_pack])"

definition send_msg_by_udp :: "bool \<Rightarrow> int \<Rightarrow> lc_msg_package_t \<Rightarrow> sock_addr \<Rightarrow> sock_out list \<Rightarrow> int \<times> sock_out list" where
  "send_msg_by_udp ok udpfd msg_pack a out = (if ok then 0 else - 1, out @ [Out_udp udpfd a msg_pack])"

text \<open>The callback of a broadcast: the package with its destination changed, and what was sent.\<close>

definition send_msg_to_all_ret ::
  "bool \<Rightarrow> int \<Rightarrow> lc_msg_package_t option \<times> sock_out list \<Rightarrow> sql_row \<Rightarrow> (int \<times> lc_msg_package_t option \<times> sock_out list) option" where
  "send_msg_to_all_ret ok udpfd a retv =
     (case a of
        (None, out) \<Rightarrow> Some (SQLITE_ERROR, a)
      | (Some msg_pack, out) \<Rightarrow>
          if length retv \<noteq> 4 then Some (SQLITE_ERROR, a)
          else do {
            e \<leftarrow> retv ! 0;
            e \<leftarrow> atoi e;
            let msg_pack = set_pk_destid (word_of_int e) msg_pack;
            (case (retv ! 1, retv ! 2, retv ! 3) of
              (Some f, None, None) \<Rightarrow> do {
                k \<leftarrow> atoi f;
                Some (SQLITE_OK, Some msg_pack, snd (send_msg_by_tcp ok msg_pack k out)) }
            | (None, Some ip, Some p) \<Rightarrow> do {
                ip \<leftarrow> atoi ip;
                pt \<leftarrow> atoi p;
                Some (SQLITE_OK, Some msg_pack,
                  snd (send_msg_by_udp ok udpfd msg_pack \<lparr>sk_port = word_of_int pt, sk_ip = word_of_int ip\<rparr> out)) }
            | _ \<Rightarrow> Some (SQLITE_OK, Some msg_pack, out)) })"

definition traverse_table_send_msg ::
  "'db sqlite \<Rightarrow> 'db db_env \<Rightarrow> bool \<Rightarrow> int \<Rightarrow> lc_msg_package_t \<Rightarrow> sock_out list \<Rightarrow> 'db gptr \<Rightarrow> (sock_out list \<times> 'db gptr) option" where
  "traverse_table_send_msg ex opn ok udpfd msg_pack out sql = do {
     sql \<leftarrow> opened ex opn sql;
     sql_cmd \<leftarrow> sprintf256 sql_select_all;
     (_, a, sql) \<leftarrow> sqlite3_exec ex sql sql_cmd (send_msg_to_all_ret ok udpfd) (Some msg_pack, out);
     Some (snd a, sql) }"

section \<open>What SQLite promises\<close>

text \<open>A row of the table: the columns \<open>fd\<close>, \<open>ipaddr\<close> and \<open>port\<close>, \<open>None\<close> for NULL; \<open>endid\<close> is the key.\<close>

type_synonym link = "int option \<times> nat option \<times> nat option"

definition row_text :: "int \<Rightarrow> link \<Rightarrow> sql_row" where
  "row_text e l = [Some (dec_int e), map_option dec_int (fst l), map_option dec_nat (fst (snd l)), map_option dec_nat (snd (snd l))]"

definition tcp_link :: "int \<Rightarrow> link" where
  "tcp_link k = (Some k, None, None)"

definition udp_link :: "32 word \<Rightarrow> 16 word \<Rightarrow> link" where
  "udp_link ip pt = (None, Some (unat ip), Some (unat pt))"

text \<open>The four changes of the table.\<close>

definition reg_tcp :: "int \<Rightarrow> int \<Rightarrow> (int \<rightharpoonup> link) \<Rightarrow> (int \<rightharpoonup> link)" where
  "reg_tcp e k t = t(e \<mapsto> tcp_link k)"

definition reg_udp :: "int \<Rightarrow> 32 word \<Rightarrow> 16 word \<Rightarrow> (int \<rightharpoonup> link) \<Rightarrow> (int \<rightharpoonup> link)" where
  "reg_udp e ip pt t = (if e \<in> dom t then t else t(e \<mapsto> udp_link ip pt))"

definition drop_fd :: "int \<Rightarrow> (int \<rightharpoonup> link) \<Rightarrow> (int \<rightharpoonup> link)" where
  "drop_fd k t = t |` {e. \<forall>l. t e = Some l \<longrightarrow> fst l \<noteq> Some k}"

definition drop_addr :: "32 word \<Rightarrow> 16 word \<Rightarrow> (int \<rightharpoonup> link) \<Rightarrow> (int \<rightharpoonup> link)" where
  "drop_addr ip pt t = t |` {e. \<forall>l. t e = Some l \<longrightarrow> snd l \<noteq> (Some (unat ip), Some (unat pt))}"

text \<open>
  \<open>tab db\<close> is the table in a database, \<open>None\<close> before it is created. The laws: creation; an insertion, which
  violates the constraint when the key is there; the two updates, of which the second names a column that
  does not exist; the two deletions; the selection of one row, and of all in some order.
\<close>

definition sqlite_laws :: "'db sqlite \<Rightarrow> ('db \<Rightarrow> (int \<rightharpoonup> link) option) \<Rightarrow> bool" where
  "sqlite_laws ex tab \<longleftrightarrow>
     (\<forall>db. tab db = None \<longrightarrow> (\<exists>db'. ex db sql_create = (SQLITE_OK, [], db') \<and> tab db' = Some Map.empty)) \<and>
     (\<forall>db t. tab db = Some t \<longrightarrow> finite (dom t)) \<and>
     (\<forall>db t e k. tab db = Some t \<longrightarrow> (\<exists>db'. ex db (sql_insert_tcp e k) =
        (if e \<in> dom t then SQLITE_CONSTRAINT else SQLITE_OK, [], db') \<and> tab db' = Some (if e \<in> dom t then t else reg_tcp e k t))) \<and>
     (\<forall>db t e k. tab db = Some t \<longrightarrow> (\<exists>db'. ex db (sql_update_tcp e k) = (SQLITE_OK, [], db') \<and>
        tab db' = Some (if e \<in> dom t then reg_tcp e k t else t))) \<and>
     (\<forall>db t e ip pt. tab db = Some t \<longrightarrow> (\<exists>db'. ex db (sql_insert_udp e ip pt) =
        (if e \<in> dom t then SQLITE_CONSTRAINT else SQLITE_OK, [], db') \<and> tab db' = Some (reg_udp e ip pt t))) \<and>
     (\<forall>db t e ip pt. tab db = Some t \<longrightarrow> (\<exists>db'. ex db (sql_update_udp e ip pt) = (SQLITE_ERROR, [], db') \<and> tab db' = Some t)) \<and>
     (\<forall>db t k. tab db = Some t \<longrightarrow> (\<exists>db'. ex db (sql_delete_fd k) = (SQLITE_OK, [], db') \<and> tab db' = Some (drop_fd k t))) \<and>
     (\<forall>db t ip pt. tab db = Some t \<longrightarrow> (\<exists>db'. ex db (sql_delete_addr ip pt) = (SQLITE_OK, [], db') \<and> tab db' = Some (drop_addr ip pt t))) \<and>
     (\<forall>db t e. tab db = Some t \<longrightarrow> (\<exists>db'. ex db (sql_select e) =
        (SQLITE_OK, case t e of None \<Rightarrow> [] | Some l \<Rightarrow> [row_text e l], db') \<and> tab db' = Some t)) \<and>
     (\<forall>db t. tab db = Some t \<longrightarrow> (\<exists>db' es. ex db sql_select_all = (SQLITE_OK, map (\<lambda>e. row_text e (the (t e))) es, db') \<and>
        distinct es \<and> set es = dom t \<and> tab db' = Some t))"

section \<open>The statements fit their buffers\<close>

definition int32 :: "int \<Rightarrow> bool" where
  "int32 i \<longleftrightarrow> - (2 ^ 31) \<le> i \<and> i < 2 ^ 31"

lemma dec_lengths:
  "int32 e \<Longrightarrow> length (dec_int e) \<le> 11" "length (dec_nat (unat (ip :: 32 word))) \<le> 10" "length (dec_nat (unat (pt :: 16 word))) \<le> 5"
proof -
  show "int32 e \<Longrightarrow> length (dec_int e) \<le> 11" by (rule length_dec_int) (auto simp: int32_def)
  have "unat ip < 10 ^ 10" using unsigned_less [of ip, where 'a = nat] by simp
  then show "length (dec_nat (unat ip)) \<le> 10" using length_dec_nat [of _ 10] by simp
  have "unat pt < 10 ^ 5" using unsigned_less [of pt, where 'a = nat] by simp
  then show "length (dec_nat (unat pt)) \<le> 5" using length_dec_nat [of _ 5] by simp
qed

lemma statements_fit:
  assumes "int32 e" "int32 k"
  shows "sprintf256 sql_create = Some sql_create" "sprintf256 (sql_insert_tcp e k) = Some (sql_insert_tcp e k)"
    "sprintf256 (sql_update_tcp e k) = Some (sql_update_tcp e k)" "sprintf256 (sql_delete_fd k) = Some (sql_delete_fd k)"
    "sprintf256 (sql_insert_udp e ip pt) = Some (sql_insert_udp e ip pt)"
    "sprintf256 (sql_update_udp e ip pt) = Some (sql_update_udp e ip pt)"
    "sprintf256 (sql_delete_addr ip pt) = Some (sql_delete_addr ip pt)"
    "sprintf256 (sql_select e) = Some (sql_select e)" "sprintf256 sql_select_all = Some sql_select_all"
  using dec_lengths(1) [OF assms(1)] dec_lengths(1) [OF assms(2)] dec_lengths(2) [of ip] dec_lengths(3) [of pt]
  by (simp_all add: sprintf256_def sql_create_def sql_insert_tcp_def sql_update_tcp_def sql_delete_fd_def sql_insert_udp_def
      sql_update_udp_def sql_delete_addr_def sql_select_def sql_select_all_def)

section \<open>The table\<close>

text \<open>
  Entries that a lookup can read back: \<open>atoi\<close> is not defined on an address whose value is no \<open>int\<close>.
\<close>

definition readable :: "int \<Rightarrow> link \<Rightarrow> bool" where
  "readable e l \<longleftrightarrow> int32 e \<and> ((\<exists>k. int32 k \<and> l = tcp_link k) \<or> (\<exists>ip pt. unat ip < 2 ^ 31 \<and> l = udp_link ip pt))"

text \<open>The entries the code makes, and those whose address is an \<open>int\<close>.\<close>

definition link_ok :: "int \<Rightarrow> link \<Rightarrow> bool" where
  "link_ok e l \<longleftrightarrow> int32 e \<and> ((\<exists>k. int32 k \<and> l = tcp_link k) \<or> (\<exists>ip pt. l = udp_link ip pt))"

definition reads_back :: "link \<Rightarrow> bool" where
  "reads_back l = (case fst (snd l) of None \<Rightarrow> True | Some ip \<Rightarrow> ip < 2 ^ 31)"

lemma reads_back_simps [simp]: "reads_back (tcp_link k)" "reads_back (udp_link ip pt) \<longleftrightarrow> unat ip < 2 ^ 31"
  by (simp_all add: reads_back_def tcp_link_def udp_link_def)

lemma link_ok_links [simp]: "link_ok e (tcp_link k) \<longleftrightarrow> int32 e \<and> int32 k" "link_ok e (udp_link ip pt) \<longleftrightarrow> int32 e"
  by (auto simp: link_ok_def tcp_link_def udp_link_def)

lemma readable_iff: "readable e l \<longleftrightarrow> link_ok e l \<and> reads_back l"
  by (auto simp: readable_def link_ok_def)

definition db_rep :: "('db \<Rightarrow> (int \<rightharpoonup> link) option) \<Rightarrow> 'db gptr \<Rightarrow> (int \<rightharpoonup> link) \<Rightarrow> bool" where
  "db_rep tab sql t \<longleftrightarrow> (\<exists>db. sql = Ptr db \<and> tab db = Some t) \<or> sql = Null \<and> t = Map.empty"

text \<open>
  The opening gives a new database: the name of its file fits, a file that is there can be removed, and
  \<open>sqlite3_open\<close> succeeds.
\<close>

definition db_new :: "('db \<Rightarrow> (int \<rightharpoonup> link) option) \<Rightarrow> 'db db_env \<Rightarrow> bool" where
  "db_new tab opn \<longleftrightarrow> (\<exists>path. sql_fpath (o_cwd opn) = Some path \<and> (o_file opn path \<noteq> None \<longrightarrow> o_remove opn)) \<and>
     (\<exists>db. o_open opn None = Ptr db \<and> tab db = None)"

lemma sql_fpath_fits: "sql_fpath cwd = Some path \<longleftrightarrow> length cwd < 245 \<and> path = cwd @ db_file \<or> 256 \<le> length cwd \<and> path = db_file"
  by (auto simp: sql_fpath_def db_file_def)

text \<open>A working directory whose name has 245 to 255 characters: the name of the file is written beyond the array.\<close>

lemma create_long_directory: "245 \<le> length (o_cwd opn) \<Longrightarrow> length (o_cwd opn) < 256 \<Longrightarrow> create_cli_sql_database ex opn Null = None"
  by (simp add: create_cli_sql_database_def sql_fpath_def db_file_def)

text \<open>The handle that a lookup of a link gives.\<close>

definition tcp_handle :: "int \<Rightarrow> socket_handle_t" where
  "tcp_handle k = zero_handle\<lparr>socket_type := TCP_LINK, sh_fd := k\<rparr>"

definition udp_handle :: "sock_addr \<Rightarrow> socket_handle_t" where
  "udp_handle a = zero_handle\<lparr>socket_type := UDP_LINK, sh_addr := a\<rparr>"

fun handle_of :: "link option \<Rightarrow> socket_handle_t" where
  "handle_of (Some (Some k, None, None)) = tcp_handle k"
| "handle_of (Some (None, Some ip, Some pt)) = udp_handle \<lparr>sk_port = of_nat pt, sk_ip = of_nat ip\<rparr>"
| "handle_of _ = zero_handle"

lemma handle_of_links [simp]:
  "handle_of (Some (tcp_link k)) = tcp_handle k"
  "handle_of (Some (udp_link ip pt)) = udp_handle \<lparr>sk_port = pt, sk_ip = ip\<rparr>"
  by (simp_all add: tcp_link_def udp_link_def)

lemma laws:
  assumes "sqlite_laws ex tab"
  shows "tab db = None \<Longrightarrow> \<exists>db'. ex db sql_create = (SQLITE_OK, [], db') \<and> tab db' = Some Map.empty"
    "tab db = Some t \<Longrightarrow> finite (dom t)"
    "tab db = Some t \<Longrightarrow> \<exists>db'. ex db (sql_insert_tcp e k) = (if e \<in> dom t then SQLITE_CONSTRAINT else SQLITE_OK, [], db') \<and>
        tab db' = Some (if e \<in> dom t then t else reg_tcp e k t)"
    "tab db = Some t \<Longrightarrow> \<exists>db'. ex db (sql_update_tcp e k) = (SQLITE_OK, [], db') \<and>
        tab db' = Some (if e \<in> dom t then reg_tcp e k t else t)"
    "tab db = Some t \<Longrightarrow> \<exists>db'. ex db (sql_insert_udp e ip pt) = (if e \<in> dom t then SQLITE_CONSTRAINT else SQLITE_OK, [], db') \<and>
        tab db' = Some (reg_udp e ip pt t)"
    "tab db = Some t \<Longrightarrow> \<exists>db'. ex db (sql_update_udp e ip pt) = (SQLITE_ERROR, [], db') \<and> tab db' = Some t"
    "tab db = Some t \<Longrightarrow> \<exists>db'. ex db (sql_delete_fd k) = (SQLITE_OK, [], db') \<and> tab db' = Some (drop_fd k t)"
    "tab db = Some t \<Longrightarrow> \<exists>db'. ex db (sql_delete_addr ip pt) = (SQLITE_OK, [], db') \<and> tab db' = Some (drop_addr ip pt t)"
    "tab db = Some t \<Longrightarrow> \<exists>db'. ex db (sql_select e) = (SQLITE_OK, case t e of None \<Rightarrow> [] | Some l \<Rightarrow> [row_text e l], db') \<and> tab db' = Some t"
    "tab db = Some t \<Longrightarrow> \<exists>db' es. ex db sql_select_all = (SQLITE_OK, map (\<lambda>e. row_text e (the (t e))) es, db') \<and>
        distinct es \<and> set es = dom t \<and> tab db' = Some t"
  using assms unfolding sqlite_laws_def by simp_all

lemma opened_ok:
  assumes "sqlite_laws ex tab" "db_new tab opn" "db_rep tab sql t"
  shows "\<exists>db. opened ex opn sql = Some (Ptr db) \<and> tab db = Some t"
proof (cases "sql = Null")
  case True
  obtain path db where p: "sql_fpath (o_cwd opn) = Some path" "o_file opn path \<noteq> None \<longrightarrow> o_remove opn"
    and db: "o_open opn None = Ptr db" "tab db = None" using assms(2) unfolding db_new_def by blast
  have n: "o_file opn path = None \<or> o_remove opn" using p(2) by auto
  obtain db' where "ex db sql_create = (SQLITE_OK, [], db')" "tab db' = Some Map.empty" using laws(1) [OF assms(1) db(2)] by blast
  moreover have "t = Map.empty" using True assms(3) by (auto simp: db_rep_def)
  moreover have "sprintf256 sql_create = Some sql_create" using statements_fit(1) [of 0 0] by (simp add: int32_def)
  ultimately show ?thesis
    using True db(1) p(1) n by (auto simp: opened_def create_cli_sql_database_def sqlite3_exec_def SQLITE_OK_def)
next
  case False
  then show ?thesis using assms(3) by (auto simp: opened_def db_rep_def)
qed

lemma exec_plain:
  "ex db cmd = (ret, [], db') \<Longrightarrow> sqlite3_exec ex (Ptr db) cmd no_callback () = Some (ret, (), Ptr db')"
  by (simp add: sqlite3_exec_def SQLITE_OK_def)

lemma codes [simp]: "SQLITE_CONSTRAINT \<noteq> SQLITE_OK" "SQLITE_OK \<noteq> SQLITE_CONSTRAINT" "SQLITE_ERROR \<noteq> SQLITE_OK"
  by (simp_all add: SQLITE_CONSTRAINT_def SQLITE_OK_def SQLITE_ERROR_def)

lemma db_repI: "tab db = Some t \<Longrightarrow> db_rep tab (Ptr db) t"
  by (auto simp: db_rep_def)

section \<open>What each function does to the table\<close>

lemma add_tcp_ok:
  assumes "sqlite_laws ex tab" "db_new tab opn" "db_rep tab sql t" "int32 e" "int32 k"
  shows "\<exists>sql'. add_tcp_cli_to_database ex opn e k sql = Some (0, sql') \<and> db_rep tab sql' (reg_tcp e k t)"
proof -
  obtain db where db: "opened ex opn sql = Some (Ptr db)" "tab db = Some t" using opened_ok [OF assms(1-3)] by blast
  obtain db1 where 1: "ex db (sql_insert_tcp e k) = (if e \<in> dom t then SQLITE_CONSTRAINT else SQLITE_OK, [], db1)"
    "tab db1 = Some (if e \<in> dom t then t else reg_tcp e k t)"
    using laws(3) [OF assms(1) db(2)] by blast
  note fit = statements_fit [OF assms(4,5)]
  show ?thesis
  proof (cases "e \<in> dom t")
    case True
    then obtain db2 where "ex db1 (sql_update_tcp e k) = (SQLITE_OK, [], db2)" "tab db2 = Some (reg_tcp e k t)"
      using laws(4) [OF assms(1), of db1 t e k] 1(2) by auto
    then show ?thesis
      using db(1) 1(1) True fit(2,3) by (simp add: add_tcp_cli_to_database_def exec_plain db_repI)
  next
    case False
    then show ?thesis using db(1) 1 fit(2) by (simp add: add_tcp_cli_to_database_def exec_plain db_repI)
  qed
qed

lemma add_udp_ok:
  assumes "sqlite_laws ex tab" "db_new tab opn" "db_rep tab sql t" "int32 e"
  shows "\<exists>sql'. add_udp_cli_to_database ex opn e ip pt sql = Some (0, sql') \<and> db_rep tab sql' (reg_udp e ip pt t)"
proof -
  obtain db where db: "opened ex opn sql = Some (Ptr db)" "tab db = Some t" using opened_ok [OF assms(1-3)] by blast
  obtain db1 where 1: "ex db (sql_insert_udp e ip pt) = (if e \<in> dom t then SQLITE_CONSTRAINT else SQLITE_OK, [], db1)"
    "tab db1 = Some (reg_udp e ip pt t)"
    using laws(5) [OF assms(1) db(2)] by blast
  obtain db2 where 2: "ex db1 (sql_update_udp e ip pt) = (SQLITE_ERROR, [], db2)" "tab db2 = Some (reg_udp e ip pt t)"
    using laws(6) [OF assms(1) 1(2)] by blast
  note fit = statements_fit [OF assms(4,4)]
  show ?thesis
    using db(1) 1 2 fit(5,6) by (cases "e \<in> dom t") (simp_all add: add_udp_cli_to_database_def exec_plain db_repI)
qed

lemma del_fd_ok:
  assumes "sqlite_laws ex tab" "db_new tab opn" "db_rep tab sql t" "int32 k"
  shows "\<exists>sql'. del_tcp_cli_from_database_by_fd ex opn k sql = Some (0, sql') \<and> db_rep tab sql' (drop_fd k t)"
proof -
  obtain db where db: "opened ex opn sql = Some (Ptr db)" "tab db = Some t" using opened_ok [OF assms(1-3)] by blast
  obtain db1 where "ex db (sql_delete_fd k) = (SQLITE_OK, [], db1)" "tab db1 = Some (drop_fd k t)"
    using laws(7) [OF assms(1) db(2)] by blast
  then show ?thesis
    using db(1) statements_fit [OF assms(4,4)] by (simp add: del_tcp_cli_from_database_by_fd_def exec_plain db_repI)
qed

lemma del_addr_ok:
  assumes "sqlite_laws ex tab" "db_new tab opn" "db_rep tab sql t"
  shows "\<exists>sql'. del_udp_cli_from_database_by_ipaddr ex opn ip pt sql = Some (0, sql') \<and> db_rep tab sql' (drop_addr ip pt t)"
proof -
  obtain db where db: "opened ex opn sql = Some (Ptr db)" "tab db = Some t" using opened_ok [OF assms(1-3)] by blast
  obtain db1 where "ex db (sql_delete_addr ip pt) = (SQLITE_OK, [], db1)" "tab db1 = Some (drop_addr ip pt t)"
    using laws(8) [OF assms(1) db(2)] by blast
  moreover have "int32 0" by (simp add: int32_def)
  ultimately show ?thesis
    using db(1) statements_fit(7) [of 0 0] by (simp add: del_udp_cli_from_database_by_ipaddr_def exec_plain db_repI)
qed

lemma link_texts:
  "row_text e (tcp_link k) = [Some (dec_int e), Some (dec_int k), None, None]"
  "row_text e (udp_link ip pt) = [Some (dec_int e), None, Some (dec_nat (unat ip)), Some (dec_nat (unat pt))]"
  by (simp_all add: row_text_def tcp_link_def udp_link_def)

lemma atoi_port: "atoi (dec_nat (unat (pt :: 16 word))) = Some (uint pt)"
proof -
  have "unat pt < 2 ^ 31" using unsigned_less [of pt, where 'a = nat] by simp
  then show ?thesis by (simp add: atoi_dec_nat)
qed

lemma atoi_ip: "unat (ip :: 32 word) < 2 ^ 31 \<Longrightarrow> atoi (dec_nat (unat ip)) = Some (uint ip)"
  by (simp add: atoi_dec_nat)

lemma handler_reads:
  assumes "readable e l"
  shows "select_result_handler (Some zero_handle) (row_text e l) = Some (SQLITE_OK, Some (handle_of (Some l)))"
proof -
  consider k where "int32 k" "l = tcp_link k" | ip pt where "unat ip < 2 ^ 31" "l = udp_link ip pt"
    using assms by (auto simp: readable_def)
  then show ?thesis
  proof cases
    case 1
    then show ?thesis
      by (simp add: select_result_handler_def link_texts atoi_dec int32_def tcp_handle_def) (simp add: zero_handle_def)
  next
    case 2
    then show ?thesis
      by (simp add: select_result_handler_def link_texts atoi_port atoi_ip udp_handle_def) (simp add: zero_handle_def)
  qed
qed

lemma exec_rows:
  "ex db cmd = (SQLITE_OK, rows, db') \<Longrightarrow> run_rows cb rows a = Some (r, a') \<Longrightarrow>
   sqlite3_exec ex (Ptr db) cmd cb a = Some (r, a', Ptr db')"
  by (simp add: sqlite3_exec_def)

lemma get_ok:
  assumes "sqlite_laws ex tab" "db_new tab opn" "db_rep tab sql t" "int32 e" "\<And>l. t e = Some l \<Longrightarrow> readable e l"
  shows "\<exists>sql'. get_cli_by_endid ex opn e (Some zero_handle) sql = Some (0, Some (handle_of (t e)), sql') \<and> db_rep tab sql' t"
proof -
  obtain db where db: "opened ex opn sql = Some (Ptr db)" "tab db = Some t" using opened_ok [OF assms(1-3)] by blast
  obtain db1 where 1: "ex db (sql_select e) = (SQLITE_OK, case t e of None \<Rightarrow> [] | Some l \<Rightarrow> [row_text e l], db1)" "tab db1 = Some t"
    using laws(9) [OF assms(1) db(2)] by blast
  have "run_rows select_result_handler (case t e of None \<Rightarrow> [] | Some l \<Rightarrow> [row_text e l]) (Some zero_handle) =
      Some (SQLITE_OK, Some (handle_of (t e)))"
    using handler_reads [OF assms(5)] by (cases "t e") (simp_all add: SQLITE_OK_def)
  from exec_rows [where ex = ex and db = db and cmd = "sql_select e", OF 1(1) this] show ?thesis
    using db(1) 1(2) statements_fit(8) [OF assms(4,4)] by (simp add: get_cli_by_endid_def db_repI)
qed

lemma get_fault:
  assumes "sqlite_laws ex tab" "db_new tab opn" "db_rep tab sql t" "int32 e" "t e = Some (udp_link ip pt)" "unat ip \<ge> 2 ^ 31"
  shows "get_cli_by_endid ex opn e (Some zero_handle) sql = None"
proof -
  obtain db where db: "opened ex opn sql = Some (Ptr db)" "tab db = Some t" using opened_ok [OF assms(1-3)] by blast
  obtain db1 where 1: "ex db (sql_select e) = (SQLITE_OK, [row_text e (udp_link ip pt)], db1)"
    using laws(9) [OF assms(1) db(2), of e] assms(5) by auto
  have "atoi (dec_nat (unat ip)) = None" using assms(6) by (simp add: atoi_dec_nat)
  then have "run_rows select_result_handler [row_text e (udp_link ip pt)] (Some zero_handle) = None"
    by (simp add: select_result_handler_def link_texts) (simp add: zero_handle_def)
  then show ?thesis
    using db(1) 1 statements_fit(8) [OF assms(4,4)] by (simp add: get_cli_by_endid_def sqlite3_exec_def)
qed

text \<open>What a broadcast sends to one entry.\<close>

definition out_for :: "int \<Rightarrow> lc_msg_package_t \<Rightarrow> int \<Rightarrow> link \<Rightarrow> sock_out" where
  "out_for udpfd m e l = (let m = set_pk_destid (word_of_int e) m; h = handle_of (Some l) in
     if socket_type h = TCP_LINK then Out_tcp (sh_fd h) m else Out_udp udpfd (sh_addr h) m)"

lemma put_at_twice: "length xs = length ys \<Longrightarrow> off + length xs \<le> length b \<Longrightarrow> put_at off xs (put_at off ys b) = put_at off xs b"
  by (simp add: put_at_def)

lemma set_destid_twice: "wf_package m \<Longrightarrow> set_pk_destid a (set_pk_destid b m) = set_pk_destid a m"
  by (simp add: package_defs put_at_twice)

lemma broadcast_row:
  assumes "readable e l"
  shows "send_msg_to_all_ret ok udpfd (Some m, out) (row_text e l) =
    Some (0, Some (set_pk_destid (word_of_int e) m), out @ [out_for udpfd m e l])"
proof -
  consider k where "int32 e" "int32 k" "l = tcp_link k" | ip pt where "int32 e" "unat ip < 2 ^ 31" "l = udp_link ip pt"
    using assms by (auto simp: readable_def)
  then show ?thesis
  proof cases
    case 1
    then show ?thesis
      by (simp add: send_msg_to_all_ret_def link_texts atoi_dec int32_def out_for_def send_msg_by_tcp_def tcp_handle_def
          SQLITE_OK_def Let_def)
  next
    case 2
    then show ?thesis
      by (simp add: send_msg_to_all_ret_def link_texts atoi_dec int32_def atoi_port atoi_ip out_for_def send_msg_by_udp_def
          udp_handle_def SQLITE_OK_def Let_def)
  qed
qed

lemma broadcast_rows:
  assumes "\<forall>e \<in> set es. readable e (f e)" "wf_package m"
  shows "\<exists>m'. run_rows (send_msg_to_all_ret ok udpfd) (map (\<lambda>e. row_text e (f e)) es) (Some m, out) =
    Some (SQLITE_OK, Some m', out @ map (\<lambda>e. out_for udpfd m e (f e)) es)"
  using assms
proof (induction es arbitrary: m out)
  case (Cons e es)
  let ?m = "set_pk_destid (word_of_int e) m"
  have same: "out_for udpfd ?m x (f x) = out_for udpfd m x (f x)" for x
    using set_destid_twice [OF Cons.prems(2)] by (simp add: out_for_def)
  obtain m' where "run_rows (send_msg_to_all_ret ok udpfd) (map (\<lambda>e. row_text e (f e)) es) (Some ?m, out @ [out_for udpfd m e (f e)]) =
      Some (SQLITE_OK, Some m', (out @ [out_for udpfd m e (f e)]) @ map (\<lambda>e. out_for udpfd ?m e (f e)) es)"
    using Cons.IH [of ?m] Cons.prems by fastforce
  then show ?case using broadcast_row [of e "f e"] Cons.prems(1) by (simp add: same)
qed simp

text \<open>A broadcast stops at the first address that does not read back.\<close>

lemma broadcast_row_fault:
  assumes "link_ok e l" "\<not> reads_back l"
  shows "send_msg_to_all_ret ok udpfd (Some m, out) (row_text e l) = None"
proof -
  obtain ip pt where l: "l = udp_link ip pt" "unat ip \<ge> 2 ^ 31" "int32 e" using assms by (auto simp: link_ok_def)
  then have "atoi (dec_nat (unat ip)) = None" by (simp add: atoi_dec_nat)
  then show ?thesis using l(1,3) by (simp add: send_msg_to_all_ret_def link_texts atoi_dec int32_def Let_def)
qed

lemma broadcast_rows_fault:
  assumes "\<forall>e \<in> set es. link_ok e (f e)" "\<exists>e \<in> set es. \<not> reads_back (f e)"
  shows "run_rows (send_msg_to_all_ret ok udpfd) (map (\<lambda>e. row_text e (f e)) es) (Some m, out) = None"
  using assms
proof (induction es arbitrary: m out)
  case (Cons e es)
  show ?case
  proof (cases "reads_back (f e)")
    case True
    then have "readable e (f e)" using Cons.prems(1) by (simp add: readable_iff)
    then show ?thesis using broadcast_row [of e "f e"] Cons.IH Cons.prems True by simp
  next
    case False
    then show ?thesis using broadcast_row_fault [of e "f e"] Cons.prems(1) by simp
  qed
qed simp

lemma traverse_fault:
  assumes "sqlite_laws ex tab" "db_new tab opn" "db_rep tab sql t" "\<And>e l. t e = Some l \<Longrightarrow> link_ok e l" "t e = Some l" "\<not> reads_back l"
  shows "traverse_table_send_msg ex opn ok udpfd m out sql = None"
proof -
  obtain db where db: "opened ex opn sql = Some (Ptr db)" "tab db = Some t" using opened_ok [OF assms(1-3)] by blast
  obtain db1 es where 1: "ex db sql_select_all = (SQLITE_OK, map (\<lambda>e. row_text e (the (t e))) es, db1)" "set es = dom t"
    using laws(10) [OF assms(1) db(2)] by blast
  have "\<forall>e \<in> set es. link_ok e (the (t e))" using 1(2) assms(4) by auto
  moreover have "\<exists>e \<in> set es. \<not> reads_back (the (t e))" using 1(2) assms(5,6) by force
  ultimately have "run_rows (send_msg_to_all_ret ok udpfd) (map (\<lambda>e. row_text e (the (t e))) es) (Some m, out) = None"
    by (rule broadcast_rows_fault)
  then show ?thesis
    using db(1) 1(1) statements_fit(9) [of 0 0] by (simp add: traverse_table_send_msg_def sqlite3_exec_def int32_def)
qed

lemma traverse_ok:
  assumes "sqlite_laws ex tab" "db_new tab opn" "db_rep tab sql t" "\<And>e l. t e = Some l \<Longrightarrow> readable e l" "wf_package m"
  shows "\<exists>sql' es. traverse_table_send_msg ex opn ok udpfd m out sql =
      Some (out @ map (\<lambda>e. out_for udpfd m e (the (t e))) es, sql') \<and> db_rep tab sql' t \<and> distinct es \<and> set es = dom t"
proof -
  obtain db where db: "opened ex opn sql = Some (Ptr db)" "tab db = Some t" using opened_ok [OF assms(1-3)] by blast
  obtain db1 es where 1: "ex db sql_select_all = (SQLITE_OK, map (\<lambda>e. row_text e (the (t e))) es, db1)" "distinct es" "set es = dom t"
    "tab db1 = Some t"
    using laws(10) [OF assms(1) db(2)] by blast
  have "\<forall>e \<in> set es. readable e (the (t e))" using 1(3) assms(4) by auto
  then obtain m' where "run_rows (send_msg_to_all_ret ok udpfd) (map (\<lambda>e. row_text e (the (t e))) es) (Some m, out) =
      Some (SQLITE_OK, Some m', out @ map (\<lambda>e. out_for udpfd m e (the (t e))) es)"
    using broadcast_rows [of es "\<lambda>e. the (t e)" m] assms(5) by blast
  from exec_rows [where ex = ex and db = db and cmd = sql_select_all, OF 1(1) this] show ?thesis
    using db(1) 1(2-4) statements_fit(9) [of 0 0]
    by (intro exI [of _ "Ptr db1"] exI [of _ es]) (simp add: traverse_table_send_msg_def db_repI int32_def)
qed

end
