(* ===== verification/Sock_Sqlite.thy ===== *)
theory Sock_Sqlite
  imports Sock_Db
begin

text \<open>
  A small SQL engine for the statements that \<open>cli_sqlite3.c\<close> sends, as an instance of the parameter \<open>ex\<close>: it reads
  the text of a statement and works on an association list. It shows that \<open>sqlite_laws\<close> can hold, and
  that the texts the code builds carry the numbers they are built from.
\<close>

section \<open>Reading a statement\<close>

definition delims :: "char list" where
  "delims = '' (),;=''"

text \<open>Split at the delimiters; \<open>acc\<close> is the word begun.\<close>

fun lex :: "string \<Rightarrow> string \<Rightarrow> string list" where
  "lex acc [] = (if acc = [] then [] else [acc])"
| "lex acc (c # cs) =
     (if c \<in> set delims then (if acc = [] then lex [] cs else acc # lex [] cs) else lex (acc @ [c]) cs)"

definition num :: "string \<Rightarrow> int" where
  "num w = signed_val w"

definition column :: "string \<Rightarrow> int option" where
  "column w = (if w = ''NULL'' then None else Some (num w))"

type_synonym table = "(int \<times> link) list"

definition keep :: "(int \<Rightarrow> bool) \<Rightarrow> table \<Rightarrow> table" where
  "keep P rows = filter (\<lambda>p. P (fst p)) rows"

definition holds :: "table \<Rightarrow> (link \<Rightarrow> bool) \<Rightarrow> int \<Rightarrow> bool" where
  "holds rows Q e = (case map_of rows e of None \<Rightarrow> True | Some l \<Rightarrow> Q l)"

text \<open>The statements on an existing table, by their words.\<close>

definition run_words :: "table \<Rightarrow> string list \<Rightarrow> int \<times> sql_row list \<times> table" where
  "run_words rows ws =
     (let w = (\<lambda>i. ws ! i) in
      if w 0 = ''INSERT'' then
        (let e = num (w 4) in
         if map_of rows e \<noteq> None then (SQLITE_CONSTRAINT, [], rows)
         else (SQLITE_OK, [], (e, (column (w 5), map_option nat (column (w 6)), map_option nat (column (w 7)))) # rows))
      else if w 0 = ''UPDATE'' then
        (if w 5 \<noteq> ''ipaddr'' then (SQLITE_ERROR, [], rows)
         else let e = num (w 11) in
           (SQLITE_OK, [], if map_of rows e = None then rows else (e, (Some (num (w 4)), None, None)) # rows))
      else if w 0 = ''DELETE'' then
        (if w 4 = ''fd'' then (SQLITE_OK, [], keep (holds rows (\<lambda>l. fst l \<noteq> Some (num (w 5)))) rows)
         else (SQLITE_OK, [], keep (holds rows (\<lambda>l. snd l \<noteq> (Some (nat (num (w 5))), Some (nat (num (w 8)))))) rows))
      else if length ws = 4 then (SQLITE_OK, map (\<lambda>e. row_text e (the (map_of rows e))) (remdups (map fst rows)), rows)
      else (let e = num (w 6) in (SQLITE_OK, case map_of rows e of None \<Rightarrow> [] | Some l \<Rightarrow> [row_text e l], rows)))"

definition mini_exec :: "table option sqlite" where
  "mini_exec db cmd =
     (case db of
        None \<Rightarrow> (SQLITE_OK, [], Some [])
      | Some rows \<Rightarrow> let (r, out, rows) = run_words rows (lex [] cmd) in (r, out, Some rows))"

definition mini_tab :: "table option \<Rightarrow> (int \<rightharpoonup> link) option" where
  "mini_tab db = map_option map_of db"

section \<open>The words of the statements\<close>

lemma lex_word: "(\<forall>c \<in> set w. c \<notin> set delims) \<Longrightarrow> lex acc (w @ cs) = lex (acc @ w) cs"
  by (induction w arbitrary: acc) auto

lemma digit_no_delim: "is_digit c \<Longrightarrow> c \<notin> set delims"
  by (auto simp: delims_def is_digit_def)

lemma lex_nat: "lex [] (dec_nat n @ cs) = lex (dec_nat n) cs"
  using lex_word [of "dec_nat n" "[]" cs] dec_nat_digits digit_no_delim by simp

lemma lex_int: "lex [] (dec_int i @ cs) = lex (dec_int i) cs"
proof -
  have "\<forall>c \<in> set (dec_int i). c \<notin> set delims"
    using dec_nat_digits digit_no_delim by (auto simp: dec_int_def) (auto simp: delims_def)
  then show ?thesis using lex_word [of "dec_int i" "[]" cs] by simp
qed

lemma dec_int_nonempty: "dec_int i \<noteq> []"
  using dec_nat_nonempty by (simp add: dec_int_def)

lemma lex_end: "w \<noteq> [] \<Longrightarrow> c \<in> set delims \<Longrightarrow> lex w (c # cs) = w # lex [] cs"
  by simp

lemmas lexing = lex_nat lex_int dec_nat_nonempty dec_int_nonempty delims_def

lemma words:
  "lex [] (sql_insert_tcp e k) = [''INSERT'', ''INTO'', ''CliInfo'', ''VALUES'', dec_int e, dec_int k, ''NULL'', ''NULL'']"
  "lex [] (sql_update_tcp e k) = [''UPDATE'', ''CliInfo'', ''SET'', ''fd'', dec_int k, ''ipaddr'', ''null'', ''port'', ''null'',
     ''WHERE'', ''endid'', dec_int e]"
  "lex [] (sql_delete_fd k) = [''DELETE'', ''FROM'', ''CliInfo'', ''WHERE'', ''fd'', dec_int k]"
  "lex [] (sql_insert_udp e ip pt) = [''INSERT'', ''INTO'', ''CliInfo'', ''VALUES'', dec_int e, ''NULL'', dec_nat (unat ip), dec_nat (unat pt)]"
  "lex [] (sql_update_udp e ip pt) = [''UPDATE'', ''CliInfo'', ''SET'', ''fd'', ''NULL'', ''addr'', dec_nat (unat ip), ''port'',
     dec_nat (unat pt), ''WHERE'', ''endid'', dec_int e]"
  "lex [] (sql_delete_addr ip pt) = [''DELETE'', ''FROM'', ''CliInfo'', ''WHERE'', ''ipaddr'', dec_nat (unat ip), ''AND'', ''port'', dec_nat (unat pt)]"
  "lex [] (sql_select e) = [''SELECT'', ''*'', ''FROM'', ''CliInfo'', ''WHERE'', ''endid'', dec_int e]"
  "lex [] sql_select_all = [''SELECT'', ''*'', ''FROM'', ''CliInfo'']"
  unfolding sql_insert_tcp_def sql_update_tcp_def sql_delete_fd_def sql_insert_udp_def sql_update_udp_def sql_delete_addr_def
    sql_select_def sql_select_all_def
  by (simp_all add: lexing)

lemma num_dec [simp]: "num (dec_int i) = i" "num (dec_nat n) = int n"
  by (simp_all add: num_def dec_nat_int)

lemma dec_not_NULL: "dec_int i \<noteq> ''NULL''" "dec_nat n \<noteq> ''NULL''"
proof -
  have N: "\<not> is_digit (CHR ''N'')" by (simp add: is_digit_def)
  show n: "dec_nat n \<noteq> ''NULL''" for n using dec_nat_digits [of "CHR ''N''" n] N by auto
  show "dec_int i \<noteq> ''NULL''" using n by (auto simp: dec_int_def)
qed

lemma column_dec [simp]: "column (dec_int i) = Some i" "column (dec_nat n) = Some (int n)" "column ''NULL'' = None"
  by (simp_all add: column_def dec_not_NULL)

section \<open>The laws\<close>

lemma map_of_keep: "map_of (keep P rows) = map_of rows |` {e. P e}"
  by (induction rows) (auto simp: keep_def restrict_map_def fun_eq_iff)

lemma holds_set: "{e. holds rows Q e} = {e. \<forall>l. map_of rows e = Some l \<longrightarrow> Q l}"
  by (auto simp: holds_def split: option.splits)

lemma run_words_links:
  "run_words rows (lex [] (sql_insert_tcp e k)) =
     (if map_of rows e \<noteq> None then (SQLITE_CONSTRAINT, [], rows) else (SQLITE_OK, [], (e, tcp_link k) # rows))"
  "run_words rows (lex [] (sql_update_tcp e k)) = (SQLITE_OK, [], if map_of rows e = None then rows else (e, tcp_link k) # rows)"
  "run_words rows (lex [] (sql_insert_udp e ip pt)) =
     (if map_of rows e \<noteq> None then (SQLITE_CONSTRAINT, [], rows) else (SQLITE_OK, [], (e, udp_link ip pt) # rows))"
  "run_words rows (lex [] (sql_update_udp e ip pt)) = (SQLITE_ERROR, [], rows)"
  "run_words rows (lex [] (sql_delete_fd k)) = (SQLITE_OK, [], keep (holds rows (\<lambda>l. fst l \<noteq> Some k)) rows)"
  "run_words rows (lex [] (sql_delete_addr ip pt)) =
     (SQLITE_OK, [], keep (holds rows (\<lambda>l. snd l \<noteq> (Some (unat ip), Some (unat pt)))) rows)"
  "run_words rows (lex [] (sql_select e)) = (SQLITE_OK, case map_of rows e of None \<Rightarrow> [] | Some l \<Rightarrow> [row_text e l], rows)"
  "run_words rows (lex [] sql_select_all) = (SQLITE_OK, map (\<lambda>e. row_text e (the (map_of rows e))) (remdups (map fst rows)), rows)"
  unfolding words run_words_def Let_def by (simp_all add: tcp_link_def udp_link_def split: option.split)

lemma mini_laws: "sqlite_laws mini_exec mini_tab"
proof -
  have tab: "mini_tab db = Some t \<longleftrightarrow> (\<exists>rows. db = Some rows \<and> t = map_of rows)" for db t
    by (auto simp: mini_tab_def)
  have none: "mini_tab db = None \<longleftrightarrow> db = None" for db by (simp add: mini_tab_def)
  show ?thesis
    unfolding sqlite_laws_def tab none
    by (auto simp: mini_exec_def mini_tab_def run_words_links reg_tcp_def reg_udp_def drop_fd_def drop_addr_def map_of_keep holds_set
        finite_dom_map_of dom_map_of_conv_image_fst domIff) (rule exI, rule conjI, rule refl, simp)
qed

section \<open>Runs of operations\<close>

datatype db_op = Add_tcp int int | Add_udp int "32 word" "16 word" | Del_fd int | Del_addr "32 word" "16 word" | Get int

text \<open>The result of a lookup is the handle; the others have none.\<close>

fun db_step :: "'db sqlite \<Rightarrow> 'db db_env \<Rightarrow> db_op \<Rightarrow> 'db gptr \<Rightarrow> (socket_handle_t option \<times> 'db gptr) option" where
  "db_step ex opn (Add_tcp e k) sql = map_option (\<lambda>(_, sql). (None, sql)) (add_tcp_cli_to_database ex opn e k sql)"
| "db_step ex opn (Add_udp e ip pt) sql = map_option (\<lambda>(_, sql). (None, sql)) (add_udp_cli_to_database ex opn e ip pt sql)"
| "db_step ex opn (Del_fd k) sql = map_option (\<lambda>(_, sql). (None, sql)) (del_tcp_cli_from_database_by_fd ex opn k sql)"
| "db_step ex opn (Del_addr ip pt) sql = map_option (\<lambda>(_, sql). (None, sql)) (del_udp_cli_from_database_by_ipaddr ex opn ip pt sql)"
| "db_step ex opn (Get e) sql = map_option snd (get_cli_by_endid ex opn e (Some zero_handle) sql)"

fun db_run :: "'db sqlite \<Rightarrow> 'db db_env \<Rightarrow> db_op list \<Rightarrow> 'db gptr \<Rightarrow> (socket_handle_t option list \<times> 'db gptr) option" where
  "db_run ex opn [] sql = Some ([], sql)"
| "db_run ex opn (x # xs) sql = do {
     (r, sql) \<leftarrow> db_step ex opn x sql;
     (rs, sql) \<leftarrow> db_run ex opn xs sql;
     Some (r # rs, sql) }"

text \<open>
  The same on a map. A UDP registration of a known id is without effect; a lookup of an entry whose address does not
  read back is undefined.
\<close>

fun tab_step :: "db_op \<Rightarrow> (int \<rightharpoonup> link) \<Rightarrow> (socket_handle_t option \<times> (int \<rightharpoonup> link)) option" where
  "tab_step (Add_tcp e k) t = Some (None, t(e \<mapsto> tcp_link k))"
| "tab_step (Add_udp e ip pt) t = Some (None, if e \<in> dom t then t else t(e \<mapsto> udp_link ip pt))"
| "tab_step (Del_fd k) t = Some (None, drop_fd k t)"
| "tab_step (Del_addr ip pt) t = Some (None, drop_addr ip pt t)"
| "tab_step (Get e) t =
     (if (case t e of None \<Rightarrow> True | Some l \<Rightarrow> reads_back l) then Some (Some (handle_of (t e)), t) else None)"

fun tab_run :: "db_op list \<Rightarrow> (int \<rightharpoonup> link) \<Rightarrow> (socket_handle_t option list \<times> (int \<rightharpoonup> link)) option" where
  "tab_run [] t = Some ([], t)"
| "tab_run (x # xs) t = do { (r, t) \<leftarrow> tab_step x t; (rs, t) \<leftarrow> tab_run xs t; Some (r # rs, t) }"

text \<open>The numbers are those of C's \<open>int\<close>.\<close>

fun op_ok :: "db_op \<Rightarrow> bool" where
  "op_ok (Add_tcp e k) \<longleftrightarrow> int32 e \<and> int32 k"
| "op_ok (Add_udp e ip pt) \<longleftrightarrow> int32 e"
| "op_ok (Del_fd k) \<longleftrightarrow> int32 k"
| "op_ok (Del_addr ip pt) \<longleftrightarrow> True"
| "op_ok (Get e) \<longleftrightarrow> int32 e"

fun low_address :: "db_op \<Rightarrow> bool" where
  "low_address (Add_udp e ip pt) \<longleftrightarrow> unat ip < 2 ^ 31"
| "low_address x \<longleftrightarrow> True"

definition all_links :: "(int \<rightharpoonup> link) \<Rightarrow> bool" where
  "all_links t \<longleftrightarrow> (\<forall>e l. t e = Some l \<longrightarrow> link_ok e l)"

definition all_read_back :: "(int \<rightharpoonup> link) \<Rightarrow> bool" where
  "all_read_back t \<longleftrightarrow> (\<forall>e l. t e = Some l \<longrightarrow> reads_back l)"

lemma all_linksD: "all_links t \<Longrightarrow> t e = Some l \<Longrightarrow> link_ok e l"
  unfolding all_links_def by blast

lemma all_read_backD: "all_read_back t \<Longrightarrow> t e = Some l \<Longrightarrow> reads_back l"
  unfolding all_read_back_def by blast

lemma all_links_changes:
  assumes "all_links t"
  shows "int32 e \<Longrightarrow> int32 k \<Longrightarrow> all_links (reg_tcp e k t)" "int32 e \<Longrightarrow> all_links (reg_udp e ip pt t)"
    "all_links (drop_fd k t)" "all_links (drop_addr ip pt t)"
  using assms by (auto simp: all_links_def reg_tcp_def reg_udp_def drop_fd_def drop_addr_def restrict_map_def
      simp del: split_paired_All)

lemma all_read_back_upd [simp]: "all_read_back Map.empty" "all_read_back t \<Longrightarrow> reads_back l \<Longrightarrow> all_read_back (t(e \<mapsto> l))"
  by (simp_all add: all_read_back_def del: split_paired_All)

lemma all_read_back_changes:
  assumes "all_read_back t"
  shows "all_read_back (reg_tcp e k t)" "unat ip < 2 ^ 31 \<Longrightarrow> all_read_back (reg_udp e ip pt t)"
    "all_read_back (drop_fd k t)" "all_read_back (drop_addr ip pt t)"
  using assms by (auto simp: all_read_back_def reg_tcp_def reg_udp_def drop_fd_def drop_addr_def restrict_map_def
      simp del: split_paired_All)

lemma tab_step_changes:
  "tab_step (Add_tcp e k) t = Some (None, reg_tcp e k t)" "tab_step (Add_udp e ip pt) t = Some (None, reg_udp e ip pt t)"
  by (simp_all add: reg_tcp_def reg_udp_def)

text \<open>Both sides of a step: undefined together, or both defined and related.\<close>

definition db_same :: "('db \<Rightarrow> (int \<rightharpoonup> link) option) \<Rightarrow> ('r \<times> 'db gptr) option \<Rightarrow> ('r \<times> (int \<rightharpoonup> link)) option \<Rightarrow> bool" where
  "db_same tab c a \<longleftrightarrow> (case a of None \<Rightarrow> c = None | Some (r, t) \<Rightarrow> \<exists>sql. c = Some (r, sql) \<and> db_rep tab sql t)"

lemma db_step_ok:
  assumes "sqlite_laws ex tab" "db_new tab opn" "db_rep tab sql t" "all_links t" "op_ok x"
  shows "db_same tab (db_step ex opn x sql) (tab_step x t) \<and> (\<forall>r t'. tab_step x t = Some (r, t') \<longrightarrow> all_links t')"
proof (cases x)
  case (Add_tcp e k)
  then show ?thesis
    using add_tcp_ok [OF assms(1-3), of e k] assms(5) all_links_changes(1) [OF assms(4)] tab_step_changes(1) [of e k t]
    by (auto simp: db_same_def simp del: tab_step.simps)
next
  case (Add_udp e ip pt)
  then show ?thesis
    using add_udp_ok [OF assms(1-3), of e ip pt] assms(5) all_links_changes(2) [OF assms(4)] tab_step_changes(2) [of e ip pt t]
    by (auto simp: db_same_def simp del: tab_step.simps)
next
  case (Del_fd k)
  then show ?thesis using del_fd_ok [OF assms(1-3), of k] assms(5) all_links_changes(3) [OF assms(4)] by (auto simp: db_same_def)
next
  case (Del_addr ip pt)
  then show ?thesis using del_addr_ok [OF assms(1-3), of ip pt] all_links_changes(4) [OF assms(4)] by (auto simp: db_same_def)
next
  case (Get e)
  then have e: "int32 e" using assms(5) by simp
  show ?thesis
  proof (cases "\<exists>l. t e = Some l \<and> \<not> reads_back l")
    case True
    then obtain ip pt where "t e = Some (udp_link ip pt)" "unat ip \<ge> 2 ^ 31"
      using all_linksD [OF assms(4)] by (fastforce simp: link_ok_def)
    then show ?thesis using get_fault [OF assms(1-3) e] Get by (simp add: db_same_def)
  next
    case False
    then have "\<And>l. t e = Some l \<Longrightarrow> readable e l" using all_linksD [OF assms(4)] readable_iff by blast
    from get_ok [OF assms(1-3) e this] show ?thesis using Get False assms(4) by (auto simp: db_same_def split: option.splits)
  qed
qed

lemma tab_step_low:
  assumes "all_read_back t" "low_address x"
  shows "\<exists>r t'. tab_step x t = Some (r, t') \<and> all_read_back t'"
proof (cases x)
  case (Get e)
  then show ?thesis using assms(1) all_read_backD [OF assms(1), of e] by (auto split: option.splits)
qed (use assms all_read_back_changes [OF assms(1)] tab_step_changes in \<open>auto simp: reg_tcp_def reg_udp_def\<close>)

section \<open>Properties\<close>

text \<open>
  C4. The server's client table is a map from ids to connections and addresses, given what SQLite documents about the
  statements sent, and a database whose file could be opened anew. For every sequence of registrations,
  deletions and lookups the code and the map agree step by step: a lookup yields the handle of the entry, or an
  unset handle; a TCP registration replaces the entry of its id; a UDP registration of an id that is already
  there changes nothing, because the UPDATE statement names a column that does not exist; and the code is undefined
  exactly at a lookup of an entry whose address is beyond \<open>INT_MAX\<close>, so every call returns when all addresses
  are below 2^31.
\<close>

theorem client_table_refines_map:
  assumes "sqlite_laws ex tab" "db_new tab opn" "db_rep tab sql t" "all_links t" "\<forall>x \<in> set xs. op_ok x"
  shows "db_same tab (db_run ex opn xs sql) (tab_run xs t) \<and>
    (all_read_back t \<and> (\<forall>x \<in> set xs. low_address x) \<longrightarrow> db_run ex opn xs sql \<noteq> None)"
proof -
  have "db_same tab (db_run ex opn xs sql) (tab_run xs t)" using assms(3-5)
  proof (induction xs arbitrary: sql t)
    case (Cons x xs)
    have 1: "db_same tab (db_step ex opn x sql) (tab_step x t)" "\<And>r t'. tab_step x t = Some (r, t') \<Longrightarrow> all_links t'"
      using db_step_ok [OF assms(1,2) Cons.prems(1,2), of x] Cons.prems(3) by auto
    show ?case
    proof (cases "tab_step x t")
      case None
      then show ?thesis using 1(1) by (simp add: db_same_def)
    next
      case (Some p)
      obtain r t1 where p: "p = (r, t1)" by (cases p)
      obtain sql1 where c: "db_step ex opn x sql = Some (r, sql1)" "db_rep tab sql1 t1" using 1(1) Some p by (auto simp: db_same_def)
      have "db_same tab (db_run ex opn xs sql1) (tab_run xs t1)"
        using Cons.IH [OF c(2) 1(2)] Some p Cons.prems(3) by simp
      then show ?thesis using c(1) Some p by (auto simp: db_same_def split: option.splits prod.splits)
    qed
  qed (simp add: db_same_def)
  moreover have "tab_run xs t \<noteq> None" if "all_read_back t" "\<forall>x \<in> set xs. low_address x"
    using that
  proof (induction xs arbitrary: t)
    case (Cons x xs)
    obtain r t1 where 1: "tab_step x t = Some (r, t1)" "all_read_back t1" using tab_step_low [OF Cons.prems(1), of x] Cons.prems(2) by auto
    obtain rs t2 where "tab_run xs t1 = Some (rs, t2)" using Cons.IH [OF 1(2)] Cons.prems(2) by auto
    with 1(1) show ?case by simp
  qed simp
  ultimately show ?thesis by (auto simp: db_same_def split: option.splits)
qed

text \<open>A working directory, in which a database is left from an earlier run.\<close>

definition mini_open :: "table option db_env" where
  "mini_open = \<lparr>o_cwd = ''/tmp'', o_file = (\<lambda>p. Some (Some [(7, tcp_link 5)])), o_remove = True,
     o_open = (\<lambda>f. Ptr (case f of None \<Rightarrow> None | Some rows \<Rightarrow> rows))\<rparr>"

lemma mini_new: "db_new mini_tab mini_open"
  by (simp add: db_new_def mini_tab_def mini_open_def sql_fpath_def db_file_def)

lemma null_rep: "db_rep tab Null Map.empty" "all_links Map.empty"
  by (simp_all add: db_rep_def all_links_def)

text \<open>The client with id 7 changes from TCP to UDP and is not found under its new address.\<close>

theorem client_table_refines_map_witness:
  "\<exists>sql. db_run mini_exec mini_open [Add_tcp 7 5, Add_udp 7 16777343 99, Get 7, Add_udp 8 0xC800A8C0 88, Add_tcp 8 6, Get 8, Del_fd 6, Get 8] Null =
    Some ([None, None, Some (tcp_handle 5), None, None, Some (tcp_handle 6), None, Some zero_handle], sql)"
proof -
  let ?xs = "[Add_tcp 7 5, Add_udp 7 16777343 99, Get 7, Add_udp 8 0xC800A8C0 88, Add_tcp 8 6, Get 8, Del_fd 6, Get 8]"
  have "\<forall>x \<in> set ?xs. op_ok x" by (simp add: int32_def)
  moreover have "\<exists>t. tab_run ?xs Map.empty = Some ([None, None, Some (tcp_handle 5), None, None, Some (tcp_handle 6), None, Some zero_handle], t)"
    by (simp add: drop_fd_def restrict_map_def) (simp add: tcp_link_def)
  ultimately show ?thesis
    using client_table_refines_map [OF mini_laws mini_new null_rep, of ?xs] by (auto simp: db_same_def)
qed

text \<open>
  C28. A client at an address whose last byte is 128 or more cannot be looked up: the address is stored as an
  unsigned number and read back with \<open>atoi\<close>, which is undefined for numbers beyond \<open>INT_MAX\<close>.
\<close>

theorem high_address_lookup_undefined:
  assumes "sqlite_laws ex tab" "db_new tab opn" "db_rep tab sql t" "e \<notin> dom t" "int32 e" "unat ip \<ge> 2 ^ 31"
  shows "\<exists>sql'. add_udp_cli_to_database ex opn e ip pt sql = Some (0, sql') \<and>
    get_cli_by_endid ex opn e (Some zero_handle) sql' = None"
proof -
  obtain sql' where sql': "add_udp_cli_to_database ex opn e ip pt sql = Some (0, sql')" "db_rep tab sql' (reg_udp e ip pt t)"
    using add_udp_ok [OF assms(1-3,5), of ip pt] by blast
  then have "get_cli_by_endid ex opn e (Some zero_handle) sql' = None"
    using get_fault [OF assms(1,2) sql'(2) assms(5), of ip pt] assms(4,6) by (simp add: reg_udp_def)
  with sql'(1) show ?thesis by blast
qed

text \<open>The address 192.168.0.200, in network byte order on a little-endian machine.\<close>

theorem high_address_lookup_undefined_witness:
  "\<exists>sql'. add_udp_cli_to_database mini_exec mini_open 7 0xC800A8C0 99 Null = Some (0, sql') \<and>
    get_cli_by_endid mini_exec mini_open 7 (Some zero_handle) sql' = None"
  by (rule high_address_lookup_undefined [OF mini_laws mini_new null_rep(1)]) (simp_all add: int32_def)

end
