(* ===== verification/Sock_Tasks.thy ===== *)
theory Sock_Tasks
  imports Socket_Pool
begin

text \<open>
  The pools of the \<open>socket\<close> server and client (\<open>server_pool.c\<close>, \<open>client_pool.c\<close>): pools that are created on
  first use, and the two calls that add a task. A call is a caller of \<open>Socket_Pool\<close> that takes its
  steps to the end without another thread in between. Two threads call a pool, 0 and 1.
\<close>

section \<open>A whole call\<close>

text \<open>The steps of caller \<open>i\<close> until it is idle again; \<open>p\<close> is the address of the new queue node. Six steps are enough.\<close>

fun finish_call :: "nat \<Rightarrow> nat \<Rightarrow> addr \<Rightarrow> 'h spool \<Rightarrow> 'h spool option" where
  "finish_call 0 i p s = (if s_adders s ! i = C_Idle then Some s else None)"
| "finish_call (Suc n) i p s =
     (if s_adders s ! i = C_Idle then Some s
      else do { s \<leftarrow> add_task_to_pool_step i p (s_adders s ! i) s; finish_call n i p s })"

text \<open>The pool behind the global pointer, created with \<open>n\<close> threads when the pointer is NULL; \<open>q\<close> is its queue.\<close>

definition get_pool :: "nat \<Rightarrow> addr \<Rightarrow> 'h spool option \<Rightarrow> 'h spool" where
  "get_pool n q pool = (case pool of Some s \<Rightarrow> s | None \<Rightarrow> spool_init n 2 q)"

text \<open>What \<open>malloc\<close> returns in a call: the queue's head, the copy of the argument, the queue's node.\<close>

record task_alloc =
  tk_queue :: addr
  tk_arg :: addr
  tk_node :: addr

definition add_task_use :: "nat \<Rightarrow> nat \<Rightarrow> task_alloc \<Rightarrow> 'h \<Rightarrow> addr \<Rightarrow> 'h spool option \<Rightarrow> 'h spool option option" where
  "add_task_use n i al h a pool = do {
     s \<leftarrow> add_task_to_pool_use_arg_mem h a i (get_pool n (tk_queue al) pool);
     s \<leftarrow> finish_call 6 i (tk_node al) s;
     Some (Some s) }"

definition add_task_release :: "nat \<Rightarrow> nat \<Rightarrow> task_alloc \<Rightarrow> 'h \<Rightarrow> byte list \<Rightarrow> nat \<Rightarrow> 'h spool option \<Rightarrow> 'h spool option option" where
  "add_task_release n i al h arg' sz pool = do {
     s \<leftarrow> add_task_to_pool_release_arg_mem h (Some arg') sz (tk_arg al) i (get_pool n (tk_queue al) pool);
     s \<leftarrow> finish_call 6 i (tk_node al) s;
     Some (Some s) }"

definition add_task_to_server_pool_use_arg_mem :: "nat \<Rightarrow> task_alloc \<Rightarrow> 'h \<Rightarrow> addr \<Rightarrow> 'h spool option \<Rightarrow> 'h spool option option" where
  "add_task_to_server_pool_use_arg_mem i al h a pool = add_task_use 6 i al h a pool"

definition add_task_to_server_pool_release_arg_mem ::
  "nat \<Rightarrow> task_alloc \<Rightarrow> 'h \<Rightarrow> byte list \<Rightarrow> nat \<Rightarrow> 'h spool option \<Rightarrow> 'h spool option option" where
  "add_task_to_server_pool_release_arg_mem i al h arg' sz pool = add_task_release 6 i al h arg' sz pool"

definition create_client_thread_pool :: "addr \<Rightarrow> 'h spool option \<Rightarrow> 'h spool option" where
  "create_client_thread_pool q pool = (if pool \<noteq> None then pool else Some (spool_init 3 2 q))"

definition destroy_client_thread_pool :: "'h spool option \<Rightarrow> 'h spool option" where
  "destroy_client_thread_pool pool = pool"

definition add_task_to_client_pool_use_arg_mem :: "nat \<Rightarrow> task_alloc \<Rightarrow> 'h \<Rightarrow> addr \<Rightarrow> 'h spool option \<Rightarrow> 'h spool option option" where
  "add_task_to_client_pool_use_arg_mem i al h a pool = add_task_use 3 i al h a pool"

definition add_task_to_client_pool_release_arg_mem ::
  "nat \<Rightarrow> task_alloc \<Rightarrow> 'h \<Rightarrow> byte list \<Rightarrow> nat \<Rightarrow> 'h spool option \<Rightarrow> 'h spool option option" where
  "add_task_to_client_pool_release_arg_mem i al h arg' sz pool = add_task_release 3 i al h arg' sz pool"

section \<open>The tasks that wait\<close>

text \<open>A task with the argument its handler will see: a copy that the pool owns, or none.\<close>

definition arg_seen :: "(addr \<rightharpoonup> byte list) \<Rightarrow> 'h task_t \<Rightarrow> 'h \<times> byte list option \<Rightarrow> bool" where
  "arg_seen as t x \<longleftrightarrow> handler t = fst x \<and>
     (case snd x of None \<Rightarrow> \<not> owned t | Some b \<Rightarrow> owned t \<and> as (arg t) = Some b)"

definition idle_worker :: "'h kpc \<Rightarrow> bool" where
  "idle_worker w \<longleftrightarrow> w = K_Lock \<or> w = K_Wait \<or> w = K_Woken"

text \<open>
  Between calls: nobody holds the mutex or is inside a call, all \<open>n\<close> workers are idle, the queue holds the tasks
  \<open>ts\<close>, the argument copies are those of these tasks, each owned by one of them, and while there are tasks no worker
  waits for a wake-up.
\<close>

definition waiting :: "nat \<Rightarrow> 'h spool \<Rightarrow> ('h \<times> byte list option) list \<Rightarrow> bool" where
  "waiting n s ts \<longleftrightarrow> s_mutex s = None \<and> s_adders s = [C_Idle, C_Idle] \<and> length (s_workers s) = n \<and>
     (\<forall>w \<in> set (s_workers s). idle_worker w) \<and> (ts \<noteq> [] \<longrightarrow> K_Wait \<notin> set (s_workers s)) \<and>
     (\<exists>ds. squeue_inv s ds \<and> distinct (concat (map own ds)) \<and> dom (args s) = set (concat (map own ds)) \<and>
       list_all2 (arg_seen (args s)) ds ts)"

definition pool_waiting :: "nat \<Rightarrow> 'h spool option \<Rightarrow> ('h \<times> byte list option) list \<Rightarrow> bool" where
  "pool_waiting n pool ts \<longleftrightarrow> (case pool of None \<Rightarrow> ts = [] | Some s \<Rightarrow> waiting n s ts)"

definition task_alloc_fresh :: "task_alloc \<Rightarrow> 'h spool option \<Rightarrow> bool" where
  "task_alloc_fresh al pool \<longleftrightarrow> tk_arg al \<noteq> NULL \<and> tk_node al \<noteq> NULL \<and>
     (case pool of
        None \<Rightarrow> tk_queue al \<noteq> NULL \<and> tk_node al \<noteq> tk_queue al
      | Some s \<Rightarrow> tk_arg al \<notin> dom (args s) \<and> fresh (s_mem s) (tk_node al))"

lemma init_live: "q \<noteq> NULL \<Longrightarrow> live (s_mem (spool_init n k q :: 'h spool)) = {q} \<and> args (spool_init n k q :: 'h spool) = Map.empty"
proof -
  assume q: "q \<noteq> NULL"
  obtain m :: "'h task_t mem" where "INIT_LIST_HEAD q (mem_malloc q empty_mem) = Some m" "live m = insert q (live (empty_mem :: 'h task_t mem))"
    using head_init [of "empty_mem :: 'h task_t mem" q] q by (auto simp: empty_mem_def fresh_def)
  then show ?thesis by (simp add: spool_init_def init_task_queue_def empty_mem_def)
qed

lemma get_pool_ok:
  fixes pool :: "'h spool option"
  assumes "pool_waiting n pool ts" "task_alloc_fresh al pool"
  shows "waiting n (get_pool n (tk_queue al) pool) ts" "tk_arg al \<notin> dom (args (get_pool n (tk_queue al) pool))"
    "fresh (s_mem (get_pool n (tk_queue al) pool)) (tk_node al)"
proof -
  have "waiting n (get_pool n (tk_queue al) pool) ts \<and> tk_arg al \<notin> dom (args (get_pool n (tk_queue al) pool)) \<and>
    fresh (s_mem (get_pool n (tk_queue al) pool)) (tk_node al)"
  proof (cases pool)
    case None
    let ?s = "spool_init n 2 (tk_queue al) :: 'h spool"
    have q: "tk_queue al \<noteq> NULL" "tk_node al \<noteq> tk_queue al" "tk_node al \<noteq> NULL" "ts = []"
      using assms None by (auto simp: task_alloc_fresh_def pool_waiting_def)
    obtain ds where ds: "squeue_inv ?s ds" using spool_init_inv [OF q(1), of n 2] by (auto simp: spool_inv_def)
    moreover have "k_put ?s = []" "k_got ?s = []" by (simp_all add: spool_init_def)
    ultimately have "squeue_inv ?s []" by (auto simp: squeue_inv_def)
    moreover have "s_adders ?s = [C_Idle, C_Idle]" "s_mutex ?s = None" by (simp_all add: spool_init_def numeral_2_eq_2)
    moreover have "length (s_workers ?s) = n" "\<forall>w \<in> set (s_workers ?s). idle_worker w" "args ?s = Map.empty"
      by (auto simp: spool_init_def idle_worker_def)
    ultimately have "waiting n ?s []" by (auto simp: waiting_def)
    then show ?thesis using None q init_live [OF q(1), of n 2, where 'h = 'h] by (simp add: get_pool_def fresh_def)
  next
    case (Some s)
    then show ?thesis using assms by (simp add: get_pool_def pool_waiting_def task_alloc_fresh_def)
  qed
  then show "waiting n (get_pool n (tk_queue al) pool) ts" "tk_arg al \<notin> dom (args (get_pool n (tk_queue al) pool))"
    "fresh (s_mem (get_pool n (tk_queue al) pool)) (tk_node al)" by simp_all
qed

lemma squeue_inv_other [simp]:
  "squeue_inv (s\<lparr>s_adders := cs\<rparr>) ds = squeue_inv s ds" "squeue_inv (s\<lparr>args := as\<rparr>) ds = squeue_inv s ds"
  "squeue_inv (s\<lparr>s_adders := cs, args := as\<rparr>) ds = squeue_inv s ds"
  by (simp_all add: squeue_inv_def)

lemma finish_call_ok:
  assumes "s_mutex s = None" "i < 2" "s_adders s = [C_Idle, C_Idle][i := C_Lock t]"
    "squeue_inv s ds" "fresh (s_mem s) p"
  shows "\<exists>s'. finish_call 6 i p s = Some s' \<and> s_mutex s' = None \<and> s_adders s' = [C_Idle, C_Idle] \<and> args s' = args s \<and>
    squeue_inv s' (ds @ [t]) \<and> s_workers s' = map wake (s_workers s) \<and> k_ran s' = k_ran s"
proof -
  obtain m where m: "en_task_to_queue (s_queue s) (Some (Some t)) p (s_mem s) = Some (QUEUE_SUCCESS, m)"
    "squeue_inv (s\<lparr>s_mem := m, k_put := k_put s @ [t]\<rparr>) (ds @ [t])"
    using en_task_queue [OF assms(4,5)] by blast
  let ?s = "s\<lparr>s_mem := m, k_put := k_put s @ [t], cur_tasks_cnt := cur_tasks_cnt s + 1, s_mutex := None,
    s_adders := [C_Idle, C_Idle], s_workers := map wake (s_workers s)\<rparr>"
  have i: "i = 0 \<or> i = 1" using assms(2) by auto
  have "finish_call 6 i p s = Some ?s"
    using i assms(1,3) m(1) by (auto simp: numeral_eq_Suc wake_all_def)
  moreover have "squeue_inv ?s (ds @ [t])" using m(2) by (simp add: squeue_inv_def)
  ultimately show ?thesis by (intro exI [of _ ?s]) simp
qed

lemma idle_woken: "\<forall>w \<in> set ws. idle_worker w \<Longrightarrow> (\<forall>w \<in> set (map wake ws). idle_worker w) \<and> K_Wait \<notin> set (map wake ws)"
  by (auto simp: idle_worker_def dest: sym [of K_Wait])

lemma arg_seen_other: "arg_seen as t x \<Longrightarrow> a \<notin> dom as \<Longrightarrow> arg_seen (as(a \<mapsto> b)) t x"
  by (auto simp: arg_seen_def split: option.splits)

text \<open>Adding a task puts it, with a copy of its argument, behind the tasks that wait.\<close>

lemma add_task_release_ok:
  assumes "pool_waiting n pool ts" "task_alloc_fresh al pool" "i < 2" "0 < length b"
  shows "\<exists>pool'. add_task_release n i al h b (length b) pool = Some pool' \<and> pool_waiting n pool' (ts @ [(h, Some b)])"
proof -
  let ?s = "get_pool n (tk_queue al) pool" and ?t = "\<lparr>handler = h, arg = tk_arg al, arg_size = length b\<rparr>"
  note g = get_pool_ok [OF assms(1,2)]
  obtain ds where ds: "squeue_inv ?s ds" "list_all2 (arg_seen (args ?s)) ds ts" "distinct (concat (map own ds))"
    "dom (args ?s) = set (concat (map own ds))" and w: "s_mutex ?s = None" "s_adders ?s = [C_Idle, C_Idle]"
    and ws: "length (s_workers ?s) = n" "\<forall>w \<in> set (s_workers ?s). idle_worker w"
    using g(1) by (auto simp: waiting_def)
  let ?s1 = "put_adder i (C_Lock ?t) (?s\<lparr>args := (args ?s)(tk_arg al \<mapsto> b)\<rparr>)"
  have o: "owned ?t" using assms(2,4) by (simp add: owned_def task_alloc_fresh_def)
  have "add_task_to_pool_release_arg_mem h (Some b) (length b) (tk_arg al) i ?s = Some ?s1"
    using o assms(2) by (simp add: add_task_to_pool_release_arg_mem_def buf_read_def Let_def task_alloc_fresh_def)
  moreover obtain s2 where s2: "finish_call 6 i (tk_node al) ?s1 = Some s2" "s_mutex s2 = None" "s_adders s2 = [C_Idle, C_Idle]"
    "args s2 = (args ?s)(tk_arg al \<mapsto> b)" "squeue_inv s2 (ds @ [?t])" "s_workers s2 = map wake (s_workers ?s)"
    using finish_call_ok [of ?s1 i ?t ds "tk_node al"] w ds(1) g(3) assms(3) by auto
  moreover have "list_all2 (arg_seen (args s2)) (ds @ [?t]) (ts @ [(h, Some b)])"
  proof (rule list_all2_appendI)
    show "list_all2 (arg_seen (args s2)) ds ts"
      using ds(2) by (rule list.rel_mono_strong) (simp only: s2(4) arg_seen_other [OF _ g(2)])
  qed (use o in \<open>simp add: s2(4) arg_seen_def\<close>)
  moreover have "distinct (concat (map own (ds @ [?t])))" "dom (args s2) = set (concat (map own (ds @ [?t])))"
    using ds(3,4) g(2) o by (auto simp: own_def s2(4))
  ultimately have "waiting n s2 (ts @ [(h, Some b)])" using ws idle_woken [OF ws(2)] unfolding waiting_def by (metis length_map)
  then show ?thesis using s2(1) \<open>add_task_to_pool_release_arg_mem h _ _ _ _ _ = _\<close>
    by (simp add: add_task_release_def pool_waiting_def)
qed

lemma add_task_use_ok:
  assumes "pool_waiting n pool ts" "task_alloc_fresh al pool" "i < 2"
  shows "\<exists>pool'. add_task_use n i al h a pool = Some pool' \<and> pool_waiting n pool' (ts @ [(h, None)])"
proof -
  let ?s = "get_pool n (tk_queue al) pool" and ?t = "\<lparr>handler = h, arg = a, arg_size = 0\<rparr>"
  note g = get_pool_ok [OF assms(1,2)]
  obtain ds where ds: "squeue_inv ?s ds" "list_all2 (arg_seen (args ?s)) ds ts" "distinct (concat (map own ds))"
    "dom (args ?s) = set (concat (map own ds))" and w: "s_mutex ?s = None" "s_adders ?s = [C_Idle, C_Idle]"
    and ws: "length (s_workers ?s) = n" "\<forall>w \<in> set (s_workers ?s). idle_worker w"
    using g(1) by (auto simp: waiting_def)
  let ?s1 = "put_adder i (C_Lock ?t) ?s"
  obtain s2 where s2: "finish_call 6 i (tk_node al) ?s1 = Some s2" "s_mutex s2 = None" "s_adders s2 = [C_Idle, C_Idle]"
    "args s2 = args ?s" "squeue_inv s2 (ds @ [?t])" "s_workers s2 = map wake (s_workers ?s)"
    using finish_call_ok [of ?s1 i ?t ds "tk_node al"] w ds(1) g(3) assms(3) by auto
  have o: "own ?t = []" by (simp add: own_def owned_def)
  have "list_all2 (arg_seen (args s2)) (ds @ [?t]) (ts @ [(h, None)])"
    by (rule list_all2_appendI) (use ds(2) s2(4) in \<open>simp_all add: arg_seen_def owned_def\<close>)
  moreover have "distinct (concat (map own (ds @ [?t])))" "dom (args s2) = set (concat (map own (ds @ [?t])))"
    using ds(3,4) o by (simp_all add: s2(4))
  ultimately have "waiting n s2 (ts @ [(h, None)])" using ws s2 idle_woken [OF ws(2)] unfolding waiting_def by (metis length_map)
  then show ?thesis using s2(1)
    by (simp add: add_task_use_def add_task_to_pool_use_arg_mem_def pool_waiting_def)
qed

section \<open>A worker\<close>

text \<open>
  An idle worker that runs until it has called the handler of a task, or waits for a wake-up, for which six steps are
  enough. The second result is the
  task; its memory is freed by the next step, after the handler has returned.
\<close>

fun run_worker :: "nat \<Rightarrow> nat \<Rightarrow> 'h spool \<Rightarrow> 'h spool option" where
  "run_worker 0 i s = Some s"
| "run_worker (Suc n) i s = (if s_workers s ! i = K_Wait then Some s else do { s \<leftarrow> spool_step (Step_thread i) s; run_worker n i s })"

definition take_task :: "nat \<Rightarrow> 'h spool \<Rightarrow> ('h task_t option \<times> 'h spool) option" where
  "take_task i s = do {
     s \<leftarrow> run_worker 6 i s;
     Some (case s_workers s ! i of K_Free t \<Rightarrow> Some t | _ \<Rightarrow> None, s) }"

lemma take_task_none:
  assumes "waiting n s []" "i < n"
  shows "\<exists>s'. take_task i s = Some (None, s') \<and> waiting n s' []"
proof -
  have w: "s_mutex s = None" "squeue_inv s []" "i < length (s_workers s)" "dom (args s) = {}" "s_adders s = [C_Idle, C_Idle]"
    "length (s_workers s) = n" "\<forall>w \<in> set (s_workers s). idle_worker w"
    using assms by (auto simp: waiting_def)
  have e: "de_task_from_queue (s_queue s) (Some None) (s_mem s) = Some (QUEUE_EMPTY, Some None, s_mem s)"
    using w(2) by (cases rule: de_task_cases) auto
  let ?s = "put_worker i K_Wait (s\<lparr>s_mem := s_mem s, s_mutex := None\<rparr>)"
  have same: "s = ?s" if "s_workers s ! i = K_Wait"
  proof -
    have "(s_workers s)[i := K_Wait] = s_workers s" using that list_update_id [of "s_workers s" i] by simp
    then show ?thesis using w(1) by simp
  qed
  have "s_workers s ! i = K_Lock \<or> s_workers s ! i = K_Wait \<or> s_workers s ! i = K_Woken" using w(3,7) by (auto simp: idle_worker_def)
  then have "take_task i s = Some (None, ?s)"
    using w(1,3) e same by (auto simp: take_task_def numeral_eq_Suc)
  moreover have "\<forall>w \<in> set ((s_workers s)[i := K_Wait]). idle_worker w"
    using w(7) set_update_subset_insert [of "s_workers s" i K_Wait] by (auto simp: idle_worker_def)
  then have "waiting n ?s []"
    using w by (simp add: waiting_def squeue_inv_def)
  ultimately show ?thesis by blast
qed

text \<open>It takes the oldest task, the handler sees the argument given with it, and afterwards the others wait.\<close>

lemma take_task_ok:
  assumes "waiting n s ((h, x) # ts)" "i < n"
  shows "\<exists>t s1 s2. take_task i s = Some (Some t, s1) \<and> arg_seen (args s1) t (h, x) \<and>
    spool_step (Step_thread i) s1 = Some s2 \<and> waiting n s2 ts"
proof -
  obtain ds where w: "s_mutex s = None" "squeue_inv s ds" "list_all2 (arg_seen (args s)) ds ((h, x) # ts)" "i < length (s_workers s)"
    "distinct (concat (map own ds))" "dom (args s) = set (concat (map own ds))" "s_adders s = [C_Idle, C_Idle]"
    "length (s_workers s) = n" "\<forall>w \<in> set (s_workers s). idle_worker w" "K_Wait \<notin> set (s_workers s)"
    using assms by (auto simp: waiting_def)
  then obtain t ds' where ds: "ds = t # ds'" "arg_seen (args s) t (h, x)" "list_all2 (arg_seen (args s)) ds' ts" by (cases ds) auto
  obtain m where m: "de_task_from_queue (s_queue s) (Some None) (s_mem s) = Some (QUEUE_SUCCESS, Some (Some t), m)"
    "squeue_inv (s\<lparr>s_mem := m, k_got := k_got s @ [t]\<rparr>) ds'"
    using w(2) ds(1) by (cases rule: de_task_cases) auto
  let ?s1 = "put_worker i (K_Free t) (s\<lparr>s_mem := m, k_got := k_got s @ [t], cur_tasks_cnt := cur_tasks_cnt s - 1,
    s_mutex := None, k_ran := k_ran s @ [(t, args s (arg t))]\<rparr>)"
  have "s_workers s ! i = K_Lock \<or> s_workers s ! i = K_Woken" using w(4,9,10) by (metis idle_worker_def nth_mem)
  then have take1: "take_task i s = Some (Some t, ?s1)"
    using w(1,4) m(1) by (auto simp: take_task_def numeral_eq_Suc)
  let ?as = "if owned t then (args s)(arg t := None) else args s"
  let ?s2 = "put_worker i K_Lock (?s1\<lparr>args := ?as\<rparr>)"
  have "owned t \<Longrightarrow> arg t \<in> dom (args s)" using w(6) ds(1) by (simp add: own_def)
  then have step: "spool_step (Step_thread i) ?s1 = Some ?s2"
    using w(4) by (auto simp: domIff)
  have "\<forall>w \<in> set (s_workers ?s2). idle_worker w"
    using w(9) set_update_subset_insert [of "s_workers s" i K_Lock] by (auto simp: idle_worker_def)
  moreover have "squeue_inv ?s2 ds'" using m(2) by (simp add: squeue_inv_def)
  moreover have "distinct (concat (map own ds'))" "dom (args ?s2) = set (concat (map own ds'))"
    using w(5,6) ds(1) by (auto simp: own_def split: if_splits)
  moreover have "list_all2 (arg_seen (args ?s2)) ds' ts"
  proof (rule list_all2_all_nthI)
    show "length ds' = length ts" using ds(3) by (rule list_all2_lengthD)
    fix k assume k: "k < length ds'"
    then have a: "arg_seen (args s) (ds' ! k) (ts ! k)" using ds(3) by (simp add: list_all2_nthD)
    have "owned (ds' ! k) \<Longrightarrow> owned t \<Longrightarrow> arg (ds' ! k) \<noteq> arg t"
      using w(5) nth_mem [OF k] unfolding ds(1) by (auto simp: own_def dest: bspec [of _ _ "ds' ! k"])
    with a show "arg_seen (args ?s2) (ds' ! k) (ts ! k)" by (auto simp: arg_seen_def split: option.splits)
  qed
  moreover have "K_Wait \<notin> set (s_workers ?s2)" using no_wait_update [OF w(10), of K_Lock i] by simp
  ultimately have "waiting n ?s2 ts" using w(7,8) unfolding waiting_def by fastforce
  with take1 step ds(2) show ?thesis by fastforce
qed

section \<open>The blocks a pool uses\<close>

definition pool_uses :: "'h spool option \<Rightarrow> addr set" where
  "pool_uses pool = (case pool of None \<Rightarrow> {} | Some s \<Rightarrow> live (s_mem s) \<union> dom (args s))"

text \<open>Blocks that are in use nowhere are fresh.\<close>

lemma unused_fresh:
  "{tk_queue al, tk_arg al, tk_node al} \<inter> (insert NULL (pool_uses pool)) = {} \<Longrightarrow> tk_node al \<noteq> tk_queue al \<Longrightarrow> task_alloc_fresh al pool"
  by (auto simp: task_alloc_fresh_def pool_uses_def fresh_def split: option.splits)

lemma task_queue_live:
  "en_task_to_queue q t p m = Some (r, m') \<Longrightarrow> live m' \<subseteq> insert p (live m)"
  "de_task_from_queue q out m = Some (r, out', m') \<Longrightarrow> live m' \<subseteq> live m"
proof -
  show "en_task_to_queue q t p m = Some (r, m') \<Longrightarrow> live m' \<subseteq> insert p (live m)"
    using writes_live(4) [of p m]
    by (fastforce simp: en_task_to_queue_def Let_def bind_eq_Some_conv split: option.splits if_splits
        dest!: writes_live(3) list_ops_live(1))
  show "de_task_from_queue q out m = Some (r, out', m') \<Longrightarrow> live m' \<subseteq> live m"
    by (fastforce simp: de_task_from_queue_def bind_eq_Some_conv split: if_splits dest!: writes_live(5) list_ops_live(3))
qed

lemma add_step_uses:
  "add_task_to_pool_step i p c s = Some s' \<Longrightarrow> live (s_mem s') \<subseteq> insert p (live (s_mem s)) \<and> args s' = args s"
  by (cases c) (auto simp: wake_all_def bind_eq_Some_conv split: if_splits dest!: task_queue_live(1))

lemma finish_call_uses:
  "finish_call n i p s = Some s' \<Longrightarrow> live (s_mem s') \<subseteq> insert p (live (s_mem s)) \<and> args s' = args s"
proof (induction n arbitrary: s)
  case (Suc n)
  show ?case
  proof (cases "s_adders s ! i = C_Idle")
    case False
    then obtain s1 where "add_task_to_pool_step i p (s_adders s ! i) s = Some s1" "finish_call n i p s1 = Some s'"
      using Suc.prems by (auto simp: bind_eq_Some_conv)
    then show ?thesis using Suc.IH [of s1] add_step_uses [of i p _ s s1] by fastforce
  qed (use Suc.prems in auto)
qed (auto split: if_splits)

lemma uses_chain:
  "L2 \<subseteq> insert p L1 \<Longrightarrow> A2 = A1 \<Longrightarrow> P = L2 \<union> A2 \<Longrightarrow> L1 = L0 \<Longrightarrow> A1 \<subseteq> insert a A0 \<Longrightarrow> L0 \<union> A0 \<subseteq> insert q U \<Longrightarrow>
   P \<subseteq> U \<union> {q, a, p}"
  by auto

lemma add_task_release_uses:
  assumes "add_task_release n i al h b sz pool = Some pool'"
  shows "pool_uses pool' \<subseteq> pool_uses pool \<union> {tk_queue al, tk_arg al, tk_node al}"
proof -
  let ?s = "get_pool n (tk_queue al) pool"
  obtain s1 s2 where s: "add_task_to_pool_release_arg_mem h (Some b) sz (tk_arg al) i ?s = Some s1"
    "finish_call 6 i (tk_node al) s1 = Some s2" "pool' = Some s2"
    using assms by (auto simp: add_task_release_def bind_eq_Some_conv)
  have "live (s_mem s1) = live (s_mem ?s)" "dom (args s1) \<subseteq> insert (tk_arg al) (dom (args ?s))"
    using s(1) by (auto simp: add_task_to_pool_release_arg_mem_def Let_def bind_eq_Some_conv split: if_splits option.splits)
  moreover have "live (s_mem ?s) \<union> dom (args ?s) \<subseteq> insert (tk_queue al) (pool_uses pool)"
  proof (cases pool)
    case None
    have "live (s_mem ?s) \<subseteq> {tk_queue al}"
    proof (cases "INIT_LIST_HEAD (tk_queue al) (mem_malloc (tk_queue al) (empty_mem :: 'a task_t mem))")
      case (Some m)
      then show ?thesis using None writes_live(4) [of "tk_queue al" "empty_mem :: 'a task_t mem"] list_ops_live(4) [OF Some]
        by (simp add: get_pool_def spool_init_def init_task_queue_def empty_mem_def)
    qed (simp add: None get_pool_def spool_init_def init_task_queue_def empty_mem_def)
    then show ?thesis using None by (auto simp: get_pool_def spool_init_def)
  qed (auto simp: get_pool_def pool_uses_def)
  moreover have "live (s_mem s2) \<subseteq> insert (tk_node al) (live (s_mem s1))" "dom (args s2) = dom (args s1)"
    using finish_call_uses [OF s(2)] by simp_all
  moreover have "pool_uses pool' = live (s_mem s2) \<union> dom (args s2)" using s(3) by (simp add: pool_uses_def)
  ultimately show ?thesis by (rule uses_chain [rotated 3])
qed

lemma worker_step_uses:
  "spool_step (Step_thread i) s = Some s' \<Longrightarrow> live (s_mem s') \<subseteq> live (s_mem s) \<and> dom (args s') \<subseteq> dom (args s)"
  by (cases "s_workers s ! i") (auto simp: bind_eq_Some_conv split: if_splits dest!: task_queue_live(2))

lemma worker_frees: "spool_step (Step_thread i) s = Some s' \<Longrightarrow> pool_uses (Some s') \<subseteq> pool_uses (Some s)"
  using worker_step_uses [of i s s'] by (simp add: pool_uses_def le_supI1 le_supI2)

lemma worker_run_uses:
  "run_worker n i s = Some s' \<Longrightarrow> live (s_mem s') \<subseteq> live (s_mem s) \<and> dom (args s') \<subseteq> dom (args s)"
proof (induction n arbitrary: s)
  case (Suc n)
  show ?case
  proof (cases "s_workers s ! i = K_Wait")
    case False
    then obtain s1 where "spool_step (Step_thread i) s = Some s1" "run_worker n i s1 = Some s'"
      using Suc.prems by (auto simp: bind_eq_Some_conv simp del: spool_step.simps)
    then show ?thesis using Suc.IH [of s1] worker_step_uses [of i s s1] by blast
  qed (use Suc.prems in simp)
qed simp

lemma take_task_uses: "take_task i s = Some (t, s') \<Longrightarrow> pool_uses (Some s') \<subseteq> pool_uses (Some s)"
  by (auto simp: take_task_def pool_uses_def bind_eq_Some_conv dest!: worker_run_uses)

end
