(* ===== verification/Sock_Server.thy ===== *)
theory Sock_Server
  imports Sock_Sqlite Sock_Tasks
begin

text \<open>
  The server of the \<open>socket\<close> program: \<open>server_epoll.c\<close>, \<open>server_socket.c\<close>, \<open>server_tcp.c\<close>, \<open>server_udp.c\<close>,
  \<open>server_msgqueue.c\<close> and the start and stop of its modules in \<open>server.c\<close>. The event thread (caller 0 of the pool)
  turns each ready descriptor into a task; the tasks receive, register or queue; the message thread (caller 1)
  turns each queued message into a task that shows or forwards it. Handlers are modelled as whole functions
  of the server's state; results of system calls and addresses of \<open>malloc\<close> are arguments.
\<close>

datatype srv_handler = H_process_stdin_msg | H_process_accept_tcp_link | H_process_recv_cli_msg
  | H_dispaly_msg_package | H_forward_msg_clients

record 'db lc_server =
  g_epfd :: int
  epoll_fds :: "int list"
  g_srv_tcpfd :: int
  g_srv_udpfd :: int
  srv_endid :: "32 word"
  cli_sql :: "'db gptr"
  srv_queue :: addr
  srv_mem :: "lc_msg_package_t mem"
  g_srv_thread_pool :: "srv_handler spool option"
  srv_out :: "sock_out list"
  srv_shown :: "msg_out list"
  srv_closed :: "int list"
  srv_threads :: "string list"

text \<open>
  What surrounds a step: the SQL engine and what it opens, the results of \<open>epoll_create1\<close>, \<open>epoll_ctl\<close> and \<open>send\<close>,
  and what \<open>malloc\<close> returns for the message queue's head and node and in the pool.
\<close>

record 'db senv =
  e_ex :: "'db sqlite"
  e_opn :: "'db db_env"
  e_ep :: int
  e_ctl :: bool
  e_send :: bool
  e_qhead :: addr
  e_qnode :: addr
  e_task :: task_alloc

section \<open>\<open>server_epoll.c\<close>: descriptors\<close>

text \<open>\<open>epoll_ctl(g_epfd, EPOLL_CTL_ADD, fd, ...)\<close>; it fails without an epoll descriptor.\<close>

definition epoll_add :: "bool \<Rightarrow> int \<Rightarrow> 'db lc_server \<Rightarrow> int \<times> 'db lc_server" where
  "epoll_add ctl k s = (if CHECK_FD (g_epfd s) \<and> ctl then (0, s\<lparr>epoll_fds := epoll_fds s @ [k]\<rparr>) else (- 1, s))"

definition init_server_epoll :: "'db senv \<Rightarrow> 'db lc_server \<Rightarrow> int \<times> 'db lc_server" where
  "init_server_epoll e s =
     (if CHECK_FD (g_epfd s) then (0, s)
      else let s = s\<lparr>g_epfd := e_ep e\<rparr> in
        if \<not> CHECK_FD (g_epfd s) then (- 1, s)
        else (0, snd (epoll_add (e_ctl e) 0 s)))"

definition destroy_server_epoll :: "'db lc_server \<Rightarrow> int \<times> 'db lc_server" where
  "destroy_server_epoll s =
     (if \<not> CHECK_FD (g_epfd s) then (0, s) else (0, s\<lparr>srv_closed := srv_closed s @ [g_epfd s]\<rparr>))"

definition add_fd_to_srv_epoll :: "'db senv \<Rightarrow> int \<Rightarrow> 'db lc_server \<Rightarrow> int \<times> 'db lc_server" where
  "add_fd_to_srv_epoll e k s =
     (let s = (if \<not> CHECK_FD (g_epfd s) then snd (init_server_epoll e s) else s) in epoll_add (e_ctl e) k s)"

definition del_fd_from_srv_epoll :: "'db senv \<Rightarrow> int \<Rightarrow> 'db lc_server \<Rightarrow> int \<times> 'db lc_server" where
  "del_fd_from_srv_epoll e k s =
     (let s = (if \<not> CHECK_FD (g_epfd s) then snd (init_server_epoll e s) else s) in
      if CHECK_FD (g_epfd s) \<and> e_ctl e then (0, s\<lparr>epoll_fds := removeAll k (epoll_fds s)\<rparr>) else (- 1, s))"

section \<open>\<open>server_msgqueue.c\<close>\<close>

definition init_srv_msg_queue :: "'db senv \<Rightarrow> 'db lc_server \<Rightarrow> (queue_ret_t \<times> 'db lc_server) option" where
  "init_srv_msg_queue e s =
     (if srv_queue s \<noteq> NULL then Some (QUEUE_SUCCESS, s)
      else do {
        (q, m) \<leftarrow> init_msg_queue (e_qhead e) (srv_mem s);
        Some (QUEUE_SUCCESS, s\<lparr>srv_queue := q, srv_mem := m\<rparr>) })"

definition en_srv_msg_queue :: "'db senv \<Rightarrow> lc_msg_package_t option \<Rightarrow> 'db lc_server \<Rightarrow> (queue_ret_t \<times> 'db lc_server) option" where
  "en_srv_msg_queue e msg s = do {
     s \<leftarrow> (if srv_queue s = NULL then map_option snd (init_srv_msg_queue e s) else Some s);
     (ret, m) \<leftarrow> en_msg_to_queue (srv_queue s) (map_option Some msg) (e_qnode e) (srv_mem s);
     Some (ret, s\<lparr>srv_mem := m\<rparr>) }"

text \<open>\<open>buf\<close> is the caller's structure before the call.\<close>

definition de_srv_msg_queue :: "'db senv \<Rightarrow> lc_msg_package_t \<Rightarrow> 'db lc_server \<Rightarrow> (queue_ret_t \<times> lc_msg_package_t \<times> 'db lc_server) option" where
  "de_srv_msg_queue e buf s = do {
     s \<leftarrow> (if srv_queue s = NULL then map_option snd (init_srv_msg_queue e s) else Some s);
     (ret, out, m) \<leftarrow> de_msg_from_queue (srv_queue s) (Some (Some buf)) (srv_mem s);
     out \<leftarrow> out;
     out \<leftarrow> out;
     Some (ret, out, s\<lparr>srv_mem := m\<rparr>) }"

definition destroy_srv_msg_queue :: "'db lc_server \<Rightarrow> (queue_ret_t \<times> 'db lc_server) option" where
  "destroy_srv_msg_queue s =
     (if srv_queue s = NULL then Some (QUEUE_SUCCESS, s)
      else do {
        (ret, q, m) \<leftarrow> destroy_msg_queue (srv_queue s) (srv_mem s);
        Some (ret, s\<lparr>srv_queue := q, srv_mem := m\<rparr>) })"

section \<open>\<open>server_tcp.c\<close>\<close>

text \<open>The results of \<open>socket\<close>, \<open>setsockopt\<close>, \<open>bind\<close> and \<open>listen\<close>; the second is only logged.\<close>

definition init_server_tcp :: "'db senv \<Rightarrow> int \<Rightarrow> int \<Rightarrow> int \<Rightarrow> int \<Rightarrow> 'db lc_server \<Rightarrow> int \<times> 'db lc_server" where
  "init_server_tcp e sock opt bnd lst s =
     (if CHECK_FD (g_srv_tcpfd s) then (0, s)
      else let s = s\<lparr>g_srv_tcpfd := sock\<rparr> in
        if \<not> CHECK_FD (g_srv_tcpfd s) then (- 1, s)
        else if bnd \<noteq> 0 then (- 1, s)
        else if lst \<noteq> 0 then (- 1, s)
        else (0, snd (add_fd_to_srv_epoll e (g_srv_tcpfd s) s)))"

definition destroy_server_tcp :: "'db senv \<Rightarrow> 'db lc_server \<Rightarrow> int \<times> 'db lc_server" where
  "destroy_server_tcp e s =
     (if \<not> CHECK_FD (g_srv_tcpfd s) then (0, s)
      else let s = snd (del_fd_from_srv_epoll e (g_srv_tcpfd s) s) in (0, s\<lparr>srv_closed := srv_closed s @ [g_srv_tcpfd s]\<rparr>))"

definition epoll_trigge_tcpfd :: "int \<Rightarrow> 'db lc_server \<Rightarrow> bool" where
  "epoll_trigge_tcpfd k s \<longleftrightarrow> k = g_srv_tcpfd s"

text \<open>The answer to a registration.\<close>

definition reg_package :: "32 word \<Rightarrow> 32 word \<Rightarrow> lc_msg_package_t" where
  "reg_package self dest = set_pk_destid dest (set_pk_srcid self (set_pk_type SAVE_CLI_INFO_lc zero_package))"

definition recv_tcp_cli_msg :: "'db senv \<Rightarrow> byte list option \<Rightarrow> int \<Rightarrow> 'db lc_server \<Rightarrow> (int \<times> 'db lc_server) option" where
  "recv_tcp_cli_msg e rx k s =
     (case rx of
        None \<Rightarrow> Some (- 1, s)
      | Some bytes \<Rightarrow>
          if bytes = [] then do {
            let s = snd (del_fd_from_srv_epoll e k s);
            (_, sql) \<leftarrow> del_tcp_cli_from_database_by_fd (e_ex e) (e_opn e) k (cli_sql s);
            Some (0, s\<lparr>cli_sql := sql, srv_closed := srv_closed s @ [k]\<rparr>) }
          else let msgbuf = recv_package bytes in
            if pk_type msgbuf = SAVE_CLI_INFO_lc then do {
              (_, sql) \<leftarrow> add_tcp_cli_to_database (e_ex e) (e_opn e) (sint (pk_srcid msgbuf)) k (cli_sql s);
              let TXbuf = reg_package (srv_endid s) (pk_srcid msgbuf);
              let (_, out) = send_msg_by_tcp (e_send e) TXbuf k (srv_out s);
              Some (0, s\<lparr>cli_sql := sql, srv_out := out\<rparr>) }
            else do {
              (_, s) \<leftarrow> en_srv_msg_queue e (Some msgbuf) s;
              Some (0, s) })"

definition send_tcp_cli_msg :: "socket_handle_t \<Rightarrow> lc_msg_package_t \<Rightarrow> 'db lc_server \<Rightarrow> int \<times> 'db lc_server" where
  "send_tcp_cli_msg h msgbuf s =
     (if socket_type h \<noteq> TCP_LINK then (- 1, s) else (0, s\<lparr>srv_out := srv_out s @ [Out_tcp (sh_fd h) msgbuf]\<rparr>))"

section \<open>\<open>server_udp.c\<close>\<close>

definition init_server_udp :: "'db senv \<Rightarrow> int \<Rightarrow> int \<Rightarrow> int \<Rightarrow> 'db lc_server \<Rightarrow> int \<times> 'db lc_server" where
  "init_server_udp e sock opt bnd s =
     (if CHECK_FD (g_srv_udpfd s) then (0, s)
      else let s = s\<lparr>g_srv_udpfd := sock\<rparr> in
        if \<not> CHECK_FD (g_srv_udpfd s) then (- 1, s)
        else if bnd \<noteq> 0 then (- 1, s)
        else (0, snd (add_fd_to_srv_epoll e (g_srv_udpfd s) s)))"

definition destroy_server_udp :: "'db senv \<Rightarrow> 'db lc_server \<Rightarrow> int \<times> 'db lc_server" where
  "destroy_server_udp e s =
     (if \<not> CHECK_FD (g_srv_udpfd s) then (0, s)
      else let s = snd (del_fd_from_srv_epoll e (g_srv_udpfd s) s) in (0, s\<lparr>srv_closed := srv_closed s @ [g_srv_udpfd s]\<rparr>))"

definition epoll_trigge_udpfd :: "int \<Rightarrow> 'db lc_server \<Rightarrow> bool" where
  "epoll_trigge_udpfd k s \<longleftrightarrow> k = g_srv_udpfd s"

definition recv_udp_cli_msg :: "'db senv \<Rightarrow> (byte list \<times> sock_addr) option \<Rightarrow> int \<Rightarrow> 'db lc_server \<Rightarrow> (int \<times> 'db lc_server) option" where
  "recv_udp_cli_msg e rx k s =
     (case rx of
        None \<Rightarrow> Some (- 1, s)
      | Some (bytes, a) \<Rightarrow>
          if bytes = [] then Some (0, s)
          else let msgbuf = recv_package bytes in
            if pk_type msgbuf = SAVE_CLI_INFO_lc then do {
              (_, sql) \<leftarrow> add_udp_cli_to_database (e_ex e) (e_opn e) (sint (pk_srcid msgbuf)) (sk_ip a) (sk_port a) (cli_sql s);
              let TXbuf = reg_package (srv_endid s) (pk_srcid msgbuf);
              let (_, out) = send_msg_by_udp (e_send e) (g_srv_udpfd s) TXbuf a (srv_out s);
              Some (0, s\<lparr>cli_sql := sql, srv_out := out\<rparr>) }
            else do {
              (_, s) \<leftarrow> en_srv_msg_queue e (Some msgbuf) s;
              Some (0, s) })"

definition send_udp_cli_msg :: "socket_handle_t \<Rightarrow> lc_msg_package_t \<Rightarrow> 'db lc_server \<Rightarrow> int \<times> 'db lc_server" where
  "send_udp_cli_msg h msgbuf s =
     (if socket_type h \<noteq> UDP_LINK then (- 1, s)
      else (0, s\<lparr>srv_out := srv_out s @ [Out_udp (g_srv_udpfd s) (sh_addr h) msgbuf]\<rparr>))"

section \<open>Tasks\<close>

text \<open>An \<open>int\<close> in memory, the argument of the first three handlers.\<close>

definition fd_bytes :: "int \<Rightarrow> byte list" where
  "fd_bytes k = bytes_of_word (word_of_int k)"

definition fd_of :: "byte list \<Rightarrow> int" where
  "fd_of b = sint (word_at b 0)"

text \<open>The handlers return NULL or not (\<open>False\<close>, \<open>True\<close>); the pool ignores it.\<close>

definition process_stdin_msg :: "'db senv \<Rightarrow> byte list option \<Rightarrow> byte list \<Rightarrow> 'db lc_server \<Rightarrow> (bool \<times> 'db lc_server) option" where
  "process_stdin_msg e rx arg' s =
     (case rx of
        None \<Rightarrow> Some (False, s)
      | Some bytes \<Rightarrow>
          if bytes = [] then Some (True, s)
          else do {
            let msgbuf = set_pk_srcid (srv_endid s) (set_pk_type SRV_BROADCAST (read_data bytes zero_package));
            (out, sql) \<leftarrow> traverse_table_send_msg (e_ex e) (e_opn e) (e_send e) (g_srv_udpfd s) msgbuf (srv_out s) (cli_sql s);
            Some (True, s\<lparr>srv_out := out, cli_sql := sql\<rparr>) })"

definition process_accept_tcp_link :: "'db senv \<Rightarrow> int \<Rightarrow> byte list \<Rightarrow> 'db lc_server \<Rightarrow> (bool \<times> 'db lc_server) option" where
  "process_accept_tcp_link e newfd arg' s =
     (if \<not> CHECK_FD newfd then Some (False, s) else Some (True, snd (add_fd_to_srv_epoll e newfd s)))"

text \<open>\<open>rx\<close> is what \<open>recv\<close> or \<open>recvfrom\<close> returns; the address counts for a datagram only.\<close>

definition process_recv_cli_msg :: "'db senv \<Rightarrow> (byte list \<times> sock_addr) option \<Rightarrow> byte list \<Rightarrow> 'db lc_server \<Rightarrow> (bool \<times> 'db lc_server) option" where
  "process_recv_cli_msg e rx arg' s = do {
     let k = fd_of arg';
     (_, s) \<leftarrow> (if epoll_trigge_udpfd k s then recv_udp_cli_msg e rx k s else recv_tcp_cli_msg e (map_option fst rx) k s);
     Some (True, s) }"

definition forward_msg_clients :: "'db senv \<Rightarrow> byte list \<Rightarrow> 'db lc_server \<Rightarrow> (bool \<times> 'db lc_server) option" where
  "forward_msg_clients e msgbuf s = do {
     (_, mem, sql) \<leftarrow> get_cli_by_endid (e_ex e) (e_opn e) (sint (pk_destid msgbuf)) (Some zero_handle) (cli_sql s);
     sock \<leftarrow> mem;
     let s = s\<lparr>cli_sql := sql\<rparr>;
     Some (True, case socket_type sock of
       TCP_LINK \<Rightarrow> snd (send_tcp_cli_msg sock msgbuf s)
     | UDP_LINK \<Rightarrow> snd (send_udp_cli_msg sock msgbuf s)
     | UNSET \<Rightarrow> s) }"

section \<open>The threads\<close>

definition post_task :: "nat \<Rightarrow> 'db senv \<Rightarrow> srv_handler \<Rightarrow> byte list \<Rightarrow> nat \<Rightarrow> 'db lc_server \<Rightarrow> 'db lc_server option" where
  "post_task i e h arg' n s = do {
     pool \<leftarrow> add_task_to_server_pool_release_arg_mem i (e_task e) h arg' n (g_srv_thread_pool s);
     Some (s\<lparr>g_srv_thread_pool := pool\<rparr>) }"

text \<open>One turn of the message thread; \<open>msgbuf\<close> is its local structure, kept between turns.\<close>

definition socket_msg_process_thread_round ::
  "'db senv \<Rightarrow> lc_msg_package_t \<Rightarrow> 'db lc_server \<Rightarrow> (lc_msg_package_t \<times> 'db lc_server) option" where
  "socket_msg_process_thread_round e msgbuf s = do {
     (ret, msgbuf, s) \<leftarrow> de_srv_msg_queue e msgbuf s;
     if ret \<noteq> QUEUE_SUCCESS then Some (msgbuf, s)
     else if pk_destid msgbuf = srv_endid s then do {
       s \<leftarrow> post_task 1 e H_dispaly_msg_package msgbuf sizeof_package s;
       Some (msgbuf, s) }
     else do {
       s \<leftarrow> post_task 1 e H_forward_msg_clients msgbuf sizeof_package s;
       Some (msgbuf, s) } }"

text \<open>The task for one ready descriptor.\<close>

definition event_handler :: "int \<Rightarrow> 'db lc_server \<Rightarrow> srv_handler" where
  "event_handler k s =
     (if k = 0 then H_process_stdin_msg
      else if epoll_trigge_tcpfd k s then H_process_accept_tcp_link
      else H_process_recv_cli_msg)"

fun post_events :: "('db senv \<times> int) list \<Rightarrow> 'db lc_server \<Rightarrow> 'db lc_server option" where
  "post_events [] s = Some s"
| "post_events ((e, k) # rest) s = do { s \<leftarrow> post_task 0 e (event_handler k s) (fd_bytes k) 4 s; post_events rest s }"

text \<open>One turn of the event thread: \<open>epoll_wait\<close> fails, or returns some ready descriptors.\<close>

definition server_epoll_thread_round :: "('db senv \<times> int) list option \<Rightarrow> 'db lc_server \<Rightarrow> 'db lc_server option" where
  "server_epoll_thread_round evs s = (case evs of None \<Rightarrow> Some s | Some evs \<Rightarrow> post_events evs s)"

definition create_server_epoll_thread :: "int \<Rightarrow> 'db lc_server \<Rightarrow> 'db lc_server" where
  "create_server_epoll_thread iret s = (if iret \<noteq> 0 then s else s\<lparr>srv_threads := srv_threads s @ [''SrvEpoll'']\<rparr>)"

definition create_socket_msg_process_thread :: "int \<Rightarrow> 'db lc_server \<Rightarrow> 'db lc_server" where
  "create_socket_msg_process_thread iret s = (if iret \<noteq> 0 then s else s\<lparr>srv_threads := srv_threads s @ [''MsgProcess'']\<rparr>)"

section \<open>Turns of the threads\<close>

text \<open>
  What a worker of the pool calls: \<open>rx\<close> is what the \<open>read\<close>, \<open>recv\<close> or \<open>recvfrom\<close> of the handler returns, \<open>newfd\<close> what
  its \<open>accept\<close> returns. Every handler dereferences its argument.
\<close>

definition run_srv_handler ::
  "'db senv \<Rightarrow> (byte list \<times> sock_addr) option \<Rightarrow> int \<Rightarrow> srv_handler \<Rightarrow> byte list option \<Rightarrow> 'db lc_server \<Rightarrow> 'db lc_server option" where
  "run_srv_handler e rx newfd h a s = do {
     b \<leftarrow> a;
     (case h of
        H_process_stdin_msg \<Rightarrow> map_option snd (process_stdin_msg e (map_option fst rx) b s)
      | H_process_accept_tcp_link \<Rightarrow> map_option snd (process_accept_tcp_link e newfd b s)
      | H_process_recv_cli_msg \<Rightarrow> map_option snd (process_recv_cli_msg e rx b s)
      | H_dispaly_msg_package \<Rightarrow> Some (s\<lparr>srv_shown := srv_shown s @ [dispaly_msg_package b]\<rparr>)
      | H_forward_msg_clients \<Rightarrow> map_option snd (forward_msg_clients e b s)) }"

definition server_worker_turn ::
  "nat \<Rightarrow> 'db senv \<Rightarrow> (byte list \<times> sock_addr) option \<Rightarrow> int \<Rightarrow> 'db lc_server \<Rightarrow> 'db lc_server option" where
  "server_worker_turn i e rx newfd s = do {
     pool \<leftarrow> g_srv_thread_pool s;
     (t, pool) \<leftarrow> take_task i pool;
     let s = s\<lparr>g_srv_thread_pool := Some pool\<rparr>;
     (case t of
        None \<Rightarrow> Some s
      | Some t \<Rightarrow> do {
          s \<leftarrow> run_srv_handler e rx newfd (handler t) (args pool (arg t)) s;
          pool \<leftarrow> g_srv_thread_pool s;
          pool \<leftarrow> spool_step (Step_thread i) pool;
          Some (s\<lparr>g_srv_thread_pool := Some pool\<rparr>) }) }"

text \<open>The server as a whole: a ready descriptor, a turn of the message thread, a turn of worker \<open>i\<close>.\<close>

datatype 'db srv_event = Ready "'db senv" int | Msg_turn "'db senv" lc_msg_package_t
  | Work nat "'db senv" "(byte list \<times> sock_addr) option" int

fun server_step :: "'db srv_event \<Rightarrow> 'db lc_server \<Rightarrow> 'db lc_server option" where
  "server_step (Ready e k) s = server_epoll_thread_round (Some [(e, k)]) s"
| "server_step (Msg_turn e buf) s = map_option snd (socket_msg_process_thread_round e buf s)"
| "server_step (Work i e rx newfd) s = server_worker_turn i e rx newfd s"

fun server_run :: "'db srv_event list \<Rightarrow> 'db lc_server \<Rightarrow> 'db lc_server option" where
  "server_run [] s = Some s"
| "server_run (ev # evs) s = do { s \<leftarrow> server_step ev s; server_run evs s }"

section \<open>\<open>server.c\<close>\<close>

record init_results =
  ir_tcp :: "int \<times> int \<times> int \<times> int"
  ir_udp :: "int \<times> int \<times> int"
  ir_threads :: "int \<times> int"

definition init_all_srv_modules :: "'db senv \<Rightarrow> init_results \<Rightarrow> 'db lc_server \<Rightarrow> 'db lc_server" where
  "init_all_srv_modules e r s =
     (let s = snd (init_server_epoll e s);
          s = (case ir_tcp r of (a, b, c, d) \<Rightarrow> snd (init_server_tcp e a b c d s));
          s = (case ir_udp r of (a, b, c) \<Rightarrow> snd (init_server_udp e a b c s));
          s = s\<lparr>g_srv_thread_pool := Some (get_pool 6 (tk_queue (e_task e)) (g_srv_thread_pool s))\<rparr>;
          s = create_server_epoll_thread (fst (ir_threads r)) s
      in create_socket_msg_process_thread (snd (ir_threads r)) s)"

text \<open>The destructor of the pool does nothing.\<close>

definition release_all_srv_modules_resources :: "'db senv \<Rightarrow> 'db lc_server \<Rightarrow> 'db lc_server" where
  "release_all_srv_modules_resources e s =
     (let s = snd (destroy_server_udp e s); s = snd (destroy_server_tcp e s) in snd (destroy_server_epoll s))"

end
