(* ===== verification/Sock_Spec.thy ===== *)
theory Sock_Spec
  imports Sock_Server
begin

text \<open>
  What the \<open>socket\<close> server promises, as a step relation on an abstract state: a table of clients, a stack of
  messages, a list of tasks, and what was sent and shown. The theorems show that every turn of
  the server's threads is a step of this relation, and that it is undefined exactly where the relation says so: at an
  address in the table that \<open>atoi\<close> cannot read back.
\<close>

section \<open>The abstract server\<close>

record sspec =
  x_self :: "32 word"
  x_tcpfd :: int
  x_udpfd :: int
  x_tab :: "int \<rightharpoonup> link"
  x_stack :: "lc_msg_package_t list"
  x_tasks :: "(srv_handler \<times> byte list option) list"
  x_out :: "sock_out list"
  x_shown :: "msg_out list"

text \<open>Where a message for the owner of an entry goes.\<close>

definition deliver :: "int \<Rightarrow> link option \<Rightarrow> lc_msg_package_t \<Rightarrow> sock_out list" where
  "deliver udpfd l m = (let h = handle_of l in
     case socket_type h of UNSET \<Rightarrow> [] | TCP_LINK \<Rightarrow> [Out_tcp (sh_fd h) m] | UDP_LINK \<Rightarrow> [Out_udp udpfd (sh_addr h) m])"

lemma deliver_simps [simp]:
  "deliver u None m = []" "deliver u (Some (tcp_link k)) m = [Out_tcp k m]"
  "deliver u (Some (udp_link ip pt)) m = [Out_udp u \<lparr>sk_port = pt, sk_ip = ip\<rparr> m]"
  by (simp_all add: deliver_def tcp_handle_def udp_handle_def zero_handle_def)

definition broadcast_package :: "32 word \<Rightarrow> byte list \<Rightarrow> lc_msg_package_t" where
  "broadcast_package self bytes = set_pk_srcid self (set_pk_type SRV_BROADCAST (read_data bytes zero_package))"

text \<open>An entry can be looked up when its address reads back.\<close>

definition entry_reads :: "(int \<rightharpoonup> link) \<Rightarrow> int \<Rightarrow> bool" where
  "entry_reads t e = (case t e of None \<Rightarrow> True | Some l \<Rightarrow> reads_back l)"

lemma entry_reads_simps [simp]: "t e = None \<Longrightarrow> entry_reads t e" "t e = Some l \<Longrightarrow> entry_reads t e = reads_back l"
  by (simp_all add: entry_reads_def)

text \<open>What the handler of a task does; \<open>rx\<close> is what it receives.\<close>

inductive handled :: "(byte list \<times> sock_addr) option \<Rightarrow> srv_handler \<Rightarrow> byte list \<Rightarrow> sspec \<Rightarrow> sspec \<Rightarrow> bool" where
  no_line: "rx = None \<or> (\<exists>a. rx = Some ([], a)) \<Longrightarrow> handled rx H_process_stdin_msg b x x"
| broadcast: "bytes \<noteq> [] \<Longrightarrow> all_read_back (x_tab x) \<Longrightarrow> distinct es \<Longrightarrow> set es = dom (x_tab x) \<Longrightarrow>
    handled (Some (bytes, a)) H_process_stdin_msg b x (x\<lparr>x_out := x_out x @
      map (\<lambda>e. out_for (x_udpfd x) (broadcast_package (x_self x) bytes) e (the (x_tab x e))) es\<rparr>)"
| accept: "handled rx H_process_accept_tcp_link b x x"
| no_message: "rx = None \<or> (\<exists>a. rx = Some ([], a)) \<and> fd_of b = x_udpfd x \<Longrightarrow> handled rx H_process_recv_cli_msg b x x"
| hang_up: "fd_of b \<noteq> x_udpfd x \<Longrightarrow>
    handled (Some ([], a)) H_process_recv_cli_msg b x (x\<lparr>x_tab := drop_fd (fd_of b) (x_tab x)\<rparr>)"
| register_tcp: "bytes \<noteq> [] \<Longrightarrow> fd_of b \<noteq> x_udpfd x \<Longrightarrow> m = recv_package bytes \<Longrightarrow> pk_type m = SAVE_CLI_INFO_lc \<Longrightarrow>
    handled (Some (bytes, a)) H_process_recv_cli_msg b x (x\<lparr>x_tab := reg_tcp (sint (pk_srcid m)) (fd_of b) (x_tab x),
      x_out := x_out x @ [Out_tcp (fd_of b) (reg_package (x_self x) (pk_srcid m))]\<rparr>)"
| register_udp: "bytes \<noteq> [] \<Longrightarrow> fd_of b = x_udpfd x \<Longrightarrow> m = recv_package bytes \<Longrightarrow> pk_type m = SAVE_CLI_INFO_lc \<Longrightarrow>
    handled (Some (bytes, a)) H_process_recv_cli_msg b x (x\<lparr>x_tab := reg_udp (sint (pk_srcid m)) (sk_ip a) (sk_port a) (x_tab x),
      x_out := x_out x @ [Out_udp (x_udpfd x) a (reg_package (x_self x) (pk_srcid m))]\<rparr>)"
| message: "bytes \<noteq> [] \<Longrightarrow> m = recv_package bytes \<Longrightarrow> pk_type m \<noteq> SAVE_CLI_INFO_lc \<Longrightarrow>
    handled (Some (bytes, a)) H_process_recv_cli_msg b x (x\<lparr>x_stack := m # x_stack x\<rparr>)"
| shown: "handled rx H_dispaly_msg_package b x (x\<lparr>x_shown := x_shown x @ [dispaly_msg_package b]\<rparr>)"
| forward: "entry_reads (x_tab x) (sint (pk_destid b)) \<Longrightarrow>
    handled rx H_forward_msg_clients b x (x\<lparr>x_out := x_out x @ deliver (x_udpfd x) (x_tab x (sint (pk_destid b))) b\<rparr>)"

text \<open>The two handlers that can fault: a broadcast that meets an address that does not read back, a lookup of one.\<close>

definition handler_faults :: "(byte list \<times> sock_addr) option \<Rightarrow> srv_handler \<Rightarrow> byte list \<Rightarrow> sspec \<Rightarrow> bool" where
  "handler_faults rx h b x =
     (case h of
        H_process_stdin_msg \<Rightarrow> (case rx of None \<Rightarrow> False | Some (bytes, a) \<Rightarrow> bytes \<noteq> []) \<and> \<not> all_read_back (x_tab x)
      | H_forward_msg_clients \<Rightarrow> \<not> entry_reads (x_tab x) (sint (pk_destid b))
      | _ \<Rightarrow> False)"

inductive spec_step :: "'db srv_event \<Rightarrow> sspec \<Rightarrow> sspec \<Rightarrow> bool" where
  ready: "h = (if k = 0 then H_process_stdin_msg else if k = x_tcpfd x then H_process_accept_tcp_link else H_process_recv_cli_msg) \<Longrightarrow>
    spec_step (Ready e k) x (x\<lparr>x_tasks := x_tasks x @ [(h, Some (fd_bytes k))]\<rparr>)"
| no_turn: "x_stack x = [] \<Longrightarrow> spec_step (Msg_turn e buf) x x"
| turn: "x_stack x = m # ms \<Longrightarrow> h = (if pk_destid m = x_self x then H_dispaly_msg_package else H_forward_msg_clients) \<Longrightarrow>
    spec_step (Msg_turn e buf) x (x\<lparr>x_stack := ms, x_tasks := x_tasks x @ [(h, Some m)]\<rparr>)"
| no_work: "x_tasks x = [] \<Longrightarrow> spec_step (Work i e rx newfd) x x"
| work: "x_tasks x = (h, Some b) # ts \<Longrightarrow> handled rx h b (x\<lparr>x_tasks := ts\<rparr>) x' \<Longrightarrow> spec_step (Work i e rx newfd) x x'"

fun spec_faults :: "'db srv_event \<Rightarrow> sspec \<Rightarrow> bool" where
  "spec_faults (Work i e rx newfd) x = (case x_tasks x of (h, Some b) # ts \<Rightarrow> handler_faults rx h b x | _ \<Rightarrow> False)"
| "spec_faults ev x = False"

inductive spec_run :: "'db srv_event list \<Rightarrow> sspec \<Rightarrow> sspec \<Rightarrow> bool" where
  spec_nil: "spec_run [] x x"
| spec_cons: "spec_step ev x x' \<Longrightarrow> spec_run evs x' x'' \<Longrightarrow> spec_run (ev # evs) x x''"

section \<open>How the server's state represents it\<close>

definition msgs_rep :: "'db lc_server \<Rightarrow> lc_msg_package_t list \<Rightarrow> bool" where
  "msgs_rep s ms \<longleftrightarrow> (if srv_queue s = NULL then ms = [] \<and> NULL \<notin> live (srv_mem s)
     else \<exists>xs. qnodes (srv_mem s) (srv_queue s) xs \<and> qdata (srv_mem s) xs = map Some ms)"

fun task_ok :: "srv_handler \<times> byte list option \<Rightarrow> bool" where
  "task_ok (h, None) = False"
| "task_ok (h, Some b) = (h \<in> {H_dispaly_msg_package, H_forward_msg_clients} \<longrightarrow> wf_package b)"

definition srv_core :: "('db \<Rightarrow> (int \<rightharpoonup> link) option) \<Rightarrow> 'db lc_server \<Rightarrow> sspec \<Rightarrow> bool" where
  "srv_core tab s x \<longleftrightarrow> srv_endid s = x_self x \<and> g_srv_tcpfd s = x_tcpfd x \<and> g_srv_udpfd s = x_udpfd x \<and>
     db_rep tab (cli_sql s) (x_tab x) \<and> all_links (x_tab x) \<and>
     msgs_rep s (x_stack x) \<and> (\<forall>m \<in> set (x_stack x). wf_package m) \<and> srv_out s = x_out x \<and> srv_shown s = x_shown x"

definition srv_state :: "('db \<Rightarrow> (int \<rightharpoonup> link) option) \<Rightarrow> 'db lc_server \<Rightarrow> sspec \<Rightarrow> bool" where
  "srv_state tab s x \<longleftrightarrow> srv_core tab s x \<and>
     pool_waiting 6 (g_srv_thread_pool s) (x_tasks x) \<and> (\<forall>t \<in> set (x_tasks x). task_ok t)"

text \<open>
  What a step may assume of its surroundings: the engine keeps its promises, a database it opens is new,
  \<open>malloc\<close> returns fresh blocks. The results of \<open>epoll_ctl\<close> and of \<open>send\<close> are arbitrary.
\<close>

definition sys_ok :: "('db \<Rightarrow> (int \<rightharpoonup> link) option) \<Rightarrow> 'db senv \<Rightarrow> 'db lc_server \<Rightarrow> bool" where
  "sys_ok tab e s \<longleftrightarrow> sqlite_laws (e_ex e) tab \<and> db_new tab (e_opn e) \<and>
     fresh (srv_mem s) (e_qhead e) \<and> fresh (srv_mem s) (e_qnode e) \<and> e_qhead e \<noteq> e_qnode e"

definition env_ok :: "('db \<Rightarrow> (int \<rightharpoonup> link) option) \<Rightarrow> 'db senv \<Rightarrow> 'db lc_server \<Rightarrow> bool" where
  "env_ok tab e s \<longleftrightarrow> sys_ok tab e s \<and> task_alloc_fresh (e_task e) (g_srv_thread_pool s)"

text \<open>A worker's turn is that of one of the six threads of a pool that exists; what it receives is arbitrary.\<close>

fun event_ok :: "('db \<Rightarrow> (int \<rightharpoonup> link) option) \<Rightarrow> 'db srv_event \<Rightarrow> 'db lc_server \<Rightarrow> bool" where
  "event_ok tab (Ready e k) s \<longleftrightarrow> env_ok tab e s"
| "event_ok tab (Msg_turn e buf) s \<longleftrightarrow> env_ok tab e s"
| "event_ok tab (Work i e rx newfd) s \<longleftrightarrow> sys_ok tab e s \<and> i < 6 \<and> g_srv_thread_pool s \<noteq> None"

fun events_ok :: "('db \<Rightarrow> (int \<rightharpoonup> link) option) \<Rightarrow> 'db srv_event list \<Rightarrow> 'db lc_server \<Rightarrow> bool" where
  "events_ok tab [] s \<longleftrightarrow> True"
| "events_ok tab (ev # evs) s \<longleftrightarrow> event_ok tab ev s \<and> (case server_step ev s of None \<Rightarrow> True | Some s' \<Rightarrow> events_ok tab evs s')"

section \<open>The message queue\<close>

lemma init_srv_msg_queue_ok:
  assumes "msgs_rep s ms" "sys_ok tab e s"
  shows "\<exists>q m. (if srv_queue s = NULL then map_option snd (init_srv_msg_queue e s) else Some s) = Some (s\<lparr>srv_queue := q, srv_mem := m\<rparr>) \<and>
    q \<noteq> NULL \<and> (\<exists>xs. qnodes m q xs \<and> qdata m xs = map Some ms) \<and> fresh m (e_qnode e)"
proof (cases "srv_queue s = NULL")
  case True
  have f: "fresh (srv_mem s) (e_qhead e)" "fresh (srv_mem s) (e_qnode e)" "e_qhead e \<noteq> e_qnode e" using assms(2) by (auto simp: sys_ok_def)
  obtain m where m: "INIT_LIST_HEAD (e_qhead e) (mem_malloc (e_qhead e) (srv_mem s)) = Some m" "qnodes m (e_qhead e) []"
    "live m = insert (e_qhead e) (live (srv_mem s))"
    using head_init [OF f(1)] True assms(1) by (auto simp: msgs_rep_def)
  have "fresh m (e_qnode e)" using f m(3) by (simp add: fresh_def)
  moreover have "ms = []" "e_qhead e \<noteq> NULL" using True assms(1) f(1) by (simp_all add: msgs_rep_def fresh_def)
  ultimately show ?thesis using True m(1,2)
    by (intro exI [of _ "e_qhead e"] exI [of _ m]) (auto simp: init_srv_msg_queue_def init_msg_queue_def)
next
  case False
  then have "map_option snd (init_srv_msg_queue e s) = Some s" by (simp add: init_srv_msg_queue_def)
  with False assms show ?thesis
    by (intro exI [of _ "srv_queue s"] exI [of _ "srv_mem s"]) (auto simp: msgs_rep_def sys_ok_def)
qed

lemma en_srv_msg_queue_ok:
  assumes "msgs_rep s ms" "sys_ok tab e s"
  shows "\<exists>q m. en_srv_msg_queue e (Some b) s = Some (QUEUE_SUCCESS, s\<lparr>srv_queue := q, srv_mem := m\<rparr>) \<and>
    msgs_rep (s\<lparr>srv_queue := q, srv_mem := m\<rparr>) (b # ms)"
proof -
  obtain q m xs where i: "(if srv_queue s = NULL then map_option snd (init_srv_msg_queue e s) else Some s) = Some (s\<lparr>srv_queue := q, srv_mem := m\<rparr>)"
    "q \<noteq> NULL" "qnodes m q xs" "qdata m xs = map Some ms" "fresh m (e_qnode e)"
    using init_srv_msg_queue_ok [OF assms] by blast
  obtain m' where m': "en_msg_to_queue q (Some (Some b)) (e_qnode e) m = Some (QUEUE_SUCCESS, m')" "qnodes m' q (e_qnode e # xs)"
    "dataf m' (e_qnode e) = Some b" "qdata m' xs = qdata m xs"
    using msgq.enq_ok [OF i(3,5)] by blast
  have "qdata m' (e_qnode e # xs) = map Some (b # ms)" using m'(3,4) i(4) by simp
  then have "msgs_rep (s\<lparr>srv_queue := q, srv_mem := m'\<rparr>) (b # ms)" using i(2) m'(2) by (auto simp: msgs_rep_def)
  then show ?thesis using m'(1)
    by (intro exI [of _ q] exI [of _ m']) (simp add: en_srv_msg_queue_def i(1))
qed

lemma de_srv_msg_queue_ok:
  assumes "msgs_rep s ms" "sys_ok tab e s"
  shows "\<exists>q m. de_srv_msg_queue e buf s =
      Some (if ms = [] then QUEUE_EMPTY else QUEUE_SUCCESS, if ms = [] then buf else hd ms, s\<lparr>srv_queue := q, srv_mem := m\<rparr>) \<and>
    msgs_rep (s\<lparr>srv_queue := q, srv_mem := m\<rparr>) (tl ms)"
proof -
  obtain q m xs where i: "(if srv_queue s = NULL then map_option snd (init_srv_msg_queue e s) else Some s) = Some (s\<lparr>srv_queue := q, srv_mem := m\<rparr>)"
    "q \<noteq> NULL" "qnodes m q xs" "qdata m xs = map Some ms"
    using init_srv_msg_queue_ok [OF assms] by blast
  show ?thesis
  proof (cases xs)
    case Nil
    then have "ms = []" "de_msg_from_queue q (Some (Some buf)) m = Some (QUEUE_EMPTY, Some (Some buf), m)"
      using i(3,4) msgq.deq_empty by auto
    moreover have "msgs_rep (s\<lparr>srv_queue := q, srv_mem := m\<rparr>) []" using i Nil by (auto simp: msgs_rep_def)
    ultimately show ?thesis
      by (intro exI [of _ q] exI [of _ m]) (simp add: de_srv_msg_queue_def i(1))
  next
    case (Cons y ys)
    then obtain b ms' where ms: "ms = b # ms'" "dataf m y = Some b" "qdata m ys = map Some ms'" using i(4) by (cases ms) auto
    obtain m' where m': "de_msg_from_queue q (Some (Some buf)) m = Some (QUEUE_SUCCESS, Some (Some b), m')" "qnodes m' q ys"
      "qdata m' ys = qdata m ys"
      using msgq.deq_ok [of m q y ys "Some (Some buf)"] i(3) Cons ms(2) by auto
    have "msgs_rep (s\<lparr>srv_queue := q, srv_mem := m'\<rparr>) ms'" using i(2) m'(2,3) ms(3) by (auto simp: msgs_rep_def)
    then show ?thesis using m'(1) ms(1)
      by (intro exI [of _ q] exI [of _ m']) (simp add: de_srv_msg_queue_def i(1))
  qed
qed

section \<open>The handlers\<close>

lemma int32_sint [simp]: "int32 (sint (w :: 32 word))"
  using sint_ge [of w] sint_lt [of w] by (simp add: int32_def)

lemma int32_fd_of [simp]: "int32 (fd_of b)"
  by (simp add: fd_of_def)

lemma msgs_rep_upd [simp]:
  "msgs_rep (s\<lparr>cli_sql := q\<rparr>) ms = msgs_rep s ms" "msgs_rep (s\<lparr>srv_out := out\<rparr>) ms = msgs_rep s ms"
  "msgs_rep (s\<lparr>srv_shown := sh\<rparr>) ms = msgs_rep s ms" "msgs_rep (s\<lparr>srv_closed := cl\<rparr>) ms = msgs_rep s ms"
  "msgs_rep (s\<lparr>g_srv_thread_pool := p\<rparr>) ms = msgs_rep s ms" "msgs_rep (s\<lparr>g_epfd := ep\<rparr>) ms = msgs_rep s ms"
  "msgs_rep (s\<lparr>epoll_fds := fs\<rparr>) ms = msgs_rep s ms"
  by (simp_all add: msgs_rep_def)

lemma core_upd [simp]:
  "srv_core tab (s\<lparr>g_srv_thread_pool := p\<rparr>) x = srv_core tab s x" "srv_core tab s (x\<lparr>x_tasks := ts\<rparr>) = srv_core tab s x"
  "srv_core tab (s\<lparr>g_epfd := ep\<rparr>) x = srv_core tab s x" "srv_core tab (s\<lparr>epoll_fds := fs\<rparr>) x = srv_core tab s x"
  "srv_core tab (s\<lparr>srv_closed := cl\<rparr>) x = srv_core tab s x"
  by (simp_all add: srv_core_def)

lemmas epoll_defs = add_fd_to_srv_epoll_def del_fd_from_srv_epoll_def init_server_epoll_def epoll_add_def

lemma epoll_core [simp]:
  "srv_core tab (snd (add_fd_to_srv_epoll e k s)) x = srv_core tab s x"
  "srv_core tab (snd (del_fd_from_srv_epoll e k s)) x = srv_core tab s x"
  "g_srv_thread_pool (snd (add_fd_to_srv_epoll e k s)) = g_srv_thread_pool s"
  "g_srv_thread_pool (snd (del_fd_from_srv_epoll e k s)) = g_srv_thread_pool s"
  by (simp_all add: epoll_defs Let_def)

lemma handled_tasks: "handled rx h b x x' \<Longrightarrow> x_tasks x' = x_tasks x"
  by (induction rule: handled.induct) simp_all

lemmas sys_laws = sys_ok_def [THEN iffD1, THEN conjunct1] sys_ok_def [THEN iffD1, THEN conjunct2, THEN conjunct1]

text \<open>What a handler's call achieves.\<close>

definition serves :: "('db \<Rightarrow> (int \<rightharpoonup> link) option) \<Rightarrow> 'db lc_server option \<Rightarrow> 'db lc_server \<Rightarrow> (sspec \<Rightarrow> bool) \<Rightarrow> bool" where
  "serves tab r s P \<longleftrightarrow> (\<exists>s' x'. r = Some s' \<and> P x' \<and> srv_core tab s' x' \<and> g_srv_thread_pool s' = g_srv_thread_pool s)"

lemma servesI: "r = Some s' \<Longrightarrow> P x' \<Longrightarrow> srv_core tab s' x' \<Longrightarrow> g_srv_thread_pool s' = g_srv_thread_pool s \<Longrightarrow> serves tab r s P"
  unfolding serves_def by blast

lemma stdin_ok:
  assumes "srv_core tab s x" "sys_ok tab e s" "\<not> handler_faults rx H_process_stdin_msg b x"
  shows "serves tab (map_option snd (process_stdin_msg e (map_option fst rx) b s)) s (handled rx H_process_stdin_msg b x)"
proof (cases "rx = None \<or> (\<exists>a. rx = Some ([], a))")
  case True
  then have "map_option snd (process_stdin_msg e (map_option fst rx) b s) = Some s" by (auto simp: process_stdin_msg_def)
  then show ?thesis using assms(1) handled.no_line [OF True] by (intro servesI) auto
next
  case False
  then obtain bytes a where rx: "rx = Some (bytes, a)" "bytes \<noteq> []" by auto
  let ?m = "broadcast_package (x_self x) bytes"
  have rb: "all_read_back (x_tab x)" using assms(3) rx by (simp add: handler_faults_def)
  then have r: "\<And>e l. x_tab x e = Some l \<Longrightarrow> readable e l"
    using assms(1) all_linksD all_read_backD by (auto simp: srv_core_def readable_iff)
  have "db_rep tab (cli_sql s) (x_tab x)" "wf_package ?m" using assms(1) by (simp_all add: srv_core_def broadcast_package_def)
  from traverse_ok [OF sys_laws [OF assms(2)] this(1) r this(2), of "e_send e" "g_srv_udpfd s" "srv_out s"]
  obtain sql es where t: "traverse_table_send_msg (e_ex e) (e_opn e) (e_send e) (g_srv_udpfd s) ?m (srv_out s) (cli_sql s) =
      Some (srv_out s @ map (\<lambda>e. out_for (g_srv_udpfd s) ?m e (the (x_tab x e))) es, sql)"
    "db_rep tab sql (x_tab x)" "distinct es" "set es = dom (x_tab x)" by blast
  show ?thesis
  proof (rule servesI)
    show "map_option snd (process_stdin_msg e (map_option fst rx) b s) =
      Some (s\<lparr>srv_out := srv_out s @ map (\<lambda>e. out_for (g_srv_udpfd s) ?m e (the (x_tab x e))) es, cli_sql := sql\<rparr>)"
      using t(1) rx assms(1) by (simp add: process_stdin_msg_def broadcast_package_def srv_core_def)
    show "handled rx H_process_stdin_msg b x (x\<lparr>x_out := x_out x @ map (\<lambda>e. out_for (x_udpfd x) ?m e (the (x_tab x e))) es\<rparr>)"
      unfolding rx(1) by (rule handled.broadcast [OF rx(2) rb t(3,4)])
  qed (use assms(1) t(2) in \<open>simp_all add: srv_core_def\<close>)
qed

lemma stdin_fault:
  assumes "srv_core tab s x" "sys_ok tab e s" "handler_faults rx H_process_stdin_msg b x"
  shows "process_stdin_msg e (map_option fst rx) b s = None"
proof -
  obtain bytes a where rx: "rx = Some (bytes, a)" "bytes \<noteq> []" using assms(3) by (auto simp: handler_faults_def split: option.splits)
  obtain d l where l: "x_tab x d = Some l" "\<not> reads_back l" using assms(3) rx by (auto simp: handler_faults_def all_read_back_def)
  have r: "\<And>e l. x_tab x e = Some l \<Longrightarrow> link_ok e l" and db: "db_rep tab (cli_sql s) (x_tab x)"
    using assms(1) all_linksD by (auto simp: srv_core_def)
  from traverse_fault [OF sys_laws [OF assms(2)] db r l, of "e_send e" "g_srv_udpfd s" "broadcast_package (x_self x) bytes" "srv_out s"]
  show ?thesis using rx assms(1) by (simp add: process_stdin_msg_def broadcast_package_def srv_core_def)
qed

lemma accept_ok:
  assumes "srv_core tab s x"
  shows "serves tab (map_option snd (process_accept_tcp_link e newfd b s)) s (handled rx H_process_accept_tcp_link b x)"
proof -
  let ?s = "if CHECK_FD newfd then snd (add_fd_to_srv_epoll e newfd s) else s"
  have "map_option snd (process_accept_tcp_link e newfd b s) = Some ?s" by (auto simp: process_accept_tcp_link_def)
  then show ?thesis by (rule servesI [where x' = x]) (use assms handled.accept in auto)
qed

text \<open>A message is queued.\<close>

lemma queue_ok:
  assumes "srv_core tab s x" "sys_ok tab e s" "wf_package m"
  shows "\<exists>s'. en_srv_msg_queue e (Some m) s = Some (QUEUE_SUCCESS, s') \<and> srv_core tab s' (x\<lparr>x_stack := m # x_stack x\<rparr>) \<and>
    g_srv_thread_pool s' = g_srv_thread_pool s"
proof -
  have "msgs_rep s (x_stack x)" using assms(1) by (simp add: srv_core_def)
  then obtain q mm where "en_srv_msg_queue e (Some m) s = Some (QUEUE_SUCCESS, s\<lparr>srv_queue := q, srv_mem := mm\<rparr>)"
    "msgs_rep (s\<lparr>srv_queue := q, srv_mem := mm\<rparr>) (m # x_stack x)"
    using en_srv_msg_queue_ok [OF _ assms(2)] by blast
  then show ?thesis using assms(1,3) by (simp add: srv_core_def)
qed

lemma recv_tcp_ok:
  assumes "srv_core tab s x" "sys_ok tab e s" "fd_of b \<noteq> x_udpfd x"
  shows "serves tab (map_option snd (recv_tcp_cli_msg e (map_option fst rx) (fd_of b) s)) s (handled rx H_process_recv_cli_msg b x)"
proof -
  have d: "db_rep tab (cli_sql s) (x_tab x)" "all_links (x_tab x)" "srv_endid s = x_self x" "srv_out s = x_out x"
    using assms(1) by (simp_all add: srv_core_def)
  show ?thesis
  proof (cases "rx")
    case None
    then show ?thesis using assms(1) handled.no_message [of rx b x]
      by (intro servesI [where s' = s and x' = x]) (simp_all add: recv_tcp_cli_msg_def)
  next
    case (Some ba)
    then obtain bytes a where rx: "rx = Some (bytes, a)" by (cases ba) auto
    let ?m = "recv_package bytes"
    consider "bytes = []" | "bytes \<noteq> []" "pk_type ?m = SAVE_CLI_INFO_lc" | "bytes \<noteq> []" "pk_type ?m \<noteq> SAVE_CLI_INFO_lc" by blast
    then show ?thesis
    proof cases
      case 1
      let ?s = "snd (del_fd_from_srv_epoll e (fd_of b) s)"
      have c: "srv_core tab ?s x" "g_srv_thread_pool ?s = g_srv_thread_pool s" using assms(1) by simp_all
      have "cli_sql ?s = cli_sql s" by (simp add: epoll_defs Let_def)
      then obtain sql where "del_tcp_cli_from_database_by_fd (e_ex e) (e_opn e) (fd_of b) (cli_sql ?s) = Some (0, sql)"
        "db_rep tab sql (drop_fd (fd_of b) (x_tab x))"
        using del_fd_ok [OF sys_laws [OF assms(2)] d(1), of "fd_of b"] by auto
      then show ?thesis
        using rx 1 handled.hang_up [OF assms(3), of a] c all_links_changes(3) [OF d(2)]
        by (intro servesI [where s' = "?s\<lparr>cli_sql := sql, srv_closed := srv_closed ?s @ [fd_of b]\<rparr>"
              and x' = "x\<lparr>x_tab := drop_fd (fd_of b) (x_tab x)\<rparr>"])
          (simp_all add: recv_tcp_cli_msg_def Let_def srv_core_def)
    next
      case 2
      obtain sql where "add_tcp_cli_to_database (e_ex e) (e_opn e) (sint (pk_srcid ?m)) (fd_of b) (cli_sql s) = Some (0, sql)"
        "db_rep tab sql (reg_tcp (sint (pk_srcid ?m)) (fd_of b) (x_tab x))"
        using add_tcp_ok [OF sys_laws [OF assms(2)] d(1), of "sint (pk_srcid ?m)" "fd_of b"] by auto
      then show ?thesis
        using rx 2 handled.register_tcp [OF 2(1) assms(3) refl 2(2), of a] assms(1) all_links_changes(1) [OF d(2)]
        by (intro servesI [where s' = "s\<lparr>cli_sql := sql, srv_out := srv_out s @ [Out_tcp (fd_of b) (reg_package (x_self x) (pk_srcid ?m))]\<rparr>"
              and x' = "x\<lparr>x_tab := reg_tcp (sint (pk_srcid ?m)) (fd_of b) (x_tab x),
                x_out := x_out x @ [Out_tcp (fd_of b) (reg_package (x_self x) (pk_srcid ?m))]\<rparr>"])
          (simp_all add: recv_tcp_cli_msg_def Let_def srv_core_def send_msg_by_tcp_def)
    next
      case 3
      obtain s' where "en_srv_msg_queue e (Some ?m) s = Some (QUEUE_SUCCESS, s')" "srv_core tab s' (x\<lparr>x_stack := ?m # x_stack x\<rparr>)"
        "g_srv_thread_pool s' = g_srv_thread_pool s"
        using queue_ok [OF assms(1,2), of ?m] by auto
      then show ?thesis using rx 3 handled.message [OF 3(1) refl 3(2)]
        by (intro servesI [where s' = s']) (simp_all add: recv_tcp_cli_msg_def Let_def)
    qed
  qed
qed

lemma recv_udp_ok:
  assumes "srv_core tab s x" "sys_ok tab e s" "fd_of b = x_udpfd x"
  shows "serves tab (map_option snd (recv_udp_cli_msg e rx (fd_of b) s)) s (handled rx H_process_recv_cli_msg b x)"
proof -
  have d: "db_rep tab (cli_sql s) (x_tab x)" "all_links (x_tab x)" "srv_endid s = x_self x" "srv_out s = x_out x"
    using assms(1) by (simp_all add: srv_core_def)
  show ?thesis
  proof (cases "rx = None \<or> (\<exists>a. rx = Some ([], a))")
    case True
    then have "map_option snd (recv_udp_cli_msg e rx (fd_of b) s) = Some s" by (auto simp: recv_udp_cli_msg_def)
    then show ?thesis using assms(1,3) True handled.no_message [of rx b x] by (intro servesI) auto
  next
    case False
    then obtain bytes a where rx: "rx = Some (bytes, a)" "bytes \<noteq> []" by auto
    let ?m = "recv_package bytes"
    show ?thesis
    proof (cases "pk_type ?m = SAVE_CLI_INFO_lc")
      case True
      let ?e = "sint (pk_srcid ?m)"
      obtain sql where "add_udp_cli_to_database (e_ex e) (e_opn e) ?e (sk_ip a) (sk_port a) (cli_sql s) = Some (0, sql)"
        "db_rep tab sql (reg_udp ?e (sk_ip a) (sk_port a) (x_tab x))"
        using add_udp_ok [OF sys_laws [OF assms(2)] d(1), of ?e] by auto
      then show ?thesis
        using rx True handled.register_udp [OF rx(2) assms(3) refl True, of a] assms(1) all_links_changes(2) [OF d(2)]
        by (intro servesI [where s' = "s\<lparr>cli_sql := sql, srv_out := srv_out s @ [Out_udp (x_udpfd x) a (reg_package (x_self x) (pk_srcid ?m))]\<rparr>"
              and x' = "x\<lparr>x_tab := reg_udp ?e (sk_ip a) (sk_port a) (x_tab x),
                x_out := x_out x @ [Out_udp (x_udpfd x) a (reg_package (x_self x) (pk_srcid ?m))]\<rparr>"])
          (simp_all add: recv_udp_cli_msg_def Let_def srv_core_def send_msg_by_udp_def)
    next
      case False
      obtain s' where "en_srv_msg_queue e (Some ?m) s = Some (QUEUE_SUCCESS, s')" "srv_core tab s' (x\<lparr>x_stack := ?m # x_stack x\<rparr>)"
        "g_srv_thread_pool s' = g_srv_thread_pool s"
        using queue_ok [OF assms(1,2), of ?m] by auto
      then show ?thesis using rx False handled.message [OF rx(2) refl False]
        by (intro servesI [where s' = s']) (simp_all add: recv_udp_cli_msg_def Let_def)
    qed
  qed
qed

lemma recv_ok:
  assumes "srv_core tab s x" "sys_ok tab e s"
  shows "serves tab (map_option snd (process_recv_cli_msg e rx b s)) s (handled rx H_process_recv_cli_msg b x)"
proof -
  have u: "g_srv_udpfd s = x_udpfd x" using assms(1) by (simp add: srv_core_def)
  have eq: "map_option snd (process_recv_cli_msg e rx b s) = map_option snd
      (if fd_of b = x_udpfd x then recv_udp_cli_msg e rx (fd_of b) s else recv_tcp_cli_msg e (map_option fst rx) (fd_of b) s)"
    by (auto simp: process_recv_cli_msg_def Let_def epoll_trigge_udpfd_def u split: bind_splits)
  show ?thesis unfolding eq
    using recv_udp_ok [OF assms(1,2)] recv_tcp_ok [OF assms(1,2)] by simp
qed

lemma forward_ok:
  assumes "srv_core tab s x" "sys_ok tab e s" "entry_reads (x_tab x) (sint (pk_destid b))"
  shows "serves tab (map_option snd (forward_msg_clients e b s)) s (handled rx H_forward_msg_clients b x)"
proof -
  have d: "db_rep tab (cli_sql s) (x_tab x)" and u: "g_srv_udpfd s = x_udpfd x" and o: "srv_out s = x_out x"
    using assms(1) by (simp_all add: srv_core_def)
  let ?e = "sint (pk_destid b)"
  have r: "\<And>l. x_tab x ?e = Some l \<Longrightarrow> readable ?e l"
    using assms(1,3) all_linksD by (auto simp: srv_core_def readable_iff)
  from get_ok [OF sys_laws [OF assms(2)] d _ r]
  obtain sql where sql: "get_cli_by_endid (e_ex e) (e_opn e) ?e (Some zero_handle) (cli_sql s) = Some (0, Some (handle_of (x_tab x ?e)), sql)"
    "db_rep tab sql (x_tab x)" by auto
  show ?thesis
  proof (rule servesI)
    show "handled rx H_forward_msg_clients b x (x\<lparr>x_out := x_out x @ deliver (x_udpfd x) (x_tab x ?e) b\<rparr>)" by (rule handled.forward [OF assms(3)])
    show "map_option snd (forward_msg_clients e b s) =
        Some (s\<lparr>cli_sql := sql, srv_out := srv_out s @ deliver (x_udpfd x) (x_tab x ?e) b\<rparr>)"
      using sql(1) by (simp add: forward_msg_clients_def Let_def deliver_def send_tcp_cli_msg_def send_udp_cli_msg_def u
          split: socket_type_t.split)
  qed (use assms(1) sql(2) in \<open>simp_all add: srv_core_def\<close>)
qed

lemma forward_fault:
  assumes "srv_core tab s x" "sys_ok tab e s" "\<not> entry_reads (x_tab x) (sint (pk_destid b))"
  shows "forward_msg_clients e b s = None"
proof -
  have d: "db_rep tab (cli_sql s) (x_tab x)" and ok: "all_links (x_tab x)" using assms(1) by (simp_all add: srv_core_def)
  let ?e = "sint (pk_destid b)"
  obtain l where l: "x_tab x ?e = Some l" "\<not> reads_back l" using assms(3) by (auto simp: entry_reads_def split: option.splits)
  then obtain ip pt where "x_tab x ?e = Some (udp_link ip pt)" "unat ip \<ge> 2 ^ 31"
    using all_linksD [OF ok l(1)] by (fastforce simp: link_ok_def)
  from get_fault [OF sys_laws [OF assms(2)] d int32_sint this] show ?thesis by (simp add: forward_msg_clients_def Let_def)
qed

lemma run_srv_handler_ok:
  assumes "srv_core tab s x" "sys_ok tab e s" "\<not> handler_faults rx h b x"
  shows "serves tab (run_srv_handler e rx newfd h (Some b) s) s (handled rx h b x)"
proof (cases h)
  case H_dispaly_msg_package
  show ?thesis
    by (rule servesI [where s' = "s\<lparr>srv_shown := srv_shown s @ [dispaly_msg_package b]\<rparr>"
          and x' = "x\<lparr>x_shown := x_shown x @ [dispaly_msg_package b]\<rparr>"])
      (use assms(1) H_dispaly_msg_package handled.shown in \<open>auto simp: run_srv_handler_def srv_core_def\<close>)
next
  case H_process_stdin_msg
  then show ?thesis using stdin_ok [OF assms(1,2), of rx b] assms(3) by (simp add: run_srv_handler_def)
next
  case H_forward_msg_clients
  then show ?thesis using forward_ok [OF assms(1,2)] assms(3) by (simp add: run_srv_handler_def handler_faults_def)
qed (use accept_ok [OF assms(1)] recv_ok [OF assms(1,2)] in \<open>simp_all add: run_srv_handler_def\<close>)

lemma run_srv_handler_fault:
  assumes "srv_core tab s x" "sys_ok tab e s" "handler_faults rx h b x"
  shows "run_srv_handler e rx newfd h (Some b) s = None"
  using assms stdin_fault [OF assms(1,2), of rx b] forward_fault [OF assms(1,2), of b]
  by (cases h) (simp_all add: run_srv_handler_def handler_faults_def)

section \<open>The turns\<close>

lemma post_task_ok:
  assumes "srv_state tab s x" "env_ok tab e s" "i < 2" "0 < length b" "task_ok (h, Some b)"
  shows "\<exists>s'. post_task i e h b (length b) s = Some s' \<and> srv_state tab s' (x\<lparr>x_tasks := x_tasks x @ [(h, Some b)]\<rparr>)"
proof -
  have p: "pool_waiting 6 (g_srv_thread_pool s) (x_tasks x)" "task_alloc_fresh (e_task e) (g_srv_thread_pool s)"
    using assms(1,2) by (simp_all add: srv_state_def env_ok_def)
  obtain pool where "add_task_release 6 i (e_task e) h b (length b) (g_srv_thread_pool s) = Some pool"
    "pool_waiting 6 pool (x_tasks x @ [(h, Some b)])"
    using add_task_release_ok [OF p assms(3,4)] by blast
  then show ?thesis using assms(1,5)
    by (simp add: post_task_def add_task_to_server_pool_release_arg_mem_def srv_state_def)
qed

lemma length_fd_bytes [simp]: "length (fd_bytes k) = 4"
  by (simp add: fd_bytes_def bytes_of_word_def)

lemma task_ok_event: "task_ok (event_handler k s, Some b)"
  by (simp add: event_handler_def)

lemma ready_ok:
  assumes "srv_state tab s x" "env_ok tab e s"
  shows "\<exists>s' x'. server_step (Ready e k) s = Some s' \<and> spec_step (Ready e k) x x' \<and> srv_state tab s' x'"
proof -
  have t: "g_srv_tcpfd s = x_tcpfd x" using assms(1) by (simp add: srv_state_def srv_core_def)
  obtain s' where "post_task 0 e (event_handler k s) (fd_bytes k) 4 s = Some s'"
    "srv_state tab s' (x\<lparr>x_tasks := x_tasks x @ [(event_handler k s, Some (fd_bytes k))]\<rparr>)"
    using post_task_ok [OF assms, of 0 "fd_bytes k" "event_handler k s"] task_ok_event by auto
  moreover have "spec_step (Ready e k) x (x\<lparr>x_tasks := x_tasks x @ [(event_handler k s, Some (fd_bytes k))]\<rparr>)"
    by (rule spec_step.ready) (simp add: event_handler_def epoll_trigge_tcpfd_def t)
  ultimately show ?thesis by (auto simp: server_epoll_thread_round_def)
qed

lemma turn_ok:
  assumes "srv_state tab s x" "env_ok tab e s"
  shows "\<exists>s' x'. server_step (Msg_turn e buf) s = Some s' \<and> spec_step (Msg_turn e buf) x x' \<and> srv_state tab s' x'"
proof -
  have q: "msgs_rep s (x_stack x)" and self: "srv_endid s = x_self x" using assms(1) by (simp_all add: srv_state_def srv_core_def)
  obtain q m where d: "de_srv_msg_queue e buf s = Some (if x_stack x = [] then QUEUE_EMPTY else QUEUE_SUCCESS,
      if x_stack x = [] then buf else hd (x_stack x), s\<lparr>srv_queue := q, srv_mem := m\<rparr>)"
    "msgs_rep (s\<lparr>srv_queue := q, srv_mem := m\<rparr>) (tl (x_stack x))"
    using de_srv_msg_queue_ok [OF q] assms(2) unfolding env_ok_def by blast
  let ?s = "s\<lparr>srv_queue := q, srv_mem := m\<rparr>"
  show ?thesis
  proof (cases "x_stack x")
    case Nil
    then have "srv_state tab ?s x" using assms(1) d(2) by (simp add: srv_state_def srv_core_def)
    then show ?thesis using d(1) Nil spec_step.no_turn [OF Nil] by (auto simp: socket_msg_process_thread_round_def)
  next
    case (Cons b ms)
    let ?h = "if pk_destid b = x_self x then H_dispaly_msg_package else H_forward_msg_clients"
    let ?x = "x\<lparr>x_stack := ms\<rparr>"
    have st: "srv_state tab ?s ?x" and wf: "wf_package b"
      using assms(1) d(2) Cons by (simp_all add: srv_state_def srv_core_def)
    have p: "pool_waiting 6 (g_srv_thread_pool ?s) (x_tasks ?x)" "task_alloc_fresh (e_task e) (g_srv_thread_pool ?s)"
      using assms by (simp_all add: srv_state_def env_ok_def)
    have len: "length b = sizeof_package" "0 < length b" using wf by (simp_all add: wf_package_def sizeof_package_def)
    obtain pool where "add_task_release 6 1 (e_task e) ?h b sizeof_package (g_srv_thread_pool ?s) = Some pool"
      "pool_waiting 6 pool (x_tasks x @ [(?h, Some b)])"
      using add_task_release_ok [OF p _ len(2), of 1 ?h] len(1) by auto
    then have "post_task 1 e ?h b sizeof_package ?s = Some (?s\<lparr>g_srv_thread_pool := pool\<rparr>)"
      "srv_state tab (?s\<lparr>g_srv_thread_pool := pool\<rparr>) (x\<lparr>x_stack := ms, x_tasks := x_tasks x @ [(?h, Some b)]\<rparr>)"
      using st wf by (simp_all add: post_task_def add_task_to_server_pool_release_arg_mem_def srv_state_def srv_core_def)
    then show ?thesis using d(1) Cons self spec_step.turn [OF Cons refl, of e buf]
      by (intro exI [of _ "?s\<lparr>g_srv_thread_pool := pool\<rparr>"] exI [of _ "x\<lparr>x_stack := ms, x_tasks := x_tasks x @ [(?h, Some b)]\<rparr>"])
        (auto simp: socket_msg_process_thread_round_def)
  qed
qed

definition step_same :: "('db \<Rightarrow> (int \<rightharpoonup> link) option) \<Rightarrow> 'db srv_event \<Rightarrow> 'db lc_server \<Rightarrow> sspec \<Rightarrow> bool" where
  "step_same tab ev s x \<longleftrightarrow> (if spec_faults ev x then server_step ev s = None
     else \<exists>s' x'. server_step ev s = Some s' \<and> spec_step ev x x' \<and> srv_state tab s' x')"

lemma work_ok:
  assumes "srv_state tab s x" "event_ok tab (Work i e rx newfd) s"
  shows "step_same tab (Work i e rx newfd) s x"
proof -
  have c: "srv_core tab s x" and ok: "\<forall>t \<in> set (x_tasks x). task_ok t" using assms(1) by (simp_all add: srv_state_def)
  have e: "sys_ok tab e s" "i < 6" using assms(2) by simp_all
  obtain pool where pool: "g_srv_thread_pool s = Some pool" "waiting 6 pool (x_tasks x)"
    using assms by (auto simp: srv_state_def pool_waiting_def)
  show ?thesis
  proof (cases "x_tasks x")
    case Nil
    then obtain pool' where "take_task i pool = Some (None, pool')" "waiting 6 pool' []"
      using take_task_none [OF _ e(2)] pool(2) by auto
    then have "\<exists>s' x'. server_step (Work i e rx newfd) s = Some s' \<and> spec_step (Work i e rx newfd) x x' \<and> srv_state tab s' x'"
      using pool(1) c Nil spec_step.no_work [OF Nil, of i e rx newfd]
      by (intro exI [of _ "s\<lparr>g_srv_thread_pool := Some pool'\<rparr>"] exI [of _ x]) (auto simp: server_worker_turn_def srv_state_def pool_waiting_def)
    then show ?thesis using Nil by (simp add: step_same_def)
  next
    case (Cons t0 ts)
    obtain h b where t0: "t0 = (h, Some b)" using ok Cons by (cases t0; cases "snd t0") auto
    obtain t p1 p2 where t: "take_task i pool = Some (Some t, p1)" "arg_seen (args p1) t (h, Some b)"
      "spool_step (Step_thread i) p1 = Some p2" "waiting 6 p2 ts"
      using take_task_ok [OF _ e(2), of pool h "Some b" ts] pool(2) Cons t0 by auto
    let ?s = "s\<lparr>g_srv_thread_pool := Some p1\<rparr>" and ?x = "x\<lparr>x_tasks := ts\<rparr>"
    have core: "srv_core tab ?s ?x" using c by simp
    have sys: "sys_ok tab e ?s" using e(1) by (simp add: sys_ok_def)
    have a: "handler t = h" "args p1 (arg t) = Some b" using t(2) by (simp_all add: arg_seen_def)
    have same: "handler_faults rx h b ?x = handler_faults rx h b x" by (simp add: handler_faults_def split: srv_handler.split)
    show ?thesis
    proof (cases "handler_faults rx h b x")
      case True
      then have "server_worker_turn i e rx newfd s = None"
        unfolding server_worker_turn_def pool(1) using t(1) run_srv_handler_fault [OF core sys, of rx h b newfd] same a by simp
      then show ?thesis using True Cons t0 by (simp add: step_same_def)
    next
      case False
      obtain s1 x1 where r: "run_srv_handler e rx newfd h (Some b) ?s = Some s1" "handled rx h b ?x x1" "srv_core tab s1 x1"
        "g_srv_thread_pool s1 = Some p1"
        using run_srv_handler_ok [OF core sys, of rx h b newfd] False same by (auto simp: serves_def)
      let ?s2 = "s1\<lparr>g_srv_thread_pool := Some p2\<rparr>"
      have "server_worker_turn i e rx newfd s = Some ?s2"
        unfolding server_worker_turn_def pool(1) using t(1,3) r(1,4) a by simp
      moreover have "spec_step (Work i e rx newfd) x x1" by (rule spec_step.work [OF _ r(2)]) (simp add: Cons t0)
      moreover have "x_tasks x1 = ts" using handled_tasks [OF r(2)] by simp
      then have "srv_state tab ?s2 x1"
        using r(3) t(4) ok Cons by (simp add: srv_state_def pool_waiting_def)
      ultimately have "\<exists>s' x'. server_step (Work i e rx newfd) s = Some s' \<and> spec_step (Work i e rx newfd) x x' \<and> srv_state tab s' x'"
        unfolding server_step.simps by blast
      then show ?thesis using False Cons t0 by (simp add: step_same_def)
    qed
  qed
qed

lemma server_step_ok:
  assumes "srv_state tab s x" "event_ok tab ev s"
  shows "step_same tab ev s x"
proof (cases ev)
  case (Ready e k)
  then show ?thesis using ready_ok [OF assms(1), of e k] assms(2) by (simp add: step_same_def)
next
  case (Msg_turn e buf)
  then show ?thesis using turn_ok [OF assms(1), of e buf] assms(2) by (simp add: step_same_def)
next
  case (Work i e rx newfd)
  then show ?thesis using work_ok [OF assms(1)] assms(2) by blast
qed

section \<open>Events whose blocks are unused\<close>

definition srv_uses :: "'db lc_server \<Rightarrow> addr set" where
  "srv_uses s = live (srv_mem s) \<union> pool_uses (g_srv_thread_pool s)"

definition env_addrs :: "'db senv \<Rightarrow> addr list" where
  "env_addrs e = [e_qhead e, e_qnode e, tk_queue (e_task e), tk_arg (e_task e), tk_node (e_task e)]"

fun ev_env :: "'db srv_event \<Rightarrow> 'db senv" where
  "ev_env (Ready e k) = e"
| "ev_env (Msg_turn e buf) = e"
| "ev_env (Work i e rx newfd) = e"

definition engine_ok :: "('db \<Rightarrow> (int \<rightharpoonup> link) option) \<Rightarrow> 'db srv_event \<Rightarrow> bool" where
  "engine_ok tab ev \<longleftrightarrow> sqlite_laws (e_ex (ev_env ev)) tab \<and> db_new tab (e_opn (ev_env ev)) \<and>
     (case ev of Work i e rx newfd \<Rightarrow> i < 6 | _ \<Rightarrow> True)"

lemma unused_env_ok:
  assumes "sqlite_laws (e_ex e) tab" "db_new tab (e_opn e)" "distinct (env_addrs e)" "set (env_addrs e) \<inter> insert NULL (srv_uses s) = {}"
  shows "env_ok tab e s"
proof -
  have "task_alloc_fresh (e_task e) (g_srv_thread_pool s)"
    by (rule unused_fresh) (use assms(3,4) in \<open>auto simp: srv_uses_def env_addrs_def\<close>)
  then show ?thesis using assms by (auto simp: env_ok_def sys_ok_def fresh_def srv_uses_def env_addrs_def)
qed

lemma msg_queue_live:
  "en_msg_to_queue q t p m = Some (r, m') \<Longrightarrow> live m' \<subseteq> insert p (live m)"
  "de_msg_from_queue q out m = Some (r, out', m') \<Longrightarrow> live m' \<subseteq> live m"
  "init_msg_queue p m = Some (q, m') \<Longrightarrow> live m' \<subseteq> insert p (live m)"
proof -
  show "en_msg_to_queue q t p m = Some (r, m') \<Longrightarrow> live m' \<subseteq> insert p (live m)"
    using writes_live(4) [of p m]
    by (fastforce simp: en_msg_to_queue_def Let_def bind_eq_Some_conv split: option.splits if_splits
        dest!: writes_live(3) list_ops_live(2))
  show "de_msg_from_queue q out m = Some (r, out', m') \<Longrightarrow> live m' \<subseteq> live m"
    by (fastforce simp: de_msg_from_queue_def bind_eq_Some_conv split: if_splits dest!: writes_live(5) list_ops_live(3))
  show "init_msg_queue p m = Some (q, m') \<Longrightarrow> live m' \<subseteq> insert p (live m)"
    using writes_live(4) [of p m] by (auto simp: init_msg_queue_def Let_def bind_eq_Some_conv dest!: list_ops_live(4))
qed

lemma init_srv_live:
  assumes "(if srv_queue s = NULL then map_option snd (init_srv_msg_queue e s) else Some s) = Some s'"
  shows "live (srv_mem s') \<subseteq> insert (e_qhead e) (live (srv_mem s)) \<and> g_srv_thread_pool s' = g_srv_thread_pool s"
  using assms by (auto simp: init_srv_msg_queue_def bind_eq_Some_conv split: if_splits dest!: msg_queue_live(3))

lemma srv_queue_live:
  "en_srv_msg_queue e b s = Some (r, s') \<Longrightarrow>
    live (srv_mem s') \<subseteq> live (srv_mem s) \<union> set (env_addrs e) \<and> g_srv_thread_pool s' = g_srv_thread_pool s"
  "de_srv_msg_queue e buf s = Some (r, out, s') \<Longrightarrow>
    live (srv_mem s') \<subseteq> live (srv_mem s) \<union> set (env_addrs e) \<and> g_srv_thread_pool s' = g_srv_thread_pool s"
proof -
  assume "en_srv_msg_queue e b s = Some (r, s')"
  then obtain s1 m where "(if srv_queue s = NULL then map_option snd (init_srv_msg_queue e s) else Some s) = Some s1"
    "en_msg_to_queue (srv_queue s1) (map_option Some b) (e_qnode e) (srv_mem s1) = Some (r, m)" "s' = s1\<lparr>srv_mem := m\<rparr>"
    by (auto simp: en_srv_msg_queue_def bind_eq_Some_conv)
  then show "live (srv_mem s') \<subseteq> live (srv_mem s) \<union> set (env_addrs e) \<and> g_srv_thread_pool s' = g_srv_thread_pool s"
    using init_srv_live [of s e s1] msg_queue_live(1) [of "srv_queue s1" "map_option Some b" "e_qnode e" "srv_mem s1" r m]
    by (auto simp: env_addrs_def)
next
  assume "de_srv_msg_queue e buf s = Some (r, out, s')"
  then obtain s1 m out' where "(if srv_queue s = NULL then map_option snd (init_srv_msg_queue e s) else Some s) = Some s1"
    "de_msg_from_queue (srv_queue s1) (Some (Some buf)) (srv_mem s1) = Some (r, out', m)" "s' = s1\<lparr>srv_mem := m\<rparr>"
    by (auto simp: de_srv_msg_queue_def bind_eq_Some_conv)
  then show "live (srv_mem s') \<subseteq> live (srv_mem s) \<union> set (env_addrs e) \<and> g_srv_thread_pool s' = g_srv_thread_pool s"
    using init_srv_live [of s e s1] msg_queue_live(2) [of "srv_queue s1" "Some (Some buf)" "srv_mem s1" r out' m]
    by (auto simp: env_addrs_def)
qed

lemma epoll_mem [simp]:
  "srv_mem (snd (add_fd_to_srv_epoll e k s)) = srv_mem s" "srv_mem (snd (del_fd_from_srv_epoll e k s)) = srv_mem s"
  by (simp_all add: epoll_defs Let_def)

lemma recv_uses:
  "recv_tcp_cli_msg e rx k s = Some (r, s') \<Longrightarrow>
    live (srv_mem s') \<subseteq> live (srv_mem s) \<union> set (env_addrs e) \<and> g_srv_thread_pool s' = g_srv_thread_pool s"
  "recv_udp_cli_msg e rx' k s = Some (r, s') \<Longrightarrow>
    live (srv_mem s') \<subseteq> live (srv_mem s) \<union> set (env_addrs e) \<and> g_srv_thread_pool s' = g_srv_thread_pool s"
  by (auto simp: recv_tcp_cli_msg_def recv_udp_cli_msg_def send_msg_by_tcp_def send_msg_by_udp_def Let_def bind_eq_Some_conv split: option.splits if_splits prod.splits
      dest: srv_queue_live(1))

lemma handler_uses:
  assumes "run_srv_handler e rx newfd h a s = Some s'"
  shows "live (srv_mem s') \<subseteq> live (srv_mem s) \<union> set (env_addrs e) \<and> g_srv_thread_pool s' = g_srv_thread_pool s"
proof (cases h)
  case H_process_recv_cli_msg
  then show ?thesis using assms
    by (auto simp: run_srv_handler_def process_recv_cli_msg_def Let_def bind_eq_Some_conv split: if_splits dest: recv_uses)
next
  case H_forward_msg_clients
  then obtain b r where b: "forward_msg_clients e b s = Some (r, s')"
    using assms by (auto simp: run_srv_handler_def bind_eq_Some_conv)
  then obtain sock sql where "s' = (case socket_type sock of UNSET \<Rightarrow> s\<lparr>cli_sql := sql\<rparr>
      | TCP_LINK \<Rightarrow> snd (send_tcp_cli_msg sock b (s\<lparr>cli_sql := sql\<rparr>))
      | UDP_LINK \<Rightarrow> snd (send_udp_cli_msg sock b (s\<lparr>cli_sql := sql\<rparr>)))"
    by (auto simp: forward_msg_clients_def Let_def bind_eq_Some_conv)
  then show ?thesis by (cases "socket_type sock") (simp_all add: send_tcp_cli_msg_def send_udp_cli_msg_def)
qed (use assms in \<open>auto simp: run_srv_handler_def bind_eq_Some_conv process_stdin_msg_def process_accept_tcp_link_def Let_def
    split: option.splits if_splits\<close>)

lemma post_task_uses:
  assumes "post_task i e h b n s = Some s'"
  shows "srv_mem s' = srv_mem s" "pool_uses (g_srv_thread_pool s') \<subseteq> pool_uses (g_srv_thread_pool s) \<union> set (env_addrs e)"
    "g_srv_thread_pool s' \<noteq> None"
proof -
  obtain pool where p: "add_task_release 6 i (e_task e) h b n (g_srv_thread_pool s) = Some pool" "s' = s\<lparr>g_srv_thread_pool := pool\<rparr>"
    using assms by (auto simp: post_task_def add_task_to_server_pool_release_arg_mem_def bind_eq_Some_conv)
  then show "srv_mem s' = srv_mem s" "g_srv_thread_pool s' \<noteq> None"
    by (auto simp: add_task_release_def bind_eq_Some_conv)
  show "pool_uses (g_srv_thread_pool s') \<subseteq> pool_uses (g_srv_thread_pool s) \<union> set (env_addrs e)"
    using add_task_release_uses [OF p(1)] p(2) by (auto simp: env_addrs_def)
qed

lemma worker_uses:
  assumes "server_worker_turn i e rx newfd s = Some s'"
  shows "srv_uses s' \<subseteq> srv_uses s \<union> set (env_addrs e) \<and> g_srv_thread_pool s' \<noteq> None"
proof -
  obtain pool t p1 where p: "g_srv_thread_pool s = Some pool" "take_task i pool = Some (t, p1)"
    using assms by (auto simp: server_worker_turn_def bind_eq_Some_conv)
  have u: "pool_uses (Some p1) \<subseteq> pool_uses (Some pool)" using take_task_uses [OF p(2)] .
  show ?thesis
  proof (cases t)
    case None
    then have "s' = s\<lparr>g_srv_thread_pool := Some p1\<rparr>" using assms p by (simp add: server_worker_turn_def)
    then show ?thesis using u p(1) by (auto simp: srv_uses_def)
  next
    case (Some t)
    let ?s = "s\<lparr>g_srv_thread_pool := Some p1\<rparr>"
    obtain s1 p2 p3 where s1: "run_srv_handler e rx newfd (handler t) (args p1 (arg t)) ?s = Some s1" "g_srv_thread_pool s1 = Some p2"
      "spool_step (Step_thread i) p2 = Some p3" "s' = s1\<lparr>g_srv_thread_pool := Some p3\<rparr>"
      using assms p Some by (auto simp: server_worker_turn_def bind_eq_Some_conv simp del: spool_step.simps)
    have "live (srv_mem s1) \<subseteq> live (srv_mem s) \<union> set (env_addrs e)" "p2 = p1"
      using handler_uses [OF s1(1)] s1(2) by simp_all
    moreover have "pool_uses (Some p3) \<subseteq> pool_uses (Some p2)" using worker_frees [OF s1(3)] .
    moreover have "srv_uses s' = live (srv_mem s1) \<union> pool_uses (Some p3)" using s1(4) by (simp add: srv_uses_def)
    moreover have "srv_uses s = live (srv_mem s) \<union> pool_uses (Some pool)" using p(1) by (simp add: srv_uses_def)
    ultimately show ?thesis using u s1(4) by (auto simp del: Un_insert_left)
  qed
qed

lemma server_step_uses:
  assumes "server_step ev s = Some s'"
  shows "srv_uses s' \<subseteq> srv_uses s \<union> set (env_addrs (ev_env ev)) \<and> (g_srv_thread_pool s \<noteq> None \<longrightarrow> g_srv_thread_pool s' \<noteq> None)"
proof (cases ev)
  case (Ready e k)
  then have "post_task 0 e (event_handler k s) (fd_bytes k) 4 s = Some s'"
    using assms by (auto simp: server_epoll_thread_round_def bind_eq_Some_conv)
  from post_task_uses [OF this] show ?thesis using Ready by (auto simp: srv_uses_def)
next
  case (Msg_turn e buf)
  then obtain m where m: "socket_msg_process_thread_round e buf s = Some (m, s')" using assms by auto
  then obtain ret b s1 where d: "de_srv_msg_queue e buf s = Some (ret, b, s1)"
    "s' = s1 \<or> (\<exists>h. post_task 1 e h b sizeof_package s1 = Some s')"
    by (auto simp: socket_msg_process_thread_round_def bind_eq_Some_conv split: if_splits)
  have l: "live (srv_mem s1) \<subseteq> live (srv_mem s) \<union> set (env_addrs e)" "g_srv_thread_pool s1 = g_srv_thread_pool s"
    using srv_queue_live(2) [OF d(1)] by simp_all
  from d(2) show ?thesis
  proof
    assume "s' = s1"
    with l show ?thesis using Msg_turn by (auto simp: srv_uses_def)
  next
    assume "\<exists>h. post_task 1 e h b sizeof_package s1 = Some s'"
    then obtain h where "post_task 1 e h b sizeof_package s1 = Some s'" by blast
    from post_task_uses [OF this] show ?thesis using l Msg_turn by (auto simp: srv_uses_def)
  qed
next
  case (Work i e rx newfd)
  then show ?thesis using assms worker_uses [of i e rx newfd s s'] by simp
qed

lemma unused_event_ok:
  assumes "engine_ok tab ev" "distinct (env_addrs (ev_env ev))" "set (env_addrs (ev_env ev)) \<inter> insert NULL (srv_uses s) = {}"
    "g_srv_thread_pool s \<noteq> None"
  shows "event_ok tab ev s"
proof -
  have "env_ok tab (ev_env ev) s" using unused_env_ok [OF _ _ assms(2,3)] assms(1) by (simp add: engine_ok_def)
  then show ?thesis using assms(1,4) by (cases ev) (auto simp: engine_ok_def env_ok_def)
qed

text \<open>When every block the events allocate is new, all of them are as assumed.\<close>

lemma unused_events_ok:
  assumes "\<forall>ev \<in> set evs. engine_ok tab ev" "distinct (concat (map (\<lambda>ev. env_addrs (ev_env ev)) evs))"
    "set (concat (map (\<lambda>ev. env_addrs (ev_env ev)) evs)) \<inter> insert NULL (srv_uses s) = {}" "g_srv_thread_pool s \<noteq> None"
  shows "events_ok tab evs s"
  using assms
proof (induction evs arbitrary: s)
  case (Cons ev evs)
  let ?as = "set (concat (map (\<lambda>ev. env_addrs (ev_env ev)) evs))"
  have ok: "event_ok tab ev s"
    by (rule unused_event_ok) (use Cons.prems in auto)
  moreover have "events_ok tab evs s'" if "server_step ev s = Some s'" for s'
  proof (rule Cons.IH)
    have "srv_uses s' \<subseteq> srv_uses s \<union> set (env_addrs (ev_env ev))" using server_step_uses [OF that] by blast
    moreover have "?as \<inter> set (env_addrs (ev_env ev)) = {}" "?as \<inter> insert NULL (srv_uses s) = {}" using Cons.prems(2,3) by auto
    ultimately show "?as \<inter> insert NULL (srv_uses s') = {}" by blast
    show "g_srv_thread_pool s' \<noteq> None" using server_step_uses [OF that] Cons.prems(4) by blast
  qed (use Cons.prems in auto)
  ultimately show ?case by (auto split: option.splits)
qed simp

section \<open>Runs of the abstract server\<close>

inductive_simps spec_run_simps [simp]: "spec_run [] x x'" "spec_run (ev # evs) x x'"
inductive_simps spec_ready [simp]: "spec_step (Ready e k) x x'"
inductive_simps spec_turn: "spec_step (Msg_turn e buf) x x'"
inductive_simps spec_work: "spec_step (Work i e rx newfd) x x'"
inductive_simps handled_recv: "handled (Some (bytes, a)) H_process_recv_cli_msg b x x'"
inductive_simps handled_forward [simp]: "handled rx H_forward_msg_clients b x x'"
inductive_simps handled_shown [simp]: "handled rx H_dispaly_msg_package b x x'"
inductive_simps handled_line: "handled (Some (bytes, a)) H_process_stdin_msg b x x'"

lemma spec_work_task [simp]:
  "x_tasks x = (h, Some b) # ts \<Longrightarrow> spec_step (Work i e rx newfd) x x' \<longleftrightarrow> handled rx h b (x\<lparr>x_tasks := ts\<rparr>) x'"
  by (auto simp: spec_work)

lemma spec_turn_msg [simp]:
  "x_stack x = m # ms \<Longrightarrow> spec_step (Msg_turn e buf) x x' \<longleftrightarrow> x' = x\<lparr>x_stack := ms,
     x_tasks := x_tasks x @ [(if pk_destid m = x_self x then H_dispaly_msg_package else H_forward_msg_clients, Some m)]\<rparr>"
  by (auto simp: spec_turn)

lemma fd_of_fd_bytes [simp]: "int32 k \<Longrightarrow> fd_of (fd_bytes k) = k"
proof -
  assume "int32 k"
  moreover have "word_at (bytes_of_word w) 0 = w" for w :: "32 word"
    using word_at_put_same [of 0 "replicate 4 0" w] by (simp add: put_at_def bytes_of_word_def)
  ultimately show ?thesis by (simp add: fd_of_def fd_bytes_def int32_def sint_sbintrunc' signed_take_bit_int_eq_self)
qed

lemma received [simp]:
  "wf_package b \<Longrightarrow> pk_type b \<noteq> SAVE_CLI_INFO_lc \<Longrightarrow>
   handled (Some (b, a)) H_process_recv_cli_msg c x x' \<longleftrightarrow> x' = x\<lparr>x_stack := b # x_stack x\<rparr>"
  by (auto simp: handled_recv recv_package_whole wf_package_nonempty)

lemma registered_tcp [simp]:
  "wf_package b \<Longrightarrow> pk_type b = SAVE_CLI_INFO_lc \<Longrightarrow> fd_of c \<noteq> x_udpfd x \<Longrightarrow>
   handled (Some (b, a)) H_process_recv_cli_msg c x x' \<longleftrightarrow> x' = x\<lparr>x_tab := reg_tcp (sint (pk_srcid b)) (fd_of c) (x_tab x),
      x_out := x_out x @ [Out_tcp (fd_of c) (reg_package (x_self x) (pk_srcid b))]\<rparr>"
  by (auto simp: handled_recv recv_package_whole wf_package_nonempty)

lemma registered_udp [simp]:
  "wf_package b \<Longrightarrow> pk_type b = SAVE_CLI_INFO_lc \<Longrightarrow> fd_of c = x_udpfd x \<Longrightarrow>
   handled (Some (b, a)) H_process_recv_cli_msg c x x' \<longleftrightarrow> x' = x\<lparr>x_tab := reg_udp (sint (pk_srcid b)) (sk_ip a) (sk_port a) (x_tab x),
      x_out := x_out x @ [Out_udp (x_udpfd x) a (reg_package (x_self x) (pk_srcid b))]\<rparr>"
  by (auto simp: handled_recv recv_package_whole wf_package_nonempty)

text \<open>
  The implementation and its specification over a run: it returns in a state that represents one the specification
  reaches, or it is undefined at an event at which the specification faults.
\<close>

definition run_same :: "('db \<Rightarrow> (int \<rightharpoonup> link) option) \<Rightarrow> 'db srv_event list \<Rightarrow> 'db lc_server \<Rightarrow> sspec \<Rightarrow> bool" where
  "run_same tab evs s x \<longleftrightarrow>
     (case server_run evs s of
        Some s' \<Rightarrow> \<exists>x'. spec_run evs x x' \<and> srv_state tab s' x'
      | None \<Rightarrow> \<exists>evs1 ev evs2 x1. evs = evs1 @ ev # evs2 \<and> spec_run evs1 x x1 \<and> spec_faults ev x1)"

lemma server_run_ok:
  assumes "srv_state tab s x" "events_ok tab evs s"
  shows "run_same tab evs s x"
  using assms
proof (induction evs arbitrary: s x)
  case (Cons ev evs)
  have "event_ok tab ev s" using Cons.prems(2) by simp
  note step = server_step_ok [OF Cons.prems(1) this]
  show ?case
  proof (cases "spec_faults ev x")
    case True
    then have "\<exists>evs1 ev' evs2 x1. ev # evs = evs1 @ ev' # evs2 \<and> spec_run evs1 x x1 \<and> spec_faults ev' x1"
      by (intro exI [of _ "[]"] exI [of _ ev] exI [of _ evs] exI [of _ x]) simp
    then show ?thesis using step True by (simp add: step_same_def run_same_def)
  next
    case False
    then obtain s1 x1 where 1: "server_step ev s = Some s1" "spec_step ev x x1" "srv_state tab s1 x1"
      using step by (auto simp: step_same_def)
    have "run_same tab evs s1 x1" using Cons.IH [OF 1(3)] Cons.prems(2) 1(1) by simp
    moreover have "\<exists>evs1' ev' evs2. ev # evs = evs1' @ ev' # evs2 \<and> spec_run evs1' x x2 \<and> spec_faults ev' x2"
      if "evs = evs1 @ ev' # evs2" "spec_run evs1 x1 x2" "spec_faults ev' x2" for evs1 ev' evs2 x2
      using that 1(2) by (intro exI [of _ "ev # evs1"] exI [of _ ev'] exI [of _ evs2]) auto
    ultimately show ?thesis using 1(1,2) by (fastforce simp: run_same_def split: option.splits)
  qed
qed (simp add: run_same_def)

text \<open>No run of the specification faults, whatever it chooses.\<close>

fun spec_safe :: "'db srv_event list \<Rightarrow> sspec \<Rightarrow> bool" where
  "spec_safe [] x \<longleftrightarrow> True"
| "spec_safe (ev # evs) x \<longleftrightarrow> \<not> spec_faults ev x \<and> (\<forall>x'. spec_step ev x x' \<longrightarrow> spec_safe evs x')"

lemma spec_safe_append: "spec_safe (xs @ ys) x \<longleftrightarrow> spec_safe xs x \<and> (\<forall>x'. spec_run xs x x' \<longrightarrow> spec_safe ys x')"
  by (induction xs arbitrary: x) auto

lemma server_run_returns:
  assumes "srv_state tab s x" "events_ok tab evs s" "spec_safe evs x"
  shows "\<exists>s' x'. server_run evs s = Some s' \<and> spec_run evs x x' \<and> srv_state tab s' x'"
proof -
  have "\<not> (evs = evs1 @ ev # evs2 \<and> spec_run evs1 x x1 \<and> spec_faults ev x1)" for evs1 ev evs2 x1
    using assms(3) by (auto simp: spec_safe_append)
  then show ?thesis using server_run_ok [OF assms(1,2)] by (auto simp: run_same_def split: option.splits)
qed

text \<open>A step in which the abstract server has no choice.\<close>

lemma server_run_exact:
  assumes "srv_state tab s x" "events_ok tab evs s" "spec_safe evs x" "\<And>x'. spec_run evs x x' \<Longrightarrow> P x'"
  shows "\<exists>s' x'. server_run evs s = Some s' \<and> srv_state tab s' x' \<and> P x'"
  using server_run_returns [OF assms(1-3)] assms(4) by blast

text \<open>With low addresses in the table and in the events, nothing faults.\<close>

fun low_sender :: "'db srv_event \<Rightarrow> bool" where
  "low_sender (Work i e (Some (bytes, a)) newfd) \<longleftrightarrow> unat (sk_ip a) < 2 ^ 31"
| "low_sender ev \<longleftrightarrow> True"

lemma handled_low:
  "handled rx h b x x' \<Longrightarrow> all_read_back (x_tab x) \<Longrightarrow> (case rx of None \<Rightarrow> True | Some (bytes, a) \<Rightarrow> unat (sk_ip a) < 2 ^ 31) \<Longrightarrow>
   all_read_back (x_tab x')"
  by (induction rule: handled.induct) (simp_all add: all_read_back_changes)

lemma spec_step_low:
  assumes "spec_step ev x x'" "all_read_back (x_tab x)" "low_sender ev"
  shows "all_read_back (x_tab x')"
  using assms
proof (cases rule: spec_step.cases)
  case (work h b ts rx i e newfd)
  have "case rx of None \<Rightarrow> True | Some (bytes, a) \<Rightarrow> unat (sk_ip a) < 2 ^ 31"
    using assms(3) work(1) by (auto split: option.splits)
  then show ?thesis using handled_low [OF work(3)] assms(2) by simp
qed auto

lemma low_safe: "all_read_back (x_tab x) \<Longrightarrow> \<forall>ev \<in> set evs. low_sender ev \<Longrightarrow> spec_safe evs x"
proof (induction evs arbitrary: x)
  case (Cons ev evs)
  have "\<not> spec_faults ev x" using Cons.prems(1)
    by (cases ev) (auto simp: handler_faults_def entry_reads_def dest: all_read_backD split: list.splits prod.splits option.splits srv_handler.splits)
  then show ?case using Cons spec_step_low [of ev x] by auto
qed simp

lemma state_out: "srv_state tab s x \<Longrightarrow> srv_out s = x_out x \<and> srv_shown s = x_shown x"
  by (simp add: srv_state_def srv_core_def)

end
