(* ===== verification/Sock_Forward.thy ===== *)
theory Sock_Forward
  imports Sock_Spec
begin

text \<open>
  What the \<open>socket\<close> server does for its clients, as consequences of the step relation of \<open>Sock_Spec\<close>: it
  starts empty, registers, forwards, broadcasts, and reverses the order of messages that wait together.
\<close>

section \<open>A server to start from\<close>

text \<open>The static variables when the program starts.\<close>

definition new_server :: "32 word \<Rightarrow> 'db lc_server" where
  "new_server self = \<lparr>g_epfd = 0, epoll_fds = [], g_srv_tcpfd = 0, g_srv_udpfd = 0, srv_endid = self, cli_sql = Null,
     srv_queue = NULL, srv_mem = empty_mem, g_srv_thread_pool = None, srv_out = [], srv_shown = [], srv_closed = [], srv_threads = []\<rparr>"

definition new_spec :: "32 word \<Rightarrow> int \<Rightarrow> int \<Rightarrow> sspec" where
  "new_spec self tcpfd udpfd = \<lparr>x_self = self, x_tcpfd = tcpfd, x_udpfd = udpfd, x_tab = Map.empty, x_stack = [], x_tasks = [],
     x_out = [], x_shown = []\<rparr>"

lemma started_pool:
  assumes "q \<noteq> NULL"
  shows "pool_waiting 6 (Some (get_pool 6 q None)) []" "pool_uses (Some (get_pool 6 q None :: 'h spool)) = {q}"
proof -
  let ?al = "\<lparr>tk_queue = q, tk_arg = q, tk_node = q + 1\<rparr>"
  have "task_alloc_fresh ?al None" using assms by (simp add: task_alloc_fresh_def)
  then show "pool_waiting 6 (Some (get_pool 6 q None)) []"
    using get_pool_ok(1) [of 6 None "[]" ?al] by (simp add: pool_waiting_def)
  show "pool_uses (Some (get_pool 6 q None :: 'h spool)) = {q}"
    using init_live [OF assms, of 6 2, where 'h = 'h] by (simp add: pool_uses_def get_pool_def)
qed

text \<open>Opening a module changes the epoll instance and its own descriptor only.\<close>

definition epoll_changed :: "'db lc_server \<Rightarrow> 'db lc_server \<Rightarrow> bool" where
  "epoll_changed s s' \<longleftrightarrow> s' = s\<lparr>g_epfd := g_epfd s', epoll_fds := epoll_fds s'\<rparr>"

lemma epoll_opened:
  "epoll_changed s (snd (init_server_epoll e s))" "epoll_changed s (snd (add_fd_to_srv_epoll e k s))"
  by (simp_all add: epoll_changed_def epoll_defs Let_def)

lemma sockets_opened:
  "epoll_changed (s\<lparr>g_srv_tcpfd := if CHECK_FD (g_srv_tcpfd s) then g_srv_tcpfd s else k\<rparr>) (snd (init_server_tcp e k o1 b l s))"
  "epoll_changed (s\<lparr>g_srv_udpfd := if CHECK_FD (g_srv_udpfd s) then g_srv_udpfd s else k\<rparr>) (snd (init_server_udp e k o1 b s))"
  using epoll_opened(2) [of "s\<lparr>g_srv_tcpfd := k\<rparr>" e k] epoll_opened(2) [of "s\<lparr>g_srv_udpfd := k\<rparr>" e k]
  by (simp_all add: init_server_tcp_def init_server_udp_def Let_def epoll_changed_def)

lemma epoll_changed_core:
  assumes "epoll_changed s s'"
  shows "srv_core tab s' x = srv_core tab s x" "g_srv_thread_pool s' = g_srv_thread_pool s" "srv_mem s' = srv_mem s"
    "g_srv_tcpfd s' = g_srv_tcpfd s" "g_srv_udpfd s' = g_srv_udpfd s"
proof -
  obtain ep fs where s': "s' = s\<lparr>g_epfd := ep, epoll_fds := fs\<rparr>" using assms unfolding epoll_changed_def by blast
  show "srv_core tab s' x = srv_core tab s x" "g_srv_thread_pool s' = g_srv_thread_pool s" "srv_mem s' = srv_mem s"
    "g_srv_tcpfd s' = g_srv_tcpfd s" "g_srv_udpfd s' = g_srv_udpfd s" by (simp_all add: s')
qed

lemma threads_core [simp]:
  "srv_core tab (create_server_epoll_thread i s) x = srv_core tab s x" "srv_core tab (create_socket_msg_process_thread i s) x = srv_core tab s x"
  "g_srv_thread_pool (create_server_epoll_thread i s) = g_srv_thread_pool s"
  "g_srv_thread_pool (create_socket_msg_process_thread i s) = g_srv_thread_pool s"
  "srv_mem (create_server_epoll_thread i s) = srv_mem s" "srv_mem (create_socket_msg_process_thread i s) = srv_mem s"
  by (simp_all add: create_server_epoll_thread_def create_socket_msg_process_thread_def srv_core_def msgs_rep_def)

lemma sockets_core:
  "\<not> CHECK_FD (g_srv_tcpfd s) \<Longrightarrow> srv_core tab s x \<Longrightarrow> srv_core tab (snd (init_server_tcp e k o1 b l s)) (x\<lparr>x_tcpfd := k\<rparr>)"
  "\<not> CHECK_FD (g_srv_udpfd s) \<Longrightarrow> srv_core tab s x \<Longrightarrow> srv_core tab (snd (init_server_udp e k o1 b s)) (x\<lparr>x_udpfd := k\<rparr>)"
  using epoll_changed_core(1) [OF sockets_opened(1) [of s k e o1 b l], of tab "x\<lparr>x_tcpfd := k\<rparr>"]
    epoll_changed_core(1) [OF sockets_opened(2) [of s k e o1 b], of tab "x\<lparr>x_udpfd := k\<rparr>"]
  by (simp_all add: srv_core_def msgs_rep_def)

lemma server_starts_state:
  assumes "tk_queue (e_task e) \<noteq> NULL"
  shows "srv_state tab (init_all_srv_modules e r (new_server self)) (new_spec self (fst (ir_tcp r)) (fst (ir_udp r)))"
    "g_srv_thread_pool (init_all_srv_modules e r (new_server self)) = Some (get_pool 6 (tk_queue (e_task e)) None)"
    "srv_mem (init_all_srv_modules e r (new_server self)) = empty_mem"
proof -
  obtain k o1 b l where tcp: "ir_tcp r = (k, o1, b, l)" by (cases "ir_tcp r") auto
  obtain k' o2 b' where udp: "ir_udp r = (k', o2, b')" by (cases "ir_udp r") auto
  let ?s1 = "snd (init_server_epoll e (new_server self))" let ?s2 = "snd (init_server_tcp e k o1 b l ?s1)"
  let ?s3 = "snd (init_server_udp e k' o2 b' ?s2)"
  note c1 = epoll_changed_core [OF epoll_opened(1) [of "new_server self" e]]
  note c2 = epoll_changed_core(2-) [OF sockets_opened(1) [of ?s1 k e o1 b l]]
  note c3 = epoll_changed_core(2-) [OF sockets_opened(2) [of ?s2 k' e o2 b']]
  have n: "\<not> CHECK_FD (g_srv_tcpfd ?s1)" "\<not> CHECK_FD (g_srv_udpfd ?s2)"
    using c1(4,5) c2(4) by (simp_all add: new_server_def CHECK_FD_def)
  have "srv_core tab (new_server self) (new_spec self 0 0)"
    by (simp add: srv_core_def new_spec_def new_server_def null_rep msgs_rep_def empty_mem_def)
  then have "srv_core tab ?s3 (new_spec self 0 0\<lparr>x_tcpfd := k, x_udpfd := k'\<rparr>)"
    using sockets_core(2) [OF n(2) sockets_core(1) [OF n(1)]] c1(1) by blast
  then have core: "srv_core tab ?s3 (new_spec self k k')" by (simp add: new_spec_def)
  have pool: "g_srv_thread_pool ?s3 = None" "srv_mem ?s3 = empty_mem"
    using c1(2,3) c2(1,2) c3(1,2) by (simp_all add: new_server_def)
  show "srv_state tab (init_all_srv_modules e r (new_server self)) (new_spec self (fst (ir_tcp r)) (fst (ir_udp r)))"
    "g_srv_thread_pool (init_all_srv_modules e r (new_server self)) = Some (get_pool 6 (tk_queue (e_task e)) None)"
    "srv_mem (init_all_srv_modules e r (new_server self)) = empty_mem"
    using core pool started_pool(1) [OF assms]
    by (simp_all add: init_all_srv_modules_def Let_def tcp udp srv_state_def) (simp_all add: new_spec_def)
qed

text \<open>
  Starting the server: when the system calls succeed, it watches standard input and both its sockets,
  runs its two threads, has a pool of six waiting workers, and represents a server without clients and
  messages; and even when calls fail, starting returns with a pool and no clients, as each module
  ignores the failure of the one before.
\<close>

theorem server_starts:
  fixes e :: "'db senv" and r :: init_results and self :: "32 word"
  defines "s \<equiv> init_all_srv_modules e r (new_server self)"
  assumes "tk_queue (e_task e) \<noteq> NULL"
  shows "srv_state tab s (new_spec self (fst (ir_tcp r)) (fst (ir_udp r))) \<and>
    (CHECK_FD (e_ep e) \<and> e_ctl e \<and> CHECK_FD (fst (ir_tcp r)) \<and> CHECK_FD (fst (ir_udp r)) \<and>
       snd (snd (ir_tcp r)) = (0, 0) \<and> snd (snd (ir_udp r)) = 0 \<and> ir_threads r = (0, 0) \<longrightarrow>
     epoll_fds s = [0, fst (ir_tcp r), fst (ir_udp r)] \<and> srv_threads s = [''SrvEpoll'', ''MsgProcess''])"
proof -
  obtain k o1 b l where tcp: "ir_tcp r = (k, o1, b, l)" by (cases "ir_tcp r") auto
  obtain k' o2 b' where udp: "ir_udp r = (k', o2, b')" by (cases "ir_udp r") auto
  have "srv_state tab s (new_spec self k k')" using server_starts_state(1) [OF assms(2), of tab r self] by (simp add: s_def tcp udp)
  moreover have "epoll_fds s = [0, k, k'] \<and> srv_threads s = [''SrvEpoll'', ''MsgProcess'']"
    if "CHECK_FD (e_ep e)" "e_ctl e" "CHECK_FD k" "CHECK_FD k'" "b = 0" "l = 0" "b' = 0" "ir_threads r = (0, 0)"
    using that by (simp add: s_def init_all_srv_modules_def new_server_def tcp udp init_server_tcp_def init_server_udp_def epoll_defs Let_def
        create_server_epoll_thread_def create_socket_msg_process_thread_def CHECK_FD_def)
  ultimately show ?thesis by (simp add: tcp udp)
qed

text \<open>Blocks for one event, numbered.\<close>

definition demo_env :: "nat \<Rightarrow> table option senv" where
  "demo_env n = \<lparr>e_ex = mini_exec, e_opn = mini_open, e_ep = 3, e_ctl = True, e_send = True, e_qhead = 5 * n + 1, e_qnode = 5 * n + 2,
     e_task = \<lparr>tk_queue = 5 * n + 3, tk_arg = 5 * n + 4, tk_node = 5 * n + 5\<rparr>\<rparr>"

definition demo_results :: init_results where
  "demo_results = \<lparr>ir_tcp = (4, 0, 0, 0), ir_udp = (5, 0, 0), ir_threads = (0, 0)\<rparr>"

theorem server_starts_witness:
  "epoll_fds (init_all_srv_modules (demo_env 0) demo_results (new_server 0)) = [0, 4, 5] \<and>
   srv_state mini_tab (init_all_srv_modules (demo_env 0) demo_results (new_server 0)) (new_spec 0 4 5)"
  using server_starts [of "demo_env 0" mini_tab demo_results 0] by (simp add: demo_env_def demo_results_def CHECK_FD_def)

text \<open>The started server with some clients in its table.\<close>

definition srv_with :: "table \<Rightarrow> table option lc_server" where
  "srv_with rows = (init_all_srv_modules (demo_env 0) demo_results (new_server 0))\<lparr>cli_sql := Ptr (Some rows)\<rparr>"

definition spec_with :: "table \<Rightarrow> sspec" where
  "spec_with rows = (new_spec 0 4 5)\<lparr>x_tab := map_of rows\<rparr>"

lemma srv_with_state: "all_links (map_of rows) \<Longrightarrow> srv_state mini_tab (srv_with rows) (spec_with rows)"
proof -
  assume r: "all_links (map_of rows)"
  have t: "tk_queue (e_task (demo_env 0)) \<noteq> NULL" by (simp add: demo_env_def)
  have "db_rep mini_tab (Ptr (Some rows)) (map_of rows)" by (simp add: db_rep_def mini_tab_def)
  then show ?thesis
    using server_starts_state(1) [OF t, of mini_tab demo_results 0] r
    by (simp add: srv_with_def spec_with_def srv_state_def srv_core_def demo_results_def)
qed

section \<open>Scenarios\<close>

text \<open>A package arrives at descriptor \<open>k\<close>: the event thread posts the task, worker \<open>i\<close> runs it.\<close>

definition arrives :: "'db senv \<Rightarrow> 'db senv \<Rightarrow> nat \<Rightarrow> int \<Rightarrow> lc_msg_package_t \<Rightarrow> sock_addr \<Rightarrow> 'db srv_event list" where
  "arrives e e' i k b a = [Ready e k, Work i e' (Some (b, a)) 0]"

text \<open>The message thread takes a message, worker \<open>i\<close> runs the task.\<close>

definition processed :: "'db senv \<Rightarrow> 'db senv \<Rightarrow> nat \<Rightarrow> lc_msg_package_t \<Rightarrow> 'db srv_event list" where
  "processed e e' i buf = [Msg_turn e buf, Work i e' None 0]"

definition client_fd :: "int \<Rightarrow> sspec \<Rightarrow> bool" where
  "client_fd k x \<longleftrightarrow> int32 k \<and> k \<noteq> 0 \<and> k \<noteq> x_tcpfd x"

lemma spec_run_append: "spec_run (xs @ ys) x x'' \<longleftrightarrow> (\<exists>x'. spec_run xs x x' \<and> spec_run ys x' x'')"
  by (induction xs arbitrary: x) auto

lemma arrives_message [simp]:
  "client_fd k x \<Longrightarrow> wf_package b \<Longrightarrow> pk_type b \<noteq> SAVE_CLI_INFO_lc \<Longrightarrow> x_tasks x = [] \<Longrightarrow>
   spec_run (arrives e e' i k b a) x x' \<longleftrightarrow> x' = x\<lparr>x_stack := b # x_stack x\<rparr>"
  by (auto simp: arrives_def client_fd_def)

lemma arrives_register_tcp [simp]:
  "client_fd k x \<Longrightarrow> k \<noteq> x_udpfd x \<Longrightarrow> wf_package b \<Longrightarrow> pk_type b = SAVE_CLI_INFO_lc \<Longrightarrow> x_tasks x = [] \<Longrightarrow>
   spec_run (arrives e e' i k b a) x x' \<longleftrightarrow> x' = x\<lparr>x_tab := reg_tcp (sint (pk_srcid b)) k (x_tab x),
     x_out := x_out x @ [Out_tcp k (reg_package (x_self x) (pk_srcid b))]\<rparr>"
  by (auto simp: arrives_def client_fd_def)

lemma arrives_register_udp [simp]:
  "client_fd (x_udpfd x) x \<Longrightarrow> wf_package b \<Longrightarrow> pk_type b = SAVE_CLI_INFO_lc \<Longrightarrow> x_tasks x = [] \<Longrightarrow>
   spec_run (arrives e e' i (x_udpfd x) b a) x x' \<longleftrightarrow> x' = x\<lparr>x_tab := reg_udp (sint (pk_srcid b)) (sk_ip a) (sk_port a) (x_tab x),
     x_out := x_out x @ [Out_udp (x_udpfd x) a (reg_package (x_self x) (pk_srcid b))]\<rparr>"
  by (auto simp: arrives_def client_fd_def)

lemma processed_message [simp]:
  "x_stack x = b # ms \<Longrightarrow> x_tasks x = [] \<Longrightarrow> pk_destid b \<noteq> x_self x \<Longrightarrow>
   spec_run (processed e e' i buf) x x' \<longleftrightarrow> entry_reads (x_tab x) (sint (pk_destid b)) \<and>
     x' = x\<lparr>x_stack := ms, x_out := x_out x @ deliver (x_udpfd x) (x_tab x (sint (pk_destid b))) b\<rparr>"
  by (auto simp: processed_def)

lemma processed_own [simp]:
  "x_stack x = b # ms \<Longrightarrow> x_tasks x = [] \<Longrightarrow> pk_destid b = x_self x \<Longrightarrow>
   spec_run (processed e e' i buf) x x' \<longleftrightarrow> x' = x\<lparr>x_stack := ms, x_shown := x_shown x @ [dispaly_msg_package b]\<rparr>"
  by (auto simp: processed_def)

lemma arrives_safe [simp]: "client_fd k x \<Longrightarrow> x_tasks x = [] \<Longrightarrow> spec_safe (arrives e e' i k b a) x"
  by (simp add: arrives_def client_fd_def handler_faults_def)

lemma processed_safe [simp]:
  "x_stack x = b # ms \<Longrightarrow> x_tasks x = [] \<Longrightarrow>
   spec_safe (processed e e' i buf) x \<longleftrightarrow> pk_destid b = x_self x \<or> entry_reads (x_tab x) (sint (pk_destid b))"
  by (auto simp: processed_def handler_faults_def)

lemma client_fd_upd [simp]:
  "client_fd k (x\<lparr>x_stack := ms\<rparr>) = client_fd k x" "client_fd k (x\<lparr>x_out := out\<rparr>) = client_fd k x"
  "client_fd k (x\<lparr>x_tab := t\<rparr>) = client_fd k x" "client_fd k (x\<lparr>x_tab := t, x_out := out\<rparr>) = client_fd k x"
  by (simp_all add: client_fd_def)

text \<open>Readiness of a scenario in the demonstration server: blocks numbered from 1 on.\<close>

lemma srv_with_uses: "srv_uses (srv_with rows) = {3}" "g_srv_thread_pool (srv_with rows) \<noteq> None"
proof -
  have t: "tk_queue (e_task (demo_env 0)) \<noteq> NULL" "tk_queue (e_task (demo_env 0)) = 3" by (simp_all add: demo_env_def)
  note s = server_starts_state(2,3) [OF t(1), of demo_results 0]
  show "srv_uses (srv_with rows) = {3}" "g_srv_thread_pool (srv_with rows) \<noteq> None"
    using s started_pool(2) [of 3] t(2) by (simp_all add: srv_with_def srv_uses_def empty_mem_def)
qed

lemma demo_addrs: "env_addrs (demo_env n) = [5 * n + 1, 5 * n + 2, 5 * n + 3, 5 * n + 4, 5 * n + 5]"
  by (simp add: env_addrs_def demo_env_def)

lemma demo_engine:
  "engine_ok mini_tab (Ready (demo_env n) k)" "engine_ok mini_tab (Msg_turn (demo_env n) buf)"
  "i < 6 \<Longrightarrow> engine_ok mini_tab (Work i (demo_env n) None m)"
  "i < 6 \<Longrightarrow> engine_ok mini_tab (Work i (demo_env n) (Some (b, a)) m)"
  using mini_laws mini_new by (simp_all add: engine_ok_def demo_env_def)

definition demo_package :: "32 word \<Rightarrow> 32 word \<Rightarrow> 32 word \<Rightarrow> lc_msg_package_t" where
  "demo_package ty src dest = set_pk_destid dest (set_pk_srcid src (set_pk_type ty (read_data [104, 105] zero_package)))"

lemma demo_package [simp]:
  "wf_package (demo_package ty src dest)" "pk_type (demo_package ty src dest) = ty" "pk_srcid (demo_package ty src dest) = src"
  "pk_destid (demo_package ty src dest) = dest"
  by (simp_all add: demo_package_def)

lemma demo_types [simp]: "TCP_DATA \<noteq> SAVE_CLI_INFO_lc" "UDP_DATA \<noteq> SAVE_CLI_INFO_lc"
  by (simp_all add: TCP_DATA_def UDP_DATA_def SAVE_CLI_INFO_lc_def)

lemma spec_with [simp]:
  "x_tasks (spec_with rows) = []" "x_stack (spec_with rows) = []" "x_self (spec_with rows) = 0" "x_tab (spec_with rows) = map_of rows"
  "x_udpfd (spec_with rows) = 5" "x_out (spec_with rows) = []" "client_fd k (spec_with rows) \<longleftrightarrow> int32 k \<and> k \<noteq> 0 \<and> k \<noteq> 4"
  by (simp_all add: spec_with_def new_spec_def client_fd_def)

lemma srv_with_fields: "srv_endid (srv_with rows) = 0" "all_links (map_of rows) \<Longrightarrow> srv_out (srv_with rows) = []"
    "all_links (map_of rows) \<Longrightarrow> g_srv_udpfd (srv_with rows) = 5"
proof -
  show "srv_endid (srv_with rows) = 0"
    using srv_with_state [of "[]"] by (simp add: srv_state_def srv_core_def srv_with_def all_links_def spec_with_def new_spec_def)
qed (use srv_with_state [of rows] in \<open>simp_all add: srv_state_def srv_core_def\<close>)

lemma demo_tables: "all_links (map_of [])" "all_links (map_of [(7, tcp_link 9)])"
    "all_links (map_of [(7, tcp_link 9), (8, udp_link 16777343 99)])"
proof -
  have upd: "all_links t \<Longrightarrow> link_ok e l \<Longrightarrow> all_links (t(e \<mapsto> l))" for t e l
    unfolding all_links_def by (metis map_upd_Some_unfold)
  show 0: "all_links (map_of [])" by (simp add: all_links_def)
  have l: "link_ok 7 (tcp_link 9)" "link_ok 8 (udp_link 16777343 99)" by (simp_all add: int32_def)
  show "all_links (map_of [(7, tcp_link 9)])" using upd [OF 0 l(1)] by simp
  show "all_links (map_of [(7, tcp_link 9), (8, udp_link 16777343 99)])" using upd [OF upd [OF 0 l(2)] l(1)] by simp
qed

lemmas demo_fields = srv_with_fields(1) srv_with_fields(2,3) [OF demo_tables(1)] srv_with_fields(2,3) [OF demo_tables(2)]
  srv_with_fields(2,3) [OF demo_tables(3)]

lemmas demo_simps = unused_events_ok srv_with_uses demo_addrs demo_engine

section \<open>Properties\<close>

text \<open>
  C3. The server implements its specification: for every sequence of ready descriptors, turns of the message
  thread and turns of the workers, whatever is received and from whatever address, the run is one of the
  abstract server, which keeps a table of clients, a stack of messages and a list of tasks, or it is undefined at
  a step at which the abstract server faults: a broadcast while some address in the table is beyond \<open>INT_MAX\<close>, or a lookup of such
  an entry. When the addresses in the table and of the senders are below 2^31, every step returns. In between are
  two queues over \<open>list.h\<close>, a thread pool that owns copies of arguments, and the texts of SQL statements.
  Assumed at every step are SQLite's laws, a database file that can be opened anew, blocks from \<open>malloc\<close> that are fresh, and workers
  of the pool's six. Each step of a thread is atomic here; the interleaving inside the pool is that of \<open>Socket_Pool\<close>.
\<close>

theorem socket_server_refines_spec:
  assumes "srv_state tab s x" "events_ok tab evs s"
  shows "(case server_run evs s of
        Some s' \<Rightarrow> \<exists>x'. spec_run evs x x' \<and> srv_state tab s' x'
      | None \<Rightarrow> \<exists>evs1 ev evs2 x1. evs = evs1 @ ev # evs2 \<and> spec_run evs1 x x1 \<and> spec_faults ev x1) \<and>
    (all_read_back (x_tab x) \<and> (\<forall>ev \<in> set evs. low_sender ev) \<longrightarrow> server_run evs s \<noteq> None)"
  using server_run_ok [OF assms] server_run_returns [OF assms] low_safe [of x evs] unfolding run_same_def by fastforce

text \<open>Standard input becomes ready, a worker broadcasts the line; another worker finds nothing to do.\<close>

theorem socket_server_refines_spec_witness:
  "\<exists>s' x'. server_run [Ready (demo_env 1) 0, Work 2 (demo_env 2) (Some ([104, 105], \<lparr>sk_port = 0, sk_ip = 0\<rparr>)) 0,
      Work 3 (demo_env 3) None 0] (srv_with [(7, tcp_link 9)]) = Some s' \<and>
    spec_run [Ready (demo_env 1) 0, Work 2 (demo_env 2) (Some ([104, 105], \<lparr>sk_port = 0, sk_ip = 0\<rparr>)) 0,
      Work 3 (demo_env 3) None 0] (spec_with [(7, tcp_link 9)]) x' \<and> srv_state mini_tab s' x'"
proof -
  let ?evs = "[Ready (demo_env 1) 0, Work 2 (demo_env 2) (Some ([104, 105], \<lparr>sk_port = 0, sk_ip = 0\<rparr>)) 0, Work 3 (demo_env 3) None 0]"
  have e: "events_ok mini_tab ?evs (srv_with [(7, tcp_link 9)])" by (rule unused_events_ok) (simp_all add: demo_simps)
  have low: "all_read_back (x_tab (spec_with [(7, tcp_link 9)]))" "\<forall>ev \<in> set ?evs. low_sender ev" by simp_all
  from socket_server_refines_spec [OF srv_with_state [OF demo_tables(2)] e] low show ?thesis by (auto split: option.splits)
qed

text \<open>
  Registration and forwarding: after a client has registered over the connection \<open>k\<close>, a message that
  another connection \<open>k'\<close> delivers for its id is sent on \<open>k\<close>, unchanged, after the answer to the
  registration, and nothing else is sent.
\<close>

theorem sock_registered_receives:
  assumes "srv_state tab s x" "x_tasks x = []" "x_stack x = []"
    "wf_package r" "pk_type r = SAVE_CLI_INFO_lc" "wf_package b" "pk_type b \<noteq> SAVE_CLI_INFO_lc" "pk_destid b = pk_srcid r"
    "pk_srcid r \<noteq> x_self x" "client_fd k x" "client_fd k' x" "k \<noteq> x_udpfd x"
    "events_ok tab (arrives e1 e2 i1 k r a @ arrives e3 e4 i2 k' b a' @ processed e5 e6 i3 buf) s"
  shows "\<exists>s'. server_run (arrives e1 e2 i1 k r a @ arrives e3 e4 i2 k' b a' @ processed e5 e6 i3 buf) s = Some s' \<and>
    srv_out s' = srv_out s @ [Out_tcp k (reg_package (srv_endid s) (pk_srcid r)), Out_tcp k b] \<and> srv_shown s' = srv_shown s"
proof -
  let ?t = "reg_tcp (sint (pk_srcid r)) k (x_tab x)" and ?a = "Out_tcp k (reg_package (x_self x) (pk_srcid r))"
  have t: "?t (sint (pk_destid b)) = Some (tcp_link k)" using assms(8) by (simp add: reg_tcp_def)
  have P: "x_out x' = x_out x @ [?a, Out_tcp k b] \<and> x_shown x' = x_shown x"
    if "spec_run (arrives e1 e2 i1 k r a @ arrives e3 e4 i2 k' b a' @ processed e5 e6 i3 buf) x x'" for x'
    using that assms(2-12) t by (auto simp: spec_run_append)
  have safe: "spec_safe (arrives e1 e2 i1 k r a @ arrives e3 e4 i2 k' b a' @ processed e5 e6 i3 buf) x"
    using assms(2-12) t by (auto simp: spec_safe_append)
  show ?thesis
    using server_run_exact [OF assms(1,13) safe P] state_out assms(1) state_out [OF assms(1)] by (fastforce simp: srv_state_def srv_core_def)
qed

theorem sock_registered_receives_witness:
  "\<exists>s'. server_run (arrives (demo_env 1) (demo_env 2) 0 9 (demo_package SAVE_CLI_INFO_lc 7 0) \<lparr>sk_port = 0, sk_ip = 0\<rparr> @
      arrives (demo_env 3) (demo_env 4) 1 11 (demo_package TCP_DATA 8 7) \<lparr>sk_port = 0, sk_ip = 0\<rparr> @
      processed (demo_env 5) (demo_env 6) 2 zero_package) (srv_with []) = Some s' \<and>
    srv_out s' = [Out_tcp 9 (reg_package 0 7), Out_tcp 9 (demo_package TCP_DATA 8 7)]"
proof -
  have e: "events_ok mini_tab (arrives (demo_env 1) (demo_env 2) 0 9 (demo_package SAVE_CLI_INFO_lc 7 0) \<lparr>sk_port = 0, sk_ip = 0\<rparr> @
      arrives (demo_env 3) (demo_env 4) 1 11 (demo_package TCP_DATA 8 7) \<lparr>sk_port = 0, sk_ip = 0\<rparr> @
      processed (demo_env 5) (demo_env 6) 2 zero_package) (srv_with [])"
    by (rule unused_events_ok) (simp_all add: demo_simps arrives_def processed_def)
  from sock_registered_receives [OF srv_with_state [OF demo_tables(1)] _ _ _ _ _ _ _ _ _ _ _ e] show ?thesis
    by (auto simp: demo_fields int32_def)
qed

text \<open>
  C22. Messages that wait together are forwarded in reverse order: when two messages have arrived before the
  message thread turns, the later one goes out first.
\<close>

theorem sock_messages_reversed:
  assumes "srv_state tab s x" "x_tasks x = []" "x_stack x = []" "client_fd k x"
    "wf_package b1" "pk_type b1 \<noteq> SAVE_CLI_INFO_lc" "pk_destid b1 = d" "wf_package b2" "pk_type b2 \<noteq> SAVE_CLI_INFO_lc" "pk_destid b2 = d"
    "d \<noteq> x_self x" "x_tab x (sint d) = Some (tcp_link c)"
    "events_ok tab (arrives e1 e2 i1 k b1 a1 @ arrives e3 e4 i2 k b2 a2 @ processed e5 e6 i3 buf @ processed e7 e8 i4 buf') s"
  shows "\<exists>s'. server_run (arrives e1 e2 i1 k b1 a1 @ arrives e3 e4 i2 k b2 a2 @ processed e5 e6 i3 buf @ processed e7 e8 i4 buf') s = Some s' \<and>
    srv_out s' = srv_out s @ [Out_tcp c b2, Out_tcp c b1]"
proof -
  have P: "x_out x' = x_out x @ [Out_tcp c b2, Out_tcp c b1]"
    if "spec_run (arrives e1 e2 i1 k b1 a1 @ arrives e3 e4 i2 k b2 a2 @ processed e5 e6 i3 buf @ processed e7 e8 i4 buf') x x'" for x'
    using that assms(2-12) by (auto simp: spec_run_append)
  have safe: "spec_safe (arrives e1 e2 i1 k b1 a1 @ arrives e3 e4 i2 k b2 a2 @ processed e5 e6 i3 buf @ processed e7 e8 i4 buf') x"
    using assms(2-12) by (auto simp: spec_safe_append)
  show ?thesis using server_run_exact [OF assms(1,13) safe P] state_out [OF assms(1)] state_out by fastforce
qed

theorem sock_messages_reversed_witness:
  "\<exists>s'. server_run (arrives (demo_env 1) (demo_env 2) 0 11 (demo_package TCP_DATA 8 7) \<lparr>sk_port = 0, sk_ip = 0\<rparr> @
      arrives (demo_env 3) (demo_env 4) 1 11 (demo_package UDP_DATA 8 7) \<lparr>sk_port = 0, sk_ip = 0\<rparr> @
      processed (demo_env 5) (demo_env 6) 2 zero_package @ processed (demo_env 7) (demo_env 8) 2 zero_package)
      (srv_with [(7, tcp_link 9)]) = Some s' \<and>
    srv_out s' = [Out_tcp 9 (demo_package UDP_DATA 8 7), Out_tcp 9 (demo_package TCP_DATA 8 7)]"
proof -
  have e: "events_ok mini_tab (arrives (demo_env 1) (demo_env 2) 0 11 (demo_package TCP_DATA 8 7) \<lparr>sk_port = 0, sk_ip = 0\<rparr> @
      arrives (demo_env 3) (demo_env 4) 1 11 (demo_package UDP_DATA 8 7) \<lparr>sk_port = 0, sk_ip = 0\<rparr> @
      processed (demo_env 5) (demo_env 6) 2 zero_package @ processed (demo_env 7) (demo_env 8) 2 zero_package)
      (srv_with [(7, tcp_link 9)])"
    by (rule unused_events_ok) (simp_all add: demo_simps arrives_def processed_def)
  from sock_messages_reversed [OF srv_with_state [OF demo_tables(2)] _ _ _ _ _ refl _ _ _ _ _ e, of 9] show ?thesis
    by (simp add: demo_fields int32_def)
qed

text \<open>
  C23. A client that registers over UDP while its id is still in the table with a connection is not moved: the
  registration is answered, but messages for it go to the old connection.
\<close>

theorem sock_udp_reregistration_ignored:
  assumes "srv_state tab s x" "x_tasks x = []" "x_stack x = []" "client_fd k x" "client_fd (x_udpfd x) x"
    "x_tab x (sint (pk_srcid r)) = Some (tcp_link c)" "wf_package r" "pk_type r = SAVE_CLI_INFO_lc"
    "wf_package b" "pk_type b \<noteq> SAVE_CLI_INFO_lc" "pk_destid b = pk_srcid r" "pk_srcid r \<noteq> x_self x"
    "events_ok tab (arrives e1 e2 i1 (x_udpfd x) r a @ arrives e3 e4 i2 k b a' @ processed e5 e6 i3 buf) s"
  shows "\<exists>s'. server_run (arrives e1 e2 i1 (x_udpfd x) r a @ arrives e3 e4 i2 k b a' @ processed e5 e6 i3 buf) s = Some s' \<and>
    srv_out s' = srv_out s @ [Out_udp (g_srv_udpfd s) a (reg_package (srv_endid s) (pk_srcid r)), Out_tcp c b]"
proof -
  have t: "reg_udp (sint (pk_srcid r)) (sk_ip a) (sk_port a) (x_tab x) = x_tab x" using assms(6) by (auto simp: reg_udp_def)
  have P: "x_out x' = x_out x @ [Out_udp (x_udpfd x) a (reg_package (x_self x) (pk_srcid r)), Out_tcp c b]"
    if "spec_run (arrives e1 e2 i1 (x_udpfd x) r a @ arrives e3 e4 i2 k b a' @ processed e5 e6 i3 buf) x x'" for x'
    using that assms(2-12) t by (auto simp: spec_run_append)
  have safe: "spec_safe (arrives e1 e2 i1 (x_udpfd x) r a @ arrives e3 e4 i2 k b a' @ processed e5 e6 i3 buf) x"
    using assms(2-12) t by (auto simp: spec_safe_append)
  have "srv_endid s = x_self x" "g_srv_udpfd s = x_udpfd x" using assms(1) by (simp_all add: srv_state_def srv_core_def)
  then show ?thesis using server_run_exact [OF assms(1,13) safe P] state_out [OF assms(1)] state_out by fastforce
qed

theorem sock_udp_reregistration_ignored_witness:
  "\<exists>s'. server_run (arrives (demo_env 1) (demo_env 2) 0 5 (demo_package SAVE_CLI_INFO_lc 7 0) \<lparr>sk_port = 99, sk_ip = 16777343\<rparr> @
      arrives (demo_env 3) (demo_env 4) 1 11 (demo_package TCP_DATA 8 7) \<lparr>sk_port = 0, sk_ip = 0\<rparr> @
      processed (demo_env 5) (demo_env 6) 2 zero_package) (srv_with [(7, tcp_link 9)]) = Some s' \<and>
    srv_out s' = [Out_udp 5 \<lparr>sk_port = 99, sk_ip = 16777343\<rparr> (reg_package 0 7), Out_tcp 9 (demo_package TCP_DATA 8 7)]"
proof -
  have e: "events_ok mini_tab (arrives (demo_env 1) (demo_env 2) 0 (x_udpfd (spec_with [(7, tcp_link 9)]))
      (demo_package SAVE_CLI_INFO_lc 7 0) \<lparr>sk_port = 99, sk_ip = 16777343\<rparr> @
      arrives (demo_env 3) (demo_env 4) 1 11 (demo_package TCP_DATA 8 7) \<lparr>sk_port = 0, sk_ip = 0\<rparr> @
      processed (demo_env 5) (demo_env 6) 2 zero_package) (srv_with [(7, tcp_link 9)])"
    by (rule unused_events_ok) (simp_all add: demo_simps arrives_def processed_def)
  from sock_udp_reregistration_ignored [OF srv_with_state [OF demo_tables(2)] _ _ _ _ _ _ _ _ _ _ _ e, of 9] show ?thesis
    by (simp add: demo_fields int32_def)
qed

text \<open>
  C24. A line typed at a server with no other task waiting is sent to every client in the table exactly once, over its connection or to
  its address, from the server's id, with the client's own id as destination, whatever the results of \<open>send\<close>,
  when every address in the table is below 2^31; when one is not, the broadcast is undefined. (Fresh blocks and SQLite's laws
  are assumed, \<open>events_ok\<close>.)
\<close>

theorem sock_broadcast_reaches_all:
  assumes "srv_state tab s x" "x_tasks x = []" "line \<noteq> []"
    "events_ok tab [Ready e1 0, Work i e2 (Some (line, a)) n] s"
  shows "if all_read_back (x_tab x)
    then \<exists>s' es. server_run [Ready e1 0, Work i e2 (Some (line, a)) n] s = Some s' \<and> distinct es \<and> set es = dom (x_tab x) \<and>
      srv_out s' = srv_out s @ map (\<lambda>e. out_for (g_srv_udpfd s) (broadcast_package (srv_endid s) line) e (the (x_tab x e))) es
    else server_run [Ready e1 0, Work i e2 (Some (line, a)) n] s = None"
proof (cases "all_read_back (x_tab x)")
  case True
  have P: "\<exists>es. distinct es \<and> set es = dom (x_tab x) \<and>
      x_out x' = x_out x @ map (\<lambda>e. out_for (x_udpfd x) (broadcast_package (x_self x) line) e (the (x_tab x e))) es"
    if "spec_run [Ready e1 0, Work i e2 (Some (line, a)) n] x x'" for x'
    using that assms(2,3) by (fastforce simp: handled_line)
  have safe: "spec_safe [Ready e1 0, Work i e2 (Some (line, a)) n] x" using assms(2) True by (simp add: handler_faults_def)
  have "srv_endid s = x_self x" "g_srv_udpfd s = x_udpfd x" using assms(1) by (simp_all add: srv_state_def srv_core_def)
  then show ?thesis using server_run_exact [OF assms(1,4) safe P] state_out [OF assms(1)] state_out True by fastforce
next
  case False
  have "\<not> spec_run [Ready e1 0, Work i e2 (Some (line, a)) n] x x'" for x'
    using assms(2,3) False by (simp add: handled_line)
  then show ?thesis using server_run_ok [OF assms(1,4)] False by (auto simp: run_same_def split: option.splits)
qed

theorem sock_broadcast_reaches_all_witness:
  "\<exists>s' es. server_run [Ready (demo_env 1) 0, Work 1 (demo_env 2) (Some ([104, 105], \<lparr>sk_port = 0, sk_ip = 0\<rparr>)) 0]
      (srv_with [(7, tcp_link 9), (8, udp_link 16777343 99)]) = Some s' \<and> distinct es \<and> set es = {7, 8} \<and>
    srv_out s' = map (\<lambda>e. out_for 5 (broadcast_package 0 [104, 105]) e (the (map_of [(7, tcp_link 9), (8, udp_link 16777343 99)] e))) es"
proof -
  have e: "events_ok mini_tab [Ready (demo_env 1) 0, Work 1 (demo_env 2) (Some ([104, 105], \<lparr>sk_port = 0, sk_ip = 0\<rparr>)) 0]
      (srv_with [(7, tcp_link 9), (8, udp_link 16777343 99)])"
    by (rule unused_events_ok) (simp_all add: demo_simps)
  have low: "all_read_back ((Map.empty)(8 \<mapsto> udp_link 16777343 99, 7 \<mapsto> tcp_link 9))" by simp
  from sock_broadcast_reaches_all [OF srv_with_state [OF demo_tables(3)] _ _ e] show ?thesis
    by (simp add: demo_fields insert_commute low)
qed

fun payload :: "sock_out \<Rightarrow> lc_msg_package_t" where
  "payload (Out_tcp k b) = b"
| "payload (Out_udp k a b) = b"

lemma payload_out_for [simp]: "payload (out_for u m e l) = set_pk_destid (word_of_int e) m"
  by (simp add: out_for_def Let_def)











end
