(* ===== verification/Sock_Client.thy ===== *)
theory Sock_Client
  imports Sock_Msg Sock_Tasks C_Strings
begin

text \<open>
  The client of the \<open>socket\<close> program: \<open>client_socket.c\<close>, \<open>client_tcp.c\<close>, \<open>client_udp.c\<close>, \<open>client_interface.c\<close> and the start
  and stop of its modules in \<open>client.c\<close>. The user interface is caller 0 of the client's pool, the
  receiving thread caller 1. Results of system calls and addresses of \<open>malloc\<close> are arguments. Switching the socket and closing it
  are sequences of steps, one per access to shared state, between which the other threads can act.
\<close>

datatype cli_handler = H_send_msg_by_tcp | H_send_msg_by_udp | H_complete_init_client_info | H_show_msg_package

record lc_client =
  cl_type :: socket_type_t
  g_cli_tcpfd :: int
  g_cli_udpfd :: int
  init_cli_info :: bool
  lc_endid :: "32 word"
  srv_udp_addr :: sock_addr
  g_cli_thread_pool :: "cli_handler spool option"
  lc_out :: "sock_out list"
  lc_shown :: "msg_out list"
  lc_closed :: "int list"
  lc_threads :: "string list"

section \<open>\<open>client_tcp.c\<close>\<close>

text \<open>The results of \<open>setsockopt\<close> and \<open>connect\<close> are only logged.\<close>

definition init_client_tcp :: "int \<Rightarrow> int \<Rightarrow> int \<Rightarrow> lc_client \<Rightarrow> int \<times> lc_client" where
  "init_client_tcp sock opt conn c =
     (if CHECK_FD (g_cli_tcpfd c) then (0, c)
      else let c = c\<lparr>g_cli_tcpfd := sock\<rparr> in
        if \<not> CHECK_FD (g_cli_tcpfd c) then (- 1, c) else (0, c))"

definition try_destroy_client_tcp :: "lc_client \<Rightarrow> int \<times> lc_client" where
  "try_destroy_client_tcp c =
     (if \<not> CHECK_FD (g_cli_tcpfd c) then (0, c)
      else let c = c\<lparr>init_cli_info := False\<rparr>; c = c\<lparr>lc_closed := lc_closed c @ [g_cli_tcpfd c]\<rparr> in (0, c\<lparr>g_cli_tcpfd := 0\<rparr>))"

definition send_msg_by_tcp_cli :: "lc_msg_package_t \<Rightarrow> lc_client \<Rightarrow> lc_client" where
  "send_msg_by_tcp_cli msgbuf c = c\<lparr>lc_out := lc_out c @ [Out_tcp (g_cli_tcpfd c) msgbuf]\<rparr>"

text \<open>What a received package leads to; the same in both files.\<close>

definition post_received :: "task_alloc \<Rightarrow> lc_msg_package_t \<Rightarrow> lc_client \<Rightarrow> lc_client option" where
  "post_received al msgbuf c = do {
     pool \<leftarrow> (if pk_type msgbuf = SAVE_CLI_INFO_lc
       then add_task_to_client_pool_use_arg_mem 1 al H_complete_init_client_info NULL (g_cli_thread_pool c)
       else add_task_to_client_pool_release_arg_mem 1 al H_show_msg_package msgbuf sizeof_package (g_cli_thread_pool c));
     Some (c\<lparr>g_cli_thread_pool := pool\<rparr>) }"

definition recv_msg_by_tcp :: "task_alloc \<Rightarrow> byte list option \<Rightarrow> lc_client \<Rightarrow> (bool \<times> lc_client) option" where
  "recv_msg_by_tcp al rx c =
     (case rx of
        None \<Rightarrow> Some (False, c)
      | Some bytes \<Rightarrow>
          if bytes = [] then Some (False, snd (try_destroy_client_tcp c))
          else do { c \<leftarrow> post_received al (recv_package bytes) c; Some (True, c) })"

section \<open>\<open>client_udp.c\<close>\<close>

definition init_client_udp :: "int \<Rightarrow> int \<Rightarrow> lc_client \<Rightarrow> int \<times> lc_client" where
  "init_client_udp sock opt c =
     (if CHECK_FD (g_cli_udpfd c) then (0, c)
      else let c = c\<lparr>g_cli_udpfd := sock\<rparr> in
        if \<not> CHECK_FD (g_cli_udpfd c) then (- 1, c) else (0, c))"

definition try_destroy_client_udp :: "lc_client \<Rightarrow> int \<times> lc_client" where
  "try_destroy_client_udp c =
     (if \<not> CHECK_FD (g_cli_udpfd c) then (0, c)
      else let c = c\<lparr>init_cli_info := False\<rparr>; c = c\<lparr>lc_closed := lc_closed c @ [g_cli_udpfd c]\<rparr> in (0, c\<lparr>g_cli_udpfd := 0\<rparr>))"

definition send_msg_by_udp_cli :: "lc_msg_package_t \<Rightarrow> lc_client \<Rightarrow> lc_client" where
  "send_msg_by_udp_cli msgbuf c = c\<lparr>lc_out := lc_out c @ [Out_udp (g_cli_udpfd c) (srv_udp_addr c) msgbuf]\<rparr>"

definition recv_msg_by_udp :: "task_alloc \<Rightarrow> byte list option \<Rightarrow> lc_client \<Rightarrow> (bool \<times> lc_client) option" where
  "recv_msg_by_udp al rx c =
     (case rx of
        None \<Rightarrow> Some (False, c)
      | Some bytes \<Rightarrow>
          if bytes = [] then Some (False, c)
          else do { c \<leftarrow> post_received al (recv_package bytes) c; Some (True, c) })"

section \<open>\<open>client_socket.c\<close>\<close>

definition send_msg_by_socket :: "task_alloc \<Rightarrow> lc_msg_package_t \<Rightarrow> lc_client \<Rightarrow> lc_client option" where
  "send_msg_by_socket al msgbuf c =
     (if cl_type c = TCP_LINK then do {
        pool \<leftarrow> add_task_to_client_pool_release_arg_mem 0 al H_send_msg_by_tcp msgbuf sizeof_package (g_cli_thread_pool c);
        Some (c\<lparr>g_cli_thread_pool := pool\<rparr>) }
      else if cl_type c = UDP_LINK then do {
        pool \<leftarrow> add_task_to_client_pool_release_arg_mem 0 al H_send_msg_by_udp msgbuf sizeof_package (g_cli_thread_pool c);
        Some (c\<lparr>g_cli_thread_pool := pool\<rparr>) }
      else Some c)"

definition init_client_info_to_server :: "task_alloc \<Rightarrow> lc_client \<Rightarrow> lc_client option" where
  "init_client_info_to_server al c =
     send_msg_by_socket al (set_pk_destid g_server_endid (set_pk_srcid (lc_endid c) (set_pk_type SAVE_CLI_INFO_lc zero_package))) c"

text \<open>
  The two loops of \<open>init_client_info\<close> from turn \<open>i\<close> on, with \<open>n\<close> turns to go. While the loop sleeps in turn \<open>i\<close>, the other
  threads do \<open>others i\<close>. The result says whether the flag was found set.
\<close>

fun init_attempts ::
  "(nat \<Rightarrow> task_alloc) \<Rightarrow> (nat \<Rightarrow> lc_client \<Rightarrow> lc_client option) \<Rightarrow> nat \<Rightarrow> nat \<Rightarrow> lc_client \<Rightarrow> (bool \<times> lc_client) option" where
  "init_attempts al others i 0 c = Some (False, c)"
| "init_attempts al others i (Suc n) c =
     (if init_cli_info c then Some (True, c)
      else do {
        c \<leftarrow> init_client_info_to_server (al i) c;
        c \<leftarrow> others i c;
        init_attempts al others (i + 1) n c })"

fun init_checks :: "(nat \<Rightarrow> lc_client \<Rightarrow> lc_client option) \<Rightarrow> nat \<Rightarrow> nat \<Rightarrow> lc_client \<Rightarrow> (bool \<times> lc_client) option" where
  "init_checks others i 0 c = Some (False, c)"
| "init_checks others i (Suc n) c =
     (if init_cli_info c then Some (True, c) else do { c \<leftarrow> others i c; init_checks others (i + 1) n c })"

definition init_client_info ::
  "(nat \<Rightarrow> task_alloc) \<Rightarrow> (nat \<Rightarrow> lc_client \<Rightarrow> lc_client option) \<Rightarrow> lc_client \<Rightarrow> (bool \<times> lc_client) option" where
  "init_client_info al others c = do {
     (done, c) \<leftarrow> init_attempts al others 0 2 c;
     if done then Some (True, c) else init_checks others 2 2 c }"

text \<open>Toggling the socket type; \<open>sock\<close> is the new descriptor. \<open>open_type\<close> is the \<open>switch\<close> statement when no other thread acts meanwhile.\<close>

definition toggle_type :: "socket_type_t \<Rightarrow> socket_type_t" where
  "toggle_type t = (if t = UNSET then UDP_LINK else if t = UDP_LINK then TCP_LINK else UDP_LINK)"

definition open_type :: "int \<Rightarrow> lc_client \<Rightarrow> lc_client" where
  "open_type sock c =
     (case cl_type c of
        TCP_LINK \<Rightarrow> snd (init_client_tcp sock 0 0 (snd (try_destroy_client_udp c)))
      | UDP_LINK \<Rightarrow> snd (init_client_udp sock 0 (snd (try_destroy_client_tcp c)))
      | UNSET \<Rightarrow> c)"

text \<open>
  The same in steps. \<open>destroy_step\<close> is \<open>try_destroy_client_tcp\<close> or \<open>try_destroy_client_udp\<close>: the test, the flag (under its mutex),
  \<open>close\<close>, and the descriptor set to 0; the first result is the next step, \<open>None\<close> at the end. \<open>switch_step\<close> is
  \<open>switch_socket_type\<close> up to \<open>init_client_info\<close>: the new type, the old socket, and the test and the opening of the new one.
\<close>

fun cli_fd :: "socket_type_t \<Rightarrow> lc_client \<Rightarrow> int" where
  "cli_fd TCP_LINK c = g_cli_tcpfd c"
| "cli_fd UDP_LINK c = g_cli_udpfd c"
| "cli_fd UNSET c = 0"

fun set_cli_fd :: "socket_type_t \<Rightarrow> int \<Rightarrow> lc_client \<Rightarrow> lc_client" where
  "set_cli_fd TCP_LINK k c = c\<lparr>g_cli_tcpfd := k\<rparr>"
| "set_cli_fd UDP_LINK k c = c\<lparr>g_cli_udpfd := k\<rparr>"
| "set_cli_fd UNSET k c = c"

datatype close_pc = X_check | X_flag | X_close | X_clear

fun destroy_step :: "socket_type_t \<Rightarrow> close_pc \<Rightarrow> lc_client \<Rightarrow> close_pc option \<times> lc_client" where
  "destroy_step t X_check c = (if CHECK_FD (cli_fd t c) then (Some X_flag, c) else (None, c))"
| "destroy_step t X_flag c = (Some X_close, c\<lparr>init_cli_info := False\<rparr>)"
| "destroy_step t X_close c = (Some X_clear, c\<lparr>lc_closed := lc_closed c @ [cli_fd t c]\<rparr>)"
| "destroy_step t X_clear c = (None, set_cli_fd t 0 c)"

definition other_type :: "socket_type_t \<Rightarrow> socket_type_t" where
  "other_type t = (if t = TCP_LINK then UDP_LINK else TCP_LINK)"

datatype switch_pc = S_idle | S_type | S_close close_pc | S_check | S_open

fun switch_step :: "int \<Rightarrow> switch_pc \<Rightarrow> lc_client \<Rightarrow> switch_pc \<times> lc_client" where
  "switch_step sock S_type c = (S_close X_check, c\<lparr>cl_type := toggle_type (cl_type c)\<rparr>)"
| "switch_step sock (S_close pc) c =
     (let (next, c) = destroy_step (other_type (cl_type c)) pc c in
      (case next of None \<Rightarrow> S_check | Some pc \<Rightarrow> S_close pc, c))"
| "switch_step sock S_check c = (if CHECK_FD (cli_fd (cl_type c) c) then S_idle else S_open, c)"
| "switch_step sock S_open c = (S_idle, set_cli_fd (cl_type c) sock c)"
| "switch_step sock S_idle c = (S_idle, c)"

text \<open>The whole switch takes at most seven steps; after the step to \<open>pc\<close> the other threads do \<open>between pc\<close>.\<close>

fun run_switch ::
  "int \<Rightarrow> (switch_pc \<Rightarrow> lc_client \<Rightarrow> lc_client option) \<Rightarrow> nat \<Rightarrow> switch_pc \<Rightarrow> lc_client \<Rightarrow> lc_client option" where
  "run_switch sock between 0 pc c = (if pc = S_idle then Some c else None)"
| "run_switch sock between (Suc n) pc c =
     (if pc = S_idle then Some c
      else let (pc, c) = switch_step sock pc c in do { c \<leftarrow> between pc c; run_switch sock between n pc c })"

definition switch_socket_type ::
  "int \<Rightarrow> (switch_pc \<Rightarrow> lc_client \<Rightarrow> lc_client option) \<Rightarrow> (nat \<Rightarrow> task_alloc) \<Rightarrow> (nat \<Rightarrow> lc_client \<Rightarrow> lc_client option) \<Rightarrow>
   lc_client \<Rightarrow> (int \<times> lc_client) option" where
  "switch_socket_type sock between al others c = do {
     c \<leftarrow> run_switch sock between 7 S_type c;
     (_, c) \<leftarrow> init_client_info al others c;
     Some (0, c) }"

definition display_cur_socket_type :: "lc_client \<Rightarrow> string" where
  "display_cur_socket_type c =
     (case cl_type c of TCP_LINK \<Rightarrow> ''socket=TCP!'' | UDP_LINK \<Rightarrow> ''socket=UDP!'' | UNSET \<Rightarrow> ''socket=UNSET!'')"

text \<open>The value of a socket type as a message type.\<close>

definition type_word :: "socket_type_t \<Rightarrow> 32 word" where
  "type_word t = (case t of UNSET \<Rightarrow> 0 | TCP_LINK \<Rightarrow> 1 | UDP_LINK \<Rightarrow> 2)"

definition quit_text :: "byte list" where
  "quit_text = [122, 107, 113, 117, 105, 116]"

text \<open>
  The loop of both dialogues. The package is not cleared between lines. The search for the word that ends the
  dialogue starts at the text and ends at the first zero byte, at the latest behind the text, in the
  byte that the union has in addition. When the lines are used up the loop waits in \<open>read\<close>.
\<close>

fun lc_send_loop :: "(byte list option \<times> task_alloc) list \<Rightarrow> lc_msg_package_t \<Rightarrow> lc_client \<Rightarrow> (bool \<times> lc_client) option" where
  "lc_send_loop [] msgbuf c = Some (False, c)"
| "lc_send_loop ((rx, al) # rest) msgbuf c =
     (case rx of
        None \<Rightarrow> lc_send_loop rest msgbuf c
      | Some bytes \<Rightarrow>
          if bytes = [] then lc_send_loop rest msgbuf c
          else do {
            let msgbuf = read_data bytes msgbuf;
            str \<leftarrow> c_string (drop 12 msgbuf);
            if casestr str quit_text then Some (True, c)
            else do { c \<leftarrow> send_msg_by_socket al msgbuf c; lc_send_loop rest msgbuf c } })"

definition send_msg_to_server :: "(byte list option \<times> task_alloc) list \<Rightarrow> lc_client \<Rightarrow> (bool \<times> lc_client) option" where
  "send_msg_to_server reads c =
     lc_send_loop reads (set_pk_destid g_server_endid (set_pk_srcid (lc_endid c) (set_pk_type (type_word (cl_type c)) zero_package))) c"

text \<open>
  The end of \<open>lc_scanf\<close>: characters are read up to the end of the line. At the end of the input \<open>getchar\<close> returns
  \<open>EOF\<close> again and again, and the loop does not end.
\<close>

partial_function (option) skip_line :: "string \<Rightarrow> string option" where
  "skip_line inp = (case inp of [] \<Rightarrow> skip_line [] | ch # cs \<Rightarrow> if ch = CHR 0x0A then Some cs else skip_line cs)"

text \<open>\<open>typed\<close> is what \<open>scanf\<close> reads, if it reads a number, \<open>inp\<close> the input behind it.\<close>

definition send_msg_to_other_cli ::
  "int option \<Rightarrow> string \<Rightarrow> (byte list option \<times> task_alloc) list \<Rightarrow> lc_client \<Rightarrow> (bool \<times> lc_client) option" where
  "send_msg_to_other_cli typed inp reads c = do {
     let msgbuf = set_pk_srcid (lc_endid c) (set_pk_type (type_word (cl_type c)) zero_package);
     let msgbuf = (case typed of None \<Rightarrow> msgbuf | Some n \<Rightarrow> set_pk_destid (word_of_int n) msgbuf);
     _ \<leftarrow> skip_line inp;
     lc_send_loop reads msgbuf c }"

definition complete_init_client_info :: "lc_client \<Rightarrow> lc_client" where
  "complete_init_client_info c = c\<lparr>init_cli_info := True\<rparr>"

definition recv_msg_by_socket :: "task_alloc \<Rightarrow> byte list option \<Rightarrow> lc_client \<Rightarrow> lc_client option" where
  "recv_msg_by_socket al rx c =
     (if cl_type c = TCP_LINK then map_option snd (recv_msg_by_tcp al rx c)
      else if cl_type c = UDP_LINK then map_option snd (recv_msg_by_udp al rx c)
      else Some c)"

definition create_sock_msg_recv_thread :: "int \<Rightarrow> lc_client \<Rightarrow> lc_client" where
  "create_sock_msg_recv_thread iret c = (if iret \<noteq> 0 then c else c\<lparr>lc_threads := lc_threads c @ [''CliMsgRecv'']\<rparr>)"

definition destroy_socket :: "lc_client \<Rightarrow> lc_client" where
  "destroy_socket c = snd (try_destroy_client_tcp (snd (try_destroy_client_udp c)))"

section \<open>Workers\<close>

text \<open>All handlers but one dereference their argument.\<close>

definition run_cli_handler :: "cli_handler \<Rightarrow> byte list option \<Rightarrow> lc_client \<Rightarrow> lc_client option" where
  "run_cli_handler h a c =
     (case h of
        H_send_msg_by_tcp \<Rightarrow> do { b \<leftarrow> a; Some (send_msg_by_tcp_cli b c) }
      | H_send_msg_by_udp \<Rightarrow> do { b \<leftarrow> a; Some (send_msg_by_udp_cli b c) }
      | H_complete_init_client_info \<Rightarrow> Some (complete_init_client_info c)
      | H_show_msg_package \<Rightarrow> do { b \<leftarrow> a; Some (c\<lparr>lc_shown := lc_shown c @ [dispaly_msg_package b]\<rparr>) })"

definition client_worker_turn :: "nat \<Rightarrow> lc_client \<Rightarrow> lc_client option" where
  "client_worker_turn i c = do {
     pool \<leftarrow> g_cli_thread_pool c;
     (t, pool) \<leftarrow> take_task i pool;
     let c = c\<lparr>g_cli_thread_pool := Some pool\<rparr>;
     (case t of
        None \<Rightarrow> Some c
      | Some t \<Rightarrow> do {
          c \<leftarrow> run_cli_handler (handler t) (args pool (arg t)) c;
          pool \<leftarrow> g_cli_thread_pool c;
          pool \<leftarrow> spool_step (Step_thread i) pool;
          Some (c\<lparr>g_cli_thread_pool := Some pool\<rparr>) }) }"

section \<open>\<open>client_interface.c\<close>\<close>

datatype interface_op = Op_switch_socket_type | Op_send_msg_to_server | Op_send_msg_to_other_cli

definition interface_info :: "interface_op list" where
  "interface_info = [Op_switch_socket_type, Op_send_msg_to_server, Op_send_msg_to_other_cli]"

text \<open>
  A turn of the menu up to the call: \<open>typed\<close> is what \<open>scanf\<close> reads, \<open>inp\<close> the input behind it, \<open>lc_switch\<close> the variable, which
  keeps its value when \<open>scanf\<close> reads no number. The array is read without a check of the index.
\<close>

definition cli_interface_choice :: "int option \<Rightarrow> string \<Rightarrow> int \<Rightarrow> (interface_op \<times> int \<times> string) option" where
  "cli_interface_choice typed inp lc_switch = do {
     let lc_switch = (case typed of None \<Rightarrow> lc_switch | Some n \<Rightarrow> n);
     inp \<leftarrow> skip_line inp;
     op_handler \<leftarrow> arr_get interface_info lc_switch;
     Some (op_handler, lc_switch, inp) }"

text \<open>What the operations need from outside: a new descriptor, the other threads' actions, a number and
  lines typed. A dialogue whose lines are used up waits; the turn then ends in the middle of it.\<close>

record op_inputs =
  in_sock :: int
  in_between :: "switch_pc \<Rightarrow> lc_client \<Rightarrow> lc_client option"
  in_al :: "nat \<Rightarrow> task_alloc"
  in_others :: "nat \<Rightarrow> lc_client \<Rightarrow> lc_client option"
  in_num :: "int option"
  in_inp :: string
  in_reads :: "(byte list option \<times> task_alloc) list"

definition cli_interface_round :: "int option \<Rightarrow> string \<Rightarrow> op_inputs \<Rightarrow> int \<Rightarrow> lc_client \<Rightarrow> (int \<times> lc_client) option" where
  "cli_interface_round typed inp d lc_switch c = do {
     (op_handler, lc_switch, _) \<leftarrow> cli_interface_choice typed inp lc_switch;
     c \<leftarrow> (case op_handler of
        Op_switch_socket_type \<Rightarrow> map_option snd (switch_socket_type (in_sock d) (in_between d) (in_al d) (in_others d) c)
      | Op_send_msg_to_server \<Rightarrow> map_option snd (send_msg_to_server (in_reads d) c)
      | Op_send_msg_to_other_cli \<Rightarrow> map_option snd (send_msg_to_other_cli (in_num d) (in_inp d) (in_reads d) c));
     Some (lc_switch, c) }"

definition create_cli_interface_thread :: "int \<Rightarrow> lc_client \<Rightarrow> lc_client" where
  "create_cli_interface_thread iret c = (if iret \<noteq> 0 then c else c\<lparr>lc_threads := lc_threads c @ [''CliUI'']\<rparr>)"

section \<open>\<open>client.c\<close>\<close>

definition init_all_cli_modules :: "addr \<Rightarrow> int \<times> int \<Rightarrow> op_inputs \<Rightarrow> lc_client \<Rightarrow> lc_client option" where
  "init_all_cli_modules q iret d c = do {
     let c = c\<lparr>g_cli_thread_pool := create_client_thread_pool q (g_cli_thread_pool c)\<rparr>;
     let c = create_sock_msg_recv_thread (fst iret) c;
     (_, c) \<leftarrow> switch_socket_type (in_sock d) (in_between d) (in_al d) (in_others d) c;
     Some (create_cli_interface_thread (snd iret) c) }"

definition release_all_cli_modules_resources :: "lc_client \<Rightarrow> lc_client" where
  "release_all_cli_modules_resources c =
     destroy_socket (c\<lparr>g_cli_thread_pool := destroy_client_thread_pool (g_cli_thread_pool c)\<rparr>)"

text \<open>The static variables at the start; the id is that of the process.\<close>

definition new_client :: "32 word \<Rightarrow> sock_addr \<Rightarrow> lc_client" where
  "new_client endid a = \<lparr>cl_type = UNSET, g_cli_tcpfd = 0, g_cli_udpfd = 0, init_cli_info = False, lc_endid = endid, srv_udp_addr = a,
     g_cli_thread_pool = None, lc_out = [], lc_shown = [], lc_closed = [], lc_threads = []\<rparr>"

section \<open>Posting and working\<close>

definition sender_of :: "socket_type_t \<Rightarrow> cli_handler" where
  "sender_of t = (if t = TCP_LINK then H_send_msg_by_tcp else H_send_msg_by_udp)"

lemma package_length: "wf_package b \<Longrightarrow> length b = sizeof_package \<and> 0 < length b"
  by (simp add: wf_package_def sizeof_package_def)

lemma send_msg_by_socket_ok:
  assumes "pool_waiting 3 (g_cli_thread_pool c) ts" "task_alloc_fresh al (g_cli_thread_pool c)" "wf_package b" "cl_type c \<noteq> UNSET"
  shows "\<exists>pool. send_msg_by_socket al b c = Some (c\<lparr>g_cli_thread_pool := pool\<rparr>) \<and>
    pool_waiting 3 pool (ts @ [(sender_of (cl_type c), Some b)]) \<and>
    pool_uses pool \<subseteq> pool_uses (g_cli_thread_pool c) \<union> {tk_queue al, tk_arg al, tk_node al}"
proof -
  obtain pool where "add_task_release 3 0 al (sender_of (cl_type c)) b sizeof_package (g_cli_thread_pool c) = Some pool"
    "pool_waiting 3 pool (ts @ [(sender_of (cl_type c), Some b)])"
    using add_task_release_ok [OF assms(1,2), of 0 b "sender_of (cl_type c)"] package_length [OF assms(3)] by auto
  with add_task_release_uses [OF this(1)] show ?thesis using assms(4)
    by (cases "cl_type c") (auto simp: send_msg_by_socket_def add_task_to_client_pool_release_arg_mem_def sender_of_def)
qed

definition received_task :: "lc_msg_package_t \<Rightarrow> cli_handler \<times> byte list option" where
  "received_task b = (if pk_type b = SAVE_CLI_INFO_lc then (H_complete_init_client_info, None) else (H_show_msg_package, Some b))"

lemma post_received_ok:
  assumes "pool_waiting 3 (g_cli_thread_pool c) ts" "task_alloc_fresh al (g_cli_thread_pool c)" "wf_package b"
  shows "\<exists>pool. post_received al b c = Some (c\<lparr>g_cli_thread_pool := pool\<rparr>) \<and> pool_waiting 3 pool (ts @ [received_task b]) \<and> pool \<noteq> None"
proof -
  obtain p1 where p1: "add_task_release 3 1 al H_show_msg_package b sizeof_package (g_cli_thread_pool c) = Some p1"
    "pool_waiting 3 p1 (ts @ [(H_show_msg_package, Some b)])"
    using add_task_release_ok [OF assms(1,2), of 1 b H_show_msg_package] package_length [OF assms(3)] by auto
  obtain p2 where p2: "add_task_use 3 1 al H_complete_init_client_info NULL (g_cli_thread_pool c) = Some p2"
    "pool_waiting 3 p2 (ts @ [(H_complete_init_client_info, None)])"
    using add_task_use_ok [OF assms(1,2), of 1 H_complete_init_client_info NULL] by auto
  have "p1 \<noteq> None" "p2 \<noteq> None" using p1(2) p2(2) by (auto simp: pool_waiting_def split: option.splits)
  with p1 p2 show ?thesis
    by (auto simp: post_received_def received_task_def add_task_to_client_pool_release_arg_mem_def
        add_task_to_client_pool_use_arg_mem_def)
qed

text \<open>A worker's turn with a waiting task.\<close>

definition cli_effect :: "cli_handler \<times> byte list option \<Rightarrow> lc_client \<Rightarrow> lc_client" where
  "cli_effect t c = the (run_cli_handler (fst t) (snd t) c)"

lemma cli_effect [simp]:
  "cli_effect (H_send_msg_by_tcp, Some b) c = send_msg_by_tcp_cli b c" "cli_effect (H_send_msg_by_udp, Some b) c = send_msg_by_udp_cli b c"
  "cli_effect (H_complete_init_client_info, x) c = complete_init_client_info c"
  "cli_effect (H_show_msg_package, Some b) c = c\<lparr>lc_shown := lc_shown c @ [dispaly_msg_package b]\<rparr>"
  by (simp_all add: cli_effect_def run_cli_handler_def)

lemma client_worker_ok:
  assumes "pool_waiting 3 (g_cli_thread_pool c) (t # ts)" "i < 3" "fst t = H_complete_init_client_info \<or> snd t \<noteq> None"
  shows "\<exists>p. client_worker_turn i c = Some ((cli_effect t c)\<lparr>g_cli_thread_pool := p\<rparr>) \<and> pool_waiting 3 p ts \<and>
    pool_uses p \<subseteq> pool_uses (g_cli_thread_pool c)"
proof -
  obtain pool where pool: "g_cli_thread_pool c = Some pool" "waiting 3 pool ((fst t, snd t) # ts)"
    using assms(1) by (auto simp: pool_waiting_def split: option.splits)
  obtain tk p1 p2 where t: "take_task i pool = Some (Some tk, p1)" "arg_seen (args p1) tk (fst t, snd t)"
    "spool_step (Step_thread i) p1 = Some p2" "waiting 3 p2 ts"
    using take_task_ok [OF pool(2) assms(2)] by blast
  have h: "handler tk = fst t" "snd t \<noteq> None \<Longrightarrow> args p1 (arg tk) = snd t" using t(2) by (auto simp: arg_seen_def)
  let ?c = "c\<lparr>g_cli_thread_pool := Some p1\<rparr>"
  have run: "run_cli_handler (fst t) (args p1 (arg tk)) ?c = Some ((cli_effect t c)\<lparr>g_cli_thread_pool := Some p1\<rparr>)"
    using assms(3) h(2) by (cases "fst t"; cases "snd t")
      (auto simp: cli_effect_def run_cli_handler_def send_msg_by_tcp_cli_def send_msg_by_udp_cli_def complete_init_client_info_def)
  have "client_worker_turn i c = Some ((cli_effect t c)\<lparr>g_cli_thread_pool := Some p1, g_cli_thread_pool := Some p2\<rparr>)"
    unfolding client_worker_turn_def pool(1) using t(1,3) run h(1) by simp
  moreover have "pool_uses (Some p2) \<subseteq> pool_uses (g_cli_thread_pool c)"
    unfolding pool(1) using worker_frees [OF t(3)] take_task_uses [OF t(1)] by (rule subset_trans)
  ultimately show ?thesis using t(4) by (intro exI [of _ "Some p2"]) (simp add: pool_waiting_def)
qed

section \<open>The dialogues\<close>

text \<open>The packages that the lines lead to: each is written over the one before.\<close>

fun written :: "byte list list \<Rightarrow> lc_msg_package_t \<Rightarrow> lc_msg_package_t list" where
  "written [] m = []"
| "written (l # ls) m = read_data l m # written ls (read_data l m)"

definition quits_lc :: "lc_msg_package_t \<Rightarrow> bool" where
  "quits_lc m \<longleftrightarrow> casestr (takeWhile (\<lambda>b. b \<noteq> 0) (drop 12 m)) quit_text"

text \<open>The four bytes behind the text stay zero.\<close>

definition dialogue_buf :: "lc_msg_package_t \<Rightarrow> bool" where
  "dialogue_buf m \<longleftrightarrow> wf_package m \<and> drop 524 m = replicate 4 0"

lemma drop_put_at: "off + length xs \<le> k \<Longrightarrow> k \<le> length b \<Longrightarrow> drop k (put_at off xs b) = drop k b"
  by (simp add: put_at_def drop_append)

lemma dialogue_buf_set [simp]:
  "dialogue_buf m \<Longrightarrow> dialogue_buf (set_pk_type w m)" "dialogue_buf m \<Longrightarrow> dialogue_buf (set_pk_srcid w m)"
  "dialogue_buf m \<Longrightarrow> dialogue_buf (set_pk_destid w m)" "dialogue_buf m \<Longrightarrow> dialogue_buf (read_data l m)"
  "dialogue_buf zero_package"
  by (simp_all add: dialogue_buf_def)
    (simp_all add: package_defs drop_put_at bytes_of_word_def zero_package_def)

lemma dialogue_buf_string: "dialogue_buf m \<Longrightarrow> c_string (drop 12 m) = Some (takeWhile (\<lambda>b. b \<noteq> 0) (drop 12 m))"
proof -
  assume "dialogue_buf m"
  then have "drop 512 (drop 12 m) = replicate 4 0" by (simp add: dialogue_buf_def)
  then have "0 \<in> set (drop 512 (drop 12 m))" by simp
  then have "0 \<in> set (drop 12 m)" using in_set_dropD by fastforce
  then show ?thesis by (simp add: c_string_def)
qed

definition al_addrs :: "task_alloc \<Rightarrow> addr list" where
  "al_addrs al = [tk_queue al, tk_arg al, tk_node al]"

lemma unused_after: "A \<inter> B = {} \<Longrightarrow> A \<inter> insert x U = {} \<Longrightarrow> V \<subseteq> U \<union> B \<Longrightarrow> A \<inter> insert x V = {}"
  by blast

lemma lc_send_loop_posts:
  assumes "pool_waiting 3 (g_cli_thread_pool c) ts" "cl_type c \<noteq> UNSET" "dialogue_buf m" "length als = length ls"
    "\<forall>l \<in> set ls. l \<noteq> []" "\<forall>b \<in> set (written ls m). \<not> quits_lc b"
    "distinct (concat (map al_addrs als))" "set (concat (map al_addrs als)) \<inter> insert NULL (pool_uses (g_cli_thread_pool c)) = {}"
  shows "\<exists>pool. lc_send_loop (zip (map Some ls) als) m c = Some (False, c\<lparr>g_cli_thread_pool := pool\<rparr>) \<and>
    pool_waiting 3 pool (ts @ map (\<lambda>b. (sender_of (cl_type c), Some b)) (written ls m))"
  using assms
proof (induction ls arbitrary: als m c ts)
  case Nil
  then show ?case by (intro exI [of _ "g_cli_thread_pool c"]) simp
next
  case (Cons l ls)
  obtain al als' where als: "als = al # als'" "length als' = length ls" using Cons.prems(4) by (cases als) auto
  let ?m = "read_data l m"
  have m: "dialogue_buf ?m" "wf_package ?m" using Cons.prems(3) by (simp_all add: dialogue_buf_def [of m] dialogue_buf_def [of ?m])
      (use Cons.prems(3) dialogue_buf_set(4) dialogue_buf_def in blast)
  have f: "task_alloc_fresh al (g_cli_thread_pool c)"
    by (rule unused_fresh) (use Cons.prems(7,8) als in \<open>auto simp: al_addrs_def\<close>)
  obtain pool where p: "send_msg_by_socket al ?m c = Some (c\<lparr>g_cli_thread_pool := pool\<rparr>)"
    "pool_waiting 3 pool (ts @ [(sender_of (cl_type c), Some ?m)])"
    "pool_uses pool \<subseteq> pool_uses (g_cli_thread_pool c) \<union> set (al_addrs al)"
    using send_msg_by_socket_ok [OF Cons.prems(1) f m(2) Cons.prems(2)] by (auto simp: al_addrs_def)
  let ?c = "c\<lparr>g_cli_thread_pool := pool\<rparr>" and ?as = "set (concat (map al_addrs als'))"
  have as: "?as \<inter> set (al_addrs al) = {}" "?as \<inter> insert NULL (pool_uses (g_cli_thread_pool c)) = {}" "distinct (concat (map al_addrs als'))"
    using Cons.prems(7,8) als(1) by auto
  have "g_cli_thread_pool ?c = pool" by simp
  then have "?as \<inter> insert NULL (pool_uses (g_cli_thread_pool ?c)) = {}" using unused_after [OF as(1,2) p(3)] by (simp only:)
  then obtain pool' where "lc_send_loop (zip (map Some ls) als') ?m ?c = Some (False, ?c\<lparr>g_cli_thread_pool := pool'\<rparr>)"
    "pool_waiting 3 pool' ((ts @ [(sender_of (cl_type c), Some ?m)]) @ map (\<lambda>b. (sender_of (cl_type c), Some b)) (written ls ?m))"
    using Cons.IH [of ?c "ts @ [(sender_of (cl_type c), Some ?m)]" ?m als'] Cons.prems(2,5,6) p(2) m(1) als(2) as(3) by auto
  then show ?case
    using p(1) Cons.prems(5,6) dialogue_buf_string [OF m(1)] als(1)
    by (intro exI [of _ pool']) (simp add: quits_lc_def Let_def)
qed

section \<open>Closing and switching in steps\<close>

text \<open>Without other threads in between, the steps are the whole functions.\<close>

fun destroy_run :: "socket_type_t \<Rightarrow> nat \<Rightarrow> close_pc \<Rightarrow> lc_client \<Rightarrow> lc_client" where
  "destroy_run t 0 pc c = c"
| "destroy_run t (Suc n) pc c = (case destroy_step t pc c of (None, c) \<Rightarrow> c | (Some pc, c) \<Rightarrow> destroy_run t n pc c)"

lemma destroy_alone:
  "destroy_run TCP_LINK 4 X_check c = snd (try_destroy_client_tcp c)" "destroy_run UDP_LINK 4 X_check c = snd (try_destroy_client_udp c)"
  by (simp_all add: numeral_eq_Suc try_destroy_client_tcp_def try_destroy_client_udp_def Let_def)

lemma switch_alone: "run_switch sock (\<lambda>pc. Some) 7 S_type c = Some (open_type sock (c\<lparr>cl_type := toggle_type (cl_type c)\<rparr>))"
  by (cases "cl_type c"; cases "CHECK_FD (g_cli_tcpfd c)"; cases "CHECK_FD (g_cli_udpfd c)")
    (simp_all add: numeral_eq_Suc toggle_type_def other_type_def open_type_def init_client_tcp_def init_client_udp_def
      try_destroy_client_tcp_def try_destroy_client_udp_def Let_def)

text \<open>
  The receiving thread reads the type, waits for a package on the socket of that type, and closes it in the steps above when the
  connection was shut down; meanwhile the type may have changed.
\<close>

datatype rx_pc = R_idle | R_recv socket_type_t | R_close close_pc

definition recv_step :: "socket_type_t \<Rightarrow> task_alloc \<Rightarrow> byte list option \<Rightarrow> lc_client \<Rightarrow> (rx_pc \<times> lc_client) option" where
  "recv_step t al rx c =
     (if t = UNSET then Some (R_idle, c)
      else (case rx of
          None \<Rightarrow> Some (R_idle, c)
        | Some bytes \<Rightarrow>
            if bytes = [] then Some (if t = TCP_LINK then R_close X_check else R_idle, c)
            else do { c \<leftarrow> post_received al (recv_package bytes) c; Some (R_idle, c) }))"

lemma recv_alone:
  "recv_msg_by_socket al rx c = map_option (\<lambda>(pc, c). case pc of R_close pc \<Rightarrow> destroy_run TCP_LINK 4 pc c | _ \<Rightarrow> c) (recv_step (cl_type c) al rx c)"
  using destroy_alone(1) [of c]
  by (cases "cl_type c"; cases rx) (auto simp: recv_msg_by_socket_def recv_step_def recv_msg_by_tcp_def recv_msg_by_udp_def bind_eq_Some_conv
      option.map_comp comp_def split: bind_splits)

section \<open>The client as a state machine\<close>

text \<open>
  The client with the places of its user interface and of its receiving thread. The steps of its threads: choosing to switch and the steps of
  the switch, one attempt to register, sending a package, the receiving thread's, and a turn of a worker. \<open>sock\<close> is the
  result of \<open>socket\<close>.
\<close>

record cli_sys =
  cs_cli :: lc_client
  cs_ui :: switch_pc
  cs_rx :: rx_pc

inductive cli_step :: "cli_sys \<Rightarrow> cli_sys \<Rightarrow> bool" where
  choose: "cs_ui s = S_idle \<Longrightarrow> cli_step s (s\<lparr>cs_ui := S_type\<rparr>)"
| switching: "cs_ui s \<noteq> S_idle \<Longrightarrow> switch_step sock (cs_ui s) (cs_cli s) = (pc, c) \<Longrightarrow> cli_step s (s\<lparr>cs_ui := pc, cs_cli := c\<rparr>)"
| register: "cs_ui s = S_idle \<Longrightarrow> init_client_info_to_server al (cs_cli s) = Some c \<Longrightarrow> cli_step s (s\<lparr>cs_cli := c\<rparr>)"
| send: "cs_ui s = S_idle \<Longrightarrow> send_msg_by_socket al b (cs_cli s) = Some c \<Longrightarrow> cli_step s (s\<lparr>cs_cli := c\<rparr>)"
| read_type: "cs_rx s = R_idle \<Longrightarrow> cli_step s (s\<lparr>cs_rx := R_recv (cl_type (cs_cli s))\<rparr>)"
| receive: "cs_rx s = R_recv t \<Longrightarrow> recv_step t al rx (cs_cli s) = Some (pc, c) \<Longrightarrow> cli_step s (s\<lparr>cs_rx := pc, cs_cli := c\<rparr>)"
| hang_up: "cs_rx s = R_close pc \<Longrightarrow> destroy_step TCP_LINK pc (cs_cli s) = (next, c) \<Longrightarrow>
    cli_step s (s\<lparr>cs_rx := (case next of None \<Rightarrow> R_idle | Some pc \<Rightarrow> R_close pc), cs_cli := c\<rparr>)"
| worker: "client_worker_turn i (cs_cli s) = Some c \<Longrightarrow> cli_step s (s\<lparr>cs_cli := c\<rparr>)"

inductive cli_reachable :: "cli_sys \<Rightarrow> cli_sys \<Rightarrow> bool" for s0 where
  start: "cli_reachable s0 s0"
| step: "cli_reachable s0 s \<Longrightarrow> cli_step s s' \<Longrightarrow> cli_reachable s0 s'"

definition cli_start :: "lc_client \<Rightarrow> cli_sys" where
  "cli_start c = \<lparr>cs_cli = c, cs_ui = S_idle, cs_rx = R_idle\<rparr>"

text \<open>
  Which descriptors can be open where: outside a switch that of the current type, while the old socket is being closed that of the
  other type, and then none until the new one is opened.
\<close>

definition open_only :: "(socket_type_t \<Rightarrow> bool) \<Rightarrow> lc_client \<Rightarrow> bool" where
  "open_only P c \<longleftrightarrow> (CHECK_FD (g_cli_tcpfd c) \<longrightarrow> P TCP_LINK) \<and> (CHECK_FD (g_cli_udpfd c) \<longrightarrow> P UDP_LINK)"

fun fds_ok :: "switch_pc \<Rightarrow> lc_client \<Rightarrow> bool" where
  "fds_ok S_idle c \<longleftrightarrow> open_only (\<lambda>t. t = cl_type c) c"
| "fds_ok S_type c \<longleftrightarrow> open_only (\<lambda>t. t = cl_type c) c"
| "fds_ok (S_close pc) c \<longleftrightarrow> cl_type c \<noteq> UNSET \<and> open_only (\<lambda>t. t = other_type (cl_type c)) c"
| "fds_ok S_check c \<longleftrightarrow> cl_type c \<noteq> UNSET \<and> open_only (\<lambda>t. False) c"
| "fds_ok S_open c \<longleftrightarrow> cl_type c \<noteq> UNSET \<and> open_only (\<lambda>t. False) c"

lemma CHECK_FD_0 [simp]: "\<not> CHECK_FD 0"
  by (simp add: CHECK_FD_def)

lemma switch_fds:
  assumes "switch_step sock pc c = (pc', c')" "fds_ok pc c"
  shows "fds_ok pc' c'"
proof (cases pc)
  case (S_close x)
  show ?thesis
    by (cases x; cases "cl_type c") (use assms S_close in \<open>auto simp: open_only_def other_type_def split: if_splits\<close>)
next
  case S_type
  then show ?thesis using assms by (cases "cl_type c") (auto simp: open_only_def other_type_def toggle_type_def)
next
  case S_open
  then show ?thesis using assms by (cases "cl_type c") (auto simp: open_only_def)
next
  case S_check
  then show ?thesis using assms by (cases "cl_type c") (auto simp: open_only_def split: if_splits)
qed (use assms in auto)

text \<open>The other steps keep the type and do not open a descriptor.\<close>

definition no_open :: "lc_client \<Rightarrow> lc_client \<Rightarrow> bool" where
  "no_open c c' \<longleftrightarrow> cl_type c' = cl_type c \<and> (CHECK_FD (g_cli_tcpfd c') \<longrightarrow> CHECK_FD (g_cli_tcpfd c)) \<and>
     (CHECK_FD (g_cli_udpfd c') \<longrightarrow> CHECK_FD (g_cli_udpfd c))"

lemma no_open_fds: "no_open c c' \<Longrightarrow> fds_ok pc c \<Longrightarrow> fds_ok pc c'"
  by (cases pc) (auto simp: no_open_def open_only_def)

lemma other_steps:
  "send_msg_by_socket al b c = Some c' \<Longrightarrow> no_open c c'" "post_received al b c = Some c' \<Longrightarrow> no_open c c'"
  "run_cli_handler h a c = Some c' \<Longrightarrow> no_open c c'" "destroy_step TCP_LINK x c = (next, c') \<Longrightarrow> no_open c c'"
  "client_worker_turn i c = Some c' \<Longrightarrow> no_open c c'"
proof -
  show 1: "run_cli_handler h a c = Some c' \<Longrightarrow> no_open c c'" for h a c c'
    by (cases h) (auto simp: run_cli_handler_def bind_eq_Some_conv send_msg_by_tcp_cli_def send_msg_by_udp_cli_def
        complete_init_client_info_def no_open_def)
  show "client_worker_turn i c = Some c' \<Longrightarrow> no_open c c'"
    by (auto simp: client_worker_turn_def Let_def bind_eq_Some_conv no_open_def split: option.splits
        dest!: 1 [unfolded no_open_def] simp del: spool_step.simps)
  show "destroy_step TCP_LINK x c = (next, c') \<Longrightarrow> no_open c c'" by (cases x) (auto simp: no_open_def split: if_splits)
qed (auto simp: send_msg_by_socket_def post_received_def bind_eq_Some_conv no_open_def split: if_splits)

lemma cli_step_fds:
  assumes "cli_step s s'" "fds_ok (cs_ui s) (cs_cli s)"
  shows "fds_ok (cs_ui s') (cs_cli s')"
  using assms
proof (induction rule: cli_step.induct)
  case (switching s sock pc c)
  then show ?case using switch_fds by simp
next
  case (receive s t al rx pc c)
  then have "no_open (cs_cli s) c"
    by (auto simp: recv_step_def bind_eq_Some_conv split: if_splits option.splits dest: other_steps(2)) (simp_all add: no_open_def)
  then show ?case using receive no_open_fds by simp
next
  case (register s al c)
  then show ?case using no_open_fds [of "cs_cli s" c "cs_ui s"] other_steps(1) by (fastforce simp: init_client_info_to_server_def)
next
  case (send s al b c)
  then show ?case using no_open_fds [of "cs_cli s" c "cs_ui s"] other_steps(1) by fastforce
next
  case (hang_up s pc next' c)
  then show ?case using no_open_fds [of "cs_cli s" c "cs_ui s"] other_steps(4) by fastforce
next
  case (worker i s c)
  then show ?case using no_open_fds [of "cs_cli s" c "cs_ui s"] other_steps(5) by fastforce
qed simp_all

lemma cli_reachable_fds: "cli_reachable s0 s \<Longrightarrow> fds_ok (cs_ui s0) (cs_cli s0) \<Longrightarrow> fds_ok (cs_ui s) (cs_cli s)"
  by (induction rule: cli_reachable.induct) (auto intro: cli_step_fds)

lemma switch_path:
  assumes "cli_reachable s0 s" "cs_ui s \<noteq> S_idle" "switch_step sock (cs_ui s) (cs_cli s) = (pc, c)"
  shows "cli_reachable s0 (s\<lparr>cs_ui := pc, cs_cli := c\<rparr>)"
  using assms cli_reachable.step cli_step.switching by blast

text \<open>The states on the way from the start over UDP into the switch to TCP.\<close>

lemma switch_window:
  "\<exists>s. cli_reachable (cli_start (new_client e a)) s \<and> cl_type (cs_cli s) = TCP_LINK \<and> CHECK_FD (g_cli_udpfd (cs_cli s))"
proof -
  let ?c0 = "new_client e a" let ?c1 = "?c0\<lparr>cl_type := UDP_LINK\<rparr>" let ?c2 = "?c1\<lparr>g_cli_udpfd := 3\<rparr>"
  let ?st = "\<lambda>pc c. \<lparr>cs_cli = c, cs_ui = pc, cs_rx = R_idle\<rparr>"
  note r = cli_reachable.start [of "cli_start ?c0"]
  have "cli_reachable (cli_start ?c0) (?st S_type ?c0)" using cli_reachable.step [OF r cli_step.choose] by (simp add: cli_start_def)
  from switch_path [OF this, of 3] have "cli_reachable (cli_start ?c0) (?st (S_close X_check) ?c1)" by (simp add: toggle_type_def new_client_def)
  from switch_path [OF this, of 3] have "cli_reachable (cli_start ?c0) (?st S_check ?c1)" by (simp add: other_type_def new_client_def)
  from switch_path [OF this, of 3] have "cli_reachable (cli_start ?c0) (?st S_open ?c1)" by (simp add: new_client_def)
  from switch_path [OF this, of 3] have 2: "cli_reachable (cli_start ?c0) (?st S_idle ?c2)" by simp
  have "cli_reachable (cli_start ?c0) (?st S_type ?c2)" using cli_reachable.step [OF 2 cli_step.choose] by simp
  from switch_path [OF this, of 4]
  have "cli_reachable (cli_start ?c0) (?st (S_close X_check) (?c2\<lparr>cl_type := TCP_LINK\<rparr>))" by (simp add: toggle_type_def)
  then show ?thesis by (intro exI conjI) (assumption, simp_all add: CHECK_FD_def)
qed

text \<open>
  The closing of a connection is not protected: when the server hangs up while the user switches from TCP to UDP, both threads can
  pass the test before either clears the variable, and the descriptor is closed twice, the second time possibly after it was given to
  another file.
\<close>

lemma sock_double_close:
  assumes "CHECK_FD k" "cl_type c = TCP_LINK" "g_cli_tcpfd c = k" "lc_closed c = []"
  shows "\<exists>s. cli_reachable (cli_start c) s \<and> lc_closed (cs_cli s) = [k, k]"
proof -
  let ?st = "\<lambda>pc rx c. \<lparr>cs_cli = c, cs_ui = pc, cs_rx = rx\<rparr>"
  let ?c1 = "c\<lparr>init_cli_info := False\<rparr>" let ?c2 = "c\<lparr>cl_type := UDP_LINK, init_cli_info := False\<rparr>" let ?c3 = "?c2\<lparr>lc_closed := [k]\<rparr>"
  have upd: "?c1\<lparr>cl_type := UDP_LINK\<rparr> = ?c2" by simp
  note r = cli_reachable.start [of "cli_start c"]
  have "cli_reachable (cli_start c) (?st S_idle (R_recv TCP_LINK) c)"
    using cli_reachable.step [OF r cli_step.read_type] assms(2) by (simp add: cli_start_def)
  from cli_reachable.step [OF this cli_step.receive [where rx = "Some []" and pc = "R_close X_check" and c = c]]
  have "cli_reachable (cli_start c) (?st S_idle (R_close X_check) c)" by (simp add: recv_step_def)
  from cli_reachable.step [OF this cli_step.hang_up [where pc = X_check]]
  have "cli_reachable (cli_start c) (?st S_idle (R_close X_flag) c)" using assms(1,3) by simp
  from cli_reachable.step [OF this cli_step.hang_up [where pc = X_flag]]
  have "cli_reachable (cli_start c) (?st S_idle (R_close X_close) ?c1)" by simp
  from cli_reachable.step [OF this cli_step.choose] have "cli_reachable (cli_start c) (?st S_type (R_close X_close) ?c1)" by simp
  from switch_path [OF this, of 0] have "cli_reachable (cli_start c) (?st (S_close X_check) (R_close X_close) ?c2)"
    using assms(2) by (simp add: toggle_type_def upd)
  from switch_path [OF this, of 0] have "cli_reachable (cli_start c) (?st (S_close X_flag) (R_close X_close) ?c2)"
    using assms(1,3) by (simp add: other_type_def)
  from switch_path [OF this, of 0] have "cli_reachable (cli_start c) (?st (S_close X_close) (R_close X_close) ?c2)" by simp
  from switch_path [OF this, of 0] have "cli_reachable (cli_start c) (?st (S_close X_clear) (R_close X_close) ?c3)"
    using assms(3,4) by (simp add: other_type_def)
  from cli_reachable.step [OF this cli_step.hang_up [where pc = X_close]]
  have "cli_reachable (cli_start c) (?st (S_close X_clear) (R_close X_clear) (?c3\<lparr>lc_closed := [k, k]\<rparr>))" using assms(3) by simp
  then show ?thesis by (intro exI conjI) (assumption, simp)
qed

section \<open>Properties\<close>

definition client_base :: "lc_client \<Rightarrow> lc_msg_package_t" where
  "client_base c = set_pk_srcid (lc_endid c) (set_pk_type (type_word (cl_type c)) zero_package)"

lemma skip_line_cons: "skip_line (ch # cs) = (if ch = CHR 0x0A then Some cs else skip_line cs)"
  by (subst skip_line.simps) simp

lemma skip_line_nil: "skip_line [] = None"
proof -
  have "inp \<noteq> []" if "skip_line inp = Some r" for inp r
  proof (rule skip_line.raw_induct [where P = "\<lambda>inp r. inp \<noteq> []", OF _ that])
    show "inp \<noteq> []" if "\<And>x y. f x = Some y \<Longrightarrow> x \<noteq> []"
      "(case inp of [] \<Rightarrow> f [] | ch # cs \<Rightarrow> if ch = CHR 0x0A then Some cs else f cs) = Some r" for f inp and r :: string
      using that by (auto split: list.splits)
  qed
  then show ?thesis by (cases "skip_line []") auto
qed

text \<open>
  Reading a menu choice ends exactly when the input still has a line break: \<open>lc_scanf\<close> leaves what is behind
  the first one, and at the end of the input it reads \<open>EOF\<close> for ever.
\<close>

theorem scanf_line_ends:
  "skip_line inp = (if CHR 0x0A \<in> set inp then Some (tl (dropWhile (\<lambda>ch. ch \<noteq> CHR 0x0A) inp)) else None)"
  by (induction inp) (simp_all add: skip_line_nil skip_line_cons)

lemma skip_line_newline [simp]: "skip_line (CHR 0x0A # cs) = Some cs"
  by (simp add: skip_line_cons)

text \<open>
  A line typed after a longer one is sent with the end of the longer one behind it: the package is not
  cleared between lines. For two lines, the first not shorter, the pool receives two packages addressed to
  the id typed, the first with the first line padded with zeros, the second with the second line
  followed by the rest of the first.
\<close>

theorem sock_dialogue_stale_tail:
  assumes "pool_waiting 3 (g_cli_thread_pool c) ts" "cl_type c \<noteq> UNSET" "l1 \<noteq> []" "l2 \<noteq> []" "length l2 \<le> length l1" "length l1 \<le> MSG_DATA_LEN"
    "\<forall>b \<in> set (written [l1, l2] (set_pk_destid (word_of_int n) (client_base c))). \<not> quits_lc b"
    "distinct (al_addrs al1 @ al_addrs al2)" "set (al_addrs al1 @ al_addrs al2) \<inter> insert NULL (pool_uses (g_cli_thread_pool c)) = {}"
  shows "\<exists>c' b1 b2. send_msg_to_other_cli (Some n) (CHR 0x0A # inp) [(Some l1, al1), (Some l2, al2)] c = Some (False, c') \<and>
    pool_waiting 3 (g_cli_thread_pool c') (ts @ [(sender_of (cl_type c), Some b1), (sender_of (cl_type c), Some b2)]) \<and>
    pk_destid b1 = word_of_int n \<and> pk_destid b2 = word_of_int n \<and> pk_srcid b1 = lc_endid c \<and> pk_srcid b2 = lc_endid c \<and>
    pk_data b1 = l1 @ replicate (MSG_DATA_LEN - length l1) 0 \<and>
    pk_data b2 = l2 @ drop (length l2) l1 @ replicate (MSG_DATA_LEN - length l1) 0"
proof -
  let ?m = "set_pk_destid (word_of_int n) (client_base c)"
  have buf: "dialogue_buf ?m" by (simp add: client_base_def)
  have wf: "wf_package ?m" "wf_package (client_base c)" by (simp_all add: client_base_def)
  obtain pool where p: "lc_send_loop [(Some l1, al1), (Some l2, al2)] ?m c = Some (False, c\<lparr>g_cli_thread_pool := pool\<rparr>)"
    "pool_waiting 3 pool (ts @ [(sender_of (cl_type c), Some (read_data l1 ?m)), (sender_of (cl_type c), Some (read_data l2 (read_data l1 ?m)))])"
    using lc_send_loop_posts [OF assms(1,2) buf, of "[al1, al2]" "[l1, l2]"] assms(3,4,7-9) by auto
  have d: "pk_data ?m = replicate MSG_DATA_LEN 0" by (simp add: client_base_def zero_package_fields)
  have s: "send_msg_to_other_cli (Some n) (CHR 0x0A # inp) [(Some l1, al1), (Some l2, al2)] c =
      lc_send_loop [(Some l1, al1), (Some l2, al2)] ?m c"
    by (simp add: send_msg_to_other_cli_def client_base_def)
  have "pk_srcid ?m = lc_endid c" by (simp add: client_base_def)
  note facts = p d s this wf assms(5,6)
  show ?thesis
    by (rule exI [of _ "c\<lparr>g_cli_thread_pool := pool\<rparr>"], rule exI [of _ "read_data l1 ?m"],
        rule exI [of _ "read_data l2 (read_data l1 ?m)"]) (use facts in \<open>simp add: drop_append\<close>)
qed

definition demo_al :: "nat \<Rightarrow> task_alloc" where
  "demo_al n = \<lparr>tk_queue = 3 * n + 1, tk_arg = 3 * n + 2, tk_node = 3 * n + 3\<rparr>"

definition demo_sock_cli :: "32 word \<Rightarrow> lc_client" where
  "demo_sock_cli e = (new_client e \<lparr>sk_port = 36666, sk_ip = 16777343\<rparr>)\<lparr>cl_type := TCP_LINK, g_cli_tcpfd := 4\<rparr>"

lemma demo_sock_cli [simp]:
  "cl_type (demo_sock_cli e) = TCP_LINK" "lc_endid (demo_sock_cli e) = e" "g_cli_thread_pool (demo_sock_cli e) = None"
  "lc_out (demo_sock_cli e) = []" "lc_shown (demo_sock_cli e) = []" "g_cli_tcpfd (demo_sock_cli e) = 4"
  "g_cli_udpfd (demo_sock_cli e) = 0" "init_cli_info (demo_sock_cli e) = False"
  by (simp_all add: demo_sock_cli_def new_client_def)

theorem sock_dialogue_stale_tail_witness:
  "\<exists>c' b1 b2. send_msg_to_other_cli (Some 7) ''\<newline>'' [(Some [104, 101, 108, 108, 111], demo_al 0), (Some [98, 121], demo_al 1)] (demo_sock_cli 8) = Some (False, c') \<and>
    pool_waiting 3 (g_cli_thread_pool c') [(H_send_msg_by_tcp, Some b1), (H_send_msg_by_tcp, Some b2)] \<and>
    pk_data b1 = [104, 101, 108, 108, 111] @ replicate 507 0 \<and> pk_data b2 = [98, 121, 108, 108, 111] @ replicate 507 0"
proof -
  let ?l1 = "[104, 101, 108, 108, 111] :: byte list" and ?l2 = "[98, 121] :: byte list"
  let ?m = "set_pk_destid (word_of_int 7) (client_base (demo_sock_cli 8))"
  have d: "drop 12 ?m = replicate 516 0"
    by (simp add: client_base_def package_defs drop_put_at length_put_at bytes_of_word_def zero_package_def)
  have rd: "drop 12 (read_data l b) = take 512 l @ drop (length (take 512 l)) (drop 12 b)" if "length b = 528" for l b
    using that by (simp add: read_data_def put_at_def MSG_DATA_LEN_def add.commute)
  have len: "length ?m = 528" "length (read_data ?l1 ?m) = 528"
    by (simp_all add: client_base_def package_defs length_put_at zero_package_def)
  have "drop 12 (read_data ?l1 ?m) = ?l1 @ replicate 511 0" "drop 12 (read_data ?l2 (read_data ?l1 ?m)) = [98, 121, 108, 108, 111] @ replicate 511 0"
    by (simp_all only: rd [OF len(1)] rd [OF len(2)] d) (simp_all add: numeral_eq_Suc)
  then have q: "\<forall>b \<in> set (written [?l1, ?l2] ?m). \<not> quits_lc b"
    by (simp add: quits_lc_def quit_text_def to_lower_def)
  have "pool_waiting 3 (g_cli_thread_pool (demo_sock_cli 8)) []" by (simp add: pool_waiting_def)
  from sock_dialogue_stale_tail [OF this _ _ _ _ _ q, of "demo_al 0" "demo_al 1" "[]"] show ?thesis
    by (simp add: al_addrs_def demo_al_def pool_uses_def MSG_DATA_LEN_def sender_of_def) blast
qed

text \<open>
  The menu does not check the number typed: every number that is not 0, 1 or 2 makes the program read
  a function pointer outside the array and call it.
\<close>

theorem sock_menu_unchecked:
  "cli_interface_choice (Some n) (CHR 0x0A # inp) lc_switch =
    (if n = 0 then Some (Op_switch_socket_type, 0, inp) else if n = 1 then Some (Op_send_msg_to_server, 1, inp)
     else if n = 2 then Some (Op_send_msg_to_other_cli, 2, inp) else None)"
proof -
  have "0 \<le> n \<and> n < 3 \<longleftrightarrow> n = 0 \<or> n = 1 \<or> n = 2" by auto
  then show ?thesis by (auto simp: cli_interface_choice_def interface_info_def arr_get_def)
qed

text \<open>
  C26. The client's two descriptors are never both set: in every state that its threads can reach in any order, from the
  start of the program, with a switch and a close being several steps each, at most one of the two variables holds a descriptor.
  Outside a switch it is the one of the current type. During a switch it can be the one of the other type, because the type changes first and
  the old socket is closed then: a state in which the type is TCP while the UDP socket is open is reached. (This is about the variables: as nothing locks
  them, a switch and a lost connection together can close one socket twice, \<open>sock_double_close\<close>.)
\<close>

theorem sock_one_socket:
  assumes "cli_reachable (cli_start (new_client e a)) s"
  shows "\<not> (CHECK_FD (g_cli_tcpfd (cs_cli s)) \<and> CHECK_FD (g_cli_udpfd (cs_cli s))) \<and>
    (cs_ui s = S_idle \<longrightarrow> (CHECK_FD (g_cli_tcpfd (cs_cli s)) \<longrightarrow> cl_type (cs_cli s) = TCP_LINK) \<and>
      (CHECK_FD (g_cli_udpfd (cs_cli s)) \<longrightarrow> cl_type (cs_cli s) = UDP_LINK)) \<and>
    (\<exists>s'. cli_reachable (cli_start (new_client e a)) s' \<and> cl_type (cs_cli s') = TCP_LINK \<and> CHECK_FD (g_cli_udpfd (cs_cli s')))"
proof -
  have "fds_ok (cs_ui s) (cs_cli s)"
    using cli_reachable_fds [OF assms] by (simp add: cli_start_def open_only_def new_client_def)
  then have "\<not> (CHECK_FD (g_cli_tcpfd (cs_cli s)) \<and> CHECK_FD (g_cli_udpfd (cs_cli s)))"
    "cs_ui s = S_idle \<longrightarrow> (CHECK_FD (g_cli_tcpfd (cs_cli s)) \<longrightarrow> cl_type (cs_cli s) = TCP_LINK) \<and>
      (CHECK_FD (g_cli_udpfd (cs_cli s)) \<longrightarrow> cl_type (cs_cli s) = UDP_LINK)"
    by (cases "cs_ui s"; auto simp: open_only_def other_type_def)+
  with switch_window [of e a] show ?thesis by blast
qed

text \<open>The client switches to UDP and begins to switch to TCP.\<close>

theorem sock_one_socket_witness:
  "\<exists>s. cli_reachable (cli_start (new_client 8 \<lparr>sk_port = 9, sk_ip = 1\<rparr>)) s \<and> cl_type (cs_cli s) = TCP_LINK \<and>
    CHECK_FD (g_cli_udpfd (cs_cli s)) \<and> \<not> CHECK_FD (g_cli_tcpfd (cs_cli s))"
proof -
  obtain s where s: "cli_reachable (cli_start (new_client 8 \<lparr>sk_port = 9, sk_ip = 1\<rparr>)) s" "cl_type (cs_cli s) = TCP_LINK"
    "CHECK_FD (g_cli_udpfd (cs_cli s))" using switch_window by blast
  with sock_one_socket [OF s(1)] show ?thesis by blast
qed

text \<open>
  C27. An answer that comes late confirms the wrong registration: if the answer to a UDP registration waits in
  the pool while the user switches to TCP, the worker sets the flag that switching has cleared, and
  the client takes itself for registered over TCP without having sent anything over the new connection.
\<close>

theorem sock_late_answer_confirms:
  assumes "cl_type c = UDP_LINK" "CHECK_FD (g_cli_udpfd c)" "\<not> CHECK_FD (g_cli_tcpfd c)" "CHECK_FD sock"
    "pool_waiting 3 (g_cli_thread_pool c) []" "task_alloc_fresh al (g_cli_thread_pool c)"
    "wf_package b" "pk_type b = SAVE_CLI_INFO_lc" "i < 3"
  shows "\<exists>c1 c2 c3. recv_msg_by_socket al (Some b) c = Some c1 \<and>
    c2 = open_type sock (c1\<lparr>cl_type := toggle_type (cl_type c1)\<rparr>) \<and> cl_type c2 = TCP_LINK \<and> g_cli_tcpfd c2 = sock \<and>
    init_cli_info c2 = False \<and> client_worker_turn i c2 = Some c3 \<and>
    init_client_info als others c3 = Some (True, c3) \<and> lc_out c3 = lc_out c \<and> pool_waiting 3 (g_cli_thread_pool c3) []"
proof -
  have rb: "recv_package b = b" "b \<noteq> []" using assms(7) by (simp_all add: recv_package_whole wf_package_nonempty)
  obtain pool where p: "post_received al b c = Some (c\<lparr>g_cli_thread_pool := pool\<rparr>)"
    "pool_waiting 3 pool [(H_complete_init_client_info, None)]"
    using post_received_ok [OF assms(5-7)] assms(8) by (auto simp: received_task_def)
  let ?c1 = "c\<lparr>g_cli_thread_pool := pool\<rparr>" let ?c2 = "open_type sock (?c1\<lparr>cl_type := toggle_type (cl_type ?c1)\<rparr>)"
  have r: "recv_msg_by_socket al (Some b) c = Some ?c1"
    using p(1) rb assms(1) by (simp add: recv_msg_by_socket_def recv_msg_by_udp_def)
  have c2: "cl_type ?c2 = TCP_LINK" "g_cli_tcpfd ?c2 = sock" "init_cli_info ?c2 = False" "g_cli_thread_pool ?c2 = pool" "lc_out ?c2 = lc_out c"
    using assms(1-4) by (simp_all add: toggle_type_def open_type_def try_destroy_client_udp_def init_client_tcp_def Let_def)
  obtain p2 where w: "client_worker_turn i ?c2 = Some ((complete_init_client_info ?c2)\<lparr>g_cli_thread_pool := p2\<rparr>)" "pool_waiting 3 p2 []"
    using client_worker_ok [of ?c2 "(H_complete_init_client_info, None)" "[]" i] p(2) c2(4) assms(9) by auto
  let ?c3 = "(complete_init_client_info ?c2)\<lparr>g_cli_thread_pool := p2\<rparr>"
  have "init_client_info als others ?c3 = Some (True, ?c3)"
    by (simp add: init_client_info_def complete_init_client_info_def numeral_2_eq_2)
  moreover have "lc_out ?c3 = lc_out c" using c2(5) by (simp add: complete_init_client_info_def)
  moreover have "pool_waiting 3 (g_cli_thread_pool ?c3) []" using w(2) by simp
  ultimately show ?thesis using r c2(1-3) w(1) by blast
qed

definition demo_udp_cli :: "32 word \<Rightarrow> lc_client" where
  "demo_udp_cli e = (new_client e \<lparr>sk_port = 36666, sk_ip = 16777343\<rparr>)\<lparr>cl_type := UDP_LINK, g_cli_udpfd := 5\<rparr>"

lemma demo_al_fresh: "task_alloc_fresh (demo_al n) None"
  by (simp add: task_alloc_fresh_def demo_al_def)

theorem sock_late_answer_confirms_witness:
  "\<exists>c1 c2 c3. recv_msg_by_socket (demo_al 0) (Some (set_pk_type SAVE_CLI_INFO_lc zero_package)) (demo_udp_cli 8) = Some c1 \<and>
    c2 = open_type 6 (c1\<lparr>cl_type := toggle_type (cl_type c1)\<rparr>) \<and> client_worker_turn 0 c2 = Some c3 \<and>
    init_client_info demo_al (\<lambda>i. Some) c3 = Some (True, c3) \<and> lc_out c3 = []"
proof -
  have c: "cl_type (demo_udp_cli 8) = UDP_LINK" "CHECK_FD (g_cli_udpfd (demo_udp_cli 8))" "\<not> CHECK_FD (g_cli_tcpfd (demo_udp_cli 8))"
    "CHECK_FD 6" "pool_waiting 3 (g_cli_thread_pool (demo_udp_cli 8)) []" "task_alloc_fresh (demo_al 0) (g_cli_thread_pool (demo_udp_cli 8))"
    "lc_out (demo_udp_cli 8) = []"
    by (simp_all add: demo_udp_cli_def new_client_def CHECK_FD_def pool_waiting_def demo_al_fresh)
  have b: "wf_package (set_pk_type SAVE_CLI_INFO_lc zero_package)" "pk_type (set_pk_type SAVE_CLI_INFO_lc zero_package) = SAVE_CLI_INFO_lc"
    by simp_all
  from sock_late_answer_confirms [OF c(1-6) b, of 0 demo_al "\<lambda>i. Some"] show ?thesis unfolding c(7) by auto
qed

text \<open>
  After the server has closed the connection, a TCP client keeps its type and sends what is typed next on
  descriptor 0, its standard input: closing sets the variable to 0, and sending does not look at it.
\<close>

theorem sock_lost_link_sends_on_stdin:
  assumes "cl_type c = TCP_LINK" "CHECK_FD (g_cli_tcpfd c)" "pool_waiting 3 (g_cli_thread_pool c) []"
    "task_alloc_fresh al (g_cli_thread_pool c)" "wf_package b" "i < 3"
  shows "\<exists>c1 c2 c3. recv_msg_by_socket al' (Some []) c = Some c1 \<and> init_cli_info c1 = False \<and> cl_type c1 = TCP_LINK \<and>
    send_msg_by_socket al b c1 = Some c2 \<and> client_worker_turn i c2 = Some c3 \<and> lc_out c3 = lc_out c @ [Out_tcp 0 b]"
proof -
  let ?c1 = "snd (try_destroy_client_tcp c)"
  have r: "recv_msg_by_socket al' (Some []) c = Some ?c1"
    using assms(1) by (simp add: recv_msg_by_socket_def recv_msg_by_tcp_def)
  have c1: "cl_type ?c1 = TCP_LINK" "g_cli_tcpfd ?c1 = 0" "init_cli_info ?c1 = False" "g_cli_thread_pool ?c1 = g_cli_thread_pool c"
    "lc_out ?c1 = lc_out c"
    using assms(1,2) by (simp_all add: try_destroy_client_tcp_def Let_def)
  obtain pool where p: "send_msg_by_socket al b ?c1 = Some (?c1\<lparr>g_cli_thread_pool := pool\<rparr>)" "pool_waiting 3 pool [(H_send_msg_by_tcp, Some b)]"
    using send_msg_by_socket_ok [of ?c1 "[]" al b] assms(3-5) c1(1,4) by (auto simp: sender_of_def)
  let ?c2 = "?c1\<lparr>g_cli_thread_pool := pool\<rparr>"
  obtain p2 where "client_worker_turn i ?c2 = Some ((send_msg_by_tcp_cli b ?c2)\<lparr>g_cli_thread_pool := p2\<rparr>)"
    using client_worker_ok [of ?c2 "(H_send_msg_by_tcp, Some b)" "[]" i] p(2) assms(6) by auto
  moreover have "lc_out ((send_msg_by_tcp_cli b ?c2)\<lparr>g_cli_thread_pool := p2\<rparr>) = lc_out c @ [Out_tcp 0 b]"
    using c1(2,5) by (simp add: send_msg_by_tcp_cli_def)
  ultimately show ?thesis using r c1(1,3) p(1) by blast
qed

theorem sock_lost_link_sends_on_stdin_witness:
  "\<exists>c1 c2 c3. recv_msg_by_socket (demo_al 0) (Some []) (demo_sock_cli 8) = Some c1 \<and>
    send_msg_by_socket (demo_al 1) zero_package c1 = Some c2 \<and> client_worker_turn 2 c2 = Some c3 \<and> lc_out c3 = [Out_tcp 0 zero_package]"
proof -
  have c: "cl_type (demo_sock_cli 8) = TCP_LINK" "CHECK_FD (g_cli_tcpfd (demo_sock_cli 8))"
    "pool_waiting 3 (g_cli_thread_pool (demo_sock_cli 8)) []" "task_alloc_fresh (demo_al 1) (g_cli_thread_pool (demo_sock_cli 8))"
    by (simp_all add: CHECK_FD_def pool_waiting_def demo_al_fresh)
  from sock_lost_link_sends_on_stdin [OF c zero_package_wf, of 2 "demo_al 0"] show ?thesis by auto
qed

end
