(* ===== verification/List_Traverse.thy ===== *)
theory List_Traverse
  imports List_Head
begin

text \<open>
  The traversal macros of \<open>socket/common/list.h\<close>: backwards, from a given entry on, and the \<open>safe\<close> ones, which read the
  next link before the body runs. A body goes on (\<open>Inl\<close>) or leaves the loop (\<open>Inr\<close>), as in \<open>list_for_each\<close>. Since a block
  is named by its \<open>list_head\<close>, the macros over entries walk the same addresses as those over heads.
\<close>

section \<open>Operations\<close>

text \<open>The loop from \<open>pos\<close> on, with the link that is followed as a parameter.\<close>

partial_function (option) walk ::
  "('a mem \<Rightarrow> addr \<Rightarrow> addr option) \<Rightarrow> (addr \<Rightarrow> 'a mem \<times> 's \<Rightarrow> (('a mem \<times> 's) + 'r) option) \<Rightarrow> addr \<Rightarrow> addr \<Rightarrow>
   'a mem \<times> 's \<Rightarrow> (('a mem \<times> 's) + 'r) option" where
  "walk link body head pos ms =
     (if pos = head then Some (Inl ms)
      else do {
        r \<leftarrow> body pos ms;
        case r of Inr v \<Rightarrow> Some (Inr v)
        | Inl ms' \<Rightarrow> do {
            n \<leftarrow> link (fst ms') pos;
            walk link body head n ms' } })"

text \<open>The safe loop: \<open>n\<close> holds the next entry while the body runs.\<close>

partial_function (option) walk_safe ::
  "('a mem \<Rightarrow> addr \<Rightarrow> addr option) \<Rightarrow> (addr \<Rightarrow> 'a mem \<times> 's \<Rightarrow> (('a mem \<times> 's) + 'r) option) \<Rightarrow> addr \<Rightarrow> addr \<Rightarrow> addr \<Rightarrow>
   'a mem \<times> 's \<Rightarrow> (('a mem \<times> 's) + 'r) option" where
  "walk_safe link body head pos n ms =
     (if pos = head then Some (Inl ms)
      else do {
        r \<leftarrow> body pos ms;
        case r of Inr v \<Rightarrow> Some (Inr v)
        | Inl ms' \<Rightarrow> do {
            n' \<leftarrow> link (fst ms') n;
            walk_safe link body head n n' ms' } })"

text \<open>\<open>__list_for_each\<close>\<close>

definition internal_list_for_each where
  "internal_list_for_each body head ms = do { pos \<leftarrow> rd_next (fst ms) head; walk rd_next body head pos ms }"

definition list_for_each_prev where
  "list_for_each_prev body head ms = do { pos \<leftarrow> rd_prev (fst ms) head; walk rd_prev body head pos ms }"

definition list_for_each_safe where
  "list_for_each_safe body head ms = do {
     pos \<leftarrow> rd_next (fst ms) head;
     n \<leftarrow> rd_next (fst ms) pos;
     walk_safe rd_next body head pos n ms }"

definition list_for_each_prev_safe where
  "list_for_each_prev_safe body head ms = do {
     pos \<leftarrow> rd_prev (fst ms) head;
     n \<leftarrow> rd_prev (fst ms) pos;
     walk_safe rd_prev body head pos n ms }"

definition list_for_each_entry where
  "list_for_each_entry body head ms = do { pos \<leftarrow> rd_next (fst ms) head; walk rd_next body head pos ms }"

definition list_for_each_entry_reverse where
  "list_for_each_entry_reverse body head ms = do { pos \<leftarrow> rd_prev (fst ms) head; walk rd_prev body head pos ms }"

definition list_prepare_entry :: "addr \<Rightarrow> addr \<Rightarrow> addr" where
  "list_prepare_entry pos head = (if pos \<noteq> NULL then pos else head)"

definition list_for_each_entry_continue where
  "list_for_each_entry_continue body pos head ms = do { pos \<leftarrow> rd_next (fst ms) pos; walk rd_next body head pos ms }"

definition list_for_each_entry_continue_reverse where
  "list_for_each_entry_continue_reverse body pos head ms = do { pos \<leftarrow> rd_prev (fst ms) pos; walk rd_prev body head pos ms }"

definition list_for_each_entry_from where
  "list_for_each_entry_from body pos head ms = walk rd_next body head pos ms"

definition list_for_each_entry_safe where
  "list_for_each_entry_safe body head ms = do {
     pos \<leftarrow> rd_next (fst ms) head;
     n \<leftarrow> rd_next (fst ms) pos;
     walk_safe rd_next body head pos n ms }"

definition list_for_each_entry_safe_continue where
  "list_for_each_entry_safe_continue body pos head ms = do {
     pos \<leftarrow> rd_next (fst ms) pos;
     n \<leftarrow> rd_next (fst ms) pos;
     walk_safe rd_next body head pos n ms }"

definition list_for_each_entry_safe_from where
  "list_for_each_entry_safe_from body pos head ms = do {
     n \<leftarrow> rd_next (fst ms) pos;
     walk_safe rd_next body head pos n ms }"

definition list_for_each_entry_safe_reverse where
  "list_for_each_entry_safe_reverse body head ms = do {
     pos \<leftarrow> rd_prev (fst ms) head;
     n \<leftarrow> rd_prev (fst ms) pos;
     walk_safe rd_prev body head pos n ms }"

text \<open>\<open>list_first_entry\<close>\<close>

definition list_first_entry :: "addr \<Rightarrow> 'a mem \<Rightarrow> addr option" where
  "list_first_entry head m = rd_next m head"

section \<open>Walking a part of a list\<close>

text \<open>Following \<open>link\<close> from the first of \<open>xs\<close> visits \<open>xs\<close> and then reaches the head \<open>h\<close>.\<close>

fun leads :: "('a mem \<Rightarrow> addr \<Rightarrow> addr option) \<Rightarrow> 'a mem \<Rightarrow> addr \<Rightarrow> addr list \<Rightarrow> bool" where
  "leads link m h [] = True"
| "leads link m h (x # xs) = (x \<noteq> h \<and> link m x = Some (hd (xs @ [h])) \<and> leads link m h xs)"

lemma leads_next: "dll m h (bs @ cs) \<Longrightarrow> leads rd_next m h cs"
proof (induction cs arbitrary: bs)
  case (Cons c cs)
  then show ?case using Cons.IH [of "bs @ [c]"] dll_entry_reads(2) [OF Cons.prems] by (auto simp: dll_def)
qed simp

lemma leads_prev: "dll m h (bs @ cs) \<Longrightarrow> leads rd_prev m h (rev bs)"
proof (induction bs arbitrary: cs rule: rev_induct)
  case (snoc b bs)
  have "dll m h (bs @ b # cs)" using snoc.prems by simp
  moreover have "last (h # bs) = hd (rev bs @ [h])" by (cases bs rule: rev_cases) simp_all
  ultimately show ?case using snoc.IH [of "b # cs"] dll_entry_reads(1) [of m h bs b cs] by (auto simp: dll_def)
qed simp

lemma head_reads:
  assumes "dll m h xs"
  shows "rd_next m h = Some (hd (xs @ [h]))" "rd_prev m h = Some (hd (rev xs @ [h]))"
proof -
  have "last (h # xs) = hd (rev xs @ [h])" by (cases xs rule: rev_cases) simp_all
  then show "rd_next m h = Some (hd (xs @ [h]))" "rd_prev m h = Some (hd (rev xs @ [h]))"
    using dll_next_head [OF assms] dll_prev_head [OF assms] dll_live(1) [OF assms] by (simp_all add: fault_simps)
qed

text \<open>
  What the two loops rely on, and what they compute. \<open>ahead ms xs\<close> is the state of a walk with \<open>xs\<close> still to come; it
  must survive a turn of the body. The plain loop reads the link of an entry after the body ran on it, the safe one
  before.
\<close>

locale traversal =
  fixes link :: "'a mem \<Rightarrow> addr \<Rightarrow> addr option"
    and body :: "addr \<Rightarrow> 'a mem \<times> 's \<Rightarrow> (('a mem \<times> 's) + 'r) option"
    and h :: addr
    and ahead :: "'a mem \<times> 's \<Rightarrow> addr list \<Rightarrow> bool"
  assumes ahead_leads: "ahead ms xs \<Longrightarrow> leads link (fst ms) h xs"
    and body_keeps: "ahead ms (x # xs) \<Longrightarrow> body x ms = Some (Inl ms') \<Longrightarrow> ahead ms' xs"
begin

lemma walk_each:
  assumes "ahead ms xs"
    and "\<And>x xs ms ms'. ahead ms (x # xs) \<Longrightarrow> body x ms = Some (Inl ms') \<Longrightarrow> link (fst ms') x = link (fst ms) x"
  shows "walk link body h (hd (xs @ [h])) ms = each body xs ms"
  using assms(1)
proof (induction xs arbitrary: ms)
  case Nil
  then show ?case by (simp add: walk.simps)
next
  case (Cons x xs)
  have l: "x \<noteq> h" "link (fst ms) x = Some (hd (xs @ [h]))" using ahead_leads [OF Cons.prems] by simp_all
  have "link (fst ms') x = Some (hd (xs @ [h])) \<and> walk link body h (hd (xs @ [h])) ms' = each body xs ms'"
    if "body x ms = Some (Inl ms')" for ms'
    using that l assms(2) [OF Cons.prems that] Cons.IH [OF body_keeps [OF Cons.prems that]] by simp
  then show ?case using l(1) by (subst walk.simps) (auto split: Option.bind_splits sum.splits)
qed

lemma walk_safe_each:
  assumes "ahead ms xs" "\<And>ms. ahead ms [] \<Longrightarrow> link (fst ms) h \<noteq> None" "xs \<noteq> [] \<longrightarrow> n = hd (tl xs @ [h])"
  shows "walk_safe link body h (hd (xs @ [h])) n ms = each body xs ms"
  using assms(1,3)
proof (induction xs arbitrary: ms n)
  case Nil
  then show ?case by (simp add: walk_safe.simps)
next
  case (Cons x xs)
  have x: "x \<noteq> h" "n = hd (xs @ [h])" using ahead_leads [OF Cons.prems(1)] Cons.prems(2) by simp_all
  have "\<exists>n'. link (fst ms') n = Some n' \<and> walk_safe link body h n n' ms' = each body xs ms'"
    if "body x ms = Some (Inl ms')" for ms'
  proof -
    have a: "ahead ms' xs" using body_keeps [OF Cons.prems(1) that] .
    show ?thesis
    proof (cases xs)
      case Nil
      then show ?thesis using a assms(2) [of ms'] x(2) by (auto simp: walk_safe.simps)
    next
      case (Cons y ys)
      then have "link (fst ms') y = Some (hd (ys @ [h]))" using ahead_leads [OF a] by simp
      then show ?thesis using Cons.IH [OF a, of "hd (ys @ [h])"] x(2) Cons by simp
    qed
  qed
  then show ?case using x by (subst walk_safe.simps) (fastforce split: Option.bind_splits sum.splits)
qed

end

section \<open>Bodies that only look\<close>

text \<open>A body that reads the memory and keeps what it found in a state of its own.\<close>

definition looking :: "('a mem \<Rightarrow> addr \<Rightarrow> 's \<Rightarrow> ('s + 'r) option) \<Rightarrow> addr \<Rightarrow> 'a mem \<times> 's \<Rightarrow> (('a mem \<times> 's) + 'r) option" where
  "looking f p ms = (case f (fst ms) p (snd ms) of
     None \<Rightarrow> None | Some (Inl s') \<Rightarrow> Some (Inl (fst ms, s')) | Some (Inr v) \<Rightarrow> Some (Inr v))"

lemma looking_keeps: "looking f p ms = Some (Inl ms') \<Longrightarrow> fst ms' = fst ms"
  by (auto simp: looking_def split: option.splits sum.splits)

interpretation look_next: traversal rd_next "looking f" h "\<lambda>ms xs. leads rd_next (fst ms) h xs \<and> h \<in> dom (rd_next (fst ms))" for f h
  by unfold_locales (auto dest: looking_keeps)

interpretation look_prev: traversal rd_prev "looking f" h "\<lambda>ms xs. leads rd_prev (fst ms) h xs \<and> h \<in> dom (rd_prev (fst ms))" for f h
  by unfold_locales (auto dest: looking_keeps)

text \<open>The second link that the safe loops read before they start.\<close>

lemma second_reads:
  assumes "dll m h (bs @ cs)"
  shows "\<exists>n. rd_next m (hd (cs @ [h])) = Some n \<and> (cs \<noteq> [] \<longrightarrow> n = hd (tl cs @ [h]))"
    "\<exists>n. rd_prev m (hd (rev bs @ [h])) = Some n \<and> (bs \<noteq> [] \<longrightarrow> n = hd (tl (rev bs) @ [h]))"
proof -
  show "\<exists>n. rd_next m (hd (cs @ [h])) = Some n \<and> (cs \<noteq> [] \<longrightarrow> n = hd (tl cs @ [h]))"
    using leads_next [OF assms] head_reads(1) [OF assms] by (cases cs) auto
  show "\<exists>n. rd_prev m (hd (rev bs @ [h])) = Some n \<and> (bs \<noteq> [] \<longrightarrow> n = hd (tl (rev bs) @ [h]))"
    using leads_prev [OF assms] head_reads(2) [OF assms] by (cases "rev bs") auto
qed

lemma look_walks:
  assumes "dll m h (bs @ cs)"
  shows "walk rd_next (looking f) h (hd (cs @ [h])) (m, s) = each (looking f) cs (m, s)"
    "walk rd_prev (looking f) h (hd (rev bs @ [h])) (m, s) = each (looking f) (rev bs) (m, s)"
    "do { n \<leftarrow> rd_next m (hd (cs @ [h])); walk_safe rd_next (looking f) h (hd (cs @ [h])) n (m, s) } = each (looking f) cs (m, s)"
    "do { n \<leftarrow> rd_prev m (hd (rev bs @ [h])); walk_safe rd_prev (looking f) h (hd (rev bs @ [h])) n (m, s) } =
      each (looking f) (rev bs) (m, s)"
proof -
  have l: "leads rd_next m h cs \<and> h \<in> dom (rd_next m)" "leads rd_prev m h (rev bs) \<and> h \<in> dom (rd_prev m)"
    using leads_next [OF assms] leads_prev [OF assms] head_reads [OF assms] by auto
  show "walk rd_next (looking f) h (hd (cs @ [h])) (m, s) = each (looking f) cs (m, s)"
    using l(1) by (intro look_next.walk_each) (auto dest: looking_keeps)
  show "walk rd_prev (looking f) h (hd (rev bs @ [h])) (m, s) = each (looking f) (rev bs) (m, s)"
    using l(2) by (intro look_prev.walk_each) (auto dest: looking_keeps)
  show "do { n \<leftarrow> rd_next m (hd (cs @ [h])); walk_safe rd_next (looking f) h (hd (cs @ [h])) n (m, s) } = each (looking f) cs (m, s)"
    using second_reads(1) [OF assms] look_next.walk_safe_each [of "(m, s)" h cs] l(1) by fastforce
  show "do { n \<leftarrow> rd_prev m (hd (rev bs @ [h])); walk_safe rd_prev (looking f) h (hd (rev bs @ [h])) n (m, s) } =
      each (looking f) (rev bs) (m, s)"
    using second_reads(2) [OF assms] look_prev.walk_safe_each [of "(m, s)" h "rev bs"] l(2) by fastforce
qed

text \<open>
  Which entries each macro visits, and in which order, on a list with an entry \<open>e\<close>: the whole list forwards or
  backwards, or the part after \<open>e\<close>, before \<open>e\<close>, or from \<open>e\<close> on; a cursor of \<open>NULL\<close> stands for the head.
\<close>

lemma whole_traversals:
  assumes "dll m h xs"
  shows "internal_list_for_each (looking f) h (m, s) = each (looking f) xs (m, s)"
    "list_for_each_entry (looking f) h (m, s) = each (looking f) xs (m, s)"
    "list_for_each_safe (looking f) h (m, s) = each (looking f) xs (m, s)"
    "list_for_each_entry_safe (looking f) h (m, s) = each (looking f) xs (m, s)"
    "list_for_each_prev (looking f) h (m, s) = each (looking f) (rev xs) (m, s)"
    "list_for_each_entry_reverse (looking f) h (m, s) = each (looking f) (rev xs) (m, s)"
    "list_for_each_prev_safe (looking f) h (m, s) = each (looking f) (rev xs) (m, s)"
    "list_for_each_entry_safe_reverse (looking f) h (m, s) = each (looking f) (rev xs) (m, s)"
    "list_for_each_entry_continue (looking f) (list_prepare_entry NULL h) h (m, s) = each (looking f) xs (m, s)"
  using assms look_walks [of m h "[]" xs] look_walks [of m h xs "[]"] head_reads [OF assms]
  by (simp_all add: internal_list_for_each_def list_for_each_entry_def list_for_each_safe_def list_for_each_entry_safe_def
      list_for_each_prev_def list_for_each_entry_reverse_def list_for_each_prev_safe_def list_for_each_entry_safe_reverse_def
      list_for_each_entry_continue_def list_prepare_entry_def)

lemma partial_traversals:
  assumes "dll m h (bs @ e # cs)"
  shows "list_for_each_entry_continue (looking f) e h (m, s) = each (looking f) cs (m, s)"
    "list_for_each_entry_safe_continue (looking f) e h (m, s) = each (looking f) cs (m, s)"
    "list_for_each_entry_continue_reverse (looking f) e h (m, s) = each (looking f) (rev bs) (m, s)"
    "list_for_each_entry_from (looking f) e h (m, s) = each (looking f) (e # cs) (m, s)"
    "list_for_each_entry_safe_from (looking f) e h (m, s) = each (looking f) (e # cs) (m, s)"
proof -
  have d: "dll m h ((bs @ [e]) @ cs)" using assms by simp
  have r: "rd_next m e = Some (hd (cs @ [h]))" "rd_prev m e = Some (hd (rev bs @ [h]))"
    using leads_next [OF assms] leads_prev [OF d] by simp_all
  show "list_for_each_entry_continue (looking f) e h (m, s) = each (looking f) cs (m, s)"
    "list_for_each_entry_continue_reverse (looking f) e h (m, s) = each (looking f) (rev bs) (m, s)"
    using r look_walks(1) [OF d] look_walks(2) [OF assms]
    by (simp_all add: list_for_each_entry_continue_def list_for_each_entry_continue_reverse_def)
  show "list_for_each_entry_safe_continue (looking f) e h (m, s) = each (looking f) cs (m, s)"
    using r look_walks(3) [OF d] by (simp add: list_for_each_entry_safe_continue_def)
  show "list_for_each_entry_from (looking f) e h (m, s) = each (looking f) (e # cs) (m, s)"
    "list_for_each_entry_safe_from (looking f) e h (m, s) = each (looking f) (e # cs) (m, s)"
    using r look_walks(1,3) [OF assms] by (simp_all add: list_for_each_entry_from_def list_for_each_entry_safe_from_def)
qed

section \<open>Bodies that delete the entry they are at\<close>

text \<open>Entries whose payload satisfies \<open>P\<close> are unlinked and freed, and their addresses noted.\<close>

definition drop_if :: "('a option \<Rightarrow> bool) \<Rightarrow> addr \<Rightarrow> 'a mem \<times> addr list \<Rightarrow> (('a mem \<times> addr list) + unit) option" where
  "drop_if P p ms =
     (if P (dataf (fst ms) p) then do {
        m \<leftarrow> list_del p (fst ms);
        m \<leftarrow> mem_free p m;
        Some (Inl (m, snd ms @ [p])) }
      else Some (Inl ms))"

lemma del_free:
  assumes "dll m h (bs @ x # cs)" "NULL \<notin> live m"
  shows "\<exists>m1 m2. list_del x m = Some m1 \<and> mem_free x m1 = Some m2 \<and> dll m2 h (bs @ cs) \<and> live m2 = live m - {x} \<and>
    (\<forall>p. p \<noteq> x \<longrightarrow> dataf m2 p = dataf m p)"
proof -
  obtain m1 where 1: "list_del x m = Some m1" "dll m1 h (bs @ cs)" "links_outside (set (h # bs @ x # cs)) m m1"
    using list_del_ok [OF assms(1)] by blast
  have x: "x \<in> live m1" "x \<noteq> NULL" "x \<notin> set (h # bs @ cs)"
    using 1(3) dll_del_notin [OF assms(1)] assms(2) by (auto simp: links_outside_def)
  obtain m2 where 2: "mem_free x m1 = Some m2" "live m2 = live m1 - {x}" "same_outside {x} m1 m2"
    using mem_free_ok [OF x(1,2)] by blast
  have "dll m2 h (bs @ cs)" using dll_same_outside(1) [OF 1(2) 2(3)] x(3) by simp
  then show ?thesis using 1 2 by (simp add: links_outside_def same_outside_def)
qed

lemma drop_if_step:
  assumes "dll (fst ms) h (bs @ x # cs)" "NULL \<notin> live (fst ms)"
  shows "\<exists>m'. drop_if P x ms = Some (Inl (m', snd ms @ (if P (dataf (fst ms) x) then [x] else []))) \<and>
    dll m' h (bs @ (if P (dataf (fst ms) x) then [] else [x]) @ cs) \<and>
    live m' = live (fst ms) - (if P (dataf (fst ms) x) then {x} else {}) \<and> (\<forall>p. p \<noteq> x \<longrightarrow> dataf m' p = dataf (fst ms) p)"
proof (cases "P (dataf (fst ms) x)")
  case True
  with del_free [OF assms] show ?thesis by (auto simp: drop_if_def)
next
  case False
  then show ?thesis using assms(1) by (cases ms) (simp add: drop_if_def)
qed

lemma drop_if_keeps:
  assumes "dll (fst ms) h (bs @ x # cs)" "NULL \<notin> live (fst ms)" "drop_if P x ms = Some (Inl ms')"
  shows "\<exists>mid. dll (fst ms') h (bs @ mid @ cs)" "NULL \<notin> live (fst ms')"
  using drop_if_step [OF assms(1,2), of P] assms(2,3) by auto

interpretation drop_next: traversal rd_next "drop_if P" h
  "\<lambda>ms xs. NULL \<notin> live (fst ms) \<and> (\<exists>bs. dll (fst ms) h (bs @ xs))" for P h
proof
  show "leads rd_next (fst ms) h xs" if "NULL \<notin> live (fst ms) \<and> (\<exists>bs. dll (fst ms) h (bs @ xs))" for ms :: "'a mem \<times> addr list" and xs
    using that leads_next by blast
  show "NULL \<notin> live (fst ms') \<and> (\<exists>bs. dll (fst ms') h (bs @ xs))"
    if "NULL \<notin> live (fst ms) \<and> (\<exists>bs. dll (fst ms) h (bs @ x # xs))" "drop_if P x ms = Some (Inl ms')"
    for ms ms' :: "'a mem \<times> addr list" and x xs
    using that drop_if_keeps [of ms h _ x xs P ms'] append_assoc by metis
qed

interpretation drop_prev: traversal rd_prev "drop_if P" h
  "\<lambda>ms xs. NULL \<notin> live (fst ms) \<and> (\<exists>cs. dll (fst ms) h (rev xs @ cs))" for P h
proof
  show "leads rd_prev (fst ms) h xs" if "NULL \<notin> live (fst ms) \<and> (\<exists>cs. dll (fst ms) h (rev xs @ cs))" for ms :: "'a mem \<times> addr list" and xs
    using that leads_prev [of "fst ms" h "rev xs"] by auto
  show "NULL \<notin> live (fst ms') \<and> (\<exists>cs. dll (fst ms') h (rev xs @ cs))"
    if "NULL \<notin> live (fst ms) \<and> (\<exists>cs. dll (fst ms) h (rev (x # xs) @ cs))" "drop_if P x ms = Some (Inl ms')"
    for ms ms' :: "'a mem \<times> addr list" and x xs
    using that drop_if_keeps [of ms h "rev xs" x _ P ms'] by auto
qed

text \<open>What the body does to a list, on any of its entries in any order.\<close>

lemma drop_each:
  assumes "dll m h zs" "NULL \<notin> live m" "distinct ys" "set ys \<subseteq> set zs"
  shows "\<exists>m'. each (drop_if P) ys (m, fr) = Some (Inl (m', fr @ filter (\<lambda>x. P (dataf m x)) ys)) \<and>
    dll m' h (filter (\<lambda>x. \<not> (x \<in> set ys \<and> P (dataf m x))) zs) \<and> live m' = live m - {x \<in> set ys. P (dataf m x)}"
  using assms
proof (induction ys arbitrary: m zs fr)
  case (Cons y ys)
  obtain us vs where zs: "zs = us @ y # vs" using Cons.prems(4) by (metis list.set_intros(1) split_list subset_iff)
  let ?zs = "us @ (if P (dataf m y) then [] else [y]) @ vs" and ?fr = "fr @ (if P (dataf m y) then [y] else [])"
  obtain m1 where 1: "drop_if P y (m, fr) = Some (Inl (m1, ?fr))" "dll m1 h ?zs"
    "live m1 = live m - (if P (dataf m y) then {y} else {})" "\<forall>p. p \<noteq> y \<longrightarrow> dataf m1 p = dataf m p"
    using drop_if_step [of "(m, fr)" h us y vs P] Cons.prems(1,2) zs by auto
  have y: "y \<notin> set us" "y \<notin> set vs" "y \<notin> set ys" using dll_del_notin [of m h us y vs] Cons.prems(1,3) zs by auto
  have d: "dataf m1 x = dataf m x" if "x \<in> set ys" for x using that y(3) 1(4) by metis
  have "set ys \<subseteq> set ?zs" using Cons.prems(4) y(3) zs by auto
  from Cons.IH [OF 1(2) _ _ this, of ?fr] obtain m2 where 2:
    "each (drop_if P) ys (m1, ?fr) = Some (Inl (m2, ?fr @ filter (\<lambda>x. P (dataf m1 x)) ys))"
    "dll m2 h (filter (\<lambda>x. \<not> (x \<in> set ys \<and> P (dataf m1 x))) ?zs)" "live m2 = live m1 - {x \<in> set ys. P (dataf m1 x)}"
    using 1(3) Cons.prems(2,3) by auto
  have "filter (\<lambda>x. P (dataf m1 x)) ys = filter (\<lambda>x. P (dataf m x)) ys" using d by (intro filter_cong) auto
  moreover have "filter (\<lambda>x. \<not> (x \<in> set ys \<and> P (dataf m1 x))) ?zs = filter (\<lambda>x. \<not> (x \<in> set (y # ys) \<and> P (dataf m x))) zs"
  proof -
    have "filter (\<lambda>x. \<not> (x \<in> set ys \<and> P (dataf m1 x))) qs = filter (\<lambda>x. \<not> (x \<in> set (y # ys) \<and> P (dataf m x))) qs"
      if "y \<notin> set qs" for qs
      using d that by (intro filter_cong) auto
    then show ?thesis using y zs by simp
  qed
  moreover have "{x \<in> set ys. P (dataf m1 x)} = {x \<in> set ys. P (dataf m x)}" using d by auto
  ultimately show ?case using 1(1,3) 2 by auto
qed simp

lemma plain_drop:
  assumes "dll m h (bs @ xs)" "NULL \<notin> live m"
  shows "list_for_each_from (drop_if P) h (hd (xs @ [h])) (m, fr) =
    (if \<exists>x \<in> set xs. P (dataf m x) then None else Some (Inl (m, fr)))"
  using assms
proof (induction xs arbitrary: bs)
  case Nil
  then show ?case by (simp add: list_for_each_from.simps)
next
  case (Cons x xs)
  have x: "x \<noteq> h" "rd_next m x = Some (hd (xs @ [h]))" using leads_next [OF Cons.prems(1)] by simp_all
  show ?case
  proof (cases "P (dataf m x)")
    case True
    obtain m' where "drop_if P x (m, fr) = Some (Inl (m', fr @ [x]))" "live m' = live m - {x}"
      using drop_if_step [of "(m, fr)" h bs x xs P] Cons.prems True by auto
    then show ?thesis using x True by (subst list_for_each_from.simps) (simp add: rd_next_def)
  next
    case False
    then have "drop_if P x (m, fr) = Some (Inl (m, fr))" by (simp add: drop_if_def)
    then show ?thesis using x False Cons.IH [of "bs @ [x]"] Cons.prems by (subst list_for_each_from.simps) simp
  qed
qed

text \<open>
  C35. Deleting while walking. The safe loops, forwards and backwards, may unlink and free the entry they are at: they
  visit every entry, the entries with a payload in \<open>P\<close> are freed in the order of the walk and nothing else is, and
  the others stay in the list in their order. The plain loop must not: as soon as an entry is freed
  it follows a link of a freed block.
\<close>

theorem safe_loops_delete:
  assumes "dll m h xs" "NULL \<notin> live m"
  shows "(\<exists>m'. list_for_each_safe (drop_if P) h (m, []) = Some (Inl (m', filter (\<lambda>x. P (dataf m x)) xs)) \<and>
      dll m' h (filter (\<lambda>x. \<not> P (dataf m x)) xs) \<and> live m' = live m - {x \<in> set xs. P (dataf m x)}) \<and>
    (\<exists>m'. list_for_each_prev_safe (drop_if P) h (m, []) = Some (Inl (m', rev (filter (\<lambda>x. P (dataf m x)) xs))) \<and>
      dll m' h (filter (\<lambda>x. \<not> P (dataf m x)) xs) \<and> live m' = live m - {x \<in> set xs. P (dataf m x)}) \<and>
    (list_for_each (drop_if P) h (m, []) \<noteq> None \<longleftrightarrow> (\<forall>x \<in> set xs. \<not> P (dataf m x)))"
proof -
  have d: "distinct xs" "dll m h ([] @ xs)" using assms(1) by (auto simp: dll_def)
  let ?keep = "filter (\<lambda>x. \<not> P (dataf m x)) xs"
  have k: "filter (\<lambda>x. x \<in> set xs \<longrightarrow> \<not> P (dataf m x)) xs = ?keep" by (intro filter_cong) auto
  have e: "rd_next (fst ms) h \<noteq> None" "rd_prev (fst ms) h \<noteq> None" if "dll (fst ms) h zs" for ms :: "'a mem \<times> addr list" and zs
    using head_reads [OF that] by simp_all
  obtain n where n: "rd_next m (hd (xs @ [h])) = Some n" "xs \<noteq> [] \<longrightarrow> n = hd (tl xs @ [h])"
    using second_reads(1) [OF d(2)] by blast
  have "walk_safe rd_next (drop_if P) h (hd (xs @ [h])) n (m, []) = each (drop_if P) xs (m, [])"
  proof (rule drop_next.walk_safe_each)
    show "NULL \<notin> live (fst (m, [])) \<and> (\<exists>bs. dll (fst (m, [])) h (bs @ xs))" using d(2) assms(2) by (metis fst_conv)
  qed (use e n(2) in blast)+
  then have "list_for_each_safe (drop_if P) h (m, []) = each (drop_if P) xs (m, [])"
    using n(1) head_reads(1) [OF assms(1)] by (simp add: list_for_each_safe_def)
  moreover obtain p where p: "rd_prev m (hd (rev xs @ [h])) = Some p" "rev xs \<noteq> [] \<longrightarrow> p = hd (tl (rev xs) @ [h])"
    using second_reads(2) [of m h xs "[]"] assms(1) by auto
  have "walk_safe rd_prev (drop_if P) h (hd (rev xs @ [h])) p (m, []) = each (drop_if P) (rev xs) (m, [])"
  proof (rule drop_prev.walk_safe_each)
    show "NULL \<notin> live (fst (m, [])) \<and> (\<exists>cs. dll (fst (m, [])) h (rev (rev xs) @ cs))"
      using assms by (metis append_Nil2 fst_conv rev_rev_ident)
  qed (use e p(2) in blast)+
  then have "list_for_each_prev_safe (drop_if P) h (m, []) = each (drop_if P) (rev xs) (m, [])"
    using p(1) head_reads(2) [OF assms(1)] by (simp add: list_for_each_prev_safe_def)
  moreover have "list_for_each (drop_if P) h (m, []) \<noteq> None \<longleftrightarrow> (\<forall>x \<in> set xs. \<not> P (dataf m x))"
    using plain_drop [OF d(2) assms(2)] head_reads(1) [OF assms(1)] by (simp add: list_for_each_def)
  ultimately show ?thesis
    using drop_each [OF assms d(1) subset_refl, of P "[]"] drop_each [OF assms, of "rev xs" P "[]"] d(1)
    by (simp add: k rev_filter)
qed

text \<open>Of the entries 2 and 3 with the payloads 5 and 7, the one with 7 is dropped.\<close>

theorem safe_loops_delete_witness:
  "\<exists>m'. list_for_each_safe (drop_if (\<lambda>d. d = Some 7)) 1 (two_lists, []) = Some (Inl (m', [3])) \<and> dll m' 1 [2] \<and>
     live m' = {1, 2, 10, 11, 20} \<and> list_for_each (drop_if (\<lambda>d. d = Some 7)) 1 (two_lists, []) = None"
proof -
  have "dataf two_lists 2 = Some 5" "dataf two_lists 3 = Some 7" "live two_lists = {1, 2, 3, 10, 11, 20}"
    by (simp_all add: two_lists_def)
  then show ?thesis using safe_loops_delete [OF two_lists_facts(1), of "\<lambda>d. d = Some 7"] by auto
qed

end
