(* ===== verification/Log_Files.thy ===== *)
theory Log_Files
  imports C_Decimal
begin

text \<open>
  The two logging libraries: \<open>lib_dbgout\<close>, which the queue library, \<open>socket_udp\<close> and \<open>socket_tcp\<close> use, and
  \<open>socket/libsrcs/logout\<close>, with the log files of the programs. Files are texts under their paths; a stream has a
  position, which for a stream opened with \<open>a+\<close> only counts until the first output. The time stamp and what
  the library calls return are arguments. Every output is flushed, so it reaches the file at once.
\<close>

section \<open>Streams\<close>

record c_stream =
  st_path :: string
  st_pos :: nat
  st_append :: bool

record filesys =
  files :: "string \<rightharpoonup> string"
  streams :: "addr \<rightharpoonup> c_stream"

definition content :: "filesys \<Rightarrow> string \<Rightarrow> string" where
  "content fs p = (case files fs p of None \<Rightarrow> [] | Some c \<Rightarrow> c)"

text \<open>
  \<open>fopen(path, "a+")\<close>: the result is the new stream with the position it starts at, which the C standard leaves
  open, or \<open>None\<close> for \<open>NULL\<close>.
\<close>

definition fopen_append :: "string \<Rightarrow> (addr \<times> nat) option \<Rightarrow> filesys \<Rightarrow> addr \<times> filesys" where
  "fopen_append path res fs =
     (case res of
        None \<Rightarrow> (NULL, fs)
      | Some (p, pos) \<Rightarrow>
          (p, fs\<lparr>files := (files fs)(path \<mapsto> content fs path),
            streams := (streams fs)(p \<mapsto> \<lparr>st_path = path, st_pos = pos, st_append = True\<rparr>)\<rparr>))"

text \<open>\<open>freopen(path, "w+", fp)\<close>: the old file is closed in any case; \<open>ok\<close> says whether the new one could be opened.\<close>

definition freopen_trunc :: "string \<Rightarrow> bool \<Rightarrow> addr \<Rightarrow> filesys \<Rightarrow> filesys option" where
  "freopen_trunc path ok p fs =
     (if p \<notin> dom (streams fs) then None
      else if ok then
        Some (fs\<lparr>files := (files fs)(path \<mapsto> []),
          streams := (streams fs)(p \<mapsto> \<lparr>st_path = path, st_pos = 0, st_append = False\<rparr>)\<rparr>)
      else Some (fs\<lparr>streams := (streams fs)(p := None)\<rparr>))"

definition fclose :: "addr \<Rightarrow> filesys \<Rightarrow> filesys option" where
  "fclose p fs = (if p \<in> dom (streams fs) then Some (fs\<lparr>streams := (streams fs)(p := None)\<rparr>) else None)"

text \<open>Writing at a position: a gap behind the end of the file reads as zeros.\<close>

definition write_at :: "nat \<Rightarrow> string \<Rightarrow> string \<Rightarrow> string" where
  "write_at pos txt c = take pos c @ replicate (pos - length c) (CHR 0x00) @ txt @ drop (pos + length txt) c"

text \<open>\<open>fprintf\<close> and \<open>fflush\<close>; \<open>ok\<close> says whether the output succeeded.\<close>

definition fwrite_text :: "bool \<Rightarrow> addr \<Rightarrow> string \<Rightarrow> filesys \<Rightarrow> filesys option" where
  "fwrite_text ok p txt fs =
     (case streams fs p of
        None \<Rightarrow> None
      | Some st \<Rightarrow>
          if \<not> ok then Some fs
          else let c = content fs (st_path st);
                 pos = (if st_append st then length c else st_pos st)
               in Some (fs\<lparr>files := (files fs)(st_path st \<mapsto> write_at pos txt c),
                    streams := (streams fs)(p \<mapsto> st\<lparr>st_pos := pos + length txt\<rparr>)\<rparr>))"

text \<open>What the library calls made for one line of the log return.\<close>

record log_env =
  ev_fopen :: "(addr \<times> nat) option"
  ev_freopen :: bool
  ev_written :: bool
  ev_time :: string

section \<open>The library \<open>lib_dbgout\<close>\<close>

datatype LogType = ALWAYS_OPEN | OPEN_EVERY_TIME_WRITE

record LogOp =
  logType :: LogType
  logFp :: addr
  filePath :: string

text \<open>The static flag of the library, the files, and what \<open>perror\<close> put out.\<close>

record dbg =
  initLogFile :: bool
  dbg_fs :: filesys
  dbg_stderr :: "string list"

definition InitLogFile :: "dbg \<Rightarrow> dbg" where
  "InitLogFile s = s\<lparr>initLogFile := True\<rparr>"

definition LogFileFopen :: "log_env \<Rightarrow> LogOp \<Rightarrow> dbg \<Rightarrow> (LogOp \<times> dbg) option" where
  "LogFileFopen e lg s = do {
     let (p, fs) = (if logFp lg = NULL then fopen_append (filePath lg) (ev_fopen e) (dbg_fs s) else (logFp lg, dbg_fs s));
     if initLogFile s then do {
       fs \<leftarrow> freopen_trunc (filePath lg) (ev_freopen e) p fs;
       Some (lg\<lparr>logFp := p\<rparr>, s\<lparr>initLogFile := False, dbg_fs := fs\<rparr>) }
     else Some (lg\<lparr>logFp := p\<rparr>, s\<lparr>dbg_fs := fs\<rparr>) }"

definition LogFileFclose :: "LogOp \<Rightarrow> dbg \<Rightarrow> (LogOp \<times> dbg) option" where
  "LogFileFclose lg s =
     (if logFp lg \<noteq> NULL then do {
        fs \<leftarrow> fclose (logFp lg) (dbg_fs s);
        Some (lg\<lparr>logFp := NULL\<rparr>, s\<lparr>dbg_fs := fs\<rparr>) }
      else Some (lg, s))"

definition FPRINTF :: "bool \<Rightarrow> addr \<Rightarrow> string \<Rightarrow> dbg \<Rightarrow> dbg option" where
  "FPRINTF ok p txt s = do {
     fs \<leftarrow> fwrite_text ok p txt (dbg_fs s);
     Some (s\<lparr>dbg_fs := fs, dbg_stderr := dbg_stderr s @ (if ok then [] else [''fprintf error!''])\<rparr>) }"

text \<open>
  \<open>_dbgout\<close>; \<open>txt\<close> is the formatted text, which \<open>vsprintf\<close> writes with its end into \<open>char str[1024]\<close>.
\<close>

definition log_line :: "log_env \<Rightarrow> string \<Rightarrow> string" where
  "log_line e txt = ev_time e @ ''-'' @ txt @ [CHR 0x0A]"

definition internal_dbgout :: "log_env \<Rightarrow> LogOp \<Rightarrow> string \<Rightarrow> dbg \<Rightarrow> (LogOp \<times> dbg) option" where
  "internal_dbgout e lg txt s =
     (if length txt \<ge> 1024 then None
      else case logType lg of
        ALWAYS_OPEN \<Rightarrow> do {
          (lg, s) \<leftarrow> LogFileFopen e lg s;
          s \<leftarrow> FPRINTF (ev_written e) (logFp lg) (log_line e txt) s;
          Some (lg, s) }
      | OPEN_EVERY_TIME_WRITE \<Rightarrow> do {
          (lg, s) \<leftarrow> LogFileFopen e lg s;
          s \<leftarrow> FPRINTF (ev_written e) (logFp lg) (log_line e txt) s;
          LogFileFclose lg s })"

text \<open>The text behind the last slash.\<close>

definition NodirStr :: "string \<Rightarrow> string" where
  "NodirStr str = (if CHR ''/'' \<in> set str then rev (takeWhile (\<lambda>c. c \<noteq> CHR ''/'') (rev str)) else str)"

text \<open>The macro \<open>Dbgout\<close>.\<close>

definition Dbgout :: "log_env \<Rightarrow> LogOp \<Rightarrow> string \<Rightarrow> nat \<Rightarrow> string \<Rightarrow> string \<Rightarrow> dbg \<Rightarrow> (LogOp \<times> dbg) option" where
  "Dbgout e lg file line func txt s =
     internal_dbgout e lg (''[file:'' @ NodirStr file @ '', line:'' @ dec_nat line @ '', func:'' @ func @ '']->'' @ txt) s"

text \<open>A sequence of log calls.\<close>

fun dbgout_run :: "LogOp \<Rightarrow> (log_env \<times> string) list \<Rightarrow> dbg \<Rightarrow> (LogOp \<times> dbg) option" where
  "dbgout_run lg [] s = Some (lg, s)"
| "dbgout_run lg ((e, txt) # calls) s = do {
     (lg, s) \<leftarrow> internal_dbgout e lg txt s;
     dbgout_run lg calls s }"

section \<open>The log files of the programs\<close>

text \<open>The queue library, the TCP client and the TCP server have fixed paths.\<close>

definition GetLogOp :: LogOp where
  "GetLogOp = \<lparr>logType = ALWAYS_OPEN, logFp = NULL, filePath = ''/data/zkdata/local/zklog/queue.log''\<rparr>"

definition GetTcpClientLogFileInfo :: "LogOp \<Rightarrow> LogOp" where
  "GetTcpClientLogFileInfo lg =
     (if logFp lg = NULL then lg\<lparr>filePath := ''/data/zkdata/local/zklog/TcpClient.log''\<rparr> else lg)"

definition GetTcpServerLogFileInfo :: LogOp where
  "GetTcpServerLogFileInfo = \<lparr>logType = ALWAYS_OPEN, logFp = NULL, filePath = ''/data/zkdata/local/zklog/TcpServer.log''\<rparr>"

text \<open>
  The UDP client and server log in their working directory; \<open>dir\<close> is \<open>None\<close> when \<open>get_current_dir_name\<close> returns \<open>NULL\<close>. The path is
  printed into \<open>char filePath[128]\<close>.
\<close>

definition udp_log_path :: "string option \<Rightarrow> LogOp \<Rightarrow> LogOp option" where
  "udp_log_path dir lg =
     (if logFp lg = NULL then
        (case dir of
           None \<Rightarrow> None
         | Some d \<Rightarrow> let p = d @ ''/logudpsrv.log'' in if length p < 128 then Some (lg\<lparr>filePath := p\<rparr>) else None)
      else Some lg)"

definition GetClientLogFile :: "string option \<Rightarrow> LogOp \<Rightarrow> LogOp option" where
  "GetClientLogFile dir lg = udp_log_path dir lg"

definition GetServerLogFile :: "string option \<Rightarrow> LogOp \<Rightarrow> LogOp option" where
  "GetServerLogFile dir lg = udp_log_path dir lg"

section \<open>The library \<open>logout\<close>\<close>

datatype log_file_status_t = ALWAYS_OPEN_lc | EVERY_TIME_OPEN

record log_file_t =
  lf_status :: log_file_status_t
  lf_path :: string

text \<open>The static variables of the library, with the one stream it keeps; the files and the terminal.\<close>

record logger =
  g_clear_log_file :: bool
  g_max_log_size :: int
  lo_fp :: addr
  lo_fs :: filesys
  lo_stdout :: "string list"

definition init_log_file_clear :: "bool \<Rightarrow> int \<Rightarrow> logger \<Rightarrow> logger" where
  "init_log_file_clear init_clear_file max_log_size s =
     s\<lparr>g_clear_log_file := init_clear_file, g_max_log_size := max_log_size\<rparr>"

definition ftell :: "addr \<Rightarrow> filesys \<Rightarrow> nat option" where
  "ftell p fs = map_option st_pos (streams fs p)"

text \<open>The condition to start the file again; \<open>ftell\<close> is called only when the size counts.\<close>

definition must_clear :: "addr \<Rightarrow> filesys \<Rightarrow> logger \<Rightarrow> bool option" where
  "must_clear p fs s =
     (if g_clear_log_file s then Some True
      else if g_max_log_size s > 0 then do { n \<leftarrow> ftell p fs; Some (int n \<ge> g_max_log_size s) }
      else Some False)"

definition internal_logout :: "log_env \<Rightarrow> log_file_t \<Rightarrow> string \<Rightarrow> logger \<Rightarrow> logger option" where
  "internal_logout e file txt s = do {
     let (p, fs) = (if lo_fp s = NULL then fopen_append (lf_path file) (ev_fopen e) (lo_fs s) else (lo_fp s, lo_fs s));
     if p = NULL then Some s
     else do {
       clear \<leftarrow> must_clear p fs s;
       (fs, s) \<leftarrow> (if clear then do {
           fs \<leftarrow> freopen_trunc (lf_path file) (ev_freopen e) p fs;
           Some (fs, s\<lparr>g_clear_log_file := False, lo_stdout := lo_stdout s @ [''clear log file=============''] \<rparr>) }
         else Some (fs, s));
       fs \<leftarrow> fwrite_text (ev_written e) p (ev_time e @ txt) fs;
       Some (s\<lparr>lo_fp := p, lo_fs := fs\<rparr>) } }"

text \<open>The macro \<open>logout\<close>; \<open>notdir_fpath\<close> cuts the path like \<open>NodirStr\<close>.\<close>

definition logout :: "log_env \<Rightarrow> log_file_t \<Rightarrow> string \<Rightarrow> string \<Rightarrow> nat \<Rightarrow> string \<Rightarrow> logger \<Rightarrow> logger option" where
  "logout e file fpath func line txt s =
     internal_logout e file
       (''[file:'' @ NodirStr fpath @ '', func:'' @ func @ '', line:'' @ dec_nat line @ '']'' @ txt @ [CHR 0x0A]) s"

fun logout_run :: "log_file_t \<Rightarrow> (log_env \<times> string) list \<Rightarrow> logger \<Rightarrow> logger option" where
  "logout_run file [] s = Some s"
| "logout_run file ((e, txt) # calls) s = do {
     s \<leftarrow> internal_logout e file txt s;
     logout_run file calls s }"

section \<open>Paths\<close>

lemma NodirStr_last_component:
  assumes "CHR ''/'' \<notin> set base"
  shows "NodirStr (dir @ ''/'' @ base) = base" "NodirStr base = base"
proof -
  have "takeWhile (\<lambda>c. c \<noteq> CHR ''/'') (rev base @ CHR ''/'' # rev dir) = rev base"
    using assms by (subst takeWhile_append2) auto
  then show "NodirStr (dir @ ''/'' @ base) = base" "NodirStr base = base"
    using assms by (simp_all add: NodirStr_def)
qed

text \<open>A working directory with a name of 114 characters or more makes the UDP programs write behind their path.\<close>

lemma udp_log_path_fits:
  "udp_log_path dir lg \<noteq> None \<longleftrightarrow> logFp lg \<noteq> NULL \<or> (\<exists>d. dir = Some d \<and> length d < 114)"
  by (auto simp: udp_log_path_def Let_def split: option.splits)

section \<open>What a log file holds\<close>

lemma content_simps [simp]:
  "content (fs\<lparr>files := (files fs)(p \<mapsto> c)\<rparr>) = (content fs)(p := c)"
  "content (fs\<lparr>streams := x\<rparr>) = content fs"
  by (auto simp: content_def fun_eq_iff)

lemma write_at_end [simp]: "write_at (length c) txt c = c @ txt"
  by (simp add: write_at_def)

text \<open>A stream at the end of the file under a path.\<close>

definition at_end :: "filesys \<Rightarrow> addr \<Rightarrow> string \<Rightarrow> bool" where
  "at_end fs p path \<longleftrightarrow> p \<noteq> NULL \<and> (\<exists>st. streams fs p = Some st \<and> st_path st = path \<and>
     (st_append st \<or> st_pos st = length (content fs path)))"

lemma fopen_at_end:
  "p \<noteq> NULL \<Longrightarrow> fopen_append path (Some (p, pos)) fs = (q, fs') \<Longrightarrow>
     q = p \<and> at_end fs' p path \<and> content fs' = content fs"
  by (auto simp: fopen_append_def at_end_def)

lemma freopen_at_end:
  "at_end fs p path' \<Longrightarrow> \<exists>fs'. freopen_trunc path True p fs = Some fs' \<and> at_end fs' p path \<and>
     content fs' = (content fs)(path := []) \<and> (\<forall>q. q \<noteq> p \<longrightarrow> streams fs' q = streams fs q)"
  by (auto simp: freopen_trunc_def at_end_def)

lemma fwrite_at_end:
  "at_end fs p path \<Longrightarrow> \<exists>fs'. fwrite_text True p txt fs = Some fs' \<and> at_end fs' p path \<and>
     content fs' = (content fs)(path := content fs path @ txt) \<and> (\<forall>q. q \<noteq> p \<longrightarrow> streams fs' q = streams fs q) \<and>
     ftell p fs' = Some (length (content fs path @ txt))"
  by (auto simp: fwrite_text_def at_end_def ftell_def Let_def)

text \<open>The state of a log between two calls.\<close>

definition log_ok :: "LogOp \<Rightarrow> dbg \<Rightarrow> bool" where
  "log_ok lg s \<longleftrightarrow> logFp lg = NULL \<or> logType lg = ALWAYS_OPEN \<and> at_end (dbg_fs s) (logFp lg) (filePath lg)"

definition call_ok :: "LogOp \<Rightarrow> dbg \<Rightarrow> log_env \<times> string \<Rightarrow> bool" where
  "call_ok lg s c \<longleftrightarrow> (case c of (e, txt) \<Rightarrow> length txt < 1024 \<and> ev_freopen e \<and> ev_written e \<and>
     (logFp lg = NULL \<longrightarrow> (\<exists>p pos. ev_fopen e = Some (p, pos) \<and> p \<noteq> NULL \<and> streams (dbg_fs s) p = None)))"

text \<open>What the next line is added to.\<close>

definition log_start :: "LogOp \<Rightarrow> dbg \<Rightarrow> string" where
  "log_start lg s = (if initLogFile s then [] else content (dbg_fs s) (filePath lg))"

lemma LogFileFopen_ok:
  assumes "log_ok lg s" "call_ok lg s (e, txt)"
  shows "\<exists>lg' s'. LogFileFopen e lg s = Some (lg', s') \<and> at_end (dbg_fs s') (logFp lg') (filePath lg) \<and>
    lg' = lg\<lparr>logFp := logFp lg'\<rparr> \<and> \<not> initLogFile s' \<and> (logFp lg \<noteq> NULL \<longrightarrow> logFp lg' = logFp lg) \<and>
    (logFp lg = NULL \<longrightarrow> streams (dbg_fs s) (logFp lg') = None) \<and>
    content (dbg_fs s') = (content (dbg_fs s))(filePath lg := log_start lg s) \<and>
    (\<forall>q. q \<noteq> logFp lg' \<longrightarrow> streams (dbg_fs s') q = streams (dbg_fs s) q)"
proof -
  obtain p fs where pf: "(if logFp lg = NULL then fopen_append (filePath lg) (ev_fopen e) (dbg_fs s) else (logFp lg, dbg_fs s)) = (p, fs)"
    by fastforce
  have o: "at_end fs p (filePath lg)" "content fs = content (dbg_fs s)" "logFp lg \<noteq> NULL \<longrightarrow> p = logFp lg"
    "logFp lg = NULL \<longrightarrow> streams (dbg_fs s) p = None" "\<forall>q. q \<noteq> p \<longrightarrow> streams fs q = streams (dbg_fs s) q"
    using assms pf fopen_at_end [of _ "filePath lg" _ "dbg_fs s" p fs]
    by (auto simp: log_ok_def call_ok_def fopen_append_def split: if_splits)
  show ?thesis
  proof (cases "initLogFile s")
    case True
    obtain fs' where "freopen_trunc (filePath lg) True p fs = Some fs'" "at_end fs' p (filePath lg)"
      "content fs' = (content fs)(filePath lg := [])" "\<forall>q. q \<noteq> p \<longrightarrow> streams fs' q = streams fs q"
      using freopen_at_end [OF o(1)] by blast
    moreover have "ev_freopen e" using assms(2) by (simp add: call_ok_def)
    ultimately show ?thesis using True o pf by (simp add: LogFileFopen_def log_start_def)
  next
    case False
    then show ?thesis using o pf by (simp add: LogFileFopen_def log_start_def)
  qed
qed

lemma internal_dbgout_ok:
  assumes "log_ok lg s" "call_ok lg s (e, txt)"
  shows "\<exists>lg' s'. internal_dbgout e lg txt s = Some (lg', s') \<and> log_ok lg' s' \<and> lg' = lg\<lparr>logFp := logFp lg'\<rparr> \<and>
    \<not> initLogFile s' \<and> (\<forall>c. call_ok lg s c \<longrightarrow> call_ok lg' s' c) \<and>
    (\<forall>q. q \<noteq> logFp lg \<and> streams (dbg_fs s) q \<noteq> None \<longrightarrow> streams (dbg_fs s') q = streams (dbg_fs s) q) \<and>
    content (dbg_fs s') = (content (dbg_fs s))(filePath lg := log_start lg s @ log_line e txt)"
proof -
  obtain lg1 s1 where 1: "LogFileFopen e lg s = Some (lg1, s1)" "at_end (dbg_fs s1) (logFp lg1) (filePath lg)"
    "lg1 = lg\<lparr>logFp := logFp lg1\<rparr>" "\<not> initLogFile s1" "logFp lg \<noteq> NULL \<longrightarrow> logFp lg1 = logFp lg" "logFp lg = NULL \<longrightarrow> streams (dbg_fs s) (logFp lg1) = None"
    "content (dbg_fs s1) = (content (dbg_fs s))(filePath lg := log_start lg s)"
    "\<forall>q. q \<noteq> logFp lg1 \<longrightarrow> streams (dbg_fs s1) q = streams (dbg_fs s) q"
    using LogFileFopen_ok [OF assms] by (elim exE conjE) (rule that; assumption)
  obtain fs where 2: "fwrite_text True (logFp lg1) (log_line e txt) (dbg_fs s1) = Some fs" "at_end fs (logFp lg1) (filePath lg)"
    "content fs = (content (dbg_fs s1))(filePath lg := content (dbg_fs s1) (filePath lg) @ log_line e txt)"
    "\<forall>q. q \<noteq> logFp lg1 \<longrightarrow> streams fs q = streams (dbg_fs s1) q"
    using fwrite_at_end [OF 1(2)] by blast
  have p: "logFp lg1 \<noteq> NULL" using 1(2) by (simp add: at_end_def)
  have f: "filePath lg1 = filePath lg" "logType lg1 = logType lg" by (subst 1(3), simp)+
  have q: "q \<noteq> logFp lg \<Longrightarrow> streams (dbg_fs s) q \<noteq> None \<Longrightarrow> streams fs q = streams (dbg_fs s) q" for q
    using 1(5,6,8) 2(4) by (cases "q = logFp lg1"; cases "logFp lg = NULL") simp_all
  have l: "length txt < 1024" "ev_written e" using assms(2) by (simp_all add: call_ok_def)
  show ?thesis
  proof (cases "logType lg")
    case ALWAYS_OPEN
    then show ?thesis using 1 2 p f l q by (simp add: internal_dbgout_def FPRINTF_def log_ok_def call_ok_def)
  next
    case OPEN_EVERY_TIME_WRITE
    then have n: "logFp lg = NULL" using assms(1) by (simp add: log_ok_def)
    have "(streams fs)(logFp lg1 := None) = streams (dbg_fs s)"
      using 1(6,8) 2(4) n by (auto simp: fun_eq_iff)
    moreover have "logFp lg1 \<in> dom (streams fs)" using 2(2) by (auto simp: at_end_def)
    moreover have "lg1\<lparr>logFp := NULL\<rparr> = lg" using n by (subst 1(3)) simp
    ultimately show ?thesis using OPEN_EVERY_TIME_WRITE 1 2 p l n
      by (simp add: internal_dbgout_def FPRINTF_def LogFileFclose_def fclose_def log_ok_def call_ok_def)
  qed
qed

text \<open>
  C36. A log holds the lines that were logged. From the first call on, for either kind of log, the file
  holds, behind what was there before, or behind nothing after \<open>InitLogFile\<close>, one line per call with its time, in the order
  of the calls, and no other file changes. So keeping the file open and opening it for every line come to the same.
\<close>

theorem dbgout_log_content:
  assumes "log_ok lg s" "\<forall>c \<in> set calls. call_ok lg s c" "calls \<noteq> []"
  shows "\<exists>lg' s'. dbgout_run lg calls s = Some (lg', s') \<and> \<not> initLogFile s' \<and> content (dbg_fs s') =
    (content (dbg_fs s))(filePath lg := log_start lg s @ concat (map (\<lambda>(e, txt). log_line e txt) calls))"
  using assms
proof (induction calls arbitrary: lg s)
  case (Cons c calls)
  obtain e t where c: "c = (e, t)" by fastforce
  obtain lg1 s1 where 1: "internal_dbgout e lg t s = Some (lg1, s1)" "log_ok lg1 s1" "lg1 = lg\<lparr>logFp := logFp lg1\<rparr>"
    "\<not> initLogFile s1" "\<forall>c. call_ok lg s c \<longrightarrow> call_ok lg1 s1 c"
    "content (dbg_fs s1) = (content (dbg_fs s))(filePath lg := log_start lg s @ log_line e t)"
    using internal_dbgout_ok [of lg s e t] Cons.prems c by auto
  have f: "filePath lg1 = filePath lg" by (subst 1(3)) simp
  have "log_start lg1 s1 = log_start lg s @ log_line e t" using 1(4,6) f by (simp add: log_start_def)
  then show ?case using Cons.IH [OF 1(2)] Cons.prems 1 c f by (cases "calls = []") (auto simp: fun_eq_iff)
qed simp

text \<open>A client logs two lines in a directory where an old log lies, in either way of logging.\<close>

definition demo_fs :: filesys where
  "demo_fs = \<lparr>files = [''/t/log'' \<mapsto> ''old'', ''/t/x'' \<mapsto> ''x''], streams = Map.empty\<rparr>"

definition demo_calls :: "(log_env \<times> string) list" where
  "demo_calls = map (\<lambda>t. (\<lparr>ev_fopen = Some (5, 0), ev_freopen = True, ev_written = True, ev_time = ''12''\<rparr>, t)) [''a'', ''b'']"

theorem dbgout_log_content_witness:
  "\<forall>ty. \<exists>lg' s'.
     dbgout_run \<lparr>logType = ty, logFp = NULL, filePath = ''/t/log''\<rparr> demo_calls \<lparr>initLogFile = True, dbg_fs = demo_fs, dbg_stderr = []\<rparr> =
       Some (lg', s') \<and>
     content (dbg_fs s') ''/t/log'' = ''12-a'' @ CHR 0x0A # ''12-b'' @ [CHR 0x0A] \<and> content (dbg_fs s') ''/t/x'' = ''x''"
proof
  fix ty
  let ?lg = "\<lparr>logType = ty, logFp = NULL, filePath = ''/t/log''\<rparr>" and ?s = "\<lparr>initLogFile = True, dbg_fs = demo_fs, dbg_stderr = []\<rparr>"
  have "log_ok ?lg ?s" "\<forall>c \<in> set demo_calls. call_ok ?lg ?s c" "demo_calls \<noteq> []"
    by (simp_all add: log_ok_def call_ok_def demo_calls_def demo_fs_def)
  from dbgout_log_content [OF this] show "\<exists>lg' s'. dbgout_run ?lg demo_calls ?s = Some (lg', s') \<and>
      content (dbg_fs s') ''/t/log'' = ''12-a'' @ CHR 0x0A # ''12-b'' @ [CHR 0x0A] \<and> content (dbg_fs s') ''/t/x'' = ''x''"
    by (auto simp: demo_calls_def log_start_def log_line_def) (simp add: content_def demo_fs_def)
qed

text \<open>
  A log that cannot be opened takes the program down: the result of \<open>fopen\<close> is not checked before the line is written
  or the file is opened again.
\<close>

lemma dbgout_open_failure:
  assumes "logFp lg = NULL" "ev_fopen e = None" "streams (dbg_fs s) NULL = None"
  shows "internal_dbgout e lg line s = None"
  using assms
  by (auto simp: internal_dbgout_def LogFileFopen_def fopen_append_def FPRINTF_def fwrite_text_def freopen_trunc_def
      split: LogType.splits)

text \<open>
  The flag of \<open>InitLogFile\<close> belongs to the library, not to a log: only the log that is written first is
  started afresh, the next one is added to.
\<close>

lemma init_clears_first_log_only:
  assumes "log_ok lg s" "call_ok lg s (e, line)" "initLogFile s" "filePath lg2 \<noteq> filePath lg"
  shows "\<exists>lg' s'. internal_dbgout e lg line s = Some (lg', s') \<and> content (dbg_fs s') (filePath lg) = log_line e line \<and>
    log_start lg2 s' = content (dbg_fs s) (filePath lg2)"
proof -
  obtain lg' s' where "internal_dbgout e lg line s = Some (lg', s')" "\<not> initLogFile s'"
    "content (dbg_fs s') = (content (dbg_fs s))(filePath lg := log_start lg s @ log_line e line)"
    using internal_dbgout_ok [OF assms(1,2)] by (elim exE conjE) (rule that; assumption)
  then show ?thesis using assms(3,4) by (simp add: log_start_def)
qed

text \<open>
  The UDP client and the UDP server log into the same file when they run in the same directory: the first line of the client
  empties the file the server writes to, and the next line of the server leaves a gap of zeros.
\<close>

lemma udp_logs_collide:
  assumes "streams (dbg_fs srv) p = Some \<lparr>st_path = filePath lg, st_pos = n, st_append = False\<rparr>" "p \<noteq> NULL"
    "logFp lg = NULL" "call_ok lg cli (e, line)" "initLogFile cli" "dbg_fs cli = dbg_fs srv" "length (log_line e line) \<le> n"
  shows "\<exists>lg' cli' srv'. internal_dbgout e lg line cli = Some (lg', cli') \<and> content (dbg_fs cli') (filePath lg) = log_line e line \<and>
    FPRINTF True p next (srv\<lparr>dbg_fs := dbg_fs cli'\<rparr>) = Some srv' \<and>
    content (dbg_fs srv') (filePath lg) = log_line e line @ replicate (n - length (log_line e line)) (CHR 0x00) @ next"
proof -
  have "log_ok lg cli" using assms(3) by (simp add: log_ok_def)
  from internal_dbgout_ok [OF this assms(4)] obtain lg' cli' where 1: "internal_dbgout e lg line cli = Some (lg', cli')"
    "\<forall>q. q \<noteq> logFp lg \<and> streams (dbg_fs cli) q \<noteq> None \<longrightarrow> streams (dbg_fs cli') q = streams (dbg_fs cli) q"
    "content (dbg_fs cli') = (content (dbg_fs cli))(filePath lg := log_start lg cli @ log_line e line)"
    by (elim exE conjE) (rule that; assumption)
  have "streams (dbg_fs cli') p = Some \<lparr>st_path = filePath lg, st_pos = n, st_append = False\<rparr>"
    using 1(2) assms by auto
  then show ?thesis using 1(1,3) assms(5,7) by (simp add: FPRINTF_def fwrite_text_def write_at_def log_start_def Let_def)
qed

section \<open>What \<open>logout\<close> keeps\<close>

text \<open>The abstract log: a record starts the file again when the size \<open>m\<close> is reached, otherwise it is added.\<close>

definition rotate_log :: "int \<Rightarrow> string \<Rightarrow> string \<Rightarrow> string" where
  "rotate_log m c r = (if 0 < m \<and> m \<le> int (length c) then r else c @ r)"

definition logger_ok :: "log_file_t \<Rightarrow> logger \<Rightarrow> bool" where
  "logger_ok file s \<longleftrightarrow> at_end (lo_fs s) (lo_fp s) (lf_path file) \<and> \<not> g_clear_log_file s \<and>
     ftell (lo_fp s) (lo_fs s) = Some (length (content (lo_fs s) (lf_path file)))"

definition logout_call_ok :: "logger \<Rightarrow> log_env \<times> string \<Rightarrow> bool" where
  "logout_call_ok s c \<longleftrightarrow> (case c of (e, txt) \<Rightarrow> ev_freopen e \<and> ev_written e \<and>
     (lo_fp s = NULL \<longrightarrow> (\<exists>p pos. ev_fopen e = Some (p, pos) \<and> p \<noteq> NULL)))"

lemma logger_ok_live: "logger_ok file s \<Longrightarrow> lo_fp s \<noteq> NULL"
  by (simp add: logger_ok_def at_end_def)

lemma logout_step:
  assumes "logger_ok file s" "ev_freopen e" "ev_written e"
  shows "\<exists>s'. internal_logout e file line s = Some s' \<and> logger_ok file s' \<and> g_max_log_size s' = g_max_log_size s \<and>
    content (lo_fs s') = (content (lo_fs s))(lf_path file :=
      rotate_log (g_max_log_size s) (content (lo_fs s) (lf_path file)) (ev_time e @ line))"
proof -
  let ?c = "content (lo_fs s) (lf_path file)" and ?p = "lo_fp s"
  have at: "at_end (lo_fs s) ?p (lf_path file)" "\<not> g_clear_log_file s" "ftell ?p (lo_fs s) = Some (length ?c)" "?p \<noteq> NULL"
    using assms(1) logger_ok_live by (auto simp: logger_ok_def)
  have m: "must_clear ?p (lo_fs s) s = Some (0 < g_max_log_size s \<and> g_max_log_size s \<le> int (length ?c))"
    using at by (simp add: must_clear_def)
  show ?thesis
  proof (cases "0 < g_max_log_size s \<and> g_max_log_size s \<le> int (length ?c)")
    case True
    obtain fs where 1: "freopen_trunc (lf_path file) True ?p (lo_fs s) = Some fs" "at_end fs ?p (lf_path file)"
      "content fs = (content (lo_fs s))(lf_path file := [])"
      using freopen_at_end [OF at(1)] by blast
    from fwrite_at_end [OF 1(2), of "ev_time e @ line"] show ?thesis
      using True 1 at m assms(2,3) by (auto simp: internal_logout_def logger_ok_def rotate_log_def)
  next
    case False
    with fwrite_at_end [OF at(1), of "ev_time e @ line"] show ?thesis
      using at m assms(2,3) by (auto simp: internal_logout_def logger_ok_def rotate_log_def)
  qed
qed

lemma logout_first:
  assumes "g_clear_log_file s" "lo_fp s = NULL" "logout_call_ok s (e, line)"
  shows "\<exists>s'. internal_logout e file line s = Some s' \<and> logger_ok file s' \<and> g_max_log_size s' = g_max_log_size s \<and>
    content (lo_fs s') = (content (lo_fs s))(lf_path file := ev_time e @ line)"
proof -
  obtain p pos where p: "ev_fopen e = Some (p, pos)" "p \<noteq> NULL" "ev_freopen e" "ev_written e"
    using assms(2,3) by (auto simp: logout_call_ok_def)
  obtain fs where 0: "fopen_append (lf_path file) (Some (p, pos)) (lo_fs s) = (p, fs)" by (simp add: fopen_append_def)
  then have "at_end fs p (lf_path file)" "content fs = content (lo_fs s)" using fopen_at_end [OF p(2)] by auto
  moreover from freopen_at_end [OF this(1)] obtain fs1 where 1: "freopen_trunc (lf_path file) True p fs = Some fs1" "at_end fs1 p (lf_path file)"
    "content fs1 = (content fs)(lf_path file := [])" by blast
  ultimately show ?thesis
    using fwrite_at_end [OF 1(2), of "ev_time e @ line"] 0 p assms(1,2)
    by (auto simp: internal_logout_def logger_ok_def must_clear_def)
qed

lemma logout_run_live:
  assumes "logger_ok file s" "\<forall>(e, t) \<in> set calls. ev_freopen e \<and> ev_written e"
  shows "\<exists>s'. logout_run file calls s = Some s' \<and> content (lo_fs s') = (content (lo_fs s))(lf_path file :=
    foldl (rotate_log (g_max_log_size s)) (content (lo_fs s) (lf_path file)) (map (\<lambda>(e, t). ev_time e @ t) calls))"
  using assms
proof (induction calls arbitrary: s)
  case (Cons c calls)
  obtain e t where c: "c = (e, t)" by fastforce
  obtain s1 where 1: "internal_logout e file t s = Some s1" "logger_ok file s1" "g_max_log_size s1 = g_max_log_size s"
    "content (lo_fs s1) = (content (lo_fs s))(lf_path file :=
      rotate_log (g_max_log_size s) (content (lo_fs s) (lf_path file)) (ev_time e @ t))"
    using logout_step [OF Cons.prems(1), of e t] Cons.prems(2) c by auto
  then show ?case using Cons.IH [OF 1(2)] Cons.prems(2) c by (auto simp: fun_eq_iff)
qed simp

lemma logout_run_fresh:
  assumes "s = init_log_file_clear True m s0" "lo_fp s0 = NULL" "\<forall>c \<in> set calls. logout_call_ok s c" "calls \<noteq> []"
  shows "\<exists>s'. logout_run file calls s = Some s' \<and> content (lo_fs s') = (content (lo_fs s0))(lf_path file :=
    foldl (rotate_log m) [] (map (\<lambda>(e, t). ev_time e @ t) calls))"
proof -
  obtain e t rest where c: "calls = (e, t) # rest" using assms(4) by (cases calls) auto
  have s: "g_clear_log_file s" "lo_fp s = NULL" "g_max_log_size s = m" "lo_fs s = lo_fs s0" "logout_call_ok s (e, t)"
    using assms(1-3) c by (simp_all add: init_log_file_clear_def)
  obtain s1 where 1: "internal_logout e file t s = Some s1" "logger_ok file s1" "g_max_log_size s1 = m"
    "content (lo_fs s1) = (content (lo_fs s))(lf_path file := ev_time e @ t)"
    using logout_first [OF s(1,2,5)] s(3) by auto
  have "\<forall>(e, t) \<in> set rest. ev_freopen e \<and> ev_written e" using assms(3) c by (auto simp: logout_call_ok_def)
  from logout_run_live [OF 1(2) this] show ?thesis using 1 s(4) c by (auto simp: rotate_log_def fun_eq_iff)
qed

lemma rotate_log_keeps: "foldl (rotate_log 0) c rs = c @ concat rs"
  by (induction rs arbitrary: c) (simp_all add: rotate_log_def)

text \<open>
  C37. A log of \<open>logout\<close> is bounded. After \<open>init_log_file_clear(1, m)\<close>, for every sequence of records, the file holds what the
  abstract log holds: nothing of an earlier run, records in order, started again when the size
  \<open>m\<close> was reached. With \<open>m > 0\<close> it stays shorter than \<open>m\<close> plus the last record, which is always there; with \<open>m = 0\<close>, the setting
  of both programs, every record is kept. No other file changes.
\<close>

theorem logout_log_bounded:
  assumes "s = init_log_file_clear True m s0" "lo_fp s0 = NULL" "\<forall>c \<in> set (calls @ [(e, line)]). logout_call_ok s c"
  shows "\<exists>s'. logout_run file (calls @ [(e, line)]) s = Some s' \<and>
    content (lo_fs s') = (content (lo_fs s0))(lf_path file :=
      foldl (rotate_log m) [] (map (\<lambda>(e, t). ev_time e @ t) (calls @ [(e, line)]))) \<and>
    (\<exists>before. content (lo_fs s') (lf_path file) = before @ ev_time e @ line \<and> (0 < m \<longrightarrow> int (length before) < m)) \<and>
    (m = 0 \<longrightarrow> content (lo_fs s') (lf_path file) = concat (map (\<lambda>(e, t). ev_time e @ t) (calls @ [(e, line)])))"
proof -
  let ?r = "\<lambda>(e, t). ev_time e @ t" and ?b = "foldl (rotate_log m) [] (map (\<lambda>(e, t). ev_time e @ t) calls)"
  obtain s' where s': "logout_run file (calls @ [(e, line)]) s = Some s'" "content (lo_fs s') =
      (content (lo_fs s0))(lf_path file := foldl (rotate_log m) [] (map ?r (calls @ [(e, line)])))"
    using logout_run_fresh [OF assms(1-3)] by auto
  then have c: "content (lo_fs s') (lf_path file) = rotate_log m ?b (ev_time e @ line)" by simp
  have "\<exists>before. content (lo_fs s') (lf_path file) = before @ ev_time e @ line \<and> (0 < m \<longrightarrow> int (length before) < m)"
    using c by (cases "0 < m \<and> m \<le> int (length ?b)") (auto simp: rotate_log_def)
  moreover have "m = 0 \<longrightarrow> content (lo_fs s') (lf_path file) = concat (map ?r (calls @ [(e, line)]))"
    using s'(2) by (simp del: foldl_append map_append add: rotate_log_keeps)
  ultimately show ?thesis using s' by blast
qed

text \<open>Three records with a size of 4: the second fills the file, the third starts it again.\<close>

theorem logout_log_bounded_witness:
  "\<exists>s'. logout_run \<lparr>lf_status = ALWAYS_OPEN_lc, lf_path = ''/t/log''\<rparr> (demo_calls @ [(fst (hd demo_calls), ''c'')])
      (init_log_file_clear True 4 \<lparr>g_clear_log_file = False, g_max_log_size = 0, lo_fp = NULL, lo_fs = demo_fs, lo_stdout = []\<rparr>) = Some s' \<and>
    content (lo_fs s') ''/t/log'' = ''12c'' \<and> content (lo_fs s') ''/t/x'' = ''x''"
proof -
  let ?s0 = "\<lparr>g_clear_log_file = False, g_max_log_size = 0, lo_fp = NULL, lo_fs = demo_fs, lo_stdout = []\<rparr>"
  let ?f = "\<lparr>lf_status = ALWAYS_OPEN_lc, lf_path = ''/t/log''\<rparr>" and ?calls = "demo_calls @ [(fst (hd demo_calls), ''c'')]"
  have h: "lo_fp ?s0 = NULL" "\<forall>c \<in> set ?calls. logout_call_ok (init_log_file_clear True 4 ?s0) c"
    by (simp_all add: demo_calls_def logout_call_ok_def)
  have r: "foldl (rotate_log 4) [] (map (\<lambda>(e, t). ev_time e @ t) ?calls) = ''12c''"
    by (simp add: demo_calls_def rotate_log_def)
  obtain s' where s': "logout_run ?f ?calls (init_log_file_clear True 4 ?s0) = Some s'"
    "content (lo_fs s') = (content (lo_fs ?s0))(lf_path ?f := foldl (rotate_log 4) [] (map (\<lambda>(e, t). ev_time e @ t) ?calls))"
    using logout_log_bounded [OF refl h, of ?f] by (elim exE conjE) (rule that; assumption)
  have "content (lo_fs s') ''/t/log'' = ''12c''" "content (lo_fs s') ''/t/x'' = ''x''"
    using s'(2) unfolding r by (simp_all add: content_def demo_fs_def)
  then show ?thesis using s'(1) by blast
qed

text \<open>
  The library has one stream for all log files: once a file is open, records for another path go to the first one.
\<close>

lemma logout_one_stream:
  assumes "logger_ok file s" "ev_written e" "g_max_log_size s \<le> 0" "lf_path other \<noteq> lf_path file"
  shows "\<exists>s'. internal_logout e other line s = Some s' \<and>
    content (lo_fs s') (lf_path other) = content (lo_fs s) (lf_path other) \<and>
    content (lo_fs s') (lf_path file) = content (lo_fs s) (lf_path file) @ ev_time e @ line"
proof -
  have at: "at_end (lo_fs s) (lo_fp s) (lf_path file)" "\<not> g_clear_log_file s" "lo_fp s \<noteq> NULL"
    using assms(1) logger_ok_live by (auto simp: logger_ok_def)
  from fwrite_at_end [OF at(1), of "ev_time e @ line"] show ?thesis
    using at(2,3) assms(2-4) by (auto simp: internal_logout_def must_clear_def)
qed

end
