(* ===== verification/Sock_Modules.thy ===== *)
theory Sock_Modules
  imports Log_Files
begin

text \<open>
  The block that the \<open>socket\<close> programs keep their log file and their id in (\<open>common/pre_modules\<close>), how server and client
  fill it, and their log macro.
\<close>

text \<open>A path is \<open>None\<close> while its array has not been written.\<close>

record pre_modules_t =
  pm_status :: "log_file_status_t option"
  pm_path :: "string option"
  pm_endid :: "int option"

text \<open>The static pointer of \<open>init_pre_modules\<close> with the logger of the program.\<close>

record modules_state =
  modules :: "pre_modules_t gptr"
  ms_log :: logger

text \<open>\<open>ok\<close> says whether \<open>malloc\<close> returned a block.\<close>

definition init_pre_modules :: "bool \<Rightarrow> modules_state \<Rightarrow> modules_state" where
  "init_pre_modules ok s =
     (if modules s \<noteq> Null then s
      else if ok then s\<lparr>modules := Ptr \<lparr>pm_status = None, pm_path = None, pm_endid = None\<rparr>\<rparr>
      else s)"

definition write_pre_modules_addr :: "bool \<Rightarrow> modules_state \<Rightarrow> modules_state" where
  "write_pre_modules_addr ok s = init_pre_modules ok s"

definition read_pre_modules_addr :: "bool \<Rightarrow> modules_state \<Rightarrow> modules_state" where
  "read_pre_modules_addr ok s = init_pre_modules ok s"

text \<open>The pointer is not reset, so it dangles afterwards; \<open>free(NULL)\<close> does nothing.\<close>

definition destroy_pre_modules :: "bool \<Rightarrow> modules_state \<Rightarrow> modules_state option" where
  "destroy_pre_modules ok s =
     (let s = init_pre_modules ok s in
      case modules s of Null \<Rightarrow> Some s | Freed \<Rightarrow> None | Ptr _ \<Rightarrow> Some (s\<lparr>modules := Freed\<rparr>))"

text \<open>\<open>write_pre_modules_addr()->field = value\<close>\<close>

definition set_module :: "bool \<Rightarrow> (pre_modules_t \<Rightarrow> pre_modules_t) \<Rightarrow> modules_state \<Rightarrow> modules_state option" where
  "set_module ok f s =
     (let s = write_pre_modules_addr ok s in do { b \<leftarrow> deref (modules s); Some (s\<lparr>modules := Ptr (f b)\<rparr>) })"

text \<open>\<open>getcwd(path, 128)\<close> leaves the array alone when the name does not fit.\<close>

definition getcwd :: "string \<Rightarrow> pre_modules_t \<Rightarrow> pre_modules_t" where
  "getcwd cwd b = (if length cwd < 128 then b\<lparr>pm_path := Some cwd\<rparr> else b)"

definition strcat_path :: "string \<Rightarrow> modules_state \<Rightarrow> modules_state option" where
  "strcat_path suffix s = do {
     b \<leftarrow> deref (modules s);
     path \<leftarrow> pm_path b;
     if length (path @ suffix) < 128 then Some (s\<lparr>modules := Ptr (b\<lparr>pm_path := Some (path @ suffix)\<rparr>)\<rparr>) else None }"

definition set_cli_pre_modules :: "bool \<Rightarrow> string \<Rightarrow> int \<Rightarrow> modules_state \<Rightarrow> modules_state option" where
  "set_cli_pre_modules ok cwd pid s = do {
     let s = s\<lparr>ms_log := init_log_file_clear True 0 (ms_log s)\<rparr>;
     s \<leftarrow> set_module ok (\<lambda>b. b\<lparr>pm_status := Some ALWAYS_OPEN_lc\<rparr>) s;
     s \<leftarrow> set_module ok (getcwd cwd) s;
     s \<leftarrow> strcat_path ''/logcli'' s;
     set_module ok (\<lambda>b. b\<lparr>pm_endid := Some pid\<rparr>) s }"

definition unset_cli_pre_modules :: "bool \<Rightarrow> modules_state \<Rightarrow> modules_state option" where
  "unset_cli_pre_modules ok s = destroy_pre_modules ok s"

definition set_srv_pre_modules :: "bool \<Rightarrow> string \<Rightarrow> modules_state \<Rightarrow> modules_state option" where
  "set_srv_pre_modules ok cwd s = do {
     let s = s\<lparr>ms_log := init_log_file_clear True 0 (ms_log s)\<rparr>;
     s \<leftarrow> set_module ok (\<lambda>b. b\<lparr>pm_status := Some ALWAYS_OPEN_lc\<rparr>) s;
     s \<leftarrow> set_module ok (getcwd cwd) s;
     s \<leftarrow> strcat_path ''/logsrv'' s;
     set_module ok (\<lambda>b. b\<lparr>pm_endid := Some 0\<rparr>) s }"

definition unset_srv_pre_modules :: "bool \<Rightarrow> modules_state \<Rightarrow> modules_state option" where
  "unset_srv_pre_modules ok s = destroy_pre_modules ok s"

text \<open>The macro \<open>lc_logout\<close>.\<close>

definition lc_logout :: "bool \<Rightarrow> log_env \<Rightarrow> string \<Rightarrow> string \<Rightarrow> nat \<Rightarrow> string \<Rightarrow> modules_state \<Rightarrow> modules_state option" where
  "lc_logout ok e fpath func line text s = do {
     let s = read_pre_modules_addr ok s;
     b \<leftarrow> deref (modules s);
     status \<leftarrow> pm_status b;
     path \<leftarrow> pm_path b;
     l \<leftarrow> logout e \<lparr>lf_status = status, lf_path = path\<rparr> fpath func line text (ms_log s);
     Some (s\<lparr>ms_log := l\<rparr>) }"

text \<open>The macro \<open>lc_err_logout\<close>; \<open>err\<close> is the text that \<open>strerror_r\<close> leaves in its array of 256 bytes.\<close>

definition lc_err_logout ::
  "bool \<Rightarrow> log_env \<Rightarrow> string \<Rightarrow> string \<Rightarrow> nat \<Rightarrow> string \<Rightarrow> string \<Rightarrow> modules_state \<Rightarrow> modules_state option" where
  "lc_err_logout ok e fpath func line text err s = lc_logout ok e fpath func line (text @ '': '' @ err) s"

section \<open>Properties\<close>

lemmas modules_defs = init_pre_modules_def write_pre_modules_addr_def read_pre_modules_addr_def set_module_def
  getcwd_def strcat_path_def Let_def

text \<open>
  Setting up a program returns exactly if the block could be allocated and the working directory leaves room for
  the name of the log; then the log is in that directory and the id is set.
\<close>

lemma set_cli_pre_modules_fits:
  assumes "modules s = Null"
  shows "set_cli_pre_modules ok cwd pid s =
    (if ok \<and> length cwd < 121 then
       Some (s\<lparr>modules := Ptr \<lparr>pm_status = Some ALWAYS_OPEN_lc, pm_path = Some (cwd @ ''/logcli''), pm_endid = Some pid\<rparr>,
         ms_log := init_log_file_clear True 0 (ms_log s)\<rparr>)
     else None)"
  using assms by (auto simp: set_cli_pre_modules_def modules_defs)

lemma set_srv_pre_modules_fits:
  assumes "modules s = Null"
  shows "set_srv_pre_modules ok cwd s =
    (if ok \<and> length cwd < 121 then
       Some (s\<lparr>modules := Ptr \<lparr>pm_status = Some ALWAYS_OPEN_lc, pm_path = Some (cwd @ ''/logsrv''), pm_endid = Some 0\<rparr>,
         ms_log := init_log_file_clear True 0 (ms_log s)\<rparr>)
     else None)"
  using assms by (auto simp: set_srv_pre_modules_def modules_defs)

text \<open>After the block was freed every use of it is a fault: the log macro, and freeing it again.\<close>

lemma modules_dangle:
  assumes "destroy_pre_modules ok s = Some s'" "modules s' \<noteq> Null"
  shows "lc_logout ok' e fpath func line text s' = None" "destroy_pre_modules ok' s' = None"
  using assms by (auto simp: destroy_pre_modules_def lc_logout_def modules_defs split: gptr.splits if_splits)

text \<open>The first record a program logs starts its file afresh.\<close>

lemma first_record:
  assumes "modules s = Ptr b" "pm_status b = Some ALWAYS_OPEN_lc" "pm_path b = Some path" "ms_log s = init_log_file_clear True 0 l"
    "lo_fp l = NULL" "ev_fopen e = Some (p, pos)" "p \<noteq> NULL" "ev_freopen e" "ev_written e" "CHR ''/'' \<notin> set base"
  shows "\<exists>s'. lc_logout ok e (dir @ ''/'' @ base) func line text s = Some s' \<and> modules s' = modules s \<and>
    content (lo_fs (ms_log s')) = (content (lo_fs l))(path :=
      ev_time e @ ''[file:'' @ base @ '', func:'' @ func @ '', line:'' @ dec_nat line @ '']'' @ text @ [CHR 0x0A])"
proof -
  let ?l = "init_log_file_clear True 0 l" and ?f = "\<lparr>lf_status = ALWAYS_OPEN_lc, lf_path = path\<rparr>"
  have "g_clear_log_file ?l" "lo_fp ?l = NULL" "lo_fs ?l = lo_fs l"
    using assms(5) by (simp_all add: init_log_file_clear_def)
  moreover have "logout_call_ok ?l (e, r)" for r using assms(5-9) by (simp add: logout_call_ok_def init_log_file_clear_def)
  moreover have "NodirStr (dir @ CHR ''/'' # base) = base" using NodirStr_last_component(1) [OF assms(10), of dir] by simp
  ultimately obtain l' where "logout e ?f (dir @ ''/'' @ base) func line text ?l = Some l'" "content (lo_fs l') = (content (lo_fs l))(path :=
      ev_time e @ ''[file:'' @ base @ '', func:'' @ func @ '', line:'' @ dec_nat line @ '']'' @ text @ [CHR 0x0A])"
    using logout_first [of ?l e _ ?f] by (fastforce simp: logout_def)
  then show ?thesis
    using assms(1-4) by (simp add: lc_logout_def modules_defs)
qed

end
