(* ===== verification/Sock_Start.thy ===== *)
theory Sock_Start
  imports Sock_Modules Sock_Forward Sock_Client
begin

text \<open>
  The start of the \<open>socket\<close> programs: \<open>main\<close> of \<open>server/server.c\<close> and \<open>client/client.c\<close> up to the loop they wait in. \<open>src\<close> is the
  directory that \<open>__FILE__\<close> starts with. The id that the handlers read from the block of \<open>pre_modules\<close> is a field of
  the state of server and client; it is filled from the block here.
\<close>

record 's sock_process =
  sp_modules :: modules_state
  sp_prog :: 's

definition read_endid :: "modules_state \<Rightarrow> 32 word option" where
  "read_endid ms = do { b \<leftarrow> deref (modules ms); i \<leftarrow> pm_endid b; Some (word_of_int i) }"

definition socket_server_main ::
  "bool \<Rightarrow> string \<Rightarrow> log_env \<Rightarrow> string \<Rightarrow> 'db senv \<Rightarrow> init_results \<Rightarrow> 'db lc_server sock_process \<Rightarrow> 'db lc_server sock_process option" where
  "socket_server_main ok cwd le src e r p = do {
     ms \<leftarrow> set_srv_pre_modules ok cwd (sp_modules p);
     ms \<leftarrow> lc_logout ok le (src @ ''/'' @ ''server.c'') ''main'' 66 ''start server'' ms;
     i \<leftarrow> read_endid ms;
     Some \<lparr>sp_modules = ms, sp_prog = init_all_srv_modules e r ((sp_prog p)\<lparr>srv_endid := i\<rparr>)\<rparr> }"

definition socket_client_main ::
  "bool \<Rightarrow> string \<Rightarrow> int \<Rightarrow> log_env \<Rightarrow> string \<Rightarrow> addr \<Rightarrow> int \<times> int \<Rightarrow> op_inputs \<Rightarrow> lc_client sock_process \<Rightarrow> lc_client sock_process option" where
  "socket_client_main ok cwd pid le src q iret d p = do {
     ms \<leftarrow> set_cli_pre_modules ok cwd pid (sp_modules p);
     ms \<leftarrow> lc_logout ok le (src @ ''/'' @ ''client.c'') ''main'' 67 ''start client'' ms;
     i \<leftarrow> read_endid ms;
     c \<leftarrow> init_all_cli_modules q iret d ((sp_prog p)\<lparr>lc_endid := i\<rparr>);
     Some \<lparr>sp_modules = ms, sp_prog = c\<rparr> }"

section \<open>Properties\<close>

text \<open>What the start needs from outside: a block, a working directory that leaves room for the name of the log, a log.\<close>

definition start_ok :: "bool \<Rightarrow> string \<Rightarrow> log_env \<Rightarrow> modules_state \<Rightarrow> bool" where
  "start_ok ok cwd le ms \<longleftrightarrow> modules ms = Null \<and> ok \<and> length cwd < 121 \<and> lo_fp (ms_log ms) = NULL \<and>
     (\<exists>p pos. ev_fopen le = Some (p, pos) \<and> p \<noteq> NULL) \<and> ev_freopen le \<and> ev_written le"

text \<open>The server starts with the id 0, a fresh log with one record, and the state from which \<open>server_run\<close> refines its specification.\<close>

lemma socket_server_starts:
  fixes e :: "'db senv"
  assumes "start_ok ok cwd le ms" "tk_queue (e_task e) \<noteq> NULL"
  shows "\<exists>p'. socket_server_main ok cwd le src e r \<lparr>sp_modules = ms, sp_prog = new_server self\<rparr> = Some p' \<and>
    srv_state tab (sp_prog p') (new_spec 0 (fst (ir_tcp r)) (fst (ir_udp r))) \<and>
    content (lo_fs (ms_log (sp_modules p'))) = (content (lo_fs (ms_log ms)))(cwd @ ''/logsrv'' :=
      ev_time le @ ''[file:server.c, func:main, line:66]start server'' @ [CHR 0x0A])"
proof -
  let ?b = "\<lparr>pm_status = Some ALWAYS_OPEN_lc, pm_path = Some (cwd @ ''/logsrv''), pm_endid = Some 0\<rparr>"
  let ?ms = "ms\<lparr>modules := Ptr ?b, ms_log := init_log_file_clear True 0 (ms_log ms)\<rparr>"
  have set: "set_srv_pre_modules ok cwd ms = Some ?ms" using assms(1) by (simp add: start_ok_def set_srv_pre_modules_fits)
  obtain p pos where p: "ev_fopen le = Some (p, pos)" "p \<noteq> NULL" using assms(1) by (auto simp: start_ok_def)
  have "dec_nat 66 = ''66''" by code_simp
  then obtain ms' where log: "lc_logout ok le (src @ ''/'' @ ''server.c'') ''main'' 66 ''start server'' ?ms = Some ms'" "modules ms' = Ptr ?b"
    "content (lo_fs (ms_log ms')) = (content (lo_fs (ms_log ms)))(cwd @ ''/logsrv'' :=
      ev_time le @ ''[file:server.c, func:main, line:66]start server'' @ [CHR 0x0A])"
    using first_record [of ?ms ?b "cwd @ ''/logsrv''" "ms_log ms" le p pos "''server.c''" ok src "''main''" 66 "''start server''"] assms(1) p
    by (auto simp: start_ok_def)
  have "(new_server self :: 'db lc_server)\<lparr>srv_endid := 0\<rparr> = new_server 0" by (simp add: new_server_def)
  then show ?thesis
    using set log server_starts_state(1) [OF assms(2), of tab r 0] by (simp add: socket_server_main_def read_endid_def)
qed

text \<open>The client starts with its process id and a fresh log; then its modules are started.\<close>

lemma socket_client_starts:
  assumes "start_ok ok cwd le ms" "init_all_cli_modules q iret d ((new_client self a)\<lparr>lc_endid := word_of_int pid\<rparr>) = Some c"
  shows "\<exists>p'. socket_client_main ok cwd pid le src q iret d \<lparr>sp_modules = ms, sp_prog = new_client self a\<rparr> = Some p' \<and> sp_prog p' = c \<and>
    content (lo_fs (ms_log (sp_modules p'))) = (content (lo_fs (ms_log ms)))(cwd @ ''/logcli'' :=
      ev_time le @ ''[file:client.c, func:main, line:67]start client'' @ [CHR 0x0A])"
proof -
  let ?b = "\<lparr>pm_status = Some ALWAYS_OPEN_lc, pm_path = Some (cwd @ ''/logcli''), pm_endid = Some pid\<rparr>"
  let ?ms = "ms\<lparr>modules := Ptr ?b, ms_log := init_log_file_clear True 0 (ms_log ms)\<rparr>"
  have set: "set_cli_pre_modules ok cwd pid ms = Some ?ms" using assms(1) by (simp add: start_ok_def set_cli_pre_modules_fits)
  obtain p pos where p: "ev_fopen le = Some (p, pos)" "p \<noteq> NULL" using assms(1) by (auto simp: start_ok_def)
  have "dec_nat 67 = ''67''" by code_simp
  then obtain ms' where log: "lc_logout ok le (src @ ''/'' @ ''client.c'') ''main'' 67 ''start client'' ?ms = Some ms'" "modules ms' = Ptr ?b"
    "content (lo_fs (ms_log ms')) = (content (lo_fs (ms_log ms)))(cwd @ ''/logcli'' :=
      ev_time le @ ''[file:client.c, func:main, line:67]start client'' @ [CHR 0x0A])"
    using first_record [of ?ms ?b "cwd @ ''/logcli''" "ms_log ms" le p pos "''client.c''" ok src "''main''" 67 "''start client''"] assms(1) p
    by (auto simp: start_ok_def)
  then show ?thesis using set assms(2) by (simp add: socket_client_main_def read_endid_def)
qed

text \<open>A program that is started in a directory with a long name does not start.\<close>

lemma socket_main_long_directory:
  assumes "modules (sp_modules p) = Null" "121 \<le> length cwd"
  shows "socket_server_main ok cwd le src e r p = None"
  using assms by (simp add: socket_server_main_def set_srv_pre_modules_fits)

end
