(* ===== verification/Process.thy ===== *)
theory Process
  imports Log_Files
begin

text \<open>
  What the UDP and the TCP programs have at their start beside their own state: a log, the flag of the logging library,
  and whether \<open>SIGPIPE\<close> ends them.
\<close>

text \<open>A process: the state of the program, its log, the threads it started, and whether \<open>SIGPIPE\<close> has a handler.\<close>

record 'p process =
  prog :: 'p
  log_op :: LogOp
  log_lib :: dbg
  pr_threads :: "string list"
  on_sigpipe :: bool

text \<open>The handler of \<open>SIGPIPE\<close> does nothing; what counts is that the signal no longer ends the program.\<close>

definition InitSignalsConfig :: "'p process \<Rightarrow> 'p process" where
  "InitSignalsConfig p = p\<lparr>on_sigpipe := True\<rparr>"

text \<open>The state before \<open>main\<close>, over the files that are there.\<close>

definition new_log :: LogOp where
  "new_log = \<lparr>logType = ALWAYS_OPEN, logFp = NULL, filePath = []\<rparr>"

definition new_process :: "'p \<Rightarrow> filesys \<Rightarrow> 'p process" where
  "new_process x fs = \<lparr>prog = x, log_op = new_log, log_lib = \<lparr>initLogFile = False, dbg_fs = fs, dbg_stderr = []\<rparr>,
     pr_threads = [], on_sigpipe = False\<rparr>"

end
