(* ===== verification/Udp_Start.thy ===== *)
theory Udp_Start
  imports Udp_Client Udp_Server Process
begin

text \<open>
  Start and stop of the UDP client, and the start of both UDP programs with their logs: \<open>main\<close> of
  \<open>socket_udp/client/client.c\<close> and \<open>socket_udp/server/server.c\<close> up to the loop they wait in.
\<close>

section \<open>The client's threads and modules\<close>

text \<open>The result of \<open>pthread_create\<close> is logged, not returned.\<close>

definition CreateRecvServerMsgThread :: "bool \<Rightarrow> 'p process \<Rightarrow> int \<times> 'p process" where
  "CreateRecvServerMsgThread ok p = (0, if ok then p\<lparr>pr_threads := pr_threads p @ [''RecvServerMsg'']\<rparr> else p)"

definition CreateClientInterfaceThread :: "bool \<Rightarrow> 'p process \<Rightarrow> int \<times> 'p process" where
  "CreateClientInterfaceThread ok p = (0, if ok then p\<lparr>pr_threads := pr_threads p @ [''CliUI'']\<rparr> else p)"

text \<open>
  The results of the calls, in order: \<open>malloc\<close> of the flag, \<open>socket\<close> and \<open>setsockopt\<close>, the allocations and threads of the
  pool, the two threads.
\<close>

record cli_results =
  cr_flag :: bool
  cr_socket :: int
  cr_sockopt :: int
  cr_malloc :: bool
  cr_calloc :: bool
  cr_queue :: addr
  cr_created :: "nat \<Rightarrow> bool"
  cr_mem :: "cli_task mem"
  cr_recv :: bool
  cr_ui :: bool

definition CliInitModules :: "cli_results \<Rightarrow> client process \<Rightarrow> client process option" where
  "CliInitModules r p = do {
     c \<leftarrow> InitCliFlag (cr_flag r) (prog p);
     let c = snd (InitClientUdp (cr_socket r) (cr_sockopt r) c);
     pool \<leftarrow> CreateClientThreadPool (cr_malloc r) (cr_calloc r) (cr_queue r) (cr_created r) (cr_mem r) (g_cliThreadPool c);
     let p = p\<lparr>prog := c\<lparr>g_cliThreadPool := pool\<rparr>\<rparr>;
     let p = snd (CreateRecvServerMsgThread (cr_recv r) p);
     Some (snd (CreateClientInterfaceThread (cr_ui r) p)) }"

definition CliRecycleResource :: "client process \<Rightarrow> (nat list \<times> client process) option" where
  "CliRecycleResource p = do {
     (tids, _, pool) \<leftarrow> DestoryClientThreadPool (g_cliThreadPool (prog p));
     let c = snd (DestoryCliUdp ((prog p)\<lparr>g_cliThreadPool := pool\<rparr>));
     c \<leftarrow> DestoryCliFlag c;
     Some (tids, p\<lparr>prog := c\<rparr>) }"

section \<open>Before the modules\<close>

definition CliInitModulesManager :: "EndID \<Rightarrow> client process \<Rightarrow> client process" where
  "CliInitModulesManager pid p = p\<lparr>prog := (prog p)\<lparr>cliEndID := pid\<rparr>\<rparr>"

definition CliConfigPreInit :: "EndID \<Rightarrow> client process \<Rightarrow> client process" where
  "CliConfigPreInit pid p =
     (let p = CliInitModulesManager pid p; p = p\<lparr>log_lib := InitLogFile (log_lib p)\<rparr> in InitSignalsConfig p)"

definition SrvConfigPreInit :: "server process \<Rightarrow> server process" where
  "SrvConfigPreInit p =
     (let p = p\<lparr>prog := InitModulesManager (prog p)\<rparr>; p = p\<lparr>log_lib := InitLogFile (log_lib p)\<rparr> in InitSignalsConfig p)"

text \<open>The macro \<open>LocalDbgout\<close>: the log file is named on every use until it is open.\<close>

definition LocalDbgout ::
  "(string option \<Rightarrow> LogOp \<Rightarrow> LogOp option) \<Rightarrow> string option \<Rightarrow> log_env \<Rightarrow> string \<Rightarrow> nat \<Rightarrow> string \<Rightarrow> string \<Rightarrow> 'p process \<Rightarrow> 'p process option" where
  "LocalDbgout GetLogFile dir e file line func text p = do {
     lg \<leftarrow> GetLogFile dir (log_op p);
     (lg, d) \<leftarrow> Dbgout e lg file line func text (log_lib p);
     Some (p\<lparr>log_op := lg, log_lib := d\<rparr>) }"

text \<open>
  The macros that check the result of a call and log its failure; \<open>log\<close> is \<open>LocalDbgout\<close> at the place of use, \<open>err\<close> what
  \<open>strerror(errno)\<close> returns.
\<close>

definition CHECK_FUNCRET_ERR ::
  "(string \<Rightarrow> 'p process \<Rightarrow> 'p process option) \<Rightarrow> 'r \<Rightarrow> 'r \<Rightarrow> string \<Rightarrow> string \<Rightarrow> 'p process \<Rightarrow> (bool \<times> 'p process) option" where
  "CHECK_FUNCRET_ERR log ret errorRet errorInfo err p =
     (if ret = errorRet then do { p \<leftarrow> log (errorInfo @ '': '' @ err) p; Some (True, p) } else Some (False, p))"

definition CHECK_FUNCRET_SUC ::
  "(string \<Rightarrow> 'p process \<Rightarrow> 'p process option) \<Rightarrow> 'r \<Rightarrow> 'r \<Rightarrow> string \<Rightarrow> string \<Rightarrow> 'p process \<Rightarrow> (bool \<times> 'p process) option" where
  "CHECK_FUNCRET_SUC log ret successRet errorInfo err p =
     (if ret \<noteq> successRet then do { p \<leftarrow> log (errorInfo @ '': '' @ err) p; Some (True, p) } else Some (False, p))"

text \<open>\<open>main\<close> up to its waiting loop; \<open>src\<close> is the directory that \<open>__FILE__\<close> starts with.\<close>

definition udp_client_main :: "string \<Rightarrow> EndID \<Rightarrow> string option \<Rightarrow> log_env \<Rightarrow> cli_results \<Rightarrow> client process \<Rightarrow> client process option" where
  "udp_client_main src pid dir e r p = do {
     p \<leftarrow> LocalDbgout GetClientLogFile dir e (src @ ''/client.c'') 157 ''main'' ''start client'' (CliConfigPreInit pid p);
     CliInitModules r p }"

definition udp_server_main where
  "udp_server_main src dir e fd ep pl ep2 ok1 ok2 p = do {
     p \<leftarrow> LocalDbgout GetServerLogFile dir e (src @ ''/server.c'') 78 ''main'' ''start server'' (SrvConfigPreInit p);
     s \<leftarrow> InitModules fd ep pl ep2 ok1 ok2 (prog p);
     Some (p\<lparr>prog := s\<rparr>) }"

section \<open>Properties\<close>

text \<open>
  For a call with the two results success and failure the macros agree: a failure is logged once, a success
  changes nothing.
\<close>

lemma check_macros_agree:
  assumes "ret = good \<or> ret = bad" "good \<noteq> bad"
  shows "CHECK_FUNCRET_ERR log ret bad info err p = CHECK_FUNCRET_SUC log ret good info err p"
    "CHECK_FUNCRET_SUC log good good info err p = Some (False, p)"
    "CHECK_FUNCRET_SUC log bad good info err p = map_option (Pair True) (log (info @ '': '' @ err) p)"
  using assms by (auto simp: CHECK_FUNCRET_ERR_def CHECK_FUNCRET_SUC_def map_option_case split: bind_split option.split)

text \<open>The client before \<open>main\<close>.\<close>

definition new_udp_client :: client where
  "new_udp_client = \<lparr>cliEndID = 0, g_cliFlag = Null, cli_udpFd = 0, srvAddr = \<lparr>sin_port = 0, s_addr = 0\<rparr>,
     g_cliThreadPool = None, cli_sent = [], cli_shown = [], cli_closed = []\<rparr>"

definition results_ok :: "cli_results \<Rightarrow> bool" where
  "results_ok r \<longleftrightarrow> cr_flag r \<and> 2 < cr_socket r \<and> cr_sockopt r = 0 \<and> cr_malloc r \<and> cr_calloc r \<and> cr_recv r \<and> cr_ui r \<and>
     (\<forall>j < 2. cr_created r j) \<and> fresh (cr_mem r) (cr_queue r) \<and> NULL \<notin> live (cr_mem r)"

lemma CliInitModules_ok:
  assumes "results_ok r" "prog p = new_udp_client\<lparr>cliEndID := pid\<rparr>" "pr_threads p = []"
  shows "\<exists>p' pool. CliInitModules r p = Some p' \<and> g_cliFlag (prog p') = Ptr False \<and> cli_udpFd (prog p') = cr_socket r \<and>
    g_cliThreadPool (prog p') = Some pool \<and> curThreadsCnt pool = 2 \<and> pr_threads p' = [''RecvServerMsg'', ''CliUI''] \<and>
    cliEndID (prog p') = pid \<and> cli_closed (prog p') = [] \<and> log_lib p' = log_lib p \<and> on_sigpipe p' = on_sigpipe p \<and>
    (\<exists>p''. CliRecycleResource p' = Some ([1, 2], p'') \<and> g_cliThreadPool (prog p'') = None \<and>
       cli_closed (prog p'') = [cr_socket r] \<and> g_cliFlag (prog p'') = Ptr False)"
proof -
  obtain pool m' where pool: "CreateThreadPool True True (cr_queue r) (cr_created r) 2 5 (cr_mem r) = Some pool"
    "curThreadsCnt pool = min 2 5" "DestoryThreadPool (Some pool) = Some (map Suc [0..<min 2 5], Some m', None)"
    using create_destroy_pool [of "cr_mem r" "cr_queue r" 2 5 "cr_created r"] assms(1) by (auto simp: results_ok_def)
  show ?thesis
    using assms pool
    by (simp add: CliInitModules_def CliRecycleResource_def results_ok_def InitCliFlag_def InitClientUdp_def new_udp_client_def
        CreateClientThreadPool_def CreateRecvServerMsgThread_def CreateClientInterfaceThread_def DestoryClientThreadPool_def
        DestoryCliUdp_def DestoryCliFlag_def numeral_eq_Suc)
qed

text \<open>
  The client starts: it has its flag, its socket, its pool of two threads, its two own threads and a log with one line. Stopping it
  cancels the pool's threads and closes the socket, but the flag stays allocated.
\<close>

lemma udp_client_starts:
  assumes "results_ok r" "length d < 114" "ev_fopen e = Some (q, pos)" "q \<noteq> NULL" "streams fs q = None" "ev_freopen e" "ev_written e"
  shows "\<exists>p' pool. udp_client_main src pid (Some d) e r (new_process new_udp_client fs) = Some p' \<and> g_cliFlag (prog p') = Ptr False \<and>
    cli_udpFd (prog p') = cr_socket r \<and> g_cliThreadPool (prog p') = Some pool \<and> curThreadsCnt pool = 2 \<and> on_sigpipe p' \<and>
    pr_threads p' = [''RecvServerMsg'', ''CliUI''] \<and> cliEndID (prog p') = pid \<and>
    content (dbg_fs (log_lib p')) = (content fs)(d @ ''/logudpsrv.log'' :=
      log_line e ''[file:client.c, line:157, func:main]->start client'') \<and>
    (\<exists>p''. CliRecycleResource p' = Some ([1, 2], p'') \<and> cli_closed (prog p'') = [cr_socket r] \<and> g_cliFlag (prog p'') = Ptr False)"
proof -
  let ?p = "CliConfigPreInit pid (new_process new_udp_client fs)" and ?lg = "new_log\<lparr>filePath := d @ ''/logudpsrv.log''\<rparr>"
    and ?t = "''[file:client.c, line:157, func:main]->start client''"
  have lib: "log_lib ?p = \<lparr>initLogFile = True, dbg_fs = fs, dbg_stderr = []\<rparr>" "log_op ?p = new_log"
    "prog ?p = new_udp_client\<lparr>cliEndID := pid\<rparr>" "pr_threads ?p = []" "on_sigpipe ?p"
    by (simp_all add: CliConfigPreInit_def CliInitModulesManager_def InitSignalsConfig_def InitLogFile_def new_process_def Let_def)
  have path: "GetClientLogFile (Some d) new_log = Some ?lg"
    using assms(2) by (simp add: GetClientLogFile_def udp_log_path_def new_log_def)
  have "dec_nat 157 = ''157''" by code_simp
  moreover have "NodirStr (src @ CHR ''/'' # ''client.c'') = ''client.c''" using NodirStr_last_component(1) [of "''client.c''" src] by simp
  ultimately have line: "Dbgout e ?lg (src @ ''/client.c'') 157 ''main'' ''start client'' (log_lib ?p) = internal_dbgout e ?lg ?t (log_lib ?p)"
    by (simp add: Dbgout_def)
  have "log_ok ?lg (log_lib ?p)" "call_ok ?lg (log_lib ?p) (e, ?t)"
    using assms(3-7) lib(1) by (simp_all add: log_ok_def call_ok_def new_log_def)
  from internal_dbgout_ok [OF this] obtain lg' s' where log: "internal_dbgout e ?lg ?t (log_lib ?p) = Some (lg', s')"
    "content (dbg_fs s') = (content (dbg_fs (log_lib ?p)))(filePath ?lg := log_start ?lg (log_lib ?p) @ log_line e ?t)"
    by (elim exE conjE) (rule that; assumption)
  have main: "udp_client_main src pid (Some d) e r (new_process new_udp_client fs) = CliInitModules r (?p\<lparr>log_op := lg', log_lib := s'\<rparr>)"
    using path line log(1) lib(2) by (simp add: udp_client_main_def LocalDbgout_def)
  have "content (dbg_fs s') = (content fs)(d @ ''/logudpsrv.log'' := log_line e ?t)"
    using log(2) by (simp add: log_start_def lib(1))
  then show ?thesis
    using CliInitModules_ok [OF assms(1), of "?p\<lparr>log_op := lg', log_lib := s'\<rparr>" pid] lib(3-5) main by fastforce
qed

end
