(* ===== verification/Udp_Run.thy ===== *)
theory Udp_Run
  imports Udp_Server
begin

text \<open>
  The UDP server as a whole: any sequence of rounds of its event thread, rounds of its message thread and
  steps of its workers, against an abstract server that keeps a registry, a queue of messages, a list of
  tasks and the task each worker has in hand. A worker takes a task, receives a datagram and runs its
  handler in separate steps, so that the other threads, and the other workers, come in between.
\<close>

section \<open>The server's threads together\<close>

text \<open>
  A worker (\<open>ProcessTask\<close>) takes the oldest task and counts it; with no task it waits.
\<close>

definition take_task_udp :: "'t ThreadPool \<Rightarrow> ('t option \<times> 't ThreadPool) option" where
  "take_task_udp pool = do {
     (sRet, task, m) \<leftarrow> DeTaskQueue (taskQueue pool) (Some None) (tp_mem pool);
     task \<leftarrow> task;
     if sRet = QUEUE_EMPTY then Some (None, pool\<lparr>tp_mem := m\<rparr>)
     else if sRet = QUEUE_SUCCESS then do {
       t \<leftarrow> task;
       Some (Some t, pool\<lparr>tp_mem := m, curTaskCnt := curTaskCnt pool - 1\<rparr>) }
     else Some (None, pool\<lparr>tp_mem := m\<rparr>) }"

text \<open>
  What a worker has in hand: nothing, a task whose handler it is about to call, or, inside
  \<open>PorcessUdpMsg\<close>, what \<open>recvfrom\<close> has returned.
\<close>

datatype hand = H_Idle | H_Task srv_task | H_Rx "(byte list \<times> sockaddr_in) option"

text \<open>
  The three steps of worker \<open>i\<close>; a worker that is not at the step, or does not exist, does nothing. It
  takes a task:
\<close>

definition udp_take :: "nat \<Rightarrow> hand list \<Rightarrow> server \<Rightarrow> (hand list \<times> server) option" where
  "udp_take i hs s =
     (if i < length hs \<and> hs ! i = H_Idle then
        (case g_srvThreadPool s of
           None \<Rightarrow> Some (hs, s)
         | Some pool \<Rightarrow> do {
             (t, pool) \<leftarrow> take_task_udp pool;
             Some (case t of None \<Rightarrow> hs | Some t \<Rightarrow> hs[i := H_Task t], s\<lparr>g_srvThreadPool := Some pool\<rparr>) })
      else Some (hs, s))"

text \<open>it calls \<open>PorcessUdpMsg\<close>, whose \<open>recvfrom\<close> returns \<open>rx\<close>:\<close>

definition udp_recv :: "nat \<Rightarrow> (byte list \<times> sockaddr_in) option \<Rightarrow> hand list \<Rightarrow> hand list" where
  "udp_recv i rx hs =
     (if i < length hs then (case hs ! i of H_Task (Task_PorcessUdpMsg _) \<Rightarrow> hs[i := H_Rx rx] | _ \<Rightarrow> hs) else hs)"

text \<open>and it runs the handler to its end; \<open>rd\<close> is what \<open>read\<close> returns in \<open>ProcessStdin\<close>.\<close>

definition run_hand :: "allocs \<Rightarrow> nat option \<Rightarrow> hand \<Rightarrow> server \<Rightarrow> (hand \<times> server) option" where
  "run_hand al rd h s =
     (case h of
        H_Task (Task_ProcessStdin _) \<Rightarrow> Some (H_Idle, snd (ProcessStdin rd s))
      | H_Task (Task_SrvMsgProcessTask m) \<Rightarrow> map_option (\<lambda>(_, _, s). (H_Idle, s)) (SrvMsgProcessTask al (Some m) s)
      | H_Rx rx \<Rightarrow> map_option (\<lambda>(_, s). (H_Idle, s)) (PorcessUdpMsg al rx s)
      | h \<Rightarrow> Some (h, s))"

definition udp_exec :: "nat \<Rightarrow> allocs \<Rightarrow> nat option \<Rightarrow> hand list \<Rightarrow> server \<Rightarrow> (hand list \<times> server) option" where
  "udp_exec i al rd hs s =
     (if i < length hs then do { (h, s) \<leftarrow> run_hand al rd (hs ! i) s; Some (hs[i := h], s) } else Some (hs, s))"

text \<open>What happens next, with the results of the calls made in it. The message thread keeps its buffer between rounds.\<close>

datatype udp_event =
    U_Ready "(int \<times> bool \<times> addr) list option"
  | U_Turn allocs bool addr
  | U_Take nat
  | U_Recv nat "(byte list \<times> sockaddr_in) option"
  | U_Run nat allocs "nat option"

type_synonym udp_sys = "server \<times> LcMsg obj \<times> hand list"

fun udp_step :: "udp_event \<Rightarrow> udp_sys \<Rightarrow> udp_sys option" where
  "udp_step (U_Ready evs) (s, buf, hs) = do { s \<leftarrow> ServerEpollThread_round evs s; Some (s, buf, hs) }"
| "udp_step (U_Turn al tok p) (s, buf, hs) = do { (buf, s) \<leftarrow> SrvMsgProcessThread_round al tok p buf s; Some (s, buf, hs) }"
| "udp_step (U_Take i) (s, buf, hs) = do { (hs, s) \<leftarrow> udp_take i hs s; Some (s, buf, hs) }"
| "udp_step (U_Recv i rx) (s, buf, hs) = Some (s, buf, udp_recv i rx hs)"
| "udp_step (U_Run i al rd) (s, buf, hs) = do { (hs, s) \<leftarrow> udp_exec i al rd hs s; Some (s, buf, hs) }"

fun udp_run :: "udp_event list \<Rightarrow> udp_sys \<Rightarrow> udp_sys option" where
  "udp_run [] st = Some st"
| "udp_run (ev # evs) st = do { st \<leftarrow> udp_step ev st; udp_run evs st }"

section \<open>The abstract server\<close>

record uspec =
  us_fd :: int
  us_table :: "(EndID \<times> sockaddr_in) list"
  us_queue :: "LcMsg list"
  us_tasks :: "srv_task list"
  us_hands :: "hand list"
  us_sent :: "datagram list"
  us_shown :: "msg_out list"

text \<open>
  A datagram: a registration is entered and answered, a data message is queued, anything else is dropped.
\<close>

definition is_registration :: "LcMsg \<Rightarrow> bool" where
  "is_registration b \<longleftrightarrow> msgType b = SaveCliInfo \<and> destEndID b = SETVER_ENDID"

definition uspec_datagram :: "(byte list \<times> sockaddr_in) option \<Rightarrow> uspec \<Rightarrow> uspec" where
  "uspec_datagram rx x =
     (case rx of
        None \<Rightarrow> x
      | Some (bytes, A) \<Rightarrow> let b = rx_buffer bytes in
          if bytes = [] then x
          else if is_registration b then
            x\<lparr>us_table := (srcEndID b, A) # us_table x,
              us_sent := us_sent x @ [\<lparr>dg_fd = us_fd x, dg_bytes = reg_reply SETVER_ENDID (srcEndID b), dg_to = A\<rparr>]\<rparr>
          else if msgType b = DataMsg then x\<lparr>us_queue := us_queue x @ [b]\<rparr>
          else x)"

text \<open>A message: shown when it is for the server, sent on to the newest entry of its destination; without one, a fault.\<close>

definition uspec_message :: "LcMsg \<Rightarrow> uspec \<Rightarrow> uspec option" where
  "uspec_message m x =
     (if msgType m \<noteq> DataMsg then Some x
      else if destEndID m = SETVER_ENDID then Some (x\<lparr>us_shown := us_shown x @ [DisplayMsgBuf m]\<rparr>)
      else map_option (\<lambda>A. x\<lparr>us_sent := us_sent x @ [\<lparr>dg_fd = us_fd x, dg_bytes = m, dg_to = A\<rparr>]\<rparr>)
        (map_of (us_table x) (destEndID m)))"

definition ready_task :: "int \<Rightarrow> int \<Rightarrow> srv_task list" where
  "ready_task udp fd =
     (if fd = 0 then [Task_ProcessStdin (fd_bytes fd)] else if fd = udp then [Task_PorcessUdpMsg (fd_bytes fd)] else [])"

fun uspec_step :: "udp_event \<Rightarrow> uspec \<Rightarrow> uspec option" where
  "uspec_step (U_Ready evs) x =
     (case evs of None \<Rightarrow> Some x
      | Some evs \<Rightarrow> Some (x\<lparr>us_tasks := us_tasks x @ concat (map (\<lambda>(fd, _). ready_task (us_fd x) fd) evs)\<rparr>))"
| "uspec_step (U_Turn al tok p) x =
     (case us_queue x of [] \<Rightarrow> Some x
      | b # ms \<Rightarrow> Some (x\<lparr>us_queue := ms, us_tasks := us_tasks x @ [Task_SrvMsgProcessTask b]\<rparr>))"
| "uspec_step (U_Take i) x =
     (if i < length (us_hands x) \<and> us_hands x ! i = H_Idle then
        (case us_tasks x of [] \<Rightarrow> Some x
         | t # ts \<Rightarrow> Some (x\<lparr>us_tasks := ts, us_hands := (us_hands x)[i := H_Task t]\<rparr>))
      else Some x)"
| "uspec_step (U_Recv i rx) x = Some (x\<lparr>us_hands := udp_recv i rx (us_hands x)\<rparr>)"
| "uspec_step (U_Run i al rd) x =
     (if i < length (us_hands x) then
        let fin = x\<lparr>us_hands := (us_hands x)[i := H_Idle]\<rparr> in
          (case us_hands x ! i of
             H_Task (Task_ProcessStdin _) \<Rightarrow> Some fin
           | H_Task (Task_SrvMsgProcessTask m) \<Rightarrow> uspec_message m fin
           | H_Rx rx \<Rightarrow> Some (uspec_datagram rx fin)
           | _ \<Rightarrow> Some x)
      else Some x)"

fun uspec_run :: "udp_event list \<Rightarrow> uspec \<Rightarrow> uspec option" where
  "uspec_run [] x = Some x"
| "uspec_run (ev # evs) x = do { x \<leftarrow> uspec_step ev x; uspec_run evs x }"

section \<open>Refinement\<close>

fun task_wf :: "srv_task \<Rightarrow> bool" where
  "task_wf (Task_SrvMsgProcessTask m) = wf_msg m"
| "task_wf _ = True"

fun hand_wf :: "hand \<Rightarrow> bool" where
  "hand_wf (H_Task t) = task_wf t"
| "hand_wf _ = True"

definition udp_state :: "udp_sys \<Rightarrow> uspec \<Rightarrow> bool" where
  "udp_state st x \<longleftrightarrow> srv_rep (fst st) (us_table x) (us_queue x) (us_tasks x) \<and> udpFd (fst st) = us_fd x \<and>
     LcEndID (fst st) = SETVER_ENDID \<and> sent (fst st) = us_sent x \<and> shown (fst st) = us_shown x \<and>
     snd (snd st) = us_hands x \<and>
     (\<forall>m \<in> set (us_queue x). wf_msg m) \<and> (\<forall>t \<in> set (us_tasks x). task_wf t) \<and> (\<forall>h \<in> set (us_hands x). hand_wf h)"

text \<open>The blocks that are in use, and the addresses an event brings.\<close>

definition udp_srv_uses :: "server \<Rightarrow> addr set" where
  "udp_srv_uses s = live (cl_mem (clients s)) \<union> live (ch_mem (channel s)) \<union>
     (case g_srvThreadPool s of None \<Rightarrow> {} | Some pool \<Rightarrow> live (tp_mem pool))"

fun event_addrs :: "udp_event \<Rightarrow> addr list" where
  "event_addrs (U_Ready evs) = (case evs of None \<Rightarrow> [] | Some evs \<Rightarrow> map (snd \<circ> snd) evs)"
| "event_addrs (U_Turn al tok p) = [al_mqhead al, p]"
| "event_addrs (U_Run i al rd) = [al_clhead al, al_clnode al, al_mqhead al, al_mqnode al]"
| "event_addrs _ = []"

fun event_mem_ok :: "udp_event \<Rightarrow> bool" where
  "event_mem_ok (U_Ready evs) = (case evs of None \<Rightarrow> True | Some evs \<Rightarrow> \<forall>(_, ok, _) \<in> set evs. ok)"
| "event_mem_ok (U_Turn al tok p) = (al_mqok al \<and> tok)"
| "event_mem_ok (U_Run i al rd) = (al_clok al \<and> al_mqok al)"
| "event_mem_ok _ = True"

text \<open>The allocator's part: no allocation fails, and no address is handed out twice or while it is in use.\<close>

definition udp_mem_ok :: "udp_event list \<Rightarrow> server \<Rightarrow> bool" where
  "udp_mem_ok evs s \<longleftrightarrow> (\<forall>ev \<in> set evs. event_mem_ok ev) \<and> distinct (concat (map event_addrs evs)) \<and>
     set (concat (map event_addrs evs)) \<inter> insert NULL (udp_srv_uses s) = {}"

lemma rx_buffer_is_wf [simp]: "wf_msg (rx_buffer bytes)"
  by (simp add: rx_buffer_def wf_msg_def)

lemma PorcessUdpMsg_buffer:
  "bytes \<noteq> [] \<Longrightarrow> PorcessUdpMsg al (Some (bytes, A)) s = PorcessUdpMsg al (Some (rx_buffer bytes, A)) s"
  using wf_nonempty [OF rx_buffer_is_wf, of bytes] by (simp add: PorcessUdpMsg_def)

subsection \<open>Blocks in use\<close>

lemma udp_task_queue_live:
  "EnTaskQueue q t p m = Some (r, m') \<Longrightarrow> live m' \<subseteq> insert p (live m)"
  "DeTaskQueue q out m = Some (r, out', m') \<Longrightarrow> live m' \<subseteq> live m"
proof -
  show "EnTaskQueue q t p m = Some (r, m') \<Longrightarrow> live m' \<subseteq> insert p (live m)"
    using writes_live(4) [of p m]
    by (fastforce simp: EnTaskQueue_def Let_def bind_eq_Some_conv split: option.splits if_splits
        dest!: writes_live(3) list_ops_live(1))
  show "DeTaskQueue q out m = Some (r, out', m') \<Longrightarrow> live m' \<subseteq> live m"
    by (fastforce simp: DeTaskQueue_def bind_eq_Some_conv split: if_splits dest!: writes_live(5) list_ops_live(3))
qed

lemmas udp_msg_queue_live = udp_task_queue_live [unfolded task_msg_same]

definition pool_live :: "'t ThreadPool option \<Rightarrow> addr set" where
  "pool_live tp = (case tp of None \<Rightarrow> {} | Some pool \<Rightarrow> live (tp_mem pool))"

lemma AddTaskToPool_live: "AddTaskToPool tp t p = Some (r, tp') \<Longrightarrow> pool_live tp' \<subseteq> insert p (pool_live tp)"
  by (auto simp: AddTaskToPool_def pool_live_def bind_eq_Some_conv split: option.splits if_splits
      dest!: udp_task_queue_live(1))

lemma take_task_live: "take_task_udp pool = Some (t, pool') \<Longrightarrow> live (tp_mem pool') \<subseteq> live (tp_mem pool)"
  by (auto simp: take_task_udp_def bind_eq_Some_conv split: if_splits dest!: udp_task_queue_live(2))

lemma init_list_live:
  "InitCliInfoList ok hp c = Some c' \<Longrightarrow> live (cl_mem c') \<subseteq> insert hp (live (cl_mem c))"
  "InitSrvMsgQueue ok hp ch = Some ch' \<Longrightarrow> live (ch_mem ch') \<subseteq> insert hp (live (ch_mem ch))"
  using writes_live(4) [of hp "cl_mem c"] writes_live(4) [of hp "ch_mem ch"]
  by (auto simp: InitCliInfoList_def InitSrvMsgQueue_def bind_eq_Some_conv split: if_splits dest!: list_ops_live(4))

lemma AddNode_live:
  assumes "AddNodeToCliInfoList ok hp np k A c = Some c'"
  shows "live (cl_mem c') \<subseteq> {hp, np} \<union> live (cl_mem c)"
proof -
  obtain c1 m1 h m2 where 1: "(if g_clisInfoList c = Null then InitCliInfoList ok hp c else Some c) = Some c1"
    "wr_data np (Some \<lparr>cliID = k, cliAddr = A\<rparr>) (mem_malloc np (cl_mem c1)) = Some m1" "list_add np h m1 = Some m2"
    "Some (c1\<lparr>cl_mem := m2\<rparr>) = Some c'"
    using assms unfolding AddNodeToCliInfoList_def bind_eq_Some_conv by (elim exE conjE) (rule that; assumption)
  have "live (cl_mem c1) \<subseteq> insert hp (live (cl_mem c))"
    using 1(1) init_list_live(1) [of ok hp c c1] by (auto split: if_splits)
  then show ?thesis using writes_live(3) [OF 1(2)] list_ops_live(2) [OF 1(3)] 1(4) writes_live(4) [of np "cl_mem c1"] by auto
qed

lemma GetNode_live:
  "GetCliInfoNodeByCliID ok hp k c = Some (node, c') \<Longrightarrow> live (cl_mem c') \<subseteq> insert hp (live (cl_mem c))"
  using init_list_live(1) [of ok hp c]
  by (auto simp: GetCliInfoNodeByCliID_def internal_GetCliInfoNodeByCliID_def bind_eq_Some_conv split: if_splits)

lemma udp_srv_queue_live:
  "EnSrvMsgQueue ok hp p d ch = Some (r, ch') \<Longrightarrow> live (ch_mem ch') \<subseteq> {hp, p} \<union> live (ch_mem ch)"
  "DeSrvMsgQueue ok hp out ch = Some (r, out', ch') \<Longrightarrow> live (ch_mem ch') \<subseteq> insert hp (live (ch_mem ch))"
  using init_list_live(2) [of ok hp ch]
  by (fastforce simp: EnSrvMsgQueue_def DeSrvMsgQueue_def bind_eq_Some_conv split: if_splits
      dest!: udp_msg_queue_live)+

lemma dispatch_live:
  "dispatch_events evs s = Some s' \<Longrightarrow> udp_srv_uses s' \<subseteq> udp_srv_uses s \<union> set (map (snd \<circ> snd) evs)"
proof (induction evs s rule: dispatch_events.induct)
  case (2 fd ok p evs s)
  have add: "udp_srv_uses (s\<lparr>g_srvThreadPool := pool\<rparr>) \<subseteq> insert p (udp_srv_uses s)"
    if "AddTaskToServerPoolReleaseArgMem ok mk bs n (g_srvThreadPool s) p = Some (r, pool)" for mk bs n r pool
    using that AddTaskToPool_live [of "g_srvThreadPool s" _ p r pool]
    by (auto simp: AddTaskToServerPoolReleaseArgMem_def bind_eq_Some_conv udp_srv_uses_def pool_live_def split: if_splits)
  show ?case
    using 2 add by (fastforce simp: bind_eq_Some_conv split: if_splits)
qed simp

lemma hand_uses:
  assumes "run_hand al rd h s = Some (h', s')"
  shows "udp_srv_uses s' \<subseteq> udp_srv_uses s \<union> {al_clhead al, al_clnode al, al_mqhead al, al_mqnode al}"
proof (cases h)
  case H_Idle
  then show ?thesis using assms by (auto simp: run_hand_def)
next
  case (H_Task t)
  show ?thesis
  proof (cases t)
    case (Task_ProcessStdin b)
    then show ?thesis using assms H_Task by (auto simp: run_hand_def ProcessStdin_def split: option.splits)
  next
    case (Task_PorcessUdpMsg b)
    then show ?thesis using assms H_Task by (auto simp: run_hand_def)
  next
    case (Task_SrvMsgProcessTask m)
    then show ?thesis using assms H_Task GetNode_live
      by (fastforce simp: run_hand_def SrvMsgProcessTask_def bind_eq_Some_conv udp_srv_uses_def split: if_splits)
  qed
next
  case (H_Rx rx)
  then show ?thesis using assms AddNode_live udp_srv_queue_live(1)
    by (fastforce simp: run_hand_def PorcessUdpMsg_def Let_def bind_eq_Some_conv udp_srv_uses_def split: option.splits if_splits)
qed

lemma udp_take_uses: "udp_take i hs s = Some (hs', s') \<Longrightarrow> udp_srv_uses s' \<subseteq> udp_srv_uses s"
  by (auto simp: udp_take_def bind_eq_Some_conv udp_srv_uses_def split: if_splits option.splits dest!: take_task_live) blast+

lemma udp_step_uses:
  assumes "udp_step ev st = Some st'"
  shows "udp_srv_uses (fst st') \<subseteq> udp_srv_uses (fst st) \<union> set (event_addrs ev)"
proof -
  obtain s buf hs where st: "st = (s, buf, hs)" by (cases st) auto
  show ?thesis
  proof (cases ev)
    case (U_Ready evs)
    then show ?thesis using assms st dispatch_live
      by (fastforce simp: ServerEpollThread_round_def bind_eq_Some_conv split: option.splits)
  next
    case (U_Turn al tok p)
    then show ?thesis using assms st udp_srv_queue_live(2) AddTaskToPool_live [of "g_srvThreadPool s" _ p]
      by (fastforce simp: SrvMsgProcessThread_round_def AddTaskToServerPoolReleaseArgMem_def bind_eq_Some_conv Let_def udp_srv_uses_def pool_live_def split: if_splits)
  next
    case (U_Take i)
    then show ?thesis using assms st udp_take_uses [of i hs s] by (fastforce simp: bind_eq_Some_conv)
  next
    case (U_Recv i rx)
    then show ?thesis using assms st by auto
  next
    case (U_Run i al rd)
    then show ?thesis using assms st hand_uses [of al rd]
      by (fastforce simp: udp_exec_def bind_eq_Some_conv split: if_splits)
  qed
qed

subsection \<open>Each event\<close>

lemma length_fd_bytes_udp: "buf_read (fd_bytes fd) 0 4 = Some (fd_bytes fd)"
  by (simp add: buf_read_def fd_bytes_def bytes_of_word_def)

lemma post_ok:
  assumes "srv_rep s tb q ts" "p \<noteq> NULL" "p \<notin> udp_srv_uses s" "buf_read bs 0 n = Some b"
  shows "\<exists>pool. AddTaskToServerPoolReleaseArgMem True mk bs n (g_srvThreadPool s) p = Some (0, pool) \<and>
    srv_rep (s\<lparr>g_srvThreadPool := pool\<rparr>) tb q (ts @ [mk b]) \<and>
    udp_srv_uses (s\<lparr>g_srvThreadPool := pool\<rparr>) \<subseteq> insert p (udp_srv_uses s)"
proof -
  have "\<And>pool. g_srvThreadPool s = Some pool \<Longrightarrow> fresh (tp_mem pool) p"
    using assms(2,3) by (auto simp: udp_srv_uses_def fresh_def)
  then obtain pool where p: "AddTaskToPool (g_srvThreadPool s) (mk b) p = Some (0, pool)" "pool_holds pool (ts @ [mk b])"
    using AddTaskToPool_ok [of "g_srvThreadPool s" ts p "mk b"] assms(1) by (auto simp: srv_rep_def)
  have "udp_srv_uses (s\<lparr>g_srvThreadPool := pool\<rparr>) \<subseteq> insert p (udp_srv_uses s)"
    using AddTaskToPool_live [OF p(1)] by (auto simp: udp_srv_uses_def pool_live_def)
  then show ?thesis
    using p assms(1,4) by (simp add: AddTaskToServerPoolReleaseArgMem_def srv_rep_def)
qed

lemma dispatch_ok:
  assumes "srv_rep s tb q ts" "\<forall>(_, ok, _) \<in> set evs. ok" "distinct (map (snd \<circ> snd) evs)"
    "set (map (snd \<circ> snd) evs) \<inter> insert NULL (udp_srv_uses s) = {}"
  shows "\<exists>pool. dispatch_events evs s = Some (s\<lparr>g_srvThreadPool := pool\<rparr>) \<and>
    srv_rep (s\<lparr>g_srvThreadPool := pool\<rparr>) tb q (ts @ concat (map (\<lambda>(fd, _). ready_task (udpFd s) fd) evs))"
  using assms
proof (induction evs arbitrary: s ts)
  case Nil
  then show ?case by (intro exI [of _ "g_srvThreadPool s"]) simp
next
  case (Cons e evs)
  obtain fd ok p where e: "e = (fd, ok, p)" by (cases e) auto
  show ?case
  proof (cases "fd = 0 \<or> fd = udpFd s")
    case False
    then show ?thesis using Cons.IH [OF Cons.prems(1)] Cons.prems e by (simp add: ready_task_def)
  next
    case True
    define mk where "mk = (if fd = 0 then Task_ProcessStdin else Task_PorcessUdpMsg)"
    have p: "p \<noteq> NULL" "p \<notin> udp_srv_uses s" "ok" using Cons.prems(2,4) e by auto
    obtain pool where 1: "AddTaskToServerPoolReleaseArgMem True mk (fd_bytes fd) 4 (g_srvThreadPool s) p = Some (0, pool)"
      "srv_rep (s\<lparr>g_srvThreadPool := pool\<rparr>) tb q (ts @ [mk (fd_bytes fd)])"
      "udp_srv_uses (s\<lparr>g_srvThreadPool := pool\<rparr>) \<subseteq> insert p (udp_srv_uses s)"
      using post_ok [OF Cons.prems(1) p(1,2) length_fd_bytes_udp, of mk fd] by blast
    have "dispatch_events (e # evs) s = dispatch_events evs (s\<lparr>g_srvThreadPool := pool\<rparr>)"
      using True 1(1) p(3) e by (auto simp: mk_def)
    moreover have r: "ready_task (udpFd s) fd = [mk (fd_bytes fd)]" using True by (auto simp: ready_task_def mk_def)
    moreover have "p \<notin> set (map (snd \<circ> snd) evs)" "set (map (snd \<circ> snd) evs) \<inter> insert NULL (udp_srv_uses s) = {}"
      using Cons.prems(3,4) e by auto
    then have "set (map (snd \<circ> snd) evs) \<inter> insert NULL (udp_srv_uses (s\<lparr>g_srvThreadPool := pool\<rparr>)) = {}"
      using 1(3) by blast
    then obtain pool' where "dispatch_events evs (s\<lparr>g_srvThreadPool := pool\<rparr>) = Some (s\<lparr>g_srvThreadPool := pool'\<rparr>)"
      "srv_rep (s\<lparr>g_srvThreadPool := pool'\<rparr>) tb q ((ts @ [mk (fd_bytes fd)]) @ concat (map (\<lambda>(fd, _). ready_task (udpFd s) fd) evs))"
      using Cons.IH [OF 1(2)] Cons.prems(2,3) e by auto
    ultimately show ?thesis using e by auto
  qed
qed

lemma DeSrvMsgQueue_ok0:
  assumes "ch_rep0 ch []" "hp \<noteq> NULL" "hp \<notin> live (ch_mem ch)"
  shows "\<exists>ch'. DeSrvMsgQueue True hp out ch = Some (QUEUE_EMPTY, out, ch') \<and> ch_rep0 ch' []"
proof -
  have "fresh (ch_mem ch) hp" using assms(2,3) by (simp add: fresh_def)
  then obtain c1 where c1: "(if g_queue ch = Null then InitSrvMsgQueue True hp ch else Some ch) = Some c1" "ch_rep c1 []"
    using srv_init_ok [OF assms(1)] by blast
  then show ?thesis
    using DeSrvMsgQueue_empty [OF c1(2), of True hp out] ch_rep_null [OF c1(2)]
    by (auto simp: DeSrvMsgQueue_def ch_rep0_def)
qed

lemma take_task_udp_ok:
  assumes "pool_holds (Some pool) ts"
  shows "case ts of [] \<Rightarrow> take_task_udp pool = Some (None, pool)
    | t # ts' \<Rightarrow> \<exists>pool'. take_task_udp pool = Some (Some t, pool') \<and> pool_holds (Some pool') ts'"
proof -
  obtain xs where q: "qnodes (tp_mem pool) (taskQueue pool) xs" "qdata (tp_mem pool) xs = map Some ts"
    using assms by (auto simp: pool_holds_def)
  show ?thesis
  proof (cases ts)
    case Nil
    then have "xs = []" using q(2) by (simp add: qdata_def)
    then show ?thesis using udptaskq.deq_empty [of "tp_mem pool" "taskQueue pool"] q(1) Nil by (simp add: take_task_udp_def)
  next
    case (Cons t ts')
    then obtain x xs' where x: "xs = x # xs'" "dataf (tp_mem pool) x = Some t" "qdata (tp_mem pool) xs' = map Some ts'"
      using q(2) by (cases xs) (auto simp: qdata_def)
    obtain m where m: "DeTaskQueue (taskQueue pool) (Some None) (tp_mem pool) = Some (QUEUE_SUCCESS, Some (Some t), m)"
      "qnodes m (taskQueue pool) xs'" "qdata m xs' = qdata (tp_mem pool) xs'"
      using udptaskq.deq_ok [of "tp_mem pool" "taskQueue pool" x xs' "Some None"] q(1) x(1,2) by auto
    then show ?thesis using Cons x(3) by (auto simp: take_task_udp_def pool_holds_def)
  qed
qed

lemma unused_allocs:
  assumes "event_mem_ok (U_Run i al rd)" "distinct (event_addrs (U_Run i al rd))"
    "set (event_addrs (U_Run i al rd)) \<inter> insert NULL (udp_srv_uses s) = {}"
  shows "allocs_ok al s" "cl_alloc_ok al (clients s)"
  using assms by (auto simp: allocs_ok_def cl_alloc_ok_def cl_ok_def fresh_def udp_srv_uses_def)

lemma datagram_ok:
  assumes "udp_state (s, buf, hs) x" "allocs_ok al s"
  shows "\<exists>r s'. PorcessUdpMsg al rx s = Some (r, s') \<and> udp_state (s', buf, hs) (uspec_datagram rx x)"
proof -
  have rep: "srv_rep s (us_table x) (us_queue x) (us_tasks x)" and k: "LcEndID s = SETVER_ENDID" "udpFd s = us_fd x"
    using assms(1) by (simp_all add: udp_state_def)
  consider "rx = None \<or> (\<exists>A. rx = Some ([], A))" | bytes A where "rx = Some (bytes, A)" "bytes \<noteq> []" by (cases rx) auto
  then show ?thesis
  proof cases
    case 1
    then show ?thesis using assms(1) by (auto simp: PorcessUdpMsg_def uspec_datagram_def)
  next
    case (2 bytes A)
    let ?b = "rx_buffer bytes"
    consider "is_registration ?b" | "\<not> is_registration ?b" "msgType ?b = DataMsg" | "\<not> is_registration ?b" "msgType ?b \<noteq> DataMsg" by blast
    then show ?thesis
    proof cases
      case 1
      then obtain s' where "PorcessUdpMsg al (Some (?b, A)) s = Some (True, s')" "srv_rep s' ((srcEndID ?b, A) # us_table x) (us_queue x) (us_tasks x)"
        "sent s' = sent s @ [\<lparr>dg_fd = udpFd s, dg_bytes = reg_reply (LcEndID s) (srcEndID ?b), dg_to = A\<rparr>]"
        "udpFd s' = udpFd s" "LcEndID s' = LcEndID s" "shown s' = shown s"
        using PorcessUdpMsg_register [OF rep assms(2) rx_buffer_is_wf, of bytes A] k(1) by (auto simp: is_registration_def)
      then show ?thesis
        using 1 2 assms(1) PorcessUdpMsg_buffer [OF 2(2)] k by (auto simp add: uspec_datagram_def udp_state_def Let_def)
    next
      case data: 2
      obtain s' where "PorcessUdpMsg al (Some (?b, A)) s = Some (True, s')" "srv_rep s' (us_table x) (us_queue x @ [?b]) (us_tasks x)"
        "sent s' = sent s" "udpFd s' = udpFd s" "LcEndID s' = LcEndID s" "shown s' = shown s"
        using PorcessUdpMsg_data [OF rep assms(2) rx_buffer_is_wf data(2), of A] by auto
      then show ?thesis
        using data 2 assms(1) PorcessUdpMsg_buffer [OF 2(2)] by (auto simp: uspec_datagram_def udp_state_def Let_def)
    next
      case 3
      then have "PorcessUdpMsg al rx s = Some (True, s)" "uspec_datagram rx x = x"
        using 2 k(1) by (auto simp: PorcessUdpMsg_def uspec_datagram_def is_registration_def Let_def)
      then show ?thesis using assms(1) by auto
    qed
  qed
qed

lemma message_ok:
  assumes "udp_state (s, buf, hs) x" "cl_alloc_ok al (clients s)"
  shows "case uspec_message m x of
      Some x' \<Rightarrow> \<exists>r f s'. SrvMsgProcessTask al (Some m) s = Some (r, f, s') \<and> udp_state (s', buf, hs) x'
    | None \<Rightarrow> SrvMsgProcessTask al (Some m) s = None"
proof -
  have rep: "srv_rep s (us_table x) (us_queue x) (us_tasks x)" using assms(1) by (simp add: udp_state_def)
  consider "msgType m \<noteq> DataMsg" | "msgType m = DataMsg" "destEndID m = SETVER_ENDID"
    | "msgType m = DataMsg" "destEndID m \<noteq> SETVER_ENDID" by blast
  then show ?thesis
  proof cases
    case 1
    then show ?thesis using assms(1) by (auto simp: uspec_message_def SrvMsgProcessTask_def)
  next
    case 2
    then show ?thesis using assms(1) by (auto simp: uspec_message_def SrvMsgProcessTask_def udp_state_def srv_rep_def)
  next
    case 3
    show ?thesis
    proof (cases "map_of (us_table x) (destEndID m)")
      case None
      then show ?thesis using SrvMsgProcessTask_fault [OF rep assms(2) 3] 3 by (simp add: uspec_message_def)
    next
      case (Some A)
      then show ?thesis using SrvMsgProcessTask_forward [OF rep assms(2) 3 Some] 3 assms(1)
        by (auto simp: uspec_message_def udp_state_def)
    qed
  qed
qed

text \<open>What a worker's step does to its hand.\<close>

lemma hand_update:
  assumes "udp_state (s, buf, hs) x" "hand_wf h"
  shows "udp_state (s, buf, hs[i := h]) (x\<lparr>us_hands := (us_hands x)[i := h]\<rparr>)"
  using assms set_update_subset_insert [of "us_hands x" i h] by (auto simp: udp_state_def)

lemma hand_wf_recv: "\<forall>h \<in> set hs. hand_wf h \<Longrightarrow> \<forall>h \<in> set (udp_recv i rx hs). hand_wf h"
  using set_update_subset_insert [of hs i "H_Rx rx"]
  by (auto simp: udp_recv_def split: hand.splits srv_task.splits)

lemma take_ok:
  assumes "udp_state (s, buf, hs) x"
  shows "\<exists>hs' s' x'. udp_take i hs s = Some (hs', s') \<and> uspec_step (U_Take i) x = Some x' \<and> udp_state (s', buf, hs') x'"
proof (cases "i < length hs \<and> hs ! i = H_Idle")
  case False
  moreover have "hs = us_hands x" using assms by (simp add: udp_state_def)
  ultimately show ?thesis using assms by (auto simp: udp_take_def)
next
  case True
  have hs: "hs = us_hands x" using assms by (simp add: udp_state_def)
  obtain pool where pool: "g_srvThreadPool s = Some pool" "pool_holds (Some pool) (us_tasks x)"
    using assms by (auto simp: udp_state_def srv_rep_def pool_holds_def)
  show ?thesis
  proof (cases "us_tasks x")
    case Nil
    then have "udp_take i hs s = Some (hs, s\<lparr>g_srvThreadPool := Some pool\<rparr>)"
      using take_task_udp_ok [OF pool(2)] pool(1) True by (simp add: udp_take_def)
    moreover have "s\<lparr>g_srvThreadPool := Some pool\<rparr> = s" using pool(1) by simp
    ultimately show ?thesis using Nil True hs assms by simp
  next
    case (Cons t ts)
    obtain pool' where p: "take_task_udp pool = Some (Some t, pool')" "pool_holds (Some pool') ts"
      using take_task_udp_ok [OF pool(2)] Cons by auto
    let ?s = "s\<lparr>g_srvThreadPool := Some pool'\<rparr>"
    have "udp_state (?s, buf, hs) (x\<lparr>us_tasks := ts\<rparr>)" "hand_wf (H_Task t)"
      using assms p(2) Cons by (auto simp: udp_state_def srv_rep_def)
    then have "udp_state (?s, buf, hs[i := H_Task t]) (x\<lparr>us_tasks := ts, us_hands := (us_hands x)[i := H_Task t]\<rparr>)"
      using hand_update [of ?s buf hs "x\<lparr>us_tasks := ts\<rparr>"] by simp
    then show ?thesis using True hs pool(1) p(1) Cons by (simp add: udp_take_def)
  qed
qed

definition refines :: "udp_sys option \<Rightarrow> uspec option \<Rightarrow> bool" where
  "refines r a \<longleftrightarrow> (case a of None \<Rightarrow> r = None | Some x \<Rightarrow> \<exists>st. r = Some st \<and> udp_state st x)"

lemma exec_ok:
  assumes "udp_state (s, buf, hs) x" "allocs_ok al s" "cl_alloc_ok al (clients s)"
  shows "refines (map_option (\<lambda>(hs, s). (s, buf, hs)) (udp_exec i al rd hs s)) (uspec_step (U_Run i al rd) x)"
proof (cases "i < length hs")
  case False
  moreover have "hs = us_hands x" using assms(1) by (simp add: udp_state_def)
  ultimately show ?thesis using assms(1) by (simp add: udp_exec_def refines_def)
next
  case True
  have hs: "us_hands x = hs" using assms(1) by (simp add: udp_state_def)
  let ?hs = "hs[i := H_Idle]" and ?x = "x\<lparr>us_hands := hs[i := H_Idle]\<rparr>"
  have idle: "udp_state (s, buf, ?hs) ?x" using hand_update [OF assms(1), of H_Idle i] hs by simp
  show ?thesis
  proof (cases "hs ! i")
    case H_Idle
    then show ?thesis using True hs assms(1) list_update_id [of hs i]
      by (simp add: udp_exec_def run_hand_def refines_def)
  next
    case (H_Rx rx)
    obtain r s' where "PorcessUdpMsg al rx s = Some (r, s')" "udp_state (s', buf, ?hs) (uspec_datagram rx ?x)"
      using datagram_ok [OF idle assms(2)] by blast
    then show ?thesis using H_Rx True hs by (simp add: udp_exec_def run_hand_def refines_def)
  next
    case (H_Task t)
    show ?thesis
    proof (cases t)
      case (Task_ProcessStdin b)
      then show ?thesis using H_Task True hs idle
        by (simp add: udp_exec_def run_hand_def refines_def ProcessStdin_def split: option.splits)
    next
      case (Task_PorcessUdpMsg b)
      then show ?thesis using H_Task True hs assms(1) list_update_id [of hs i]
        by (simp add: udp_exec_def run_hand_def refines_def)
    next
      case (Task_SrvMsgProcessTask m)
      then show ?thesis using H_Task True hs message_ok [OF idle assms(3), of m]
        by (auto simp: udp_exec_def run_hand_def refines_def split: option.splits)
    qed
  qed
qed

text \<open>One event.\<close>

lemma udp_step_refines:
  assumes "udp_state st x" "event_mem_ok ev" "distinct (event_addrs ev)" "set (event_addrs ev) \<inter> insert NULL (udp_srv_uses (fst st)) = {}"
  shows "refines (udp_step ev st) (uspec_step ev x)"
proof -
  obtain s buf hs where st: "st = (s, buf, hs)" by (cases st) auto
  have hs: "hs = us_hands x" using assms(1) st by (simp add: udp_state_def)
  have rep: "srv_rep s (us_table x) (us_queue x) (us_tasks x)" using assms(1) st by (simp add: udp_state_def)
  show ?thesis
  proof (cases ev)
    case (U_Ready evs)
    show ?thesis
    proof (cases evs)
      case None
      then show ?thesis using U_Ready assms(1) st by (simp add: refines_def ServerEpollThread_round_def)
    next
      case (Some es)
      obtain pool where "dispatch_events es s = Some (s\<lparr>g_srvThreadPool := pool\<rparr>)"
        "srv_rep (s\<lparr>g_srvThreadPool := pool\<rparr>) (us_table x) (us_queue x) (us_tasks x @ concat (map (\<lambda>(fd, _). ready_task (udpFd s) fd) es))"
        using dispatch_ok [OF rep, of es] assms(2-4) U_Ready Some st by auto
      moreover have "\<forall>t \<in> set (concat (map (\<lambda>(fd, _). ready_task (udpFd s) fd) es)). task_wf t"
        by (auto simp: ready_task_def split: if_splits)
      ultimately show ?thesis
        using U_Ready Some assms(1) st by (auto simp: refines_def ServerEpollThread_round_def udp_state_def)
    qed
  next
    case (U_Turn al tok p)
    have ok: "al_mqok al" "tok" "p \<noteq> NULL" "p \<notin> udp_srv_uses s" "al_mqhead al \<noteq> NULL" "al_mqhead al \<notin> udp_srv_uses s"
      using assms(2,4) U_Turn st by auto
    show ?thesis
    proof (cases "us_queue x")
      case Nil
      obtain ch where "DeSrvMsgQueue True (al_mqhead al) (Some buf) (channel s) = Some (QUEUE_EMPTY, Some buf, ch)" "ch_rep0 ch []"
        using DeSrvMsgQueue_ok0 [of "channel s" "al_mqhead al" "Some buf"] rep Nil ok(5,6) by (auto simp: srv_rep_def udp_srv_uses_def)
      then show ?thesis
        using Nil ok(1) U_Turn st assms(1) by (simp add: refines_def SrvMsgProcessThread_round_def udp_state_def srv_rep_def Let_def)
    next
      case (Cons b ms)
      have "task_alloc_ok p s" using ok(3,4) by (auto simp: task_alloc_ok_def fresh_def udp_srv_uses_def)
      moreover have "wf_msg b" using assms(1) Cons st by (simp add: udp_state_def)
      ultimately obtain s' where "SrvMsgProcessThread_round al True p buf s = Some (Some b, s')"
        "srv_rep s' (us_table x) ms (us_tasks x @ [Task_SrvMsgProcessTask b])" "sent s' = sent s" "udpFd s' = udpFd s"
        "LcEndID s' = LcEndID s" "shown s' = shown s"
        using SrvMsgProcessThread_round_ok [of s "us_table x" b ms "us_tasks x" p al buf] rep Cons by auto
      then show ?thesis
        using Cons ok(2) U_Turn st assms(1) by (auto simp: refines_def udp_state_def)
    qed
  next
    case (U_Take i)
    then show ?thesis using take_ok [OF assms(1) [unfolded st], of i] st by (auto simp: refines_def)
  next
    case (U_Recv i rx)
    then show ?thesis using assms(1) st hs hand_wf_recv [of hs i rx] by (auto simp: refines_def udp_state_def)
  next
    case (U_Run i al rd)
    have "allocs_ok al s" "cl_alloc_ok al (clients s)"
      using unused_allocs [of i al rd s] assms(2-4) U_Run st by auto
    then have "refines (map_option (\<lambda>(hs, s). (s, buf, hs)) (udp_exec i al rd hs s)) (uspec_step (U_Run i al rd) x)"
      using exec_ok assms(1) st by blast
    moreover have "udp_step ev st = map_option (\<lambda>(hs, s). (s, buf, hs)) (udp_exec i al rd hs s)"
      using U_Run st by (cases "udp_exec i al rd hs s") auto
    ultimately show ?thesis using U_Run by simp
  qed
qed

subsection \<open>Runs\<close>

lemma udp_mem_ok_step:
  assumes "udp_mem_ok (ev # evs) (fst st)"
  shows "event_mem_ok ev" "distinct (event_addrs ev)" "set (event_addrs ev) \<inter> insert NULL (udp_srv_uses (fst st)) = {}"
    "udp_step ev st = Some st' \<Longrightarrow> udp_mem_ok evs (fst st')"
proof -
  show "event_mem_ok ev" "distinct (event_addrs ev)" "set (event_addrs ev) \<inter> insert NULL (udp_srv_uses (fst st)) = {}"
    using assms by (auto simp: udp_mem_ok_def)
  show "udp_mem_ok evs (fst st')" if "udp_step ev st = Some st'"
  proof -
    have "set (event_addrs ev) \<inter> set (concat (map event_addrs evs)) = {}"
      "set (concat (map event_addrs evs)) \<inter> insert NULL (udp_srv_uses (fst st)) = {}"
      using assms by (auto simp: udp_mem_ok_def)
    then have "set (concat (map event_addrs evs)) \<inter> insert NULL (udp_srv_uses (fst st')) = {}"
      using udp_step_uses [OF that] by blast
    then show ?thesis using assms by (simp add: udp_mem_ok_def)
  qed
qed

lemma udp_run_refines:
  "udp_state st x \<Longrightarrow> udp_mem_ok evs (fst st) \<Longrightarrow> refines (udp_run evs st) (uspec_run evs x)"
proof (induction evs arbitrary: st x)
  case Nil
  then show ?case by (simp add: refines_def)
next
  case (Cons ev evs)
  note mem = udp_mem_ok_step [OF Cons.prems(2)]
  have 1: "refines (udp_step ev st) (uspec_step ev x)" using udp_step_refines [OF Cons.prems(1) mem(1-3)] .
  show ?case
  proof (cases "uspec_step ev x")
    case None
    then show ?thesis using 1 by (simp add: refines_def)
  next
    case (Some x1)
    then obtain st1 where "udp_step ev st = Some st1" "udp_state st1 x1" using 1 by (auto simp: refines_def)
    then show ?thesis using Some Cons.IH [of st1 x1] mem(4) by simp
  qed
qed

section \<open>What follows for the clients\<close>

text \<open>Messages to be sent on; those among what was sent, and those that wait in the pool or in the queue.\<close>

definition for_client :: "LcMsg \<Rightarrow> bool" where
  "for_client m \<longleftrightarrow> msgType m = DataMsg \<and> destEndID m \<noteq> SETVER_ENDID"

definition data_out :: "datagram list \<Rightarrow> LcMsg list" where
  "data_out out = filter (\<lambda>m. msgType m = DataMsg) (map dg_bytes out)"

fun task_msgs :: "srv_task list \<Rightarrow> LcMsg list" where
  "task_msgs [] = []"
| "task_msgs (Task_SrvMsgProcessTask m # ts) = m # task_msgs ts"
| "task_msgs (_ # ts) = task_msgs ts"

text \<open>The data message in a datagram, and the message a worker has in hand, to send on or just received.\<close>

definition rx_msgs :: "(byte list \<times> sockaddr_in) option \<Rightarrow> LcMsg list" where
  "rx_msgs rx =
     (case rx of
        None \<Rightarrow> []
      | Some (bytes, A) \<Rightarrow> if bytes \<noteq> [] \<and> msgType (rx_buffer bytes) = DataMsg then [rx_buffer bytes] else [])"

fun hand_out :: "hand \<Rightarrow> LcMsg list" where
  "hand_out (H_Task t) = task_msgs [t]"
| "hand_out _ = []"

fun hand_in :: "hand \<Rightarrow> LcMsg list" where
  "hand_in (H_Rx rx) = rx_msgs rx"
| "hand_in _ = []"

text \<open>The messages on their way through the server, the oldest first.\<close>

definition us_waiting :: "uspec \<Rightarrow> LcMsg list" where
  "us_waiting x = concat (map hand_out (us_hands x)) @ task_msgs (us_tasks x) @ us_queue x @
     concat (map hand_in (us_hands x))"

text \<open>The data messages that the server receives in a run: those in the datagrams that its workers read.\<close>

definition received_by :: "hand list \<Rightarrow> udp_event \<Rightarrow> LcMsg list" where
  "received_by hs ev =
     (case ev of
        U_Recv i rx \<Rightarrow>
          if i < length hs then (case hs ! i of H_Task (Task_PorcessUdpMsg _) \<Rightarrow> rx_msgs rx | _ \<Rightarrow> []) else []
      | _ \<Rightarrow> [])"

fun udp_received :: "udp_event list \<Rightarrow> udp_sys \<Rightarrow> LcMsg list" where
  "udp_received [] st = []"
| "udp_received (ev # evs) st =
     received_by (snd (snd st)) ev @ (case udp_step ev st of None \<Rightarrow> [] | Some st' \<Rightarrow> udp_received evs st')"

lemma received_datagram: "received_by hs (U_Recv i rx) = rx_msgs rx \<or> received_by hs (U_Recv i rx) = []"
  by (simp add: received_by_def split: hand.split srv_task.split)

lemma task_msgs_append [simp]: "task_msgs (ts @ us) = task_msgs ts @ task_msgs us"
  by (induction ts rule: task_msgs.induct) auto

lemma task_msgs_ready [simp]: "task_msgs (concat (map (\<lambda>(fd, _). ready_task udp fd) evs)) = []"
  by (induction evs) (auto simp: ready_task_def)

lemma task_msgs_Cons: "task_msgs (t # ts) = task_msgs [t] @ task_msgs ts"
  by (cases t) auto

text \<open>What the handlers of the abstract server do with the messages.\<close>

lemma uspec_datagram_msgs:
  "us_queue (uspec_datagram rx x) = us_queue x @ rx_msgs rx"
  "data_out (us_sent (uspec_datagram rx x)) = data_out (us_sent x)"
  "us_tasks (uspec_datagram rx x) = us_tasks x" "us_hands (uspec_datagram rx x) = us_hands x"
  by (auto simp: uspec_datagram_def rx_msgs_def is_registration_def data_out_def Let_def split: option.splits)

lemma uspec_message_msgs:
  assumes "uspec_message m x = Some x'"
  shows "data_out (us_sent x') = data_out (us_sent x) @ filter for_client [m]"
    "us_queue x' = us_queue x" "us_tasks x' = us_tasks x" "us_hands x' = us_hands x"
  using assms by (auto simp: uspec_message_def data_out_def for_client_def split: if_splits)

text \<open>The messages in the server, of which \<open>outs\<close> are sent on and \<open>ins\<close> received by a step.\<close>

definition moves :: "uspec \<Rightarrow> LcMsg list \<Rightarrow> LcMsg list \<Rightarrow> uspec \<Rightarrow> bool" where
  "moves x outs ins x' \<longleftrightarrow> data_out (us_sent x') = data_out (us_sent x) @ filter for_client outs \<and>
     mset (outs @ us_waiting x') = mset (us_waiting x @ ins) \<and>
     (length (us_hands x) = 1 \<longrightarrow> outs @ us_waiting x' = us_waiting x @ ins) \<and> length (us_hands x') = length (us_hands x)"

text \<open>How the messages in hand change when one worker's hand does.\<close>

lemma hands_change:
  assumes "i < length hs"
  shows "mset (concat (map hand_out (hs[i := h]))) + mset (hand_out (hs ! i)) = mset (concat (map hand_out hs)) + mset (hand_out h)"
    "mset (concat (map hand_in (hs[i := h]))) + mset (hand_in (hs ! i)) = mset (concat (map hand_in hs)) + mset (hand_in h)"
    "length hs = 1 \<Longrightarrow> \<exists>h0. hs = [h0] \<and> i = 0"
  using assms mset_concat_update [OF assms, of hand_out h] mset_concat_update [OF assms, of hand_in h]
  by (auto simp: length_Suc_conv)

lemma moves_hand:
  assumes i: "i < length (us_hands x)" and x': "us_hands x' = (us_hands x)[i := h]"
    and sent: "data_out (us_sent x') = data_out (us_sent x) @ filter for_client outs"
    and out: "outs @ hand_out h @ task_msgs (us_tasks x') @ us_queue x' @ hand_in h =
      hand_out (us_hands x ! i) @ task_msgs (us_tasks x) @ us_queue x @ hand_in (us_hands x ! i) @ ins"
  shows "moves x outs ins x'"
proof -
  have e: "mset (outs @ hand_out h @ task_msgs (us_tasks x') @ us_queue x' @ hand_in h) =
    mset (hand_out (us_hands x ! i) @ task_msgs (us_tasks x) @ us_queue x @ hand_in (us_hands x ! i) @ ins)"
    using out by (rule arg_cong)
  let ?hs = "us_hands x"
  have "mset (outs @ us_waiting x') + (mset (hand_out (?hs ! i)) + mset (hand_in (?hs ! i))) =
    (mset (concat (map hand_out (?hs[i := h]))) + mset (hand_out (?hs ! i))) +
    (mset (concat (map hand_in (?hs[i := h]))) + mset (hand_in (?hs ! i))) +
    (mset outs + mset (task_msgs (us_tasks x')) + mset (us_queue x'))"
    by (simp add: us_waiting_def x' ac_simps)
  also have "\<dots> = (mset (concat (map hand_out ?hs)) + mset (concat (map hand_in ?hs))) +
    mset (outs @ hand_out h @ task_msgs (us_tasks x') @ us_queue x' @ hand_in h)"
    unfolding hands_change(1) [OF i] hands_change(2) [OF i] by (simp add: ac_simps)
  also have "\<dots> = mset (us_waiting x @ ins) + (mset (hand_out (?hs ! i)) + mset (hand_in (?hs ! i)))"
    unfolding e by (simp add: us_waiting_def ac_simps)
  finally have m: "mset (outs @ us_waiting x') = mset (us_waiting x @ ins)" by simp
  have "outs @ us_waiting x' = us_waiting x @ ins" if "length ?hs = 1"
    using hands_change(3) [OF i that] out by (auto simp: us_waiting_def x')
  with m sent show ?thesis by (simp add: moves_def x')
qed

lemma moves_same:
  assumes "us_hands x' = us_hands x" "us_sent x' = us_sent x"
    "task_msgs (us_tasks x') @ us_queue x' = task_msgs (us_tasks x) @ us_queue x"
  shows "moves x [] [] x'"
proof -
  have "us_waiting x' = us_waiting x" using assms(1,3) unfolding us_waiting_def by (metis append.assoc)
  then show ?thesis using assms(1,2) by (simp add: moves_def)
qed

text \<open>A step keeps the messages, up to those it sends on and receives, and with one worker their order.\<close>

lemma uspec_step_moves:
  assumes "uspec_step ev x = Some x'"
  shows "\<exists>outs. moves x outs (received_by (us_hands x) ev) x'"
proof (cases ev)
  case (U_Ready evs)
  then show ?thesis using assms by (auto simp: received_by_def intro!: exI [of _ "[]"] moves_same split: option.splits)
next
  case (U_Turn al tok p)
  then show ?thesis using assms by (auto simp: received_by_def intro!: exI [of _ "[]"] moves_same split: list.splits)
next
  case (U_Take i)
  show ?thesis
  proof (cases "i < length (us_hands x) \<and> us_hands x ! i = H_Idle \<and> us_tasks x \<noteq> []")
    case False
    then have "x' = x" using U_Take assms by (auto split: if_splits list.splits)
    then show ?thesis using U_Take moves_same [of x x] by (auto simp: received_by_def)
  next
    case True
    then obtain t ts where t: "us_tasks x = t # ts" by (auto simp: neq_Nil_conv)
    then have x': "x' = x\<lparr>us_tasks := ts, us_hands := (us_hands x)[i := H_Task t]\<rparr>" using U_Take assms True by simp
    have "moves x [] [] x'"
      using True t x' by (intro moves_hand [where i = i and h = "H_Task t"]) (simp_all add: task_msgs_Cons [of t ts])
    then show ?thesis using U_Take by (auto simp: received_by_def)
  qed
next
  case (U_Recv i rx)
  show ?thesis
  proof (cases "i < length (us_hands x) \<and> (\<exists>b. us_hands x ! i = H_Task (Task_PorcessUdpMsg b))")
    case True
    then obtain b where i: "i < length (us_hands x)" "us_hands x ! i = H_Task (Task_PorcessUdpMsg b)" by blast
    then have x': "x' = x\<lparr>us_hands := (us_hands x)[i := H_Rx rx]\<rparr>" using U_Recv assms by (simp add: udp_recv_def)
    have "moves x [] (rx_msgs rx) x'" using i x' by (intro moves_hand [where i = i and h = "H_Rx rx"]) simp_all
    moreover have "received_by (us_hands x) ev = rx_msgs rx" using i U_Recv by (simp add: received_by_def)
    ultimately show ?thesis by auto
  next
    case False
    then have "udp_recv i rx (us_hands x) = us_hands x" "received_by (us_hands x) ev = []"
      using U_Recv by (auto simp: udp_recv_def received_by_def split: hand.splits srv_task.splits)
    then show ?thesis using U_Recv assms moves_same [of x x] by auto
  qed
next
  case (U_Run i al rd)
  have r: "received_by (us_hands x) ev = []" using U_Run by (simp add: received_by_def)
  let ?x = "x\<lparr>us_hands := (us_hands x)[i := H_Idle]\<rparr>"
  consider "x' = x" | b where "i < length (us_hands x)" "us_hands x ! i = H_Task (Task_ProcessStdin b)" "x' = ?x"
    | m where "i < length (us_hands x)" "us_hands x ! i = H_Task (Task_SrvMsgProcessTask m)" "uspec_message m ?x = Some x'"
    | rx where "i < length (us_hands x)" "us_hands x ! i = H_Rx rx" "x' = uspec_datagram rx ?x"
    using assms U_Run by (auto simp: Let_def split: if_splits hand.splits srv_task.splits)
  then have "\<exists>outs. moves x outs [] x'"
  proof cases
    case 1
    then show ?thesis using moves_same [of x x] by auto
  next
    case (2 b)
    then have "moves x [] [] x'" by (intro moves_hand [where i = i and h = H_Idle]) simp_all
    then show ?thesis ..
  next
    case (3 m)
    then have "moves x [m] [] x'"
      using uspec_message_msgs [OF 3(3)] by (intro moves_hand [where i = i and h = H_Idle]) simp_all
    then show ?thesis ..
  next
    case (4 rx)
    then have "moves x [] [] x'"
      by (intro moves_hand [where i = i and h = H_Idle]) (simp_all add: uspec_datagram_msgs)
    then show ?thesis ..
  qed
  then show ?thesis using r by simp
qed

text \<open>What was sent on to clients and then what waits to be sent on, over a run.\<close>

definition to_clients :: "uspec \<Rightarrow> LcMsg list" where
  "to_clients x = data_out (us_sent x) @ filter for_client (us_waiting x)"

lemma moves_to_clients:
  assumes "moves x outs ins x'"
  shows "mset (to_clients x') = mset (to_clients x @ filter for_client ins)"
    "length (us_hands x) = 1 \<Longrightarrow> to_clients x' = to_clients x @ filter for_client ins"
    "length (us_hands x') = length (us_hands x)"
proof -
  have "filter_mset for_client (mset (outs @ us_waiting x')) = filter_mset for_client (mset (us_waiting x @ ins))"
    using assms by (simp only: moves_def)
  then show "mset (to_clients x') = mset (to_clients x @ filter for_client ins)"
    using assms by (simp add: to_clients_def moves_def ac_simps)
  show "length (us_hands x') = length (us_hands x)" using assms by (simp add: moves_def)
  assume "length (us_hands x) = 1"
  then have "filter for_client (outs @ us_waiting x') = filter for_client (us_waiting x @ ins)"
    using assms unfolding moves_def by (metis (no_types))
  then show "to_clients x' = to_clients x @ filter for_client ins"
    using assms by (simp add: to_clients_def moves_def)
qed

lemma udp_run_order:
  assumes "udp_state st x" "udp_mem_ok evs (fst st)" "udp_run evs st = Some st'"
  shows "\<exists>x'. udp_state st' x' \<and> mset (to_clients x') = mset (to_clients x @ filter for_client (udp_received evs st)) \<and>
    (length (us_hands x) = 1 \<longrightarrow> to_clients x' = to_clients x @ filter for_client (udp_received evs st))"
  using assms
proof (induction evs arbitrary: st x)
  case Nil
  then show ?case by auto
next
  case (Cons ev evs)
  note mem = udp_mem_ok_step [OF Cons.prems(2)]
  obtain st1 where st1: "udp_step ev st = Some st1" "udp_run evs st1 = Some st'" using Cons.prems(3) by (auto simp: bind_eq_Some_conv)
  obtain x1 where x1: "uspec_step ev x = Some x1" "udp_state st1 x1"
    using udp_step_refines [OF Cons.prems(1) mem(1-3)] st1(1) by (auto simp: refines_def split: option.splits)
  obtain outs where "moves x outs (received_by (us_hands x) ev) x1" using uspec_step_moves [OF x1(1)] by blast
  note m = moves_to_clients [OF this]
  have hs: "snd (snd st) = us_hands x" using Cons.prems(1) by (simp add: udp_state_def)
  obtain x' where x': "udp_state st' x'" "mset (to_clients x') = mset (to_clients x1 @ filter for_client (udp_received evs st1))"
    "length (us_hands x1) = 1 \<longrightarrow> to_clients x' = to_clients x1 @ filter for_client (udp_received evs st1)"
    using Cons.IH [OF x1(2) mem(4) [OF st1(1)] st1(2)] by blast
  show ?case
    using x' m hs st1(1) by (intro exI [of _ x']) auto
qed

text \<open>All messages that wait can be delivered.\<close>

definition deliverable :: "uspec \<Rightarrow> bool" where
  "deliverable x \<longleftrightarrow> (\<forall>m \<in> set (us_waiting x). for_client m \<longrightarrow> destEndID m \<in> fst ` set (us_table x))"

lemma moves_deliverable:
  assumes "moves x outs ins x'" "deliverable x" "set (us_table x) \<subseteq> set (us_table x')"
    "\<And>m. m \<in> set ins \<Longrightarrow> for_client m \<longrightarrow> destEndID m \<in> fst ` set (us_table x)"
  shows "deliverable x'"
proof -
  have "mset (outs @ us_waiting x') = mset (us_waiting x @ ins)" using assms(1) by (simp only: moves_def)
  then have "set (outs @ us_waiting x') = set (us_waiting x @ ins)" by (rule mset_eq_setD)
  then have sub: "set (us_waiting x') \<subseteq> set (us_waiting x) \<union> set ins" by auto
  have "destEndID m \<in> fst ` set (us_table x)" if "m \<in> set (us_waiting x) \<union> set ins" "for_client m" for m
    using that assms(2,4) unfolding deliverable_def by blast
  then show ?thesis using sub assms(3) unfolding deliverable_def by blast
qed

definition known_dest :: "(EndID \<times> sockaddr_in) list \<Rightarrow> udp_event \<Rightarrow> bool" where
  "known_dest tb ev \<longleftrightarrow> (case ev of
     U_Recv i (Some (bytes, A)) \<Rightarrow> for_client (rx_buffer bytes) \<longrightarrow> destEndID (rx_buffer bytes) \<in> fst ` set tb
   | _ \<Rightarrow> True)"

lemma uspec_step_deliverable:
  assumes "deliverable x" "known_dest (us_table x) ev"
  shows "\<exists>x'. uspec_step ev x = Some x' \<and> deliverable x' \<and> set (us_table x) \<subseteq> set (us_table x')"
proof (cases ev)
  case (U_Ready evs)
  then show ?thesis using assms(1) by (auto simp: deliverable_def us_waiting_def split: option.splits)
next
  case (U_Turn al tok p)
  then show ?thesis using assms(1) by (auto simp: deliverable_def us_waiting_def split: list.splits)
next
  case (U_Take i)
  show ?thesis
  proof (cases "i < length (us_hands x) \<and> us_hands x ! i = H_Idle \<and> us_tasks x \<noteq> []")
    case False
    then have "uspec_step ev x = Some x" using U_Take by (auto split: list.splits)
    then show ?thesis using assms(1) by simp
  next
    case True
    then obtain t ts where t: "us_tasks x = t # ts" by (auto simp: neq_Nil_conv)
    let ?x = "x\<lparr>us_tasks := ts, us_hands := (us_hands x)[i := H_Task t]\<rparr>"
    have "moves x [] [] ?x"
      using True t by (intro moves_hand [where i = i and h = "H_Task t"]) (simp_all add: task_msgs_Cons [of t ts])
    then show ?thesis using assms(1) True t U_Take moves_deliverable [of x "[]" "[]" ?x] by simp
  qed
next
  case (U_Recv i rx)
  let ?x = "x\<lparr>us_hands := udp_recv i rx (us_hands x)\<rparr>"
  obtain outs where m: "moves x outs (received_by (us_hands x) ev) ?x" using uspec_step_moves [of ev x ?x] U_Recv by auto
  have d: "for_client m \<longrightarrow> destEndID m \<in> fst ` set (us_table x)" if "m \<in> set (received_by (us_hands x) ev)" for m
  proof -
    have "m \<in> set (rx_msgs rx)" using that received_datagram [of "us_hands x" i rx] U_Recv by auto
    then show ?thesis using assms(2) U_Recv by (auto simp: known_dest_def rx_msgs_def split: option.splits if_splits)
  qed
  have "deliverable ?x" by (rule moves_deliverable [OF m assms(1)]) (simp, rule d)
  then show ?thesis using U_Recv by simp
next
  case (U_Run i al rd)
  have "\<exists>x'. uspec_step ev x = Some x' \<and> set (us_table x) \<subseteq> set (us_table x')"
  proof (cases "\<exists>m. i < length (us_hands x) \<and> us_hands x ! i = H_Task (Task_SrvMsgProcessTask m)")
    case True
    then obtain m where m: "i < length (us_hands x)" "us_hands x ! i = H_Task (Task_SrvMsgProcessTask m)" by blast
    then have "m \<in> set (concat (map hand_out (us_hands x)))" by (force simp: in_set_conv_nth)
    then have "m \<in> set (us_waiting x)" by (simp add: us_waiting_def)
    then have "for_client m \<Longrightarrow> map_of (us_table x) (destEndID m) \<noteq> None"
      using assms(1) by (auto simp: deliverable_def map_of_eq_None_iff)
    then show ?thesis using m U_Run by (auto simp: uspec_message_def for_client_def Let_def)
  next
    case False
    have "set (us_table x) \<subseteq> set (us_table (uspec_datagram rx x'))" if "us_table x' = us_table x" for rx x'
      using that by (auto simp: uspec_datagram_def Let_def split: option.splits)
    then show ?thesis using False U_Run by (auto simp: Let_def split: hand.splits srv_task.splits)
  qed
  then obtain x' where x': "uspec_step ev x = Some x'" "set (us_table x) \<subseteq> set (us_table x')" by blast
  obtain outs where "moves x outs (received_by (us_hands x) ev) x'" using uspec_step_moves [OF x'(1)] by blast
  moreover have "received_by (us_hands x) ev = []" using U_Run by (simp add: received_by_def)
  ultimately show ?thesis using moves_deliverable [of x outs "[]" x'] assms(1) x' by auto
qed

lemma uspec_run_deliverable:
  "deliverable x \<Longrightarrow> \<forall>ev \<in> set evs. known_dest (us_table x) ev \<Longrightarrow> \<exists>x'. uspec_run evs x = Some x' \<and> deliverable x'"
proof (induction evs arbitrary: x)
  case (Cons ev evs)
  obtain x1 where x1: "uspec_step ev x = Some x1" "deliverable x1" "set (us_table x) \<subseteq> set (us_table x1)"
    using uspec_step_deliverable [OF Cons.prems(1), of ev] Cons.prems(2) unfolding list.set by blast
  have "known_dest (us_table x1) e" if "e \<in> set evs" for e
    using that Cons.prems(2) x1(3) by (fastforce simp: known_dest_def split: udp_event.splits option.splits)
  then show ?case using Cons.IH [OF x1(2)] x1(1) by auto
qed simp

section \<open>Properties\<close>

text \<open>A server with one client and one worker that gets one datagram for it.\<close>

definition udp_demo_al :: "nat \<Rightarrow> allocs" where
  "udp_demo_al n = \<lparr>al_clok = True, al_clhead = n, al_clnode = n + 1, al_mqok = True, al_mqhead = n + 2, al_mqnode = n + 3\<rparr>"

definition udp_demo_events :: "EndID \<Rightarrow> udp_event list" where
  "udp_demo_events dest = [U_Ready (Some [(5, True, 20)]), U_Take 0, U_Recv 0 (Some (demo_msg dest, \<lparr>sin_port = 8, s_addr = 9\<rparr>)),
     U_Run 0 (udp_demo_al 30) None, U_Turn (udp_demo_al 40) True 50, U_Take 0, U_Run 0 (udp_demo_al 60) None]"

definition udp_demo_spec :: "nat \<Rightarrow> uspec" where
  "udp_demo_spec n = \<lparr>us_fd = 5, us_table = [(7, \<lparr>sin_port = 99, s_addr = 1\<rparr>)], us_queue = [], us_tasks = [],
     us_hands = replicate n H_Idle, us_sent = [], us_shown = []\<rparr>"

definition udp_demo_server :: server where
  "udp_demo_server = demo_server\<lparr>channel := \<lparr>g_queue = Ptr 3,
     ch_mem = \<lparr>live = {3}, nextf = [3 \<mapsto> 3], prevf = [3 \<mapsto> 3], dataf = Map.empty\<rparr>\<rparr>\<rparr>"

definition udp_demo_state :: "nat \<Rightarrow> udp_sys" where
  "udp_demo_state n = (udp_demo_server, None, replicate n H_Idle)"

lemma udp_demo_server_fields [simp]:
  "sent udp_demo_server = []" "shown udp_demo_server = []" "udpFd udp_demo_server = 5" "LcEndID udp_demo_server = SETVER_ENDID"
  "g_queue (channel udp_demo_server) = Ptr 3" "g_clisInfoList (clients udp_demo_server) = Ptr 1"
  by (simp_all add: udp_demo_server_def demo_server_def one_client_def)

lemma demo_run_ok: "udp_state (udp_demo_state n) (udp_demo_spec n)" "udp_mem_ok (udp_demo_events dest) udp_demo_server"
  "fst (udp_demo_state n) = udp_demo_server" "udp_srv_uses udp_demo_server \<subseteq> {1, 2, 3}"
proof -
  have "ch_rep (channel udp_demo_server) []"
    by (auto simp: ch_rep_def udp_demo_server_def qnodes_def dll_def linked_def intro!: exI [of _ "[]"])
  then have "srv_rep udp_demo_server [(7, \<lparr>sin_port = 99, s_addr = 1\<rparr>)] [] []"
    using demo_server_rep by (simp add: srv_rep_def ch_rep0_def) (simp add: udp_demo_server_def)
  then show "udp_state (udp_demo_state n) (udp_demo_spec n)"
    by (simp add: udp_state_def udp_demo_state_def udp_demo_spec_def)
  show "udp_srv_uses udp_demo_server \<subseteq> {1, 2, 3}"
    by (auto simp: udp_srv_uses_def udp_demo_server_def demo_server_def one_client_def)
  then show "udp_mem_ok (udp_demo_events dest) udp_demo_server"
    by (auto simp: udp_mem_ok_def udp_demo_events_def udp_demo_al_def)
  show "fst (udp_demo_state n) = udp_demo_server" by (simp add: udp_demo_state_def)
qed

lemma demo_msg_not_reg [simp]: "\<not> is_registration (demo_msg d)" "demo_msg d \<noteq> []"
  using wf_nonempty [of "demo_msg d"] by (simp_all add: is_registration_def)

lemma demo_spec_run:
  "uspec_run (udp_demo_events 7) (udp_demo_spec (Suc 0)) = Some ((udp_demo_spec (Suc 0))\<lparr>us_sent := [\<lparr>dg_fd = 5, dg_bytes = demo_msg 7, dg_to = \<lparr>sin_port = 99, s_addr = 1\<rparr>\<rparr>]\<rparr>)"
  "uspec_run (udp_demo_events 8) (udp_demo_spec (Suc 0)) = None"
  by (simp_all add: udp_demo_events_def udp_demo_spec_def ready_task_def uspec_datagram_def uspec_message_def Let_def SETVER_ENDID_def udp_recv_def)

text \<open>
  C5. The UDP server refines the abstract server: for every sequence of rounds of the event thread, rounds of the
  message thread and steps of any number of workers (take a task, receive a datagram, run the handler), with any
  datagrams, the server does what the abstract server does, and it
  faults exactly when the abstract server does, that is, when a message comes up for a client that
  never registered. (Each round or step is one event; how the accesses to the pool interleave below that is shown in
  \<open>Udp_Pool\<close>. No allocation fails: \<open>udp_mem_ok\<close>.)
\<close>

theorem udp_server_refines_spec:
  assumes "udp_state st x" "udp_mem_ok evs (fst st)"
  shows "case uspec_run evs x of Some x' \<Rightarrow> \<exists>st'. udp_run evs st = Some st' \<and> udp_state st' x' | None \<Rightarrow> udp_run evs st = None"
  using udp_run_refines [OF assms] by (simp add: refines_def)

theorem udp_server_refines_spec_witness:
  "(\<exists>st'. udp_run (udp_demo_events 7) (udp_demo_state 1) = Some st' \<and>
      sent (fst st') = [\<lparr>dg_fd = 5, dg_bytes = demo_msg 7, dg_to = \<lparr>sin_port = 99, s_addr = 1\<rparr>\<rparr>]) \<and>
    udp_run (udp_demo_events 8) (udp_demo_state 1) = None"
proof
  show "\<exists>st'. udp_run (udp_demo_events 7) (udp_demo_state 1) = Some st' \<and>
      sent (fst st') = [\<lparr>dg_fd = 5, dg_bytes = demo_msg 7, dg_to = \<lparr>sin_port = 99, s_addr = 1\<rparr>\<rparr>]"
    using udp_server_refines_spec [OF demo_run_ok(1), of "udp_demo_events 7" 1] demo_run_ok(2,3)
    by (auto simp: demo_spec_run udp_state_def)
  show "udp_run (udp_demo_events 8) (udp_demo_state 1) = None"
    using udp_server_refines_spec [OF demo_run_ok(1), of "udp_demo_events 8" 1] demo_run_ok(2,3) by (simp add: demo_spec_run)
qed

text \<open>
  C6. The UDP server loses no message: in every run that does not fault, once its queue and its client list exist, the data messages sent to clients,
  with those that still wait (in a worker's hand, in the pool or in the queue), are those sent or waiting before
  and those received during the run: none is lost, sent twice or changed. When only one worker acts, they are also
  in the order in which they were received; with more workers they need not be (\<open>workers_overtake\<close>). (Queue and list are
  created on first use by a test outside their mutex; two first calls at once can lose what the first one
  created, so a server that has yet to create them is left out. No allocation fails, \<open>udp_mem_ok\<close>; \<open>sendto\<close> sends what it is given.)
\<close>

theorem udp_server_loses_nothing:
  assumes "udp_state st x" "g_queue (channel (fst st)) \<noteq> Null" "g_clisInfoList (clients (fst st)) \<noteq> Null"
    "udp_mem_ok evs (fst st)" "udp_run evs st = Some st'"
  shows "\<exists>x'. udp_state st' x' \<and>
    mset (data_out (sent (fst st')) @ filter for_client (us_waiting x')) =
      mset (data_out (sent (fst st)) @ filter for_client (us_waiting x) @ filter for_client (udp_received evs st)) \<and>
    (length (us_hands x) = 1 \<longrightarrow> data_out (sent (fst st')) @ filter for_client (us_waiting x') =
      data_out (sent (fst st)) @ filter for_client (us_waiting x) @ filter for_client (udp_received evs st))"
proof -
  obtain x' where x': "udp_state st' x'" "mset (to_clients x') = mset (to_clients x @ filter for_client (udp_received evs st))"
    "length (us_hands x) = 1 \<longrightarrow> to_clients x' = to_clients x @ filter for_client (udp_received evs st)"
    using udp_run_order [OF assms(1,4,5)] by blast
  then show ?thesis using assms(1) by (intro exI [of _ x']) (auto simp: udp_state_def to_clients_def)
qed

theorem udp_server_loses_nothing_witness:
  "\<exists>st' x'. udp_run (udp_demo_events 7) (udp_demo_state 1) = Some st' \<and> udp_state st' x' \<and>
     data_out (sent (fst st')) @ filter for_client (us_waiting x') = filter for_client (udp_received (udp_demo_events 7) (udp_demo_state 1))"
proof -
  obtain st' where st': "udp_run (udp_demo_events 7) (udp_demo_state 1) = Some st'"
    using udp_run_refines [OF demo_run_ok(1), of "udp_demo_events 7" 1] demo_run_ok(2,3) by (auto simp: demo_spec_run refines_def)
  have "us_waiting (udp_demo_spec 1) = []" "length (us_hands (udp_demo_spec 1)) = 1"
    by (simp_all add: udp_demo_spec_def us_waiting_def)
  then show ?thesis
    using udp_server_loses_nothing [OF demo_run_ok(1) _ _ _ st'] demo_run_ok(2,3) st' by (auto simp: data_out_def)
qed

text \<open>
  Two workers can overtake one another: two messages for a client are received in one order and sent on in the
  other, because the worker with the second one runs its handler first.
\<close>

definition overtaking :: "LcMsg \<Rightarrow> LcMsg \<Rightarrow> udp_event list" where
  "overtaking m1 m2 = [U_Ready (Some [(5, True, 20), (5, True, 21)]),
     U_Take 0, U_Recv 0 (Some (m1, \<lparr>sin_port = 8, s_addr = 9\<rparr>)), U_Run 0 (udp_demo_al 30) None,
     U_Take 0, U_Recv 0 (Some (m2, \<lparr>sin_port = 8, s_addr = 9\<rparr>)), U_Run 0 (udp_demo_al 40) None,
     U_Turn (udp_demo_al 50) True 60, U_Turn (udp_demo_al 70) True 80, U_Take 0, U_Take 1,
     U_Run 1 (udp_demo_al 90) None, U_Run 0 (udp_demo_al 100) None]"

lemma workers_overtake:
  assumes "wf_msg m1" "wf_msg m2" "msgType m1 = DataMsg" "msgType m2 = DataMsg" "destEndID m1 = 7" "destEndID m2 = 7"
  shows "\<exists>st'. udp_run (overtaking m1 m2) (udp_demo_state 2) = Some st' \<and> map dg_bytes (sent (fst st')) = [m2, m1]"
proof -
  have ne: "m1 \<noteq> []" "m2 \<noteq> []" "\<not> is_registration m1" "\<not> is_registration m2"
    using assms wf_nonempty by (auto simp: is_registration_def)
  have two: "replicate 2 H_Idle = [H_Idle, H_Idle]" by (simp add: numeral_2_eq_2)
  have "uspec_run (overtaking m1 m2) (udp_demo_spec 2) =
    Some ((udp_demo_spec 2)\<lparr>us_sent := map (\<lambda>m. \<lparr>dg_fd = 5, dg_bytes = m, dg_to = \<lparr>sin_port = 99, s_addr = 1\<rparr>\<rparr>) [m2, m1]\<rparr>)"
    using assms ne by (simp add: overtaking_def udp_demo_spec_def ready_task_def uspec_datagram_def uspec_message_def Let_def
        SETVER_ENDID_def udp_recv_def two)
  moreover have "udp_mem_ok (overtaking m1 m2) (fst (udp_demo_state 2))"
    using demo_run_ok(4) by (auto simp: udp_mem_ok_def overtaking_def udp_demo_al_def demo_run_ok(3))
  ultimately show ?thesis
    using udp_run_refines [OF demo_run_ok(1), of "overtaking m1 m2" 2] by (auto simp: refines_def udp_state_def)
qed

text \<open>
  C7. The UDP server survives clients that address only registered clients or the server: when every data message that
  waits or arrives is for an id in the registry, no event leads to a fault, whatever else arrives.
\<close>

theorem udp_server_survives:
  assumes "udp_state st x" "udp_mem_ok evs (fst st)" "deliverable x" "\<forall>ev \<in> set evs. known_dest (us_table x) ev"
  shows "\<exists>st' x'. udp_run evs st = Some st' \<and> uspec_run evs x = Some x' \<and> udp_state st' x' \<and> deliverable x'"
proof -
  obtain x' where "uspec_run evs x = Some x'" "deliverable x'" using uspec_run_deliverable [OF assms(3,4)] by blast
  then show ?thesis using udp_run_refines [OF assms(1,2)] by (auto simp: refines_def)
qed

theorem udp_server_survives_witness:
  "\<exists>st'. udp_run (udp_demo_events 7) (udp_demo_state 1) = Some st'"
proof -
  have "deliverable (udp_demo_spec 1)" "\<forall>ev \<in> set (udp_demo_events 7). known_dest (us_table (udp_demo_spec 1)) ev"
    by (simp_all add: deliverable_def us_waiting_def udp_demo_spec_def udp_demo_events_def known_dest_def)
  then show ?thesis using udp_server_survives [OF demo_run_ok(1), of "udp_demo_events 7" 1] demo_run_ok(2,3) by auto
qed

end
