(* ===== verification/Tcp_Spec.thy ===== *)
theory Tcp_Spec
  imports Tcp_Server
begin

text \<open>
  The TCP server as a whole: any sequence of rounds of its event thread and of its processing thread that do not
  overlap, against an abstract server that keeps the connections, a queue of messages and the two texts that
  its message buffers hold.
\<close>

section \<open>The server's threads together\<close>

text \<open>A round of the event thread, or of the processing thread with the results of its calls.\<close>

datatype tcp_turn =
    T_Epoll "tcp_event list option"
  | T_Process tcp_alloc "int \<Rightarrow> bool" bool

fun tcp_step :: "tcp_turn \<Rightarrow> tcp_server \<times> MsgBuf \<Rightarrow> (tcp_server \<times> MsgBuf) option" where
  "tcp_step (T_Epoll evs) (s, buf) = do { s \<leftarrow> ProcessEpoll_round evs s; Some (s, buf) }"
| "tcp_step (T_Process al ok wok) (s, buf) = do { (buf, s) \<leftarrow> ProcessCliMsg_round al ok wok buf s; Some (s, buf) }"

fun tcp_run :: "tcp_turn list \<Rightarrow> tcp_server \<times> MsgBuf \<Rightarrow> (tcp_server \<times> MsgBuf) option" where
  "tcp_run [] st = Some st"
| "tcp_run (tn # tns) st = do { st \<leftarrow> tcp_step tn st; tcp_run tns st }"

text \<open>The allocator's answers fit the state in which they are given; a freed address may be given again.\<close>

fun turn_env :: "tcp_turn \<Rightarrow> tcp_server \<Rightarrow> bool" where
  "turn_env (T_Epoll evs) s = (case evs of None \<Rightarrow> True | Some es \<Rightarrow> events_env es s)"
| "turn_env (T_Process al ok wok) s = tcp_alloc_ok al s"

fun tcp_env :: "tcp_turn list \<Rightarrow> tcp_server \<times> MsgBuf \<Rightarrow> bool" where
  "tcp_env [] st = True"
| "tcp_env (tn # tns) st \<longleftrightarrow> turn_env tn (fst st) \<and> (case tcp_step tn st of None \<Rightarrow> True | Some st' \<Rightarrow> tcp_env tns st')"

section \<open>The abstract server\<close>

datatype tcp_kind = Answer | Broadcast | Forward

text \<open>
  What is sent is marked with the reason. \<open>ts_rx\<close> is what the receive buffer holds, \<open>ts_text\<close> the text in the
  transmit buffer.
\<close>

record tspec =
  ts_fd :: int
  ts_watched :: "int list"
  ts_conns :: "CliInfoNode list"
  ts_rx :: MsgBuf
  ts_text :: "byte list"
  ts_queue :: "MsgBuf list"
  ts_sent :: "(tcp_kind \<times> int \<times> MsgBuf) list"
  ts_closed :: "int list"
  ts_written :: "byte list list"

primrec drop_conn :: "int \<Rightarrow> CliInfoNode list \<Rightarrow> CliInfoNode list" where
  "drop_conn k [] = []"
| "drop_conn k (c # cs) = (if fd c = k then cs else c # drop_conn k cs)"

primrec set_id :: "int \<Rightarrow> 32 word \<Rightarrow> CliInfoNode list \<Rightarrow> CliInfoNode list" where
  "set_id k i [] = []"
| "set_id k i (c # cs) = (if fd c = k then c\<lparr>cliEndid := i\<rparr> # cs else c # set_id k i cs)"

text \<open>A new connection has no id yet.\<close>

definition tspec_accept :: "(int \<times> tcp_addr) option \<Rightarrow> bool \<Rightarrow> tspec \<Rightarrow> tspec" where
  "tspec_accept acc ok x =
     (case acc of
        None \<Rightarrow> x
      | Some (k, a) \<Rightarrow> x\<lparr>ts_conns := \<lparr>fd = k, cliEndid = 0, addr_in = a\<rparr> # ts_conns x,
          ts_watched := ts_watched x @ (if ok then [k] else [])\<rparr>)"

text \<open>A line typed at the server goes to every client.\<close>

definition line_text :: "byte list \<Rightarrow> byte list" where
  "line_text bytes = take MAX_MSG_LEN bytes @ drop (length bytes) (replicate MAX_MSG_LEN 0)"

definition tspec_line :: "byte list option \<Rightarrow> tspec \<Rightarrow> tspec" where
  "tspec_line rx x =
     (case rx of
        None \<Rightarrow> x\<lparr>ts_rx := (ts_rx x)\<lparr>mb_msg := replicate MAX_MSG_LEN 0\<rparr>\<rparr>
      | Some bytes \<Rightarrow> let d = line_text bytes in
          x\<lparr>ts_rx := (ts_rx x)\<lparr>mb_msg := d\<rparr>, ts_text := if ts_conns x = [] then ts_text x else d,
            ts_sent := ts_sent x @ map (\<lambda>c. (Broadcast, fd c, server_msg (cliEndid c) d)) (ts_conns x)\<rparr>)"

text \<open>Input from a client: a shutdown, a report, which is answered, or a message, which is queued.\<close>

definition tspec_input :: "int \<Rightarrow> byte list option \<Rightarrow> tspec \<Rightarrow> tspec" where
  "tspec_input k rx x =
     (case rx of
        None \<Rightarrow> x
      | Some bytes \<Rightarrow>
          if bytes = [] then x\<lparr>ts_conns := drop_conn k (ts_conns x), ts_closed := ts_closed x @ [k]\<rparr>
          else let b = recv_into bytes (ts_rx x); x = x\<lparr>ts_rx := b\<rparr> in
            if mb_type b = SAVE_CLI_INFO then
              x\<lparr>ts_conns := set_id k (mb_src b) (ts_conns x),
                ts_sent := ts_sent x @ [(Answer, k, \<lparr>mb_type = SAVE_CLI_INFO, mb_src = SERVER_ENDID, mb_dest = mb_src b,
                  mb_msg = ts_text x\<rparr>)]\<rparr>
            else x\<lparr>ts_queue := ts_queue x @ [b]\<rparr>)"

definition tspec_event :: "tcp_event \<Rightarrow> tspec \<Rightarrow> tspec" where
  "tspec_event e x =
     (if ev_fd e = ts_fd x then tspec_accept (ev_accept e) (ev_ctl e) x
      else if ev_fd e = 0 then tspec_line (ev_rx e) x
      else if ev_fd e \<in> fd ` set (ts_conns x) then tspec_input (ev_fd e) (ev_rx e) x
      else x)"

text \<open>A message: its sender must be known; it is written out or sent to its destination, which must be known too.\<close>

definition tspec_message :: "MsgBuf \<Rightarrow> tspec \<Rightarrow> tspec option" where
  "tspec_message m x =
     (if mb_type m \<noteq> PROCESS_MSG then Some x
      else if by_id (mb_src m) (ts_conns x) = None then None
      else if mb_dest m = GetServerEndId then Some (x\<lparr>ts_written := ts_written x @ [mb_msg m]\<rparr>)
      else map_option (\<lambda>c. x\<lparr>ts_sent := ts_sent x @ [(Forward, fd c, m)]\<rparr>) (by_id (mb_dest m) (ts_conns x)))"

fun tspec_step :: "tcp_turn \<Rightarrow> tspec \<Rightarrow> tspec option" where
  "tspec_step (T_Epoll evs) x = Some (case evs of None \<Rightarrow> x | Some es \<Rightarrow> fold tspec_event es x)"
| "tspec_step (T_Process al ok wok) x =
     (case ts_queue x of [] \<Rightarrow> Some x | m # ms \<Rightarrow> tspec_message m (x\<lparr>ts_queue := ms\<rparr>))"

fun tspec_run :: "tcp_turn list \<Rightarrow> tspec \<Rightarrow> tspec option" where
  "tspec_run [] x = Some x"
| "tspec_run (tn # tns) x = do { x \<leftarrow> tspec_step tn x; tspec_run tns x }"

section \<open>Refinement\<close>

definition cur_text :: "tcp_server \<Rightarrow> byte list" where
  "cur_text s = (case msgBufs (conns s) of None \<Rightarrow> mb_msg zero_MsgBuf | Some (rx, tx) \<Rightarrow> mb_msg tx)"

definition tcp_view :: "tcp_server \<Rightarrow> tspec \<Rightarrow> bool" where
  "tcp_view s x \<longleftrightarrow> tsrv_rep s (ts_conns x) (ts_queue x) \<and> serverFd s = ts_fd x \<and> watched s = ts_watched x \<and>
     cur_rx s = ts_rx x \<and> cur_text s = ts_text x \<and> t_sent (conns s) = map snd (ts_sent x) \<and>
     t_closed (conns s) = ts_closed x \<and> written s = map (Pair 0) (ts_written x)"

definition tcp_abs :: "tcp_server \<times> MsgBuf \<Rightarrow> tspec \<Rightarrow> bool" where
  "tcp_abs st x \<longleftrightarrow> tcp_view (fst st) x \<and> wf_MsgBuf (snd st)"

subsection \<open>What the operations leave alone\<close>

lemma manager_keeps:
  "GetCliInfoManager hp t = Some (h, t') \<Longrightarrow> t_sent t' = t_sent t \<and> t_closed t' = t_closed t \<and> msgBufs t' = msgBufs t"
  by (auto simp: GetCliInfoManager_def InitCliInfoManager_def bind_eq_Some_conv split: if_splits)

lemma not_Inl_unit: "\<forall>a. y \<noteq> Inl (a, ()) \<Longrightarrow> \<exists>v. y = Inr v"
  by (cases y) auto

lemma list_ops_keep:
  "GetOneCliInfoByFd hp k t = Some (p, t') \<Longrightarrow> t_sent t' = t_sent t \<and> t_closed t' = t_closed t \<and> msgBufs t' = msgBufs t"
  "DelFromCliInfoByFd hp k t = Some (r, t') \<Longrightarrow> t_sent t' = t_sent t"
  "SaveOneCliInfoByFd hp k b t = Some (r, t') \<Longrightarrow> t_closed t' = t_closed t"
  by (auto simp: GetOneCliInfoByFd_def DelFromCliInfoByFd_def SaveOneCliInfoByFd_def bind_eq_Some_conv
      split: sum.splits dest!: manager_keeps not_Inl_unit)

lemma broadcast_keeps:
  assumes "SendMsgAllClient hp ok bok b t = Some (r, t')" "t_rep t cs" "fresh (t_mem t) hp" bok
  shows "t_closed t' = t_closed t"
proof -
  obtain h s1 xs where 1: "GetCliInfoManager hp t = Some (h, s1)" "qnodes (t_mem s1) h xs" "qdata (t_mem s1) xs = map Some cs"
    "t_closed s1 = t_closed t"
    using manager_ok [OF assms(2,3)] by blast
  have "dll (t_mem s1) h xs" "set xs \<subseteq> live (t_mem s1)" using 1(2) by (auto simp: qnodes_def dll_def)
  then show ?thesis
    using assms(1,4) 1 broadcast_each [OF _ 1(3), of ok b s1 0] list_for_each_eq [of "(t_mem s1, s1, 0)" h xs, OF _ bodies_keep(5)]
    by (auto simp: SendMsgAllClient_def)
qed

lemma tcp_ops_keep:
  "AcceptNewClient al acc ok s = Some (r, s') \<Longrightarrow> serverFd s' = serverFd s \<and> written s' = written s"
  "BroadcastAllClient al sok rx s = Some (r, s') \<Longrightarrow> serverFd s' = serverFd s \<and> written s' = written s \<and> watched s' = watched s"
  "ClientMsgEnQueue al sok rx k s = Some (r, s') \<Longrightarrow> serverFd s' = serverFd s \<and> written s' = written s \<and> watched s' = watched s"
  by (auto simp: AcceptNewClient_def AddEpollByFd_def BroadcastAllClient_def ClientMsgEnQueue_def bind_eq_Some_conv Let_def
      split: option.splits if_splits)

subsection \<open>The event thread\<close>

lemma view_alloc: "tcp_view s x \<Longrightarrow> tcp_alloc_ok al s \<Longrightarrow> t_rep (conns s) (ts_conns x) \<and> fresh (t_mem (conns s)) (ta_head al)"
  by (simp add: tcp_view_def tsrv_rep_def tcp_alloc_ok_def)

lemma view_bufs:
  "msgBufs t = msgBufs (conns s) \<Longrightarrow> cur_rx (s\<lparr>conns := t\<rparr>) = cur_rx s \<and> cur_text (s\<lparr>conns := t\<rparr>) = cur_text s"
  by (simp add: cur_rx_def cur_text_def)

lemma accept_sim:
  assumes "tcp_view s x" "tcp_alloc_ok al s"
  shows "\<exists>r s'. AcceptNewClient al acc ok s = Some (r, s') \<and> tcp_view s' (tspec_accept acc ok x)"
proof (cases acc)
  case None
  then show ?thesis using assms(1) by (simp add: AcceptNewClient_def tspec_accept_def)
next
  case (Some p)
  obtain k a where p: "p = (k, a)" by (cases p)
  let ?c = "\<lparr>fd = k, cliEndid = 0, addr_in = a\<rparr>"
  have rep: "tsrv_rep s (ts_conns x) (ts_queue x)" using assms(1) by (simp add: tcp_view_def)
  obtain t where t: "AddToCliInfo (ta_head al) (ta_node al) (Some ?c) (conns s) = Some (0, t)" "t_rep t (?c # ts_conns x)"
    "t_sent t = t_sent (conns s)" "t_closed t = t_closed (conns s)"
    using AddToCliInfo_ok [of "conns s" "ts_conns x" "ta_head al" "ta_node al" ?c] rep assms(2)
    by (auto simp: tsrv_rep_def tcp_alloc_ok_def)
  have "tsrv_rep (s\<lparr>conns := t\<rparr>) (?c # ts_conns x) (ts_queue x)"
    using tsrv_rep_bufs [OF rep t(2) bufs_same(3) [OF t(1)]] .
  then show ?thesis
    using assms(1) t Some p bufs_same(3) [OF t(1)]
    by (simp add: AcceptNewClient_def AddEpollByFd_def tspec_accept_def tcp_view_def tsrv_rep_def cur_rx_def cur_text_def)
qed

lemma get_buf_view:
  assumes "tcp_view s x"
  shows "\<exists>tx. msgBufs (GetMsgBuf True (conns s)) = Some (ts_rx x, tx) \<and> mb_msg tx = ts_text x \<and> wf_MsgBuf tx" "wf_MsgBuf (ts_rx x)"
proof -
  have rep: "tsrv_rep s (ts_conns x) (ts_queue x)" and eq: "cur_rx s = ts_rx x" "cur_text s = ts_text x"
    using assms by (simp_all add: tcp_view_def)
  show "wf_MsgBuf (ts_rx x)" using GetMsgBuf_ok(2) [OF rep] eq(1) by simp
  show "\<exists>tx. msgBufs (GetMsgBuf True (conns s)) = Some (ts_rx x, tx) \<and> mb_msg tx = ts_text x \<and> wf_MsgBuf tx"
    using GetMsgBuf_ok(1) [OF rep] eq by (auto simp: GetMsgBuf_def cur_rx_def cur_text_def split: option.splits)
qed

lemma line_sim:
  assumes "tcp_view s x" "tcp_alloc_ok al s"
  shows "\<exists>r s'. BroadcastAllClient al sok rx s = Some (r, s') \<and> tcp_view s' (tspec_line rx x)"
proof -
  let ?t = "GetMsgBuf True (conns s)" and ?b0 = "(ts_rx x)\<lparr>mb_msg := replicate MAX_MSG_LEN 0\<rparr>"
  have rep: "tsrv_rep s (ts_conns x) (ts_queue x)" using assms(1) by (simp add: tcp_view_def)
  obtain tx where bufs: "msgBufs ?t = Some (ts_rx x, tx)" "mb_msg tx = ts_text x" "wf_MsgBuf tx" "wf_MsgBuf (ts_rx x)"
    using get_buf_view [OF assms(1)] by blast
  note t = GetMsgBuf_ok(3-6) [OF rep]
  have rx: "rx_of ?t = Some (ts_rx x)" "ta_bufs al" "fresh (t_mem (conns s)) (ta_head al)" "mq_rep0 (msgq s) (ts_queue x)"
    using bufs(1) rep assms(2) by (auto simp: rx_of_def tcp_alloc_ok_def tsrv_rep_def)
  show ?thesis
  proof (cases rx)
    case None
    have "tsrv_rep (s\<lparr>conns := put_rx ?b0 ?t\<rparr>) (ts_conns x) (ts_queue x)"
      using bufs t(1) rx(4) by (simp add: tsrv_rep_def put_rx_rep) (simp add: put_rx_def wf_MsgBuf_def)
    then show ?thesis
      using None rx(1,2) assms(1) bufs(1,2) t(3,4)
      by (simp add: BroadcastAllClient_def tspec_line_def tcp_view_def cur_rx_def cur_text_def put_rx_def Let_def)
  next
    case (Some bytes)
    let ?d = "line_text bytes"
    let ?b = "?b0\<lparr>mb_msg := ?d\<rparr>"
    have d: "length ?d = MAX_MSG_LEN" "wf_MsgBuf ?b" by (auto simp: wf_MsgBuf_def line_text_def)
    have put: "msgBufs (put_rx ?b ?t) = Some (?b, tx)" "t_mem (put_rx ?b ?t) = t_mem (conns s)"
      "t_sent (put_rx ?b ?t) = t_sent (conns s)" "t_closed (put_rx ?b ?t) = t_closed (conns s)"
      using bufs(1) t(2-4) by (simp_all add: put_rx_def)
    have put': "t_rep (put_rx ?b ?t) (ts_conns x)" using t(1) by (simp only: put_rx_rep)
    obtain t' where t': "SendMsgAllClient (ta_head al) sok True ?b (put_rx ?b ?t) =
        Some (if \<forall>c \<in> set (ts_conns x). sok (fd c) then 0 else - 1, t')" "t_rep t' (ts_conns x)"
      "t_sent t' = t_sent (conns s) @ map (\<lambda>c. (fd c, server_msg (cliEndid c) ?d)) (ts_conns x)"
      "msgBufs t' = after_sends (ts_conns x) ?d (Some (?b, tx))"
      using SendMsgAllClient_ok [OF put', of "ta_head al" sok ?b] put(1-3) rx(3) by auto
    have "tsrv_rep (s\<lparr>conns := t'\<rparr>) (ts_conns x) (ts_queue x)"
      using t'(2,4) rx(4) after_sends_wf [OF d(2) bufs(3) d(1)] by (auto simp: tsrv_rep_def split: option.splits)
    moreover have "t_closed t' = t_closed (conns s)"
      using broadcast_keeps [OF t'(1) put'] put(2,4) rx(3) by simp
    moreover have "BroadcastAllClient al sok rx s = Some (if \<forall>c \<in> set (ts_conns x). sok (fd c) then 0 else - 1, s\<lparr>conns := t'\<rparr>)"
      using Some rx(1,2) t'(1) by (simp add: BroadcastAllClient_def line_text_def Let_def)
    ultimately show ?thesis
      using Some assms(1) t'(3,4) bufs(2)
      by (auto simp: tspec_line_def tcp_view_def cur_rx_def cur_text_def after_sends_def server_msg_def Let_def)
  qed
qed

lemma extract_drop_set:
  assumes "List.extract (\<lambda>c. fd c = k) cs = Some (as, c, bs)"
  shows "drop_conn k cs = as @ bs" "set_id k i cs = as @ c\<lparr>cliEndid := i\<rparr> # bs"
proof -
  have cs: "cs = as @ c # bs" "fd c = k" "\<forall>a \<in> set as. fd a \<noteq> k"
    using assms by (auto simp: extract_Some_iff)
  have "drop_conn k (as @ c # bs) = as @ bs \<and> set_id k i (as @ c # bs) = as @ c\<lparr>cliEndid := i\<rparr> # bs"
    using cs(2,3) by (induction as) auto
  then show "drop_conn k cs = as @ bs" "set_id k i cs = as @ c\<lparr>cliEndid := i\<rparr> # bs" by (simp_all add: cs(1))
qed

lemma shutdown_sim:
  assumes "tcp_view s x" "tcp_alloc_ok al s" "List.extract (\<lambda>c. fd c = k) (ts_conns x) = Some (as, c, bs)"
  shows "\<exists>r s'. ClientMsgEnQueue al sok (Some []) k s = Some (r, s') \<and> tcp_view s' (tspec_input k (Some []) x)"
proof -
  let ?t = "GetMsgBuf True (conns s)"
  have rep: "tsrv_rep s (ts_conns x) (ts_queue x)" using assms(1) by (simp add: tcp_view_def)
  obtain tx where bufs: "msgBufs ?t = Some (ts_rx x, tx)" "mb_msg tx = ts_text x" "wf_MsgBuf tx" "wf_MsgBuf (ts_rx x)"
    using get_buf_view [OF assms(1)] by blast
  note t = GetMsgBuf_ok(3-6) [OF rep]
  obtain t' where t': "DelFromCliInfoByFd (ta_head al) k ?t = Some (0, t')" "t_rep t' (as @ bs)"
    "t_closed t' = t_closed (conns s) @ [k]"
    using DelFromCliInfoByFd_ok [OF t(1), of "ta_head al" k] assms(2,3) t(2,4) by (auto simp: tcp_alloc_ok_def)
  have "msgBufs t' = Some (ts_rx x, tx)" "t_sent t' = t_sent (conns s)"
    using bufs_same(2) [OF t'(1)] list_ops_keep(2) [OF t'(1)] bufs(1) t(3) by simp_all
  then show ?thesis
    using assms(1,2) t' bufs(2-4) rep extract_drop_set(1) [OF assms(3)]
    by (simp add: ClientMsgEnQueue_def tspec_input_def tcp_view_def tcp_alloc_ok_def tsrv_rep_def cur_rx_def cur_text_def Let_def)
qed

lemma report_sim:
  assumes "tcp_view s x" "tcp_alloc_ok al s" "List.extract (\<lambda>c. fd c = k) (ts_conns x) = Some (as, c, bs)"
    "bytes \<noteq> []" "mb_type (recv_into bytes (ts_rx x)) = SAVE_CLI_INFO"
  shows "\<exists>r s'. ClientMsgEnQueue al sok (Some bytes) k s = Some (r, s') \<and> tcp_view s' (tspec_input k (Some bytes) x)"
proof -
  let ?t = "GetMsgBuf True (conns s)" and ?b = "recv_into bytes (ts_rx x)"
  let ?c = "c\<lparr>cliEndid := mb_src ?b\<rparr>"
  have rep: "tsrv_rep s (ts_conns x) (ts_queue x)" using assms(1) by (simp add: tcp_view_def)
  obtain tx where bufs: "msgBufs ?t = Some (ts_rx x, tx)" "mb_msg tx = ts_text x" "wf_MsgBuf tx" "wf_MsgBuf (ts_rx x)"
    using get_buf_view [OF assms(1)] by blast
  have wf: "wf_MsgBuf ?b" using recv_wf [OF bufs(4)] .
  note t = GetMsgBuf_ok(3-6) [OF rep]
  let ?t0 = "put_rx ?b ?t"
  have bk: "t_mem ?t0 = t_mem (conns s)" "t_sent ?t0 = t_sent (conns s)" "t_closed ?t0 = t_closed (conns s)" "msgBufs ?t0 = Some (?b, tx)"
    using t(2-4) bufs(1) by (simp_all add: put_rx_def)
  have fr: "fresh (t_mem ?t0) (ta_head al)" "t_rep ?t0 (ts_conns x)"
    using assms(2) t(1) bk(1) by (simp_all add: put_rx_rep tcp_alloc_ok_def)
  obtain t1 where t1: "SaveOneCliInfoByFd (ta_head al) k ?b ?t0 = Some (0, t1)" "t_rep t1 (as @ ?c # bs)"
    "t_sent t1 = t_sent (conns s)" "msgBufs t1 = Some (?b, tx)" "live (t_mem t1) = live (t_mem ?t0)"
    using SaveOneCliInfoByFd_ok [OF fr(2,1), of k ?b] assms(3) bk(2,4) by (auto simp: extract_Nil_code)
  have ex: "List.extract (\<lambda>c. fd c = k) (as @ ?c # bs) = Some (as, ?c, bs)"
    using assms(3) by (auto simp: extract_Some_iff)
  have "fresh (t_mem t1) (ta_head al)" using fr(1) t1(5) by (simp add: fresh_def)
  then obtain t2 b2 where t2: "SendInitInfoToCliByFd (ta_head al) sok True k t1 = Some (if sok k then 0 else - 1, t2)"
    "t_rep t2 (as @ ?c # bs)" "t_sent t2 = t_sent t1 @ [(k, b2)]" "mb_type b2 = SAVE_CLI_INFO" "mb_src b2 = SERVER_ENDID"
    "mb_dest b2 = mb_src ?b" "mb_msg b2 = mb_msg tx" "t_closed t2 = t_closed t1" "msgBufs t2 = Some (?b, b2)"
    using SendInitInfoToCliByFd_ok [OF t1(2) _ ex, of "ta_head al" sok] t1(4) by auto
  have b2: "b2 = \<lparr>mb_type = SAVE_CLI_INFO, mb_src = SERVER_ENDID, mb_dest = mb_src ?b, mb_msg = ts_text x\<rparr>"
    using t2(4-7) bufs(2) by (cases b2) simp
  have "t_closed t2 = t_closed (conns s)"
    using t2(8) list_ops_keep(3) [OF t1(1)] bk(3) by simp
  moreover have "ClientMsgEnQueue al sok (Some bytes) k s = Some (0, s\<lparr>conns := t2\<rparr>)"
    using bufs(1) assms(2,4,5) t1(1) t2(1) by (simp add: ClientMsgEnQueue_def tcp_alloc_ok_def rx_of_def Let_def)
  moreover have "wf_MsgBuf b2" using bufs(2,3) b2 by (simp add: wf_MsgBuf_def)
  ultimately show ?thesis
    using assms(1,4,5) rep t2(2,3,9) t1(3) b2 wf extract_drop_set(2) [OF assms(3), of "mb_src ?b"]
    by (simp add: tspec_input_def tcp_view_def tsrv_rep_def cur_rx_def cur_text_def Let_def)
qed

lemma data_sim:
  assumes "tcp_view s x" "tcp_alloc_ok al s" "bytes \<noteq> []" "mb_type (recv_into bytes (ts_rx x)) \<noteq> SAVE_CLI_INFO"
  shows "\<exists>r s'. ClientMsgEnQueue al sok (Some bytes) k s = Some (r, s') \<and> tcp_view s' (tspec_input k (Some bytes) x)"
proof -
  let ?t = "GetMsgBuf True (conns s)" and ?b = "recv_into bytes (ts_rx x)"
  have rep: "tsrv_rep s (ts_conns x) (ts_queue x)" using assms(1) by (simp add: tcp_view_def)
  obtain tx where bufs: "msgBufs ?t = Some (ts_rx x, tx)" "mb_msg tx = ts_text x" "wf_MsgBuf tx" "wf_MsgBuf (ts_rx x)"
    using get_buf_view [OF assms(1)] by blast
  have wf: "wf_MsgBuf ?b" using recv_wf [OF bufs(4)] .
  note t = GetMsgBuf_ok(3-6) [OF rep]
  obtain q where q: "EnMsgLinkQueue (ta_lq al) ?b (msgq s) = Some (QUEUE_SUCCESS, q)" "mq_rep q (ts_queue x @ [?b])"
    using EnMsgLinkQueue_ok [of "msgq s" "ts_queue x" "ta_lq al" ?b] rep assms(2) wf mq_ok0_wf
    by (auto simp: tsrv_rep_def tcp_alloc_ok_def)
  have "ClientMsgEnQueue al sok (Some bytes) k s = Some (0, s\<lparr>conns := put_rx ?b ?t, msgq := q\<rparr>)"
    using bufs(1) q(1) assms(2-4) by (simp add: ClientMsgEnQueue_def tcp_alloc_ok_def rx_of_def Let_def)
  moreover have "tsrv_rep (s\<lparr>conns := put_rx ?b ?t, msgq := q\<rparr>) (ts_conns x) (ts_queue x @ [?b])"
    using bufs wf t(1) q(2) by (simp add: tsrv_rep_def put_rx_rep mq_rep0_def) (simp add: put_rx_def)
  ultimately show ?thesis
    using assms(1,3,4) bufs(1,2) t(3,4)
    by (simp add: tspec_input_def tcp_view_def cur_rx_def cur_text_def put_rx_def Let_def)
qed

lemma input_sim:
  assumes "tcp_view s x" "tcp_alloc_ok al s" "List.extract (\<lambda>c. fd c = k) (ts_conns x) = Some (as, c, bs)"
  shows "\<exists>r s'. ClientMsgEnQueue al sok rx k s = Some (r, s') \<and> tcp_view s' (tspec_input k rx x)"
proof -
  consider "rx = None" | "rx = Some []" | bytes where "rx = Some bytes" "bytes \<noteq> []"
    by (cases rx) auto
  then show ?thesis
  proof cases
    case 1
    have rep: "tsrv_rep s (ts_conns x) (ts_queue x)" using assms(1) by (simp add: tcp_view_def)
    show ?thesis
      using 1 assms(1,2) get_buf_view [OF assms(1)] GetMsgBuf_ok(3,5,6) [OF rep]
      by (auto simp: ClientMsgEnQueue_def tspec_input_def tcp_view_def tcp_alloc_ok_def tsrv_rep_def cur_rx_def cur_text_def Let_def)
  next
    case 2
    then show ?thesis using shutdown_sim [OF assms] by simp
  next
    case (3 bytes)
    then show ?thesis
      using report_sim [OF assms 3(2)] data_sim [OF assms(1,2) 3(2)]
      by (cases "mb_type (recv_into bytes (ts_rx x)) = SAVE_CLI_INFO") auto
  qed
qed

lemma event_sim:
  assumes "tcp_view s x" "tcp_alloc_ok (ev_alloc e) s"
  shows "\<exists>r s'. ProcessEventsByFd e s = Some (r, s') \<and> tcp_view s' (tspec_event e x)"
proof -
  have sfd: "serverFd s = ts_fd x" and rep: "tsrv_rep s (ts_conns x) (ts_queue x)" using assms(1) by (simp_all add: tcp_view_def)
  consider "ev_fd e = ts_fd x" | "ev_fd e \<noteq> ts_fd x" "ev_fd e = 0" | "ev_fd e \<noteq> ts_fd x" "ev_fd e \<noteq> 0" by blast
  then show ?thesis
  proof cases
    case 1
    then show ?thesis
      using accept_sim [OF assms, of "ev_accept e" "ev_ctl e"] sfd by (auto simp: ProcessEventsByFd_def tspec_event_def)
  next
    case 2
    then show ?thesis
      using line_sim [OF assms, of "ev_send e" "ev_rx e"] sfd by (auto simp: ProcessEventsByFd_def tspec_event_def)
  next
    case 3
    show ?thesis
    proof (cases "List.extract (\<lambda>c. fd c = ev_fd e) (ts_conns x)")
      case (Some r)
      obtain as c bs where r: "r = (as, c, bs)" by (cases r)
      have "ev_fd e \<in> fd ` set (ts_conns x)" using Some r by (auto simp: extract_Some_iff)
      then show ?thesis
        using input_sim [OF assms Some [unfolded r], of "ev_send e" "ev_rx e"] 3 sfd
          ProcessEventsByFd_known [OF rep _ _ 3(2) Some [unfolded r]] view_alloc [OF assms]
        by (auto simp: tspec_event_def)
    next
      case None
      have "ev_fd e \<notin> fd ` set (ts_conns x)" using None by (auto simp: extract_None)
      moreover obtain p t' where p: "GetOneCliInfoByFd (ta_head (ev_alloc e)) (ev_fd e) (conns s) = Some (p, t')" "t_rep t' (ts_conns x)"
        "found t' (\<lambda>c. fd c = ev_fd e) (ts_conns x) p"
        using GetOneCliInfoByFd_ok view_alloc [OF assms] by blast
      ultimately show ?thesis
        using None 3 sfd assms(1) tsrv_rep_bufs [OF rep p(2)] list_ops_keep(1) [OF p(1)]
        by (simp add: ProcessEventsByFd_def tspec_event_def found_def tcp_view_def cur_rx_def cur_text_def)
    qed
  qed
qed

lemma events_sim:
  "tcp_view s x \<Longrightarrow> events_env es s \<Longrightarrow> \<exists>s'. process_events es s = Some s' \<and> tcp_view s' (fold tspec_event es x)"
proof (induction es arbitrary: s x)
  case (Cons e es)
  have al: "tcp_alloc_ok (ev_alloc e) s" using Cons.prems(2) by simp
  obtain r s1 where "ProcessEventsByFd e s = Some (r, s1)" "tcp_view s1 (tspec_event e x)"
    using event_sim [OF Cons.prems(1) al] by blast
  then show ?case using Cons.IH Cons.prems(2) by auto
qed simp

subsection \<open>The processing thread\<close>

definition tcp_refines :: "(tcp_server \<times> MsgBuf) option \<Rightarrow> tspec option \<Rightarrow> bool" where
  "tcp_refines r y \<longleftrightarrow> (case y of None \<Rightarrow> r = None | Some x \<Rightarrow> \<exists>st. r = Some st \<and> tcp_abs st x)"

lemma message_sim:
  assumes "tcp_view s x" "fresh (t_mem (conns s)) hp" "wf_MsgBuf b"
  shows "case tspec_message b x of
      None \<Rightarrow> ProcessMsg hp ok wok b s = None
    | Some x' \<Rightarrow> \<exists>r s'. ProcessMsg hp ok wok b s = Some (r, s') \<and> tcp_view s' x'"
proof (cases "mb_type b = PROCESS_MSG")
  case False
  then show ?thesis using assms(1) by (simp add: ProcessMsg_def tspec_message_def)
next
  case True
  have rep: "t_rep (conns s) (ts_conns x)" using assms(1) by (simp add: tcp_view_def tsrv_rep_def)
  have sent: "t_rep (conns s\<lparr>t_sent := out\<rparr>) (ts_conns x)" for out
    using t_rep_cong [of "conns s\<lparr>t_sent := out\<rparr>" "conns s"] rep by simp
  note pm = ProcessMsg_ok [OF rep assms(2,3) True, of ok wok]
  consider "\<not> ends_known b (ts_conns x)" | c where "by_id (mb_src b) (ts_conns x) = Some c" "mb_dest b = GetServerEndId"
    | c d where "by_id (mb_src b) (ts_conns x) = Some c" "mb_dest b \<noteq> GetServerEndId" "by_id (mb_dest b) (ts_conns x) = Some d"
    by (cases "by_id (mb_src b) (ts_conns x)"; cases "by_id (mb_dest b) (ts_conns x)") (auto simp: ends_known_def)
  then show ?thesis
  proof cases
    case 1
    then show ?thesis using pm True by (auto simp: tspec_message_def ends_known_def)
  next
    case 2
    then show ?thesis
      using pm True assms(1)
      by (simp add: tspec_message_def ends_known_def tcp_view_def tsrv_rep_def cur_rx_def cur_text_def)
  next
    case 3
    then show ?thesis
      using pm True assms(1) sent
      by (simp add: tspec_message_def ends_known_def tcp_view_def tsrv_rep_def cur_rx_def cur_text_def)
  qed
qed

lemma process_sim:
  assumes "tcp_abs (s, buf) x" "tcp_alloc_ok al s"
  shows "tcp_refines (tcp_step (T_Process al ok wok) (s, buf)) (tspec_step (T_Process al ok wok) x)"
proof -
  have v: "tcp_view s x" "wf_MsgBuf buf" and rep: "tsrv_rep s (ts_conns x) (ts_queue x)"
    using assms(1) by (simp_all add: tcp_abs_def tcp_view_def)
  show ?thesis
  proof (cases "ts_queue x")
    case Nil
    obtain q where q: "DeMsgLinkQueue (ta_lq al) buf (msgq s) = Some (QUEUE_EMPTY, buf, q)" "mq_rep q []"
      using DeMsgLinkQueue_empty [of "msgq s" "ta_lq al" buf] rep assms(2) Nil by (auto simp: tsrv_rep_def tcp_alloc_ok_def mq_ok0_def)
    then show ?thesis
      using v Nil by (simp add: ProcessCliMsg_round_def tcp_refines_def tcp_abs_def tcp_view_def tsrv_rep_def mq_rep0_def
          cur_rx_def cur_text_def)
  next
    case (Cons b ms)
    obtain q where q: "mq_rep q ms" "tsrv_rep (s\<lparr>msgq := q\<rparr>) (ts_conns x) ms"
      "ProcessCliMsg_round al ok wok buf s = do { (_, s') \<leftarrow> ProcessMsg (ta_head al) ok wok b (s\<lparr>msgq := q\<rparr>); Some (b, s') }"
      using ProcessCliMsg_take [OF rep [unfolded Cons] v(2)] by blast
    have wf: "wf_MsgBuf b" using rep mq_rep_wf [of "msgq s" "b # ms" b] Cons by (auto simp: tsrv_rep_def mq_rep0_Cons)
    have "tcp_view (s\<lparr>msgq := q\<rparr>) (x\<lparr>ts_queue := ms\<rparr>)"
      using v(1) q(2) by (simp add: tcp_view_def cur_rx_def cur_text_def)
    then show ?thesis
      using message_sim [of "s\<lparr>msgq := q\<rparr>" "x\<lparr>ts_queue := ms\<rparr>" "ta_head al" b ok wok] view_alloc [OF v(1) assms(2)] q(3) wf Cons
      by (auto simp: tcp_refines_def tcp_abs_def split: option.splits)
  qed
qed

lemma tcp_step_refines:
  assumes "tcp_abs st x" "turn_env tn (fst st)"
  shows "tcp_refines (tcp_step tn st) (tspec_step tn x)"
proof -
  obtain s buf where st: "st = (s, buf)" by fastforce
  show ?thesis
  proof (cases tn)
    case (T_Epoll evs)
    have v: "tcp_view s x" "wf_MsgBuf buf" using assms(1) st by (simp_all add: tcp_abs_def)
    obtain s' where "ProcessEpoll_round evs s = Some s'" "tcp_view s' (case evs of None \<Rightarrow> x | Some es \<Rightarrow> fold tspec_event es x)"
      using v(1) events_sim [of s x] assms(2) st T_Epoll by (cases evs) (auto simp: ProcessEpoll_round_def)
    then show ?thesis using v(2) st T_Epoll by (simp add: tcp_refines_def tcp_abs_def)
  next
    case (T_Process al ok wok)
    then show ?thesis using process_sim assms st by simp
  qed
qed

lemma tcp_run_refines:
  "tcp_abs st x \<Longrightarrow> tcp_env tns st \<Longrightarrow> tcp_refines (tcp_run tns st) (tspec_run tns x)"
proof (induction tns arbitrary: st x)
  case (Cons tn tns)
  have "tcp_refines (tcp_step tn st) (tspec_step tn x)"
    using tcp_step_refines [OF Cons.prems(1)] Cons.prems(2) by simp
  then consider "tspec_step tn x = None" "tcp_step tn st = None"
    | x' st' where "tspec_step tn x = Some x'" "tcp_step tn st = Some st'" "tcp_abs st' x'"
    by (auto simp: tcp_refines_def split: option.splits)
  then show ?case
  proof cases
    case 2
    then show ?thesis using Cons.IH [of st' x'] Cons.prems(2) by simp
  qed (simp add: tcp_refines_def)
qed (simp add: tcp_refines_def)

end
