(* ===== verification/Tcp_Run.thy ===== *)
theory Tcp_Run
  imports Tcp_Spec
begin

text \<open>
  Runs of the TCP server: that the allocator can always answer as \<open>tcp_env\<close> asks, the order of messages, and what
  follows from the refinement in \<open>Tcp_Spec\<close>.
\<close>

section \<open>Blocks in use\<close>

definition lq_blocks :: "lmem \<Rightarrow> addr set" where
  "lq_blocks m = dom (lnodes m) \<union> dom (lbufs m)"

lemma EnLinkQueue_blocks:
  assumes "EnLinkQueue node buf data n q m = Some (r, q', m')"
  shows "lq_blocks m' \<subseteq> lq_blocks m \<union> {node, buf}"
  using assms unfolding EnLinkQueue_def
  by (auto simp: lq_blocks_def bind_eq_Some_conv Let_def split: if_splits option.splits)

lemma DeLinkQueue_blocks:
  assumes "DeLinkQueue data n q m = Some (r, out, q', m')"
  shows "lq_blocks m' \<subseteq> lq_blocks m"
proof (cases "lq_dataSize q = n \<and> lq_front q \<noteq> lq_rear q")
  case True
  then have "\<exists>p m1. free_buf p m = Some m1 \<and> m' = m1\<lparr>lnodes := (lnodes m1)(lq_front q := None)\<rparr>"
    using assms by (fastforce simp: DeLinkQueue_def bind_eq_Some_conv)
  then show ?thesis by (auto simp: lq_blocks_def free_buf_def split: if_splits)
qed (use assms in \<open>auto simp: DeLinkQueue_def split: if_splits\<close>)

lemma GetMsgLinkQueue_blocks:
  "GetMsgLinkQueue al s = Some (q, s') \<Longrightarrow> lq_blocks (lq_mem s') \<subseteq> insert (lqa_first al) (lq_blocks (lq_mem s))"
  by (auto simp: GetMsgLinkQueue_def InitLinkQueue_def lq_blocks_def bind_eq_Some_conv Let_def split: if_splits)

lemma msg_queue_blocks:
  "EnMsgLinkQueue al b q = Some (r, q') \<Longrightarrow>
     lq_blocks (lq_mem q') \<subseteq> lq_blocks (lq_mem q) \<union> {lqa_first al, lqa_node al, lqa_data al}"
  "DeMsgLinkQueue al b q = Some (r, out, q') \<Longrightarrow> lq_blocks (lq_mem q') \<subseteq> insert (lqa_first al) (lq_blocks (lq_mem q))"
  by (fastforce simp: EnMsgLinkQueue_def DeMsgLinkQueue_def bind_eq_Some_conv split: if_splits
      dest!: GetMsgLinkQueue_blocks EnLinkQueue_blocks DeLinkQueue_blocks)+

lemma manager_live: "GetCliInfoManager hp t = Some (h, t') \<Longrightarrow> live (t_mem t') \<subseteq> insert hp (live (t_mem t))"
  using writes_live(4) [of hp "t_mem t"]
  by (auto simp: GetCliInfoManager_def InitCliInfoManager_def bind_eq_Some_conv split: if_splits dest!: list_ops_live(4))

lemma search_live:
  "GetOneCliInfoByFd hp k t = Some (p, t') \<Longrightarrow> live (t_mem t') \<subseteq> insert hp (live (t_mem t))"
  "GetOneCliInfoByEndID hp i t = Some (p, t') \<Longrightarrow> live (t_mem t') \<subseteq> insert hp (live (t_mem t))"
  using manager_live [of hp t]
  by (auto simp: GetOneCliInfoByFd_def GetOneCliInfoByEndID_def bind_eq_Some_conv)

lemma AddToCliInfo_live:
  "AddToCliInfo hp np c t = Some (r, t') \<Longrightarrow> live (t_mem t') \<subseteq> {hp, np} \<union> live (t_mem t)"
  using writes_live(4) [of np "t_mem t"]
  by (fastforce simp: AddToCliInfo_def bind_eq_Some_conv split: option.splits
      dest!: manager_live writes_live(3) list_ops_live(2))

lemma DelFromCliInfoByFd_live:
  assumes "DelFromCliInfoByFd hp k t = Some (r, t')"
  shows "live (t_mem t') \<subseteq> insert hp (live (t_mem t))"
proof -
  obtain h t1 w where 1: "GetCliInfoManager hp t = Some (h, t1)" "list_for_each (del_body k) h (t_mem t1, ()) = Some w"
    "(case w of Inr m \<Rightarrow> Some (0, t1\<lparr>t_mem := m, t_closed := t_closed t1 @ [k]\<rparr>) | Inl _ \<Rightarrow> Some (- 1, t1)) = Some (r, t')"
    using assms by (auto simp: DelFromCliInfoByFd_def bind_eq_Some_conv)
  have "case w of Inl ms' \<Rightarrow> live (fst ms') \<subseteq> live (t_mem t1) | Inr m \<Rightarrow> live m \<subseteq> live (t_mem t1)"
  proof (rule traverse_keeps [OF 1(2)])
    show "case r of Inl ms' \<Rightarrow> live (fst ms') \<subseteq> live (t_mem t1) | Inr m \<Rightarrow> live m \<subseteq> live (t_mem t1)"
      if "live (fst ms) \<subseteq> live (t_mem t1)" "del_body k p ms = Some r" for p ms r
      using that by (auto simp: del_body_def bind_eq_Some_conv split: if_splits dest!: writes_live(5) list_ops_live(3))
  qed simp
  then show ?thesis using 1(3) manager_live [OF 1(1)] by (auto split: sum.splits)
qed

lemma SaveOneCliInfoByFd_live:
  assumes "SaveOneCliInfoByFd hp k b t = Some (r, t')"
  shows "live (t_mem t') \<subseteq> insert hp (live (t_mem t))"
proof -
  obtain h t1 w where 1: "GetCliInfoManager hp t = Some (h, t1)" "list_for_each (save_body k b) h (t_mem t1, ()) = Some w"
    "(case w of Inr m \<Rightarrow> Some (0, t1\<lparr>t_mem := m\<rparr>) | Inl _ \<Rightarrow> Some (- 1, t1)) = Some (r, t')"
    using assms by (auto simp: SaveOneCliInfoByFd_def bind_eq_Some_conv)
  have "case w of Inl ms' \<Rightarrow> live (fst ms') \<subseteq> live (t_mem t1) | Inr m \<Rightarrow> live m \<subseteq> live (t_mem t1)"
  proof (rule traverse_keeps [OF 1(2)])
    show "case r of Inl ms' \<Rightarrow> live (fst ms') \<subseteq> live (t_mem t1) | Inr m \<Rightarrow> live m \<subseteq> live (t_mem t1)"
      if "live (fst ms) \<subseteq> live (t_mem t1)" "save_body k b p ms = Some r" for p ms r
      using that by (auto simp: save_body_def bind_eq_Some_conv split: if_splits dest!: writes_live(3))
  qed simp
  then show ?thesis using 1(3) manager_live [OF 1(1)] by (auto split: sum.splits)
qed

lemma SendInitInfoToCliByFd_live:
  assumes "SendInitInfoToCliByFd hp ok bok k t = Some (r, t')"
  shows "live (t_mem t') \<subseteq> insert hp (live (t_mem t))"
proof -
  obtain h t1 w where 1: "GetCliInfoManager hp t = Some (h, t1)" "list_for_each (init_info_body k ok bok t1) h (t_mem t1, ()) = Some w"
    "(case w of Inr rs \<Rightarrow> Some rs | Inl _ \<Rightarrow> Some (- 1, t1)) = Some (r, t')"
    using assms by (auto simp: SendInitInfoToCliByFd_def bind_eq_Some_conv)
  have "case w of Inl ms' \<Rightarrow> True | Inr rs \<Rightarrow> t_mem (snd rs) = t_mem t1"
    by (rule traverse_keeps [OF 1(2)])
      (auto simp: init_info_body_def put_tx_def Let_def bind_eq_Some_conv split: if_splits)
  then show ?thesis using 1(3) manager_live [OF 1(1)] by (auto split: sum.splits)
qed

lemma SendMsgAllClient_live:
  assumes "SendMsgAllClient hp ok bok b t = Some (r, t')"
  shows "live (t_mem t') \<subseteq> insert hp (live (t_mem t))"
proof -
  obtain h t1 w where 1: "GetCliInfoManager hp t = Some (h, t1)"
    "list_for_each (broadcast_body ok bok b) h (t_mem t1, t1, 0) = Some w"
    "(case w of Inl (m, s, ret) \<Rightarrow> Some (ret, s) | Inr _ \<Rightarrow> None) = Some (r, t')"
    using assms by (auto simp: SendMsgAllClient_def bind_eq_Some_conv)
  have "case w of Inl ms' \<Rightarrow> t_mem (fst (snd ms')) = t_mem t1 | Inr (_ :: unit) \<Rightarrow> True"
    by (rule traverse_keeps [OF 1(2)])
      (auto simp: broadcast_body_def put_tx_def Let_def bind_eq_Some_conv split: if_splits)
  then show ?thesis using 1(3) manager_live [OF 1(1)] by (auto split: sum.splits)
qed

lemma DisplayMsgBuf_live:
  "tcp_DisplayMsgBuf hp b t = Some (l, t') \<Longrightarrow> live (t_mem t') \<subseteq> insert hp (live (t_mem t))"
  by (fastforce simp: tcp_DisplayMsgBuf_def bind_eq_Some_conv split: if_splits dest!: search_live(2))

definition tcp_blocks :: "tcp_server \<Rightarrow> addr set" where
  "tcp_blocks s = live (t_mem (conns s)) \<union> lq_blocks (lq_mem (msgq s))"

definition alloc_addrs :: "tcp_alloc \<Rightarrow> addr list" where
  "alloc_addrs al = [ta_head al, ta_node al, lqa_first (ta_lq al), lqa_node (ta_lq al), lqa_data (ta_lq al)]"

lemma rx_calls_blocks:
  "AcceptNewClient al acc ok s = Some (r, s') \<Longrightarrow> tcp_blocks s' \<subseteq> tcp_blocks s \<union> set (alloc_addrs al)"
  "BroadcastAllClient al sok rx s = Some (r, s') \<Longrightarrow> tcp_blocks s' \<subseteq> tcp_blocks s \<union> set (alloc_addrs al)"
proof -
  show "AcceptNewClient al acc ok s = Some (r, s') \<Longrightarrow> tcp_blocks s' \<subseteq> tcp_blocks s \<union> set (alloc_addrs al)"
    by (fastforce simp: AcceptNewClient_def AddEpollByFd_def tcp_blocks_def alloc_addrs_def bind_eq_Some_conv
        split: option.splits if_splits dest!: AddToCliInfo_live)
  have buf: "t_mem (put_rx b (GetMsgBuf bok t)) = t_mem t" for b bok t by (simp add: put_rx_def GetMsgBuf_def)
  show "BroadcastAllClient al sok rx s = Some (r, s') \<Longrightarrow> tcp_blocks s' \<subseteq> tcp_blocks s \<union> set (alloc_addrs al)"
    by (fastforce simp: BroadcastAllClient_def Let_def tcp_blocks_def alloc_addrs_def bind_eq_Some_conv buf
        split: option.splits if_splits dest!: SendMsgAllClient_live)
qed

lemma ClientMsgEnQueue_blocks:
  assumes "ClientMsgEnQueue al sok rx k s = Some (r, s')"
  shows "tcp_blocks s' \<subseteq> tcp_blocks s \<union> set (alloc_addrs al)"
proof -
  have buf: "t_mem (put_rx b (GetMsgBuf bok t)) = t_mem t" "t_mem (GetMsgBuf bok t) = t_mem t" for b bok t
    by (simp_all add: put_rx_def GetMsgBuf_def)
  consider "rx = None" | "rx = Some []" | bytes where "rx = Some bytes" "bytes \<noteq> []" by (cases rx) auto
  then show ?thesis
  proof cases
    case 1
    then show ?thesis using assms by (auto simp: ClientMsgEnQueue_def Let_def tcp_blocks_def buf)
  next
    case 2
    then show ?thesis using assms
      by (fastforce simp: ClientMsgEnQueue_def Let_def tcp_blocks_def alloc_addrs_def buf bind_eq_Some_conv dest!: DelFromCliInfoByFd_live)
  next
    case (3 bytes)
    then obtain b where b: "(let t = put_rx b (GetMsgBuf (ta_bufs al) (conns s)) in
           if mb_type b = SAVE_CLI_INFO then do {
             (_, t) \<leftarrow> SaveOneCliInfoByFd (ta_head al) k b t;
             (_, t) \<leftarrow> SendInitInfoToCliByFd (ta_head al) sok (ta_bufs al) k t;
             Some (0, s\<lparr>conns := t\<rparr>) }
           else do {
             (_, q) \<leftarrow> EnMsgLinkQueue (ta_lq al) b (msgq s);
             Some (0, s\<lparr>conns := t, msgq := q\<rparr>) }) = Some (r, s')"
      using assms unfolding ClientMsgEnQueue_def by (simp add: Let_def bind_eq_Some_conv) blast
    show ?thesis
    proof (cases "mb_type b = SAVE_CLI_INFO")
      case True
      then show ?thesis using b
        by (fastforce simp: Let_def tcp_blocks_def alloc_addrs_def buf bind_eq_Some_conv
            dest!: SaveOneCliInfoByFd_live SendInitInfoToCliByFd_live)
    next
      case False
      then show ?thesis using b
        by (fastforce simp: Let_def tcp_blocks_def alloc_addrs_def buf bind_eq_Some_conv dest!: msg_queue_blocks(1))
    qed
  qed
qed

lemma event_blocks:
  "ProcessEventsByFd e s = Some (r, s') \<Longrightarrow> tcp_blocks s' \<subseteq> tcp_blocks s \<union> set (alloc_addrs (ev_alloc e))"
proof -
  assume a: "ProcessEventsByFd e s = Some (r, s')"
  consider "ev_fd e = serverFd s" | "ev_fd e \<noteq> serverFd s" "ev_fd e = 0" | "ev_fd e \<noteq> serverFd s" "ev_fd e \<noteq> 0" by blast
  then show ?thesis
  proof cases
    case 3
    obtain p t where t: "GetOneCliInfoByFd (ta_head (ev_alloc e)) (ev_fd e) (conns s) = Some (p, t)"
      using a 3 by (auto simp: ProcessEventsByFd_def bind_eq_Some_conv)
    have 1: "tcp_blocks (s\<lparr>conns := t\<rparr>) \<subseteq> tcp_blocks s \<union> set (alloc_addrs (ev_alloc e))"
      using search_live(1) [OF t] by (auto simp: tcp_blocks_def alloc_addrs_def)
    have "tcp_blocks s' \<subseteq> tcp_blocks (s\<lparr>conns := t\<rparr>) \<union> set (alloc_addrs (ev_alloc e))"
      using a 3 t by (auto simp: ProcessEventsByFd_def Let_def bind_eq_Some_conv split: if_splits dest!: ClientMsgEnQueue_blocks)
    then show ?thesis using 1 by blast
  qed (use a rx_calls_blocks in \<open>fastforce simp: ProcessEventsByFd_def bind_eq_Some_conv\<close>)+
qed

lemma ProcessMsg_blocks:
  "ProcessMsg hp ok wok b s = Some (r, s') \<Longrightarrow> tcp_blocks s' \<subseteq> insert hp (tcp_blocks s)"
  by (fastforce simp: ProcessMsg_def Let_def tcp_blocks_def bind_eq_Some_conv split: if_splits
      dest!: DisplayMsgBuf_live search_live(2))

lemma process_blocks:
  assumes "ProcessCliMsg_round al ok wok buf s = Some (buf', s')"
  shows "tcp_blocks s' \<subseteq> tcp_blocks s \<union> set (alloc_addrs al)"
proof -
  obtain r b q where q: "DeMsgLinkQueue (ta_lq al) buf (msgq s) = Some (r, b, q)"
    using assms by (auto simp: ProcessCliMsg_round_def bind_eq_Some_conv)
  have 1: "tcp_blocks (s\<lparr>msgq := q\<rparr>) \<subseteq> tcp_blocks s \<union> set (alloc_addrs al)"
    using msg_queue_blocks(2) [OF q] by (auto simp: tcp_blocks_def alloc_addrs_def)
  have "tcp_blocks s' \<subseteq> insert (ta_head al) (tcp_blocks (s\<lparr>msgq := q\<rparr>))"
    using assms q by (auto simp: ProcessCliMsg_round_def Let_def bind_eq_Some_conv split: if_splits dest!: ProcessMsg_blocks)
  then show ?thesis using 1 by (auto simp: alloc_addrs_def)
qed

text \<open>Answers of the allocator that use no address twice and none that is in use.\<close>

definition allocs_fit :: "tcp_alloc list \<Rightarrow> tcp_server \<Rightarrow> bool" where
  "allocs_fit als s \<longleftrightarrow> (\<forall>al \<in> set als. ta_bufs al \<and> lqa_ok (ta_lq al)) \<and> distinct (concat (map alloc_addrs als)) \<and>
     set (concat (map alloc_addrs als)) \<inter> insert NULL (tcp_blocks s) = {}"

lemma allocs_fit_step:
  assumes "allocs_fit (al # als) s"
  shows "tcp_alloc_ok al s" "tcp_blocks s' \<subseteq> tcp_blocks s \<union> set (alloc_addrs al) \<Longrightarrow> allocs_fit als s'"
proof -
  show "tcp_alloc_ok al s"
    using assms by (auto simp: allocs_fit_def tcp_alloc_ok_def alloc_addrs_def tcp_blocks_def lq_blocks_def fresh_def mq_ok0_def mq_ok_def)
  show "allocs_fit als s'" if "tcp_blocks s' \<subseteq> tcp_blocks s \<union> set (alloc_addrs al)"
    using assms that by (fastforce simp: allocs_fit_def)
qed

lemma events_fit:
  assumes "allocs_fit (map ev_alloc es @ als) s"
  shows "events_env es s \<and> (\<forall>s'. process_events es s = Some s' \<longrightarrow> allocs_fit als s')"
  using assms
proof (induction es arbitrary: s)
  case (Cons e es)
  have fit: "allocs_fit (ev_alloc e # map ev_alloc es @ als) s" using Cons.prems by simp
  have "allocs_fit (map ev_alloc es @ als) s1" if "ProcessEventsByFd e s = Some (r, s1)" for r s1
    using allocs_fit_step(2) [OF fit event_blocks [OF that]] .
  then show ?case
    using Cons.IH allocs_fit_step(1) [OF fit] by (auto simp: bind_eq_Some_conv split: option.splits)
qed simp

fun turn_allocs :: "tcp_turn \<Rightarrow> tcp_alloc list" where
  "turn_allocs (T_Epoll evs) = (case evs of None \<Rightarrow> [] | Some es \<Rightarrow> map ev_alloc es)"
| "turn_allocs (T_Process al ok wok) = [al]"

text \<open>Addresses that are used once each are enough.\<close>

lemma tcp_env_distinct: "allocs_fit (concat (map turn_allocs tns)) (fst st) \<Longrightarrow> tcp_env tns st"
proof (induction tns arbitrary: st)
  case (Cons tn tns)
  obtain s buf where st: "st = (s, buf)" by fastforce
  let ?als = "concat (map turn_allocs tns)"
  have "turn_env tn s \<and> (\<forall>st'. tcp_step tn st = Some st' \<longrightarrow> allocs_fit ?als (fst st'))"
  proof (cases tn)
    case (T_Epoll evs)
    then show ?thesis
      using Cons.prems st events_fit [of _ ?als s] by (cases evs) (auto simp: ProcessEpoll_round_def bind_eq_Some_conv)
  next
    case (T_Process al ok wok)
    have fit: "allocs_fit (al # ?als) s" using Cons.prems st T_Process by simp
    show ?thesis
      using st T_Process allocs_fit_step [OF fit] process_blocks by (auto simp: bind_eq_Some_conv)
  qed
  then show ?case using Cons.IH st by (auto split: option.splits)
qed simp

section \<open>The order of messages\<close>

text \<open>Messages to be sent on, and messages to be written out.\<close>

definition for_tcp_client :: "MsgBuf \<Rightarrow> bool" where
  "for_tcp_client m \<longleftrightarrow> mb_type m = PROCESS_MSG \<and> mb_dest m \<noteq> GetServerEndId"

definition for_tcp_server :: "MsgBuf \<Rightarrow> bool" where
  "for_tcp_server m \<longleftrightarrow> mb_type m = PROCESS_MSG \<and> mb_dest m = GetServerEndId"

definition forwarded :: "tspec \<Rightarrow> MsgBuf list" where
  "forwarded x = map (snd \<circ> snd) (filter (\<lambda>(kind, _). kind = Forward) (ts_sent x))"

text \<open>What the clients send: the contents of the receive buffer after each \<open>recv\<close> that is not a report.\<close>

definition received_event :: "tcp_event \<Rightarrow> tspec \<Rightarrow> MsgBuf list" where
  "received_event e x =
     (if ev_fd e = ts_fd x \<or> ev_fd e = 0 \<or> ev_fd e \<notin> fd ` set (ts_conns x) then []
      else case ev_rx e of None \<Rightarrow> []
        | Some bytes \<Rightarrow> let b = recv_into bytes (ts_rx x) in
            if bytes = [] \<or> mb_type b = SAVE_CLI_INFO then [] else [b])"

fun received_events :: "tcp_event list \<Rightarrow> tspec \<Rightarrow> MsgBuf list" where
  "received_events [] x = []"
| "received_events (e # es) x = received_event e x @ received_events es (tspec_event e x)"

definition received_turn :: "tcp_turn \<Rightarrow> tspec \<Rightarrow> MsgBuf list" where
  "received_turn tn x = (case tn of T_Epoll (Some es) \<Rightarrow> received_events es x | _ \<Rightarrow> [])"

fun tcp_received :: "tcp_turn list \<Rightarrow> tspec \<Rightarrow> MsgBuf list" where
  "tcp_received [] x = []"
| "tcp_received (tn # tns) x =
     received_turn tn x @ (case tspec_step tn x of None \<Rightarrow> [] | Some x' \<Rightarrow> tcp_received tns x')"

lemma event_order:
  "ts_queue (tspec_event e x) = ts_queue x @ received_event e x \<and> forwarded (tspec_event e x) = forwarded x \<and>
   ts_written (tspec_event e x) = ts_written x"
  by (auto simp: tspec_event_def received_event_def tspec_accept_def tspec_line_def tspec_input_def forwarded_def Let_def o_def
      split: option.splits)

lemma events_order:
  "ts_queue (fold tspec_event es x) = ts_queue x @ received_events es x \<and> forwarded (fold tspec_event es x) = forwarded x \<and>
   ts_written (fold tspec_event es x) = ts_written x"
  using event_order by (induction es arbitrary: x) auto

lemma tspec_step_order:
  assumes "tspec_step tn x = Some x'"
  shows "forwarded x' @ filter for_tcp_client (ts_queue x') = forwarded x @ filter for_tcp_client (ts_queue x @ received_turn tn x)"
    and "ts_written x' @ map mb_msg (filter for_tcp_server (ts_queue x')) =
      ts_written x @ map mb_msg (filter for_tcp_server (ts_queue x @ received_turn tn x))"
  using assms events_order
  by (cases tn; auto simp: received_turn_def tspec_message_def for_tcp_client_def for_tcp_server_def forwarded_def
      split: option.splits list.splits if_splits)+

lemma tspec_run_order:
  assumes "tspec_run tns x = Some x'"
  shows "forwarded x' @ filter for_tcp_client (ts_queue x') = forwarded x @ filter for_tcp_client (ts_queue x @ tcp_received tns x) \<and>
    ts_written x' @ map mb_msg (filter for_tcp_server (ts_queue x')) =
      ts_written x @ map mb_msg (filter for_tcp_server (ts_queue x @ tcp_received tns x))"
  using assms
proof (induction tns arbitrary: x)
  case (Cons tn tns)
  obtain x1 where x1: "tspec_step tn x = Some x1" "tspec_run tns x1 = Some x'"
    using Cons.prems by (auto simp: bind_eq_Some_conv)
  show ?case using Cons.IH [OF x1(2)] tspec_step_order [OF x1(1)] x1(1) by simp
qed simp

section \<open>Properties\<close>

lemma drop_conn_ids:
  assumes "distinct (map fd cs)"
  shows "set (drop_conn k cs) = {c \<in> set cs. fd c \<noteq> k}"
  using assms by (induction cs) (auto, metis image_eqI)

text \<open>The demonstration server, and events of its clients on descriptors 8 (id 77) and 9 (id 66).\<close>

definition tcp_demo_spec :: tspec where
  "tcp_demo_spec = \<lparr>ts_fd = 5, ts_watched = [5, 0, 8, 9], ts_conns = demo_conns, ts_rx = zero_MsgBuf, ts_text = mb_msg zero_MsgBuf,
     ts_queue = [], ts_sent = [], ts_closed = [], ts_written = []\<rparr>"

definition tcp_demo_alloc :: "nat \<Rightarrow> tcp_alloc" where
  "tcp_demo_alloc n = \<lparr>ta_head = n, ta_node = n + 1, ta_bufs = True,
     ta_lq = \<lparr>lqa_first = n + 2, lqa_ok = True, lqa_node = n + 3, lqa_data = n + 4\<rparr>\<rparr>"

definition tcp_demo_event :: "nat \<Rightarrow> int \<Rightarrow> byte list \<Rightarrow> tcp_event" where
  "tcp_demo_event n k bytes = \<lparr>ev_fd = k, ev_alloc = tcp_demo_alloc n, ev_accept = None, ev_ctl = True,
     ev_rx = Some bytes, ev_send = (\<lambda>_. True)\<rparr>"

definition tcp_demo_turns :: "MsgBuf \<Rightarrow> tcp_turn list" where
  "tcp_demo_turns m = [T_Epoll (Some [tcp_demo_event 20 8 (bytes_of_MsgBuf m)]), T_Process (tcp_demo_alloc 30) (\<lambda>_. True) True]"

lemma tcp_demo_state: "tcp_abs (demo_tsrv, zero_MsgBuf) tcp_demo_spec"
  using demo_tsrv_rep
  by (simp add: tcp_abs_def tcp_view_def tcp_demo_spec_def demo_tsrv_def cur_rx_def cur_text_def two_conns_def)

lemma tcp_demo_blocks: "tcp_blocks demo_tsrv = {1, 2, 3}"
  by (simp add: tcp_blocks_def lq_blocks_def demo_tsrv_def two_conns_def)

lemma tcp_demo_env: "tcp_env (tcp_demo_turns m) (demo_tsrv, zero_MsgBuf)"
  by (rule tcp_env_distinct)
    (simp add: allocs_fit_def tcp_demo_turns_def tcp_demo_event_def tcp_demo_alloc_def alloc_addrs_def tcp_demo_blocks)

lemma demo_buf_fields:
  "mb_type (demo_buf a b) = PROCESS_MSG" "mb_src (demo_buf a b) = a" "mb_dest (demo_buf a b) = b" "PROCESS_MSG \<noteq> SAVE_CLI_INFO"
  by (simp_all add: demo_buf_def zero_MsgBuf_def PROCESS_MSG_def SAVE_CLI_INFO_def)

lemma demo_ids: "by_id 66 demo_conns = Some \<lparr>fd = 9, cliEndid = 66, addr_in = \<lparr>ta_port = 1, ta_addr = 2\<rparr>\<rparr>"
  "by_id 77 demo_conns = Some \<lparr>fd = 8, cliEndid = 77, addr_in = \<lparr>ta_port = 3, ta_addr = 4\<rparr>\<rparr>" "by_id 3 demo_conns = None"
  by (simp_all add: by_id_def demo_conns_def)

lemma tcp_demo_run:
  "tspec_run (tcp_demo_turns (demo_buf 77 66)) tcp_demo_spec = Some (tcp_demo_spec\<lparr>ts_rx := demo_buf 77 66, ts_sent := [(Forward, 9, demo_buf 77 66)]\<rparr>)"
  "tspec_run (tcp_demo_turns (demo_buf 77 3)) tcp_demo_spec = None"
proof -
  have fds: "fd ` set demo_conns = {9, 8}" "ts_fd tcp_demo_spec = 5" "ts_conns tcp_demo_spec = demo_conns"
    "ts_sent tcp_demo_spec = []" "ts_queue tcp_demo_spec = []" "GetServerEndId = 0" "wf_MsgBuf (ts_rx tcp_demo_spec)"
    by (simp_all add: tcp_demo_spec_def demo_conns_def GetServerEndId_def)
  have rx: "recv_into (bytes_of_MsgBuf (demo_buf a b)) (ts_rx tcp_demo_spec) = demo_buf a b" "bytes_of_MsgBuf (demo_buf a b) \<noteq> []" for a b
    using recv_message [OF demo_buf_wf fds(7)] by auto
  show "tspec_run (tcp_demo_turns (demo_buf 77 66)) tcp_demo_spec =
      Some (tcp_demo_spec\<lparr>ts_rx := demo_buf 77 66, ts_sent := [(Forward, 9, demo_buf 77 66)]\<rparr>)"
    "tspec_run (tcp_demo_turns (demo_buf 77 3)) tcp_demo_spec = None"
    by (simp_all add: tcp_demo_turns_def tcp_demo_event_def tspec_event_def tspec_input_def tspec_message_def fds rx demo_ids
        demo_buf_fields Let_def)
qed

text \<open>
  C10. The TCP server refines the abstract server: for every sequence of rounds of the event thread and of the processing
  thread, with any events, bytes, errors and shutdowns, the server does what the abstract server does, and it
  faults exactly when that does: when the processing thread comes to a message of which one end is not known. No
  input to the event thread leads to a fault. (The rounds do not overlap, and memory requests succeed.)
\<close>

theorem tcp_server_refines_spec:
  assumes "tcp_abs st x" "tcp_env tns st"
  shows "case tspec_run tns x of Some x' \<Rightarrow> \<exists>st'. tcp_run tns st = Some st' \<and> tcp_abs st' x' | None \<Rightarrow> tcp_run tns st = None"
  using tcp_run_refines [OF assms] by (simp add: tcp_refines_def split: option.splits)

theorem tcp_server_refines_spec_witness:
  "(\<exists>st'. tcp_run (tcp_demo_turns (demo_buf 77 66)) (demo_tsrv, zero_MsgBuf) = Some st' \<and>
      t_sent (conns (fst st')) = [(9, demo_buf 77 66)]) \<and>
    tcp_run (tcp_demo_turns (demo_buf 77 3)) (demo_tsrv, zero_MsgBuf) = None"
  using tcp_server_refines_spec [OF tcp_demo_state tcp_demo_env, of "demo_buf 77 66"]
    tcp_server_refines_spec [OF tcp_demo_state tcp_demo_env, of "demo_buf 77 3"]
  by (auto simp: tcp_demo_run tcp_abs_def tcp_view_def)

text \<open>
  C11. The TCP server keeps the order of messages: in every run that does not fault, the messages sent on to clients,
  followed by those for clients that still wait, are those sent on or waiting before, followed by those that the event
  thread received, in the order received; and the same holds of the texts written out at the server. None is
  lost, doubled, changed or overtaken.
\<close>

theorem tcp_server_keeps_order:
  assumes "tcp_abs st x" "tcp_env tns st" "tcp_run tns st = Some st'"
  shows "\<exists>x'. tspec_run tns x = Some x' \<and> tcp_abs st' x' \<and>
    forwarded x' @ filter for_tcp_client (ts_queue x') = forwarded x @ filter for_tcp_client (ts_queue x @ tcp_received tns x) \<and>
    ts_written x' @ map mb_msg (filter for_tcp_server (ts_queue x')) =
      ts_written x @ map mb_msg (filter for_tcp_server (ts_queue x @ tcp_received tns x))"
  using tcp_run_refines [OF assms(1,2)] tspec_run_order assms(3)
  by (cases "tspec_run tns x") (fastforce simp: tcp_refines_def)+

theorem tcp_server_keeps_order_witness:
  "\<exists>st' x'. tcp_run (tcp_demo_turns (demo_buf 77 66)) (demo_tsrv, zero_MsgBuf) = Some st' \<and> tcp_abs st' x' \<and>
     forwarded x' = filter for_tcp_client (tcp_received (tcp_demo_turns (demo_buf 77 66)) tcp_demo_spec)"
proof -
  obtain st' where st': "tcp_run (tcp_demo_turns (demo_buf 77 66)) (demo_tsrv, zero_MsgBuf) = Some st'"
    using tcp_run_refines [OF tcp_demo_state tcp_demo_env, of "demo_buf 77 66"] by (auto simp: tcp_demo_run tcp_refines_def)
  have "forwarded tcp_demo_spec = []" "ts_queue tcp_demo_spec = []" by (simp_all add: forwarded_def tcp_demo_spec_def)
  then show ?thesis
    using tcp_server_keeps_order [OF tcp_demo_state tcp_demo_env st'] st' by (fastforce simp: tcp_demo_run)
qed

text \<open>
  C12. A client that sends a message and closes its connection can stop the TCP server. If both events come up before the
  processing thread takes the message, its sender is no longer known and the thread follows a NULL pointer. If
  the thread takes the message in between, it is sent on to its destination and the server goes on.
\<close>

theorem tcp_close_before_processing_crashes:
  assumes "tcp_abs st x" "ts_queue x = []" "c \<in> set (ts_conns x)" "distinct (map fd (ts_conns x))"
    "\<forall>c' \<in> set (ts_conns x). cliEndid c' = cliEndid c \<longrightarrow> c' = c" "fd c \<noteq> ts_fd x" "fd c \<noteq> 0"
    "wf_MsgBuf m" "mb_type m = PROCESS_MSG" "mb_src m = cliEndid c" "mb_dest m \<noteq> GetServerEndId" "by_id (mb_dest m) (ts_conns x) = Some d"
    "ev_fd e1 = fd c" "ev_rx e1 = Some (bytes_of_MsgBuf m)" "ev_fd e2 = fd c" "ev_rx e2 = Some []"
    "tcp_env [T_Epoll (Some [e1, e2]), T_Process al ok wok] st"
    "tcp_env [T_Epoll (Some [e1]), T_Process al ok wok, T_Epoll (Some [e2])] st"
  shows "tcp_run [T_Epoll (Some [e1, e2]), T_Process al ok wok] st = None \<and>
    (\<exists>st'. tcp_run [T_Epoll (Some [e1]), T_Process al ok wok, T_Epoll (Some [e2])] st = Some st' \<and>
      t_sent (conns (fst st')) = t_sent (conns (fst st)) @ [(fd d, m)])"
proof -
  have v: "tcp_view (fst st) x" "wf_MsgBuf (ts_rx x)" using assms(1) get_buf_view(2) by (auto simp: tcp_abs_def)
  note rx = recv_message [OF assms(8) v(2)]
  have e1: "tspec_event e1 x = x\<lparr>ts_rx := m, ts_queue := [m]\<rparr>"
    using assms(2,3,6,7,9,13,14) rx by (simp add: tspec_event_def tspec_input_def demo_buf_fields(4) Let_def)
  have e2: "tspec_event e2 y = y\<lparr>ts_conns := drop_conn (fd c) (ts_conns x), ts_closed := ts_closed y @ [fd c]\<rparr>"
    if "ts_conns y = ts_conns x" "ts_fd y = ts_fd x" for y
    using that assms(3,6,7,15,16) by (simp add: tspec_event_def tspec_input_def)
  have "by_id (mb_src m) (drop_conn (fd c) (ts_conns x)) = None"
    using assms(5,10) drop_conn_ids [OF assms(4)] by (auto simp: by_id_def find_None_iff)
  then have "tspec_run [T_Epoll (Some [e1, e2]), T_Process al ok wok] x = None"
    using e1 e2 [of "x\<lparr>ts_rx := m, ts_queue := [m]\<rparr>"] assms(9) by (simp add: tspec_message_def)
  then have 1: "tcp_run [T_Epoll (Some [e1, e2]), T_Process al ok wok] st = None"
    using tcp_run_refines [OF assms(1,17)] by (simp only: tcp_refines_def option.case)
  have known: "by_id (mb_src m) (ts_conns x) \<noteq> None" using assms(3,10) by (auto simp: by_id_def find_None_iff)
  obtain x' where x': "tspec_run [T_Epoll (Some [e1]), T_Process al ok wok, T_Epoll (Some [e2])] x = Some x'"
    "ts_sent x' = ts_sent x @ [(Forward, fd d, m)]"
    using e1 e2 assms(9,11,12) known by (simp add: tspec_message_def)
  then obtain st' where "tcp_run [T_Epoll (Some [e1]), T_Process al ok wok, T_Epoll (Some [e2])] st = Some st'" "tcp_abs st' x'"
    using tcp_run_refines [OF assms(1,18)] by (auto simp only: tcp_refines_def option.case)
  with 1 x'(2) v(1) show ?thesis by (auto simp only: tcp_abs_def tcp_view_def map_append list.map snd_conv)
qed

theorem tcp_close_before_processing_crashes_witness:
  "tcp_run [T_Epoll (Some [tcp_demo_event 20 8 (bytes_of_MsgBuf (demo_buf 77 66)), tcp_demo_event 30 8 []]),
      T_Process (tcp_demo_alloc 40) (\<lambda>_. True) True] (demo_tsrv, zero_MsgBuf) = None"
proof -
  let ?e1 = "tcp_demo_event 20 8 (bytes_of_MsgBuf (demo_buf 77 66))" and ?e2 = "tcp_demo_event 30 8 []"
  let ?p = "T_Process (tcp_demo_alloc 40) (\<lambda>_. True) True" and ?st = "(demo_tsrv, zero_MsgBuf)"
  let ?c = "\<lparr>fd = 8, cliEndid = 77, addr_in = \<lparr>ta_port = 3, ta_addr = 4\<rparr>\<rparr>"
  have env: "tcp_env [T_Epoll (Some [?e1, ?e2]), ?p] ?st" "tcp_env [T_Epoll (Some [?e1]), ?p, T_Epoll (Some [?e2])] ?st"
    by (rule tcp_env_distinct, simp add: allocs_fit_def tcp_demo_event_def tcp_demo_alloc_def alloc_addrs_def tcp_demo_blocks)+
  have x: "ts_queue tcp_demo_spec = []" "?c \<in> set (ts_conns tcp_demo_spec)" "distinct (map fd (ts_conns tcp_demo_spec))"
    "\<forall>c' \<in> set (ts_conns tcp_demo_spec). cliEndid c' = cliEndid ?c \<longrightarrow> c' = ?c" "fd ?c \<noteq> ts_fd tcp_demo_spec" "fd ?c \<noteq> 0"
    "ts_conns tcp_demo_spec = demo_conns"
    by (simp_all add: tcp_demo_spec_def demo_conns_def)
  have ev: "ev_fd ?e1 = fd ?c" "ev_rx ?e1 = Some (bytes_of_MsgBuf (demo_buf 77 66))" "ev_fd ?e2 = fd ?c" "ev_rx ?e2 = Some []"
    by (simp_all add: tcp_demo_event_def)
  have m: "mb_src (demo_buf 77 66) = cliEndid ?c" "mb_dest (demo_buf 77 66) \<noteq> GetServerEndId"
    "by_id (mb_dest (demo_buf 77 66)) (ts_conns tcp_demo_spec) = Some \<lparr>fd = 9, cliEndid = 66, addr_in = \<lparr>ta_port = 1, ta_addr = 2\<rparr>\<rparr>"
    by (simp_all add: demo_buf_fields GetServerEndId_def x(7) demo_ids)
  show ?thesis
    using tcp_close_before_processing_crashes [OF tcp_demo_state x(1-6) demo_buf_wf demo_buf_fields(1) m ev env] by blast
qed

end
