(* ===== verification/Tcp_Start.thy ===== *)
theory Tcp_Start
  imports Tcp_Run Tcp_Client Process
begin

text \<open>
  The start of the TCP programs: \<open>main\<close> of \<open>socket_tcp/server/server.c\<close> and \<open>socket_tcp/client/client.c\<close> up to the loop they
  wait in, with the table of functions that the log macros call (\<open>common/pre_process\<close>).
\<close>

text \<open>The static structure behind \<open>GetInitModules\<close>; its pointers are \<open>None\<close>, that is \<open>NULL\<close>, before they are set.\<close>

record init_modules =
  im_GetLogFileInfo :: "(LogOp \<Rightarrow> LogOp) option"
  im_GetEndId :: "(32 word option \<Rightarrow> 32 word \<times> 32 word option) option"

text \<open>A process with that structure, the static variables of its \<open>GetEndId\<close>, and what it prints.\<close>

record 'p tcp_process = "'p process" +
  tp_modules :: init_modules
  tp_endId :: "32 word option"
  tp_stdout :: "string list"

text \<open>\<open>GetInitModules()->GetEndId()\<close>\<close>

definition call_GetEndId :: "('p, 'm) tcp_process_scheme \<Rightarrow> (32 word \<times> ('p, 'm) tcp_process_scheme) option" where
  "call_GetEndId p = do {
     f \<leftarrow> im_GetEndId (tp_modules p);
     let (i, e) = f (tp_endId p);
     Some (i, p\<lparr>tp_endId := e\<rparr>) }"

section \<open>The macros\<close>

definition tcp_LCPRINTF :: "string \<Rightarrow> ('p, 'm) tcp_process_scheme \<Rightarrow> ('p, 'm) tcp_process_scheme" where
  "tcp_LCPRINTF msg p = p\<lparr>tp_stdout := tp_stdout p @ [msg]\<rparr>"

definition tcp_DisplayStr :: "string \<Rightarrow> ('p, 'm) tcp_process_scheme \<Rightarrow> ('p, 'm) tcp_process_scheme option" where
  "tcp_DisplayStr msg p = do {
     (i, p) \<leftarrow> call_GetEndId p;
     Some (tcp_LCPRINTF (dec_int (sint i) @ ''-> '' @ msg @ [CHR 0x0A]) p) }"

definition tcp_LocalDbgout ::
  "log_env \<Rightarrow> string \<Rightarrow> nat \<Rightarrow> string \<Rightarrow> string \<Rightarrow> ('p, 'm) tcp_process_scheme \<Rightarrow> ('p, 'm) tcp_process_scheme option" where
  "tcp_LocalDbgout e file line func msg p = do {
     f \<leftarrow> im_GetLogFileInfo (tp_modules p);
     (lg, d) \<leftarrow> Dbgout e (f (log_op p)) file line func msg (log_lib p);
     Some (p\<lparr>log_op := lg, log_lib := d\<rparr>) }"

section \<open>Before the modules\<close>

definition TcpSrvInitPreModules :: "('p, 'm) tcp_process_scheme \<Rightarrow> ('p, 'm) tcp_process_scheme" where
  "TcpSrvInitPreModules p =
     p\<lparr>tp_modules := \<lparr>im_GetLogFileInfo = Some (\<lambda>lg. lg), im_GetEndId = Some (\<lambda>e. (GetServerEndId, e))\<rparr>\<rparr>"

definition TcpCliInitPreModules :: "32 word \<Rightarrow> ('p, 'm) tcp_process_scheme \<Rightarrow> ('p, 'm) tcp_process_scheme" where
  "TcpCliInitPreModules pid p =
     p\<lparr>tp_modules := \<lparr>im_GetLogFileInfo = Some GetTcpClientLogFileInfo, im_GetEndId = Some (GetClientEndId pid)\<rparr>\<rparr>"

definition InitSigleHandle :: "('p, 'm) tcp_process_scheme \<Rightarrow> ('p, 'm) tcp_process_scheme" where
  "InitSigleHandle p = p\<lparr>on_sigpipe := True\<rparr>"

definition TcpSrvPreInit :: "('p, 'm) tcp_process_scheme \<Rightarrow> ('p, 'm) tcp_process_scheme" where
  "TcpSrvPreInit p =
     (let p = InitSigleHandle p; p = TcpSrvInitPreModules p in p\<lparr>log_lib := InitLogFile (log_lib p)\<rparr>)"

definition TcpCliPreInit :: "32 word \<Rightarrow> ('p, 'm) tcp_process_scheme \<Rightarrow> ('p, 'm) tcp_process_scheme" where
  "TcpCliPreInit pid p =
     (let p = InitSigleHandle p; p = TcpCliInitPreModules pid p in p\<lparr>log_lib := InitLogFile (log_lib p)\<rparr>)"

text \<open>\<open>main\<close> up to its waiting loop: the line with the id, then the modules.\<close>

definition tcp_server_program ::
  "int \<times> int \<times> int \<times> int \<Rightarrow> int \<times> bool \<times> bool \<Rightarrow> int \<times> int \<Rightarrow> int \<times> int \<Rightarrow>
   (tcp_server, 'm) tcp_process_scheme \<Rightarrow> (tcp_server, 'm) tcp_process_scheme option" where
  "tcp_server_program sk ep th1 th2 p = do {
     (i, p) \<leftarrow> call_GetEndId (TcpSrvPreInit p);
     let p = tcp_LCPRINTF (''start server endid('' @ dec_int (sint i) @ '')'' @ [CHR 0x0A]) p;
     Some (p\<lparr>prog := tcp_server_main sk ep th1 th2 (prog p)\<rparr>) }"

definition tcp_client_program ::
  "32 word \<Rightarrow> int \<times> int \<Rightarrow> int \<times> int \<Rightarrow> int \<times> int \<Rightarrow> int \<times> int \<Rightarrow>
   (tcp_client, 'm) tcp_process_scheme \<Rightarrow> (tcp_client, 'm) tcp_process_scheme option" where
  "tcp_client_program pid sk th1 th2 th3 p = do {
     (i, p) \<leftarrow> call_GetEndId (TcpCliPreInit pid p);
     let p = tcp_LCPRINTF (''start client endid('' @ dec_int (sint i) @ '')'' @ [CHR 0x0A]) p;
     Some (p\<lparr>prog := tcp_client_main sk th1 th2 th3 (prog p)\<rparr>) }"

section \<open>What the programs can rely on\<close>

lemmas tcp_start_defs = TcpSrvPreInit_def TcpCliPreInit_def InitSigleHandle_def TcpSrvInitPreModules_def TcpCliInitPreModules_def
  call_GetEndId_def tcp_LCPRINTF_def InitLogFile_def Let_def

text \<open>The log and display macros fault in a program that did not run \<open>PreInit\<close>.\<close>

lemma macros_need_PreInit:
  assumes "tp_modules p = \<lparr>im_GetLogFileInfo = None, im_GetEndId = None\<rparr>"
  shows "tcp_LocalDbgout e file line func msg p = None" "tcp_DisplayStr msg p = None"
  using assms by (simp_all add: tcp_LocalDbgout_def tcp_DisplayStr_def call_GetEndId_def)

text \<open>After their start \<open>SIGPIPE\<close> does not end the programs, the id is printed, and the client keeps its process id as its id.\<close>

lemma tcp_server_program_starts:
  "\<exists>p'. tcp_server_program sk ep th1 th2 p = Some p' \<and> on_sigpipe p' \<and> initLogFile (log_lib p') \<and>
    tp_stdout p' = tp_stdout p @ [''start server endid(0)'' @ [CHR 0x0A]] \<and>
    prog p' = tcp_server_main sk ep th1 th2 (prog p) \<and> (\<exists>q. call_GetEndId p' = Some (0, q))"
proof -
  have "dec_int (sint (0 :: 32 word)) = ''0''" by code_simp
  then show ?thesis by (simp add: tcp_server_program_def tcp_start_defs GetServerEndId_def)
qed

lemma tcp_client_program_starts:
  assumes "tp_endId p = None"
  shows "\<exists>p'. tcp_client_program pid sk th1 th2 th3 p = Some p' \<and> on_sigpipe p' \<and> initLogFile (log_lib p') \<and>
    tp_stdout p' = tp_stdout p @ [''start client endid('' @ dec_int (sint pid) @ '')'' @ [CHR 0x0A]] \<and>
    prog p' = tcp_client_main sk th1 th2 th3 (prog p) \<and> (\<exists>q. call_GetEndId p' = Some (pid, q))"
  using assms by (simp add: tcp_client_program_def tcp_start_defs GetClientEndId_def)

text \<open>The first line that a started server logs replaces what an earlier run left in its log.\<close>

lemma tcp_server_first_line:
  assumes "tcp_server_program sk ep th1 th2 p = Some p'" "log_op p = GetTcpServerLogFileInfo" "streams (dbg_fs (log_lib p)) q = None"
    "ev_fopen e = Some (q, pos)" "q \<noteq> NULL" "ev_freopen e" "ev_written e"
    "t = ''[file:'' @ NodirStr file @ '', line:'' @ dec_nat line @ '', func:'' @ func @ '']->'' @ msg" "length t < 1024"
  shows "\<exists>p''. tcp_LocalDbgout e file line func msg p' = Some p'' \<and>
    content (dbg_fs (log_lib p'')) = (content (dbg_fs (log_lib p)))(''/data/zkdata/local/zklog/TcpServer.log'' := log_line e t)"
proof -
  have p': "log_op p' = GetTcpServerLogFileInfo" "log_lib p' = log_lib p\<lparr>initLogFile := True\<rparr>"
    "im_GetLogFileInfo (tp_modules p') = Some (\<lambda>lg. lg)"
    using assms(1,2) by (auto simp: tcp_server_program_def tcp_start_defs)
  have "log_ok (log_op p') (log_lib p')" "call_ok (log_op p') (log_lib p') (e, t)"
    using assms(3-7,9) p' by (simp_all add: log_ok_def call_ok_def GetTcpServerLogFileInfo_def)
  from internal_dbgout_ok [OF this] obtain lg s where "internal_dbgout e (log_op p') t (log_lib p') = Some (lg, s)"
    "content (dbg_fs s) = (content (dbg_fs (log_lib p')))(filePath (log_op p') := log_start (log_op p') (log_lib p') @ log_line e t)"
    by (elim exE conjE) (rule that; assumption)
  then show ?thesis
    using p' assms(8) by (simp add: tcp_LocalDbgout_def Dbgout_def log_start_def) (simp add: GetTcpServerLogFileInfo_def)
qed

end
