(* ===== verification/Spec2Isabelle.thy ===== *)
theory Spec2Isabelle
  imports Seq_Queue Link_Queue Sort_Mains Socket_Pool Udp_Server Udp_Client Tcp_Client Sock_Forward Sock_Client List_Traverse
    Sock_Start Udp_Start Udp_Run Tcp_Start
begin

text \<open>
  A verification of the C programs of this repository: the queue library, the sorting exercises, and the
  client/server message programs over UDP and TCP, all under \<open>src/c/old_practice\<close>.

  \<^bold>\<open>The program and its parts.\<close> \<open>lib_srcs/lib_queue\<close> is a library with an array queue (\<open>seq\<close>) and a linked
  queue (\<open>link\<close>). \<open>practice_srcs/sort_algo\<close> holds six sorting functions. \<open>work_srcs\<close> holds three message
  programs: \<open>socket\<close> (the first version), \<open>socket_udp\<close> and \<open>socket_tcp\<close>. In each, clients type lines, a
  server receives them, and forwards them to the client they are addressed to. \<open>socket\<close> and \<open>socket_udp\<close>
  use the intrusive lists of \<open>list.h\<close>, queues built on them and a thread pool; \<open>socket_tcp\<close> uses \<open>list.h\<close> for
  its connections and the linked queue of the library for its messages. \<open>socket_udp\<close> and \<open>socket_tcp\<close>
  include \<open>list.h\<close> and \<open>link_queue.h\<close> from an installation directory; what is installed there is
  \<open>socket/common/list.h\<close> and the library under \<open>lib_srcs\<close>. Both are built with \<open>LOCAL_DEBUG\<close>.

  \<^bold>\<open>How C is modelled.\<close> A computation that may run into undefined behaviour is in the option monad; \<open>None\<close> is
  undefined behaviour or a loop that does not return (\<open>partial_function\<close>), so a theorem that an operation
  is correct states that the result is \<open>Some\<close>. There is no fuel. The memory of the intrusive lists is
  explicit (\<open>C_Memory\<close>): live blocks, links, payloads; so a double \<open>free\<close>, a dangling pointer and a read of an
  unwritten link are faults. Signed overflow of an \<open>int\<close> is a fault, \<open>uint32_t\<close>, \<open>unsigned char\<close> and
  the ids on the wire are words. What \<open>malloc\<close> returns is an argument of the operation that calls it, and so is
  what a system call returns (\<open>recv\<close>, \<open>read\<close>, \<open>accept\<close>, \<open>epoll_wait\<close>, \<open>pthread_create\<close>, \<dots>); \<open>send\<close>, \<open>write\<close>, \<open>close\<close>
  and the text shown are recorded in lists of the state. A thread's endless loop is modelled by one round, a
  definition with the suffix \<open>_round\<close>, or by a function over the list of its inputs.

  \<^bold>\<open>Shared theories.\<close>
  \<^item> \<open>Prelude\<close>: bytes, addresses, checked arrays, option lemmas, the named collections of rules.
  \<^item> \<open>C_Memory\<close>, \<open>List_Head\<close>: memory and \<open>socket/common/list.h\<close>, every operation of the doubly linked list
    at the level of its pointer writes, with the sequence it represents; deletion, moving, cutting, splicing.
    \<open>List_Traverse\<close>: its traversal macros; locale \<open>traversal\<close>, what a walk relies on.
  \<^item> \<open>Log_Files\<close> (\<open>lib_dbgout\<close>, \<open>socket/libsrcs/logout\<close> and the \<open>*_dbgout\<close> files): files, streams and the two logging libraries.
    \<open>Process\<close>: what the programs have at their start.
  \<^item> \<open>Node_Queue\<close>: what the four queues over \<open>list.h\<close> share; locales \<open>node_queue\<close>, \<open>fifo_queue\<close>, \<open>lifo_queue\<close>.
  \<^item> \<open>Byte_Queue\<close>: the contract of a queue of blocks as a locale with the abstract FIFO it refines.
  \<^item> \<open>Registry\<close>: the contract of a client registry, newest entry first, as a locale.
  \<^item> \<open>Range_Sort\<close>: the argument that sorting by partitioning with a stack of ranges is correct, as a locale.
  \<^item> \<open>Mutex\<close>: the locking discipline of the two thread pools. \<open>C_Strings\<close>: the string functions the clients use.
    \<open>C_Decimal\<close>: \<open>%d\<close>, \<open>%u\<close>, \<open>atoi\<close> and \<open>sprintf\<close> into a buffer of fixed size.

  \<^bold>\<open>Components.\<close>
  \<^item> \<open>Seq_Queue\<close> (\<open>lib_queue/seq\<close>), \<open>Link_Queue\<close> (\<open>lib_queue/link\<close>): both refine the abstract FIFO over every sequence
    of operations; destruction frees exactly what the queue owns.
  \<^item> \<open>Simple_Sorts\<close>, \<open>Quick_Sort\<close> (\<open>sort_algo\<close>): termination, bounds, sortedness and permutation; the bubble sort
    is one round short. \<open>Sort_Mains\<close>: what the six programs print.
  \<^item> \<open>Socket_Queues\<close>, \<open>Socket_Pool\<close> (\<open>socket/common/sock_msg/msg_queue\<close>, \<open>thread_pool\<close>, \<open>server/server_pool\<close>) and
    \<open>Udp_Queues\<close>, \<open>Udp_Pool\<close> (\<open>socket_udp/common\<close>, the pools of server and client): the queues; the pools as
    state machines with one step per access to shared state (\<open>ProcessTask_step\<close>, \<open>AddTaskToPool_step\<close>,
    \<open>pool_task_process_thread_step\<close>, \<open>add_task_to_pool_step\<close>), inductive step relations over any number of threads,
    and invariants by rule induction: mutual exclusion, each task run once, the counter, ownership of arguments. A worker that waits on
    the condition goes on only when it was signalled or woken, which are steps of their own.
  \<^item> \<open>Sock_Msg\<close> (\<open>socket/common/sock_msg\<close>, \<open>pre_modules\<close>): the package of 528 bytes and what is shown of it.
  \<^item> \<open>Sock_Db\<close>, \<open>Sock_Sqlite\<close> (\<open>socket/server/cli_sqlite3\<close>): the table of clients; the texts of the SQL statements are
    built as the code builds them; SQLite is a parameter \<open>ex\<close> with the laws \<open>sqlite_laws\<close>, and \<open>Sock_Sqlite\<close> has an
    engine that reads these texts and satisfies the laws.
  \<^item> \<open>Sock_Tasks\<close> (\<open>socket/server/server_pool\<close>, \<open>client/client_pool\<close>): whole calls of the pool and whole turns of a worker,
    as sequences of the steps of \<open>Socket_Pool\<close>.
  \<^item> \<open>Sock_Server\<close> (\<open>socket/server\<close>: \<open>server.c\<close>, \<open>server_epoll\<close>, \<open>server_socket\<close>, \<open>server_msgqueue\<close>): the state \<open>lc_server\<close>, every
    handler, and \<open>server_run\<close>, any sequence of ready descriptors, turns of the message thread and turns of workers.
    \<open>Sock_Spec\<close> is its abstract specification, \<open>Sock_Forward\<close> the refinement and what follows from it.
  \<^item> \<open>Sock_Modules\<close> (\<open>socket/common/pre_modules\<close>): the block with log file and id, the set-up of server and client;
    \<open>Sock_Start\<close>: \<open>main\<close> of both.
  \<^item> \<open>Sock_Client\<close> (\<open>socket/client\<close>): the descriptors, switching between UDP and TCP in single steps, registration, dialogues, the
    receiving thread and the menu.
  \<^item> \<open>Lc_Msg\<close> (\<open>socket_udp/common/lcmsg\<close>): the message as bytes, its fields and checksum.
  \<^item> \<open>Udp_Channels\<close>, \<open>Udp_Clients\<close>, \<open>Udp_Server\<close>, \<open>Udp_Client\<close> (\<open>socket_udp/server\<close>, \<open>socket_udp/client\<close>): global queues
    set up on first use, the registry, the handlers and thread loops, the dialogues and the menu. \<open>Udp_Start\<close>: start and
    stop of the client, \<open>main\<close> of both programs up to the loop they wait in. \<open>Udp_Run\<close>: the server as a whole, any sequence of
    rounds of its event thread, rounds of its message thread and steps of its workers, which take a task, receive and run the
    handler one after another with the others in between (\<open>udp_run\<close>), against the abstract server \<open>uspec_run\<close>.
  \<^item> \<open>Tcp_Clients\<close>, \<open>Tcp_Queue\<close>, \<open>Tcp_Server\<close>, \<open>Tcp_Client\<close> (\<open>socket_tcp\<close>): the connection list, the message queue,
    accepting, receiving, forwarding and broadcasting, the event loop, the dialogues and the menu. \<open>Tcp_Spec\<close>: the server
    as a whole, any sequence of rounds of its two threads (\<open>tcp_run\<close>), against the abstract server \<open>tspec_run\<close>; \<open>Tcp_Run\<close>: its runs.
    \<open>Tcp_Start\<close>: \<open>main\<close> of both programs, with the functions their macros call.
  \<^item> This theory: the paths of a message and of a registration through client, server and client, in \<open>socket_udp\<close>,
    \<open>socket_tcp\<close> and \<open>socket\<close>; the equivalence of the sorts with the library's \<open>sort\<close>.

  \<^bold>\<open>What the theorems show.\<close> Refinement: the queues and registries refine lists, the client table of \<open>socket\<close>
  refines a map from ids to entries, and every run of its server is a run of an abstract server (\<open>spec_run\<close>) that keeps a
  table, a stack of messages and a list of tasks; it is undefined only at a step at which the
  abstract server faults, where an address of 2^31 or more is read back from the table, and it returns when all addresses are below. Every run of the
  UDP server is a run of an abstract server (\<open>uspec_run\<close>), and it faults exactly when the abstract one does, for a message to a
  client that never registered; no message is lost, and with one worker they keep their order, while two workers can overtake one another. The same is shown of the TCP server (\<open>tspec_run\<close>), whose faults are
  messages with an unknown end.
  Equivalence: the sorting functions compute what the library's \<open>sort\<close> computes, the bubble sort excepted. Safety: in every interleaving of a pool
  each task is run once and a copied argument is there when it runs; copies of size 0 are never freed; the counter of the UDP pool is the one thing its
  threads race on. The client of \<open>socket\<close> never has both descriptors set, but during a switch the one that is set is not that of the current type. The UDP server survives when clients address registered clients, the event loop of the TCP server every input. Liveness: a worker
  that gets the mutex runs the oldest task; a pool comes to rest only when all tasks have been run (no wake-up is lost); loops return. End to end: a line typed for a known client is
  delivered and shown unchanged, and registration works. Where the code does something else than it means to,
  a theorem states what it does: a lost update of a counter, writes behind an array, messages mixed,
  replaced or reversed, a registration that is not updated, NULL pointers followed for unknown ids. The
  log files hold what was logged, and those of \<open>logout\<close> are bounded.

  \<^bold>\<open>Bounds.\<close> The message sizes are those of the code (272, 528 and 1036 bytes, 256, 512 and 1024 bytes of text). Theorems on
  arrays assume lengths an \<open>int\<close> can hold. Addresses read back from the table of \<open>socket\<close> are defined below 2^31; the theorems say what happens at and above. Theorems on servers assume that the allocator returns fresh
  addresses; failing allocations are in the definitions and in the theorems that are about them.

  \<^bold>\<open>Not modelled.\<close> The log lines that the functions of the programs write on their way are left out; the logging libraries
  are modelled by themselves, with the time stamp as an argument. The wrappers of \<open>pthread\<close> and string
  functions are left out, and so is the code under \<open>__LOCAL_ARGV\<close> and \<open>LC_TEST_POOL\<close>, which is not compiled. SQLite is not part of the
  repository, so it is a parameter. In \<open>socket\<close> a call of the pool, of the message queue and of the client
  table is one step of \<open>server_run\<close>, and in \<open>socket_udp\<close> a call of the pool, of the queue or of the client list is part of one step of
  \<open>udp_run\<close>, as are the rounds of the event thread and of the message thread; these calls are inside a mutex in the code, except for the creation on first use, which tests
  its pointer outside: a race of two first calls is not modelled. That calls of the
  pools interleave safely step by step is shown in \<open>Socket_Pool\<close> and \<open>Udp_Pool\<close>. The
  rounds of the TCP server and the operations of its client run one after another in the model except where a theorem interleaves them by name:
  \<open>socket_tcp\<close> has no locks, so its threads' accesses to the shared list and queue are data races in C,
  for which a model by interleaved steps would claim too much.
\<close>

section \<open>A message from one UDP client to another\<close>

text \<open>What the receiver shows: the first fifty bytes of the text.\<close>

lemma displayed: "wf_msg b \<Longrightarrow> DisplayMsgBuf b = \<lparr>out_src = srcEndID b, out_dest = destEndID b, out_data = take 50 (msg_data b)\<rparr>"
  by (auto simp: DisplayMsgBuf_def msg_data_def wf_msg_def sizeof_LcMsg_def LCMSG_DATA_MAXLEN_def intro!: nth_equalityI)

lemma sender_side:
  assumes "pool_holds (g_cliThreadPool c) ts" "\<And>pool. g_cliThreadPool c = Some pool \<Longrightarrow> fresh (tp_mem pool) p"
    "wf_msg junk" "sendable line"
  shows "\<exists>c1 c2 b. SendMsgToOtherClient dest True [(Some line, True, p)] (Some junk) c = Some (False, c1) \<and>
    pool_holds (g_cliThreadPool c1) (ts @ [Task_SendMsgBufToServer (tx_msg (cliEndID c) dest line junk)]) \<and>
    SendMsgBufToServer (tx_msg (cliEndID c) dest line junk) c1 = Some c2 \<and>
    cli_sent c2 = cli_sent c @ [(cli_udpFd c, b, srvAddr c)] \<and>
    wf_msg b \<and> msgType b = DataMsg \<and> srcEndID b = cliEndID c \<and> destEndID b = dest \<and> msg_data b = padded line \<and>
    CheckCheckSum b = Some 1"
proof -
  let ?t = "tx_msg (cliEndID c) dest line junk"
  obtain tp where tp: "AddTaskToPool (g_cliThreadPool c) (Task_SendMsgBufToServer ?t) p = Some (0, tp)"
    "pool_holds tp (ts @ [Task_SendMsgBufToServer ?t])"
    using AddTaskToPool_ok [OF assms(1,2)] by blast
  obtain str where str: "line \<noteq> []" "c_string (padded line) = Some str" "\<not> casestr str zkquit"
    using assms(4) by (auto simp: sendable_def split: option.splits)
  have wf: "wf_msg ?t" using assms(3) by simp
  then have "buf_read ?t 0 sizeof_LcMsg = Some ?t" by (simp add: buf_read_def wf_msg_def)
  then have post: "SendMsgToOtherClient dest True [(Some line, True, p)] (Some junk) c = Some (False, c\<lparr>g_cliThreadPool := tp\<rparr>)"
    using str tp(1) by (simp add: SendMsgToOtherClient_def AddTaskToClientPoolReleaseArgMem_def tx_msg_def padded_def)
  obtain b where "SetCheckSum ?t = Some b" "wf_msg b" "msgType b = msgType ?t" "srcEndID b = srcEndID ?t"
    "destEndID b = destEndID ?t" "msg_data b = msg_data ?t" "CheckCheckSum b = Some 1"
    using checksum_fields [OF wf] by blast
  then show ?thesis
    using post tp(2) tx_fields [OF assms(3) length_padded]
    by (auto simp: SendMsgBufToServer_def tx_msg_def)
qed

lemma receiver_side:
  assumes "pool_holds (g_cliThreadPool r) rs" "\<And>pool. g_cliThreadPool r = Some pool \<Longrightarrow> fresh (tp_mem pool) p" "wf_msg b"
    "length buf = sizeof_LcMsg" "msgType b = DataMsg"
  shows "\<exists>r1 r2. RecvServerMsgThread_round True p (Some b) buf r = Some (b, r1) \<and>
    pool_holds (g_cliThreadPool r1) (rs @ [Task_ProcessServerMsg b]) \<and> ProcessServerMsg ok b r1 = Some r2 \<and>
    cli_shown r2 = cli_shown r @ [\<lparr>out_src = srcEndID b, out_dest = destEndID b, out_data = take 50 (msg_data b)\<rparr>]"
proof -
  obtain tp where tp: "AddTaskToPool (g_cliThreadPool r) (Task_ProcessServerMsg b) p = Some (0, tp)"
    "pool_holds tp (rs @ [Task_ProcessServerMsg b])"
    using AddTaskToPool_ok [OF assms(1,2)] by blast
  have b: "length b = sizeof_LcMsg" "b \<noteq> []" using assms(3) wf_nonempty by (auto simp: wf_msg_def)
  then have "buf_read b 0 sizeof_LcMsg = Some b" by (simp add: buf_read_def)
  then show ?thesis
    using tp b assms(4,5) displayed [OF assms(3)]
    by (simp add: RecvServerMsgThread_round_def AddTaskToClientPoolReleaseArgMem_def ProcessServerMsg_def)
qed

text \<open>
  C8. A line that a client types for another, registered client is delivered. Following the message
  through the program: the sender's dialogue posts it to its pool, the pool's task seals it with the
  checksum and sends it to the server, the server queues it, its processing thread posts it to the
  server's pool, the pool's task looks the destination up and sends the same bytes to the address it
  registered with, the receiver posts it to its own pool and the task shows it: the sender's and the
  receiver's id and the first fifty bytes of the line. No step faults, the checksum of what arrives is
  valid, and nothing else is sent.
\<close>

theorem udp_message_delivered:
  assumes "pool_holds (g_cliThreadPool c) ts" "\<And>pool. g_cliThreadPool c = Some pool \<Longrightarrow> fresh (tp_mem pool) p1"
    "wf_msg junk" "sendable line"
    "srv_rep s cl [] us" "allocs_ok al s" "task_alloc_ok p2 s" "dest \<noteq> SETVER_ENDID" "map_of cl dest = Some A"
    "pool_holds (g_cliThreadPool r) rs" "\<And>pool. g_cliThreadPool r = Some pool \<Longrightarrow> fresh (tp_mem pool) p3"
    "length buf = sizeof_LcMsg"
  shows "\<exists>t c1 c2 b s1 s2 s3 r1 r2.
    SendMsgToOtherClient dest True [(Some line, True, p1)] (Some junk) c = Some (False, c1) \<and>
    pool_holds (g_cliThreadPool c1) (ts @ [Task_SendMsgBufToServer t]) \<and>
    SendMsgBufToServer t c1 = Some c2 \<and> cli_sent c2 = cli_sent c @ [(cli_udpFd c, b, srvAddr c)] \<and>
    PorcessUdpMsg al (Some (b, peer)) s = Some (True, s1) \<and>
    SrvMsgProcessThread_round al True p2 mb s1 = Some (Some b, s2) \<and>
    pool_holds (g_srvThreadPool s2) (us @ [Task_SrvMsgProcessTask b]) \<and>
    SrvMsgProcessTask al (Some b) s2 = Some (True, True, s3) \<and>
    sent s3 = sent s @ [\<lparr>dg_fd = udpFd s, dg_bytes = b, dg_to = A\<rparr>] \<and>
    RecvServerMsgThread_round True p3 (Some b) buf r = Some (b, r1) \<and>
    pool_holds (g_cliThreadPool r1) (rs @ [Task_ProcessServerMsg b]) \<and>
    ProcessServerMsg ok b r1 = Some r2 \<and> CheckCheckSum b = Some 1 \<and>
    cli_shown r2 = cli_shown r @ [\<lparr>out_src = cliEndID c, out_dest = dest, out_data = take 50 (padded line)\<rparr>]"
proof -
  let ?t = "tx_msg (cliEndID c) dest line junk"
  obtain c1 c2 b where c: "SendMsgToOtherClient dest True [(Some line, True, p1)] (Some junk) c = Some (False, c1)"
    "pool_holds (g_cliThreadPool c1) (ts @ [Task_SendMsgBufToServer ?t])" "SendMsgBufToServer ?t c1 = Some c2"
    "cli_sent c2 = cli_sent c @ [(cli_udpFd c, b, srvAddr c)]" and
    b: "wf_msg b" "msgType b = DataMsg" "srcEndID b = cliEndID c" "destEndID b = dest" "msg_data b = padded line"
    "CheckCheckSum b = Some 1"
    using sender_side [OF assms(1-4), of dest] by blast
  obtain s1 where s1: "PorcessUdpMsg al (Some (b, peer)) s = Some (True, s1)" "srv_rep s1 cl ([] @ [b]) us" "sent s1 = sent s"
    "udpFd s1 = udpFd s" "clients s1 = clients s" "g_srvThreadPool s1 = g_srvThreadPool s"
    using PorcessUdpMsg_data [OF assms(5,6) b(1,2)] by blast
  have "task_alloc_ok p2 s1" using assms(7) s1(6) by (simp add: task_alloc_ok_def)
  then obtain s2 where s2: "SrvMsgProcessThread_round al True p2 mb s1 = Some (Some b, s2)"
    "srv_rep s2 cl [] (us @ [Task_SrvMsgProcessTask b])" "sent s2 = sent s1" "udpFd s2 = udpFd s1" "clients s2 = clients s1"
    using SrvMsgProcessThread_round_ok [of s1 cl b "[]" us p2 al mb] s1(2) b(1) by auto
  have al: "cl_alloc_ok al (clients s2)" using allocs_ok_cl [OF assms(6)] s2(5) s1(5) by simp
  obtain s3 where s3: "SrvMsgProcessTask al (Some b) s2 = Some (True, True, s3)"
    "sent s3 = sent s2 @ [\<lparr>dg_fd = udpFd s2, dg_bytes = b, dg_to = A\<rparr>]"
    using SrvMsgProcessTask_forward [OF s2(2) al b(2)] assms(8,9) b(4) by blast
  obtain r1 r2 where r: "RecvServerMsgThread_round True p3 (Some b) buf r = Some (b, r1)"
    "pool_holds (g_cliThreadPool r1) (rs @ [Task_ProcessServerMsg b])" "ProcessServerMsg ok b r1 = Some r2"
    "cli_shown r2 = cli_shown r @ [\<lparr>out_src = srcEndID b, out_dest = destEndID b, out_data = take 50 (msg_data b)\<rparr>]"
    using receiver_side [OF assms(10,11) b(1) assms(12) b(2)] by blast
  have "pool_holds (g_srvThreadPool s2) (us @ [Task_SrvMsgProcessTask b])" using s2(2) by (simp add: srv_rep_def)
  moreover have "sent s3 = sent s @ [\<lparr>dg_fd = udpFd s, dg_bytes = b, dg_to = A\<rparr>]"
    using s3(2) s2(3,4) s1(3,4) by simp
  ultimately show ?thesis using c b(3-6) s1(1) s2(1) s3(1) r by metis
qed

theorem udp_message_delivered_witness:
  "\<exists>b c1 c2 s1 s2 s3 r1 r2 t.
    SendMsgToOtherClient 7 True [(Some [104, 105], True, 5)] (Some (replicate 272 0)) (demo_client 3) = Some (False, c1) \<and>
    SendMsgBufToServer t c1 = Some c2 \<and> cli_sent c2 = [(5, b, \<lparr>sin_port = 1, s_addr = 2\<rparr>)] \<and>
    PorcessUdpMsg demo_allocs (Some (b, \<lparr>sin_port = 8, s_addr = 9\<rparr>)) demo_server = Some (True, s1) \<and>
    SrvMsgProcessThread_round demo_allocs True 20 None s1 = Some (Some b, s2) \<and>
    SrvMsgProcessTask demo_allocs (Some b) s2 = Some (True, True, s3) \<and>
    sent s3 = [\<lparr>dg_fd = 5, dg_bytes = b, dg_to = \<lparr>sin_port = 99, s_addr = 1\<rparr>\<rparr>] \<and>
    RecvServerMsgThread_round True 6 (Some b) (replicate 272 0) (demo_client 7) = Some (b, r1) \<and>
    ProcessServerMsg True b r1 = Some r2 \<and>
    cli_shown r2 = [\<lparr>out_src = 3, out_dest = 7, out_data = take 50 (padded [104, 105])\<rparr>]"
proof -
  have c: "cliEndID (demo_client n) = n" "cli_sent (demo_client n) = []" "cli_shown (demo_client n) = []"
    "cli_udpFd (demo_client n) = 5" "srvAddr (demo_client n) = \<lparr>sin_port = 1, s_addr = 2\<rparr>" for n
    by (simp_all add: demo_client_def)
  have s: "sent demo_server = []" "udpFd demo_server = 5" by (simp_all add: demo_server_def)
  have wf: "wf_msg (replicate 272 0)" "length (replicate 272 (0 :: byte)) = sizeof_LcMsg"
    by (simp_all add: wf_msg_def sizeof_LcMsg_def)
  have f3: "g_cliThreadPool (demo_client 3) = Some pool \<Longrightarrow> fresh (tp_mem pool) 5" for pool
    using demo_client_fresh [of 3 pool 5] by simp
  have f7: "g_cliThreadPool (demo_client 7) = Some pool \<Longrightarrow> fresh (tp_mem pool) 6" for pool
    using demo_client_fresh [of 7 pool 6] by simp
  have d: "7 \<noteq> SETVER_ENDID" "map_of [(7, \<lparr>sin_port = 99, s_addr = 1\<rparr>)] 7 = Some \<lparr>sin_port = 99, s_addr = 1\<rparr>"
    by (simp_all add: SETVER_ENDID_def)
  from udp_message_delivered [where peer = "\<lparr>sin_port = 8, s_addr = 9\<rparr>" and mb = None and ok = True, OF demo_client_pool f3 wf(1) hi_sendable demo_server_rep demo_allocs_ok d
      demo_client_pool f7 wf(2)]
  show ?thesis unfolding c s append_Nil by blast
qed

text \<open>
  C9. Registration: the request a client posts makes the server enter the client's id with the address
  the request came from, so that it is found under that id from then on, and answer to that address;
  the answer sets the client's flag.
\<close>

theorem udp_registration:
  assumes "pool_holds (g_cliThreadPool c) ts" "\<And>pool. g_cliThreadPool c = Some pool \<Longrightarrow> fresh (tp_mem pool) p"
    "wf_msg junk" "g_cliFlag c \<noteq> Freed" "srv_rep s cl ms us" "allocs_ok al s" "LcEndID s = SETVER_ENDID"
  shows "\<exists>t c1 c2 c3 b reply s1. InitClientInfoToServer (Some junk) p c = Some c1 \<and>
    pool_holds (g_cliThreadPool c1) (ts @ [Task_SendMsgBufToServer t]) \<and>
    SendMsgBufToServer t c1 = Some c2 \<and> cli_sent c2 = cli_sent c @ [(cli_udpFd c, b, srvAddr c)] \<and>
    PorcessUdpMsg al (Some (b, A)) s = Some (True, s1) \<and> srv_rep s1 ((cliEndID c, A) # cl) ms us \<and>
    sent s1 = sent s @ [\<lparr>dg_fd = udpFd s, dg_bytes = reply, dg_to = A\<rparr>] \<and>
    ProcessServerMsg True reply c2 = Some c3 \<and> g_cliFlag c3 = Ptr True"
proof -
  let ?t = "set_destEndID SETVER_ENDID (set_srcEndID (cliEndID c) (set_msgType SaveCliInfo junk))"
  obtain tp where tp: "AddTaskToPool (g_cliThreadPool c) (Task_SendMsgBufToServer ?t) p = Some (0, tp)"
    "pool_holds tp (ts @ [Task_SendMsgBufToServer ?t])"
    using AddTaskToPool_ok [OF assms(1,2)] by blast
  obtain b where b: "SetCheckSum ?t = Some b" "wf_msg b" "msgType b = msgType ?t" "srcEndID b = srcEndID ?t"
    "destEndID b = destEndID ?t"
    using checksum_fields [of ?t] assms(3) by auto
  then have b': "msgType b = SaveCliInfo" "srcEndID b = cliEndID c" "destEndID b = LcEndID s"
    using assms(3,7) by simp_all
  obtain s1 where s1: "PorcessUdpMsg al (Some (b, A)) s = Some (True, s1)" "srv_rep s1 ((srcEndID b, A) # cl) ms us"
    "sent s1 = sent s @ [\<lparr>dg_fd = udpFd s, dg_bytes = reg_reply (LcEndID s) (srcEndID b), dg_to = A\<rparr>]"
    using PorcessUdpMsg_register [OF assms(5,6) b(2) b'(1,3)] by blast
  let ?c1 = "c\<lparr>g_cliThreadPool := tp\<rparr>"
  let ?c2 = "?c1\<lparr>cli_sent := cli_sent c @ [(cli_udpFd c, b, srvAddr c)]\<rparr>"
  have "InitClientInfoToServer (Some junk) p c = Some ?c1" "SendMsgBufToServer ?t ?c1 = Some ?c2"
    using tp(1) b(1) by (simp_all add: InitClientInfoToServer_def AddTaskToClientPool_def SendMsgBufToServer_def)
  moreover have "\<exists>c3. ProcessServerMsg True (reg_reply (LcEndID s) (srcEndID b)) ?c2 = Some c3 \<and> g_cliFlag c3 = Ptr True"
    using assms(4) by (cases "g_cliFlag c") (auto simp: ProcessServerMsg_def GetCliFlag_def InitCliFlag_def)
  ultimately show ?thesis using tp(2) s1 b'(2) by fastforce
qed

theorem udp_registration_witness:
  "\<exists>t c1 c2 c3 b reply s1. InitClientInfoToServer (Some (replicate 272 0)) 5 (demo_client 3) = Some c1 \<and>
    SendMsgBufToServer t c1 = Some c2 \<and>
    PorcessUdpMsg demo_allocs (Some (b, \<lparr>sin_port = 8, s_addr = 9\<rparr>)) demo_server = Some (True, s1) \<and>
    srv_rep s1 [(3, \<lparr>sin_port = 8, s_addr = 9\<rparr>), (7, \<lparr>sin_port = 99, s_addr = 1\<rparr>)] [] [] \<and>
    ProcessServerMsg True reply c2 = Some c3 \<and> g_cliFlag c3 = Ptr True"
proof -
  have f: "g_cliThreadPool (demo_client 3) = Some pool \<Longrightarrow> fresh (tp_mem pool) 5" for pool
    using demo_client_fresh [of 3 pool 5] by simp
  have c: "wf_msg (replicate 272 0)" "g_cliFlag (demo_client 3) \<noteq> Freed" "LcEndID demo_server = SETVER_ENDID"
    "cliEndID (demo_client 3) = 3"
    by (simp_all add: wf_msg_def sizeof_LcMsg_def demo_client_def demo_server_def)
  from udp_registration [where A = "\<lparr>sin_port = 8, s_addr = 9\<rparr>",
      OF demo_client_pool f c(1,2) demo_server_rep demo_allocs_ok(1) c(3)]
  show ?thesis unfolding c(4) by blast
qed

section \<open>A message from one TCP client to another\<close>

text \<open>
  C13. A line that a TCP client types for another client is delivered, when both have reported their ids:
  the sender's dialogue hands one message to \<open>send\<close>; the server's event thread receives it on the sender's
  connection and queues it; its processing thread takes it out and sends the same structure on the
  connection of the destination, and on no other; the receiver's thread queues it, and the next one shows
  both ids and the first thirty bytes of the line. No step faults.
\<close>

theorem tcp_message_delivered:
  fixes a r :: tcp_client and n :: int and line :: "byte list"
  defines "b \<equiv> tcp_msg (tc_endId a) (word_of_int n) (tcp_text line)"
  assumes "bufs_ok a" "short_line line" "\<not> quits line"
    "tsrv_rep s cs []" "tcp_alloc_ok (ev_alloc e) s" "ev_fd e \<noteq> serverFd s" "ev_fd e \<noteq> 0"
    "List.extract (\<lambda>c. fd c = ev_fd e) cs = Some (xs, c, ys)" "ev_rx e = Some (bytes_of_MsgBuf b)"
    "by_id (tc_endId a) cs = Some c1" "by_id (word_of_int n) cs = Some d" "word_of_int n \<noteq> GetServerEndId"
    "fresh (t_mem (conns s)) (ta_head al)" "wf_MsgBuf buf"
    "bufs_ok r" "mq_rep0 (tc_queue r) []" "mq_ok0 qal zero_MsgBuf (tc_queue r)"
  shows "\<exists>a1 s1 s2 r1 r2. TxToOtherCli True (Some n) [Some line] a = Some (False, a1) \<and>
    tc_sent a1 = tc_sent a @ [(clientFd a, b)] \<and>
    ProcessEpoll_round (Some [e]) s = Some s1 \<and> ProcessCliMsg_round al ok wok buf s1 = Some (b, s2) \<and>
    t_sent (conns s2) = t_sent (conns s) @ [(fd d, b)] \<and>
    RxFromServer True qal (Some (bytes_of_MsgBuf b)) r = Some (0, r1) \<and> ProcessFromMsgQueue qal' r1 = Some (0, r2) \<and>
    tc_shown r2 = tc_shown r @ [(tc_endId a, word_of_int n, take 30 (tcp_text line))]"
proof -
  have b: "wf_MsgBuf b" "mb_type b = PROCESS_MSG" "mb_src b = tc_endId a" "mb_dest b = word_of_int n" "mb_msg b = tcp_text line"
    using assms(3) by (simp_all add: b_def tcp_msg_wf) (simp_all add: tcp_msg_def)
  have ty: "mb_type b \<noteq> SAVE_CLI_INFO" by (simp add: b(2) PROCESS_MSG_def SAVE_CLI_INFO_def)
  obtain a1 where a1: "TxToOtherCli True (Some n) [Some line] a = Some (False, a1)" "tc_sent a1 = tc_sent a @ [(clientFd a, b)]"
    using tx_loop_lines [OF assms(2), of "[line]" "word_of_int n" "[]"] assms(3,4) by (auto simp: TxToOtherCli_def b_def)
  note rx = recv_message [OF b(1) GetMsgBuf_ok(2) [OF assms(5)]]
  obtain s1 where s1: "ClientMsgEnQueue (ev_alloc e) (ev_send e) (Some (bytes_of_MsgBuf b)) (ev_fd e) s = Some (0, s1)"
    "tsrv_rep s1 cs ([] @ [b])" "t_sent (conns s1) = t_sent (conns s)" "t_mem (conns s1) = t_mem (conns s)"
    using ClientMsgEnQueue_data [OF assms(5,6) rx(2) rx(1) [symmetric] ty] by blast
  have "fresh (t_mem (conns s)) (ta_head (ev_alloc e))" using assms(6) by (simp add: tcp_alloc_ok_def)
  then have ep: "ProcessEpoll_round (Some [e]) s = Some s1"
    using ProcessEventsByFd_known [OF assms(5) _ assms(7,8,9)] s1(1) assms(10) by (simp add: ProcessEpoll_round_def)
  obtain s2 where s2: "ProcessCliMsg_round al ok wok buf s1 = Some (b, s2)" "t_sent (conns s2) = t_sent (conns s1) @ [(fd d, b)]"
    using ProcessCliMsg_forward [of s1 cs b "[]" al buf c1 d ok wok] s1(2,4) assms(11-15) b by auto
  obtain r1 where r1: "RxFromServer True qal (Some (bytes_of_MsgBuf b)) r = Some (0, r1)" "mq_rep (tc_queue r1) [b]"
    "tc_shown r1 = tc_shown r"
    using RxFromServer_data [OF assms(16-18) b(1) ty] by auto
  obtain r2 where r2: "ProcessFromMsgQueue qal' r1 = Some (0, r2)"
    "tc_shown r2 = tc_shown r1 @ [(mb_src b, mb_dest b, take 30 (mb_msg b))]"
    using ProcessFromMsgQueue_ok [OF r1(2)] by blast
  show ?thesis using a1 ep s2 s1(3) r1(1,3) r2 b(3-5) by auto
qed

theorem tcp_message_delivered_witness:
  "\<exists>a1 s1 s2 r1 r2. TxToOtherCli True (Some 66) [Some [104, 105]] (demo_tcli 77) = Some (False, a1) \<and>
    tc_sent a1 = [(3, tcp_msg 77 66 (tcp_text [104, 105]))] \<and>
    ProcessEpoll_round (Some [\<lparr>ev_fd = 8, ev_alloc = demo_talloc, ev_accept = None, ev_ctl = True,
      ev_rx = Some (bytes_of_MsgBuf (tcp_msg 77 66 (tcp_text [104, 105]))), ev_send = (\<lambda>_. True)\<rparr>]) demo_tsrv = Some s1 \<and>
    ProcessCliMsg_round demo_talloc (\<lambda>_. True) True zero_MsgBuf s1 = Some (tcp_msg 77 66 (tcp_text [104, 105]), s2) \<and>
    t_sent (conns s2) = [(9, tcp_msg 77 66 (tcp_text [104, 105]))] \<and>
    RxFromServer True (ta_lq demo_talloc) (Some (bytes_of_MsgBuf (tcp_msg 77 66 (tcp_text [104, 105])))) (demo_tcli 66) = Some (0, r1) \<and>
    ProcessFromMsgQueue no_alloc r1 = Some (0, r2) \<and> tc_shown r2 = [(77, 66, take 30 (tcp_text [104, 105]))]"
proof -
  let ?b = "tcp_msg 77 66 (tcp_text [104, 105])"
  let ?e = "\<lparr>ev_fd = 8, ev_alloc = demo_talloc, ev_accept = None, ev_ctl = True, ev_rx = Some (bytes_of_MsgBuf ?b),
    ev_send = (\<lambda>_. True)\<rparr>"
  let ?c = "\<lparr>fd = 8, cliEndid = 77, addr_in = \<lparr>ta_port = 3, ta_addr = 4\<rparr>\<rparr>"
  let ?d = "\<lparr>fd = 9, cliEndid = 66, addr_in = \<lparr>ta_port = 1, ta_addr = 2\<rparr>\<rparr>"
  have c: "tc_endId (demo_tcli k) = k" "clientFd (demo_tcli k) = 3" "tc_sent (demo_tcli k) = []" "tc_shown (demo_tcli k) = []" for k
    by (simp_all add: demo_tcli_def)
  have s: "serverFd demo_tsrv = 5" "t_sent (conns demo_tsrv) = []" by (simp_all add: demo_tsrv_def two_conns_def)
  have ids: "by_id 77 demo_conns = Some ?c" "by_id 66 demo_conns = Some ?d" "66 \<noteq> GetServerEndId"
    by (simp_all add: by_id_def demo_conns_def GetServerEndId_def)
  have ex: "List.extract (\<lambda>c. fd c = 8) demo_conns = Some ([?d], ?c, [])"
    by (simp add: demo_conns_def extract_def)
  have fr: "fresh (t_mem (conns demo_tsrv)) (ta_head demo_talloc)" using demo_talloc_ok by (simp add: tcp_alloc_ok_def)
  show ?thesis
    using tcp_message_delivered [where a = "demo_tcli 77" and r = "demo_tcli 66" and n = 66 and e = ?e and c = ?c and d = ?d and
        al = demo_talloc and ok = "\<lambda>_. True" and wok = True and qal' = no_alloc and buf = zero_MsgBuf,
        OF demo_tcli_ok demo_lines(1,2) demo_tsrv_rep _ _ _ _ _ _ _ _ fr zero_MsgBuf_wf demo_tcli_ok demo_tcli_queue]
      demo_talloc_ok c s ids ex by simp
qed

text \<open>
  C14. A TCP client's report reaches the server and is answered: the receive thread's first message makes
  the server store the client's id in the entry of the connection it came on, leaving the others alone,
  and send an answer on that connection; the answer sets the client's flag.
\<close>

theorem tcp_registration:
  assumes "bufs_ok a" "tsrv_rep s cs ms" "tcp_alloc_ok (ev_alloc e) s" "ev_fd e \<noteq> serverFd s" "ev_fd e \<noteq> 0"
    "List.extract (\<lambda>c. fd c = ev_fd e) cs = Some (xs, c, ys)"
  shows "\<exists>a1 a2 b s1 reply. InitCliInfoToServer True True a = Some (0, a1) \<and> tc_sent a1 = tc_sent a @ [(clientFd a, b)] \<and>
    ProcessEpoll_round (Some [e\<lparr>ev_rx := Some (bytes_of_MsgBuf b)\<rparr>]) s = Some s1 \<and>
    tsrv_rep s1 (xs @ c\<lparr>cliEndid := tc_endId a\<rparr> # ys) ms \<and> t_sent (conns s1) = t_sent (conns s) @ [(ev_fd e, reply)] \<and>
    RxFromServer True qal (Some (bytes_of_MsgBuf reply)) a1 = Some (0, a2) \<and> initCliInfo a2"
proof -
  obtain rx tx where bufs: "cli_GetMsgBuf True a = Some (rx, tx)" "wf_MsgBuf rx" "wf_MsgBuf tx"
    using cli_bufs [OF assms(1)] .
  let ?b = "tx\<lparr>mb_type := SAVE_CLI_INFO, mb_src := tc_endId a, mb_dest := SERVER_ENDID\<rparr>"
  let ?a1 = "a\<lparr>tc_bufs := Some (rx, ?b), tc_sent := tc_sent a @ [(clientFd a, ?b)]\<rparr>"
  let ?e = "e\<lparr>ev_rx := Some (bytes_of_MsgBuf ?b)\<rparr>"
  have a1: "InitCliInfoToServer True True a = Some (0, ?a1)"
    using bufs(1) by (simp add: InitCliInfoToServer_def Let_def)
  have wf: "wf_MsgBuf ?b" using bufs(3) by (simp add: wf_MsgBuf_def)
  note rx = recv_message [OF wf GetMsgBuf_ok(2) [OF assms(2)]]
  obtain s1 reply where s1: "ClientMsgEnQueue (ev_alloc e) (ev_send e) (Some (bytes_of_MsgBuf ?b)) (ev_fd e) s = Some (0, s1)"
    "tsrv_rep s1 (xs @ c\<lparr>cliEndid := mb_src ?b\<rparr> # ys) ms" "t_sent (conns s1) = t_sent (conns s) @ [(ev_fd e, reply)]"
    "mb_type reply = SAVE_CLI_INFO" "wf_MsgBuf reply"
    using ClientMsgEnQueue_report [OF assms(2,3) rx(2) rx(1) [symmetric] _ assms(6), of "ev_send e"] by auto
  have "fresh (t_mem (conns s)) (ta_head (ev_alloc ?e))" using assms(3) by (simp add: tcp_alloc_ok_def)
  then have ep: "ProcessEpoll_round (Some [?e]) s = Some s1"
    using ProcessEventsByFd_known [of s cs ms ?e xs c ys] assms(2,4-6) s1(1) by (simp add: ProcessEpoll_round_def)
  have clr: "wf_MsgBuf (rx\<lparr>mb_msg := replicate MAX_MSG_LEN 0\<rparr>)" by (simp add: wf_MsgBuf_def)
  have "\<exists>a2. RxFromServer True qal (Some (bytes_of_MsgBuf reply)) ?a1 = Some (0, a2) \<and> initCliInfo a2"
    using recv_message [OF s1(5) clr] s1(4) by (simp add: RxFromServer_def cli_GetMsgBuf_def)
  then obtain a2 where "RxFromServer True qal (Some (bytes_of_MsgBuf reply)) ?a1 = Some (0, a2)" "initCliInfo a2" by blast
  then show ?thesis
    using a1 ep s1(2,3) by (intro exI [of _ ?a1] exI [of _ a2] exI [of _ ?b] exI [of _ s1] exI [of _ reply]) simp
qed

theorem tcp_registration_witness:
  "\<exists>a1 a2 b s1 reply. InitCliInfoToServer True True (demo_tcli 42) = Some (0, a1) \<and>
    ProcessEpoll_round (Some [\<lparr>ev_fd = 9, ev_alloc = demo_talloc, ev_accept = None, ev_ctl = True,
      ev_rx = Some (bytes_of_MsgBuf b), ev_send = (\<lambda>_. True)\<rparr>]) demo_tsrv = Some s1 \<and>
    tsrv_rep s1 [\<lparr>fd = 9, cliEndid = 42, addr_in = \<lparr>ta_port = 1, ta_addr = 2\<rparr>\<rparr>,
      \<lparr>fd = 8, cliEndid = 77, addr_in = \<lparr>ta_port = 3, ta_addr = 4\<rparr>\<rparr>] [] \<and>
    t_sent (conns s1) = [(9, reply)] \<and>
    RxFromServer True no_alloc (Some (bytes_of_MsgBuf reply)) a1 = Some (0, a2) \<and> initCliInfo a2"
proof -
  let ?e = "\<lparr>ev_fd = 9, ev_alloc = demo_talloc, ev_accept = None, ev_ctl = True, ev_rx = None, ev_send = (\<lambda>_. True)\<rparr>"
  have c: "tc_endId (demo_tcli 42) = 42" by (simp add: demo_tcli_def)
  have s: "serverFd demo_tsrv = 5" "t_sent (conns demo_tsrv) = []" by (simp_all add: demo_tsrv_def two_conns_def)
  have ex: "List.extract (\<lambda>c. fd c = ev_fd ?e) demo_conns = Some ([], \<lparr>fd = 9, cliEndid = 66, addr_in = \<lparr>ta_port = 1, ta_addr = 2\<rparr>\<rparr>,
      [\<lparr>fd = 8, cliEndid = 77, addr_in = \<lparr>ta_port = 3, ta_addr = 4\<rparr>\<rparr>])"
    by (simp add: demo_conns_def extract_def)
  have al: "tcp_alloc_ok (ev_alloc ?e) demo_tsrv" using demo_talloc_ok by simp
  show ?thesis
    using tcp_registration [OF demo_tcli_ok demo_tsrv_rep al _ _ ex, of 42 no_alloc] unfolding c s append_Nil by simp blast
qed

section \<open>The program \<open>socket\<close>: a line from client to client\<close>

definition package_out :: "lc_client \<Rightarrow> lc_msg_package_t \<Rightarrow> sock_out" where
  "package_out c b = (if cl_type c = TCP_LINK then Out_tcp (g_cli_tcpfd c) b else Out_udp (g_cli_udpfd c) (srv_udp_addr c) b)"

lemma client_sends:
  assumes "pool_waiting 3 (g_cli_thread_pool c) []" "task_alloc_fresh al (g_cli_thread_pool c)" "cl_type c \<noteq> UNSET" "wf_package b" "i < 3"
  shows "\<exists>c1 c2. send_msg_by_socket al b c = Some c1 \<and> client_worker_turn i c1 = Some c2 \<and>
    lc_out c2 = lc_out c @ [package_out c b] \<and> pool_waiting 3 (g_cli_thread_pool c2) [] \<and> cl_type c2 = cl_type c \<and>
    pool_uses (g_cli_thread_pool c2) \<subseteq> pool_uses (g_cli_thread_pool c) \<union> set (al_addrs al)"
proof -
  obtain pool where p: "send_msg_by_socket al b c = Some (c\<lparr>g_cli_thread_pool := pool\<rparr>)"
    "pool_waiting 3 pool [(sender_of (cl_type c), Some b)]" "pool_uses pool \<subseteq> pool_uses (g_cli_thread_pool c) \<union> set (al_addrs al)"
    using send_msg_by_socket_ok [OF assms(1,2,4,3)] by (auto simp: al_addrs_def)
  let ?c = "c\<lparr>g_cli_thread_pool := pool\<rparr>"
  obtain p2 where w: "client_worker_turn i ?c = Some ((cli_effect (sender_of (cl_type c), Some b) ?c)\<lparr>g_cli_thread_pool := p2\<rparr>)"
    "pool_waiting 3 p2 []" "pool_uses p2 \<subseteq> pool_uses pool"
    using client_worker_ok [of ?c "(sender_of (cl_type c), Some b)" "[]" i] p(2) assms(5) by auto
  have u: "pool_uses p2 \<subseteq> pool_uses (g_cli_thread_pool c) \<union> set (al_addrs al)" using w(3) p(3) by (rule subset_trans)
  from p(1) w(1,2) u show ?thesis
    by (cases "cl_type c") (use assms(3) in \<open>auto simp: sender_of_def package_out_def send_msg_by_tcp_cli_def send_msg_by_udp_cli_def\<close>)
qed

lemma client_receives:
  assumes "pool_waiting 3 (g_cli_thread_pool c) []" "task_alloc_fresh al (g_cli_thread_pool c)" "cl_type c \<noteq> UNSET" "wf_package b" "i < 3"
  shows "\<exists>c1 c2. recv_msg_by_socket al (Some b) c = Some c1 \<and> client_worker_turn i c1 = Some c2 \<and>
    (if pk_type b = SAVE_CLI_INFO_lc then init_cli_info c2 = True \<and> lc_shown c2 = lc_shown c
     else lc_shown c2 = lc_shown c @ [dispaly_msg_package b])"
proof -
  have rb: "recv_package b = b" "b \<noteq> []" using assms(4) by (simp_all add: recv_package_whole wf_package_nonempty)
  obtain pool where p: "post_received al b c = Some (c\<lparr>g_cli_thread_pool := pool\<rparr>)" "pool_waiting 3 pool [received_task b]"
    using post_received_ok [OF assms(1,2,4)] by auto
  let ?c = "c\<lparr>g_cli_thread_pool := pool\<rparr>"
  have r: "recv_msg_by_socket al (Some b) c = Some ?c"
    using p(1) rb assms(3) by (cases "cl_type c") (simp_all add: recv_msg_by_socket_def recv_msg_by_udp_def recv_msg_by_tcp_def)
  obtain p2 where "client_worker_turn i ?c = Some ((cli_effect (received_task b) ?c)\<lparr>g_cli_thread_pool := p2\<rparr>)"
    using client_worker_ok [of ?c "received_task b" "[]" i] p(2) assms(5) by (auto simp: received_task_def split: if_splits)
  then show ?thesis using r by (auto simp: received_task_def complete_init_client_info_def)
qed

text \<open>The package a line becomes; its text is the line padded with zeros.\<close>

definition line_package :: "lc_client \<Rightarrow> int \<Rightarrow> byte list \<Rightarrow> lc_msg_package_t" where
  "line_package c n line = read_data line (set_pk_destid (word_of_int n) (client_base c))"

lemma line_package:
  "wf_package (line_package c n line)" "pk_type (line_package c n line) = type_word (cl_type c)"
  "pk_srcid (line_package c n line) = lc_endid c" "pk_destid (line_package c n line) = word_of_int n"
  "pk_data (line_package c n line) = take MSG_DATA_LEN line @ drop (length line) (replicate MSG_DATA_LEN 0)"
  "dialogue_buf (line_package c n line)"
  by (simp_all add: line_package_def client_base_def zero_package_fields)

lemma type_word_not_save [simp]: "t \<noteq> UNSET \<Longrightarrow> type_word t \<noteq> SAVE_CLI_INFO_lc"
  by (cases t) (simp_all add: type_word_def SAVE_CLI_INFO_lc_def)

text \<open>
  C1. A line that a client of \<open>socket\<close> types for another registered client is delivered, whichever of TCP and UDP each
  of them uses: the dialogue posts a package to the sender's pool and a worker sends it; the server's event
  thread posts a task for the descriptor, whose worker queues the package; the message thread takes it out
  and posts a task, whose worker looks the destination up and sends the same bytes to it and to nobody
  else; the receiver posts it to its pool, and a worker shows both ids and the first fifty bytes. This is when the
  destination's entry reads back, that is for a TCP connection and for a UDP address below 2^31; for a UDP address beyond
  that, the server's lookup is undefined. The line is not empty and does not ask to quit, the destination is in the
  table and is not the server itself, and no other message or task waits in the server and in the two clients' pools.
  Allocations succeed with fresh blocks and SQLite keeps its laws (\<open>events_ok\<close>).
\<close>

theorem sock_message_delivered:
  fixes a r :: lc_client and n :: int and line :: "byte list"
  defines "b \<equiv> line_package a n line"
  assumes "pool_waiting 3 (g_cli_thread_pool a) []" "task_alloc_fresh al (g_cli_thread_pool a)" "cl_type a \<noteq> UNSET" "i < 3"
    "line \<noteq> []" "\<not> quits_lc b"
    "srv_state tab s x" "x_tasks x = []" "x_stack x = []" "client_fd k x" "word_of_int n \<noteq> x_self x"
    "x_tab x (sint (word_of_int n :: 32 word)) = Some l"
    "events_ok tab (arrives e1 e2 j1 k b peer @ processed e3 e4 j2 buf) s"
    "pool_waiting 3 (g_cli_thread_pool r) []" "task_alloc_fresh al' (g_cli_thread_pool r)" "cl_type r \<noteq> UNSET" "i' < 3"
  shows "\<exists>a1 a2 r1 r2. send_msg_to_other_cli (Some n) (CHR 0x0A # inp) [(Some line, al)] a = Some (False, a1) \<and>
    client_worker_turn i a1 = Some a2 \<and> lc_out a2 = lc_out a @ [package_out a b] \<and>
    (if reads_back l
     then \<exists>s1. server_run (arrives e1 e2 j1 k b peer @ processed e3 e4 j2 buf) s = Some s1 \<and>
       srv_out s1 = srv_out s @ deliver (g_srv_udpfd s) (Some l) b
     else server_run (arrives e1 e2 j1 k b peer @ processed e3 e4 j2 buf) s = None) \<and>
    recv_msg_by_socket al' (Some b) r = Some r1 \<and> client_worker_turn i' r1 = Some r2 \<and>
    lc_shown r2 = lc_shown r @ [\<lparr>out_src = lc_endid a, out_dest = word_of_int n,
      out_data = take 50 (line @ replicate 50 0)\<rparr>]"
proof -
  let ?evs = "arrives e1 e2 j1 k b peer @ processed e3 e4 j2 buf"
  note b = line_package [of a n line, folded b_def]
  have ty: "pk_type b \<noteq> SAVE_CLI_INFO_lc" using b(2) assms(4) by simp
  obtain a1 a2 where a: "send_msg_by_socket al b a = Some a1" "client_worker_turn i a1 = Some a2" "lc_out a2 = lc_out a @ [package_out a b]"
    using client_sends [OF assms(2-4) b(1) assms(5)] by blast
  have "send_msg_to_other_cli (Some n) (CHR 0x0A # inp) [(Some line, al)] a = Some (False, a1)"
    using a(1) assms(6,7) dialogue_buf_string [OF b(6)]
    by (simp add: send_msg_to_other_cli_def Let_def b_def line_package_def client_base_def quits_lc_def)
  moreover have "if reads_back l then \<exists>s1. server_run ?evs s = Some s1 \<and> srv_out s1 = srv_out s @ deliver (g_srv_udpfd s) (Some l) b
    else server_run ?evs s = None"
  proof (cases "reads_back l")
    case True
    have P: "x_out x' = x_out x @ deliver (x_udpfd x) (Some l) b" if "spec_run ?evs x x'" for x'
      using that assms(9-13) b(1,4) ty by (auto simp: spec_run_append)
    have safe: "spec_safe ?evs x" using assms(9-13) b(1,4) ty True by (auto simp: spec_safe_append)
    have "g_srv_udpfd s = x_udpfd x" using assms(8) by (simp add: srv_state_def srv_core_def)
    then show ?thesis using server_run_exact [OF assms(8,14) safe P] state_out [OF assms(8)] state_out True by fastforce
  next
    case False
    have "\<not> spec_run ?evs x x'" for x' using assms(9-13) b(1,4) ty False by (auto simp: spec_run_append)
    then show ?thesis using server_run_ok [OF assms(8,14)] False by (auto simp: run_same_def split: option.splits)
  qed
  moreover obtain r1 r2 where r: "recv_msg_by_socket al' (Some b) r = Some r1" "client_worker_turn i' r1 = Some r2"
    "lc_shown r2 = lc_shown r @ [dispaly_msg_package b]"
    using client_receives [OF assms(15-17) b(1) assms(18)] ty by auto
  moreover have shown: "take 50 (pk_data b) = take 50 (line @ replicate 50 0)"
    unfolding b(5) by (auto simp: MSG_DATA_LEN_def min_def)
  moreover have "lc_shown r2 = lc_shown r @ [\<lparr>out_src = lc_endid a, out_dest = word_of_int n, out_data = take 50 (line @ replicate 50 0)\<rparr>]"
    using r(3) displayed_package [OF b(1)] b(3,4) shown by simp
  ultimately show ?thesis using a(2,3) r(1,2) by blast
qed

lemma takeWhile_zero_tail: "takeWhile (\<lambda>b. b \<noteq> 0) (xs @ replicate n (0 :: byte)) = takeWhile (\<lambda>b. b \<noteq> 0) xs"
  by (induction xs) (auto simp: takeWhile_eq_Nil_iff)

lemma line_quits:
  assumes "length line \<le> 512"
  shows "quits_lc (line_package c n line) \<longleftrightarrow> casestr (takeWhile (\<lambda>b. b \<noteq> 0) line) quit_text"
proof -
  let ?m = "set_pk_destid (word_of_int n) (client_base c)"
  have d: "drop 12 ?m = replicate 516 0"
    by (simp add: client_base_def package_defs drop_put_at length_put_at bytes_of_word_def zero_package_def)
  have "length ?m = 528" by (simp add: client_base_def package_defs length_put_at zero_package_def)
  then have "drop 12 (line_package c n line) = line @ replicate (516 - length line) 0"
    using assms d by (simp add: line_package_def read_data_def put_at_def MSG_DATA_LEN_def add.commute drop_drop [symmetric] del: drop_drop)
  then show ?thesis by (simp add: quits_lc_def takeWhile_zero_tail)
qed

text \<open>Client 7 uses TCP, client 8 UDP.\<close>

theorem sock_message_delivered_witness:
  "\<exists>a1 a2 s1 r1 r2. send_msg_to_other_cli (Some 8) ''\<newline>'' [(Some [104, 105], demo_al 0)] (demo_sock_cli 7) = Some (False, a1) \<and>
    client_worker_turn 0 a1 = Some a2 \<and> lc_out a2 = [Out_tcp 4 (line_package (demo_sock_cli 7) 8 [104, 105])] \<and>
    server_run (arrives (demo_env 1) (demo_env 2) 0 9 (line_package (demo_sock_cli 7) 8 [104, 105]) \<lparr>sk_port = 0, sk_ip = 0\<rparr> @
      processed (demo_env 3) (demo_env 4) 1 zero_package) (srv_with [(7, tcp_link 9), (8, udp_link 16777343 99)]) = Some s1 \<and>
    srv_out s1 = [Out_udp 5 \<lparr>sk_port = 99, sk_ip = 16777343\<rparr> (line_package (demo_sock_cli 7) 8 [104, 105])] \<and>
    recv_msg_by_socket (demo_al 0) (Some (line_package (demo_sock_cli 7) 8 [104, 105])) (demo_udp_cli 8) = Some r1 \<and>
    client_worker_turn 1 r1 = Some r2 \<and>
    lc_shown r2 = [\<lparr>out_src = 7, out_dest = 8, out_data = [104, 105] @ replicate 48 0\<rparr>]"
proof -
  let ?b = "line_package (demo_sock_cli 7) 8 [104, 105]"
  have p: "pool_waiting 3 (g_cli_thread_pool (demo_sock_cli 7)) []" "task_alloc_fresh (demo_al 0) (g_cli_thread_pool (demo_sock_cli 7))"
    "cl_type (demo_sock_cli 7) \<noteq> UNSET" "0 < (3 :: nat)" "[104, 105] \<noteq> ([] :: byte list)"
    by (simp_all add: pool_waiting_def demo_al_fresh)
  have q: "\<not> quits_lc ?b" by (simp add: line_quits quit_text_def to_lower_def)
  have r: "pool_waiting 3 (g_cli_thread_pool (demo_udp_cli 8)) []" "task_alloc_fresh (demo_al 0) (g_cli_thread_pool (demo_udp_cli 8))"
    "cl_type (demo_udp_cli 8) \<noteq> UNSET" "1 < (3 :: nat)" "lc_shown (demo_udp_cli 8) = []"
    by (simp_all add: pool_waiting_def demo_al_fresh demo_udp_cli_def new_client_def)
  have x: "x_tasks (spec_with [(7, tcp_link 9), (8, udp_link 16777343 99)]) = []" "x_stack (spec_with [(7, tcp_link 9), (8, udp_link 16777343 99)]) = []"
    "client_fd 9 (spec_with [(7, tcp_link 9), (8, udp_link 16777343 99)])" "word_of_int 8 \<noteq> x_self (spec_with [(7, tcp_link 9), (8, udp_link 16777343 99)])"
    "x_tab (spec_with [(7, tcp_link 9), (8, udp_link 16777343 99)]) (sint (word_of_int 8 :: 32 word)) = Some (udp_link 16777343 99)"
    by (simp_all add: int32_def)
  have e: "events_ok mini_tab (arrives (demo_env 1) (demo_env 2) 0 9 ?b \<lparr>sk_port = 0, sk_ip = 0\<rparr> @
      processed (demo_env 3) (demo_env 4) 1 zero_package) (srv_with [(7, tcp_link 9), (8, udp_link 16777343 99)])"
    by (rule unused_events_ok) (simp_all add: demo_simps arrives_def processed_def)
  note d = sock_message_delivered [OF p q srv_with_state [OF demo_tables(3)] x e r(1-4), of "[]"]
  have rb: "reads_back (udp_link 16777343 99)" by simp
  from d [unfolded if_P [OF rb]] obtain a1 a2 r1 r2 s1 where
    "send_msg_to_other_cli (Some 8) ''\<newline>'' [(Some [104, 105], demo_al 0)] (demo_sock_cli 7) = Some (False, a1)"
    "client_worker_turn 0 a1 = Some a2" "lc_out a2 = lc_out (demo_sock_cli 7) @ [package_out (demo_sock_cli 7) ?b]"
    "server_run (arrives (demo_env 1) (demo_env 2) 0 9 ?b \<lparr>sk_port = 0, sk_ip = 0\<rparr> @ processed (demo_env 3) (demo_env 4) 1 zero_package)
      (srv_with [(7, tcp_link 9), (8, udp_link 16777343 99)]) = Some s1"
    "srv_out s1 = srv_out (srv_with [(7, tcp_link 9), (8, udp_link 16777343 99)]) @
      deliver (g_srv_udpfd (srv_with [(7, tcp_link 9), (8, udp_link 16777343 99)])) (Some (udp_link 16777343 99)) ?b"
    "recv_msg_by_socket (demo_al 0) (Some ?b) (demo_udp_cli 8) = Some r1" "client_worker_turn 1 r1 = Some r2"
    "lc_shown r2 = lc_shown (demo_udp_cli 8) @ [\<lparr>out_src = lc_endid (demo_sock_cli 7), out_dest = word_of_int 8,
      out_data = take 50 ([104, 105] @ replicate 50 0)\<rparr>]" by blast
  moreover have "take 50 ([104, 105] @ replicate 50 0) = [104, 105] @ replicate 48 (0 :: byte)" by (simp add: numeral_eq_Suc)
  ultimately show ?thesis
    by (intro exI [of _ a1] exI [of _ a2] exI [of _ s1] exI [of _ r1] exI [of _ r2]) (simp add: demo_fields r(5) package_out_def)
qed

text \<open>
  C2. Registration: the package that a client sends to register, over TCP or UDP and from any address, makes a server with
  no other message or task waiting answer to the connection or the address it came from, and the answer sets the client's flag. In the table,
  an id that is new gets the connection or the address; the entry of an id that is there is replaced by the connection when the
  client uses TCP, and left as it is when the client uses UDP. Allocations succeed with fresh blocks and SQLite keeps
  its laws (\<open>events_ok\<close>).
\<close>

theorem sock_registration:
  fixes c :: lc_client and tab :: "'db \<Rightarrow> (int \<rightharpoonup> link) option"
  defines "m \<equiv> set_pk_destid g_server_endid (set_pk_srcid (lc_endid c) (set_pk_type SAVE_CLI_INFO_lc zero_package))"
  assumes "pool_waiting 3 (g_cli_thread_pool c) []" "task_alloc_fresh al (g_cli_thread_pool c)" "cl_type c \<noteq> UNSET" "i < 3"
    "srv_state tab s x" "x_tasks x = []" "x_stack x = []" "client_fd k x" "k = x_udpfd x \<longleftrightarrow> cl_type c = UDP_LINK"
    "events_ok tab (arrives e1 e2 j k m a) s"
    "tk_node al' \<noteq> tk_queue al'" "set (al_addrs al') \<inter> insert NULL (pool_uses (g_cli_thread_pool c) \<union> set (al_addrs al)) = {}" "i' < 3"
  shows "\<exists>c1 c2 s1 c3 c4. init_client_info_to_server al c = Some c1 \<and> client_worker_turn i c1 = Some c2 \<and>
    lc_out c2 = lc_out c @ [package_out c m] \<and> server_run (arrives e1 e2 j k m a) s = Some s1 \<and>
    srv_state tab s1 (x\<lparr>x_tab := if cl_type c = TCP_LINK then (x_tab x)(sint (lc_endid c) \<mapsto> tcp_link k)
      else if x_tab x (sint (lc_endid c)) = None then (x_tab x)(sint (lc_endid c) \<mapsto> udp_link (sk_ip a) (sk_port a)) else x_tab x,
      x_out := x_out x @ [if cl_type c = UDP_LINK
        then Out_udp (x_udpfd x) a (reg_package (x_self x) (lc_endid c)) else Out_tcp k (reg_package (x_self x) (lc_endid c))]\<rparr>) \<and>
    recv_msg_by_socket al' (Some (reg_package (x_self x) (lc_endid c))) c2 = Some c3 \<and> client_worker_turn i' c3 = Some c4 \<and>
    init_cli_info c4 = True"
proof -
  have m: "wf_package m" "pk_type m = SAVE_CLI_INFO_lc" "pk_srcid m = lc_endid c" by (simp_all add: m_def)
  let ?reply = "reg_package (x_self x) (lc_endid c)"
  have reply: "wf_package ?reply" "pk_type ?reply = SAVE_CLI_INFO_lc" by (simp_all add: reg_package_def)
  obtain c1 c2 where c: "send_msg_by_socket al m c = Some c1" "client_worker_turn i c1 = Some c2" "lc_out c2 = lc_out c @ [package_out c m]"
    "pool_waiting 3 (g_cli_thread_pool c2) []" "cl_type c2 = cl_type c"
    "pool_uses (g_cli_thread_pool c2) \<subseteq> pool_uses (g_cli_thread_pool c) \<union> set (al_addrs al)"
    using client_sends [OF assms(2-4) m(1) assms(5)] by blast
  have f: "task_alloc_fresh al' (g_cli_thread_pool c2)"
  proof (rule unused_fresh)
    have "set (al_addrs al') \<inter> insert NULL (pool_uses (g_cli_thread_pool c2)) = {}" using c(6) assms(13) by blast
    then show "{tk_queue al', tk_arg al', tk_node al'} \<inter> insert NULL (pool_uses (g_cli_thread_pool c2)) = {}"
      by (simp add: al_addrs_def)
  qed (rule assms(12))
  have ty: "cl_type c = TCP_LINK \<longleftrightarrow> cl_type c \<noteq> UDP_LINK" using assms(4) by (cases "cl_type c") simp_all
  let ?x = "x\<lparr>x_tab := if cl_type c = TCP_LINK then (x_tab x)(sint (lc_endid c) \<mapsto> tcp_link k)
      else if x_tab x (sint (lc_endid c)) = None then (x_tab x)(sint (lc_endid c) \<mapsto> udp_link (sk_ip a) (sk_port a)) else x_tab x,
      x_out := x_out x @ [if cl_type c = UDP_LINK
        then Out_udp (x_udpfd x) a ?reply else Out_tcp k ?reply]\<rparr>"
  have P: "x' = ?x" if "spec_run (arrives e1 e2 j k m a) x x'" for x'
    using that assms(7-10) m ty by (cases "cl_type c = UDP_LINK") (auto simp: reg_udp_def reg_tcp_def)
  have safe: "spec_safe (arrives e1 e2 j k m a) x" using assms(7-10) by simp
  obtain s1 where "server_run (arrives e1 e2 j k m a) s = Some s1" "srv_state tab s1 ?x"
    using server_run_exact [OF assms(6,11) safe, of "\<lambda>x'. x' = ?x"] P by blast
  moreover obtain c3 c4 where "recv_msg_by_socket al' (Some ?reply) c2 = Some c3" "client_worker_turn i' c3 = Some c4" "init_cli_info c4 = True"
    using client_receives [OF c(4) f _ reply(1) assms(14)] c(5) assms(4) reply(2) by auto
  moreover have "init_client_info_to_server al c = Some c1" using c(1) by (simp add: init_client_info_to_server_def m_def)
  ultimately show ?thesis using c(2,3) by blast
qed

theorem sock_registration_witness:
  "\<exists>c1 c2 s1 c3 c4 m. init_client_info_to_server (demo_al 0) (demo_sock_cli 7) = Some c1 \<and> client_worker_turn 0 c1 = Some c2 \<and>
    lc_out c2 = [Out_tcp 4 m] \<and>
    server_run (arrives (demo_env 1) (demo_env 2) 0 9 m \<lparr>sk_port = 0, sk_ip = 0\<rparr>) (srv_with []) = Some s1 \<and>
    srv_state mini_tab s1 ((spec_with [])\<lparr>x_tab := [7 \<mapsto> tcp_link 9], x_out := [Out_tcp 9 (reg_package 0 7)]\<rparr>) \<and>
    recv_msg_by_socket (demo_al 1) (Some (reg_package 0 7)) c2 = Some c3 \<and> client_worker_turn 2 c3 = Some c4 \<and> init_cli_info c4 = True"
proof -
  let ?m = "set_pk_destid g_server_endid (set_pk_srcid (lc_endid (demo_sock_cli 7)) (set_pk_type SAVE_CLI_INFO_lc zero_package))"
  have p: "pool_waiting 3 (g_cli_thread_pool (demo_sock_cli 7)) []" "task_alloc_fresh (demo_al 0) (g_cli_thread_pool (demo_sock_cli 7))"
    "cl_type (demo_sock_cli 7) \<noteq> UNSET" "0 < (3 :: nat)"
    by (simp_all add: pool_waiting_def demo_al_fresh)
  have x: "x_tasks (spec_with []) = []" "x_stack (spec_with []) = []" "client_fd 9 (spec_with [])"
    "9 = x_udpfd (spec_with []) \<longleftrightarrow> cl_type (demo_sock_cli 7) = UDP_LINK"
    by (simp_all add: int32_def)
  have e: "events_ok mini_tab (arrives (demo_env 1) (demo_env 2) 0 9 ?m \<lparr>sk_port = 0, sk_ip = 0\<rparr>) (srv_with [])"
    by (rule unused_events_ok) (simp_all add: demo_simps arrives_def)
  have al: "tk_node (demo_al 1) \<noteq> tk_queue (demo_al 1)"
    "set (al_addrs (demo_al 1)) \<inter> insert NULL (pool_uses (g_cli_thread_pool (demo_sock_cli 7)) \<union> set (al_addrs (demo_al 0))) = {}"
    by (simp_all add: demo_al_def al_addrs_def pool_uses_def)
  from sock_registration [OF p srv_with_state [OF demo_tables(1)] x e al, of 2] show ?thesis
    by (simp add: package_out_def reg_tcp_def) blast
qed

section \<open>The sorting functions agree with the library's\<close>

text \<open>
  C29. Five of the six sorting functions return the same array as a reference sort: insertion, shell and selection sort
  the reversed one, both quick sorts the ascending one, whatever the input, as long as the array is not
  empty and its length does not make \<open>start + end\<close> overflow.
\<close>

theorem sorts_equal_reference:
  assumes "a \<noteq> []" "2 * int (length a) \<le> INT_MAX"
  shows "lc_insert_sort a (int (length a)) = Some (rev (sort a), rev (sort a)) \<and>
    lc_shell_sort a (int (length a)) = lc_insert_sort a (int (length a)) \<and>
    lc_selection_sort a (4 * length a) = lc_insert_sort a (int (length a)) \<and>
    lc_quick_sort a (int (length a)) = Some (sort a, sort a) \<and>
    map_option fst (quick_sort a (int (length a))) = Some (sort a)"
proof -
  have n: "int (length a) \<le> INT_MAX" using assms(2) by simp
  have d: "lc_insert_sort a (int (length a)) = Some (rev (sort a), rev (sort a))"
    "lc_shell_sort a (int (length a)) = Some (rev (sort a), rev (sort a))"
    "lc_selection_sort a (4 * length a) = Some (rev (sort a), rev (sort a))"
    using lc_insert_sort_ok [of a] lc_shell_sort_ok [of a] lc_selection_sort_ok [OF n] by (auto dest!: descending_unique)
  have u: "lc_quick_sort a (int (length a)) = Some (sort a, sort a)" "map_option fst (quick_sort a (int (length a))) = Some (sort a)"
    using lc_quick_sort_ok [OF assms(1)] quick_sort_ok [OF assms(2)] by (auto dest!: ascending_unique)
  show ?thesis using d u by simp
qed

theorem sorts_equal_reference_witness:
  "lc_shell_sort [3, 1, 2] 3 = Some ([3, 2, 1], [3, 2, 1]) \<and> lc_quick_sort [3, 1, 2] 3 = Some ([1, 2, 3], [1, 2, 3]) \<and>
   lc_selection_sort [3, 1, 2] 12 = Some ([3, 2, 1], [3, 2, 1])"
  using sorts_equal_reference [of "[3, 1, 2]"] by (simp add: INT_MAX_def)

end
